(* ===== verification/Prelude.thy ===== *)
theory Prelude imports Main "HOL-Library.Word" "HOL-Library.Monad_Syntax" begin

text \<open>
  Shared vocabulary of the development: the machine integer types of the firmware, byte buffers with
  checked access, counted loops, little-endian words, and the packing of bit sequences into bytes,
  least significant bit first, that every JTAG transfer of the probe uses.

  Memory faults (an access outside an object, a null pointer that is read) are the value \<open>None\<close> of
  an option type, so that a theorem that a function returns \<open>Some\<close> excludes them.
\<close>

unbundle bit_operations_syntax

type_synonym u8 = "8 word"
type_synonym u16 = "16 word"
type_synonym u32 = "32 word"

named_theorems buf_simps \<open>checked reads and writes of byte buffers\<close>
named_theorems trace_simps \<open>what a bus event does to the pins, the TCK edges and the TDO samples\<close>

subsection \<open>Checked access to a C array\<close>

definition rd :: "'a list \<Rightarrow> nat \<Rightarrow> 'a option" where
  "rd xs i = (if i < length xs then Some (xs ! i) else None)"

definition wr :: "'a list \<Rightarrow> nat \<Rightarrow> 'a \<Rightarrow> 'a list option" where
  "wr xs i v = (if i < length xs then Some (xs[i := v]) else None)"

text \<open>\<open>memcpy (&dst[off], src, length src)\<close>.\<close>

definition memcpy_at :: "'a list \<Rightarrow> nat \<Rightarrow> 'a list \<Rightarrow> 'a list option" where
  "memcpy_at dst off src =
     (if off + length src \<le> length dst
      then Some (take off dst @ src @ drop (off + length src) dst) else None)"

lemma rd_Some [buf_simps]: "i < length xs \<Longrightarrow> rd xs i = Some (xs ! i)"
  by (simp add: rd_def)

lemma rd_None [buf_simps]: "length xs \<le> i \<Longrightarrow> rd xs i = None"
  by (simp add: rd_def)

lemma rd_SomeD: "rd xs i = Some v \<Longrightarrow> i < length xs \<and> v = xs ! i"
  by (auto simp: rd_def split: if_splits)

lemma wr_Some [buf_simps]: "i < length xs \<Longrightarrow> wr xs i v = Some (xs[i := v])"
  by (simp add: wr_def)

lemma wr_None [buf_simps]: "length xs \<le> i \<Longrightarrow> wr xs i v = None"
  by (simp add: wr_def)

lemma wr_length: "wr xs i v = Some ys \<Longrightarrow> length ys = length xs"
  by (auto simp: wr_def split: if_splits)

lemma memcpy_at_Some [buf_simps]:
  "off + length src \<le> length dst \<Longrightarrow>
     memcpy_at dst off src = Some (take off dst @ src @ drop (off + length src) dst)"
  by (simp add: memcpy_at_def)

lemma memcpy_at_None [buf_simps]:
  "length dst < off + length src \<Longrightarrow> memcpy_at dst off src = None"
  by (simp add: memcpy_at_def)

lemma memcpy_at_length: "memcpy_at dst off src = Some d \<Longrightarrow> length d = length dst"
  by (auto simp: memcpy_at_def split: if_splits)

subsection \<open>Counted loops whose body may fault\<close>

fun for_each :: "('i \<Rightarrow> 's \<Rightarrow> 's option) \<Rightarrow> 'i list \<Rightarrow> 's \<Rightarrow> 's option" where
  "for_each f [] s = Some s"
| "for_each f (i # is) s = do { s' \<leftarrow> f i s; for_each f is s' }"

lemma for_each_append:
  "for_each f (xs @ ys) s = do { s' \<leftarrow> for_each f xs s; for_each f ys s' }"
  by (induction xs arbitrary: s) (auto split: bind_split)

lemma for_each_Some: "for_each (\<lambda>i s. Some (f i s)) xs s = Some (fold f xs s)"
  by (induction xs arbitrary: s) simp_all

text \<open>The loop rule: an invariant indexed by the number of completed iterations.\<close>

lemma for_each_upt:
  assumes "P 0 s" and "\<And>i s. i < n \<Longrightarrow> P i s \<Longrightarrow> \<exists>s'. f i s = Some s' \<and> P (Suc i) s'"
  shows "\<exists>s'. for_each f [0..<n] s = Some s' \<and> P n s'"
  using assms(2)
proof (induction n)
  case 0
  with assms(1) show ?case by simp
next
  case (Suc n)
  then obtain s' where "for_each f [0..<n] s = Some s'" "P n s'"
    by (metis less_SucI)
  moreover from this Suc.prems obtain s'' where "f n s' = Some s''" "P (Suc n) s''"
    by blast
  ultimately show ?case by (simp add: for_each_append)
qed

subsection \<open>Little-endian words\<close>

definition le16 :: "u8 \<Rightarrow> u8 \<Rightarrow> u32" where
  "le16 b0 b1 = ucast b0 OR push_bit 8 (ucast b1)"

definition le32 :: "u8 \<Rightarrow> u8 \<Rightarrow> u8 \<Rightarrow> u8 \<Rightarrow> u32" where
  "le32 b0 b1 b2 b3 =
     ucast b0 OR push_bit 8 (ucast b1) OR push_bit 16 (ucast b2) OR push_bit 24 (ucast b3)"

definition byte_of :: "nat \<Rightarrow> u32 \<Rightarrow> u8" where
  "byte_of k w = ucast (drop_bit (8 * k) w AND 0xFF)"

lemma bit_byte_of: "bit (byte_of k w) n \<longleftrightarrow> n < 8 \<and> bit w (8 * k + n)"
proof -
  have "bit (0xFF :: u32) n \<longleftrightarrow> n < 8"
    using bit_mask_iff [where 'a = u32, of 8 n] by (auto simp: mask_eq_exp_minus_1)
  then show ?thesis
    by (auto simp: byte_of_def bit_simps dest: bit_imp_le_length)
qed

lemma le32_byte_of: "le32 (byte_of 0 w) (byte_of 1 w) (byte_of 2 w) (byte_of 3 w) = w"
proof (rule bit_word_eqI)
  fix n assume "n < LENGTH(32)"
  then consider "n < 8" | "8 \<le> n" "n < 16" | "16 \<le> n" "n < 24" | "24 \<le> n" "n < 32"
    by fastforce
  then show "bit (le32 (byte_of 0 w) (byte_of 1 w) (byte_of 2 w) (byte_of 3 w)) n = bit w n"
    by cases (auto simp: le32_def bit_simps bit_byte_of)
qed

subsection \<open>Bits packed into bytes, least significant bit first\<close>

definition byte_of_bits :: "bool list \<Rightarrow> u8" where
  "byte_of_bits bs = horner_sum of_bool 2 bs"

fun pack_lsb :: "bool list \<Rightarrow> u8 list" where
  "pack_lsb [] = []"
| "pack_lsb (b # bs) = byte_of_bits (take 8 (b # bs)) # pack_lsb (drop 7 bs)"

text \<open>Bit \<open>i\<close> of a packed sequence, as the code's \<open>data[i / 8] & (1U << (i % 8))\<close>.\<close>

definition packed_bit :: "u8 list \<Rightarrow> nat \<Rightarrow> bool" where
  "packed_bit bs i = bit (bs ! (i div 8)) (i mod 8)"

definition unpack_lsb :: "nat \<Rightarrow> u8 list \<Rightarrow> bool list" where
  "unpack_lsb n bs = map (packed_bit bs) [0..<n]"

lemma bit_byte_of_bits: "bit (byte_of_bits bs) n \<longleftrightarrow> n < 8 \<and> n < length bs \<and> bs ! n"
  by (auto simp: byte_of_bits_def bit_horner_sum_bit_word_iff)

lemma byte_of_bits_Nil [simp]: "byte_of_bits [] = 0"
  by (simp add: byte_of_bits_def)

lemma byte_of_bits_snoc:
  "byte_of_bits (bs @ [b]) = (if b then byte_of_bits bs OR push_bit (length bs) 1 else byte_of_bits bs)"
  by (rule bit_word_eqI) (auto simp: bit_byte_of_bits bit_simps nth_append less_Suc_eq)

lemma pack_lsb_append:
  "8 dvd length xs \<Longrightarrow> pack_lsb (xs @ ys) = pack_lsb xs @ pack_lsb ys"
proof (induction xs rule: pack_lsb.induct)
  case 1
  then show ?case by simp
next
  case (2 b bs)
  then have len: "8 \<le> length (b # bs)" by (auto dest: dvd_imp_le)
  moreover have "8 dvd length (drop 7 bs)"
    using 2(2) len by simp presburger
  ultimately show ?case using 2(1) by simp
qed

lemma pack_lsb_short: "bs \<noteq> [] \<Longrightarrow> length bs \<le> 8 \<Longrightarrow> pack_lsb bs = [byte_of_bits bs]"
  by (cases bs) simp_all

lemma length_pack_lsb: "length (pack_lsb bs) = (length bs + 7) div 8"
proof (induction bs rule: pack_lsb.induct)
  case 1
  then show ?case by simp
next
  case (2 b bs)
  then show ?case by (cases "length bs < 7") auto
qed

lemma packed_bit_pack_lsb: "i < length bs \<Longrightarrow> packed_bit (pack_lsb bs) i = bs ! i"
proof (induction bs arbitrary: i rule: pack_lsb.induct)
  case 1
  then show ?case by simp
next
  case (2 b bs)
  show ?case
  proof (cases "i < 8")
    case True
    with 2(2) show ?thesis
      by (cases i) (auto simp: packed_bit_def bit_byte_of_bits)
  next
    case False
    then obtain j where j: "i = j + 8" by (metis le_add_diff_inverse2 not_less)
    with 2(2) have "j < length (drop 7 bs)" by simp
    then have "packed_bit (pack_lsb (drop 7 bs)) j = drop 7 bs ! j" by (rule 2(1))
    moreover have "(j + 8) div 8 = Suc (j div 8)" "(j + 8) mod 8 = j mod 8" by simp_all
    ultimately show ?thesis using j 2(2) by (simp add: packed_bit_def)
  qed
qed

lemma bit_push_1: "k < 32 \<Longrightarrow> bit (push_bit k (1 :: u32)) n \<longleftrightarrow> n = k"
  by (auto simp: bit_simps)

lemma unpack_pack_lsb: "unpack_lsb (length bs) (pack_lsb bs) = bs"
  by (rule nth_equalityI) (auto simp: unpack_lsb_def packed_bit_pack_lsb)

subsection \<open>The bit packer\<close>

text \<open>
  Both capture loops of the firmware collect TDO bits in a byte \<open>byt\<close> at position \<open>k\<close>, and store
  the byte at \<open>buf[pos++]\<close> when it is full. \<open>packed\<close> relates that state, begun at position \<open>base\<close>
  of the buffer \<open>buf0\<close>, to the bits collected so far.
\<close>

definition packed :: "nat \<Rightarrow> u8 list \<Rightarrow> bool list \<Rightarrow> u8 \<Rightarrow> nat \<Rightarrow> nat \<Rightarrow> u8 list \<Rightarrow> bool" where
  "packed base buf0 bits byt k pos buf \<longleftrightarrow>
     (let q = length bits div 8 in
      k = length bits mod 8 \<and> pos = base + q \<and>
      base + length (pack_lsb bits) \<le> length buf0 \<and>
      byt = byte_of_bits (drop (8 * q) bits) \<and>
      buf = take base buf0 @ pack_lsb (take (8 * q) bits) @ drop (base + q) buf0)"

definition overwritten :: "nat \<Rightarrow> u8 list \<Rightarrow> u8 list \<Rightarrow> u8 list" where
  "overwritten base buf0 bs = take base buf0 @ bs @ drop (base + length bs) buf0"

lemma length_overwritten:
  "base + length bs \<le> length buf0 \<Longrightarrow> length (overwritten base buf0 bs) = length buf0"
  by (simp add: overwritten_def)

lemma overwritten_Nil [simp]: "overwritten base buf0 [] = buf0"
  by (simp add: overwritten_def)

lemma overwritten_append:
  "base + length xs \<le> length buf0 \<Longrightarrow>
     overwritten (base + length xs) (overwritten base buf0 xs) ys = overwritten base buf0 (xs @ ys)"
  by (simp add: overwritten_def ac_simps)

lemma packed_init: "base \<le> length buf \<Longrightarrow> packed base buf [] 0 0 base buf"
  by (simp add: packed_def)

lemma drop_full_bytes: "8 * (length bits div 8) + length bits mod 8 = length bits"
  by simp

lemma pack_lsb_take_full:
  assumes "length xs mod 8 = 7"
  shows "pack_lsb (xs @ [b]) =
    pack_lsb (take (8 * (length xs div 8)) xs) @ [byte_of_bits (drop (8 * (length xs div 8)) xs @ [b])]"
proof -
  let ?q = "8 * (length xs div 8)"
  have "pack_lsb (xs @ [b]) = pack_lsb (take ?q xs @ (drop ?q xs @ [b]))"
    by (metis append.assoc append_take_drop_id)
  also have "\<dots> = pack_lsb (take ?q xs) @ pack_lsb (drop ?q xs @ [b])"
    by (rule pack_lsb_append) simp
  also have "pack_lsb (drop ?q xs @ [b]) = [byte_of_bits (drop ?q xs @ [b])]"
    using assms by (intro pack_lsb_short) (auto simp: minus_mult_div_eq_mod)
  finally show ?thesis .
qed

lemma packed_step_within:
  assumes "packed base buf0 bits byt k pos buf" and "Suc k < 8"
    and "base + (length bits + 8) div 8 \<le> length buf0"
  shows "packed base buf0 (bits @ [b]) (if b then byt OR push_bit k 1 else byt) (Suc k) pos buf"
proof -
  have "Suc (length bits mod 8) < 8"
    using assms by (simp add: packed_def Let_def)
  then have "Suc (length bits) div 8 = length bits div 8"
    and "Suc (length bits) mod 8 = Suc (length bits mod 8)"
    by (simp_all add: div_Suc mod_Suc)
  then show ?thesis
    using assms
    by (auto simp: packed_def Let_def byte_of_bits_snoc length_pack_lsb minus_mult_div_eq_mod)
qed

lemma packed_step_full:
  assumes "packed base buf0 bits byt k pos buf" and "Suc k = 8"
    and "base + (length bits + 8) div 8 \<le> length buf0"
  shows "\<exists>buf'. wr buf pos (if b then byt OR push_bit k 1 else byt) = Some buf' \<and>
     packed base buf0 (bits @ [b]) 0 0 (Suc pos) buf'"
proof -
  let ?q = "length bits div 8"
  have k: "length bits mod 8 = 7" using assms by (simp add: packed_def Let_def)
  then have q: "Suc (length bits) div 8 = Suc ?q" "Suc (length bits) mod 8 = 0"
    by (simp_all add: div_Suc mod_Suc)
  have len: "length (pack_lsb (take (8 * ?q) bits)) = ?q"
    by (simp add: length_pack_lsb)
  have room: "base + ?q < length buf0" using assms(3) by simp
  have full: "8 * Suc ?q = length (bits @ [b])"
    using k drop_full_bytes [of bits] by simp
  have byt: "(if b then byt OR push_bit k 1 else byt) = byte_of_bits (drop (8 * ?q) bits @ [b])"
    using assms(1) by (simp add: packed_def Let_def byte_of_bits_snoc minus_mult_div_eq_mod)
  have "pos < length buf" and upd: "buf[pos := v] =
      take base buf0 @ (pack_lsb (take (8 * ?q) bits) @ [v]) @ drop (base + Suc ?q) buf0" for v
    using assms(1) room len
    by (auto simp: packed_def Let_def list_update_append Cons_nth_drop_Suc [symmetric])
  then show ?thesis
    using assms(3) q full room
    by (auto simp: wr_def byt packed_def Let_def pack_lsb_take_full [OF k] length_pack_lsb assms(1) [unfolded packed_def Let_def])
qed

lemma packed_finish:
  assumes "packed base buf0 bits byt k pos buf"
  shows "k = 0 \<Longrightarrow> buf = overwritten base buf0 (pack_lsb bits)"
    and "k > 0 \<Longrightarrow> wr buf pos byt = Some (overwritten base buf0 (pack_lsb bits))"
    and "k = 0 \<Longrightarrow> pos = base + length (pack_lsb bits)"
    and "k > 0 \<Longrightarrow> Suc pos = base + length (pack_lsb bits)"
proof -
  let ?q = "length bits div 8"
  have split: "pack_lsb bits = pack_lsb (take (8 * ?q) bits) @ pack_lsb (drop (8 * ?q) bits)"
    by (subst pack_lsb_append [symmetric]) auto
  have len: "length (pack_lsb (take (8 * ?q) bits)) = ?q"
    by (simp add: length_pack_lsb)
  show "buf = overwritten base buf0 (pack_lsb bits)" "pos = base + length (pack_lsb bits)" if "k = 0"
    using assms that split len
    by (auto simp: packed_def Let_def overwritten_def minus_mult_div_eq_mod)
  assume "k > 0"
  with assms have r: "0 < length bits mod 8" by (simp add: packed_def Let_def)
  with drop_full_bytes [of bits] have lt: "8 * ?q < length bits" by linarith
  then have short: "pack_lsb (drop (8 * ?q) bits) = [byte_of_bits (drop (8 * ?q) bits)]"
    using lt by (intro pack_lsb_short) (auto simp: minus_mult_div_eq_mod)
  have room: "base + ?q < length buf0"
    using assms split len short by (simp add: packed_def Let_def)
  show "Suc pos = base + length (pack_lsb bits)"
    using assms split len short by (simp add: packed_def Let_def)
  show "wr buf pos byt = Some (overwritten base buf0 (pack_lsb bits))"
    using assms split len short room
    by (auto simp: packed_def Let_def overwritten_def wr_def list_update_append
        Cons_nth_drop_Suc [symmetric])
qed

subsection \<open>Sixteen-bit registers bit by bit\<close>

lemma below16:
  "n < 16 \<Longrightarrow> n = (15 :: nat) \<or> n = 14 \<or> n = 13 \<or> n = 12 \<or> n = 11 \<or> n = 10 \<or> n = 9
    \<or> n = 8 \<or> n = 7 \<or> n = 6 \<or> n = 5 \<or> n = 4 \<or> n = 3 \<or> n = 2 \<or> n = 1
    \<or> n = 0"
  by presburger

lemma below8: "n < 8 \<Longrightarrow> n = (7 :: nat) \<or> n = 6 \<or> n = 5 \<or> n = 4 \<or> n = 3 \<or> n = 2 \<or> n = 1 \<or> n = 0"
  by presburger

lemma u16_eqI:
  fixes a b :: u16
  assumes "bit a 0 = bit b 0" "bit a 1 = bit b 1" "bit a 2 = bit b 2" "bit a 3 = bit b 3"
    "bit a 4 = bit b 4" "bit a 5 = bit b 5" "bit a 6 = bit b 6" "bit a 7 = bit b 7"
    "bit a 8 = bit b 8" "bit a 9 = bit b 9" "bit a 10 = bit b 10" "bit a 11 = bit b 11"
    "bit a 12 = bit b 12" "bit a 13 = bit b 13" "bit a 14 = bit b 14" "bit a 15 = bit b 15"
  shows "a = b"
proof (rule bit_word_eqI)
  fix n assume "n < LENGTH(16)"
  then have "n < 16" by simp
  from below16 [OF this] show "bit a n = bit b n" by (elim disjE) (hypsubst, rule assms)+
qed

end
