(* ===== verification/Gpio.thy ===== *)
theory Gpio imports Prelude begin

text \<open>
  The bus between the firmware and GPIO port B. The driver and the DAP handlers reach the pins only
  through the port's set register \<open>PBSC\<close>, its clear register \<open>PBC\<close> and its input register \<open>PID\<close>;
  a run is therefore the sequence of those accesses, newest first, with the delay loops between
  them. The board and the JTAG target outside the chip are a parameter of the model: a function
  that gives the value of \<open>PID\<close> from the accesses made so far.
\<close>

datatype gpio_mode = GPIO_Mode_Input | GPIO_Mode_Out_PP

datatype gpio_pull = GPIO_No_Pull | GPIO_Pull_Up

datatype io =
    Pbsc u32
  | Pbc u32
  | PidRead
  | Nops nat
  | RccEnableGpiob
  | GpioInit u32 gpio_mode gpio_pull

type_synonym target = "io list \<Rightarrow> u32"

subsection \<open>Pin masks\<close>

definition JTAG_TCK_Msk :: u32 where "JTAG_TCK_Msk = push_bit 3 1"

definition JTAG_TMS_Msk :: u32 where "JTAG_TMS_Msk = push_bit 4 1"

definition JTAG_TDI_Msk :: u32 where "JTAG_TDI_Msk = push_bit 5 1"

definition JTAG_TDO_Msk :: u32 where "JTAG_TDO_Msk = push_bit 6 1"

definition JTAG_SRST_Msk :: u32 where "JTAG_SRST_Msk = push_bit 7 1"

lemma bit_masks [trace_simps]:
  "bit JTAG_TCK_Msk n \<longleftrightarrow> n = 3" "bit JTAG_TMS_Msk n \<longleftrightarrow> n = 4"
  "bit JTAG_TDI_Msk n \<longleftrightarrow> n = 5" "bit JTAG_TDO_Msk n \<longleftrightarrow> n = 6"
  "bit JTAG_SRST_Msk n \<longleftrightarrow> n = 7"
  unfolding JTAG_TCK_Msk_def JTAG_TMS_Msk_def JTAG_TDI_Msk_def JTAG_TDO_Msk_def JTAG_SRST_Msk_def
  by (rule bit_push_1; simp)+

lemma masks_nonzero [simp]:
  "JTAG_TCK_Msk \<noteq> 0" "JTAG_TMS_Msk \<noteq> 0" "JTAG_TDI_Msk \<noteq> 0" "JTAG_TDO_Msk \<noteq> 0" "JTAG_SRST_Msk \<noteq> 0"
  by (auto simp: JTAG_TCK_Msk_def JTAG_TMS_Msk_def JTAG_TDI_Msk_def JTAG_TDO_Msk_def
      JTAG_SRST_Msk_def)

lemma tdo_mask_test: "w AND JTAG_TDO_Msk \<noteq> 0 \<longleftrightarrow> bit w 6"
  by (auto simp: bit_eq_iff [where 'a = u32] bit_simps bit_masks)

subsection \<open>The output latch\<close>

text \<open>
  A write to \<open>PBSC\<close> sets the pins of its low half word and clears those of its high half word
  (\<open>GPIO_PBSC_PBS*\<close>, \<open>GPIO_PBSC_PBC*\<close> of n32g43x.h, set wins); a write to \<open>PBC\<close> clears the pins of
  its low half word.
\<close>

fun pod :: "io list \<Rightarrow> u32" where
  "pod [] = 0"
| "pod (Pbsc w # t) = (pod t AND NOT (drop_bit 16 w)) OR (w AND mask 16)"
| "pod (Pbc w # t) = pod t AND NOT (w AND mask 16)"
| "pod (_ # t) = pod t"

definition level :: "nat \<Rightarrow> io list \<Rightarrow> bool" where
  "level p t = bit (pod t) p"

abbreviation tck_pin :: "io list \<Rightarrow> bool" where "tck_pin \<equiv> level 3"

abbreviation tms_pin :: "io list \<Rightarrow> bool" where "tms_pin \<equiv> level 4"

abbreviation tdi_pin :: "io list \<Rightarrow> bool" where "tdi_pin \<equiv> level 5"

abbreviation srst_pin :: "io list \<Rightarrow> bool" where "srst_pin \<equiv> level 7"

lemma level_simps [trace_simps]:
  "p < 16 \<Longrightarrow> level p (Pbsc w # t) \<longleftrightarrow> bit w p \<or> level p t \<and> \<not> bit w (p + 16)"
  "p < 16 \<Longrightarrow> level p (Pbc w # t) \<longleftrightarrow> level p t \<and> \<not> bit w p"
  "level p (PidRead # t) = level p t"
  "level p (Nops n # t) = level p t"
  "level p (RccEnableGpiob # t) = level p t"
  "level p (GpioInit m md pl # t) = level p t"
  by (auto simp: level_def bit_simps add.commute)

subsection \<open>What the target sees: rising TCK edges with TMS and TDI, and where TDO is read\<close>

text \<open>The (TMS, TDI) levels at each rising edge of TCK, oldest first.\<close>

fun edges :: "io list \<Rightarrow> (bool \<times> bool) list" where
  "edges [] = []"
| "edges (e # t) =
     edges t @ (if \<not> tck_pin t \<and> tck_pin (e # t) then [(tms_pin (e # t), tdi_pin (e # t))] else [])"

text \<open>The TDO levels that the firmware read, oldest first.\<close>

fun samples :: "target \<Rightarrow> io list \<Rightarrow> bool list" where
  "samples env [] = []"
| "samples env (e # t) = samples env t @ (if e = PidRead then [bit (env t) 6] else [])"

lemma edges_quiet [trace_simps]:
  "edges (Pbc w # t) = edges t"
  "edges (PidRead # t) = edges t"
  "edges (Nops n # t) = edges t"
  "edges (RccEnableGpiob # t) = edges t"
  "edges (GpioInit m md pl # t) = edges t"
  by (simp_all add: level_simps)

lemma edges_Pbsc [trace_simps]:
  "edges (Pbsc w # t) =
     edges t @ (if \<not> tck_pin t \<and> bit w 3 then [(tms_pin (Pbsc w # t), tdi_pin (Pbsc w # t))] else [])"
  by (auto simp: level_simps)

lemma samples_simps [trace_simps]:
  "samples env (Pbsc w # t) = samples env t"
  "samples env (Pbc w # t) = samples env t"
  "samples env (PidRead # t) = samples env t @ [bit (env t) 6]"
  "samples env (Nops n # t) = samples env t"
  "samples env (RccEnableGpiob # t) = samples env t"
  "samples env (GpioInit m md pl # t) = samples env t"
  by simp_all

declare edges.simps(2) [simp del] samples.simps(2) [simp del]

subsection \<open>Bit-banged clock cycles\<close>

text \<open>
  The contract every bit-banging loop of the firmware relies on: starting from TCK low, one pass of
  the body gives exactly one rising edge with the TMS and TDI levels of that pass, leaves TCK low,
  and reads TDO as \<open>reads\<close> says. A loop of such passes then drives the sequence of its passes.
\<close>

locale clock_cycles =
  fixes cycle :: "'i \<Rightarrow> 's \<Rightarrow> 's option"
    and trace :: "'s \<Rightarrow> io list"
    and drives :: "'i \<Rightarrow> bool \<Rightarrow> bool \<times> bool"
  assumes cycle_edge: "cycle i s = Some s' \<Longrightarrow> \<not> tck_pin (trace s) \<Longrightarrow>
      edges (trace s') = edges (trace s) @ [drives i (tdi_pin (trace s))]"
    and cycle_low: "cycle i s = Some s' \<Longrightarrow> \<not> tck_pin (trace s')"
    and cycle_tdi: "cycle i s = Some s' \<Longrightarrow> \<not> tck_pin (trace s) \<Longrightarrow>
      tdi_pin (trace s') = snd (drives i (tdi_pin (trace s)))"
    and cycle_srst: "cycle i s = Some s' \<Longrightarrow> srst_pin (trace s') = srst_pin (trace s)"
begin

fun driven :: "'i list \<Rightarrow> bool \<Rightarrow> (bool \<times> bool) list" where
  "driven [] d = []"
| "driven (i # is) d = drives i d # driven is (snd (drives i d))"

lemma cycles_low:
  "for_each cycle is s = Some s' \<Longrightarrow> \<not> tck_pin (trace s) \<Longrightarrow> \<not> tck_pin (trace s')"
  by (induction "is" arbitrary: s) (auto simp: Option.bind_eq_Some_conv dest: cycle_low)

lemma cycles_srst:
  "for_each cycle is s = Some s' \<Longrightarrow> srst_pin (trace s') = srst_pin (trace s)"
  by (induction "is" arbitrary: s) (auto simp: Option.bind_eq_Some_conv dest!: cycle_srst)

lemma cycles_edges:
  "for_each cycle is s = Some s' \<Longrightarrow> \<not> tck_pin (trace s) \<Longrightarrow>
     edges (trace s') = edges (trace s) @ driven is (tdi_pin (trace s))"
proof (induction "is" arbitrary: s)
  case Nil
  then show ?case by simp
next
  case (Cons i "is")
  then obtain y where y: "cycle i s = Some y" "for_each cycle is y = Some s'"
    by (auto simp: Option.bind_eq_Some_conv)
  with Cons.IH [OF y(2) cycle_low [OF y(1)]] Cons.prems(2) show ?case
    by (simp add: cycle_edge cycle_tdi)
qed

lemma driven_map:
  assumes "\<And>i d. i \<in> set is \<Longrightarrow> drives i d = f i"
  shows "driven is d = map f is"
  using assms by (induction "is" arbitrary: d) auto

lemma driven_tms:
  assumes "\<And>i d. i \<in> set is \<Longrightarrow> drives i d = (f i, d)"
  shows "driven is d = map (\<lambda>i. (f i, d)) is"
  using assms by (induction "is" arbitrary: d) auto

end

end
