(* ===== verification/Jtag.thy ===== *)
theory Jtag imports Gpio begin

text \<open>
  The JTAG bit-banging driver, project/CMSIS_DAPv2/src/jtag_driver.c: its clock divider, its record
  of the TAP state, the pin set-up, the clocked TMS sequences, the walk to a TAP state and the data
  shift. The TAP controller of the attached device is a parameter, a next-state function with the
  sixteen-state behaviour of IEEE 1149.1 as the locale's laws.
\<close>

subsection \<open>TAP states\<close>

datatype jtag_tap_state_t =
    TAP_RESET | TAP_IDLE
  | TAP_DR_SELECT | TAP_DR_CAPTURE | TAP_DR_SHIFT | TAP_DR_EXIT1
  | TAP_DR_PAUSE | TAP_DR_EXIT2 | TAP_DR_UPDATE
  | TAP_IR_SELECT | TAP_IR_CAPTURE | TAP_IR_SHIFT | TAP_IR_EXIT1
  | TAP_IR_PAUSE | TAP_IR_EXIT2 | TAP_IR_UPDATE

fun tap_code :: "jtag_tap_state_t \<Rightarrow> u8" where
  "tap_code TAP_RESET = 0x00"
| "tap_code TAP_IDLE = 0x01"
| "tap_code TAP_DR_SELECT = 0x02"
| "tap_code TAP_DR_CAPTURE = 0x03"
| "tap_code TAP_DR_SHIFT = 0x04"
| "tap_code TAP_DR_EXIT1 = 0x05"
| "tap_code TAP_DR_PAUSE = 0x06"
| "tap_code TAP_DR_EXIT2 = 0x07"
| "tap_code TAP_DR_UPDATE = 0x08"
| "tap_code TAP_IR_SELECT = 0x09"
| "tap_code TAP_IR_CAPTURE = 0x0A"
| "tap_code TAP_IR_SHIFT = 0x0B"
| "tap_code TAP_IR_EXIT1 = 0x0C"
| "tap_code TAP_IR_PAUSE = 0x0D"
| "tap_code TAP_IR_EXIT2 = 0x0E"
| "tap_code TAP_IR_UPDATE = 0x0F"

lemma tap_code_inj: "tap_code a = tap_code b \<Longrightarrow> a = b"
  by (cases a; cases b) simp_all

instantiation jtag_tap_state_t :: linorder
begin

definition less_eq_jtag_tap_state_t :: "jtag_tap_state_t \<Rightarrow> jtag_tap_state_t \<Rightarrow> bool" where
  "less_eq_jtag_tap_state_t a b \<longleftrightarrow> tap_code a \<le> tap_code b"

definition less_jtag_tap_state_t :: "jtag_tap_state_t \<Rightarrow> jtag_tap_state_t \<Rightarrow> bool" where
  "less_jtag_tap_state_t a b \<longleftrightarrow> tap_code a < tap_code b"

instance
  by intro_classes
    (auto simp: less_eq_jtag_tap_state_t_def less_jtag_tap_state_t_def intro: tap_code_inj)

end

subsection \<open>Driver state and GPIO accesses\<close>

record jtag =
  jtag_clk_div :: u32
  current_tap_state :: jtag_tap_state_t
  bus :: "io list"

definition emit :: "io \<Rightarrow> jtag \<Rightarrow> jtag" where
  "emit e j = j\<lparr>bus := e # bus j\<rparr>"

definition jtag_initial :: jtag where
  "jtag_initial = \<lparr>jtag_clk_div = 5, current_tap_state = TAP_RESET, bus = []\<rparr>"

definition jtag_get_clk_divider :: "jtag \<Rightarrow> u32" where
  "jtag_get_clk_divider j = jtag_clk_div j"

definition jtag_delay :: "jtag \<Rightarrow> jtag" where
  "jtag_delay j = emit (Nops (unat (jtag_clk_div j))) j"

definition jtag_gpio_init :: "jtag \<Rightarrow> jtag" where
  "jtag_gpio_init j =
     (let j = emit RccEnableGpiob j;
          j = emit (GpioInit (JTAG_TCK_Msk OR JTAG_TMS_Msk OR JTAG_TDI_Msk OR JTAG_SRST_Msk)
                     GPIO_Mode_Out_PP GPIO_No_Pull) j;
          j = emit (GpioInit JTAG_TDO_Msk GPIO_Mode_Input GPIO_Pull_Up) j;
          j = emit (Pbc JTAG_TCK_Msk) j;
          j = emit (Pbsc (JTAG_TMS_Msk OR JTAG_TDI_Msk OR JTAG_SRST_Msk)) j
      in j\<lparr>current_tap_state := TAP_RESET\<rparr>)"

definition jtag_gpio_deinit :: "jtag \<Rightarrow> jtag" where
  "jtag_gpio_deinit j =
     emit (GpioInit (JTAG_TCK_Msk OR JTAG_TMS_Msk OR JTAG_TDI_Msk OR JTAG_TDO_Msk OR JTAG_SRST_Msk)
            GPIO_Mode_Input GPIO_No_Pull) j"

definition jtag_set_clock :: "u32 \<Rightarrow> jtag \<Rightarrow> jtag" where
  "jtag_set_clock clk_khz j =
     (let clk_khz = (if clk_khz = 0 then 1 else clk_khz);
          clk_khz = (if clk_khz > 10000 then 10000 else clk_khz);
          d = 10000 div clk_khz;
          d = (if d < 2 then 2 else d)
      in j\<lparr>jtag_clk_div := d\<rparr>)"

subsection \<open>Clocked TMS sequences\<close>

definition jtag_clock_cycle :: "u32 \<Rightarrow> jtag \<Rightarrow> jtag" where
  "jtag_clock_cycle tms_val j =
     (let j = (if tms_val \<noteq> 0 then emit (Pbsc tms_val) j else emit (Pbc JTAG_TMS_Msk) j);
          j = jtag_delay j;
          j = emit (Pbsc JTAG_TCK_Msk) j;
          j = jtag_delay j;
          j = emit (Pbc JTAG_TCK_Msk) j
      in jtag_delay j)"

definition jtag_clock_cycles :: "u32 \<Rightarrow> u8 \<Rightarrow> jtag \<Rightarrow> jtag" where
  "jtag_clock_cycles cycles tms_arg j =
     (let tms_val = (if tms_arg \<noteq> 0 then JTAG_TMS_Msk else 0)
      in fold (\<lambda>_. jtag_clock_cycle tms_val) [0..<unat cycles] j)"

definition jtag_tap_reset :: "jtag \<Rightarrow> jtag" where
  "jtag_tap_reset j =
     (let j = jtag_clock_cycles 6 1 j;
          j = jtag_clock_cycles 1 0 j
      in j\<lparr>current_tap_state := TAP_IDLE\<rparr>)"

definition jtag_goto_state :: "u8 \<Rightarrow> jtag \<Rightarrow> jtag" where
  "jtag_goto_state state j =
     (let j = jtag_tap_reset j in
      if state = tap_code TAP_IDLE then j else
      let j = (jtag_clock_cycles 1 1 j)\<lparr>current_tap_state := TAP_DR_SELECT\<rparr> in
      if state = tap_code TAP_DR_SELECT then j else
      let j = (jtag_clock_cycles 1 1 j)\<lparr>current_tap_state := TAP_IR_SELECT\<rparr> in
      if state = tap_code TAP_IR_SELECT then j else
      let j = (jtag_clock_cycles 1 0 j)\<lparr>current_tap_state := TAP_IR_CAPTURE\<rparr> in
      if state = tap_code TAP_IR_CAPTURE then j else
      let j = (jtag_clock_cycles 1 0 j)\<lparr>current_tap_state := TAP_IR_SHIFT\<rparr> in
      if state = tap_code TAP_IR_SHIFT then j\<lparr>current_tap_state := TAP_IR_SHIFT\<rparr> else
      let j = jtag_clock_cycles 1 1 j;
          j = jtag_clock_cycles 1 1 j;
          j = jtag_clock_cycles 1 0 j
      in j\<lparr>current_tap_state := TAP_IDLE\<rparr>)"

subsection \<open>Data shift\<close>

record shift_loop =
  sl_jtag :: jtag
  tdo_byte :: u8
  bit_index :: nat
  tdo_pos :: nat
  tdo_data :: "u8 list option"

text \<open>
  \<open>tdi_data\<close> and \<open>tdo_data\<close> may be null; \<open>tdo_pos\<close> is how far the code's \<open>tdo_data++\<close> has moved.
  The pin writes before TCK rises are \<open>shift_setup\<close>, the read and the packing of TDO \<open>shift_capture\<close>.
\<close>

definition shift_setup :: "bool \<Rightarrow> u32 \<Rightarrow> bool \<Rightarrow> jtag \<Rightarrow> jtag" where
  "shift_setup tdi_bit tms_flag not_last j =
     (let j = (if tdi_bit then emit (Pbsc (JTAG_TDI_Msk OR tms_flag)) j
               else let j = (if tms_flag \<noteq> 0 then emit (Pbsc tms_flag) j else j)
                    in emit (Pbc JTAG_TDI_Msk) j)
      in if not_last then emit (Pbc JTAG_TMS_Msk) j else j)"

definition shift_capture :: "target \<Rightarrow> shift_loop \<Rightarrow> shift_loop option" where
  "shift_capture env l =
     (case tdo_data l of
        None \<Rightarrow> Some l
      | Some buf \<Rightarrow>
          (let tdo = env (bus (sl_jtag l));
               b = (if tdo AND JTAG_TDO_Msk \<noteq> 0 then tdo_byte l OR push_bit (bit_index l) 1
                    else tdo_byte l);
               l = l\<lparr>sl_jtag := emit PidRead (sl_jtag l), tdo_byte := b,
                     bit_index := bit_index l + 1\<rparr>
           in if bit_index l = 8
              then do { buf' \<leftarrow> wr buf (tdo_pos l) (tdo_byte l);
                        Some (l\<lparr>tdo_data := Some buf', tdo_pos := tdo_pos l + 1,
                                tdo_byte := 0, bit_index := 0\<rparr>) }
              else Some l))"

definition tdi_bit_at :: "u8 list option \<Rightarrow> nat \<Rightarrow> bool option" where
  "tdi_bit_at tdi_data i =
     (case tdi_data of None \<Rightarrow> Some False
      | Some bs \<Rightarrow> do { b \<leftarrow> rd bs (i div 8); Some (b AND push_bit (i mod 8) 1 \<noteq> 0) })"

definition shift_bit ::
  "target \<Rightarrow> u8 list option \<Rightarrow> nat \<Rightarrow> bool \<Rightarrow> nat \<Rightarrow> shift_loop \<Rightarrow> shift_loop option" where
  "shift_bit env tdi_data bit_count last_tms i l =
     do { let is_last = (i = bit_count - 1);
          let tms_flag = (if last_tms \<and> is_last then JTAG_TMS_Msk else 0);
          tb \<leftarrow> tdi_bit_at tdi_data i;
          let j = shift_setup tb tms_flag (\<not> last_tms \<or> \<not> is_last) (sl_jtag l);
          let j = jtag_delay j;
          let j = emit (Pbsc JTAG_TCK_Msk) j;
          let j = jtag_delay j;
          l \<leftarrow> shift_capture env (l\<lparr>sl_jtag := j\<rparr>);
          let j = emit (Pbc JTAG_TCK_Msk) (sl_jtag l);
          Some (l\<lparr>sl_jtag := jtag_delay j\<rparr>) }"

definition jtag_shift_data ::
  "target \<Rightarrow> u8 list option \<Rightarrow> u8 list option \<Rightarrow> u32 \<Rightarrow> u8 \<Rightarrow> jtag
     \<Rightarrow> (u8 list option \<times> jtag) option" where
  "jtag_shift_data env tdi tdo bit_count last_tms j =
     do { l \<leftarrow> for_each (shift_bit env tdi (unat bit_count) (last_tms \<noteq> 0)) [0..<unat bit_count]
                \<lparr>sl_jtag = j, tdo_byte = 0, bit_index = 0, tdo_pos = 0, tdo_data = tdo\<rparr>;
          case tdo_data l of
            None \<Rightarrow> Some (None, sl_jtag l)
          | Some buf \<Rightarrow>
              if bit_index l > 0
              then do { buf' \<leftarrow> wr buf (tdo_pos l) (tdo_byte l); Some (Some buf', sl_jtag l) }
              else Some (Some buf, sl_jtag l) }"

subsection \<open>Target reset line\<close>

definition jtag_srst_assert :: "jtag \<Rightarrow> jtag" where
  "jtag_srst_assert j = emit (Pbc JTAG_SRST_Msk) j"

definition jtag_srst_deassert :: "jtag \<Rightarrow> jtag" where
  "jtag_srst_deassert j = emit (Pbsc JTAG_SRST_Msk) j"

definition jtag_read_tdo :: "target \<Rightarrow> jtag \<Rightarrow> u8 \<times> jtag" where
  "jtag_read_tdo env j =
     ((if env (bus j) AND JTAG_TDO_Msk \<noteq> 0 then 1 else 0), emit PidRead j)"

subsection \<open>The clock divider\<close>

lemma unat_min_max_div:
  "unat (if (10000 :: u32) div k < 2 then 2 else 10000 div k) = max 2 (10000 div unat k)"
  by (auto simp: word_less_nat_alt unat_div max_def)

lemma jtag_set_clock_frame [simp]:
  "bus (jtag_set_clock k j) = bus j"
  "current_tap_state (jtag_set_clock k j) = current_tap_state j"
  by (simp_all add: jtag_set_clock_def Let_def)

lemma jtag_set_clock_nat:
  "unat (jtag_clk_div (jtag_set_clock k j)) = max 2 (10000 div min 10000 (max 1 (unat k)))"
proof -
  have "unat (if (if k = 0 then 1 else k) > 10000 then 10000 else (if k = 0 then 1 else k))
      = min 10000 (max 1 (unat k))"
    by (auto simp: word_less_nat_alt min_def max_def Suc_le_eq unat_gt_0)
  then show ?thesis
    by (simp add: jtag_set_clock_def Let_def unat_min_max_div)
qed

subsection \<open>What the clocked sequences put on the wires\<close>

lemma emit_simps [trace_simps]:
  "bus (emit e j) = e # bus j"
  "jtag_clk_div (emit e j) = jtag_clk_div j"
  "current_tap_state (emit e j) = current_tap_state j"
  by (simp_all add: emit_def)

lemmas cycle_defs = jtag_clock_cycle_def jtag_delay_def Let_def

interpretation tms_cycle: clock_cycles
  "\<lambda>_ :: nat. \<lambda>j. Some (jtag_clock_cycle (if b then JTAG_TMS_Msk else 0) j)" bus "\<lambda>_ d. (b, d)"
  for b
  by unfold_locales (auto simp: cycle_defs trace_simps)

lemma jtag_clock_cycle_frame:
  "jtag_clk_div (jtag_clock_cycle v j) = jtag_clk_div j"
  "current_tap_state (jtag_clock_cycle v j) = current_tap_state j"
  "samples env (bus (jtag_clock_cycle v j)) = samples env (bus j)"
  by (simp_all add: cycle_defs trace_simps)

lemma fold_frame: "(\<And>i s. P (f i s) = P s) \<Longrightarrow> P (fold f xs s) = P s"
  by (induction xs arbitrary: s) simp_all

lemma jtag_clock_cycles_frame [simp]:
  "jtag_clk_div (jtag_clock_cycles n b j) = jtag_clk_div j"
  "current_tap_state (jtag_clock_cycles n b j) = current_tap_state j"
  "samples env (bus (jtag_clock_cycles n b j)) = samples env (bus j)"
  unfolding jtag_clock_cycles_def Let_def
  by (rule fold_frame, rule jtag_clock_cycle_frame)+

lemma jtag_clock_cycles_run:
  "for_each (\<lambda>_ j. Some (jtag_clock_cycle (if b \<noteq> 0 then JTAG_TMS_Msk else 0) j)) [0..<unat n] j
     = Some (jtag_clock_cycles n b j)"
  by (simp add: jtag_clock_cycles_def for_each_Some)

lemma jtag_clock_cycles_wires:
  assumes "\<not> tck_pin (bus j)"
  shows "edges (bus (jtag_clock_cycles n b j)) =
      edges (bus j) @ replicate (unat n) (b \<noteq> 0, tdi_pin (bus j))"
    and "\<not> tck_pin (bus (jtag_clock_cycles n b j))"
    and "srst_pin (bus (jtag_clock_cycles n b j)) = srst_pin (bus j)"
  using tms_cycle.cycles_edges [OF jtag_clock_cycles_run assms]
    tms_cycle.cycles_low [OF jtag_clock_cycles_run assms]
    tms_cycle.cycles_srst [OF jtag_clock_cycles_run [of b n j]]
  by (auto simp: tms_cycle.driven_tms map_replicate_const)

lemma jtag_clock_cycle_tdi: "tdi_pin (bus (jtag_clock_cycle v j)) = tdi_pin (bus j)"
  if "v = JTAG_TMS_Msk \<or> v = 0"
  using that by (auto simp: cycle_defs trace_simps)

lemma jtag_clock_cycles_tdi [simp]:
  "tdi_pin (bus (jtag_clock_cycles n b j)) = tdi_pin (bus j)"
  unfolding jtag_clock_cycles_def Let_def
  by (rule fold_frame, rule jtag_clock_cycle_tdi) simp

subsection \<open>The TAP controller of the target\<close>

text \<open>
  The laws are the state diagram of IEEE 1149.1, on which the driver's comments rely; \<open>tap_next\<close> is
  the standard's diagram as a function. Every TCK edge advances the controller by its TMS level.
\<close>

fun tap_next :: "jtag_tap_state_t \<Rightarrow> bool \<Rightarrow> jtag_tap_state_t" where
  "tap_next TAP_RESET tms = (if tms then TAP_RESET else TAP_IDLE)"
| "tap_next TAP_IDLE tms = (if tms then TAP_DR_SELECT else TAP_IDLE)"
| "tap_next TAP_DR_SELECT tms = (if tms then TAP_IR_SELECT else TAP_DR_CAPTURE)"
| "tap_next TAP_DR_CAPTURE tms = (if tms then TAP_DR_EXIT1 else TAP_DR_SHIFT)"
| "tap_next TAP_DR_SHIFT tms = (if tms then TAP_DR_EXIT1 else TAP_DR_SHIFT)"
| "tap_next TAP_DR_EXIT1 tms = (if tms then TAP_DR_UPDATE else TAP_DR_PAUSE)"
| "tap_next TAP_DR_PAUSE tms = (if tms then TAP_DR_EXIT2 else TAP_DR_PAUSE)"
| "tap_next TAP_DR_EXIT2 tms = (if tms then TAP_DR_UPDATE else TAP_DR_SHIFT)"
| "tap_next TAP_DR_UPDATE tms = (if tms then TAP_DR_SELECT else TAP_IDLE)"
| "tap_next TAP_IR_SELECT tms = (if tms then TAP_RESET else TAP_IR_CAPTURE)"
| "tap_next TAP_IR_CAPTURE tms = (if tms then TAP_IR_EXIT1 else TAP_IR_SHIFT)"
| "tap_next TAP_IR_SHIFT tms = (if tms then TAP_IR_EXIT1 else TAP_IR_SHIFT)"
| "tap_next TAP_IR_EXIT1 tms = (if tms then TAP_IR_UPDATE else TAP_IR_PAUSE)"
| "tap_next TAP_IR_PAUSE tms = (if tms then TAP_IR_EXIT2 else TAP_IR_PAUSE)"
| "tap_next TAP_IR_EXIT2 tms = (if tms then TAP_IR_UPDATE else TAP_IR_SHIFT)"
| "tap_next TAP_IR_UPDATE tms = (if tms then TAP_DR_SELECT else TAP_IDLE)"

definition tap_run ::
  "(jtag_tap_state_t \<Rightarrow> bool \<Rightarrow> jtag_tap_state_t) \<Rightarrow> jtag_tap_state_t \<Rightarrow> (bool \<times> bool) list
     \<Rightarrow> jtag_tap_state_t" where
  "tap_run nxt s es = fold (\<lambda>e s. nxt s (fst e)) es s"

lemma tap_run_simps [simp]:
  "tap_run nxt s [] = s"
  "tap_run nxt s (e # es) = tap_run nxt (nxt s (fst e)) es"
  "tap_run nxt s (xs @ ys) = tap_run nxt (tap_run nxt s xs) ys"
  by (simp_all add: tap_run_def)

locale tap_controller =
  fixes nxt :: "jtag_tap_state_t \<Rightarrow> bool \<Rightarrow> jtag_tap_state_t"
  assumes tap_laws:
    "nxt TAP_RESET False = TAP_IDLE" "nxt TAP_RESET True = TAP_RESET"
    "nxt TAP_IDLE False = TAP_IDLE" "nxt TAP_IDLE True = TAP_DR_SELECT"
    "nxt TAP_DR_SELECT False = TAP_DR_CAPTURE" "nxt TAP_DR_SELECT True = TAP_IR_SELECT"
    "nxt TAP_DR_CAPTURE False = TAP_DR_SHIFT" "nxt TAP_DR_CAPTURE True = TAP_DR_EXIT1"
    "nxt TAP_DR_SHIFT False = TAP_DR_SHIFT" "nxt TAP_DR_SHIFT True = TAP_DR_EXIT1"
    "nxt TAP_DR_EXIT1 False = TAP_DR_PAUSE" "nxt TAP_DR_EXIT1 True = TAP_DR_UPDATE"
    "nxt TAP_DR_PAUSE False = TAP_DR_PAUSE" "nxt TAP_DR_PAUSE True = TAP_DR_EXIT2"
    "nxt TAP_DR_EXIT2 False = TAP_DR_SHIFT" "nxt TAP_DR_EXIT2 True = TAP_DR_UPDATE"
    "nxt TAP_DR_UPDATE False = TAP_IDLE" "nxt TAP_DR_UPDATE True = TAP_DR_SELECT"
    "nxt TAP_IR_SELECT False = TAP_IR_CAPTURE" "nxt TAP_IR_SELECT True = TAP_RESET"
    "nxt TAP_IR_CAPTURE False = TAP_IR_SHIFT" "nxt TAP_IR_CAPTURE True = TAP_IR_EXIT1"
    "nxt TAP_IR_SHIFT False = TAP_IR_SHIFT" "nxt TAP_IR_SHIFT True = TAP_IR_EXIT1"
    "nxt TAP_IR_EXIT1 False = TAP_IR_PAUSE" "nxt TAP_IR_EXIT1 True = TAP_IR_UPDATE"
    "nxt TAP_IR_PAUSE False = TAP_IR_PAUSE" "nxt TAP_IR_PAUSE True = TAP_IR_EXIT2"
    "nxt TAP_IR_EXIT2 False = TAP_IR_SHIFT" "nxt TAP_IR_EXIT2 True = TAP_IR_UPDATE"
    "nxt TAP_IR_UPDATE False = TAP_IDLE" "nxt TAP_IR_UPDATE True = TAP_DR_SELECT"
begin

lemma six_ones_reset: "tap_run nxt s (replicate 6 (True, d)) = TAP_RESET"
  by (cases s) (simp_all add: tap_laws numeral_eq_Suc)

lemma reset_then_idle: "tap_run nxt s (replicate 6 (True, d) @ [(False, d)]) = TAP_IDLE"
  by (simp add: six_ones_reset tap_laws)

lemma stays:
  "s \<in> {TAP_IDLE, TAP_DR_SHIFT, TAP_IR_SHIFT, TAP_DR_PAUSE, TAP_IR_PAUSE} \<Longrightarrow>
     \<forall>e \<in> set es. \<not> fst e \<Longrightarrow> tap_run nxt s es = s"
  by (induction es) (auto simp: tap_laws)

lemma nxt_eq: "nxt s b = tap_next s b"
  by (cases s; cases b) (simp_all add: tap_laws)

end

interpretation tap: tap_controller tap_next
  by unfold_locales simp_all

subsection \<open>Walking to a TAP state\<close>

text \<open>The TMS levels \<open>jtag_goto_state\<close> clocks and the state it ends in, as a table.\<close>

definition reset_tms :: "bool list" where
  "reset_tms = replicate 6 True @ [False]"

definition goto_tms :: "u8 \<Rightarrow> bool list" where
  "goto_tms state =
     reset_tms @
     (if state = tap_code TAP_IDLE then []
      else if state = tap_code TAP_DR_SELECT then [True]
      else if state = tap_code TAP_IR_SELECT then [True, True]
      else if state = tap_code TAP_IR_CAPTURE then [True, True, False]
      else if state = tap_code TAP_IR_SHIFT then [True, True, False, False]
      else [True, True, False, False, True, True, False])"

definition goto_reached :: "u8 \<Rightarrow> jtag_tap_state_t" where
  "goto_reached state =
     (if state = tap_code TAP_DR_SELECT then TAP_DR_SELECT
      else if state = tap_code TAP_IR_SELECT then TAP_IR_SELECT
      else if state = tap_code TAP_IR_CAPTURE then TAP_IR_CAPTURE
      else if state = tap_code TAP_IR_SHIFT then TAP_IR_SHIFT
      else TAP_IDLE)"

text \<open>
  The pins after a driver call, relative to those before: the driven (TMS, TDI) levels are appended,
  TCK rests low, the reset line, the divider and the TDO samples are as they were.
\<close>

definition wires :: "(bool \<times> bool) list \<Rightarrow> jtag \<Rightarrow> jtag \<Rightarrow> bool" where
  "wires es j j' \<longleftrightarrow>
     edges (bus j') = edges (bus j) @ es \<and> \<not> tck_pin (bus j') \<and>
     srst_pin (bus j') = srst_pin (bus j) \<and> jtag_clk_div j' = jtag_clk_div j"

lemma wiresI_clock_cycles:
  "\<not> tck_pin (bus j) \<Longrightarrow>
     wires (replicate (unat n) (b \<noteq> 0, tdi_pin (bus j))) j (jtag_clock_cycles n b j)"
  by (simp add: wires_def jtag_clock_cycles_wires)

lemma wires_low: "wires es j j' \<Longrightarrow> \<not> tck_pin (bus j')"
  by (simp add: wires_def)

lemma wires_trans: "wires es j j' \<Longrightarrow> wires fs j' j'' \<Longrightarrow> wires (es @ fs) j j''"
  by (simp add: wires_def)

lemma wires_tap [simp]:
  "wires es j (j'\<lparr>current_tap_state := s\<rparr>) = wires es j j'"
  "wires es (j\<lparr>current_tap_state := s\<rparr>) j' = wires es j j'"
  by (simp_all add: wires_def)

lemma jtag_tap_reset_wires:
  assumes "\<not> tck_pin (bus j)"
  shows "wires (map (\<lambda>b. (b, tdi_pin (bus j))) reset_tms) j (jtag_tap_reset j)"
proof -
  note first = wiresI_clock_cycles [OF assms, of 6 1]
  note second = wiresI_clock_cycles [OF wires_low [OF first], of 1 0]
  from wires_trans [OF first second] show ?thesis
    by (simp add: jtag_tap_reset_def Let_def reset_tms_def)
qed

lemma jtag_tap_reset_frame [simp]:
  "tdi_pin (bus (jtag_tap_reset j)) = tdi_pin (bus j)"
  "samples env (bus (jtag_tap_reset j)) = samples env (bus j)"
  "current_tap_state (jtag_tap_reset j) = TAP_IDLE"
  "jtag_clk_div (jtag_tap_reset j) = jtag_clk_div j"
  by (simp_all add: jtag_tap_reset_def Let_def)

lemma jtag_goto_state_frame [simp]:
  "tdi_pin (bus (jtag_goto_state st j)) = tdi_pin (bus j)"
  "samples env (bus (jtag_goto_state st j)) = samples env (bus j)"
  "jtag_clk_div (jtag_goto_state st j) = jtag_clk_div j"
  by (simp_all add: jtag_goto_state_def Let_def)

lemma current_tap_state_goto:
  "current_tap_state (jtag_goto_state st j) = goto_reached st"
  by (simp add: jtag_goto_state_def goto_reached_def Let_def)

lemma wires_step:
  "wires es j j' \<Longrightarrow> tdi_pin (bus j') = d \<Longrightarrow> wires (es @ [(b \<noteq> 0, d)]) j (jtag_clock_cycles 1 b j')"
  using wires_trans [OF _ wiresI_clock_cycles [of j' 1 b], of es j] by (auto dest: wires_low)

lemma jtag_goto_state_wires:
  assumes "\<not> tck_pin (bus j)"
  shows "wires (map (\<lambda>b. (b, tdi_pin (bus j))) (goto_tms st)) j (jtag_goto_state st j)"
proof -
  let ?d = "tdi_pin (bus j)" and ?c = jtag_clock_cycles
  let ?r = "map (\<lambda>b. (b, ?d)) reset_tms"
  let ?j0 = "jtag_tap_reset j"
  let ?j1 = "?c 1 1 ?j0\<lparr>current_tap_state := TAP_DR_SELECT\<rparr>"
  let ?j2 = "?c 1 1 ?j1\<lparr>current_tap_state := TAP_IR_SELECT\<rparr>"
  let ?j3 = "?c 1 0 ?j2\<lparr>current_tap_state := TAP_IR_CAPTURE\<rparr>"
  let ?j4 = "?c 1 0 ?j3\<lparr>current_tap_state := TAP_IR_SHIFT\<rparr>"
  have w0: "wires ?r j ?j0" by (rule jtag_tap_reset_wires [OF assms])
  have w1: "wires (?r @ [(True, ?d)]) j ?j1"
    using wires_step [OF w0, of ?d 1] by simp
  have w2: "wires (?r @ [(True, ?d), (True, ?d)]) j ?j2"
    using wires_step [OF w1, of ?d 1] by simp
  have w3: "wires (?r @ [(True, ?d), (True, ?d), (False, ?d)]) j ?j3"
    using wires_step [OF w2, of ?d 0] by simp
  have w4: "wires (?r @ [(True, ?d), (True, ?d), (False, ?d), (False, ?d)]) j ?j4"
    using wires_step [OF w3, of ?d 0] by simp
  have w5: "wires (?r @ [(True, ?d), (True, ?d), (False, ?d), (False, ?d), (True, ?d)]) j (?c 1 1 ?j4)"
    using wires_step [OF w4, of ?d 1] by simp
  have w6: "wires (?r @ [(True, ?d), (True, ?d), (False, ?d), (False, ?d), (True, ?d), (True, ?d)])
      j (?c 1 1 (?c 1 1 ?j4))"
    using wires_step [OF w5, of ?d 1] by simp
  have w7: "wires (?r @ [(True, ?d), (True, ?d), (False, ?d), (False, ?d), (True, ?d), (True, ?d), (False, ?d)])
      j (?c 1 0 (?c 1 1 (?c 1 1 ?j4)))"
    using wires_step [OF w6, of ?d 0] by simp
  from w0 w1 w2 w3 w4 w7 show ?thesis
    by (simp add: jtag_goto_state_def goto_tms_def Let_def)
qed

context tap_controller begin

lemma goto_run: "tap_run nxt s (map (\<lambda>b. (b, d)) (goto_tms st)) = goto_reached st"
proof -
  have r: "tap_run nxt s (map (\<lambda>b. (b, d)) reset_tms) = TAP_IDLE"
    using reset_then_idle [of s d] by (simp add: reset_tms_def)
  show ?thesis
    by (simp add: goto_tms_def goto_reached_def r tap_laws)
qed

end

subsection \<open>What a data shift puts on the wires\<close>

definition tdi_level :: "u8 list option \<Rightarrow> nat \<Rightarrow> bool" where
  "tdi_level td i = (case td of None \<Rightarrow> False | Some bs \<Rightarrow> packed_bit bs i)"

definition shift_drives :: "u8 list option \<Rightarrow> nat \<Rightarrow> bool \<Rightarrow> (bool \<times> bool) list" where
  "shift_drives td n lst = map (\<lambda>i. (lst \<and> i = n - 1, tdi_level td i)) [0..<n]"

lemma tdi_bit_at_Some: "tdi_bit_at td i = Some b \<Longrightarrow> b = tdi_level td i"
  by (auto simp: tdi_bit_at_def tdi_level_def packed_bit_def and_exp_eq_0_iff_not_bit
      Option.bind_eq_Some_conv dest!: rd_SomeD split: option.splits)

lemma tdi_bit_at_in_range:
  "(\<And>bs. td = Some bs \<Longrightarrow> i < 8 * length bs) \<Longrightarrow> tdi_bit_at td i = Some (tdi_level td i)"
  by (auto simp: tdi_bit_at_def tdi_level_def packed_bit_def and_exp_eq_0_iff_not_bit buf_simps
      split: option.splits)

lemma shift_setup_pins:
  assumes "v = 0 \<or> v = JTAG_TMS_Msk" and "nl \<longleftrightarrow> v = 0"
  shows "edges (bus (shift_setup tb v nl j)) = edges (bus j)"
    "tck_pin (bus (shift_setup tb v nl j)) = tck_pin (bus j)"
    "tms_pin (bus (shift_setup tb v nl j)) \<longleftrightarrow> v \<noteq> 0"
    "tdi_pin (bus (shift_setup tb v nl j)) = tb"
    "srst_pin (bus (shift_setup tb v nl j)) = srst_pin (bus j)"
    "samples env (bus (shift_setup tb v nl j)) = samples env (bus j)"
    "jtag_clk_div (shift_setup tb v nl j) = jtag_clk_div j"
    "current_tap_state (shift_setup tb v nl j) = current_tap_state j"
  using assms by (auto simp: shift_setup_def Let_def trace_simps bit_or_iff)

lemma shift_capture_bus:
  "shift_capture env l = Some l' \<Longrightarrow> sl_jtag l' = sl_jtag l \<or> sl_jtag l' = emit PidRead (sl_jtag l)"
  by (auto simp: shift_capture_def Let_def Option.bind_eq_Some_conv split: option.splits if_splits)

lemma shift_bit_wires:
  assumes "shift_bit env td n lst i l = Some l'"
  shows "\<not> tck_pin (bus (sl_jtag l'))"
    and "srst_pin (bus (sl_jtag l')) = srst_pin (bus (sl_jtag l))"
    and "tdi_pin (bus (sl_jtag l')) = tdi_level td i"
    and "jtag_clk_div (sl_jtag l') = jtag_clk_div (sl_jtag l)"
    and "current_tap_state (sl_jtag l') = current_tap_state (sl_jtag l)"
    and "\<not> tck_pin (bus (sl_jtag l)) \<Longrightarrow>
      edges (bus (sl_jtag l')) =
        edges (bus (sl_jtag l)) @ [(lst \<and> i = n - 1, tdi_level td i)]"
proof -
  obtain v nl where v: "v = (if lst \<and> i = n - 1 then JTAG_TMS_Msk else 0)"
    and nl: "nl = (\<not> lst \<or> i \<noteq> n - 1)" by blast
  then have flag: "v = 0 \<or> v = JTAG_TMS_Msk" "nl \<longleftrightarrow> v = 0" "v \<noteq> 0 \<longleftrightarrow> lst \<and> i = n - 1" by auto
  obtain j where j: "j = shift_setup (tdi_level td i) v nl (sl_jtag l)" by blast
  let ?up = "jtag_delay (emit (Pbsc JTAG_TCK_Msk) (jtag_delay j))"
  from assms obtain l1 where cap: "shift_capture env (l\<lparr>sl_jtag := ?up\<rparr>) = Some l1"
    and l': "l' = l1\<lparr>sl_jtag := jtag_delay (emit (Pbc JTAG_TCK_Msk) (sl_jtag l1))\<rparr>"
    by (auto simp: shift_bit_def Let_def Option.bind_eq_Some_conv j v nl dest!: tdi_bit_at_Some)
  note pins = shift_setup_pins [OF flag(1,2), where tb = "tdi_level td i" and j = "sl_jtag l", folded j, unfolded flag(3)]
  have "sl_jtag l1 = ?up \<or> sl_jtag l1 = emit PidRead ?up"
    using shift_capture_bus [OF cap] by simp
  then show "\<not> tck_pin (bus (sl_jtag l'))"
    and "srst_pin (bus (sl_jtag l')) = srst_pin (bus (sl_jtag l))"
    and "tdi_pin (bus (sl_jtag l')) = tdi_level td i"
    and "jtag_clk_div (sl_jtag l') = jtag_clk_div (sl_jtag l)"
    and "current_tap_state (sl_jtag l') = current_tap_state (sl_jtag l)"
    and "\<not> tck_pin (bus (sl_jtag l)) \<Longrightarrow>
      edges (bus (sl_jtag l')) =
        edges (bus (sl_jtag l)) @ [(lst \<and> i = n - 1, tdi_level td i)]"
    by (auto simp: l' jtag_delay_def trace_simps pins)
qed

text \<open>The wire behaviour of a whole shift is that of its bits, by the loop contract.\<close>

interpretation shift_cycle: clock_cycles
  "shift_bit env td n lst" "\<lambda>l. bus (sl_jtag l)" "\<lambda>i _. (lst \<and> i = n - 1, tdi_level td i)"
  for env td n lst
  by unfold_locales (auto simp: shift_bit_wires)

lemma shift_loop_wires:
  assumes "for_each (shift_bit env td n lst) [0..<n] l = Some l'" and "\<not> tck_pin (bus (sl_jtag l))"
  shows "wires (shift_drives td n lst) (sl_jtag l) (sl_jtag l')"
proof -
  have "jtag_clk_div (sl_jtag l') = jtag_clk_div (sl_jtag l)"
    if "for_each (shift_bit env td n lst) is l = Some l'" for "is"
    using that by (induction "is" arbitrary: l) (auto simp: Option.bind_eq_Some_conv dest!: shift_bit_wires(4))
  with assms show ?thesis
    using shift_cycle.cycles_edges [OF assms, unfolded shift_cycle.driven_map [OF refl]] shift_cycle.cycles_low [OF assms]
      shift_cycle.cycles_srst [OF assms(1)]
    by (simp add: wires_def shift_drives_def)
qed

lemma shift_loop_tap:
  "for_each (shift_bit env td n lst) is l = Some l' \<Longrightarrow>
     current_tap_state (sl_jtag l') = current_tap_state (sl_jtag l)"
  by (induction "is" arbitrary: l) (auto simp: Option.bind_eq_Some_conv dest!: shift_bit_wires(5))

subsection \<open>What a data shift captures\<close>

lemma shift_capture_packed:
  assumes "tdo_data l = Some buf"
    and "packed base buf0 bits (tdo_byte l) (bit_index l) (tdo_pos l) buf"
    and "base + (length bits + 8) div 8 \<le> length buf0"
  shows "\<exists>l' buf'. shift_capture env l = Some l' \<and> sl_jtag l' = emit PidRead (sl_jtag l) \<and>
    tdo_data l' = Some buf' \<and>
    packed base buf0 (bits @ [bit (env (bus (sl_jtag l))) 6])
      (tdo_byte l') (bit_index l') (tdo_pos l') buf'"
proof (cases "Suc (bit_index l) = 8")
  case True
  from packed_step_full [OF assms(2) True assms(3), of "bit (env (bus (sl_jtag l))) 6"] assms(1) True
  show ?thesis by (auto simp: shift_capture_def Let_def tdo_mask_test)
next
  case False
  then have "Suc (bit_index l) < 8"
    using assms(2) by (simp add: packed_def Let_def)
  from packed_step_within [OF assms(2) this assms(3), of "bit (env (bus (sl_jtag l))) 6"] assms(1) False
  show ?thesis by (auto simp: shift_capture_def Let_def tdo_mask_test)
qed

definition tdi_covers :: "u8 list option \<Rightarrow> nat \<Rightarrow> bool" where
  "tdi_covers td n = (case td of None \<Rightarrow> True | Some bs \<Rightarrow> n \<le> 8 * length bs)"

lemma tdi_bit_at_covered: "tdi_covers td n \<Longrightarrow> i < n \<Longrightarrow> tdi_bit_at td i = Some (tdi_level td i)"
  by (rule tdi_bit_at_in_range) (auto simp: tdi_covers_def)

lemma shift_bit_no_capture:
  assumes "tdi_covers td n" and "i < n" and "tdo_data l = None"
  shows "\<exists>l'. shift_bit env td n lst i l = Some l' \<and> tdo_data l' = None \<and>
    samples env (bus (sl_jtag l')) = samples env (bus (sl_jtag l))"
  using assms tdi_bit_at_covered [OF assms(1,2)]
  by (simp add: shift_bit_def shift_capture_def Let_def jtag_delay_def trace_simps shift_setup_pins)

lemma shift_bit_packed:
  assumes "tdi_covers td n" and "i < n" and "tdo_data l = Some buf"
    and "packed base buf0 bits (tdo_byte l) (bit_index l) (tdo_pos l) buf"
    and "base + (length bits + 8) div 8 \<le> length buf0"
    and "samples env (bus (sl_jtag l)) = pre @ bits"
  shows "\<exists>l' buf' b. shift_bit env td n lst i l = Some l' \<and> tdo_data l' = Some buf' \<and>
    packed base buf0 (bits @ [b]) (tdo_byte l') (bit_index l') (tdo_pos l') buf' \<and>
    samples env (bus (sl_jtag l')) = pre @ bits @ [b]"
proof -
  let ?v = "if lst \<and> i = n - 1 then JTAG_TMS_Msk else 0"
  let ?j = "shift_setup (tdi_level td i) ?v (\<not> lst \<or> i \<noteq> n - 1) (sl_jtag l)"
  let ?l = "l\<lparr>sl_jtag := jtag_delay (emit (Pbsc JTAG_TCK_Msk) (jtag_delay ?j))\<rparr>"
  let ?b = "bit (env (bus (sl_jtag ?l))) 6"
  obtain l1 buf1 where l1: "shift_capture env ?l = Some l1" "sl_jtag l1 = emit PidRead (sl_jtag ?l)"
      "tdo_data l1 = Some buf1"
      "packed base buf0 (bits @ [?b]) (tdo_byte l1) (bit_index l1) (tdo_pos l1) buf1"
    using shift_capture_packed [of ?l buf base buf0 bits env] assms(3-5) by auto
  have "samples env (bus (sl_jtag l1)) = pre @ bits @ [?b]"
    using assms(6) by (simp add: l1(2) jtag_delay_def trace_simps shift_setup_pins)
  with l1 tdi_bit_at_covered [OF assms(1,2)] show ?thesis
    by (simp add: shift_bit_def Let_def jtag_delay_def trace_simps)
qed

lemma jtag_shift_data_no_capture:
  assumes "\<not> tck_pin (bus j)" and "tdi_covers td (unat n)"
  shows "\<exists>j'. jtag_shift_data env td None n lst j = Some (None, j') \<and>
    wires (shift_drives td (unat n) (lst \<noteq> 0)) j j' \<and>
    samples env (bus j') = samples env (bus j) \<and> current_tap_state j' = current_tap_state j"
proof -
  let ?l = "\<lparr>sl_jtag = j, tdo_byte = 0, bit_index = 0, tdo_pos = 0, tdo_data = None\<rparr>"
  let ?P = "\<lambda>i l. tdo_data l = None \<and> samples env (bus (sl_jtag l)) = samples env (bus j)"
  have "\<exists>l'. for_each (shift_bit env td (unat n) (lst \<noteq> 0)) [0..<unat n] ?l = Some l' \<and> ?P (unat n) l'"
  proof (rule for_each_upt)
    show "?P 0 ?l" by simp
  next
    fix i and l :: shift_loop assume "i < unat n" and "?P i l"
    then show "\<exists>l'. shift_bit env td (unat n) (lst \<noteq> 0) i l = Some l' \<and> ?P (Suc i) l'"
      using shift_bit_no_capture [OF assms(2), of i l env "lst \<noteq> 0"] by simp
  qed
  then obtain l' where l': "for_each (shift_bit env td (unat n) (lst \<noteq> 0)) [0..<unat n] ?l = Some l'"
    "?P (unat n) l'" by blast
  with shift_loop_wires [OF l'(1)] shift_loop_tap [OF l'(1)] assms(1) show ?thesis
    by (simp add: jtag_shift_data_def)
qed

lemma jtag_shift_data_capture:
  assumes "\<not> tck_pin (bus j)" and "tdi_covers td (unat n)" and "(unat n + 7) div 8 \<le> length buf"
  shows "\<exists>j' bits. jtag_shift_data env td (Some buf) n lst j =
      Some (Some (overwritten 0 buf (pack_lsb bits)), j') \<and>
    length bits = unat n \<and> samples env (bus j') = samples env (bus j) @ bits \<and>
    wires (shift_drives td (unat n) (lst \<noteq> 0)) j j' \<and> current_tap_state j' = current_tap_state j"
proof -
  let ?l = "\<lparr>sl_jtag = j, tdo_byte = 0, bit_index = 0, tdo_pos = 0, tdo_data = Some buf\<rparr>"
  let ?P = "\<lambda>i l. \<exists>bits b. length bits = i \<and> tdo_data l = Some b \<and>
      packed 0 buf bits (tdo_byte l) (bit_index l) (tdo_pos l) b \<and>
      samples env (bus (sl_jtag l)) = samples env (bus j) @ bits"
  have "\<exists>l'. for_each (shift_bit env td (unat n) (lst \<noteq> 0)) [0..<unat n] ?l = Some l' \<and> ?P (unat n) l'"
  proof (rule for_each_upt)
    show "?P 0 ?l" by (simp add: packed_init)
  next
    fix i and l :: shift_loop assume i: "i < unat n" and "?P i l"
    then obtain bits b where b: "length bits = i" "tdo_data l = Some b"
      "packed 0 buf bits (tdo_byte l) (bit_index l) (tdo_pos l) b"
      "samples env (bus (sl_jtag l)) = samples env (bus j) @ bits" by blast
    have "0 + (length bits + 8) div 8 \<le> length buf"
      using div_le_mono [of "length bits + 8" "unat n + 7" 8] assms(3) i b(1) by simp
    from shift_bit_packed [OF assms(2) i b(2,3) this b(4), of "lst \<noteq> 0"] obtain l' buf' bt where
      "shift_bit env td (unat n) (lst \<noteq> 0) i l = Some l'" "tdo_data l' = Some buf'"
      "packed 0 buf (bits @ [bt]) (tdo_byte l') (bit_index l') (tdo_pos l') buf'"
      "samples env (bus (sl_jtag l')) = samples env (bus j) @ bits @ [bt]" by blast
    with b(1) show "\<exists>l'. shift_bit env td (unat n) (lst \<noteq> 0) i l = Some l' \<and> ?P (Suc i) l'"
      by (intro exI [of _ l'] conjI exI [of _ "bits @ [bt]"] exI [of _ buf']) simp_all
  qed
  then obtain l' bits b where l': "for_each (shift_bit env td (unat n) (lst \<noteq> 0)) [0..<unat n] ?l = Some l'"
    "length bits = unat n" "tdo_data l' = Some b"
    "packed 0 buf bits (tdo_byte l') (bit_index l') (tdo_pos l') b"
    "samples env (bus (sl_jtag l')) = samples env (bus j) @ bits" by blast
  have "wires (shift_drives td (unat n) (lst \<noteq> 0)) j (sl_jtag l')"
    and "current_tap_state (sl_jtag l') = current_tap_state j"
    using shift_loop_wires [OF l'(1)] shift_loop_tap [OF l'(1)] assms(1) by simp_all
  with l' packed_finish [OF l'(4)] show ?thesis
    by (cases "bit_index l' = 0") (auto simp: jtag_shift_data_def)
qed

lemma jtag_read_tdo_value:
  "fst (jtag_read_tdo env j) = of_bool (bit (env (bus j)) 6)"
  "samples env (bus (snd (jtag_read_tdo env j))) = samples env (bus j) @ [bit (env (bus j)) 6]"
  by (simp_all add: jtag_read_tdo_def tdo_mask_test trace_simps)

subsection \<open>Pin set-up and the reset line\<close>

lemma jtag_gpio_init_pins:
  "\<not> tck_pin (bus (jtag_gpio_init j))" "tms_pin (bus (jtag_gpio_init j))"
  "tdi_pin (bus (jtag_gpio_init j))" "srst_pin (bus (jtag_gpio_init j))"
  "edges (bus (jtag_gpio_init j)) = edges (bus j)"
  "current_tap_state (jtag_gpio_init j) = TAP_RESET"
  "jtag_clk_div (jtag_gpio_init j) = jtag_clk_div j"
  "samples env (bus (jtag_gpio_init j)) = samples env (bus j)"
  by (simp_all add: jtag_gpio_init_def Let_def trace_simps bit_or_iff)

lemma jtag_srst_pins:
  "\<not> srst_pin (bus (jtag_srst_assert j))" "srst_pin (bus (jtag_srst_deassert j))"
  "edges (bus (jtag_srst_assert j)) = edges (bus j)"
  "edges (bus (jtag_srst_deassert j)) = edges (bus j)"
  "tck_pin (bus (jtag_srst_assert j)) = tck_pin (bus j)"
  "tck_pin (bus (jtag_srst_deassert j)) = tck_pin (bus j)"
  by (simp_all add: jtag_srst_assert_def jtag_srst_deassert_def trace_simps)

lemma jtag_srst_frame [simp]:
  "jtag_clk_div (jtag_srst_assert j) = jtag_clk_div j"
  "jtag_clk_div (jtag_srst_deassert j) = jtag_clk_div j"
  by (simp_all add: jtag_srst_assert_def jtag_srst_deassert_def trace_simps)

subsection \<open>Properties of the driver\<close>

text \<open>
  C1: whatever state the TAP of the target is in, \<open>jtag_goto_state\<close> clocks it to exactly the state
  that the driver records in \<open>current_tap_state\<close>: the requested state for IDLE, DR_SELECT, IR_SELECT,
  IR_CAPTURE and IR_SHIFT, and IDLE for every other argument. TCK rests low, the reset line and the
  clock divider are untouched and TDO is not sampled.
\<close>

theorem jtag_goto_state_reaches:
  assumes "tap_controller nxt" and "\<not> tck_pin (bus j)"
  shows "\<exists>es. wires es j (jtag_goto_state st j) \<and>
      tap_run nxt s es = current_tap_state (jtag_goto_state st j) \<and>
      current_tap_state (jtag_goto_state st j) =
        (if st = 0x02 then TAP_DR_SELECT else if st = 0x09 then TAP_IR_SELECT
         else if st = 0x0A then TAP_IR_CAPTURE else if st = 0x0B then TAP_IR_SHIFT else TAP_IDLE) \<and>
      samples env (bus (jtag_goto_state st j)) = samples env (bus j)"
  using jtag_goto_state_wires [OF assms(2), of st] tap_controller.goto_run [OF assms(1), of s _ st]
  by (intro exI [of _ "map (\<lambda>b. (b, tdi_pin (bus j))) (goto_tms st)"])
    (simp add: current_tap_state_goto goto_reached_def)

theorem jtag_goto_state_reaches_witness:
  "\<exists>es. wires es jtag_initial (jtag_goto_state 0x0B jtag_initial) \<and>
     tap_run tap_next TAP_DR_PAUSE es = TAP_IR_SHIFT"
proof -
  have "\<not> tck_pin (bus jtag_initial)" by (simp add: jtag_initial_def level_def)
  from jtag_goto_state_reaches [OF tap.tap_controller_axioms this, where st = "0x0B" and s = TAP_DR_PAUSE]
  show ?thesis by auto
qed

text \<open>
  C2: a data shift of \<open>n\<close> bits clocks \<open>n\<close> cycles with TMS low, except on the last one when \<open>last_tms\<close>
  is set; TDI carries the bits of \<open>tdi_data\<close>, least significant bit of each byte first; a TAP that is
  in Shift-IR or Shift-DR ends there or in the corresponding Exit1 state; and the \<open>n\<close> TDO samples,
  packed the same way, fill \<open>tdo_data\<close> from its start and leave the rest of the buffer alone.
\<close>

theorem jtag_shift_data_shifts:
  assumes "tap_controller nxt" and "\<not> tck_pin (bus j)" and "n \<noteq> 0"
    and "unat n \<le> 8 * length tdi" and "(unat n + 7) div 8 \<le> length buf"
  shows "\<exists>j' bits es. jtag_shift_data env (Some tdi) (Some buf) n lst j =
      Some (Some (overwritten 0 buf (pack_lsb bits)), j') \<and> length bits = unat n \<and>
    samples env (bus j') = samples env (bus j) @ bits \<and> wires es j j' \<and>
    map snd es = unpack_lsb (unat n) tdi \<and>
    map fst es = replicate (unat n - 1) False @ [lst \<noteq> 0] \<and>
    tap_run nxt TAP_IR_SHIFT es = (if lst \<noteq> 0 then TAP_IR_EXIT1 else TAP_IR_SHIFT) \<and>
    tap_run nxt TAP_DR_SHIFT es = (if lst \<noteq> 0 then TAP_DR_EXIT1 else TAP_DR_SHIFT)"
proof -
  obtain m where m: "unat n = Suc m" using assms(3) by (metis not0_implies_Suc unat_eq_zero)
  let ?first = "map (\<lambda>i. (False, packed_bit tdi i)) [0..<m]"
  have es: "shift_drives (Some tdi) (unat n) (lst \<noteq> 0) = ?first @ [(lst \<noteq> 0, packed_bit tdi m)]"
    by (simp add: shift_drives_def tdi_level_def m)
  have "tap_run nxt s ?first = s" if "s \<in> {TAP_IR_SHIFT, TAP_DR_SHIFT}" for s
    using that by (intro tap_controller.stays [OF assms(1)]) auto
  note ends = this [of TAP_IR_SHIFT] this [of TAP_DR_SHIFT]
  have "tdi_covers (Some tdi) (unat n)" using assms(4) by (simp add: tdi_covers_def)
  from jtag_shift_data_capture [OF assms(2) this assms(5), of env lst] obtain j' bits where r:
    "jtag_shift_data env (Some tdi) (Some buf) n lst j = Some (Some (overwritten 0 buf (pack_lsb bits)), j')"
    "length bits = unat n" "samples env (bus j') = samples env (bus j) @ bits"
    and w: "wires (shift_drives (Some tdi) (unat n) (lst \<noteq> 0)) j j'" by blast
  show ?thesis
    using ends r w [unfolded es]
    by (intro exI [of _ j'] exI [of _ bits] exI [of _ "?first @ [(lst \<noteq> 0, packed_bit tdi m)]"])
      (simp add: m unpack_lsb_def comp_def map_replicate_const
        tap_controller.tap_laws [OF assms(1)])
qed

theorem jtag_shift_data_shifts_witness:
  "\<exists>j' bits es. jtag_shift_data (\<lambda>_. 0x40) (Some [0xA5, 0x03]) (Some [0, 0, 0]) 10 1 jtag_initial =
      Some (Some (overwritten 0 [0, 0, 0] (pack_lsb bits)), j') \<and> length bits = 10 \<and>
     wires es jtag_initial j' \<and> tap_run tap_next TAP_DR_SHIFT es = TAP_DR_EXIT1"
proof -
  have "\<not> tck_pin (bus jtag_initial)" by (simp add: jtag_initial_def level_def)
  from jtag_shift_data_shifts [OF tap.tap_controller_axioms this, of 10 "[0xA5, 0x03]" "[0, 0, 0]"
      "\<lambda>_. 0x40" 1]
  show ?thesis by auto
qed

text \<open>
  \<open>jtag_set_clock\<close> limits the frequency to 1 to 10000 kHz and stores the divider of 10 MHz for it,
  never below 2; so the divider is between 2 and 10000 for every argument, and nothing else changes.
\<close>

theorem jtag_set_clock_divider:
  "unat (jtag_clk_div (jtag_set_clock k j)) = max 2 (10000 div min 10000 (max 1 (unat k))) \<and>
   2 \<le> unat (jtag_clk_div (jtag_set_clock k j)) \<and> unat (jtag_clk_div (jtag_set_clock k j)) \<le> 10000 \<and>
   (\<exists>d. jtag_set_clock k j = j\<lparr>jtag_clk_div := d\<rparr>)"
  by (simp add: jtag_set_clock_nat) (auto simp: jtag_set_clock_def Let_def)

end
