(* ===== verification/Dap.thy ===== *)
theory Dap imports Jtag begin

text \<open>
  The CMSIS-DAP command processor, project/CMSIS_DAPv2/src/dap_main.c: its state, its response
  buffer, one definition per command handler, the dispatch table and \<open>dap_process_command\<close>.

  A handler gets the request object (the whole array the pointer addresses, so that a read past
  \<open>req_len\<close> but inside the array is what the code does) and \<open>req_len\<close>; every handler answers in
  \<open>resp_buffer\<close>, so its result is the response length and the new state. \<open>None\<close> is an access outside
  an array. Indices into arrays are naturals: each is bounded by the array it runs over.
\<close>

subsection \<open>State\<close>

record dap_state_t =
  connected :: u8
  port :: u8
  clock_khz :: u32
  led_status :: u8
  match_mask :: u32
  match_value :: u32
  idle_cycles :: u32
  retry_count :: u32
  match_retry_count :: u32

record dap =
  dap_state :: dap_state_t
  resp_buffer :: "u8 list"
  dev :: jtag

abbreviation (input) DAP_MAX_RESP_SIZE :: nat where "DAP_MAX_RESP_SIZE \<equiv> 512"

abbreviation (input) DAP_OK :: u8 where "DAP_OK \<equiv> 0x00"

abbreviation (input) DAP_ERROR :: u8 where "DAP_ERROR \<equiv> 0xFF"

abbreviation (input) DAP_PORT_DISABLED :: u8 where "DAP_PORT_DISABLED \<equiv> 0x00"

abbreviation (input) DAP_PORT_JTAG :: u8 where "DAP_PORT_JTAG \<equiv> 0x01"

abbreviation (input) DAP_CONNECT_JTAG :: u8 where "DAP_CONNECT_JTAG \<equiv> 0x02"

abbreviation (input) DAP_CMD_INFO :: u8 where "DAP_CMD_INFO \<equiv> 0x00"

abbreviation (input) DAP_CMD_HOSTSTATUS :: u8 where "DAP_CMD_HOSTSTATUS \<equiv> 0x01"

abbreviation (input) DAP_CMD_CONNECT :: u8 where "DAP_CMD_CONNECT \<equiv> 0x02"

abbreviation (input) DAP_CMD_DISCONNECT :: u8 where "DAP_CMD_DISCONNECT \<equiv> 0x03"

abbreviation (input) DAP_CMD_WRITE_ABORT :: u8 where "DAP_CMD_WRITE_ABORT \<equiv> 0x08"

abbreviation (input) DAP_CMD_DELAY :: u8 where "DAP_CMD_DELAY \<equiv> 0x09"

abbreviation (input) DAP_CMD_RESET_TARGET :: u8 where "DAP_CMD_RESET_TARGET \<equiv> 0x0A"

abbreviation (input) DAP_CMD_SWJ_CLK :: u8 where "DAP_CMD_SWJ_CLK \<equiv> 0x11"

abbreviation (input) DAP_CMD_SWJ_SEQUENCE :: u8 where "DAP_CMD_SWJ_SEQUENCE \<equiv> 0x12"

abbreviation (input) DAP_CMD_JTAG_SEQUENCE :: u8 where "DAP_CMD_JTAG_SEQUENCE \<equiv> 0x14"

abbreviation (input) DAP_CMD_TRANSFER_CONFIGURE :: u8 where "DAP_CMD_TRANSFER_CONFIGURE \<equiv> 0x30"

abbreviation (input) DAP_CMD_TRANSFER :: u8 where "DAP_CMD_TRANSFER \<equiv> 0x31"

abbreviation (input) DAP_CMD_TRANSFER_BLOCK :: u8 where "DAP_CMD_TRANSFER_BLOCK \<equiv> 0x32"

type_synonym dap_handler = "target \<Rightarrow> u8 list \<Rightarrow> u32 \<Rightarrow> dap \<Rightarrow> (u32 \<times> dap) option"

definition zero_state :: dap_state_t where
  "zero_state = \<lparr>connected = 0, port = 0, clock_khz = 0, led_status = 0, match_mask = 0,
     match_value = 0, idle_cycles = 0, retry_count = 0, match_retry_count = 0\<rparr>"

definition dap_initial :: dap where
  "dap_initial = \<lparr>dap_state = zero_state, resp_buffer = replicate DAP_MAX_RESP_SIZE 0,
     dev = jtag_initial\<rparr>"

definition dap_init :: "dap \<Rightarrow> dap" where
  "dap_init d = d\<lparr>dap_state :=
     zero_state\<lparr>connected := 0, port := DAP_PORT_DISABLED, clock_khz := 1000\<rparr>\<rparr>"

subsection \<open>Response header\<close>

definition dap_write_response ::
  "u8 \<Rightarrow> u8 \<Rightarrow> u8 list option \<Rightarrow> u32 \<Rightarrow> dap \<Rightarrow> (u32 \<times> dap) option" where
  "dap_write_response cmd status data data_len d =
     do { buf \<leftarrow> wr (resp_buffer d) 0 cmd;
          buf \<leftarrow> wr buf 1 0x00;
          (case data of
             Some src \<Rightarrow>
               if data_len > 0
               then do { _ \<leftarrow> (if unat data_len \<le> length src then Some () else None);
                         buf \<leftarrow> memcpy_at buf 2 (take (unat data_len) src);
                         Some (2 + data_len, d\<lparr>resp_buffer := buf\<rparr>) }
               else Some (2, d\<lparr>resp_buffer := buf\<rparr>)
           | None \<Rightarrow> Some (2, d\<lparr>resp_buffer := buf\<rparr>)) }"

subsection \<open>DAP_CMD_INFO\<close>

definition c_string :: "string \<Rightarrow> u8 list" where
  "c_string s = map of_char s @ [0]"

text \<open>The bytes that \<open>info_str\<close> points to and \<open>info_len\<close>, for each identifier of the \<open>switch\<close>.\<close>

definition dap_info_str :: "u8 \<Rightarrow> (u8 list \<times> u32) option" where
  "dap_info_str info_id =
     (if info_id = 0x01 then Some (c_string ''NationsTech'', 11)
      else if info_id = 0x02 then Some (c_string ''N32G43x CMSIS-DAP v2'', 21)
      else if info_id = 0x03 then Some (c_string ''00000001'', 8)
      else if info_id = 0x04 then Some (c_string ''2.0.0'', 5)
      else if info_id = 0xF0 then Some ([0x02, 0], 1)
      else if info_id = 0xF1 then Some ([0, 0, 0, 0, 0], 4)
      else if info_id = 0xFE then Some ([0x01, 0], 1)
      else if info_id = 0xFF then Some ([0x40, 0x00, 0], 2)
      else None)"

definition dap_handle_info :: dap_handler where
  "dap_handle_info env req req_len d =
     (if req_len < 2 then dap_write_response DAP_CMD_INFO DAP_ERROR None 0 d
      else do {
        info_id \<leftarrow> rd req 1;
        (case dap_info_str info_id of
           None \<Rightarrow> dap_write_response DAP_CMD_INFO DAP_ERROR None 0 d
         | Some (info_str, info_len) \<Rightarrow>
             do { let header = [ucast (info_len AND 0xFF), ucast (drop_bit 8 info_len AND 0xFF)];
                  buf \<leftarrow> memcpy_at (resp_buffer d) 0 header;
                  _ \<leftarrow> (if unat info_len \<le> length info_str then Some () else None);
                  buf \<leftarrow> memcpy_at buf 2 (take (unat info_len) info_str);
                  Some (2 + info_len, d\<lparr>resp_buffer := buf\<rparr>) }) })"

subsection \<open>Connection, clock, delay and reset commands\<close>

definition dap_handle_hoststatus :: dap_handler where
  "dap_handle_hoststatus env req req_len d =
     dap_write_response DAP_CMD_HOSTSTATUS DAP_OK None 0 d"

definition dap_handle_connect :: dap_handler where
  "dap_handle_connect env req req_len d =
     (if req_len < 2 then dap_write_response DAP_CMD_CONNECT DAP_ERROR None 0 d
      else do {
        _ \<leftarrow> rd req 1;
        let j = jtag_gpio_init (dev d);
        let j = jtag_tap_reset j;
        let j = jtag_set_clock 1000 j;
        let st = (dap_state d)\<lparr>connected := 1, port := DAP_PORT_JTAG, clock_khz := 1000\<rparr>;
        buf \<leftarrow> wr (resp_buffer d) 0 DAP_CMD_CONNECT;
        buf \<leftarrow> wr buf 1 DAP_CONNECT_JTAG;
        Some (2, d\<lparr>dap_state := st, resp_buffer := buf, dev := j\<rparr>) })"

definition dap_handle_disconnect :: dap_handler where
  "dap_handle_disconnect env req req_len d =
     dap_write_response DAP_CMD_DISCONNECT DAP_OK None 0
       (d\<lparr>dap_state := (dap_state d)\<lparr>connected := 0, port := DAP_PORT_DISABLED\<rparr>\<rparr>)"

definition rd_le32 :: "u8 list \<Rightarrow> nat \<Rightarrow> u32 option" where
  "rd_le32 req i =
     do { b0 \<leftarrow> rd req i; b1 \<leftarrow> rd req (i + 1); b2 \<leftarrow> rd req (i + 2); b3 \<leftarrow> rd req (i + 3);
          Some (le32 b0 b1 b2 b3) }"

definition dap_handle_swj_clk :: dap_handler where
  "dap_handle_swj_clk env req req_len d =
     do { d' \<leftarrow> (if req_len \<ge> 5
            then do { freq_hz \<leftarrow> rd_le32 req 1;
                      let khz = freq_hz div 1000;
                      Some (d\<lparr>dap_state := (dap_state d)\<lparr>clock_khz := khz\<rparr>,
                              dev := jtag_set_clock khz (dev d)\<rparr>) }
            else Some d);
          dap_write_response DAP_CMD_SWJ_CLK DAP_OK None 0 d' }"

definition dap_handle_write_abort :: dap_handler where
  "dap_handle_write_abort env req req_len d =
     dap_write_response DAP_CMD_WRITE_ABORT DAP_OK None 0 d"

definition dap_handle_delay :: dap_handler where
  "dap_handle_delay env req req_len d =
     (if req_len < 3 then dap_write_response DAP_CMD_DELAY DAP_ERROR None 0 d
      else do {
        b1 \<leftarrow> rd req 1; b2 \<leftarrow> rd req 2;
        let delay_us = le16 b1 b2;
        let d' = d\<lparr>dev := emit (Nops (unat (delay_us * 24))) (dev d)\<rparr>;
        dap_write_response DAP_CMD_DELAY DAP_OK None 0 d' })"

definition dap_handle_reset_target :: dap_handler where
  "dap_handle_reset_target env req req_len d =
     (let j = jtag_srst_assert (dev d);
          j = emit (Nops 960000) j;
          j = jtag_srst_deassert j
      in dap_write_response DAP_CMD_RESET_TARGET DAP_OK None 0 (d\<lparr>dev := j\<rparr>))"

definition dap_handle_transfer_configure :: dap_handler where
  "dap_handle_transfer_configure env req req_len d =
     (if req_len < 5 then dap_write_response DAP_CMD_TRANSFER_CONFIGURE DAP_ERROR None 0 d
      else do {
        b1 \<leftarrow> rd req 1; b2 \<leftarrow> rd req 2; b3 \<leftarrow> rd req 3; b4 \<leftarrow> rd req 4; b5 \<leftarrow> rd req 5;
        let st = (dap_state d)\<lparr>idle_cycles := ucast b1, retry_count := le16 b2 b3,
                   match_retry_count := le16 b4 b5\<rparr>;
        dap_write_response DAP_CMD_TRANSFER_CONFIGURE DAP_OK None 0 (d\<lparr>dap_state := st\<rparr>) })"

subsection \<open>DAP_CMD_SWJ_SEQUENCE\<close>

text \<open>
  The loops of the two sequence handlers write the registers themselves; their delay loops count a
  signed index up to \<open>(int)div\<close>.
\<close>

definition nop_loop :: "u32 \<Rightarrow> jtag \<Rightarrow> jtag" where
  "nop_loop d j = emit (Nops (nat (sint d))) j"

definition swj_bit :: "u8 list \<Rightarrow> u32 \<Rightarrow> nat \<Rightarrow> jtag \<Rightarrow> jtag option" where
  "swj_bit req dv i j =
     do { b \<leftarrow> rd req (2 + i div 8);
          let j = (if b AND push_bit (i mod 8) 1 \<noteq> 0 then emit (Pbsc JTAG_TMS_Msk) j
                   else emit (Pbc JTAG_TMS_Msk) j);
          let j = nop_loop dv j;
          let j = emit (Pbsc JTAG_TCK_Msk) j;
          let j = nop_loop dv j;
          Some (emit (Pbc JTAG_TCK_Msk) j) }"

definition dap_handle_swj_sequence :: dap_handler where
  "dap_handle_swj_sequence env req req_len d =
     (if req_len < 2 then dap_write_response DAP_CMD_SWJ_SEQUENCE DAP_ERROR None 0 d
      else do {
        num_tms \<leftarrow> rd req 1;
        let byte_len = (unat num_tms + 7) div 8;
        let dv = jtag_get_clk_divider (dev d);
        if unat req_len < 2 + byte_len
        then dap_write_response DAP_CMD_SWJ_SEQUENCE DAP_ERROR None 0 d
        else do {
          j \<leftarrow> for_each (swj_bit req dv) [0..<unat num_tms] (dev d);
          dap_write_response DAP_CMD_SWJ_SEQUENCE DAP_OK None 0 (d\<lparr>dev := j\<rparr>) } })"

subsection \<open>DAP_CMD_JTAG_SEQUENCE\<close>

record seq_loop =
  sq_jtag :: jtag
  sq_tdo_byte :: u8
  sq_tdo_bit :: nat
  resp_idx :: nat
  sq_buf :: "u8 list"

definition seq_capture :: "target \<Rightarrow> seq_loop \<Rightarrow> seq_loop option" where
  "seq_capture env l =
     (let pid = env (bus (sq_jtag l));
          b = (if pid AND JTAG_TDO_Msk \<noteq> 0 then sq_tdo_byte l OR push_bit (sq_tdo_bit l) 1
               else sq_tdo_byte l);
          l = l\<lparr>sq_jtag := emit PidRead (sq_jtag l), sq_tdo_byte := b, sq_tdo_bit := sq_tdo_bit l + 1\<rparr>
      in if sq_tdo_bit l = 8
         then do { buf \<leftarrow> wr (sq_buf l) (2 + resp_idx l) (sq_tdo_byte l);
                   Some (l\<lparr>sq_buf := buf, resp_idx := resp_idx l + 1, sq_tdo_byte := 0, sq_tdo_bit := 0\<rparr>) }
         else Some l)"

definition seq_setup :: "bool \<Rightarrow> bool \<Rightarrow> jtag \<Rightarrow> jtag" where
  "seq_setup tdi_bit tms_val j =
     (let j = (if tdi_bit then emit (Pbsc JTAG_TDI_Msk) j else emit (Pbc JTAG_TDI_Msk) j)
      in if tms_val then emit (Pbsc JTAG_TMS_Msk) j else emit (Pbc JTAG_TMS_Msk) j)"

definition seq_bit ::
  "target \<Rightarrow> u8 list \<Rightarrow> nat \<Rightarrow> bool \<Rightarrow> bool \<Rightarrow> u32 \<Rightarrow> nat \<Rightarrow> seq_loop \<Rightarrow> seq_loop option" where
  "seq_bit env req tdi_pos capture tms_val dv i l =
     do { b \<leftarrow> rd req (tdi_pos + i div 8);
          let j = seq_setup (b AND push_bit (i mod 8) 1 \<noteq> 0) tms_val (sq_jtag l);
          let j = nop_loop dv j;
          let j = emit (Pbsc JTAG_TCK_Msk) j;
          let j = nop_loop dv j;
          let l = l\<lparr>sq_jtag := j\<rparr>;
          l \<leftarrow> (if capture then seq_capture env l else Some l);
          Some (l\<lparr>sq_jtag := emit (Pbc JTAG_TCK_Msk) (sq_jtag l)\<rparr>) }"

definition seq_flush :: "bool \<Rightarrow> seq_loop \<Rightarrow> seq_loop option" where
  "seq_flush capture l =
     (if capture \<and> sq_tdo_bit l > 0
      then do { buf \<leftarrow> wr (sq_buf l) (2 + resp_idx l) (sq_tdo_byte l);
                Some (l\<lparr>sq_buf := buf, resp_idx := resp_idx l + 1\<rparr>) }
      else Some l)"

definition seq_nbits :: "u8 \<Rightarrow> nat" where
  "seq_nbits info = (let nbits = info AND 0x3F in if nbits = 0 then 64 else unat nbits)"

fun seq_loop_14 ::
  "target \<Rightarrow> u8 list \<Rightarrow> nat \<Rightarrow> u32 \<Rightarrow> nat \<Rightarrow> nat \<Rightarrow> seq_loop \<Rightarrow> seq_loop option" where
  "seq_loop_14 env req req_len dv 0 req_pos l = Some l"
| "seq_loop_14 env req req_len dv (Suc s) req_pos l =
     (if req_pos \<ge> req_len then Some l
      else do {
        info \<leftarrow> rd req req_pos;
        let capture = (drop_bit 7 info AND 0x01 \<noteq> 0);
        let tms_val = (drop_bit 6 info AND 0x01 \<noteq> 0);
        let nbits = seq_nbits info;
        let byte_len = (nbits + 7) div 8;
        if req_pos + 1 + byte_len > req_len then Some l
        else do {
          l \<leftarrow> for_each (seq_bit env req (req_pos + 1) capture tms_val dv) [0..<nbits]
                  (l\<lparr>sq_tdo_byte := 0, sq_tdo_bit := 0\<rparr>);
          l \<leftarrow> seq_flush capture l;
          seq_loop_14 env req req_len dv s (req_pos + 1 + byte_len) l } })"

definition dap_handle_jtag_sequence_14 :: dap_handler where
  "dap_handle_jtag_sequence_14 env req req_len d =
     (if req_len < 2 then dap_write_response DAP_CMD_JTAG_SEQUENCE DAP_ERROR None 0 d
      else do {
        num_seq \<leftarrow> rd req 1;
        let dv = jtag_get_clk_divider (dev d);
        l \<leftarrow> seq_loop_14 env req (unat req_len) dv (unat num_seq) 2
               \<lparr>sq_jtag = dev d, sq_tdo_byte = 0, sq_tdo_bit = 0, resp_idx = 0,
                sq_buf = resp_buffer d\<rparr>;
        buf \<leftarrow> wr (sq_buf l) 0 DAP_CMD_JTAG_SEQUENCE;
        buf \<leftarrow> wr buf 1 DAP_OK;
        Some (of_nat (resp_idx l) + 2, d\<lparr>resp_buffer := buf, dev := sq_jtag l\<rparr>) })"

subsection \<open>DAP_CMD_TRANSFER and DAP_CMD_TRANSFER_BLOCK\<close>

text \<open>
  The DP or AP access that both handlers spell out: the IR scan, the 35-bit DR scan with the
  captured bytes, and the return to Run-Test/Idle.
\<close>

definition dr_request :: "bool \<Rightarrow> u8 \<Rightarrow> u32 \<Rightarrow> u8 list" where
  "dr_request rnw a_reg write_data =
     (let b0 = 0x01 OR push_bit 1 (a_reg AND 0x03);
          b0 = (if rnw then b0 OR 0x08 else b0)
      in if rnw then [b0, 0, 0, 0, 0]
         else [b0, byte_of 0 write_data, byte_of 1 write_data, byte_of 2 write_data,
               byte_of 3 write_data])"

definition dp_ap_scan ::
  "target \<Rightarrow> bool \<Rightarrow> bool \<Rightarrow> u8 \<Rightarrow> u32 \<Rightarrow> jtag \<Rightarrow> (u8 list \<times> jtag) option" where
  "dp_ap_scan env ap_ndp rnw a_reg write_data j =
     do { let ir_bits = [if ap_ndp then 0x0B else 0x0A, 0, 0, 0];
          let j = jtag_goto_state 0x0B j;
          (_, j) \<leftarrow> jtag_shift_data env (Some ir_bits) None 4 1 j;
          let j = jtag_goto_state 0x04 j;
          (dr_tdo, j) \<leftarrow> jtag_shift_data env (Some (dr_request rnw a_reg write_data))
                           (Some [0, 0, 0, 0, 0]) 35 1 j;
          (case dr_tdo of None \<Rightarrow> None | Some bs \<Rightarrow> Some (bs, j)) }"

text \<open>Four bytes stored with \<open>resp_data[resp_idx++]\<close>, \<open>resp_data = &resp_buffer[base]\<close>.\<close>

definition put_le32 :: "nat \<Rightarrow> nat \<Rightarrow> u8 list \<Rightarrow> u8 list \<Rightarrow> u8 list option" where
  "put_le32 base idx dr_tdo buf =
     do { read_data \<leftarrow> rd_le32 dr_tdo 1;
          buf \<leftarrow> wr buf (base + idx) (byte_of 0 read_data);
          buf \<leftarrow> wr buf (base + (idx + 1)) (byte_of 1 read_data);
          buf \<leftarrow> wr buf (base + (idx + 2)) (byte_of 2 read_data);
          wr buf (base + (idx + 3)) (byte_of 3 read_data) }"

record xfer_loop =
  xf_jtag :: jtag
  xf_count :: u8
  xf_status :: u8
  xf_idx :: nat
  xf_buf :: "u8 list"

definition xfer_write_data :: "bool \<Rightarrow> u8 list \<Rightarrow> nat \<Rightarrow> nat \<Rightarrow> (u32 \<times> nat) option" where
  "xfer_write_data rnw req req_len req_idx =
     (if \<not> rnw \<and> req_idx + 4 \<le> req_len
      then do { w \<leftarrow> rd_le32 req req_idx; Some (w, req_idx + 4) }
      else Some (0, req_idx))"

definition xfer_store :: "nat \<Rightarrow> u8 list \<Rightarrow> xfer_loop \<Rightarrow> xfer_loop option" where
  "xfer_store base dr_tdo l =
     (if xf_idx l + 4 < DAP_MAX_RESP_SIZE
      then do { buf \<leftarrow> put_le32 base (xf_idx l) dr_tdo (xf_buf l);
                Some (l\<lparr>xf_buf := buf, xf_idx := xf_idx l + 4, xf_count := xf_count l + 1\<rparr>) }
      else Some l)"

fun transfer_loop ::
  "target \<Rightarrow> u8 list \<Rightarrow> nat \<Rightarrow> nat \<Rightarrow> nat \<Rightarrow> xfer_loop \<Rightarrow> xfer_loop option" where
  "transfer_loop env req req_len 0 req_idx l = Some l"
| "transfer_loop env req req_len (Suc i) req_idx l =
     (if req_idx \<ge> req_len then Some (l\<lparr>xf_status := DAP_ERROR\<rparr>)
      else do {
        transfer_req \<leftarrow> rd req req_idx;
        let ap_ndp = (transfer_req AND 0x01 \<noteq> 0);
        let rnw = (transfer_req AND 0x02 \<noteq> 0);
        let a_reg = drop_bit 2 transfer_req AND 0x03;
        (write_data, req_idx) \<leftarrow> xfer_write_data rnw req req_len (req_idx + 1);
        (dr_tdo, j) \<leftarrow> dp_ap_scan env ap_ndp rnw a_reg write_data (xf_jtag l);
        let l = l\<lparr>xf_jtag := j\<rparr>;
        l \<leftarrow> (if rnw
              then do { b0 \<leftarrow> rd dr_tdo 0;
                        let ack = drop_bit 1 b0 AND 0x07;
                        xfer_store 3 dr_tdo (if ack \<noteq> 1 then l\<lparr>xf_status := 0x04\<rparr> else l) }
              else Some l);
        transfer_loop env req req_len i req_idx (l\<lparr>xf_jtag := jtag_goto_state 0x01 (xf_jtag l)\<rparr>) })"

definition dap_handle_transfer :: dap_handler where
  "dap_handle_transfer env req req_len d =
     (if req_len < 5 then dap_write_response DAP_CMD_TRANSFER DAP_ERROR None 0 d
      else do {
        _ \<leftarrow> rd req 1;
        req_count \<leftarrow> rd req 2;
        l \<leftarrow> transfer_loop env req (unat req_len) (unat req_count) 3
               \<lparr>xf_jtag = dev d, xf_count = 0, xf_status = DAP_OK, xf_idx = 3,
                xf_buf = resp_buffer d\<rparr>;
        buf \<leftarrow> wr (xf_buf l) 0 DAP_CMD_TRANSFER;
        buf \<leftarrow> wr buf 1 (xf_count l);
        buf \<leftarrow> wr buf 2 (xf_status l);
        Some (of_nat (xf_idx l), d\<lparr>resp_buffer := buf, dev := xf_jtag l\<rparr>) })"

fun block_loop ::
  "target \<Rightarrow> u8 list \<Rightarrow> nat \<Rightarrow> bool \<Rightarrow> bool \<Rightarrow> nat \<Rightarrow> u8 \<Rightarrow> nat \<Rightarrow> xfer_loop \<Rightarrow> xfer_loop option" where
  "block_loop env req req_len ap_ndp rnw 0 a_reg req_idx l = Some l"
| "block_loop env req req_len ap_ndp rnw (Suc i) a_reg req_idx l =
     do { (write_data, req_idx) \<leftarrow> xfer_write_data rnw req req_len req_idx;
          (dr_tdo, j) \<leftarrow> dp_ap_scan env ap_ndp rnw a_reg write_data (xf_jtag l);
          let l = l\<lparr>xf_jtag := j\<rparr>;
          l \<leftarrow> (if rnw then xfer_store 2 dr_tdo l else Some l);
          block_loop env req req_len ap_ndp rnw i ((a_reg + 1) AND 0x03) req_idx
            (l\<lparr>xf_jtag := jtag_goto_state 0x01 (xf_jtag l)\<rparr>) }"

definition dap_handle_transfer_block :: dap_handler where
  "dap_handle_transfer_block env req req_len d =
     (if req_len < 5 then dap_write_response DAP_CMD_TRANSFER_BLOCK DAP_ERROR None 0 d
      else do {
        req_count \<leftarrow> rd req 2;
        transfer_req \<leftarrow> rd req 3;
        let rnw = (transfer_req AND 0x02 \<noteq> 0);
        let a_reg = drop_bit 2 transfer_req AND 0x03;
        let ap_ndp = (transfer_req AND 0x01 \<noteq> 0);
        l \<leftarrow> block_loop env req (unat req_len) ap_ndp rnw (unat req_count) a_reg 4
               \<lparr>xf_jtag = dev d, xf_count = 0, xf_status = DAP_OK, xf_idx = 2,
                xf_buf = resp_buffer d\<rparr>;
        buf \<leftarrow> wr (xf_buf l) 0 DAP_CMD_TRANSFER_BLOCK;
        buf \<leftarrow> wr buf 1 (xf_count l);
        Some (of_nat (xf_idx l), d\<lparr>resp_buffer := buf, dev := xf_jtag l\<rparr>) })"

subsection \<open>Dispatch\<close>

definition dap_cmd_table :: "(u8 \<times> dap_handler) list" where
  "dap_cmd_table =
    [(DAP_CMD_INFO, dap_handle_info),
     (DAP_CMD_HOSTSTATUS, dap_handle_hoststatus),
     (DAP_CMD_CONNECT, dap_handle_connect),
     (DAP_CMD_DISCONNECT, dap_handle_disconnect),
     (DAP_CMD_WRITE_ABORT, dap_handle_write_abort),
     (DAP_CMD_DELAY, dap_handle_delay),
     (DAP_CMD_RESET_TARGET, dap_handle_reset_target),
     (DAP_CMD_SWJ_CLK, dap_handle_swj_clk),
     (DAP_CMD_SWJ_SEQUENCE, dap_handle_swj_sequence),
     (DAP_CMD_JTAG_SEQUENCE, dap_handle_jtag_sequence_14),
     (DAP_CMD_TRANSFER_CONFIGURE, dap_handle_transfer_configure),
     (DAP_CMD_TRANSFER, dap_handle_transfer),
     (DAP_CMD_TRANSFER_BLOCK, dap_handle_transfer_block)]"

text \<open>The result: \<open>*resp_len\<close>, the caller's buffer \<open>resp_data\<close> and the new state.\<close>

definition dap_process_command ::
  "target \<Rightarrow> u8 list option \<Rightarrow> u32 \<Rightarrow> u8 list option \<Rightarrow> dap
     \<Rightarrow> (u32 \<times> u8 list option \<times> dap) option" where
  "dap_process_command env req_data req_len resp_data d =
     (case req_data of
        None \<Rightarrow> Some (0, resp_data, d)
      | Some req \<Rightarrow>
          if req_len = 0 then Some (0, resp_data, d)
          else do {
            cmd \<leftarrow> rd req 0;
            (len, d) \<leftarrow> (case map_of dap_cmd_table cmd of
                Some handler \<Rightarrow> handler env req req_len d
              | None \<Rightarrow> dap_write_response cmd DAP_ERROR None 0 d);
            (case resp_data of
               Some out \<Rightarrow>
                 if 0 < len \<and> unat len \<le> DAP_MAX_RESP_SIZE
                 then do { out \<leftarrow> memcpy_at out 0 (take (unat len) (resp_buffer d));
                           Some (len, Some out, d) }
                 else Some (0, resp_data, d)
             | None \<Rightarrow> Some (0, resp_data, d)) })"

definition dap_get_info_string :: "u8 list" where
  "dap_get_info_string = c_string ''CMSIS-DAP v2 N32G43x JTAG Debugger'' @ [0]"

subsection \<open>The pins under the sequence handlers\<close>

lemma nop_loop_simps [trace_simps]:
  "bus (nop_loop d j) = Nops (nat (sint d)) # bus j"
  "jtag_clk_div (nop_loop d j) = jtag_clk_div j"
  "current_tap_state (nop_loop d j) = current_tap_state j"
  by (simp_all add: nop_loop_def trace_simps)

lemma rd_bit: "rd req (p + i div 8) = Some b \<Longrightarrow> bit b (i mod 8) = packed_bit (drop p req) i"
  by (auto simp: packed_bit_def dest!: rd_SomeD)

lemma flag_bit: "(drop_bit n (b :: u8) AND 1 \<noteq> 0) = bit b n"
  by (simp add: bit_iff_odd_drop_bit and_one_eq odd_iff_mod_2_eq_one)

lemma swj_bit_frame:
  assumes "swj_bit req dv i j = Some j'"
  shows "jtag_clk_div j' = jtag_clk_div j" "current_tap_state j' = current_tap_state j"
    "samples env (bus j') = samples env (bus j)" "tdi_pin (bus j') = tdi_pin (bus j)"
    "srst_pin (bus j') = srst_pin (bus j)" "\<not> tck_pin (bus j')"
    "\<not> tck_pin (bus j) \<Longrightarrow>
       edges (bus j') = edges (bus j) @ [(packed_bit (drop 2 req) i, tdi_pin (bus j))]"
proof -
  from assms obtain b where b: "rd req (2 + i div 8) = Some b"
    by (auto simp: swj_bit_def Option.bind_eq_Some_conv)
  let ?e = "if packed_bit (drop 2 req) i then Pbsc JTAG_TMS_Msk else Pbc JTAG_TMS_Msk"
  from assms have "j' = emit (Pbc JTAG_TCK_Msk) (nop_loop dv (emit (Pbsc JTAG_TCK_Msk)
      (nop_loop dv (emit ?e j))))"
    by (cases "packed_bit (drop 2 req) i")
      (simp_all add: swj_bit_def b [simplified] and_exp_eq_0_iff_not_bit rd_bit [OF b] Let_def)
  then show "jtag_clk_div j' = jtag_clk_div j" "current_tap_state j' = current_tap_state j"
    "samples env (bus j') = samples env (bus j)" "tdi_pin (bus j') = tdi_pin (bus j)"
    "srst_pin (bus j') = srst_pin (bus j)" "\<not> tck_pin (bus j')"
    "\<not> tck_pin (bus j) \<Longrightarrow>
       edges (bus j') = edges (bus j) @ [(packed_bit (drop 2 req) i, tdi_pin (bus j))]"
    by (cases "packed_bit (drop 2 req) i"; simp add: trace_simps)+
qed

interpretation swj_cycle: clock_cycles
  "swj_bit req dv" bus "\<lambda>i d. (packed_bit (drop 2 req) i, d)" for req dv
  by unfold_locales (simp_all add: swj_bit_frame)

lemma swj_loop_frame:
  "for_each (swj_bit req dv) is j = Some j' \<Longrightarrow>
     jtag_clk_div j' = jtag_clk_div j \<and> current_tap_state j' = current_tap_state j \<and>
     samples env (bus j') = samples env (bus j)"
  by (induction "is" arbitrary: j) (auto simp: Option.bind_eq_Some_conv dest: swj_bit_frame)

lemma swj_loop_total:
  assumes "2 + (n + 7) div 8 \<le> length req"
  shows "\<exists>j'. for_each (swj_bit req dv) [0..<n] j = Some j'"
proof -
  have "\<exists>j'. for_each (swj_bit req dv) [0..<n] j = Some j' \<and> True"
  proof (rule for_each_upt)
    fix i and j :: jtag assume "i < n"
    then have "2 + i div 8 < length req" using assms by linarith
    then show "\<exists>j'. swj_bit req dv i j = Some j' \<and> True"
      by (simp add: swj_bit_def Let_def buf_simps)
  qed simp
  then show ?thesis by blast
qed

lemma swj_loop_wires:
  assumes "2 + (n + 7) div 8 \<le> length req" and "\<not> tck_pin (bus j)"
  shows "\<exists>j'. for_each (swj_bit req dv) [0..<n] j = Some j' \<and>
    wires (map (\<lambda>b. (b, tdi_pin (bus j))) (unpack_lsb n (drop 2 req))) j j' \<and>
    samples env (bus j') = samples env (bus j) \<and> current_tap_state j' = current_tap_state j"
proof -
  obtain j' where run: "for_each (swj_bit req dv) [0..<n] j = Some j'"
    using swj_loop_total [OF assms(1)] by blast
  with swj_cycle.cycles_edges [OF run assms(2), unfolded swj_cycle.driven_tms [OF refl]]
    swj_cycle.cycles_low [OF run assms(2)] swj_cycle.cycles_srst [OF run] swj_loop_frame [OF run]
  show ?thesis by (simp add: wires_def unpack_lsb_def comp_def)
qed

lemma seq_capture_bus:
  "seq_capture env l = Some l' \<Longrightarrow> sq_jtag l' = emit PidRead (sq_jtag l)"
  by (auto simp: seq_capture_def Let_def Option.bind_eq_Some_conv split: if_splits)

lemma seq_setup_pins:
  "edges (bus (seq_setup tb v j)) = edges (bus j)"
  "tck_pin (bus (seq_setup tb v j)) = tck_pin (bus j)"
  "tms_pin (bus (seq_setup tb v j)) = v"
  "tdi_pin (bus (seq_setup tb v j)) = tb"
  "srst_pin (bus (seq_setup tb v j)) = srst_pin (bus j)"
  "samples env (bus (seq_setup tb v j)) = samples env (bus j)"
  "jtag_clk_div (seq_setup tb v j) = jtag_clk_div j"
  "current_tap_state (seq_setup tb v j) = current_tap_state j"
  by (auto simp: seq_setup_def Let_def trace_simps)

lemma seq_bit_step:
  assumes "seq_bit env req p c v dv i l = Some l'"
  obtains l1 where "(if c then seq_capture env (l\<lparr>sq_jtag := nop_loop dv (emit (Pbsc JTAG_TCK_Msk)
        (nop_loop dv (seq_setup (packed_bit (drop p req) i) v (sq_jtag l))))\<rparr>)
      else Some (l\<lparr>sq_jtag := nop_loop dv (emit (Pbsc JTAG_TCK_Msk)
        (nop_loop dv (seq_setup (packed_bit (drop p req) i) v (sq_jtag l))))\<rparr>)) = Some l1"
    and "l' = l1\<lparr>sq_jtag := emit (Pbc JTAG_TCK_Msk) (sq_jtag l1)\<rparr>"
proof -
  from assms obtain b where b: "rd req (p + i div 8) = Some b"
    by (auto simp: seq_bit_def Option.bind_eq_Some_conv)
  from assms show thesis
    by (cases c) (auto simp: seq_bit_def b and_exp_eq_0_iff_not_bit rd_bit [OF b] Let_def
        Option.bind_eq_Some_conv intro: that)
qed

lemma seq_bit_wires:
  assumes "seq_bit env req p c v dv i l = Some l'"
  shows "\<not> tck_pin (bus (sq_jtag l'))"
    and "srst_pin (bus (sq_jtag l')) = srst_pin (bus (sq_jtag l))"
    and "tdi_pin (bus (sq_jtag l')) = packed_bit (drop p req) i"
    and "jtag_clk_div (sq_jtag l') = jtag_clk_div (sq_jtag l)"
    and "current_tap_state (sq_jtag l') = current_tap_state (sq_jtag l)"
    and "\<not> tck_pin (bus (sq_jtag l)) \<Longrightarrow>
      edges (bus (sq_jtag l')) = edges (bus (sq_jtag l)) @ [(v, packed_bit (drop p req) i)]"
proof -
  let ?up = "nop_loop dv (emit (Pbsc JTAG_TCK_Msk)
        (nop_loop dv (seq_setup (packed_bit (drop p req) i) v (sq_jtag l))))"
  from assms obtain l1 where
    "(if c then seq_capture env (l\<lparr>sq_jtag := ?up\<rparr>) else Some (l\<lparr>sq_jtag := ?up\<rparr>)) = Some l1"
    and l': "l' = l1\<lparr>sq_jtag := emit (Pbc JTAG_TCK_Msk) (sq_jtag l1)\<rparr>"
    by (rule seq_bit_step)
  then have "sq_jtag l1 = ?up \<or> sq_jtag l1 = emit PidRead ?up"
    by (auto split: if_splits dest: seq_capture_bus)
  then show "\<not> tck_pin (bus (sq_jtag l'))"
    and "srst_pin (bus (sq_jtag l')) = srst_pin (bus (sq_jtag l))"
    and "tdi_pin (bus (sq_jtag l')) = packed_bit (drop p req) i"
    and "jtag_clk_div (sq_jtag l') = jtag_clk_div (sq_jtag l)"
    and "current_tap_state (sq_jtag l') = current_tap_state (sq_jtag l)"
    and "\<not> tck_pin (bus (sq_jtag l)) \<Longrightarrow>
      edges (bus (sq_jtag l')) = edges (bus (sq_jtag l)) @ [(v, packed_bit (drop p req) i)]"
    by (auto simp: l' trace_simps seq_setup_pins)
qed

interpretation seq_cycle: clock_cycles
  "seq_bit env req p c v dv" "\<lambda>l. bus (sq_jtag l)" "\<lambda>i _. (v, packed_bit (drop p req) i)"
  for env req p c v dv
  by unfold_locales (auto simp: seq_bit_wires)

lemma seq_loop_frame:
  "for_each (seq_bit env req p c v dv) is l = Some l' \<Longrightarrow>
     jtag_clk_div (sq_jtag l') = jtag_clk_div (sq_jtag l) \<and>
     current_tap_state (sq_jtag l') = current_tap_state (sq_jtag l)"
  by (induction "is" arbitrary: l)
    (auto simp: Option.bind_eq_Some_conv dest: seq_bit_wires(4,5))

subsection \<open>DAP_CMD_JTAG_SEQUENCE against its protocol\<close>

text \<open>
  The request format of the handler's comment as a value: each sequence has a capture flag, a TMS
  level and 1 to 64 TDI bits. \<open>encode_seqs\<close> writes a request body, \<open>parse_seqs\<close> reads at most \<open>n\<close>
  sequences and stops where the body is cut short.
\<close>

datatype jtag_seq = JtagSeq (seq_captures: bool) (seq_tms: bool) (seq_tdi: "bool list")

fun parse_seqs :: "nat \<Rightarrow> u8 list \<Rightarrow> jtag_seq list" where
  "parse_seqs 0 bs = []"
| "parse_seqs (Suc n) [] = []"
| "parse_seqs (Suc n) (info # bs) =
     (let nb = seq_nbits info; k = (nb + 7) div 8
      in if k \<le> length bs
         then JtagSeq (bit info 7) (bit info 6) (unpack_lsb nb bs) # parse_seqs n (drop k bs)
         else [])"

definition seq_info :: "jtag_seq \<Rightarrow> u8" where
  "seq_info q = byte_of_bits
     (map (bit (of_nat (length (seq_tdi q) mod 64) :: u8)) [0..<6] @ [seq_tms q, seq_captures q])"

definition encode_seqs :: "jtag_seq list \<Rightarrow> u8 list" where
  "encode_seqs qs = concat (map (\<lambda>q. seq_info q # pack_lsb (seq_tdi q)) qs)"

definition seq_drives :: "jtag_seq \<Rightarrow> (bool \<times> bool) list" where
  "seq_drives q = map (\<lambda>b. (seq_tms q, b)) (seq_tdi q)"

definition captured_for :: "jtag_seq \<Rightarrow> bool list \<Rightarrow> bool" where
  "captured_for q bits \<longleftrightarrow> length bits = (if seq_captures q then length (seq_tdi q) else 0)"

definition seq_response :: "bool list list \<Rightarrow> u8 list" where
  "seq_response bss = concat (map pack_lsb bss)"

lemma seq_nbits_bounds: "1 \<le> seq_nbits info" "seq_nbits info \<le> 64"
proof -
  have "unat (info AND 0x3F) \<le> unat (0x3F :: u8)"
    by (metis word_and_le1 word_le_nat_alt)
  then show "1 \<le> seq_nbits info" "seq_nbits info \<le> 64"
    by (auto simp: seq_nbits_def Let_def Suc_le_eq unat_gt_0)
qed

lemma length_unpack_lsb [simp]: "length (unpack_lsb n bs) = n"
  by (simp add: unpack_lsb_def)

lemma seq_capture_packed:
  assumes "packed base buf0 bits (sq_tdo_byte l) (sq_tdo_bit l) (2 + resp_idx l) (sq_buf l)"
    and "base + (length bits + 8) div 8 \<le> length buf0"
  shows "\<exists>l'. seq_capture env l = Some l' \<and> sq_jtag l' = emit PidRead (sq_jtag l) \<and>
    packed base buf0 (bits @ [bit (env (bus (sq_jtag l))) 6])
      (sq_tdo_byte l') (sq_tdo_bit l') (2 + resp_idx l') (sq_buf l')"
proof (cases "Suc (sq_tdo_bit l) = 8")
  case True
  from packed_step_full [OF assms(1) True assms(2), of "bit (env (bus (sq_jtag l))) 6"] True
  show ?thesis by (auto simp: seq_capture_def Let_def tdo_mask_test)
next
  case False
  then have "Suc (sq_tdo_bit l) < 8"
    using assms(1) by (simp add: packed_def Let_def)
  from packed_step_within [OF assms(1) this assms(2), of "bit (env (bus (sq_jtag l))) 6"] False
  show ?thesis by (auto simp: seq_capture_def Let_def tdo_mask_test)
qed

definition captures_so_far :: "target \<Rightarrow> bool \<Rightarrow> bool list \<Rightarrow> nat \<Rightarrow> u8 list \<Rightarrow> nat \<Rightarrow> seq_loop \<Rightarrow> bool" where
  "captures_so_far env c pre base buf0 i l \<longleftrightarrow>
     (\<exists>bits. length bits = (if c then i else 0) \<and> samples env (bus (sq_jtag l)) = pre @ bits \<and>
        packed base buf0 bits (sq_tdo_byte l) (sq_tdo_bit l) (2 + resp_idx l) (sq_buf l))"

lemma seq_bit_captures:
  assumes "p + i div 8 < length req" and "captures_so_far env c pre base buf0 i l"
    and "base + (i + 8) div 8 \<le> length buf0"
  shows "\<exists>l'. seq_bit env req p c v dv i l = Some l' \<and> captures_so_far env c pre base buf0 (Suc i) l'"
proof -
  obtain b where b: "rd req (p + i div 8) = Some b" using assms(1) by (simp add: buf_simps)
  let ?up = "nop_loop dv (emit (Pbsc JTAG_TCK_Msk)
        (nop_loop dv (seq_setup (packed_bit (drop p req) i) v (sq_jtag l))))"
  let ?l = "l\<lparr>sq_jtag := ?up\<rparr>"
  from assms(2) obtain bits where bits: "length bits = (if c then i else 0)"
    "samples env (bus (sq_jtag l)) = pre @ bits"
    "packed base buf0 bits (sq_tdo_byte l) (sq_tdo_bit l) (2 + resp_idx l) (sq_buf l)"
    by (auto simp: captures_so_far_def)
  have up: "samples env (bus ?up) = pre @ bits"
    using bits(2) by (simp add: trace_simps seq_setup_pins)
  show ?thesis
  proof (cases c)
    case False
    with bits up show ?thesis
      by (simp add: seq_bit_def b and_exp_eq_0_iff_not_bit rd_bit [OF b] Let_def
          captures_so_far_def trace_simps)
  next
    case True
    with bits assms(3) obtain l1 where l1: "seq_capture env ?l = Some l1"
      "sq_jtag l1 = emit PidRead ?up"
      "packed base buf0 (bits @ [bit (env (bus ?up)) 6]) (sq_tdo_byte l1) (sq_tdo_bit l1)
         (2 + resp_idx l1) (sq_buf l1)"
      using seq_capture_packed [of base buf0 bits ?l env] by auto
    have "samples env (bus (sq_jtag l1)) = pre @ bits @ [bit (env (bus ?up)) 6]"
      using up by (simp add: l1(2) trace_simps)
    with l1 True bits(1) show ?thesis
      by (auto simp: seq_bit_def b and_exp_eq_0_iff_not_bit rd_bit [OF b] Let_def
          captures_so_far_def trace_simps intro!: exI [of _ "bits @ [bit (env (bus ?up)) 6]"])
  qed
qed

lemma seq_one:
  assumes "\<not> tck_pin (bus (sq_jtag l))" and "p + (n + 7) div 8 \<le> length req"
    and "2 + resp_idx l + (n + 7) div 8 \<le> length (sq_buf l)"
  shows "\<exists>l1 l2 bits.
    for_each (seq_bit env req p c v dv) [0..<n] (l\<lparr>sq_tdo_byte := 0, sq_tdo_bit := 0\<rparr>) = Some l1 \<and>
    seq_flush c l1 = Some l2 \<and> captured_for (JtagSeq c v (unpack_lsb n (drop p req))) bits \<and>
    samples env (bus (sq_jtag l2)) = samples env (bus (sq_jtag l)) @ bits \<and>
    sq_buf l2 = overwritten (2 + resp_idx l) (sq_buf l) (pack_lsb bits) \<and>
    resp_idx l2 = resp_idx l + length (pack_lsb bits) \<and>
    wires (seq_drives (JtagSeq c v (unpack_lsb n (drop p req)))) (sq_jtag l) (sq_jtag l2) \<and>
    current_tap_state (sq_jtag l2) = current_tap_state (sq_jtag l)"
proof -
  let ?l = "l\<lparr>sq_tdo_byte := 0, sq_tdo_bit := 0\<rparr>" and ?base = "2 + resp_idx l"
  let ?P = "captures_so_far env c (samples env (bus (sq_jtag l))) ?base (sq_buf l)"
  have "\<exists>l1. for_each (seq_bit env req p c v dv) [0..<n] ?l = Some l1 \<and> ?P n l1"
  proof (rule for_each_upt)
    show "?P 0 ?l" using assms(3) by (auto simp: captures_so_far_def intro!: packed_init)
  next
    fix i and l' :: seq_loop assume i: "i < n" and P: "?P i l'"
    have "(i + 8) div 8 \<le> (n + 7) div 8" using i by (intro div_le_mono) simp
    moreover have "i div 8 < (n + 7) div 8" using i by linarith
    ultimately show "\<exists>l''. seq_bit env req p c v dv i l' = Some l'' \<and> ?P (Suc i) l''"
      using assms(2,3) by (intro seq_bit_captures P) linarith+
  qed
  then obtain l1 bits where run: "for_each (seq_bit env req p c v dv) [0..<n] ?l = Some l1"
    and bits: "length bits = (if c then n else 0)"
      "samples env (bus (sq_jtag l1)) = samples env (bus (sq_jtag l)) @ bits"
      "packed ?base (sq_buf l) bits (sq_tdo_byte l1) (sq_tdo_bit l1) (2 + resp_idx l1) (sq_buf l1)"
    by (auto simp: captures_so_far_def)
  have w: "wires (seq_drives (JtagSeq c v (unpack_lsb n (drop p req)))) (sq_jtag l) (sq_jtag l1)"
    using seq_cycle.cycles_edges [OF run, unfolded seq_cycle.driven_map [OF refl]]
      seq_cycle.cycles_low [OF run] seq_cycle.cycles_srst [OF run] seq_loop_frame [OF run] assms(1)
    by (simp add: wires_def seq_drives_def unpack_lsb_def comp_def)
  have tap: "current_tap_state (sq_jtag l1) = current_tap_state (sq_jtag l)"
    using seq_loop_frame [OF run] by simp
  note fin = packed_finish [OF bits(3)]
  have nc: "sq_tdo_bit l1 = 0" if "\<not> c" using that bits(1,3) by (simp add: packed_def)
  show ?thesis
  proof (cases "sq_tdo_bit l1 = 0")
    case True
    with run bits w tap fin(1,3) show ?thesis
      by (intro exI [of _ l1] exI [of _ bits]) (simp add: seq_flush_def captured_for_def)
  next
    case False
    with nc have "c" by blast
    let ?l2 = "l1\<lparr>sq_buf := overwritten ?base (sq_buf l) (pack_lsb bits), resp_idx := resp_idx l1 + 1\<rparr>"
    have "seq_flush c l1 = Some ?l2"
      using False \<open>c\<close> fin(2) by (simp add: seq_flush_def)
    moreover have "resp_idx l1 + 1 = resp_idx l + length (pack_lsb bits)"
      using False fin(4) by simp
    ultimately show ?thesis
      using run bits w tap \<open>c\<close>
      by (intro exI [of _ l1] exI [of _ ?l2] exI [of _ bits]) (simp add: captured_for_def)
  qed
qed

text \<open>
  The loop over the sequences. \<open>response_room\<close>: what is left of the request is at least what can
  still be stored, since every captured byte stands for a TDI byte of the request.
\<close>

definition response_room :: "nat \<Rightarrow> nat \<Rightarrow> seq_loop \<Rightarrow> bool" where
  "response_room req_len req_pos l \<longleftrightarrow> 2 + resp_idx l + (req_len - req_pos) \<le> length (sq_buf l)"

definition seq_outcome ::
  "target \<Rightarrow> jtag_seq list \<Rightarrow> bool list list \<Rightarrow> seq_loop \<Rightarrow> seq_loop \<Rightarrow> bool" where
  "seq_outcome env qs bss l l' \<longleftrightarrow>
     list_all2 captured_for qs bss \<and>
     samples env (bus (sq_jtag l')) = samples env (bus (sq_jtag l)) @ concat bss \<and>
     sq_buf l' = overwritten (2 + resp_idx l) (sq_buf l) (seq_response bss) \<and>
     resp_idx l' = resp_idx l + length (seq_response bss) \<and>
     wires (concat (map seq_drives qs)) (sq_jtag l) (sq_jtag l') \<and>
     current_tap_state (sq_jtag l') = current_tap_state (sq_jtag l)"

lemma seq_outcome_refl: "\<not> tck_pin (bus (sq_jtag l)) \<Longrightarrow> seq_outcome env [] [] l l"
  by (simp add: seq_outcome_def seq_response_def wires_def)

lemma captured_for_length:
  "captured_for q bits \<Longrightarrow> length (pack_lsb bits) \<le> (length (seq_tdi q) + 7) div 8"
  by (auto simp: captured_for_def length_pack_lsb)

lemma packed_bit_cong:
  "(\<And>k. k < m \<Longrightarrow> xs ! k = ys ! k) \<Longrightarrow> n \<le> 8 * m \<Longrightarrow> unpack_lsb n xs = unpack_lsb n ys"
  by (auto simp: unpack_lsb_def packed_bit_def)

lemma parse_step:
  assumes "pos < req_len" and "req_len \<le> length req"
  shows "parse_seqs (Suc s) (drop pos (take req_len req)) =
    (let nb = seq_nbits (req ! pos); k = (nb + 7) div 8
     in if pos + 1 + k \<le> req_len
        then JtagSeq (bit (req ! pos) 7) (bit (req ! pos) 6) (unpack_lsb nb (drop (pos + 1) req))
               # parse_seqs s (drop (pos + 1 + k) (take req_len req))
        else [])"
proof -
  let ?t = "take req_len req" and ?nb = "seq_nbits (req ! pos)"
  have "drop pos ?t = req ! pos # drop (Suc pos) ?t"
    using assms by (simp add: Cons_nth_drop_Suc [symmetric])
  moreover have "unpack_lsb ?nb (drop (Suc pos) ?t) = unpack_lsb ?nb (drop (Suc pos) req)"
    if "Suc pos + (?nb + 7) div 8 \<le> req_len"
    using that assms by (intro packed_bit_cong [of "(?nb + 7) div 8"]) auto
  ultimately show ?thesis
    using assms by (auto simp: Let_def add.commute)
qed

lemma seq_outcome_step:
  assumes "captured_for q bits"
    and "samples env (bus (sq_jtag l2)) = samples env (bus (sq_jtag l)) @ bits"
    and "sq_buf l2 = overwritten (2 + resp_idx l) (sq_buf l) (pack_lsb bits)"
    and "resp_idx l2 = resp_idx l + length (pack_lsb bits)"
    and "wires (seq_drives q) (sq_jtag l) (sq_jtag l2)"
    and "current_tap_state (sq_jtag l2) = current_tap_state (sq_jtag l)"
    and "2 + resp_idx l + length (pack_lsb bits) \<le> length (sq_buf l)"
    and "seq_outcome env qs bss l2 l'"
  shows "seq_outcome env (q # qs) (bits # bss) l l'"
proof -
  have "sq_buf l' = overwritten (2 + resp_idx l) (sq_buf l) (pack_lsb bits @ seq_response bss)"
    using assms(3,4,8) overwritten_append [OF assms(7), of "seq_response bss"]
    by (simp add: seq_outcome_def add.assoc)
  with assms show ?thesis
    by (auto simp: seq_outcome_def seq_response_def wires_def)
qed

lemma seq_loop_14_outcome:
  assumes "req_len \<le> length req" and "\<not> tck_pin (bus (sq_jtag l))"
    and "response_room req_len pos l"
  shows "\<exists>l' bss. seq_loop_14 env req req_len dv n pos l = Some l' \<and>
    seq_outcome env (parse_seqs n (drop pos (take req_len req))) bss l l'"
  using assms
proof (induction n arbitrary: pos l)
  case 0
  then show ?case using seq_outcome_refl by auto
next
  case (Suc n)
  show ?case
  proof (cases "pos < req_len")
    case False
    with Suc.prems have "drop pos (take req_len req) = []" by simp
    with False Suc.prems seq_outcome_refl show ?thesis by auto
  next
    case True
    let ?nb = "seq_nbits (req ! pos)" and ?c = "bit (req ! pos) 7" and ?v = "bit (req ! pos) 6"
    let ?k = "(?nb + 7) div 8" and ?q = "JtagSeq (bit (req ! pos) 7) (bit (req ! pos) 6)
        (unpack_lsb (seq_nbits (req ! pos)) (drop (pos + 1) req))"
    have rd: "rd req pos = Some (req ! pos)" using True Suc.prems(1) by (simp add: buf_simps)
    show ?thesis
    proof (cases "pos + 1 + ?k \<le> req_len")
      case False
      with True Suc.prems(1) have "parse_seqs (Suc n) (drop pos (take req_len req)) = []"
        by (simp add: parse_step Let_def del: parse_seqs.simps)
      with True False rd Suc.prems seq_outcome_refl show ?thesis
        by (auto simp: Let_def)
    next
      case fits: True
      have "pos + 1 + ?k \<le> length req"
        and "2 + resp_idx l + ?k \<le> length (sq_buf l)"
        using fits Suc.prems(1,3) by (auto simp: response_room_def)
      from seq_one [OF Suc.prems(2) this, of env ?c ?v dv] obtain l1 l2 bits where one:
        "for_each (seq_bit env req (pos + 1) ?c ?v dv) [0..<?nb]
           (l\<lparr>sq_tdo_byte := 0, sq_tdo_bit := 0\<rparr>) = Some l1" "seq_flush ?c l1 = Some l2"
        "captured_for ?q bits" "samples env (bus (sq_jtag l2)) = samples env (bus (sq_jtag l)) @ bits"
        "sq_buf l2 = overwritten (2 + resp_idx l) (sq_buf l) (pack_lsb bits)"
        "resp_idx l2 = resp_idx l + length (pack_lsb bits)"
        "wires (seq_drives ?q) (sq_jtag l) (sq_jtag l2)"
        "current_tap_state (sq_jtag l2) = current_tap_state (sq_jtag l)" by blast
      have short: "length (pack_lsb bits) \<le> ?k"
        using captured_for_length [OF one(3)] by simp
      have room: "response_room req_len (pos + 1 + ?k) l2"
        using Suc.prems(3) short fits
        by (simp add: response_room_def one(5,6) length_overwritten)
      from Suc.IH [OF Suc.prems(1) wires_low [OF one(7)] room] obtain l' bss where
        rest: "seq_loop_14 env req req_len dv n (pos + 1 + ?k) l2 = Some l'"
        "seq_outcome env (parse_seqs n (drop (pos + 1 + ?k) (take req_len req))) bss l2 l'" by blast
      have "2 + resp_idx l + length (pack_lsb bits) \<le> length (sq_buf l)"
        using short Suc.prems(3) fits by (simp add: response_room_def)
      from seq_outcome_step [OF one(3-8) this rest(2)]
      have "seq_outcome env (?q # parse_seqs n (drop (pos + 1 + ?k) (take req_len req)))
          (bits # bss) l l'" .
      moreover have "parse_seqs (Suc n) (drop pos (take req_len req)) =
          ?q # parse_seqs n (drop (pos + 1 + ?k) (take req_len req))"
        using True Suc.prems(1) fits by (simp add: parse_step Let_def del: parse_seqs.simps)
      moreover have "seq_loop_14 env req req_len dv (Suc n) pos l = Some l'"
        using True fits rd one(1,2) rest(1) by (simp add: flag_bit Let_def)
      ultimately show ?thesis by (intro exI [of _ l'] exI [of _ "bits # bss"]) simp
    qed
  qed
qed

subsection \<open>Encoding and parsing a sequence request\<close>

lemma length_seq_tdi_mod: "of_nat (n mod 64) = take_bit 6 (of_nat (n mod 64) :: u8)"
proof -
  have "take_bit 6 (of_nat (n mod 64) :: u8) = of_nat (take_bit 6 (n mod 64))"
    by (rule take_bit_of_nat)
  also have "take_bit 6 (n mod 64) = n mod 64" by (simp add: take_bit_eq_mod)
  finally show ?thesis by (rule sym)
qed

lemma bit_seq_info:
  "bit (seq_info q) n \<longleftrightarrow>
     (if n < 6 then bit (of_nat (length (seq_tdi q) mod 64) :: u8) n
      else if n = 6 then seq_tms q else n = 7 \<and> seq_captures q)"
proof -
  let ?hd = "map (bit (of_nat (length (seq_tdi q) mod 64) :: u8)) [0..<6]"
  have len: "length ?hd = 6" by simp
  consider "n < 6" | "n = 6" | "n = 7" | "7 < n" by linarith
  then show ?thesis
  proof cases
    case 1
    then show ?thesis
      by (simp add: seq_info_def bit_byte_of_bits nth_append len del: upt_Suc upt_conv_Cons)
  qed (simp_all add: seq_info_def bit_byte_of_bits nth_append)
qed

lemma seq_nbits_nat:
  "seq_nbits info = (if unat (info AND 0x3F) = 0 then 64 else unat (info AND 0x3F))"
  by (simp add: seq_nbits_def Let_def unat_eq_zero)

lemma seq_info_low: "seq_info q AND 0x3F = of_nat (length (seq_tdi q) mod 64)"
proof -
  let ?m = "of_nat (length (seq_tdi q) mod 64) :: u8"
  have "seq_info q AND 0x3F = take_bit 6 (seq_info q)"
    by (simp add: take_bit_eq_mask mask_eq_exp_minus_1)
  also have "\<dots> = take_bit 6 ?m"
    by (rule bit_word_eqI) (simp add: bit_take_bit_iff bit_seq_info conj_commute cong: conj_cong)
  also have "\<dots> = ?m" by (rule length_seq_tdi_mod [symmetric])
  finally show ?thesis .
qed

lemma seq_info_nbits:
  assumes "1 \<le> length (seq_tdi q)" and "length (seq_tdi q) \<le> 64"
  shows "seq_nbits (seq_info q) = length (seq_tdi q)"
proof -
  let ?n = "length (seq_tdi q)"
  have lt: "?n mod 64 < 256" by (rule less_trans [of _ 64]) simp_all
  have "unat (seq_info q AND 0x3F) = ?n mod 64"
    unfolding seq_info_low by (simp only: unat_of_nat) (use lt in simp)
  then show ?thesis
    using assms unfolding seq_nbits_nat by (cases "?n = 64") auto
qed

lemma unpack_pack_append:
  "unpack_lsb (length bits) (pack_lsb bits @ rest) = bits"
proof -
  have "unpack_lsb (length bits) (pack_lsb bits @ rest) = unpack_lsb (length bits) (pack_lsb bits)"
    by (rule packed_bit_cong [of "length (pack_lsb bits)"])
      (auto simp: nth_append length_pack_lsb)
  then show ?thesis by (simp add: unpack_pack_lsb)
qed

lemma parse_encode:
  "\<forall>q \<in> set qs. 1 \<le> length (seq_tdi q) \<and> length (seq_tdi q) \<le> 64 \<Longrightarrow>
     parse_seqs (length qs) (encode_seqs qs @ rest) = qs"
proof (induction qs)
  case Nil
  then show ?case by (simp add: encode_seqs_def)
next
  case (Cons q qs)
  then have "seq_nbits (seq_info q) = length (seq_tdi q)" by (simp add: seq_info_nbits)
  moreover have "length (pack_lsb (seq_tdi q)) = (length (seq_tdi q) + 7) div 8"
    by (rule length_pack_lsb)
  ultimately show ?case
    using Cons by (simp add: encode_seqs_def Let_def bit_seq_info unpack_pack_append)
qed

lemma seq_response_length:
  "list_all2 captured_for (parse_seqs n bs) bss \<Longrightarrow> length (seq_response bss) \<le> length bs"
proof (induction n bs arbitrary: bss rule: parse_seqs.induct)
  case (3 n info bs)
  let ?k = "(seq_nbits info + 7) div 8"
  show ?case
  proof (cases "?k \<le> length bs")
    case True
    with 3(2) obtain b bs' where bss: "bss = b # bs'"
      "captured_for (JtagSeq (bit info 7) (bit info 6) (unpack_lsb (seq_nbits info) bs)) b"
      "list_all2 captured_for (parse_seqs n (drop ?k bs)) bs'"
      by (auto simp: Let_def list_all2_Cons1)
    have "length (seq_response bs') \<le> length (drop ?k bs)"
      using 3(1) [OF refl refl True bss(3)] .
    moreover have "length (pack_lsb b) \<le> ?k"
      using captured_for_length [OF bss(2)] by simp
    ultimately show ?thesis using True by (simp add: bss(1) seq_response_def)
  next
    case False
    with 3(2) show ?thesis by (simp add: Let_def seq_response_def)
  qed
qed (simp_all add: seq_response_def)

end
