(* ===== verification/DapCommands.thy ===== *)
theory DapCommands imports Dap begin

text \<open>
  The DAP command handlers against their contracts: the state invariant every handler keeps, the
  bound on its answer, the answer itself on each branch and what the handler puts on the wires, and
  the dispatcher that copies the answer into the USB report.
\<close>

subsection \<open>The state invariant\<close>

definition dap_inv :: "dap \<Rightarrow> bool" where
  "dap_inv d \<longleftrightarrow> length (resp_buffer d) = DAP_MAX_RESP_SIZE \<and> \<not> tck_pin (bus (dev d)) \<and>
     2 \<le> unat (jtag_clk_div (dev d)) \<and> unat (jtag_clk_div (dev d)) \<le> 10000"

lemma dap_inv_initial: "dap_inv dap_initial"
  by (simp add: dap_inv_def dap_initial_def jtag_initial_def level_def)

lemma dap_inv_init: "dap_inv d \<Longrightarrow> dap_inv (dap_init d)"
  by (simp add: dap_inv_def dap_init_def)

lemma dap_inv_buffer: "dap_inv d \<Longrightarrow> length (resp_buffer d) = 512"
  by (simp add: dap_inv_def)

lemma dap_inv_wires:
  "dap_inv d \<Longrightarrow> wires es (dev d) j \<Longrightarrow> length buf = 512 \<Longrightarrow>
     dap_inv (d\<lparr>resp_buffer := buf, dev := j\<rparr>)"
  by (simp add: dap_inv_def wires_def)

lemma dap_inv_state [simp]: "dap_inv (d\<lparr>dap_state := st\<rparr>) = dap_inv d"
  by (simp add: dap_inv_def)

lemma dap_write_response_plain:
  "length (resp_buffer d) = 512 \<Longrightarrow>
     dap_write_response cmd status None n d =
       Some (2, d\<lparr>resp_buffer := (resp_buffer d)[0 := cmd, 1 := 0]\<rparr>)"
  by (simp add: dap_write_response_def buf_simps)

lemma dap_inv_header [simp]:
  "dap_inv (d\<lparr>resp_buffer := (resp_buffer d)[i := a, k := b]\<rparr>) = dap_inv d"
  by (simp add: dap_inv_def)

lemma dap_write_response_inv:
  "dap_inv d \<Longrightarrow> \<exists>d'. dap_write_response cmd status None n d = Some (2, d') \<and> dap_inv d'"
  by (simp add: dap_write_response_plain dap_inv_buffer)

subsection \<open>The handlers keep the invariant and answer in bounds\<close>

text \<open>
  The contract of a command handler for a request in a 64-byte report: it returns, keeps the state
  invariant and answers with 2 to \<open>limit\<close> bytes. The second locale is the contract of the handlers
  whose answer fits the 64-byte report that the USB layer gives \<open>dap_process_command\<close>.
\<close>

locale dap_command =
  fixes h :: dap_handler and limit :: nat
  assumes answers: "dap_inv d \<Longrightarrow> length req = 64 \<Longrightarrow> 0 < n \<Longrightarrow> unat n \<le> 64 \<Longrightarrow>
      \<exists>len d'. h env req n d = Some (len, d') \<and> dap_inv d' \<and> 2 \<le> unat len \<and> unat len \<le> limit"
    and limit_max: "limit \<le> DAP_MAX_RESP_SIZE"
begin

lemma delivered_or_overrun:
  assumes "dap_inv d" and "length req = 64" and "0 < n" and "unat n \<le> 64" and "length out = 64"
    and "map_of dap_cmd_table (req ! 0) = Some h"
  shows "\<exists>len d'. h env req n d = Some (len, d') \<and> dap_inv d' \<and> 2 \<le> unat len \<and>
    dap_process_command env (Some req) n (Some out) d =
      (if unat len \<le> 64
       then Some (len, Some (overwritten 0 out (take (unat len) (resp_buffer d'))), d') else None)"
proof -
  obtain len d' where h: "h env req n d = Some (len, d')" "dap_inv d'" "2 \<le> unat len"
    "unat len \<le> limit" using answers [OF assms(1-4)] by blast
  have max: "unat len \<le> 512" using h(4) limit_max by simp
  have pos: "0 < len" using h(3) by (simp add: word_less_nat_alt)
  have rest: "dap_process_command env (Some req) n (Some out) d =
      do { out \<leftarrow> memcpy_at out 0 (take (unat len) (resp_buffer d')); Some (len, Some out, d') }"
    using assms h pos max by (simp add: dap_process_command_def rd_def word_gt_0)
  have "memcpy_at out 0 (take (unat len) (resp_buffer d')) =
      (if unat len \<le> 64 then Some (overwritten 0 out (take (unat len) (resp_buffer d'))) else None)"
    using h(2) max assms(5) by (auto simp: memcpy_at_def overwritten_def dap_inv_buffer)
  with rest h show ?thesis by (intro exI [of _ len] exI [of _ d']) simp
qed

end

locale dap_report_command = dap_command h 64 for h :: dap_handler
begin

lemma delivered:
  assumes "dap_inv d" and "length req = 64" and "0 < n" and "unat n \<le> 64" and "length out = 64"
    and "map_of dap_cmd_table (req ! 0) = Some h"
  shows "\<exists>len out' d'. dap_process_command env (Some req) n (Some out) d = Some (len, Some out', d') \<and>
    length out' = 64 \<and> dap_inv d' \<and> 2 \<le> unat len \<and> unat len \<le> 64"
proof -
  obtain len d' where h: "h env req n d = Some (len, d')" "dap_inv d'"
      "2 \<le> unat len" "unat len \<le> 64" using answers [OF assms(1-4)] by blast
  with delivered_or_overrun [OF assms, of env]
  have "dap_process_command env (Some req) n (Some out) d =
      Some (len, Some (overwritten 0 out (take (unat len) (resp_buffer d'))), d')" by auto
  with h assms(5) show ?thesis
    by (simp add: length_overwritten dap_inv_buffer)
qed

end

lemma unat_ge: "unat k \<le> unat n \<longleftrightarrow> \<not> n < k" for n :: u32
  by (simp add: word_less_nat_alt not_less)

lemmas handler_simps = dap_write_response_plain dap_inv_buffer buf_simps Let_def

interpretation info_cmd: dap_report_command dap_handle_info
proof unfold_locales
  fix d req n env assume "dap_inv d" "length (req :: u8 list) = 64" "0 < (n :: u32)" "unat n \<le> 64"
  then show "\<exists>len d'. dap_handle_info env req n d = Some (len, d') \<and> dap_inv d' \<and>
      2 \<le> unat len \<and> unat len \<le> 64"
    by (auto simp: dap_handle_info_def handler_simps dap_info_str_def c_string_def dap_inv_def)
qed simp

interpretation hoststatus_cmd: dap_report_command dap_handle_hoststatus
  by unfold_locales (auto simp: dap_handle_hoststatus_def handler_simps)

interpretation disconnect_cmd: dap_report_command dap_handle_disconnect
  by unfold_locales (auto simp: dap_handle_disconnect_def handler_simps dap_inv_def)

interpretation write_abort_cmd: dap_report_command dap_handle_write_abort
  by unfold_locales (auto simp: dap_handle_write_abort_def handler_simps)

lemma dap_inv_set_clock: "dap_inv d \<Longrightarrow> dap_inv (d\<lparr>dev := jtag_set_clock k (dev d)\<rparr>)"
  by (simp add: dap_inv_def jtag_set_clock_nat)

lemma dap_inv_emit:
  "dap_inv d \<Longrightarrow> \<not> tck_pin (e # bus (dev d)) \<Longrightarrow> dap_inv (d\<lparr>dev := emit e (dev d)\<rparr>)"
  by (simp add: dap_inv_def trace_simps)

lemma dap_handle_connect_result:
  assumes "length (resp_buffer d) = 512" and "2 \<le> unat n" and "2 \<le> length req"
  shows "dap_handle_connect env req n d =
    Some (2, d\<lparr>dap_state := (dap_state d)\<lparr>connected := 1, port := DAP_PORT_JTAG, clock_khz := 1000\<rparr>,
      resp_buffer := (resp_buffer d)[0 := 2, 1 := 2],
      dev := jtag_set_clock 1000 (jtag_tap_reset (jtag_gpio_init (dev d)))\<rparr>)"
  using assms by (simp add: dap_handle_connect_def buf_simps Let_def word_less_nat_alt)

lemma connect_dev_inv:
  assumes "length buf = 512"
  shows "dap_inv (d\<lparr>dap_state := st, resp_buffer := buf,
      dev := jtag_set_clock 1000 (jtag_tap_reset (jtag_gpio_init (dev d)))\<rparr>)"
  using assms jtag_tap_reset_wires [OF jtag_gpio_init_pins(1), of "dev d"]
  by (simp add: dap_inv_def jtag_set_clock_nat wires_def)

lemma nat_arith_small: "Suc 0 + 1 = 2" "Suc 0 + 2 = 3" "Suc 0 + 3 = 4" "Suc (Suc 0) = 2"
  by simp_all

lemma rd_le32_Some:
  "i + 4 \<le> length req \<Longrightarrow>
     rd_le32 req i = Some (le32 (req ! i) (req ! (i + 1)) (req ! (i + 2)) (req ! (i + 3)))"
  by (simp add: rd_le32_def buf_simps)

lemma dap_handle_swj_clk_result:
  assumes "length (resp_buffer d) = 512" and "5 \<le> unat n" and "5 \<le> length req"
  shows "dap_handle_swj_clk env req n d =
    (let khz = le32 (req ! 1) (req ! 2) (req ! 3) (req ! 4) div 1000
     in Some (2, d\<lparr>dap_state := (dap_state d)\<lparr>clock_khz := khz\<rparr>,
          resp_buffer := (resp_buffer d)[0 := DAP_CMD_SWJ_CLK, 1 := 0],
          dev := jtag_set_clock khz (dev d)\<rparr>))"
  using assms rd_le32_Some [of 1 req]
  by (simp add: dap_handle_swj_clk_def dap_write_response_plain Let_def word_le_nat_alt
      nat_arith_small)

interpretation connect_cmd: dap_report_command dap_handle_connect
proof unfold_locales
  fix d req n env assume "dap_inv d" "length (req :: u8 list) = 64" "0 < (n :: u32)" "unat n \<le> 64"
  then show "\<exists>len d'. dap_handle_connect env req n d = Some (len, d') \<and> dap_inv d' \<and>
      2 \<le> unat len \<and> unat len \<le> 64"
    by (cases "n < 2")
      (auto simp: dap_handle_connect_def handler_simps dap_handle_connect_result not_less
        word_le_nat_alt connect_dev_inv)
qed simp

interpretation swj_clk_cmd: dap_report_command dap_handle_swj_clk
proof unfold_locales
  fix d req n env assume "dap_inv d" "length (req :: u8 list) = 64" "0 < (n :: u32)" "unat n \<le> 64"
  then show "\<exists>len d'. dap_handle_swj_clk env req n d = Some (len, d') \<and> dap_inv d' \<and>
      2 \<le> unat len \<and> unat len \<le> 64"
    by (cases "5 \<le> n")
      (auto simp: dap_handle_swj_clk_def handler_simps rd_le32_Some [of "Suc 0" req] word_le_nat_alt
        dap_inv_def jtag_set_clock_nat)
qed simp

interpretation delay_cmd: dap_report_command dap_handle_delay
  by unfold_locales
    (auto simp: dap_handle_delay_def handler_simps dap_inv_def trace_simps)

interpretation reset_target_cmd: dap_report_command dap_handle_reset_target
  by unfold_locales
    (auto simp: dap_handle_reset_target_def handler_simps dap_inv_def trace_simps jtag_srst_pins)

interpretation transfer_configure_cmd: dap_report_command dap_handle_transfer_configure
  by unfold_locales
    (auto simp: dap_handle_transfer_configure_def handler_simps dap_inv_def)

text \<open>The two sequence handlers: what they answer and what they put on the wires.\<close>

lemma dap_handle_swj_sequence_result:
  assumes "length (resp_buffer d) = 512" and "\<not> tck_pin (bus (dev d))" and "unat n \<le> length req"
    and "2 + (unat (req ! 1) + 7) div 8 \<le> unat n"
  shows "\<exists>j. dap_handle_swj_sequence env req n d =
      Some (2, d\<lparr>dev := j, resp_buffer := (resp_buffer d)[0 := DAP_CMD_SWJ_SEQUENCE, 1 := DAP_OK]\<rparr>) \<and>
    wires (map (\<lambda>b. (b, tdi_pin (bus (dev d)))) (unpack_lsb (unat (req ! 1)) (drop 2 req))) (dev d) j \<and>
    samples env' (bus j) = samples env' (bus (dev d))"
proof -
  let ?dv = "jtag_get_clk_divider (dev d)" and ?m = "unat (req ! 1)"
  have "2 + (?m + 7) div 8 \<le> length req" using assms(3,4) by simp
  from swj_loop_wires [OF this assms(2), of ?dv env'] obtain j where
    "for_each (swj_bit req ?dv) [0..<?m] (dev d) = Some j"
    "wires (map (\<lambda>b. (b, tdi_pin (bus (dev d)))) (unpack_lsb ?m (drop 2 req))) (dev d) j"
    "samples env' (bus j) = samples env' (bus (dev d))" by blast
  with assms show ?thesis
    by (intro exI [of _ j]) (simp add: dap_handle_swj_sequence_def handler_simps word_less_nat_alt)
qed

lemma dap_handle_swj_sequence_short:
  assumes "length (resp_buffer d) = 512" and "2 \<le> length req"
    and "unat n < 2 \<or> unat n < 2 + (unat (req ! 1) + 7) div 8"
  shows "dap_handle_swj_sequence env req n d =
    Some (2, d\<lparr>resp_buffer := (resp_buffer d)[0 := DAP_CMD_SWJ_SEQUENCE, 1 := DAP_OK]\<rparr>)"
  using assms by (auto simp: dap_handle_swj_sequence_def handler_simps word_less_nat_alt)

interpretation swj_sequence_cmd: dap_report_command dap_handle_swj_sequence
proof unfold_locales
  fix d req n env assume inv: "dap_inv d" and len: "length (req :: u8 list) = 64"
    and "0 < (n :: u32)" and n: "unat n \<le> 64"
  show "\<exists>len d'. dap_handle_swj_sequence env req n d = Some (len, d') \<and> dap_inv d' \<and>
      2 \<le> unat len \<and> unat len \<le> 64"
  proof (cases "2 + (unat (req ! 1) + 7) div 8 \<le> unat n")
    case True
    with dap_handle_swj_sequence_result [of d n req env] inv len n show ?thesis
      by (force simp: dap_inv_def wires_def)
  next
    case False
    with dap_handle_swj_sequence_short [of d req n env] inv len show ?thesis
      by (simp add: dap_inv_buffer)
  qed
qed simp

definition request_seqs :: "u8 list \<Rightarrow> nat \<Rightarrow> jtag_seq list" where
  "request_seqs req req_len = parse_seqs (unat (req ! 1)) (drop 2 (take req_len req))"

lemma header_overwritten:
  assumes "2 \<le> length buf"
  shows "(overwritten 2 buf bs)[0 := a, 1 := b] = overwritten 0 buf ([a, b] @ bs)"
proof -
  obtain x y r where "buf = x # y # r"
    using assms by (cases buf; cases "tl buf") auto
  then show ?thesis by (simp add: overwritten_def numeral_2_eq_2)
qed

lemma dap_handle_jtag_sequence_14_result:
  assumes "length (resp_buffer d) = 512" and "\<not> tck_pin (bus (dev d))" and "unat n \<le> length req"
    and "2 \<le> unat n" and "unat n \<le> 512"
  shows "\<exists>j bss. dap_handle_jtag_sequence_14 env req n d =
      Some (of_nat (length (seq_response bss)) + 2,
        d\<lparr>resp_buffer := overwritten 0 (resp_buffer d) ([DAP_CMD_JTAG_SEQUENCE, DAP_OK] @ seq_response bss),
          dev := j\<rparr>) \<and>
    list_all2 captured_for (request_seqs req (unat n)) bss \<and>
    2 + length (seq_response bss) \<le> unat n \<and>
    samples env (bus j) = samples env (bus (dev d)) @ concat bss \<and>
    wires (concat (map seq_drives (request_seqs req (unat n)))) (dev d) j"
proof -
  let ?l = "\<lparr>sq_jtag = dev d, sq_tdo_byte = 0, sq_tdo_bit = 0, resp_idx = 0, sq_buf = resp_buffer d\<rparr>"
  let ?dv = "jtag_get_clk_divider (dev d)"
  have "response_room (unat n) 2 ?l" using assms by (simp add: response_room_def)
  with seq_loop_14_outcome [of "unat n" req ?l 2 env ?dv "unat (req ! 1)"] assms obtain l bss where
    run: "seq_loop_14 env req (unat n) ?dv (unat (req ! 1)) 2 ?l = Some l"
    and out: "seq_outcome env (request_seqs req (unat n)) bss ?l l"
    by (auto simp: request_seqs_def)
  have "length (seq_response bss) \<le> length (drop 2 (take (unat n) req))"
    using out by (intro seq_response_length [of "unat (req ! 1)"])
      (simp add: seq_outcome_def request_seqs_def)
  then have len: "2 + length (seq_response bss) \<le> unat n" using assms by simp
  have buf: "sq_buf l = overwritten 2 (resp_buffer d) (seq_response bss)"
    and idx: "resp_idx l = length (seq_response bss)"
    using out by (simp_all add: seq_outcome_def)
  have hd: "(sq_buf l)[0 := DAP_CMD_JTAG_SEQUENCE, 1 := DAP_OK] =
      overwritten 0 (resp_buffer d) ([DAP_CMD_JTAG_SEQUENCE, DAP_OK] @ seq_response bss)"
    unfolding buf using assms(1) by (intro header_overwritten) simp
  have len512: "length (sq_buf l) = 512"
    using len assms by (simp add: buf length_overwritten)
  have "dap_handle_jtag_sequence_14 env req n d = Some (of_nat (resp_idx l) + 2,
      d\<lparr>resp_buffer := (sq_buf l)[0 := DAP_CMD_JTAG_SEQUENCE, 1 := DAP_OK], dev := sq_jtag l\<rparr>)"
    using run len512 assms(3,4)
    by (simp add: dap_handle_jtag_sequence_14_def buf_simps Let_def word_less_nat_alt)
  then show ?thesis
    using out len idx
    by (intro exI [of _ "sq_jtag l"] exI [of _ bss]) (simp only: hd, simp add: seq_outcome_def)
qed

lemma dap_handle_jtag_sequence_14_short:
  assumes "length (resp_buffer d) = 512" and "unat n < 2"
  shows "dap_handle_jtag_sequence_14 env req n d =
    Some (2, d\<lparr>resp_buffer := (resp_buffer d)[0 := DAP_CMD_JTAG_SEQUENCE, 1 := DAP_OK]\<rparr>)"
  using assms by (simp add: dap_handle_jtag_sequence_14_def handler_simps word_less_nat_alt)

interpretation jtag_sequence_cmd: dap_report_command dap_handle_jtag_sequence_14
proof unfold_locales
  fix d req n env assume inv: "dap_inv d" and len: "length (req :: u8 list) = 64"
    and "0 < (n :: u32)" and n: "unat n \<le> 64"
  show "\<exists>len d'. dap_handle_jtag_sequence_14 env req n d = Some (len, d') \<and> dap_inv d' \<and>
      2 \<le> unat len \<and> unat len \<le> 64"
  proof (cases "2 \<le> unat n")
    case True
    then obtain j bss where out: "dap_handle_jtag_sequence_14 env req n d =
        Some (of_nat (length (seq_response bss)) + 2, d\<lparr>resp_buffer := overwritten 0 (resp_buffer d)
          ([DAP_CMD_JTAG_SEQUENCE, DAP_OK] @ seq_response bss), dev := j\<rparr>)"
      and le: "2 + length (seq_response bss) \<le> unat n"
      and w: "wires (concat (map seq_drives (request_seqs req (unat n)))) (dev d) j"
      using dap_handle_jtag_sequence_14_result [of d n req env] inv len n by (auto simp: dap_inv_def)
    have "unat (of_nat (length (seq_response bss)) + 2 :: u32) = 2 + length (seq_response bss)"
      using le n by (subst unat_add_lem [THEN iffD1]) (simp_all add: unat_of_nat)
    moreover have "length (overwritten 0 (resp_buffer d)
        ([DAP_CMD_JTAG_SEQUENCE, DAP_OK] @ seq_response bss)) = 512"
      using le n inv by (subst length_overwritten) (simp_all add: dap_inv_buffer)
    ultimately show ?thesis
      using out dap_inv_wires [OF inv w] le n by auto
  next
    case False
    with dap_handle_jtag_sequence_14_short [of d n env req] inv show ?thesis
      by (simp add: dap_inv_buffer)
  qed
qed simp

subsection \<open>The dispatcher\<close>

text \<open>The handlers whose every answer to a 64-byte report fits a 64-byte report.\<close>

definition report_handlers :: "u8 list" where
  "report_handlers =
    [DAP_CMD_INFO, DAP_CMD_HOSTSTATUS, DAP_CMD_CONNECT, DAP_CMD_DISCONNECT, DAP_CMD_WRITE_ABORT,
     DAP_CMD_DELAY, DAP_CMD_RESET_TARGET, DAP_CMD_SWJ_CLK, DAP_CMD_SWJ_SEQUENCE,
     DAP_CMD_JTAG_SEQUENCE, DAP_CMD_TRANSFER_CONFIGURE]"

lemmas handlers_delivered =
  info_cmd.delivered hoststatus_cmd.delivered connect_cmd.delivered disconnect_cmd.delivered
  write_abort_cmd.delivered delay_cmd.delivered reset_target_cmd.delivered swj_clk_cmd.delivered
  swj_sequence_cmd.delivered jtag_sequence_cmd.delivered transfer_configure_cmd.delivered

lemma unknown_command_result:
  assumes "length (resp_buffer d) = 512" and "n \<noteq> 0" and "map_of dap_cmd_table (req ! 0) = None"
    and "length out = 64" and "req \<noteq> []"
  shows "dap_process_command env (Some req) n (Some out) d =
    (let buf = (resp_buffer d)[0 := req ! 0, 1 := DAP_OK]
     in Some (2, Some (overwritten 0 out (take 2 buf)), d\<lparr>resp_buffer := buf\<rparr>))"
  using assms
  by (simp add: dap_process_command_def handler_simps overwritten_def)

lemma dispatch_report_command:
  assumes "dap_inv d" and "length req = 64" and "0 < n" and "unat n \<le> 64" and "length out = 64"
    and "req ! 0 \<in> set report_handlers \<or> map_of dap_cmd_table (req ! 0) = None"
  shows "\<exists>len out' d'. dap_process_command env (Some req) n (Some out) d = Some (len, Some out', d') \<and>
    length out' = 64 \<and> dap_inv d' \<and> 2 \<le> unat len \<and> unat len \<le> 64"
proof (cases "map_of dap_cmd_table (req ! 0) = None")
  case True
  have "req \<noteq> []" using assms(2) by auto
  with True unknown_command_result [of d n req out env] assms show ?thesis
    by (simp add: Let_def dap_inv_buffer length_overwritten word_gt_0)
next
  case False
  with assms(6) have "req ! 0 \<in> set report_handlers" by blast
  then show ?thesis
    using handlers_delivered [OF assms(1-5), of env]
    by (auto simp: report_handlers_def dap_cmd_table_def)
qed

subsection \<open>Properties of the command handlers\<close>

lemma request_seqs_encoded:
  assumes "req = [c, of_nat (length qs)] @ encode_seqs qs @ rest" and "length qs < 256"
    and "\<forall>q \<in> set qs. 1 \<le> length (seq_tdi q) \<and> length (seq_tdi q) \<le> 64"
    and "2 + length (encode_seqs qs) \<le> n" and "n \<le> length req"
  shows "request_seqs req n = qs"
proof -
  have "unat (of_nat (length qs) :: u8) = length qs"
    using assms(2) by (simp add: unat_of_nat)
  moreover have "drop 2 (take n req) = encode_seqs qs @ take (n - 2 - length (encode_seqs qs)) rest"
    using assms(1,4) by (simp add: drop_take)
  ultimately show ?thesis
    using assms(1) parse_encode [OF assms(3)] by (simp add: request_seqs_def)
qed

text \<open>
  C4: DAP_JTAG_SEQUENCE executes the request it is sent. For a request that encodes the sequences
  \<open>qs\<close> in the format of the handler's comment, the handler clocks exactly the TDI bits of each
  sequence at its TMS level, one rising edge per bit, and answers 0x14, 0x00 and then, for each
  sequence with the capture flag, its TDO samples packed least significant bit first, in order.
  The answer is never longer than the request.
\<close>

theorem jtag_sequence_executes:
  assumes "dap_inv d" and "req = [0x14, of_nat (length qs)] @ encode_seqs qs @ rest"
    and "length qs < 256" and "\<forall>q \<in> set qs. 1 \<le> length (seq_tdi q) \<and> length (seq_tdi q) \<le> 64"
    and "2 + length (encode_seqs qs) \<le> unat n" and "unat n \<le> length req" and "unat n \<le> 512"
  shows "\<exists>j bss. dap_handle_jtag_sequence_14 env req n d =
      Some (of_nat (length (seq_response bss)) + 2, d\<lparr>
        resp_buffer := overwritten 0 (resp_buffer d) ([0x14, 0x00] @ seq_response bss), dev := j\<rparr>) \<and>
    list_all2 captured_for qs bss \<and> 2 + length (seq_response bss) \<le> unat n \<and>
    samples env (bus j) = samples env (bus (dev d)) @ concat bss \<and>
    wires (concat (map seq_drives qs)) (dev d) j"
  using dap_handle_jtag_sequence_14_result [of d n req env] request_seqs_encoded [OF assms(2-6)] assms
  by (simp add: dap_inv_def)

theorem jtag_sequence_executes_witness:
  "\<exists>j bss. dap_handle_jtag_sequence_14 (\<lambda>_. 0) ([0x14, 2] @ encode_seqs
       [JtagSeq False True (replicate 5 True), JtagSeq True False (replicate 9 True)] @ [0]) 7 dap_initial =
      Some (of_nat (length (seq_response bss)) + 2, dap_initial\<lparr>
        resp_buffer := overwritten 0 (resp_buffer dap_initial) ([0x14, 0x00] @ seq_response bss), dev := j\<rparr>) \<and>
    wires (replicate 5 (True, True) @ replicate 9 (False, True)) (dev dap_initial) j"
proof -
  let ?qs = "[JtagSeq False True (replicate 5 True), JtagSeq True False (replicate 9 True)]"
  have "length (encode_seqs ?qs) = 5" by (simp add: encode_seqs_def length_pack_lsb)
  then show ?thesis
    using jtag_sequence_executes [OF dap_inv_initial, of "[0x14, 2] @ encode_seqs ?qs @ [0]" ?qs "[0]" 7 "\<lambda>_. 0"]
    by (auto simp: seq_drives_def)
qed

text \<open>
  C9: DAP_SWJ_SEQUENCE clocks \<open>req[1]\<close> cycles whose TMS levels are the bits of the request, least
  significant bit of each byte first, with TDI held, reads nothing, and answers 0x12, 0x00; when the
  request is too short for its bit count it answers the same and touches no pin.
\<close>

theorem swj_sequence_clocks_tms:
  assumes "dap_inv d" and "2 \<le> length req" and "unat n \<le> length req"
  shows "\<exists>j. dap_handle_swj_sequence env req n d =
      Some (2, d\<lparr>dev := j, resp_buffer := (resp_buffer d)[0 := 0x12, 1 := 0x00]\<rparr>) \<and>
    samples env (bus j) = samples env (bus (dev d)) \<and>
    (if 2 + (unat (req ! 1) + 7) div 8 \<le> unat n
     then wires (map (\<lambda>b. (b, tdi_pin (bus (dev d)))) (unpack_lsb (unat (req ! 1)) (drop 2 req))) (dev d) j
     else j = dev d)"
proof (cases "2 + (unat (req ! 1) + 7) div 8 \<le> unat n")
  case True
  with dap_handle_swj_sequence_result [of d n req env] assms show ?thesis
    by (auto simp: dap_inv_def)
next
  case False
  with dap_handle_swj_sequence_short [of d req n env] assms show ?thesis
    by (intro exI [of _ "dev d"]) (simp add: dap_inv_def)
qed

theorem swj_sequence_clocks_tms_witness:
  "\<exists>j. dap_handle_swj_sequence (\<lambda>_. 0) [0x12, 10, 0xFF, 0x01] 4 dap_initial =
      Some (2, dap_initial\<lparr>dev := j, resp_buffer := (resp_buffer dap_initial)[0 := 0x12, 1 := 0x00]\<rparr>) \<and>
    wires (map (\<lambda>b. (b, False)) (unpack_lsb 10 [0xFF, 0x01])) (dev dap_initial) j"
  using swj_sequence_clocks_tms [OF dap_inv_initial, of "[0x12, 10, 0xFF, 0x01]" 4 "\<lambda>_. 0"]
  by (auto simp: dap_initial_def jtag_initial_def level_def)

lemma report_command_runs:
  assumes "dap_inv d" and "length req = 64" and "0 < n" and "unat n \<le> 64" and "length out = 64"
    and "req ! 0 \<noteq> 0x31" and "req ! 0 \<noteq> 0x32"
  shows "\<exists>len out' d'. dap_process_command env (Some req) n (Some out) d = Some (len, Some out', d') \<and>
    length out' = 64 \<and> dap_inv d' \<and> 2 \<le> unat len \<and> unat len \<le> 64"
proof -
  have "req ! 0 \<in> set report_handlers \<or> map_of dap_cmd_table (req ! 0) = None"
    using assms(6,7) by (auto simp: report_handlers_def dap_cmd_table_def)
  from dispatch_report_command [OF assms(1-5) this] show ?thesis by blast
qed

text \<open>
  C10: for every command except the two transfer commands, known or not, \<open>dap_process_command\<close> on a
  64-byte report always returns (no access outside an array, whatever the other bytes and the length
  are), keeps the state invariant, leaves the report buffer a 64-byte buffer and answers with 2 to 64 bytes.
\<close>

theorem report_commands_safe:
  assumes "dap_inv d" and "length req = 64" and "0 < n" and "unat n \<le> 64" and "length out = 64"
    and "req ! 0 \<noteq> 0x31" and "req ! 0 \<noteq> 0x32"
  shows "\<exists>len out' d'. dap_process_command env (Some req) n (Some out) d = Some (len, Some out', d') \<and>
    length out' = 64 \<and> dap_inv d' \<and> 2 \<le> unat len \<and> unat len \<le> 64"
  by (rule report_command_runs [OF assms])

theorem report_commands_safe_witness:
  "\<exists>len out' d'. dap_process_command (\<lambda>_. 0) (Some (0x12 # replicate 63 0xFF)) 64
       (Some (replicate 64 0)) dap_initial = Some (len, Some out', d') \<and> dap_inv d'"
  using report_commands_safe [OF dap_inv_initial, of "0x12 # replicate 63 0xFF" 64 "replicate 64 0" "\<lambda>_. 0"]
  by auto

text \<open>
  DAP_CONNECT selects JTAG at 1 MHz whatever port the request names: the answer is 0x02, 0x02,
  the reset line is released, and a TAP in any state is clocked to Run-Test/Idle, which is the state
  the driver records.
\<close>

theorem connect_resets_tap:
  assumes "tap_controller nxt" and "dap_inv d" and "2 \<le> unat n" and "2 \<le> length req"
  shows "\<exists>d' es. dap_handle_connect env req n d = Some (2, d') \<and>
    take 2 (resp_buffer d') = [0x02, 0x02] \<and>
    connected (dap_state d') = 1 \<and> port (dap_state d') = DAP_PORT_JTAG \<and> clock_khz (dap_state d') = 1000 \<and>
    jtag_clk_div (dev d') = 10 \<and> current_tap_state (dev d') = TAP_IDLE \<and> srst_pin (bus (dev d')) \<and>
    edges (bus (dev d')) = edges (bus (dev d)) @ es \<and> tap_run nxt s es = TAP_IDLE \<and> dap_inv d'"
proof -
  let ?j = "jtag_gpio_init (dev d)" and ?d = "tdi_pin (bus (jtag_gpio_init (dev d)))"
  have len: "length (resp_buffer d) = 512" using assms(2) by (simp add: dap_inv_def)
  obtain x y r where buf: "resp_buffer d = x # y # r"
    using len by (cases "resp_buffer d"; cases "tl (resp_buffer d)") auto
  note res = dap_handle_connect_result [OF len assms(3,4), of env]
  have w: "wires (map (\<lambda>b. (b, ?d)) reset_tms) ?j (jtag_tap_reset ?j)"
    by (rule jtag_tap_reset_wires [OF jtag_gpio_init_pins(1)])
  have run: "tap_run nxt s (map (\<lambda>b. (b, ?d)) reset_tms) = TAP_IDLE"
    using tap_controller.reset_then_idle [OF assms(1), of s ?d] by (simp add: reset_tms_def)
  have dv: "jtag_clk_div (jtag_set_clock 1000 (jtag_tap_reset ?j)) = 10"
    by (simp add: jtag_set_clock_def Let_def)
  show ?thesis
    by (rule exI, rule exI [of _ "map (\<lambda>b. (b, ?d)) reset_tms"], rule conjI, rule res)
      (use len run dv w connect_dev_inv [of "(resp_buffer d)[0 := 2, 1 := 2]" d] in
        \<open>simp add: buf wires_def jtag_gpio_init_pins\<close>)
qed

theorem connect_resets_tap_witness:
  "\<exists>d' es. dap_handle_connect (\<lambda>_. 0) [0x02, 0x01] 2 dap_initial = Some (2, d') \<and>
    edges (bus (dev d')) = edges (bus (dev dap_initial)) @ es \<and>
    tap_run tap_next TAP_DR_EXIT2 es = TAP_IDLE \<and> dap_inv d'"
proof -
  have "2 \<le> unat (2 :: u32)" "2 \<le> length [0x02, 0x01 :: u8]" by simp_all
  from connect_resets_tap [OF tap.tap_controller_axioms dap_inv_initial this, of "\<lambda>_. 0" TAP_DR_EXIT2]
  show ?thesis by blast
qed

text \<open>
  DAP_SWJ_CLOCK takes the little-endian frequency in Hz, stores the kHz (rounded down) and sets
  the divider for them; the answer is 0x11, 0x00 and no pin moves.
\<close>

theorem swj_clock_sets_divider:
  assumes "length (resp_buffer d) = 512" and "5 \<le> unat n"
    and "req = [0x11, byte_of 0 hz, byte_of 1 hz, byte_of 2 hz, byte_of 3 hz] @ rest"
  shows "\<exists>d'. dap_handle_swj_clk env req n d = Some (2, d') \<and> take 2 (resp_buffer d') = [0x11, 0x00] \<and>
    clock_khz (dap_state d') = hz div 1000 \<and> bus (dev d') = bus (dev d) \<and>
    unat (jtag_clk_div (dev d')) = max 2 (10000 div min 10000 (max 1 (unat hz div 1000)))"
proof -
  obtain x y r where buf: "resp_buffer d = x # y # r"
    using assms(1) by (cases "resp_buffer d"; cases "tl (resp_buffer d)") auto
  have "5 \<le> length req" by (simp add: assms(3))
  note res = dap_handle_swj_clk_result [OF assms(1,2) this, of env]
  have w: "le32 (req ! 1) (req ! 2) (req ! 3) (req ! 4) = hz"
    using le32_byte_of [of hz] by (simp add: assms(3))
  show ?thesis
    by (rule exI, rule conjI, rule res [unfolded Let_def w])
      (simp add: buf jtag_set_clock_nat unat_div)
qed

theorem swj_clock_sets_divider_witness:
  "\<exists>d'. dap_handle_swj_clk (\<lambda>_. 0) ([0x11, byte_of 0 4000000, byte_of 1 4000000, byte_of 2 4000000,
      byte_of 3 4000000] @ []) 5 dap_initial = Some (2, d') \<and> unat (jtag_clk_div (dev d')) = 2"
  using swj_clock_sets_divider [where d = dap_initial and n = 5 and hz = 4000000 and rest = "[]" and env = "\<lambda>_. 0"]
  by (auto simp: dap_initial_def)

text \<open>What the device reports of itself: the information strings by identifier, as bytes.\<close>

definition info_spec :: "(u8 \<times> u8 list) list" where
  "info_spec =
    [(0x01, map of_char ''NationsTech''), (0x02, map of_char ''N32G43x CMSIS-DAP v2'' @ [0]),
     (0x03, map of_char ''00000001''), (0x04, map of_char ''2.0.0''), (0xF0, [0x02]),
     (0xF1, [0, 0, 0, 0]), (0xFE, [0x01]), (0xFF, [0x40, 0x00])]"

lemma info_spec_str:
  "map_of info_spec i = Some bs \<Longrightarrow>
     \<exists>src len. dap_info_str i = Some (src, len) \<and> unat len = length bs \<and> length bs \<le> 21 \<and>
       length bs \<le> length src \<and> take (length bs) src = bs"
  by (auto simp: info_spec_def dap_info_str_def c_string_def split: if_splits)

lemma info_spec_None: "map_of info_spec i = None \<Longrightarrow> dap_info_str i = None"
  by (auto simp: info_spec_def dap_info_str_def split: if_splits)

lemma dap_handle_info_result:
  assumes "length (resp_buffer d) = 512" and "2 \<le> unat n" and "2 \<le> length req"
    and "map_of info_spec (req ! 1) = Some bs"
  shows "\<exists>len. unat len = 2 + length bs \<and> dap_handle_info env req n d =
    Some (len, d\<lparr>resp_buffer := overwritten 0 (resp_buffer d) ([of_nat (length bs), 0] @ bs)\<rparr>)"
proof -
  obtain src len where s: "dap_info_str (req ! 1) = Some (src, len)" "unat len = length bs"
    "length bs \<le> 21" "length bs \<le> length src" "take (length bs) src = bs"
    using info_spec_str [OF assms(4)] by blast
  have len: "len = of_nat (length bs)" by (simp flip: s(2))
  have hd: "[ucast (len AND 0xFF), ucast (drop_bit 8 len AND 0xFF)] = [of_nat (length bs), 0 :: u8]"
  proof -
    have "\<forall>k \<in> set [0..<22]. (of_nat k :: u32) AND 0xFF = of_nat k \<and> drop_bit 8 (of_nat k :: u32) = 0 \<and>
        ucast (of_nat k :: u32) = (of_nat k :: u8)"
      by code_simp
    moreover have "length bs \<in> set [0..<22]" using s(3) by simp
    ultimately have "drop_bit 8 len = 0" "len AND 0xFF = len" "ucast len = (of_nat (length bs) :: u8)"
      unfolding len by blast+
    then show ?thesis by simp
  qed
  have cat: "overwritten 2 (overwritten 0 (resp_buffer d) [of_nat (length bs), 0]) bs =
      overwritten 0 (resp_buffer d) ([of_nat (length bs), 0] @ bs)"
    using overwritten_append [of 0 "[of_nat (length bs), 0 :: u8]" "resp_buffer d" bs] assms(1)
    by (simp add: numeral_2_eq_2)
  have "dap_handle_info env req n d = Some (2 + len, d\<lparr>resp_buffer :=
      overwritten 2 (overwritten 0 (resp_buffer d) [of_nat (length bs), 0]) bs\<rparr>)"
    using assms(1-3) s hd
    by (simp add: dap_handle_info_def handler_simps word_less_nat_alt overwritten_def)
  moreover have "unat (2 + len) = 2 + length bs"
    using s(2,3) by (subst unat_add_lem [THEN iffD1]) simp_all
  ultimately show ?thesis using cat by metis
qed

text \<open>
  DAP_Info answers an identifier it knows with the two-byte length (low byte first, high byte 0)
  and then the information, and every other identifier, or a request without one, with 0x00, 0x00;
  the report delivers the whole answer and nothing but the response buffer changes. Byte 0 of the
  answer is the length, not the command of the handler's comment, and the length of the product name
  counts its terminating zero.
\<close>

theorem info_reports:
  assumes "dap_inv d" and "length req = 64" and "req ! 0 = 0x00" and "2 \<le> unat n" and "unat n \<le> 64"
    and "length out = 64"
  shows "\<exists>len out' buf. dap_process_command env (Some req) n (Some out) d =
      Some (len, Some out', d\<lparr>resp_buffer := buf\<rparr>) \<and>
    take (unat len) out' = (case map_of info_spec (req ! 1) of
        Some bs \<Rightarrow> [of_nat (length bs), 0x00] @ bs
      | None \<Rightarrow> [0x00, 0x00]) \<and> drop (unat len) out' = drop (unat len) out"
proof -
  have len: "length (resp_buffer d) = 512" using assms(1) by (simp add: dap_inv_def)
  have n: "0 < n" using assms(4) by (simp add: word_less_nat_alt)
  have h: "map_of dap_cmd_table (req ! 0) = Some dap_handle_info"
    by (simp add: assms(3) dap_cmd_table_def)
  obtain ans l where ans: "dap_handle_info env req n d =
      Some (l, d\<lparr>resp_buffer := overwritten 0 (resp_buffer d) ans\<rparr>)" "unat l = length ans"
    "ans = (case map_of info_spec (req ! 1) of Some bs \<Rightarrow> [of_nat (length bs), 0x00] @ bs
      | None \<Rightarrow> [0x00, 0x00])"
  proof (cases "map_of info_spec (req ! 1)")
    case (Some bs)
    with dap_handle_info_result [of d n req bs env] len assms(2,4) that show ?thesis by auto
  next
    case None
    have "\<not> n < 2" using assms(4) by (simp add: word_less_nat_alt)
    with None len assms(2) have "dap_handle_info env req n d =
        Some (2, d\<lparr>resp_buffer := (resp_buffer d)[0 := 0, 1 := 0]\<rparr>)"
      by (simp add: dap_handle_info_def handler_simps info_spec_None)
    moreover have "(resp_buffer d)[0 := 0, 1 := 0] = overwritten 0 (resp_buffer d) [0, 0]"
      using len by (cases "resp_buffer d"; cases "tl (resp_buffer d)") (auto simp: overwritten_def)
    ultimately show ?thesis using that [of 2 "[0, 0]"] None by simp
  qed
  from info_cmd.delivered_or_overrun [OF assms(1,2) n assms(5,6) h, of env] ans(1,2)
    info_cmd.answers [OF assms(1,2) n assms(5), of env]
  have "dap_process_command env (Some req) n (Some out) d = Some (l, Some (overwritten 0 out
      (take (unat l) (overwritten 0 (resp_buffer d) ans))),
      d\<lparr>resp_buffer := overwritten 0 (resp_buffer d) ans\<rparr>)" and le: "unat l \<le> 64" by auto
  moreover have "take (unat l) (overwritten 0 (resp_buffer d) ans) = ans"
    using ans(2) by (simp add: overwritten_def)
  ultimately show ?thesis
    using ans(2,3) assms(6)
    by (intro exI [of _ l] exI [of _ "overwritten 0 out ans"]
        exI [of _ "overwritten 0 (resp_buffer d) ans"]) (simp add: overwritten_def)
qed

theorem info_reports_witness:
  "\<exists>len out' buf. dap_process_command (\<lambda>_. 0) (Some (0x00 # 0x04 # replicate 62 0)) 64
       (Some (replicate 64 0)) dap_initial = Some (len, Some out', dap_initial\<lparr>resp_buffer := buf\<rparr>) \<and>
     take (unat len) out' = [5, 0, 0x32, 0x2E, 0x30, 0x2E, 0x30]"
  using info_reports [OF dap_inv_initial, of "0x00 # 0x04 # replicate 62 0" 64 "replicate 64 0" "\<lambda>_. 0"]
  by (simp add: info_spec_def) blast

text \<open>
  DAP_ResetTarget pulses the reset line: low for 960000 delay iterations, then high, with no
  TCK edge and no other pin touched, and answers 0x0A, 0x00 (no execution status follows).
\<close>

theorem reset_target_pulse:
  "length (resp_buffer d) = 512 \<Longrightarrow>
   \<exists>d' lo hi. dap_handle_reset_target env req n d = Some (2, d') \<and>
     take 2 (resp_buffer d') = [0x0A, 0x00] \<and> dap_state d' = dap_state d \<and>
     bus (dev d') = hi # Nops 960000 # lo # bus (dev d) \<and>
     \<not> srst_pin (lo # bus (dev d)) \<and> srst_pin (bus (dev d')) \<and>
     edges (bus (dev d')) = edges (bus (dev d)) \<and>
     (\<forall>p \<in> {3, 4, 5}. level p (bus (dev d')) = level p (bus (dev d)))"
  by (cases "resp_buffer d"; cases "tl (resp_buffer d)")
    (auto simp: dap_handle_reset_target_def handler_simps jtag_srst_assert_def jtag_srst_deassert_def
      trace_simps)

theorem reset_target_pulse_witness:
  "\<exists>d' lo hi. dap_handle_reset_target (\<lambda>_. 0) [0x0A] 1 dap_initial = Some (2, d') \<and>
     bus (dev d') = hi # Nops 960000 # lo # bus (dev dap_initial)"
proof -
  have "length (resp_buffer dap_initial) = 512" by (simp add: dap_initial_def)
  from reset_target_pulse [OF this, of "\<lambda>_. 0" "[0x0A]" 1] show ?thesis by blast
qed

text \<open>
  The status argument of an error answer is dropped. A command outside the table is answered
  with its own number and DAP_OK, the answer of a command that succeeded, although the code passes
  DAP_ERROR; only the response buffer changes.
\<close>

theorem unknown_command_answers_ok:
  assumes "dap_inv d" and "length req = 64" and "0 < n" and "length out = 64"
    and "req ! 0 \<notin> fst ` set dap_cmd_table"
  shows "\<exists>out' buf. dap_process_command env (Some req) n (Some out) d =
      Some (2, Some out', d\<lparr>resp_buffer := buf\<rparr>) \<and> out' = [req ! 0, DAP_OK] @ drop 2 out"
proof -
  have len: "length (resp_buffer d) = 512" using assms(1) by (simp add: dap_inv_def)
  obtain x y r where "resp_buffer d = x # y # r"
    using len by (cases "resp_buffer d"; cases "tl (resp_buffer d)") auto
  moreover have "map_of dap_cmd_table (req ! 0) = None"
    using assms(5) by (simp add: map_of_eq_None_iff)
  moreover have "req \<noteq> []" "n \<noteq> 0" using assms(2,3) by auto
  ultimately show ?thesis
    using unknown_command_result [OF len, of n req out env] assms(4)
    by (auto simp: overwritten_def numeral_2_eq_2)
qed

theorem unknown_command_answers_ok_witness:
  "\<exists>out' buf. dap_process_command (\<lambda>_. 0) (Some (0x7F # replicate 63 0)) 64 (Some (replicate 64 0))
      dap_initial = Some (2, Some out', dap_initial\<lparr>resp_buffer := buf\<rparr>) \<and>
    out' = [0x7F, DAP_OK] @ drop 2 (replicate 64 0)"
  using unknown_command_answers_ok [OF dap_inv_initial, of "0x7F # replicate 63 0" 64 "replicate 64 0" "\<lambda>_. 0"]
  by (simp add: dap_cmd_table_def)

end
