(* ===== verification/DapTransfer.thy ===== *)
theory DapTransfer imports DapCommands begin

text \<open>
  DAP_TRANSFER and DAP_TRANSFER_BLOCK: the scans each access puts on the wires, the TAP states those
  scans take the target through, and where the words read end up in the answer.
\<close>

subsection \<open>One access\<close>

text \<open>The scans of one access; the TDI level during the three walks is whatever the last shift left.\<close>

definition walk :: "u8 \<Rightarrow> bool \<Rightarrow> (bool \<times> bool) list" where
  "walk st d = map (\<lambda>b. (b, d)) (goto_tms st)"

definition ir_request :: "bool \<Rightarrow> u8 list" where
  "ir_request ap_ndp = [if ap_ndp then 0x0B else 0x0A, 0, 0, 0]"

definition scan_drives :: "bool \<Rightarrow> bool \<Rightarrow> u8 \<Rightarrow> u32 \<Rightarrow> bool \<Rightarrow> bool \<Rightarrow> (bool \<times> bool) list" where
  "scan_drives ap rnw a w d0 d1 =
     walk 0x0B d0 @ shift_drives (Some (ir_request ap)) 4 True @
     walk 0x04 d1 @ shift_drives (Some (dr_request rnw a w)) 35 True"

lemma length_dr_request [simp]: "length (dr_request rnw a w) = 5"
  by (simp add: dr_request_def Let_def)

lemma length_pack_35: "length bits = 35 \<Longrightarrow> length (pack_lsb bits) = 5"
  by (simp add: length_pack_lsb)

lemma overwritten_all: "length bs = length buf \<Longrightarrow> overwritten 0 buf bs = bs"
  by (simp add: overwritten_def)

lemma unat_shift_counts: "unat (4 :: u32) = 4" "unat (35 :: u32) = 35"
  by simp_all

lemma dp_ap_scan_result:
  assumes "\<not> tck_pin (bus j)"
  shows "\<exists>bits j' d1. dp_ap_scan env ap rnw a w j = Some (pack_lsb bits, j') \<and> length bits = 35 \<and>
    samples env (bus j') = samples env (bus j) @ bits \<and>
    wires (scan_drives ap rnw a w (tdi_pin (bus j)) d1) j j'"
proof -
  let ?ir = "Some (ir_request ap)" and ?dr = "Some (dr_request rnw a w)"
  let ?j1 = "jtag_goto_state 0x0B j"
  note w1 = jtag_goto_state_wires [OF assms, of "0x0B", folded walk_def]
  have "tdi_covers ?ir (unat (4 :: u32))" by (simp add: tdi_covers_def ir_request_def)
  from jtag_shift_data_no_capture [OF wires_low [OF w1] this, of env 1] obtain j2 where
    s2: "jtag_shift_data env ?ir None 4 1 ?j1 = Some (None, j2)"
    and w2: "wires (shift_drives ?ir 4 True) ?j1 j2"
    and m2: "samples env (bus j2) = samples env (bus ?j1)" by auto
  let ?j3 = "jtag_goto_state 0x04 j2" and ?d1 = "tdi_pin (bus j2)"
  note w3 = jtag_goto_state_wires [OF wires_low [OF w2], of "0x04", folded walk_def]
  have "tdi_covers ?dr (unat (35 :: u32))" by (simp add: tdi_covers_def)
  from jtag_shift_data_capture [OF wires_low [OF w3] this, of "[0, 0, 0, 0, 0]" env 1]
  obtain j4 bits where s4: "jtag_shift_data env ?dr (Some [0, 0, 0, 0, 0]) 35 1 ?j3 =
      Some (Some (overwritten 0 [0, 0, 0, 0, 0] (pack_lsb bits)), j4)"
    and b: "length bits = 35" and m4: "samples env (bus j4) = samples env (bus ?j3) @ bits"
    and w4: "wires (shift_drives ?dr 35 True) ?j3 j4" by auto
  have "overwritten 0 [0, 0, 0, 0, 0] (pack_lsb bits) = pack_lsb bits"
    using length_pack_35 [OF b] by (intro overwritten_all) simp
  moreover have "wires (scan_drives ap rnw a w (tdi_pin (bus j)) ?d1) j j4"
    using wires_trans [OF wires_trans [OF wires_trans [OF w1 w2] w3] w4] by (simp add: scan_drives_def)
  ultimately show ?thesis
    using s2 s4 b m2 m4
    by (intro exI [of _ bits] exI [of _ j4] exI [of _ ?d1])
      (simp add: dp_ap_scan_def ir_request_def)
qed

subsection \<open>Storing the word of a read\<close>

lemma byte_of_le32:
  "byte_of 0 (le32 a b c d) = a" "byte_of 1 (le32 a b c d) = b"
  "byte_of 2 (le32 a b c d) = c" "byte_of 3 (le32 a b c d) = d"
  by (rule bit_word_eqI; auto simp: bit_byte_of le32_def bit_simps dest: bit_imp_le_length)+

lemma put_le32_result:
  assumes "length dr = 5" and "p + idx + 4 \<le> length buf"
  shows "put_le32 p idx dr buf = Some (overwritten (p + idx) buf (drop 1 dr))"
proof -
  obtain a b c d e where dr: "dr = [a, b, c, d, e]"
    using assms(1) by (auto simp: length_Suc_conv numeral_eq_Suc)
  let ?i = "p + idx"
  have "buf[?i := b, Suc ?i := c, Suc (Suc ?i) := d, Suc (Suc (Suc ?i)) := e] =
      overwritten ?i buf [b, c, d, e]"
    using assms(2)
    by (intro nth_equalityI) (auto simp: overwritten_def nth_list_update nth_append nth_Cons'
        Suc_diff_le not_less less_Suc_eq intro!: arg_cong [where f = "(!) buf"])
  then show ?thesis
    using assms by (simp add: put_le32_def dr rd_le32_def buf_simps numeral_eq_Suc
        byte_of_le32 [unfolded One_nat_def numeral_2_eq_2 numeral_3_eq_3])
qed

subsection \<open>The accesses of a request\<close>

datatype access = Access (is_ap: bool) (is_read: bool) (reg: u8) (data: u32)

text \<open>
  The accesses DAP_TRANSFER takes from a request: one byte each, then the four data bytes of a write
  as far as the request holds them. The list is shorter than \<open>n\<close> when the request runs out.
\<close>

fun parse_accesses :: "nat \<Rightarrow> u8 list \<Rightarrow> access list" where
  "parse_accesses 0 bs = []"
| "parse_accesses (Suc n) [] = []"
| "parse_accesses (Suc n) (r # bs) =
     (let a = drop_bit 2 r AND 0x03; rd = bit r 1
      in if rd then Access (bit r 0) True a 0 # parse_accesses n bs
         else if 4 \<le> length bs
         then Access (bit r 0) False a (le32 (bs ! 0) (bs ! 1) (bs ! 2) (bs ! 3))
                # parse_accesses n (drop 4 bs)
         else Access (bit r 0) False a 0 # parse_accesses n bs)"

text \<open>The accesses of DAP_TRANSFER_BLOCK: one request byte, the register number counting up modulo 4.\<close>

fun block_accesses :: "nat \<Rightarrow> bool \<Rightarrow> bool \<Rightarrow> u8 \<Rightarrow> u8 list \<Rightarrow> access list" where
  "block_accesses 0 ap rnw a bs = []"
| "block_accesses (Suc n) ap rnw a bs =
     (if \<not> rnw \<and> 4 \<le> length bs
      then Access ap rnw a (le32 (bs ! 0) (bs ! 1) (bs ! 2) (bs ! 3))
             # block_accesses n ap rnw ((a + 1) AND 0x03) (drop 4 bs)
      else Access ap rnw a 0 # block_accesses n ap rnw ((a + 1) AND 0x03) bs)"

definition access_drives :: "access \<Rightarrow> (bool \<times> bool) list \<Rightarrow> bool" where
  "access_drives q es \<longleftrightarrow> (\<exists>d0 d1 d2.
     es = scan_drives (is_ap q) (is_read q) (reg q) (data q) d0 d1 @ walk 0x01 d2)"

text \<open>
  What a run of accesses leaves: the driven levels, one 35-bit capture per access, and the data bytes
  of the reads stored from \<open>base + xf_idx\<close> on.
\<close>

definition read_bytes :: "access list \<Rightarrow> bool list list \<Rightarrow> u8 list" where
  "read_bytes qs bss =
     concat (map (\<lambda>(q, bits). if is_read q then drop 1 (pack_lsb bits) else []) (zip qs bss))"

definition xfer_outcome ::
  "target \<Rightarrow> nat \<Rightarrow> access list \<Rightarrow> bool list list \<Rightarrow> (bool \<times> bool) list list \<Rightarrow> xfer_loop \<Rightarrow> xfer_loop \<Rightarrow> bool" where
  "xfer_outcome env base qs bss ess l l' \<longleftrightarrow>
     list_all2 access_drives qs ess \<and> length bss = length qs \<and> (\<forall>bits \<in> set bss. length bits = 35) \<and>
     samples env (bus (xf_jtag l')) = samples env (bus (xf_jtag l)) @ concat bss \<and>
     wires (concat ess) (xf_jtag l) (xf_jtag l') \<and>
     xf_buf l' = overwritten (base + xf_idx l) (xf_buf l) (read_bytes qs bss) \<and>
     xf_idx l' = xf_idx l + length (read_bytes qs bss) \<and>
     xf_count l' = xf_count l + of_nat (length (filter is_read qs))"

lemma xfer_outcome_refl:
  "\<not> tck_pin (bus (xf_jtag l)) \<Longrightarrow> xfer_outcome env base [] [] [] l l"
  by (simp add: xfer_outcome_def read_bytes_def wires_def)

lemma length_read_bytes:
  assumes "length bss = length qs" and "\<forall>bits \<in> set bss. length bits = 35"
  shows "length (read_bytes qs bss) = 4 * length (filter is_read qs)"
  using assms by (induction bss qs rule: list_induct2)
    (auto simp: read_bytes_def length_pack_35)

lemma length_drop_pack_35: "length bits = 35 \<Longrightarrow> length (drop 1 (pack_lsb bits)) = 4"
  by (simp add: length_pack_35)

lemma xfer_outcome_step:
  assumes "access_drives q es" and "length bits = 35"
    and "samples env (bus (xf_jtag l2)) = samples env (bus (xf_jtag l)) @ bits"
    and "wires es (xf_jtag l) (xf_jtag l2)"
    and "xf_buf l2 = overwritten (base + xf_idx l) (xf_buf l)
           (if is_read q then drop 1 (pack_lsb bits) else [])"
    and "xf_idx l2 = xf_idx l + (if is_read q then 4 else 0)"
    and "xf_count l2 = xf_count l + (if is_read q then 1 else 0)"
    and "is_read q \<Longrightarrow> base + xf_idx l + 4 \<le> length (xf_buf l)"
    and "xfer_outcome env base qs bss ess l2 l'"
  shows "xfer_outcome env base (q # qs) (bits # bss) (es # ess) l l'"
proof (cases "is_read q")
  case True
  have "overwritten (base + xf_idx l + length (drop 1 (pack_lsb bits)))
      (overwritten (base + xf_idx l) (xf_buf l) (drop 1 (pack_lsb bits))) (read_bytes qs bss) =
      overwritten (base + xf_idx l) (xf_buf l) (drop 1 (pack_lsb bits) @ read_bytes qs bss)"
    using assms(8) True length_drop_pack_35 [OF assms(2)] by (intro overwritten_append) simp
  with True assms wires_trans show ?thesis
    by (simp add: xfer_outcome_def read_bytes_def length_drop_pack_35 [OF assms(2)] add.assoc wires_def
        length_pack_35)
next
  case False
  with assms show ?thesis
    by (simp add: xfer_outcome_def read_bytes_def wires_def)
qed

subsection \<open>DAP_TRANSFER\<close>

lemma flag_masks: "(r AND 0x01 \<noteq> 0) = bit r 0" "(r AND 0x02 \<noteq> 0) = bit r 1" for r :: u8
  using and_exp_eq_0_iff_not_bit [of r 0] and_exp_eq_0_iff_not_bit [of r 1] by simp_all

lemma write_data_read: "xfer_write_data True req req_len i = Some (0, i)"
  by (simp add: xfer_write_data_def)

lemma write_data_short: "req_len < i + 4 \<Longrightarrow> xfer_write_data False req req_len i = Some (0, i)"
  by (simp add: xfer_write_data_def)

lemma write_data_full:
  assumes "i + 4 \<le> req_len" and "req_len \<le> length req"
  shows "xfer_write_data False req req_len i =
    Some (let bs = drop i (take req_len req) in le32 (bs ! 0) (bs ! 1) (bs ! 2) (bs ! 3), i + 4)"
  using assms by (simp add: xfer_write_data_def rd_le32_def buf_simps Let_def)

lemma fetch_access:
  assumes "pos < req_len" and "req_len \<le> length req"
  shows "\<exists>w k. xfer_write_data (bit (req ! pos) 1) req req_len (pos + 1) = Some (w, pos + k) \<and>
    parse_accesses (Suc n) (drop pos (take req_len req)) =
      Access (bit (req ! pos) 0) (bit (req ! pos) 1) (drop_bit 2 (req ! pos) AND 0x03) w
        # parse_accesses n (drop (pos + k) (take req_len req)) \<and> 1 \<le> k \<and> pos + k \<le> req_len"
proof -
  let ?t = "take req_len req"
  have hd: "drop pos ?t = req ! pos # drop (pos + 1) ?t"
    using assms by (simp add: Cons_nth_drop_Suc [symmetric])
  consider "bit (req ! pos) 1" | "\<not> bit (req ! pos) 1" "req_len < pos + 1 + 4"
    | "\<not> bit (req ! pos) 1" "pos + 1 + 4 \<le> req_len" by linarith
  then show ?thesis
  proof cases
    case 1
    then show ?thesis
      using assms(1) by (intro exI [of _ 0] exI [of _ 1]) (simp add: hd write_data_read)
  next
    case 2
    then have "\<not> 4 \<le> length (drop (pos + 1) ?t)" using assms by simp
    with 2 show ?thesis
      using assms(1) write_data_short [OF 2(2), of req]
      by (intro exI [of _ 0] exI [of _ 1]) (simp add: hd)
  next
    case 3
    then have "4 \<le> length (drop (pos + 1) ?t)" using assms by simp
    with 3 show ?thesis
      using write_data_full [OF 3(2) assms(2)]
      by (intro exI [of _ "let bs = drop (pos + 1) ?t in le32 (bs ! 0) (bs ! 1) (bs ! 2) (bs ! 3)"]
          exI [of _ 5]) (simp add: hd Let_def add.commute)
  qed
qed

text \<open>The acknowledge bits DAP_TRANSFER checks, and the status it ends with.\<close>

definition bad_ack :: "access list \<Rightarrow> bool list list \<Rightarrow> bool" where
  "bad_ack qs bss \<longleftrightarrow> list_ex (\<lambda>(q, bits). is_read q \<and>
     drop_bit 1 (pack_lsb bits ! 0) AND 0x07 \<noteq> 1) (zip qs bss)"

definition transfer_status :: "nat \<Rightarrow> access list \<Rightarrow> bool list list \<Rightarrow> u8 \<Rightarrow> u8" where
  "transfer_status n qs bss s =
     (if length qs < n then DAP_ERROR else if bad_ack qs bss then 0x04 else s)"

lemma xfer_store_result:
  assumes "length bits = 35" and "xf_idx l + 4 < 512" and "p + xf_idx l + 4 \<le> length (xf_buf l)"
  shows "xfer_store p (pack_lsb bits) l = Some (l\<lparr>
    xf_buf := overwritten (p + xf_idx l) (xf_buf l) (drop 1 (pack_lsb bits)),
    xf_idx := xf_idx l + 4, xf_count := xf_count l + 1\<rparr>)"
  using assms(2) put_le32_result [OF length_pack_35 [OF assms(1)] assms(3)]
  by (simp add: xfer_store_def)

lemma rd_pack_35: "length bits = 35 \<Longrightarrow> rd (pack_lsb bits) 0 = Some (pack_lsb bits ! 0)"
  by (simp add: rd_def length_pack_35)

lemma transfer_step:
  assumes "pos < req_len" and "req_len \<le> length req" and "\<not> tck_pin (bus (xf_jtag l))"
    and "3 + xf_idx l + 4 \<le> length (xf_buf l)" and "length (xf_buf l) = 512"
  shows "\<exists>q bits es k l2. transfer_loop env req req_len (Suc n) pos l =
      transfer_loop env req req_len n (pos + k) l2 \<and> 1 \<le> k \<and> pos + k \<le> req_len \<and>
    parse_accesses (Suc n) (drop pos (take req_len req)) =
      q # parse_accesses n (drop (pos + k) (take req_len req)) \<and>
    access_drives q es \<and> length bits = 35 \<and>
    samples env (bus (xf_jtag l2)) = samples env (bus (xf_jtag l)) @ bits \<and>
    wires es (xf_jtag l) (xf_jtag l2) \<and>
    xf_buf l2 = overwritten (3 + xf_idx l) (xf_buf l)
      (if is_read q then drop 1 (pack_lsb bits) else []) \<and>
    xf_idx l2 = xf_idx l + (if is_read q then 4 else 0) \<and>
    xf_count l2 = xf_count l + (if is_read q then 1 else 0) \<and>
    xf_status l2 = (if bad_ack [q] [bits] then 0x04 else xf_status l)"
proof -
  let ?r = "req ! pos"
  let ?a = "drop_bit 2 (req ! pos) AND 0x03"
  from fetch_access [OF assms(1,2), of n] obtain w k where f:
    "xfer_write_data (bit ?r 1) req req_len (pos + 1) = Some (w, pos + k)"
    "parse_accesses (Suc n) (drop pos (take req_len req)) =
      Access (bit ?r 0) (bit ?r 1) ?a w # parse_accesses n (drop (pos + k) (take req_len req))"
    "1 \<le> k" "pos + k \<le> req_len" by blast
  let ?q = "Access (bit ?r 0) (bit ?r 1) ?a w"
  from dp_ap_scan_result [OF assms(3), of env "bit ?r 0" "bit ?r 1" ?a w] obtain bits j d1 where s:
    "dp_ap_scan env (bit ?r 0) (bit ?r 1) ?a w (xf_jtag l) = Some (pack_lsb bits, j)"
    "length bits = 35" "samples env (bus j) = samples env (bus (xf_jtag l)) @ bits"
    "wires (scan_drives (bit ?r 0) (bit ?r 1) ?a w (tdi_pin (bus (xf_jtag l))) d1) (xf_jtag l) j"
    by blast
  let ?es = "scan_drives (bit ?r 0) (bit ?r 1) ?a w (tdi_pin (bus (xf_jtag l))) d1 @
      walk 0x01 (tdi_pin (bus j))"
  let ?l2 = "if bit ?r 1
      then (if bad_ack [?q] [bits] then l\<lparr>xf_status := 0x04\<rparr> else l)\<lparr>
        xf_buf := overwritten (3 + xf_idx l) (xf_buf l) (drop 1 (pack_lsb bits)),
        xf_idx := xf_idx l + 4, xf_count := xf_count l + 1, xf_jtag := jtag_goto_state 0x01 j\<rparr>
      else l\<lparr>xf_jtag := jtag_goto_state 0x01 j\<rparr>"
  have d: "access_drives ?q ?es" by (auto simp: access_drives_def)
  have w: "wires ?es (xf_jtag l) (jtag_goto_state 0x01 j)"
    using wires_trans [OF s(4) jtag_goto_state_wires [OF wires_low [OF s(4)], of "0x01"]]
    by (simp add: walk_def)
  have room: "xf_idx l + 4 < 512" using assms(4,5) by simp
  have run: "transfer_loop env req req_len (Suc n) pos l =
      transfer_loop env req req_len n (pos + k) ?l2"
  proof (cases "bit ?r 1")
    case False
    with f(1) s(1) assms(1,2) show ?thesis
      by (simp add: rd_Some Let_def flag_masks)
  next
    case True
    with f(1) s(1) assms(1,2,4) room show ?thesis
      by (simp add: rd_Some Let_def flag_masks rd_pack_35 [OF s(2)] xfer_store_result [OF s(2)]
          bad_ack_def)
  qed
  have j: "xf_jtag ?l2 = jtag_goto_state 0x01 j" by simp
  have l2: "xf_buf ?l2 = overwritten (3 + xf_idx l) (xf_buf l)
      (if is_read ?q then drop 1 (pack_lsb bits) else [])"
    "xf_idx ?l2 = xf_idx l + (if is_read ?q then 4 else 0)"
    "xf_count ?l2 = xf_count l + (if is_read ?q then 1 else 0)"
    "xf_status ?l2 = (if bad_ack [?q] [bits] then 0x04 else xf_status l)"
    by (simp_all add: bad_ack_def)
  have smp: "samples env (bus (xf_jtag ?l2)) = samples env (bus (xf_jtag l)) @ bits"
    unfolding j by (simp add: s(3))
  from w have w2: "wires ?es (xf_jtag l) (xf_jtag ?l2)" unfolding j .
  show ?thesis
    by (intro exI conjI, rule run, rule f(3), rule f(4), rule f(2), rule d, rule s(2), rule smp,
        rule w2, (rule l2)+)
qed

lemma transfer_status_step:
  "transfer_status n qs bss (if bad_ack [q] [b] then 0x04 else s) =
     transfer_status (Suc n) (q # qs) (b # bss) s"
  by (auto simp: transfer_status_def bad_ack_def)

lemma transfer_loop_outcome:
  assumes "req_len \<le> length req" and "pos \<le> req_len" and "\<not> tck_pin (bus (xf_jtag l))"
    and "length (xf_buf l) = 512" and "3 + xf_idx l + 4 * (req_len - pos) \<le> 512"
  shows "\<exists>l' bss ess. transfer_loop env req req_len n pos l = Some l' \<and>
    xfer_outcome env 3 (parse_accesses n (drop pos (take req_len req))) bss ess l l' \<and>
    xf_status l' =
      transfer_status n (parse_accesses n (drop pos (take req_len req))) bss (xf_status l)"
  using assms
proof (induction n arbitrary: pos l)
  case 0
  then show ?case
    by (intro exI [of _ l] exI [of _ "[]"]) (simp add: xfer_outcome_refl transfer_status_def bad_ack_def)
next
  case (Suc n)
  show ?case
  proof (cases "pos < req_len")
    case False
    with Suc.prems(2) have "drop pos (take req_len req) = []" by simp
    moreover have "xfer_outcome env 3 [] [] [] l (l\<lparr>xf_status := DAP_ERROR\<rparr>)"
      using xfer_outcome_refl [OF Suc.prems(3)] by (simp add: xfer_outcome_def)
    ultimately show ?thesis
      using False
      by (intro exI [of _ "l\<lparr>xf_status := DAP_ERROR\<rparr>"] exI [of _ "[]"]) (simp add: transfer_status_def)
  next
    case True
    have "3 + xf_idx l + 4 \<le> length (xf_buf l)" using Suc.prems(4,5) True by simp
    from transfer_step [OF True Suc.prems(1,3) this Suc.prems(4), of env n] obtain q bits es k l2 where s:
      "transfer_loop env req req_len (Suc n) pos l = transfer_loop env req req_len n (pos + k) l2"
      "1 \<le> k" "pos + k \<le> req_len"
      "parse_accesses (Suc n) (drop pos (take req_len req)) =
         q # parse_accesses n (drop (pos + k) (take req_len req))"
      "access_drives q es" "length bits = 35"
      "samples env (bus (xf_jtag l2)) = samples env (bus (xf_jtag l)) @ bits"
      "wires es (xf_jtag l) (xf_jtag l2)"
      "xf_buf l2 = overwritten (3 + xf_idx l) (xf_buf l)
         (if is_read q then drop 1 (pack_lsb bits) else [])"
      "xf_idx l2 = xf_idx l + (if is_read q then 4 else 0)"
      "xf_count l2 = xf_count l + (if is_read q then 1 else 0)"
      "xf_status l2 = (if bad_ack [q] [bits] then 0x04 else xf_status l)" by blast
    have len: "length (xf_buf l2) = 512"
      using Suc.prems(4) \<open>3 + xf_idx l + 4 \<le> length (xf_buf l)\<close> length_drop_pack_35 [OF s(6)]
      by (simp add: s(9) length_overwritten)
    have room: "3 + xf_idx l2 + 4 * (req_len - (pos + k)) \<le> 512"
      using Suc.prems(5) s(2,3) True by (auto simp: s(10))
    from Suc.IH [OF Suc.prems(1) s(3) wires_low [OF s(8)] len room] obtain l' bss ess where r:
      "transfer_loop env req req_len n (pos + k) l2 = Some l'"
      "xfer_outcome env 3 (parse_accesses n (drop (pos + k) (take req_len req))) bss ess l2 l'"
      "xf_status l' = transfer_status n (parse_accesses n (drop (pos + k) (take req_len req))) bss
         (xf_status l2)" by blast
    have "xfer_outcome env 3 (q # parse_accesses n (drop (pos + k) (take req_len req)))
        (bits # bss) (es # ess) l l'"
      using \<open>3 + xf_idx l + 4 \<le> length (xf_buf l)\<close>
      by (intro xfer_outcome_step [OF s(5-11) _ r(2)]) simp
    with s(1) r(1,3) show ?thesis
      unfolding s(4) s(12) transfer_status_step by (intro exI conjI) simp_all
  qed
qed

lemma length_parse_accesses: "length (parse_accesses n bs) \<le> length bs"
proof (induction n arbitrary: bs)
  case (Suc n)
  have "length (parse_accesses n (drop 4 cs)) \<le> length cs" for cs
    using Suc [of "drop 4 cs"] by simp
  with Suc show ?case by (cases bs) (auto simp: Let_def)
qed simp

text \<open>
  The whole handler on a request of a report: the data bytes of the reads are stored from
  \<open>resp_buffer[6]\<close> on, because \<open>resp_data\<close> is \<open>&resp_buffer[3]\<close> and \<open>resp_idx\<close> starts at 3, while the
  answer length counts them from \<open>resp_buffer[3]\<close> on.
\<close>

definition transfer_accesses :: "u8 list \<Rightarrow> nat \<Rightarrow> access list" where
  "transfer_accesses req req_len = parse_accesses (unat (req ! 2)) (drop 3 (take req_len req))"

lemma dap_handle_transfer_result:
  assumes "length (resp_buffer d) = 512" and "\<not> tck_pin (bus (dev d))" and "unat n \<le> length req"
    and "5 \<le> unat n" and "unat n \<le> 64"
  shows "\<exists>bss ess j. let qs = transfer_accesses req (unat n); bs = read_bytes qs bss in
    dap_handle_transfer env req n d = Some (3 + of_nat (length bs), d\<lparr>
      resp_buffer := (overwritten 6 (resp_buffer d) bs)[0 := DAP_CMD_TRANSFER,
        1 := of_nat (length (filter is_read qs)),
        2 := transfer_status (unat (req ! 2)) qs bss DAP_OK],
      dev := j\<rparr>) \<and>
    list_all2 access_drives qs ess \<and> length bss = length qs \<and> (\<forall>bits \<in> set bss. length bits = 35) \<and>
    samples env (bus j) = samples env (bus (dev d)) @ concat bss \<and>
    wires (concat ess) (dev d) j \<and> length bs \<le> 4 * (unat n - 3)"
proof -
  let ?l = "\<lparr>xf_jtag = dev d, xf_count = 0, xf_status = DAP_OK, xf_idx = 3, xf_buf = resp_buffer d\<rparr>"
  let ?qs = "transfer_accesses req (unat n)"
  have "\<exists>l' bss ess. transfer_loop env req (unat n) (unat (req ! 2)) 3 ?l = Some l' \<and>
    xfer_outcome env 3 (parse_accesses (unat (req ! 2)) (drop 3 (take (unat n) req))) bss ess ?l l' \<and>
    xf_status l' = transfer_status (unat (req ! 2))
      (parse_accesses (unat (req ! 2)) (drop 3 (take (unat n) req))) bss (xf_status ?l)"
    using assms by (intro transfer_loop_outcome) simp_all
  then obtain l' bss ess where run: "transfer_loop env req (unat n) (unat (req ! 2)) 3 ?l = Some l'"
    and out: "xfer_outcome env 3 ?qs bss ess ?l l'"
    and st: "xf_status l' = transfer_status (unat (req ! 2)) ?qs bss DAP_OK"
    by (auto simp: transfer_accesses_def)
  have reads: "length (read_bytes ?qs bss) = 4 * length (filter is_read ?qs)"
    using out by (intro length_read_bytes) (simp_all add: xfer_outcome_def)
  from length_parse_accesses [of "unat (req ! 2)" "drop 3 (take (unat n) req)"]
  have "length ?qs \<le> unat n - 3" using assms(3) by (simp add: transfer_accesses_def)
  with reads have few: "length (read_bytes ?qs bss) \<le> 4 * (unat n - 3)"
    using length_filter_le [of is_read ?qs] by linarith
  have buf: "xf_buf l' = overwritten 6 (resp_buffer d) (read_bytes ?qs bss)"
    and idx: "xf_idx l' = 3 + length (read_bytes ?qs bss)"
    and cnt: "xf_count l' = of_nat (length (filter is_read ?qs))"
    using out by (simp_all add: xfer_outcome_def)
  have "length (xf_buf l') = 512"
    using few assms(1,5) by (simp add: buf length_overwritten)
  then have "dap_handle_transfer env req n d = Some (of_nat (xf_idx l'), d\<lparr>
      resp_buffer := (xf_buf l')[0 := DAP_CMD_TRANSFER, 1 := xf_count l', 2 := xf_status l'],
      dev := xf_jtag l'\<rparr>)"
    using run assms(3,4)
    by (simp add: dap_handle_transfer_def buf_simps Let_def word_less_nat_alt)
  then show ?thesis
    using out few
    by (intro exI [of _ bss] exI [of _ ess] exI [of _ "xf_jtag l'"])
      (simp add: buf idx cnt st xfer_outcome_def)
qed

text \<open>The contract of the handler: 61 reads at most, since each takes a request byte.\<close>

lemma unat_small_sum: "k < 1000 \<Longrightarrow> unat (3 + of_nat k :: u32) = 3 + k"
  by (subst unat_add_lem [THEN iffD1]) (simp_all add: unat_of_nat)

lemma dap_inv_header3:
  assumes "dap_inv d" and "wires es (dev d) j" and "length buf = 512"
  shows "dap_inv (d\<lparr>resp_buffer := buf[0 := a, 1 := b, 2 := c], dev := j\<rparr>)"
  using assms by (intro dap_inv_wires) simp_all

lemma dap_handle_transfer_short:
  assumes "length (resp_buffer d) = 512" and "unat n < 5"
  shows "dap_handle_transfer env req n d =
    Some (2, d\<lparr>resp_buffer := (resp_buffer d)[0 := DAP_CMD_TRANSFER, 1 := DAP_OK]\<rparr>)"
  using assms by (simp add: dap_handle_transfer_def handler_simps word_less_nat_alt)

interpretation transfer_cmd: dap_command dap_handle_transfer 247
proof unfold_locales
  fix d req n env assume inv: "dap_inv d" and len: "length (req :: u8 list) = 64"
    and "0 < (n :: u32)" and n: "unat n \<le> 64"
  show "\<exists>len d'. dap_handle_transfer env req n d = Some (len, d') \<and> dap_inv d' \<and>
      2 \<le> unat len \<and> unat len \<le> 247"
  proof (cases "5 \<le> unat n")
    case True
    then obtain bss ess j where out: "dap_handle_transfer env req n d =
        Some (3 + of_nat (length (read_bytes (transfer_accesses req (unat n)) bss)), d\<lparr>resp_buffer :=
          (overwritten 6 (resp_buffer d) (read_bytes (transfer_accesses req (unat n)) bss))
            [0 := DAP_CMD_TRANSFER,
             1 := of_nat (length (filter is_read (transfer_accesses req (unat n)))),
             2 := transfer_status (unat (req ! 2)) (transfer_accesses req (unat n)) bss DAP_OK],
          dev := j\<rparr>)"
      and w: "wires (concat ess) (dev d) j"
      and few: "length (read_bytes (transfer_accesses req (unat n)) bss) \<le> 4 * (unat n - 3)"
      using dap_handle_transfer_result [of d n req env] inv len n by (auto simp: dap_inv_def Let_def)
    have "length (overwritten 6 (resp_buffer d) (read_bytes (transfer_accesses req (unat n)) bss)) = 512"
      using few n inv by (subst length_overwritten) (simp_all add: dap_inv_buffer)
    note inv' = dap_inv_header3 [OF inv w this]
    show ?thesis
      by (intro exI conjI, rule out, rule inv') (use few n in \<open>simp_all add: unat_small_sum\<close>)
  next
    case False
    with dap_handle_transfer_short [of d n env req] inv show ?thesis
      by (simp add: dap_inv_buffer)
  qed
qed simp

subsection \<open>The TAP states a transfer visits\<close>

fun tap_visits ::
  "(jtag_tap_state_t \<Rightarrow> bool \<Rightarrow> jtag_tap_state_t) \<Rightarrow> jtag_tap_state_t \<Rightarrow> (bool \<times> bool) list
     \<Rightarrow> jtag_tap_state_t list" where
  "tap_visits nxt s [] = []"
| "tap_visits nxt s (e # es) = nxt s (fst e) # tap_visits nxt (nxt s (fst e)) es"

lemma tap_visits_append:
  "tap_visits nxt s (xs @ ys) = tap_visits nxt s xs @ tap_visits nxt (tap_run nxt s xs) ys"
  by (induction xs arbitrary: s) simp_all

context tap_controller begin

lemma visits_stays:
  "s \<in> {TAP_IDLE, TAP_IR_SHIFT} \<Longrightarrow> \<forall>e \<in> set es. \<not> fst e \<Longrightarrow> set (tap_visits nxt s es) \<subseteq> {s}"
  by (induction es) (auto simp: tap_laws)

lemma visits_ones: "TAP_DR_SHIFT \<notin> set (tap_visits nxt s (replicate n (True, d)))"
proof (induction n arbitrary: s)
  case (Suc n)
  have "nxt s True \<noteq> TAP_DR_SHIFT" by (cases s) (simp_all add: tap_laws)
  with Suc show ?case by simp
qed simp

lemma visits_walk: "TAP_DR_SHIFT \<notin> set (tap_visits nxt s (walk st d))"
  using visits_ones [of s 6 d] six_ones_reset [of s d]
  by (simp add: walk_def goto_tms_def reset_tms_def tap_visits_append tap_laws)

lemma shift_drives_snoc:
  "shift_drives td (Suc n) True = map (\<lambda>i. (False, tdi_level td i)) [0..<n] @ [(True, tdi_level td n)]"
  by (simp add: shift_drives_def)

lemma visits_shift:
  assumes "s \<in> {TAP_IDLE, TAP_IR_SHIFT}"
  shows "TAP_DR_SHIFT \<notin> set (tap_visits nxt s (shift_drives td (Suc n) True))"
proof -
  let ?es = "map (\<lambda>i. (False, tdi_level td i)) [0..<n]"
  have "tap_run nxt s ?es = s" using assms by (intro stays) auto
  moreover have "set (tap_visits nxt s ?es) \<subseteq> {s}" using assms by (intro visits_stays) auto
  ultimately show ?thesis
    using assms by (auto simp: shift_drives_snoc tap_visits_append tap_laws)
qed

lemma visits_access:
  assumes "access_drives q es"
  shows "TAP_DR_SHIFT \<notin> set (tap_visits nxt s es)"
proof -
  obtain d0 d1 d2 where es: "es = scan_drives (is_ap q) (is_read q) (reg q) (data q) d0 d1 @ walk 0x01 d2"
    using assms by (auto simp: access_drives_def)
  have "tap_run nxt r (walk 0x0B d0) = TAP_IR_SHIFT" "tap_run nxt r (walk 0x04 d1) = TAP_IDLE" for r
    by (simp_all add: walk_def goto_run goto_reached_def)
  then show ?thesis
    using visits_shift [of TAP_IR_SHIFT _ 3] visits_shift [of TAP_IDLE _ 34]
    by (simp add: es scan_drives_def tap_visits_append visits_walk)
qed

lemma visits_accesses:
  "list_all2 access_drives qs ess \<Longrightarrow> TAP_DR_SHIFT \<notin> set (tap_visits nxt s (concat ess))"
  by (induction qs ess arbitrary: s rule: list_all2_induct)
    (auto simp: tap_visits_append dest: visits_access)

end

subsection \<open>DAP_TRANSFER_BLOCK\<close>

text \<open>The words that still fit when \<open>resp_idx\<close> is \<open>idx\<close>: the handler stores while \<open>idx + 4 < 512\<close>.\<close>

definition block_room :: "nat \<Rightarrow> nat" where
  "block_room idx = (DAP_MAX_RESP_SIZE - 1 - idx) div 4"

lemma block_room_step: "i + 4 < 512 \<Longrightarrow> block_room i = Suc (block_room (i + 4))"
proof -
  assume lt: "i + 4 < 512"
  obtain m where m: "m = 512 - 1 - (i + 4)" by blast
  with lt have "512 - 1 - i = m + 4" by simp
  moreover have "(m + 4) div 4 = Suc (m div 4)" by simp
  ultimately show ?thesis unfolding block_room_def m [symmetric] by (simp only:)
qed

lemma block_room_fits: "i + 4 < 512 \<Longrightarrow> i mod 4 = 2 \<Longrightarrow> 2 + i + 4 \<le> 512" for i :: nat
proof -
  assume lt: "i + 4 < 512" and r: "i mod 4 = 2"
  obtain k where "k = i div 4" by blast
  with r mult_div_mod_eq [of 4 i] have "i = 4 * k + 2" by simp
  with lt show ?thesis by presburger
qed

definition block_outcome ::
  "target \<Rightarrow> access list \<Rightarrow> bool list list \<Rightarrow> (bool \<times> bool) list list \<Rightarrow> xfer_loop \<Rightarrow> xfer_loop \<Rightarrow> bool" where
  "block_outcome env qs bss ess l l' \<longleftrightarrow>
     list_all2 access_drives qs ess \<and> length bss = length qs \<and> (\<forall>bits \<in> set bss. length bits = 35) \<and>
     samples env (bus (xf_jtag l')) = samples env (bus (xf_jtag l)) @ concat bss \<and>
     wires (concat ess) (xf_jtag l) (xf_jtag l') \<and>
     (let bs = read_bytes (take (block_room (xf_idx l)) qs) (take (block_room (xf_idx l)) bss)
      in xf_buf l' = overwritten (2 + xf_idx l) (xf_buf l) bs \<and> xf_idx l' = xf_idx l + length bs \<and>
         xf_count l' = xf_count l + of_nat (length bs div 4))"

lemma fetch_block:
  assumes "pos \<le> req_len" and "req_len \<le> length req"
  shows "\<exists>w k. xfer_write_data rnw req req_len pos = Some (w, pos + k) \<and>
    block_accesses (Suc n) ap rnw a (drop pos (take req_len req)) =
      Access ap rnw a w # block_accesses n ap rnw ((a + 1) AND 0x03) (drop (pos + k) (take req_len req)) \<and>
    pos + k \<le> req_len"
proof (cases "\<not> rnw \<and> pos + 4 \<le> req_len")
  case True
  moreover have "4 \<le> length (drop pos (take req_len req))" using True assms by auto
  ultimately show ?thesis
    using write_data_full [of pos req_len req] assms(2)
    by (intro exI [of _ "let bs = drop pos (take req_len req) in le32 (bs ! 0) (bs ! 1) (bs ! 2) (bs ! 3)"]
        exI [of _ 4]) (simp add: Let_def add.commute)
next
  case False
  moreover have "4 \<le> length (drop pos (take req_len req)) \<longleftrightarrow> pos + 4 \<le> req_len"
    using assms by auto
  ultimately show ?thesis
    using assms(1)
    by (intro exI [of _ 0] exI [of _ 0]; cases rnw) (simp_all add: xfer_write_data_def)
qed

lemma block_accesses_reads: "q \<in> set (block_accesses n ap rnw a bs) \<Longrightarrow> is_read q = rnw"
  by (induction n ap rnw a bs rule: block_accesses.induct) (auto split: if_splits)

lemma length_block_accesses [simp]: "length (block_accesses n ap rnw a bs) = n"
  by (induction n ap rnw a bs rule: block_accesses.induct) auto

lemma read_bytes_writes: "\<forall>q \<in> set qs. \<not> is_read q \<Longrightarrow> read_bytes qs bss = []"
  by (auto simp: read_bytes_def dest: set_zip_leftD)

lemma block_step:
  assumes "pos \<le> req_len" and "req_len \<le> length req" and "\<not> tck_pin (bus (xf_jtag l))"
    and "length (xf_buf l) = 512" and "xf_idx l mod 4 = 2"
  shows "\<exists>q bits es k l2. block_loop env req req_len ap rnw (Suc n) a pos l =
      block_loop env req req_len ap rnw n ((a + 1) AND 0x03) (pos + k) l2 \<and> pos + k \<le> req_len \<and>
    block_accesses (Suc n) ap rnw a (drop pos (take req_len req)) =
      q # block_accesses n ap rnw ((a + 1) AND 0x03) (drop (pos + k) (take req_len req)) \<and>
    access_drives q es \<and> length bits = 35 \<and> is_read q = rnw \<and>
    samples env (bus (xf_jtag l2)) = samples env (bus (xf_jtag l)) @ bits \<and>
    wires es (xf_jtag l) (xf_jtag l2) \<and>
    xf_buf l2 = overwritten (2 + xf_idx l) (xf_buf l)
      (if rnw \<and> xf_idx l + 4 < 512 then drop 1 (pack_lsb bits) else []) \<and>
    xf_idx l2 = xf_idx l + (if rnw \<and> xf_idx l + 4 < 512 then 4 else 0) \<and>
    xf_count l2 = xf_count l + (if rnw \<and> xf_idx l + 4 < 512 then 1 else 0)"
proof -
  from fetch_block [OF assms(1,2), of rnw n ap a] obtain w k where f:
    "xfer_write_data rnw req req_len pos = Some (w, pos + k)"
    "block_accesses (Suc n) ap rnw a (drop pos (take req_len req)) =
      Access ap rnw a w # block_accesses n ap rnw ((a + 1) AND 0x03) (drop (pos + k) (take req_len req))"
    "pos + k \<le> req_len" by blast
  let ?q = "Access ap rnw a w"
  from dp_ap_scan_result [OF assms(3), of env ap rnw a w] obtain bits j d1 where s:
    "dp_ap_scan env ap rnw a w (xf_jtag l) = Some (pack_lsb bits, j)"
    "length bits = 35" "samples env (bus j) = samples env (bus (xf_jtag l)) @ bits"
    "wires (scan_drives ap rnw a w (tdi_pin (bus (xf_jtag l))) d1) (xf_jtag l) j" by blast
  let ?es = "scan_drives ap rnw a w (tdi_pin (bus (xf_jtag l))) d1 @ walk 0x01 (tdi_pin (bus j))"
  let ?st = "rnw \<and> xf_idx l + 4 < 512"
  let ?l2 = "if ?st
      then l\<lparr>xf_buf := overwritten (2 + xf_idx l) (xf_buf l) (drop 1 (pack_lsb bits)),
        xf_idx := xf_idx l + 4, xf_count := xf_count l + 1, xf_jtag := jtag_goto_state 0x01 j\<rparr>
      else l\<lparr>xf_jtag := jtag_goto_state 0x01 j\<rparr>"
  have d: "access_drives ?q ?es" by (auto simp: access_drives_def)
  have w: "wires ?es (xf_jtag l) (jtag_goto_state 0x01 j)"
    using wires_trans [OF s(4) jtag_goto_state_wires [OF wires_low [OF s(4)], of "0x01"]]
    by (simp add: walk_def)
  have run: "block_loop env req req_len ap rnw (Suc n) a pos l =
      block_loop env req req_len ap rnw n ((a + 1) AND 0x03) (pos + k) ?l2"
  proof (cases ?st)
    case True
    then have "2 + xf_idx l + 4 \<le> 512" using assms(5) by (intro block_room_fits) simp_all
    then have "2 + xf_idx l + 4 \<le> length (xf_buf l)" using assms(4) by simp
    with True f(1) s(1) show ?thesis
      by (simp add: xfer_store_result [OF s(2)])
  next
    case False
    with f(1) s(1) show ?thesis by (cases rnw) (simp_all add: xfer_store_def Let_def)
  qed
  have j: "xf_jtag ?l2 = jtag_goto_state 0x01 j" by simp
  have smp: "samples env (bus (xf_jtag ?l2)) = samples env (bus (xf_jtag l)) @ bits"
    unfolding j by (simp add: s(3))
  from w have w2: "wires ?es (xf_jtag l) (xf_jtag ?l2)" unfolding j .
  have l2: "xf_buf ?l2 = overwritten (2 + xf_idx l) (xf_buf l)
      (if ?st then drop 1 (pack_lsb bits) else [])"
    "xf_idx ?l2 = xf_idx l + (if ?st then 4 else 0)" "xf_count ?l2 = xf_count l + (if ?st then 1 else 0)"
    by simp_all
  show ?thesis
    by (intro exI conjI, rule run, rule f(3), rule f(2), rule d, rule s(2), simp, rule smp, rule w2,
        (rule l2)+)
qed

lemma read_bytes_Cons:
  "read_bytes (q # qs) (bits # bss) =
     (if is_read q then drop 1 (pack_lsb bits) else []) @ read_bytes qs bss"
  by (simp add: read_bytes_def)

lemma block_outcome_step:
  assumes "access_drives q es" and "length bits = 35" and "is_read q = rnw"
    and "samples env (bus (xf_jtag l2)) = samples env (bus (xf_jtag l)) @ bits"
    and "wires es (xf_jtag l) (xf_jtag l2)"
    and "xf_buf l2 = overwritten (2 + xf_idx l) (xf_buf l)
      (if rnw \<and> xf_idx l + 4 < 512 then drop 1 (pack_lsb bits) else [])"
    and "xf_idx l2 = xf_idx l + (if rnw \<and> xf_idx l + 4 < 512 then 4 else 0)"
    and "xf_count l2 = xf_count l + (if rnw \<and> xf_idx l + 4 < 512 then 1 else 0)"
    and "length (xf_buf l) = 512" and "xf_idx l mod 4 = 2"
    and "block_outcome env qs bss ess l2 l'" and "\<forall>q' \<in> set qs. is_read q' = rnw"
  shows "block_outcome env (q # qs) (bits # bss) (es # ess) l l'"
proof -
  have first: "list_all2 access_drives (q # qs) (es # ess)" "length (bits # bss) = length (q # qs)"
    "\<forall>b \<in> set (bits # bss). length b = 35"
    "samples env (bus (xf_jtag l')) = samples env (bus (xf_jtag l)) @ concat (bits # bss)"
    "wires (concat (es # ess)) (xf_jtag l) (xf_jtag l')"
    using assms(1,2,4,5,11) by (auto simp: block_outcome_def wires_def)
  show ?thesis
  proof (cases "rnw \<and> xf_idx l + 4 < 512")
    case True
    then have room: "block_room (xf_idx l) = Suc (block_room (xf_idx l2))"
      using assms(7) block_room_step [of "xf_idx l"] by simp
    have "2 + xf_idx l + 4 \<le> 512"
      by (rule block_room_fits) (use True assms(10) in simp_all)
    then have fits: "2 + xf_idx l + length (drop 1 (pack_lsb bits)) \<le> length (xf_buf l)"
      using assms(9) length_drop_pack_35 [OF assms(2)] by simp
    let ?rest = "read_bytes (take (block_room (xf_idx l2)) qs) (take (block_room (xf_idx l2)) bss)"
    have "xf_buf l' = overwritten (2 + xf_idx l) (xf_buf l) (drop 1 (pack_lsb bits) @ ?rest)"
      using overwritten_append [OF fits, of ?rest] assms(6,7,11) True length_drop_pack_35 [OF assms(2)]
      by (simp add: block_outcome_def Let_def add.assoc)
    moreover have "(4 + m) div 4 = Suc (m div 4)" for m :: nat by simp
    ultimately show ?thesis
      using first True assms(3,7,8,11) room
      by (simp add: block_outcome_def Let_def read_bytes_Cons length_pack_35 [OF assms(2)])
  next
    case False
    then consider "\<not> rnw" | "\<not> xf_idx l + 4 < 512" by blast
    then show ?thesis
    proof cases
      case 1
      have "read_bytes (take m (q # qs)) (take m (bits # bss)) = []" "read_bytes (take m qs) (take m bss) = []"
        for m
        using 1 assms(3,12) set_take_subset [of m "q # qs"] set_take_subset [of m qs]
        by (intro read_bytes_writes; force)+
      with 1 first assms(6,7,8,11) show ?thesis
        by (simp add: block_outcome_def Let_def)
    next
      case 2
      then have "block_room (xf_idx l) = 0" by (simp add: block_room_def)
      with 2 first assms(6,7,8,11) show ?thesis
        by (simp add: block_outcome_def Let_def read_bytes_def)
    qed
  qed
qed

lemma block_loop_outcome:
  assumes "req_len \<le> length req" and "pos \<le> req_len" and "\<not> tck_pin (bus (xf_jtag l))"
    and "length (xf_buf l) = 512" and "xf_idx l mod 4 = 2"
  shows "\<exists>l' bss ess. block_loop env req req_len ap rnw n a pos l = Some l' \<and>
    block_outcome env (block_accesses n ap rnw a (drop pos (take req_len req))) bss ess l l'"
  using assms
proof (induction n arbitrary: a pos l)
  case 0
  then show ?case
    by (intro exI [of _ l] exI [of _ "[]"]) (simp add: block_outcome_def read_bytes_def wires_def)
next
  case (Suc n)
  let ?st = "rnw \<and> xf_idx l + 4 < 512"
  from block_step [OF Suc.prems(2,1,3-5), of env ap rnw n a] obtain q bits es k l2 where s:
    "block_loop env req req_len ap rnw (Suc n) a pos l =
       block_loop env req req_len ap rnw n ((a + 1) AND 0x03) (pos + k) l2" "pos + k \<le> req_len"
    "block_accesses (Suc n) ap rnw a (drop pos (take req_len req)) =
       q # block_accesses n ap rnw ((a + 1) AND 0x03) (drop (pos + k) (take req_len req))"
    "access_drives q es" "length bits = 35" "is_read q = rnw"
    "samples env (bus (xf_jtag l2)) = samples env (bus (xf_jtag l)) @ bits"
    "wires es (xf_jtag l) (xf_jtag l2)"
    "xf_buf l2 = overwritten (2 + xf_idx l) (xf_buf l) (if ?st then drop 1 (pack_lsb bits) else [])"
    "xf_idx l2 = xf_idx l + (if ?st then 4 else 0)" "xf_count l2 = xf_count l + (if ?st then 1 else 0)"
    by blast
  have "2 + xf_idx l + 4 \<le> 512" if ?st
    using that Suc.prems(5) by (intro block_room_fits) simp_all
  then have len: "length (xf_buf l2) = 512"
    using Suc.prems(4) length_drop_pack_35 [OF s(5)] by (auto simp: s(9) length_overwritten)
  have idx: "xf_idx l2 mod 4 = 2" using Suc.prems(5) by (simp add: s(10))
  from Suc.IH [OF Suc.prems(1) s(2) wires_low [OF s(8)] len idx] obtain l' bss ess where r:
    "block_loop env req req_len ap rnw n ((a + 1) AND 0x03) (pos + k) l2 = Some l'"
    "block_outcome env (block_accesses n ap rnw ((a + 1) AND 0x03) (drop (pos + k) (take req_len req)))
       bss ess l2 l'" by blast
  have "block_outcome env (q # block_accesses n ap rnw ((a + 1) AND 0x03)
      (drop (pos + k) (take req_len req))) (bits # bss) (es # ess) l l'"
    by (rule block_outcome_step [OF s(4-11) Suc.prems(4,5) r(2)]) (auto dest: block_accesses_reads)
  with s(1) r(1) show ?case unfolding s(3) by (intro exI conjI) simp_all
qed

definition block_request :: "u8 list \<Rightarrow> nat \<Rightarrow> access list" where
  "block_request req req_len =
     block_accesses (unat (req ! 2)) (bit (req ! 3) 0) (bit (req ! 3) 1) (drop_bit 2 (req ! 3) AND 0x03)
       (drop 4 (take req_len req))"

lemma dap_handle_transfer_block_result:
  assumes "length (resp_buffer d) = 512" and "\<not> tck_pin (bus (dev d))" and "unat n \<le> length req"
    and "5 \<le> unat n"
  shows "\<exists>bss ess j. let qs = block_request req (unat n);
      bs = read_bytes (take 127 qs) (take 127 bss) in
    dap_handle_transfer_block env req n d = Some (of_nat (2 + length bs), d\<lparr>
      resp_buffer := (overwritten 4 (resp_buffer d) bs)[0 := DAP_CMD_TRANSFER_BLOCK,
        1 := of_nat (length bs div 4)],
      dev := j\<rparr>) \<and>
    list_all2 access_drives qs ess \<and> length bss = length qs \<and> (\<forall>bits \<in> set bss. length bits = 35) \<and>
    samples env (bus j) = samples env (bus (dev d)) @ concat bss \<and>
    wires (concat ess) (dev d) j \<and>
    length bs = (if bit (req ! 3) 1 then 4 * min 127 (unat (req ! 2)) else 0)"
proof -
  let ?l = "\<lparr>xf_jtag = dev d, xf_count = 0, xf_status = DAP_OK, xf_idx = 2, xf_buf = resp_buffer d\<rparr>"
  let ?qs = "block_request req (unat n)"
  let ?run = "block_loop env req (unat n) (bit (req ! 3) 0) (bit (req ! 3) 1) (unat (req ! 2))
      (drop_bit 2 (req ! 3) AND 0x03) 4 ?l"
  have "\<exists>l' bss ess. ?run = Some l' \<and> block_outcome env ?qs bss ess ?l l'"
    unfolding block_request_def using assms by (intro block_loop_outcome) simp_all
  then obtain l' bss ess where run: "?run = Some l'" and out: "block_outcome env ?qs bss ess ?l l'" by blast
  let ?bs = "read_bytes (take 127 ?qs) (take 127 bss)"
  have room: "block_room 2 = 127" by (simp add: block_room_def)
  have kinds: "is_read q = bit (req ! 3) 1" if "q \<in> set ?qs" for q
    using that by (auto simp: block_request_def dest: block_accesses_reads)
  have "length ?bs = 4 * length (filter is_read (take 127 ?qs))"
    using out by (intro length_read_bytes) (auto simp: block_outcome_def dest: in_set_takeD)
  also have "filter is_read (take 127 ?qs) = (if bit (req ! 3) 1 then take 127 ?qs else [])"
    using kinds by (auto simp: filter_empty_conv filter_id_conv dest: in_set_takeD)
  finally have len: "length ?bs = (if bit (req ! 3) 1 then 4 * min 127 (unat (req ! 2)) else 0)"
    by (simp add: block_request_def min.commute)
  have buf: "xf_buf l' = overwritten 4 (resp_buffer d) ?bs"
    and idx: "xf_idx l' = 2 + length ?bs" and cnt: "xf_count l' = of_nat (length ?bs div 4)"
    using out by (simp_all add: block_outcome_def Let_def room)
  have "length (xf_buf l') = 512"
    using assms(1) len by (simp add: buf length_overwritten)
  then have "dap_handle_transfer_block env req n d = Some (of_nat (xf_idx l'), d\<lparr>
      resp_buffer := (xf_buf l')[0 := DAP_CMD_TRANSFER_BLOCK, 1 := xf_count l'], dev := xf_jtag l'\<rparr>)"
    using run assms(3,4)
    by (simp add: dap_handle_transfer_block_def buf_simps Let_def word_less_nat_alt flag_masks)
  then show ?thesis
    using out len
    by (intro exI [of _ bss] exI [of _ ess] exI [of _ "xf_jtag l'"])
      (simp add: buf idx cnt block_outcome_def Let_def room)
qed

lemma dap_handle_transfer_block_short:
  assumes "length (resp_buffer d) = 512" and "unat n < 5"
  shows "dap_handle_transfer_block env req n d =
    Some (2, d\<lparr>resp_buffer := (resp_buffer d)[0 := DAP_CMD_TRANSFER_BLOCK, 1 := DAP_OK]\<rparr>)"
  using assms by (simp add: dap_handle_transfer_block_def handler_simps word_less_nat_alt)

interpretation transfer_block_cmd: dap_command dap_handle_transfer_block 510
proof unfold_locales
  fix d req n env assume inv: "dap_inv d" and len: "length (req :: u8 list) = 64"
    and "0 < (n :: u32)" and n: "unat n \<le> 64"
  show "\<exists>len d'. dap_handle_transfer_block env req n d = Some (len, d') \<and> dap_inv d' \<and>
      2 \<le> unat len \<and> unat len \<le> 510"
  proof (cases "5 \<le> unat n")
    case True
    then obtain bs ess j where out: "dap_handle_transfer_block env req n d =
        Some (of_nat (2 + length bs), d\<lparr>resp_buffer := (overwritten 4 (resp_buffer d) bs)
          [0 := DAP_CMD_TRANSFER_BLOCK, 1 := of_nat (length bs div 4)], dev := j\<rparr>)"
      and w: "wires (concat ess) (dev d) j"
      and few: "length bs = (if bit (req ! 3) 1 then 4 * min 127 (unat (req ! 2)) else 0)"
      using dap_handle_transfer_block_result [of d n req env] inv len n
      by (auto simp: dap_inv_def Let_def)
    have "length ((overwritten 4 (resp_buffer d) bs)
        [0 := DAP_CMD_TRANSFER_BLOCK, 1 := of_nat (length bs div 4)]) = 512"
      using few inv by (simp add: length_overwritten dap_inv_buffer)
    note inv' = dap_inv_wires [OF inv w this]
    have small: "length bs \<le> 508" using few by auto
    then have "unat (of_nat (2 + length bs) :: u32) = 2 + length bs"
      by (simp only: unat_of_nat) simp
    with small have "2 \<le> unat (of_nat (2 + length bs) :: u32)"
      "unat (of_nat (2 + length bs) :: u32) \<le> 510" by linarith+
    note bounds = this
    show ?thesis
      by (intro exI conjI, rule out, rule inv', rule bounds(1), rule bounds(2))
  next
    case False
    with dap_handle_transfer_block_short [of d n env req] inv show ?thesis
      by (simp add: dap_inv_buffer)
  qed
qed simp

subsection \<open>Properties of the transfer commands\<close>

lemma long_list:
  "6 \<le> length xs \<Longrightarrow> \<exists>a0 a1 a2 a3 a4 a5 r. xs = a0 # a1 # a2 # a3 # a4 # a5 # r"
  by (auto simp: Suc_le_length_iff numeral_eq_Suc)

lemma transfer_outcomes:
  assumes "dap_inv d" and "5 \<le> unat n" and "unat n \<le> 64" and "length req = 64"
    and "h \<in> {dap_handle_transfer, dap_handle_transfer_block}"
  shows "\<exists>len d' qs ess. h env req n d = Some (len, d') \<and> list_all2 access_drives qs ess \<and>
    wires (concat ess) (dev d) (dev d')"
proof -
  have d: "length (resp_buffer d) = 512" "\<not> tck_pin (bus (dev d))" "unat n \<le> length req"
    using assms(1,3,4) by (simp_all add: dap_inv_def)
  consider "h = dap_handle_transfer" | "h = dap_handle_transfer_block" using assms(5) by blast
  then show ?thesis
  proof cases
    case 1
    from dap_handle_transfer_result [OF d assms(2,3), of env]
    show ?thesis unfolding 1 by (auto simp: Let_def) fastforce
  next
    case 2
    from dap_handle_transfer_block_result [OF d assms(2), of env]
    show ?thesis unfolding 2 by (auto simp: Let_def) fastforce
  qed
qed

text \<open>
  C11: neither transfer command ever takes the target's TAP through Shift-DR, whatever the request
  and whatever state the TAP starts in: \<open>jtag_goto_state (0x04)\<close>, the call the code comments DR-SHIFT,
  ends in Run-Test/Idle, so the 35 bits are clocked there and no debug register is read or written.
\<close>

theorem transfer_never_shifts_dr:
  assumes "tap_controller nxt" and "dap_inv d" and "5 \<le> unat n" and "unat n \<le> 64" and "length req = 64"
    and "h \<in> {dap_handle_transfer, dap_handle_transfer_block}"
  shows "\<exists>len d' es. h env req n d = Some (len, d') \<and> wires es (dev d) (dev d') \<and>
    TAP_DR_SHIFT \<notin> set (tap_visits nxt s es)"
  using transfer_outcomes [OF assms(2-6), of env] tap_controller.visits_accesses [OF assms(1)] by blast

theorem transfer_never_shifts_dr_witness:
  "\<exists>len d' es. dap_handle_transfer (\<lambda>_. 0xFFFFFFFF) ([0x31, 0, 2, 0x02, 0x03] @ replicate 59 0) 5 dap_initial =
      Some (len, d') \<and> wires es (dev dap_initial) (dev d') \<and>
    TAP_DR_SHIFT \<notin> set (tap_visits tap_next TAP_DR_CAPTURE es)"
  using transfer_never_shifts_dr [OF tap.tap_controller_axioms dap_inv_initial,
      of 5 "[0x31, 0, 2, 0x02, 0x03] @ replicate 59 0" dap_handle_transfer]
  by simp

text \<open>
  C12: DAP_TRANSFER performs the accesses of the request in order, one 35-bit capture each, and
  reports their number of reads and the status; but the data bytes of the reads are stored three
  bytes further on than the answer has them (\<open>resp_data\<close> is \<open>&resp_buffer[3]\<close> and its index starts at
  3 too): in an answer of \<open>3 + 4 r\<close> bytes, bytes 3 to 5 are what the buffer held before, and the last
  three data bytes lie behind the end.
\<close>

theorem transfer_answer_layout:
  assumes "dap_inv d" and "5 \<le> unat n" and "unat n \<le> 64" and "length req = 64"
  shows "\<exists>bss len d'. let qs = transfer_accesses req (unat n); bs = read_bytes qs bss in
    dap_handle_transfer env req n d = Some (len, d') \<and> length bss = length qs \<and>
    samples env (bus (dev d')) = samples env (bus (dev d)) @ concat bss \<and>
    unat len = 3 + length bs \<and> length bs = 4 * length (filter is_read qs) \<and>
    take 3 (resp_buffer d') = [0x31, of_nat (length (filter is_read qs)),
      transfer_status (unat (req ! 2)) qs bss DAP_OK] \<and>
    take 3 (drop 3 (resp_buffer d')) = take 3 (drop 3 (resp_buffer d)) \<and>
    take (length bs) (drop 6 (resp_buffer d')) = bs"
proof -
  have d: "length (resp_buffer d) = 512" "\<not> tck_pin (bus (dev d))" "unat n \<le> length req"
    using assms(1,3,4) by (simp_all add: dap_inv_def)
  let ?qs = "transfer_accesses req (unat n)"
  from dap_handle_transfer_result [OF d assms(2,3), of env] obtain bss ess j where r:
    "dap_handle_transfer env req n d = Some (3 + of_nat (length (read_bytes ?qs bss)), d\<lparr>
      resp_buffer := (overwritten 6 (resp_buffer d) (read_bytes ?qs bss))[0 := DAP_CMD_TRANSFER,
        1 := of_nat (length (filter is_read ?qs)), 2 := transfer_status (unat (req ! 2)) ?qs bss DAP_OK],
      dev := j\<rparr>)"
    "length bss = length ?qs" "\<forall>bits \<in> set bss. length bits = 35"
    "samples env (bus j) = samples env (bus (dev d)) @ concat bss"
    "length (read_bytes ?qs bss) \<le> 4 * (unat n - 3)" by (auto simp: Let_def)
  have un: "unat (3 + of_nat (length (read_bytes ?qs bss)) :: u32) = 3 + length (read_bytes ?qs bss)"
    using r(5) assms(3) by (intro unat_small_sum) linarith
  obtain a0 a1 a2 a3 a4 a5 rest where buf: "resp_buffer d = a0 # a1 # a2 # a3 # a4 # a5 # rest"
    using long_list [of "resp_buffer d"] d(1) by auto
  show ?thesis
    unfolding Let_def
    by (rule exI [of _ bss], rule exI, rule exI, rule conjI, rule r(1))
      (simp add: r(2,4) un [unfolded length_read_bytes [OF r(2,3)], simplified]
        length_read_bytes [OF r(2,3)] buf overwritten_def drop_Cons' take_Cons')
qed

theorem transfer_answer_layout_witness:
  "\<exists>len d'. dap_handle_transfer (\<lambda>_. 0) (0x31 # 0 # 1 # 0x02 # 0 # replicate 59 0) 5 dap_initial =
      Some (len, d') \<and> unat len = 7 \<and> take 3 (drop 3 (resp_buffer d')) = [0, 0, 0]"
proof -
  let ?req = "0x31 # 0 # 1 # 0x02 # 0 # replicate 59 0 :: u8 list"
  have "transfer_accesses ?req 5 = [Access False True 0 0]"
    by (simp add: transfer_accesses_def)
  moreover have "5 \<le> unat (5 :: u32)" "unat (5 :: u32) \<le> 64" "length ?req = 64" by simp_all
  note transfer_answer_layout [OF dap_inv_initial this, of "\<lambda>_. 0"]
  ultimately show ?thesis by (auto simp: Let_def dap_initial_def numeral_3_eq_3)
qed

lemma request_byte_bits:
  "bit (0x01 OR push_bit 1 (a AND 0x03) :: u8) k \<longleftrightarrow>
     k = 0 \<or> (k = 1 \<and> bit a 0) \<or> (k = 2 \<and> bit a 1)"
proof -
  have three: "(3 :: u8) = mask 2" by (simp add: mask_eq_exp_minus_1)
  show ?thesis
    unfolding three bit_or_iff bit_push_bit_iff bit_and_iff bit_mask_iff bit_1_iff
    by (cases k; cases "k - 1") auto
qed

lemma write_scan_data:
  assumes "i < 27"
  shows "packed_bit (dr_request False a w) (i + 8) = bit w i"
proof -
  obtain k where k: "k = i div 8" by blast
  with assms consider "k = 0" | "k = 1" | "k = 2" | "k = 3" by linarith
  then have "dr_request False a w ! Suc k = byte_of k w"
    by cases (simp_all add: dr_request_def Let_def)
  then have "dr_request False a w ! Suc (i div 8) = byte_of (i div 8) w" by (simp only: k)
  moreover have "(i + 8) div 8 = Suc (i div 8)" "(i + 8) mod 8 = i mod 8" by simp_all
  ultimately show ?thesis by (simp add: packed_bit_def bit_byte_of)
qed

lemma write_scan_bits:
  "unpack_lsb 35 (dr_request False a w) =
     [True, bit a 0, bit a 1, False, False, False, False, False] @ map (bit w) [0..<27]"
proof -
  have "[0..<35 :: nat] = [0..<8] @ map (\<lambda>i. i + 8) [0..<27]"
    using upt_add_eq_append [of 0 8 27] by (simp add: map_add_upt)
  then have "unpack_lsb 35 (dr_request False a w) =
      map (packed_bit (dr_request False a w)) [0..<8] @
      map (\<lambda>i. packed_bit (dr_request False a w) (i + 8)) [0..<27]"
    by (simp add: unpack_lsb_def comp_def)
  also have "map (\<lambda>i. packed_bit (dr_request False a w) (i + 8)) [0..<27] = map (bit w) [0..<27]"
    by (intro map_cong) (simp_all add: write_scan_data)
  also have "map (packed_bit (dr_request False a w)) [0..<8] = map (bit (0x01 OR push_bit 1 (a AND 0x03))) [0..<8]"
    by (intro map_cong) (simp_all add: packed_bit_def dr_request_def Let_def)
  also have "\<dots> = [True, bit a 0, bit a 1, False, False, False, False, False]"
    unfolding request_byte_bits by (simp add: upt_rec)
  finally show ?thesis .
qed

lemma read_word_short:
  assumes "length bits = 35"
  shows "\<exists>v. drop 1 (pack_lsb bits) = [byte_of 0 v, byte_of 1 v, byte_of 2 v, byte_of 3 v] \<and>
    take_bit 27 v = v"
proof -
  let ?b = "byte_of_bits (drop 32 bits)"
  have split: "pack_lsb bits = pack_lsb (take 32 bits) @ [?b]"
    using assms pack_lsb_append [of "take 32 bits" "drop 32 bits"] pack_lsb_short [of "drop 32 bits"]
    by simp
  have "length (pack_lsb (take 32 bits)) = 4" using assms by (simp add: length_pack_lsb)
  then obtain p0 p1 p2 p3 where p: "pack_lsb (take 32 bits) = [p0, p1, p2, p3]"
    by (auto simp: length_Suc_conv numeral_eq_Suc)
  have "take_bit 27 (le32 p1 p2 p3 ?b) = le32 p1 p2 p3 ?b"
    using assms
    by (intro bit_word_eqI)
      (auto simp: bit_take_bit_iff le32_def bit_simps bit_byte_of_bits dest: bit_imp_le_length)
  then show ?thesis
    by (intro exI [of _ "le32 p1 p2 p3 ?b"]) (simp add: split p byte_of_le32 byte_of_le32(2) [unfolded One_nat_def])
qed

text \<open>
  the request and the answer of the 35-bit scan are laid out as five bytes with the data in
  bytes 1 to 4, so five of the 32 data bits never take part: the scan of a write carries the start
  bit, A[3:2], RnW, four zero bits and only bits 0 to 26 of the data, and the word that a read stores
  has bits 27 to 31 zero whatever the target answers.
\<close>

theorem scan_drops_five_data_bits:
  assumes "length bits = 35" and "length buf = 512"
  shows "unpack_lsb 35 (dr_request False a w) =
      [True, bit a 0, bit a 1, False, False, False, False, False] @ map (bit w) [0..<27] \<and>
    (\<exists>v. put_le32 3 3 (pack_lsb bits) buf =
        Some (overwritten 6 buf [byte_of 0 v, byte_of 1 v, byte_of 2 v, byte_of 3 v]) \<and> take_bit 27 v = v)"
  using put_le32_result [OF length_pack_35 [OF assms(1)], of 3 3 buf] read_word_short [OF assms(1)]
    write_scan_bits assms(2) by auto

theorem scan_drops_five_data_bits_witness:
  "\<exists>v. put_le32 3 3 (pack_lsb (replicate 35 True)) (replicate 512 0) =
     Some (overwritten 6 (replicate 512 0) [byte_of 0 v, byte_of 1 v, byte_of 2 v, byte_of 3 v]) \<and>
     take_bit 27 v = v"
  using scan_drops_five_data_bits [of "replicate 35 True" "replicate 512 0"] by simp

text \<open>
  C13: a block read of 16 words or more overruns the caller's report buffer. The answer of
  DAP_TRANSFER_BLOCK to a read of \<open>c\<close> words has \<open>2 + 4 min (127, c)\<close> bytes; \<open>dap_process_command\<close>
  copies them although only \<open>DAP_MAX_RESP_SIZE\<close> bounds the copy, so with a 64-byte report the copy
  stays inside the report exactly when \<open>c \<le> 15\<close>.
\<close>

theorem block_read_overruns_report:
  assumes "dap_inv d" and "length req = 64" and "5 \<le> unat n" and "unat n \<le> 64" and "length out = 64"
    and "req ! 0 = 0x32" and "bit (req ! 3) 1"
  shows "(dap_process_command env (Some req) n (Some out) d = None \<longleftrightarrow> 16 \<le> unat (req ! 2)) \<and>
    (\<exists>len d'. dap_handle_transfer_block env req n d = Some (len, d') \<and>
       unat len = 2 + 4 * min 127 (unat (req ! 2)))"
proof -
  have d: "length (resp_buffer d) = 512" "\<not> tck_pin (bus (dev d))" "unat n \<le> length req" "0 < n"
    using assms(1-4) by (simp_all add: dap_inv_def word_less_nat_alt)
  from dap_handle_transfer_block_result [OF d(1-3) assms(3), of env] obtain len d' k where h:
    "dap_handle_transfer_block env req n d = Some (of_nat (2 + k), d')" "k = 4 * min 127 (unat (req ! 2))"
    using assms(7) by (auto simp: Let_def)
  have un: "unat (of_nat (2 + k) :: u32) = 2 + k"
    using h(2) by (simp only: unat_of_nat) simp
  have "map_of dap_cmd_table (req ! 0) = Some dap_handle_transfer_block"
    by (simp add: assms(6) dap_cmd_table_def)
  from transfer_block_cmd.delivered_or_overrun [OF assms(1,2) d(4) assms(4,5) this, of env] h(1) un
  have "dap_process_command env (Some req) n (Some out) d = None \<longleftrightarrow> \<not> 2 + k \<le> 64"
    by (auto split: if_splits)
  moreover have "\<not> 2 + k \<le> 64 \<longleftrightarrow> 16 \<le> unat (req ! 2)" using h(2) by auto
  ultimately show ?thesis using h un by auto
qed

theorem block_read_overruns_report_witness:
  "dap_process_command (\<lambda>_. 0) (Some (0x32 # 0 # 16 # 0x02 # replicate 60 0)) 64 (Some (replicate 64 0))
     dap_initial = None"
  using block_read_overruns_report [OF dap_inv_initial, of "0x32 # 0 # 16 # 0x02 # replicate 60 0" 64
      "replicate 64 0" "\<lambda>_. 0"]
  by (simp add: bit_2_iff)

end
