(* ===== verification/Board.thy ===== *)
theory Board imports Prelude begin

text \<open>
  The board side of the USB device, project/CMSIS_DAPv2/src/main.c: interrupt controller, external
  interrupt line and clock set-up, and the pull-up of the D+ line. The calls into the vendor's
  peripheral library are events, newest first; the register \<open>DP_CTRL\<close> that main.c writes itself is
  state.
\<close>

datatype functional_state = ENABLE | DISABLE

datatype irqn = USB_LP_IRQn | USBWakeUp_IRQn

datatype usbclk_src = RCC_USBCLK_SRC_PLLCLK_DIV1 | RCC_USBCLK_SRC_PLLCLK_DIV1_5 | RCC_USBCLK_SRC_PLLCLK_DIV2

datatype error_status = ERROR | SUCCESS

datatype board_io =
    NvicPriorityGroupConfig nat
  | NvicInit irqn u8 u8 functional_state
  | ExtiClrITPendBit nat
  | ExtiInitRisingInterrupt nat functional_state
  | RccConfigUsbClk usbclk_src
  | RccEnableApb1Usb functional_state
  | DpCtrlWrite u32

record board =
  board_calls :: "board_io list"
  DP_CTRL :: u32

definition call :: "board_io \<Rightarrow> board \<Rightarrow> board" where
  "call c b = b\<lparr>board_calls := c # board_calls b\<rparr>"

definition EnPortPullup :: "board \<Rightarrow> board" where
  "EnPortPullup b = (let v = DP_CTRL b OR 0x02000000 in call (DpCtrlWrite v) (b\<lparr>DP_CTRL := v\<rparr>))"

definition DisPortPullup :: "board \<Rightarrow> board" where
  "DisPortPullup b = (let v = DP_CTRL b AND 0xFDFFFFFF in call (DpCtrlWrite v) (b\<lparr>DP_CTRL := v\<rparr>))"

definition USB_Interrupts_Config :: "board \<Rightarrow> board" where
  "USB_Interrupts_Config b =
     (let b = call (NvicPriorityGroupConfig 2) b;
          b = call (NvicInit USB_LP_IRQn 1 0 ENABLE) b;
          b = call (NvicInit USBWakeUp_IRQn 0 0 ENABLE) b;
          b = call (ExtiClrITPendBit 17) b
      in call (ExtiInitRisingInterrupt 17 ENABLE) b)"

definition Set_USBClock :: "u32 \<Rightarrow> board \<Rightarrow> error_status \<times> board" where
  "Set_USBClock sysclk b =
     (if sysclk = 48000000 then (SUCCESS, call (RccConfigUsbClk RCC_USBCLK_SRC_PLLCLK_DIV1) b)
      else if sysclk = 72000000 then (SUCCESS, call (RccConfigUsbClk RCC_USBCLK_SRC_PLLCLK_DIV1_5) b)
      else if sysclk = 96000000 then (SUCCESS, call (RccConfigUsbClk RCC_USBCLK_SRC_PLLCLK_DIV2) b)
      else (ERROR, b))"

definition USB_Config :: "u32 \<Rightarrow> board \<Rightarrow> error_status \<times> board" where
  "USB_Config sysclk b =
     (let b = USB_Interrupts_Config b; (st, b) = Set_USBClock sysclk b
      in if st = SUCCESS then (SUCCESS, call (RccEnableApb1Usb ENABLE) b) else (ERROR, b))"

definition usb_dc_low_level_init :: "board \<Rightarrow> board" where
  "usb_dc_low_level_init b =
     (let b = USB_Interrupts_Config b; (st, b) = USB_Config 96000000 b in EnPortPullup b)"

definition usb_dc_low_level_deinit :: "board \<Rightarrow> board" where
  "usb_dc_low_level_deinit b = DisPortPullup b"

subsection \<open>Properties\<close>

definition usbclk_khz :: "usbclk_src \<Rightarrow> u32 \<Rightarrow> nat" where
  "usbclk_khz src sysclk = (case src of
     RCC_USBCLK_SRC_PLLCLK_DIV1 \<Rightarrow> unat sysclk div 1000
   | RCC_USBCLK_SRC_PLLCLK_DIV1_5 \<Rightarrow> unat sysclk * 2 div 3 div 1000
   | RCC_USBCLK_SRC_PLLCLK_DIV2 \<Rightarrow> unat sysclk div 2 div 1000)"

text \<open>
  \<open>USB_Config\<close> succeeds exactly for the three system clocks it knows, and then the last two
  calls select the divider that gives the 48 MHz the USB peripheral needs and enable its clock; on
  any other system clock it selects nothing and leaves the peripheral's clock alone.
\<close>

theorem usb_config_48MHz:
  "(fst (USB_Config sysclk b) = SUCCESS \<longleftrightarrow> sysclk \<in> {48000000, 72000000, 96000000}) \<and>
   (case USB_Config sysclk b of
      (SUCCESS, b') \<Rightarrow> \<exists>src. board_calls b' = RccEnableApb1Usb ENABLE # RccConfigUsbClk src #
          board_calls (USB_Interrupts_Config b) \<and> usbclk_khz src sysclk = 48000
    | (ERROR, b') \<Rightarrow> b' = USB_Interrupts_Config b)"
  by (auto simp: USB_Config_def Set_USBClock_def Let_def call_def usbclk_khz_def split: error_status.split)

end
