(* ===== verification/UsbDc.thy ===== *)
theory UsbDc imports Board begin

text \<open>
  The USB device controller port of CherryUSB (port/fsdev/usb_dc_fsdev.c and the PCD macros of
  usb_fsdev_reg.h): the endpoint registers, the packet memory with its buffer table, and the driver
  functions that the core calls. The peripheral's registers have the write behaviour that
  usb_fsdev_reg.h names for their fields: the status and data toggle bits of an endpoint register are
  toggled by writing 1, its two correct-transfer bits are cleared by writing 0, SETUP is read only.
\<close>

subsection \<open>Registers and packet memory\<close>

text \<open>\<open>PMA\<close> is the packet memory of \<open>USB_RAM_SIZE\<close> = 512 bytes as 256 half words.\<close>

record usb_regs =
  EPR :: "u16 list"
  CNTR :: u16
  ISTR :: u16
  DADDR :: u16
  BTABLE :: u16
  PMA :: "u16 list"

abbreviation (input) USB_EP_CTR_RX :: u16 where "USB_EP_CTR_RX \<equiv> 0x8000"

abbreviation (input) USB_EP_DTOG_RX :: u16 where "USB_EP_DTOG_RX \<equiv> 0x4000"

abbreviation (input) USB_EPRX_STAT :: u16 where "USB_EPRX_STAT \<equiv> 0x3000"

abbreviation (input) USB_EP_SETUP :: u16 where "USB_EP_SETUP \<equiv> 0x0800"

abbreviation (input) USB_EP_CTR_TX :: u16 where "USB_EP_CTR_TX \<equiv> 0x0080"

abbreviation (input) USB_EP_DTOG_TX :: u16 where "USB_EP_DTOG_TX \<equiv> 0x0040"

abbreviation (input) USB_EPTX_STAT :: u16 where "USB_EPTX_STAT \<equiv> 0x0030"

definition USB_EPREG_MASK :: u16 where
  "USB_EPREG_MASK = 0x8000 OR 0x0800 OR 0x0600 OR 0x0100 OR 0x0080 OR 0x000F"

definition USB_EP_T_MASK :: u16 where "USB_EP_T_MASK = NOT 0x0600 AND USB_EPREG_MASK"

definition USB_EPKIND_MASK :: u16 where "USB_EPKIND_MASK = NOT 0x0100 AND USB_EPREG_MASK"

definition USB_EPTX_DTOGMASK :: u16 where "USB_EPTX_DTOGMASK = 0x0030 OR USB_EPREG_MASK"

definition USB_EPRX_DTOGMASK :: u16 where "USB_EPRX_DTOGMASK = 0x3000 OR USB_EPREG_MASK"

lemmas ep_masks = USB_EPREG_MASK_def USB_EP_T_MASK_def USB_EPKIND_MASK_def USB_EPTX_DTOGMASK_def
  USB_EPRX_DTOGMASK_def

text \<open>The hardware's reaction to a write of \<open>v\<close> to an endpoint register that holds \<open>old\<close>.\<close>

definition epr_write :: "u16 \<Rightarrow> u16 \<Rightarrow> u16" where
  "epr_write old v =
     ((old XOR v) AND 0x7070) OR ((old AND v) AND 0x8080) OR (old AND 0x0800) OR (v AND 0x070F)"

definition PCD_GET_ENDPOINT :: "nat \<Rightarrow> usb_regs \<Rightarrow> u16 option" where
  "PCD_GET_ENDPOINT i r = rd (EPR r) i"

definition PCD_SET_ENDPOINT :: "nat \<Rightarrow> u16 \<Rightarrow> usb_regs \<Rightarrow> usb_regs option" where
  "PCD_SET_ENDPOINT i v r =
     do { old \<leftarrow> rd (EPR r) i; eprs \<leftarrow> wr (EPR r) i (epr_write old v); Some (r\<lparr>EPR := eprs\<rparr>) }"

definition PCD_SET_EPTYPE :: "nat \<Rightarrow> u16 \<Rightarrow> usb_regs \<Rightarrow> usb_regs option" where
  "PCD_SET_EPTYPE i wType r =
     do { v \<leftarrow> PCD_GET_ENDPOINT i r;
          PCD_SET_ENDPOINT i ((v AND USB_EP_T_MASK) OR wType OR USB_EP_CTR_TX OR USB_EP_CTR_RX) r }"

definition PCD_SET_EP_TX_STATUS :: "nat \<Rightarrow> u16 \<Rightarrow> usb_regs \<Rightarrow> usb_regs option" where
  "PCD_SET_EP_TX_STATUS i wState r =
     do { v \<leftarrow> PCD_GET_ENDPOINT i r;
          let v = v AND USB_EPTX_DTOGMASK;
          let v = (if 0x0010 AND wState \<noteq> 0 then v XOR 0x0010 else v);
          let v = (if 0x0020 AND wState \<noteq> 0 then v XOR 0x0020 else v);
          PCD_SET_ENDPOINT i (v OR USB_EP_CTR_RX OR USB_EP_CTR_TX) r }"

definition PCD_SET_EP_RX_STATUS :: "nat \<Rightarrow> u16 \<Rightarrow> usb_regs \<Rightarrow> usb_regs option" where
  "PCD_SET_EP_RX_STATUS i wState r =
     do { v \<leftarrow> PCD_GET_ENDPOINT i r;
          let v = v AND USB_EPRX_DTOGMASK;
          let v = (if 0x1000 AND wState \<noteq> 0 then v XOR 0x1000 else v);
          let v = (if 0x2000 AND wState \<noteq> 0 then v XOR 0x2000 else v);
          PCD_SET_ENDPOINT i (v OR USB_EP_CTR_RX OR USB_EP_CTR_TX) r }"

definition PCD_CLEAR_RX_EP_CTR :: "nat \<Rightarrow> usb_regs \<Rightarrow> usb_regs option" where
  "PCD_CLEAR_RX_EP_CTR i r =
     do { v \<leftarrow> PCD_GET_ENDPOINT i r;
          PCD_SET_ENDPOINT i ((v AND (0x7FFF AND USB_EPREG_MASK)) OR USB_EP_CTR_TX) r }"

definition PCD_CLEAR_TX_EP_CTR :: "nat \<Rightarrow> usb_regs \<Rightarrow> usb_regs option" where
  "PCD_CLEAR_TX_EP_CTR i r =
     do { v \<leftarrow> PCD_GET_ENDPOINT i r;
          PCD_SET_ENDPOINT i ((v AND (0xFF7F AND USB_EPREG_MASK)) OR USB_EP_CTR_RX) r }"

definition PCD_RX_DTOG :: "nat \<Rightarrow> usb_regs \<Rightarrow> usb_regs option" where
  "PCD_RX_DTOG i r =
     do { v \<leftarrow> PCD_GET_ENDPOINT i r;
          PCD_SET_ENDPOINT i ((v AND USB_EPREG_MASK) OR USB_EP_CTR_RX OR USB_EP_CTR_TX OR USB_EP_DTOG_RX) r }"

definition PCD_TX_DTOG :: "nat \<Rightarrow> usb_regs \<Rightarrow> usb_regs option" where
  "PCD_TX_DTOG i r =
     do { v \<leftarrow> PCD_GET_ENDPOINT i r;
          PCD_SET_ENDPOINT i ((v AND USB_EPREG_MASK) OR USB_EP_CTR_RX OR USB_EP_CTR_TX OR USB_EP_DTOG_TX) r }"

definition PCD_CLEAR_RX_DTOG :: "nat \<Rightarrow> usb_regs \<Rightarrow> usb_regs option" where
  "PCD_CLEAR_RX_DTOG i r =
     do { v \<leftarrow> PCD_GET_ENDPOINT i r;
          if v AND USB_EP_DTOG_RX \<noteq> 0 then PCD_RX_DTOG i r else Some r }"

definition PCD_CLEAR_TX_DTOG :: "nat \<Rightarrow> usb_regs \<Rightarrow> usb_regs option" where
  "PCD_CLEAR_TX_DTOG i r =
     do { v \<leftarrow> PCD_GET_ENDPOINT i r;
          if v AND USB_EP_DTOG_TX \<noteq> 0 then PCD_TX_DTOG i r else Some r }"

definition PCD_SET_EP_ADDRESS :: "nat \<Rightarrow> u16 \<Rightarrow> usb_regs \<Rightarrow> usb_regs option" where
  "PCD_SET_EP_ADDRESS i bAddr r =
     do { v \<leftarrow> PCD_GET_ENDPOINT i r;
          PCD_SET_ENDPOINT i (((v AND USB_EPREG_MASK) OR bAddr) OR USB_EP_CTR_RX OR USB_EP_CTR_TX) r }"

subsection \<open>The buffer table\<close>

text \<open>
  The packet memory appears to the CPU as one half word in each 32-bit word (\<open>PMA_ACCESS\<close> = 2), from
  offset 0x400 of the peripheral on: CPU offset \<open>off\<close> of that area is half word \<open>off / 4\<close>. An offset
  that hits no half word is an access to nothing.
\<close>

definition pma_word :: "nat \<Rightarrow> nat option" where
  "pma_word off = (if off mod 4 = 0 \<and> off div 4 < 256 then Some (off div 4) else None)"

definition pma_get :: "nat \<Rightarrow> usb_regs \<Rightarrow> u16 option" where
  "pma_get off r = do { k \<leftarrow> pma_word off; rd (PMA r) k }"

definition pma_set :: "nat \<Rightarrow> u16 \<Rightarrow> usb_regs \<Rightarrow> usb_regs option" where
  "pma_set off v r = do { k \<leftarrow> pma_word off; p \<leftarrow> wr (PMA r) k v; Some (r\<lparr>PMA := p\<rparr>) }"

definition PCD_SET_EP_TX_ADDRESS :: "nat \<Rightarrow> u32 \<Rightarrow> usb_regs \<Rightarrow> usb_regs option" where
  "PCD_SET_EP_TX_ADDRESS i wAddr r =
     pma_set (unat (BTABLE r) + i * 8 * 2) (ucast (push_bit 1 (drop_bit 1 wAddr))) r"

definition PCD_SET_EP_RX_ADDRESS :: "nat \<Rightarrow> u32 \<Rightarrow> usb_regs \<Rightarrow> usb_regs option" where
  "PCD_SET_EP_RX_ADDRESS i wAddr r =
     pma_set (unat (BTABLE r) + (i * 8 + 4) * 2) (ucast (push_bit 1 (drop_bit 1 wAddr))) r"

definition PCD_SET_EP_TX_CNT :: "nat \<Rightarrow> u16 \<Rightarrow> usb_regs \<Rightarrow> usb_regs option" where
  "PCD_SET_EP_TX_CNT i wCount r = pma_set (unat (BTABLE r) + (i * 8 + 2) * 2) wCount r"

definition PCD_GET_EP_TX_CNT :: "nat \<Rightarrow> usb_regs \<Rightarrow> u32 option" where
  "PCD_GET_EP_TX_CNT i r =
     do { v \<leftarrow> pma_get ((unat (BTABLE r) + i * 8 + 2) * 2) r; Some (ucast v AND 0x3FF) }"

definition PCD_GET_EP_RX_CNT :: "nat \<Rightarrow> usb_regs \<Rightarrow> u32 option" where
  "PCD_GET_EP_RX_CNT i r =
     do { v \<leftarrow> pma_get ((unat (BTABLE r) + i * 8 + 6) * 2) r; Some (ucast v AND 0x3FF) }"

text \<open>The receive counter register: the buffer size as a number of blocks of 2 or of 32 bytes.\<close>

definition PCD_CALC_BLK32 :: "u32 \<Rightarrow> u16" where
  "PCD_CALC_BLK32 wCount =
     (let wNBlocks = drop_bit 5 wCount;
          wNBlocks = (if wCount AND 0x1F = 0 then wNBlocks - 1 else wNBlocks)
      in ucast (push_bit 10 wNBlocks OR 0x8000))"

definition PCD_CALC_BLK2 :: "u32 \<Rightarrow> u16" where
  "PCD_CALC_BLK2 wCount =
     (let wNBlocks = drop_bit 1 wCount;
          wNBlocks = (if wCount AND 0x1 \<noteq> 0 then wNBlocks + 1 else wNBlocks)
      in ucast (push_bit 10 wNBlocks))"

definition PCD_SET_EP_CNT_RX_REG :: "u16 \<Rightarrow> u32 \<Rightarrow> u16" where
  "PCD_SET_EP_CNT_RX_REG reg wCount =
     (if wCount = 0 then (reg AND NOT 0x7C00) OR 0x8000
      else if wCount \<le> 62 then PCD_CALC_BLK2 wCount else PCD_CALC_BLK32 wCount)"

definition PCD_SET_EP_RX_CNT :: "nat \<Rightarrow> u16 \<Rightarrow> usb_regs \<Rightarrow> usb_regs option" where
  "PCD_SET_EP_RX_CNT i wCount r =
     (let off = unat (BTABLE r) + (i * 8 + 6) * 2 in
      do { reg \<leftarrow> pma_get off r; pma_set off (PCD_SET_EP_CNT_RX_REG reg (ucast wCount)) r })"

subsection \<open>Driver state\<close>

record usb_dc_ep_state =
  ep_mps :: u16
  ep_type :: u8
  ep_stalled :: u8
  ep_pma_buf_len :: u16
  ep_pma_addr :: u16

text \<open>
  \<open>usb_dc_cfg\<close>, the peripheral and the board. \<open>overread\<close> is the byte that lies behind the object being
  sent: \<open>USB_WritePMA\<close> reads pairs of bytes, so it reads one byte too many when the length is odd. It
  is arbitrary and no code changes it.
\<close>

record usb_dc =
  USB :: usb_regs
  dev_addr :: u8
  pma_offset :: u32
  in_ep :: "usb_dc_ep_state list"
  out_ep :: "usb_dc_ep_state list"
  overread :: u8
  brd :: board

record usbd_endpoint_cfg =
  cfg_ep_addr :: u8
  cfg_ep_mps :: u16
  cfg_ep_type :: u8

definition on_usb :: "(usb_regs \<Rightarrow> usb_regs option) \<Rightarrow> usb_dc \<Rightarrow> usb_dc option" where
  "on_usb f d = do { r \<leftarrow> f (USB d); Some (d\<lparr>USB := r\<rparr>) }"

definition zero_ep :: usb_dc_ep_state where
  "zero_ep = \<lparr>ep_mps = 0, ep_type = 0, ep_stalled = 0, ep_pma_buf_len = 0, ep_pma_addr = 0\<rparr>"

definition USB_EP_GET_IDX :: "u8 \<Rightarrow> nat" where "USB_EP_GET_IDX ep = unat (ep AND NOT 0x80)"

definition USB_EP_DIR_IS_OUT :: "u8 \<Rightarrow> bool" where "USB_EP_DIR_IS_OUT ep \<longleftrightarrow> ep AND 0x80 = 0"

abbreviation (input) USB_BTABLE_SIZE :: u32 where "USB_BTABLE_SIZE \<equiv> 64"

subsection \<open>Initialisation\<close>

text \<open>
  A write to \<open>ISTR\<close> clears the event flags written as 0. What the peripheral does on a write to
  \<open>CNTR\<close> (a forced reset) is the parameter \<open>force\<close> of the functions that set its FRES bit.
\<close>

definition write_ISTR :: "u16 \<Rightarrow> usb_regs \<Rightarrow> usb_regs" where
  "write_ISTR v r = r\<lparr>ISTR := ISTR r AND v\<rparr>"

definition usb_dc_init :: "(usb_regs \<Rightarrow> usb_regs) \<Rightarrow> usb_dc \<Rightarrow> int \<times> usb_dc" where
  "usb_dc_init force d =
     (let d = d\<lparr>dev_addr := 0, pma_offset := 0, in_ep := replicate 8 zero_ep, out_ep := replicate 8 zero_ep\<rparr>;
          d = d\<lparr>pma_offset := USB_BTABLE_SIZE\<rparr>;
          d = d\<lparr>brd := usb_dc_low_level_init (brd d)\<rparr>;
          r = force ((USB d)\<lparr>CNTR := 0x0001\<rparr>);
          r = r\<lparr>CNTR := 0\<rparr>;
          r = write_ISTR 0 r;
          r = r\<lparr>BTABLE := 0\<rparr>;
          winterruptmask = 0x8000 OR 0x1000 OR 0x0800 OR 0x2000 OR 0x0200 OR 0x0100 OR 0x0400;
          r = r\<lparr>CNTR := winterruptmask\<rparr>
      in (0, d\<lparr>USB := r\<rparr>))"

definition usb_dc_deinit :: "(usb_regs \<Rightarrow> usb_regs) \<Rightarrow> usb_dc \<Rightarrow> int \<times> usb_dc" where
  "usb_dc_deinit force d =
     (let r = force ((USB d)\<lparr>CNTR := 0x0001\<rparr>);
          r = write_ISTR 0 r;
          r = r\<lparr>CNTR := 0x0001 OR 0x0002\<rparr>
      in (0, d\<lparr>USB := r, brd := usb_dc_low_level_deinit (brd d)\<rparr>))"

definition usbd_set_address :: "u8 \<Rightarrow> usb_dc \<Rightarrow> int \<times> usb_dc" where
  "usbd_set_address addr d =
     (let d = (if addr = 0 then d\<lparr>USB := (USB d)\<lparr>DADDR := 0x0080\<rparr>\<rparr> else d)
      in (0, d\<lparr>dev_addr := addr\<rparr>))"

subsection \<open>Endpoints\<close>

text \<open>The two halves of \<open>usbd_ep_open\<close>, after the type and the address are set.\<close>

definition ep_open_out :: "usbd_endpoint_cfg \<Rightarrow> nat \<Rightarrow> usb_dc \<Rightarrow> (int \<times> usb_dc) option" where
  "ep_open_out c i d =
     do { e \<leftarrow> rd (out_ep d) i;
          let e = e\<lparr>ep_mps := cfg_ep_mps c, ep_type := cfg_ep_type c\<rparr>;
          let d = d\<lparr>out_ep := (out_ep d)[i := e]\<rparr>;
          (rc, d) \<leftarrow>
            (if ep_mps e > ep_pma_buf_len e
             then if pma_offset d + ucast (ep_mps e) \<ge> 512 then Some (-1, d)
                  else do {
                    let e = e\<lparr>ep_pma_buf_len := cfg_ep_mps c, ep_pma_addr := ucast (pma_offset d)\<rparr>;
                    let d = d\<lparr>out_ep := (out_ep d)[i := e]\<rparr>;
                    d \<leftarrow> on_usb (PCD_SET_EP_RX_ADDRESS i (pma_offset d)) d;
                    Some (0, d\<lparr>pma_offset := pma_offset d + ucast (cfg_ep_mps c)\<rparr>) }
             else Some (0 :: int, d));
          if rc < 0 then Some (rc, d)
          else do {
            d \<leftarrow> on_usb (PCD_SET_EP_RX_CNT i (cfg_ep_mps c)) d;
            d \<leftarrow> on_usb (PCD_CLEAR_RX_DTOG i) d;
            d \<leftarrow> on_usb (PCD_SET_EP_RX_STATUS i 0x3000) d;
            Some (0, d) } }"

definition ep_open_in :: "usbd_endpoint_cfg \<Rightarrow> nat \<Rightarrow> usb_dc \<Rightarrow> (int \<times> usb_dc) option" where
  "ep_open_in c i d =
     do { e \<leftarrow> rd (in_ep d) i;
          let e = e\<lparr>ep_mps := cfg_ep_mps c, ep_type := cfg_ep_type c\<rparr>;
          let d = d\<lparr>in_ep := (in_ep d)[i := e]\<rparr>;
          (rc, d) \<leftarrow>
            (if ep_mps e > ep_pma_buf_len e
             then if pma_offset d + ucast (ep_mps e) \<ge> 512 then Some (-1, d)
                  else do {
                    let e = e\<lparr>ep_pma_buf_len := cfg_ep_mps c, ep_pma_addr := ucast (pma_offset d)\<rparr>;
                    let d = d\<lparr>in_ep := (in_ep d)[i := e]\<rparr>;
                    d \<leftarrow> on_usb (PCD_SET_EP_TX_ADDRESS i (pma_offset d)) d;
                    Some (0, d\<lparr>pma_offset := pma_offset d + ucast (cfg_ep_mps c)\<rparr>) }
             else Some (0 :: int, d));
          if rc < 0 then Some (rc, d)
          else do {
            d \<leftarrow> on_usb (PCD_CLEAR_TX_DTOG i) d;
            d \<leftarrow> on_usb (PCD_SET_EP_TX_STATUS i (if cfg_ep_type c \<noteq> 1 then 0x0020 else 0x0000)) d;
            Some (0, d) } }"

text \<open>The endpoint type bits; for any other type \<open>wEpRegVal\<close> is read uninitialised.\<close>

definition ep_type_bits :: "u8 \<Rightarrow> u16 option" where
  "ep_type_bits ty =
     (if ty = 0 then Some 0x0200 else if ty = 2 then Some 0x0000
      else if ty = 3 then Some 0x0600 else if ty = 1 then Some 0x0400 else None)"

definition usbd_ep_open :: "usbd_endpoint_cfg \<Rightarrow> usb_dc \<Rightarrow> (int \<times> usb_dc) option" where
  "usbd_ep_open c d =
     do { let i = USB_EP_GET_IDX (cfg_ep_addr c);
          wEpRegVal \<leftarrow> ep_type_bits (cfg_ep_type c);
          d \<leftarrow> on_usb (PCD_SET_EPTYPE i wEpRegVal) d;
          d \<leftarrow> on_usb (PCD_SET_EP_ADDRESS i (of_nat i)) d;
          if USB_EP_DIR_IS_OUT (cfg_ep_addr c) then ep_open_out c i d else ep_open_in c i d }"

definition usbd_ep_close :: "u8 \<Rightarrow> usb_dc \<Rightarrow> (int \<times> usb_dc) option" where
  "usbd_ep_close ep d =
     (let i = USB_EP_GET_IDX ep in
      if USB_EP_DIR_IS_OUT ep
      then do { d \<leftarrow> on_usb (PCD_CLEAR_RX_DTOG i) d; d \<leftarrow> on_usb (PCD_SET_EP_RX_STATUS i 0x0000) d; Some (0, d) }
      else do { d \<leftarrow> on_usb (PCD_CLEAR_TX_DTOG i) d; d \<leftarrow> on_usb (PCD_SET_EP_TX_STATUS i 0x0000) d; Some (0, d) })"

definition usbd_ep_set_stall :: "u8 \<Rightarrow> usb_dc \<Rightarrow> (int \<times> usb_dc) option" where
  "usbd_ep_set_stall ep d =
     (let i = USB_EP_GET_IDX ep in
      do { d \<leftarrow> (if USB_EP_DIR_IS_OUT ep then on_usb (PCD_SET_EP_RX_STATUS i 0x1000) d
                 else on_usb (PCD_SET_EP_TX_STATUS i 0x0010) d);
           Some (0, d) })"

definition usbd_ep_clear_stall :: "u8 \<Rightarrow> usb_dc \<Rightarrow> (int \<times> usb_dc) option" where
  "usbd_ep_clear_stall ep d =
     (let i = USB_EP_GET_IDX ep in
      if USB_EP_DIR_IS_OUT ep
      then do { d \<leftarrow> on_usb (PCD_CLEAR_TX_DTOG i) d;
                e \<leftarrow> rd (in_ep d) i;
                d \<leftarrow> (if ep_type e \<noteq> 1 then on_usb (PCD_SET_EP_TX_STATUS i 0x0020) d else Some d);
                Some (0, d) }
      else do { d \<leftarrow> on_usb (PCD_CLEAR_RX_DTOG i) d;
                d \<leftarrow> on_usb (PCD_SET_EP_RX_STATUS i 0x3000) d; Some (0, d) })"

text \<open>\<open>usbd_ep_is_stalled\<close> returns 0 and writes nothing to \<open>*stalled\<close>.\<close>

definition usbd_ep_is_stalled :: "u8 \<Rightarrow> usb_dc \<Rightarrow> int \<times> usb_dc" where
  "usbd_ep_is_stalled ep d = (0, d)"

subsection \<open>Packets\<close>

definition USB_WritePMA :: "u8 \<Rightarrow> u8 list \<Rightarrow> u16 \<Rightarrow> u16 \<Rightarrow> usb_regs \<Rightarrow> usb_regs option" where
  "USB_WritePMA behind pBuf wPMABufAddr wNBytes r =
     for_each (\<lambda>k r.
        do { temp1 \<leftarrow> rd (pBuf @ [behind]) (2 * k);
             b \<leftarrow> rd (pBuf @ [behind]) (2 * k + 1);
             pma_set (unat wPMABufAddr * 2 + 4 * k) (ucast temp1 OR push_bit 8 (ucast b)) r })
       [0..<(unat wNBytes + 1) div 2] r"

definition USB_ReadPMA :: "u16 \<Rightarrow> u16 \<Rightarrow> usb_regs \<Rightarrow> u8 list \<Rightarrow> u8 list option" where
  "USB_ReadPMA wPMABufAddr wNBytes r pBuf =
     do { buf \<leftarrow> for_each (\<lambda>k buf.
              do { temp \<leftarrow> pma_get (unat wPMABufAddr * 2 + 4 * k) r;
                   buf \<leftarrow> wr buf (2 * k) (ucast (temp AND 0xFF));
                   wr buf (2 * k + 1) (ucast (drop_bit 8 temp AND 0xFF)) })
            [0..<unat wNBytes div 2] pBuf;
          if unat wNBytes mod 2 \<noteq> 0
          then do { temp \<leftarrow> pma_get (unat wPMABufAddr * 2 + 4 * (unat wNBytes div 2)) r;
                    wr buf (2 * (unat wNBytes div 2)) (ucast (temp AND 0xFF)) }
          else Some buf }"

text \<open>
  \<open>data\<close> is the object from the pointer on, or null; \<open>ret_bytes\<close> is the value stored through that
  pointer when one is stored.
\<close>

definition usbd_ep_write ::
  "u8 \<Rightarrow> u8 list option \<Rightarrow> u32 \<Rightarrow> usb_dc \<Rightarrow> (int \<times> u32 option \<times> usb_dc) option" where
  "usbd_ep_write ep src data_len d =
     (let i = USB_EP_GET_IDX ep in
      if src = None \<and> data_len \<noteq> 0 then Some (-1, None, d)
      else if data_len = 0
      then do { d \<leftarrow> on_usb (PCD_SET_EP_TX_CNT i 0) d;
                d \<leftarrow> on_usb (PCD_SET_EP_TX_STATUS i 0x0030) d;
                Some (0, None, d) }
      else do {
        e \<leftarrow> rd (in_ep d) i;
        let data_len = (if data_len > ucast (ep_mps e) then ucast (ep_mps e) else data_len);
        d \<leftarrow> on_usb (USB_WritePMA (overread d) (the src) (ep_pma_addr e) (ucast data_len)) d;
        d \<leftarrow> on_usb (PCD_SET_EP_TX_CNT i (ucast data_len)) d;
        d \<leftarrow> on_usb (PCD_SET_EP_TX_STATUS i 0x0030) d;
        Some (0, Some data_len, d) })"

definition usbd_ep_read ::
  "u8 \<Rightarrow> u8 list option \<Rightarrow> u32 \<Rightarrow> usb_dc \<Rightarrow> (int \<times> u8 list option \<times> u32 option \<times> usb_dc) option" where
  "usbd_ep_read ep dst max_data_len d =
     (let i = USB_EP_GET_IDX ep in
      if dst = None \<and> max_data_len \<noteq> 0 then Some (-1, dst, None, d)
      else if max_data_len = 0
      then do { d \<leftarrow> (if i \<noteq> 0 then on_usb (PCD_SET_EP_RX_STATUS i 0x3000) d else Some d);
                Some (0, dst, None, d) }
      else do {
        read_count \<leftarrow> PCD_GET_EP_RX_CNT i (USB d);
        let read_count = min read_count max_data_len;
        e \<leftarrow> rd (out_ep d) i;
        buf \<leftarrow> USB_ReadPMA (ep_pma_addr e) (ucast read_count) (USB d) (the dst);
        Some (0, Some buf, Some read_count, d) })"

end
