(* ===== verification/UsbDcFacts.thy ===== *)
theory UsbDcFacts imports UsbDc begin

text \<open>
  The controller port against its purpose: each endpoint macro sets exactly its field of one register
  in spite of the toggle and write-zero bits (locale \<open>epr_op\<close>, interpreted on every macro), a packet
  written to the packet memory is read back as it was, and the endpoint functions keep the state
  well formed.
\<close>

subsection \<open>Single bits of a register\<close>

lemma and_pow2: "k = 2 ^ m \<Longrightarrow> m < 16 \<Longrightarrow> s AND k = (if bit s m then k else 0)" for k :: u16
  by (auto simp: bit_eq_iff [where 'a = u16] bit_simps)

lemma toggle_if:
  "(if 0x0010 AND s \<noteq> 0 then v XOR 0x0010 else v) = v XOR (s AND 0x0010)"
  "(if 0x0020 AND s \<noteq> 0 then v XOR 0x0020 else v) = v XOR (s AND 0x0020)"
  "(if 0x1000 AND s \<noteq> 0 then v XOR 0x1000 else v) = v XOR (s AND 0x1000)"
  "(if 0x2000 AND s \<noteq> 0 then v XOR 0x2000 else v) = v XOR (s AND 0x2000)"
  for s v :: u16
  using and_pow2 [of "0x0010" 4 s] and_pow2 [of "0x0020" 5 s] and_pow2 [of "0x1000" 12 s]
    and_pow2 [of "0x2000" 13 s]
  by (simp_all add: and.commute)

lemma dtog_if:
  "(if v AND 0x4000 \<noteq> 0 then v XOR 0x4000 else v) = v AND NOT 0x4000"
  "(if v AND 0x0040 \<noteq> 0 then v XOR 0x0040 else v) = v AND NOT 0x0040" for v :: u16
  using and_pow2 [of "0x4000" 14 v] and_pow2 [of "0x0040" 6 v]
  by (auto split: if_splits intro!: u16_eqI simp: bit_simps)

subsection \<open>The endpoint macros\<close>

text \<open>
  The contract: the operation acts on one endpoint register by \<open>f\<close>, faults on an endpoint the
  peripheral does not have, and never drops or invents a pending transfer.
\<close>

definition pending_bits :: "u16 \<Rightarrow> u16" where "pending_bits v = v AND 0x8080"

locale epr_op =
  fixes op :: "nat \<Rightarrow> usb_regs \<Rightarrow> usb_regs option" and f :: "u16 \<Rightarrow> u16"
  assumes acts: "op i r =
      (if i < length (EPR r) then Some (r\<lparr>EPR := (EPR r)[i := f (EPR r ! i)]\<rparr>) else None)"
    and clears: "pending_bits (f v) AND NOT (pending_bits v) = 0"
begin

lemma total: "i < length (EPR r) \<Longrightarrow> op i r = Some (r\<lparr>EPR := (EPR r)[i := f (EPR r ! i)]\<rparr>)"
  by (simp add: acts)

lemma faults: "length (EPR r) \<le> i \<Longrightarrow> op i r = None"
  by (simp add: acts)

lemma frame:
  "op i r = Some r' \<Longrightarrow> PMA r' = PMA r \<and> BTABLE r' = BTABLE r \<and> CNTR r' = CNTR r \<and> ISTR r' = ISTR r \<and>
     DADDR r' = DADDR r \<and> length (EPR r') = length (EPR r)"
  by (auto simp: acts split: if_splits)

lemma pending_mono:
  "op i r = Some r' \<Longrightarrow> pending_bits (EPR r' ! k) AND NOT (pending_bits (EPR r ! k)) = 0"
  by (auto simp: acts nth_list_update clears split: if_splits)

end

text \<open>The fields of an endpoint register, by what setting or clearing them does to it.\<close>

definition set_stat_tx :: "u16 \<Rightarrow> u16 \<Rightarrow> u16" where "set_stat_tx s v = (v AND NOT 0x0030) OR (s AND 0x0030)"

definition set_stat_rx :: "u16 \<Rightarrow> u16 \<Rightarrow> u16" where "set_stat_rx s v = (v AND NOT 0x3000) OR (s AND 0x3000)"

definition clear_ctr_rx :: "u16 \<Rightarrow> u16" where "clear_ctr_rx v = v AND NOT 0x8000"

definition clear_ctr_tx :: "u16 \<Rightarrow> u16" where "clear_ctr_tx v = v AND NOT 0x0080"

definition flip_dtog_rx :: "u16 \<Rightarrow> u16" where "flip_dtog_rx v = v XOR 0x4000"

definition flip_dtog_tx :: "u16 \<Rightarrow> u16" where "flip_dtog_tx v = v XOR 0x0040"

definition clear_dtog_rx :: "u16 \<Rightarrow> u16" where "clear_dtog_rx v = v AND NOT 0x4000"

definition clear_dtog_tx :: "u16 \<Rightarrow> u16" where "clear_dtog_tx v = v AND NOT 0x0040"

definition set_ep_type :: "u16 \<Rightarrow> u16 \<Rightarrow> u16" where "set_ep_type t v = (v AND NOT 0x0600) OR (t AND 0x0600)"

definition or_ep_address :: "u16 \<Rightarrow> u16 \<Rightarrow> u16" where "or_ep_address a v = v OR (a AND 0x000F)"

lemmas field_defs = set_stat_tx_def set_stat_rx_def clear_ctr_rx_def clear_ctr_tx_def flip_dtog_rx_def
  flip_dtog_tx_def clear_dtog_rx_def clear_dtog_tx_def set_ep_type_def or_ep_address_def

lemma epr_values:
  "epr_write v ((((v AND USB_EPTX_DTOGMASK) XOR (s AND 0x0010)) XOR (s AND 0x0020)) OR 0x8000 OR 0x0080) = set_stat_tx s v"
  "epr_write v ((((v AND USB_EPRX_DTOGMASK) XOR (s AND 0x1000)) XOR (s AND 0x2000)) OR 0x8000 OR 0x0080) = set_stat_rx s v"
  "epr_write v ((v AND (0x7FFF AND USB_EPREG_MASK)) OR 0x0080) = clear_ctr_rx v"
  "epr_write v ((v AND (0xFF7F AND USB_EPREG_MASK)) OR 0x8000) = clear_ctr_tx v"
  "epr_write v ((v AND USB_EPREG_MASK) OR 0x8000 OR 0x0080 OR 0x4000) = flip_dtog_rx v"
  "epr_write v ((v AND USB_EPREG_MASK) OR 0x8000 OR 0x0080 OR 0x0040) = flip_dtog_tx v"
  "epr_write v ((v AND USB_EP_T_MASK) OR (t AND 0x0600) OR 0x0080 OR 0x8000) = set_ep_type t v"
  "epr_write v (((v AND USB_EPREG_MASK) OR (a AND 0x000F)) OR 0x8000 OR 0x0080) = or_ep_address a v"
  by (rule u16_eqI; auto simp: epr_write_def ep_masks field_defs bit_simps)+

lemma clear_dtog_eq:
  "clear_dtog_rx v = (if v AND 0x4000 \<noteq> 0 then flip_dtog_rx v else v)"
  "clear_dtog_tx v = (if v AND 0x0040 \<noteq> 0 then flip_dtog_tx v else v)"
  unfolding field_defs by (rule dtog_if [symmetric])+

lemma pending_values [simp]:
  "pending_bits (set_stat_tx s v) = pending_bits v"
  "pending_bits (set_stat_rx s v) = pending_bits v"
  "pending_bits (clear_ctr_rx v) = pending_bits v AND NOT 0x8000"
  "pending_bits (clear_ctr_tx v) = pending_bits v AND NOT 0x0080"
  "pending_bits (flip_dtog_rx v) = pending_bits v"
  "pending_bits (flip_dtog_tx v) = pending_bits v"
  "pending_bits (clear_dtog_rx v) = pending_bits v"
  "pending_bits (clear_dtog_tx v) = pending_bits v"
  "pending_bits (set_ep_type t v) = pending_bits v"
  "pending_bits (or_ep_address a v) = pending_bits v"
  by (rule u16_eqI; auto simp: pending_bits_def field_defs bit_simps)+

lemma and_not_self [simp]: "x AND NOT x = 0" "(x AND y) AND NOT x = 0" for x :: u16
  by (auto simp: bit_eq_iff [where 'a = u16] bit_simps)

lemmas pcd_defs = PCD_GET_ENDPOINT_def PCD_SET_ENDPOINT_def rd_def wr_def toggle_if Let_def
  epr_values [simplified]

interpretation tx_status: epr_op "\<lambda>i. PCD_SET_EP_TX_STATUS i s" "set_stat_tx s" for s
  by unfold_locales (simp_all add: PCD_SET_EP_TX_STATUS_def pcd_defs)

interpretation rx_status: epr_op "\<lambda>i. PCD_SET_EP_RX_STATUS i s" "set_stat_rx s" for s
  by unfold_locales (simp_all add: PCD_SET_EP_RX_STATUS_def pcd_defs)

interpretation clear_rx_ctr: epr_op PCD_CLEAR_RX_EP_CTR clear_ctr_rx
  by unfold_locales (simp add: PCD_CLEAR_RX_EP_CTR_def pcd_defs, simp only: pending_values and_not_self)

interpretation clear_tx_ctr: epr_op PCD_CLEAR_TX_EP_CTR clear_ctr_tx
  by unfold_locales (simp add: PCD_CLEAR_TX_EP_CTR_def pcd_defs, simp only: pending_values and_not_self)

interpretation rx_dtog: epr_op PCD_RX_DTOG flip_dtog_rx
  by unfold_locales (simp_all add: PCD_RX_DTOG_def pcd_defs)

interpretation tx_dtog: epr_op PCD_TX_DTOG flip_dtog_tx
  by unfold_locales (simp_all add: PCD_TX_DTOG_def pcd_defs)

interpretation clear_rx_dtog: epr_op PCD_CLEAR_RX_DTOG clear_dtog_rx
  by unfold_locales
    (auto simp: PCD_CLEAR_RX_DTOG_def PCD_GET_ENDPOINT_def rd_def rx_dtog.acts clear_dtog_eq)

interpretation clear_tx_dtog: epr_op PCD_CLEAR_TX_DTOG clear_dtog_tx
  by unfold_locales
    (auto simp: PCD_CLEAR_TX_DTOG_def PCD_GET_ENDPOINT_def rd_def tx_dtog.acts clear_dtog_eq)

interpretation set_type: epr_op "\<lambda>i. PCD_SET_EPTYPE i (t AND 0x0600)" "set_ep_type t" for t
  by unfold_locales (simp_all add: PCD_SET_EPTYPE_def pcd_defs)

interpretation set_address: epr_op "\<lambda>i. PCD_SET_EP_ADDRESS i (a AND 0x000F)" "or_ep_address a" for a
  by unfold_locales (simp_all add: PCD_SET_EP_ADDRESS_def pcd_defs)

subsection \<open>Packets in the packet memory\<close>

definition pma_byte :: "usb_regs \<Rightarrow> nat \<Rightarrow> u8" where
  "pma_byte r a =
     (let w = PMA r ! (a div 2) in if even a then ucast (w AND 0xFF) else ucast (drop_bit 8 w AND 0xFF))"

definition pma_bytes :: "usb_regs \<Rightarrow> nat \<Rightarrow> nat \<Rightarrow> u8 list" where
  "pma_bytes r a n = map (\<lambda>j. pma_byte r (a + j)) [0..<n]"

lemma length_pma_bytes [simp]: "length (pma_bytes r a n) = n"
  by (simp add: pma_bytes_def)

lemma half_word_bytes:
  fixes x y :: u8
  shows "ucast (((ucast x :: u16) OR push_bit 8 (ucast y)) AND 0xFF) = x"
    and "ucast (drop_bit 8 ((ucast x :: u16) OR push_bit 8 (ucast y)) AND 0xFF) = y"
proof -
  have m: "(0xFF :: u16) = mask 8" by (simp add: mask_eq_exp_minus_1)
  show "ucast (((ucast x :: u16) OR push_bit 8 (ucast y)) AND 0xFF) = x"
    unfolding m by (rule bit_word_eqI) (auto simp: bit_simps dest: bit_imp_le_length)
  show "ucast (drop_bit 8 ((ucast x :: u16) OR push_bit 8 (ucast y)) AND 0xFF) = y"
    unfolding m by (rule bit_word_eqI) (auto simp: bit_simps dest: bit_imp_le_length)
qed

lemma pma_word_at: "even a \<Longrightarrow> a div 2 + k < 256 \<Longrightarrow> pma_word (a * 2 + 4 * k) = Some (a div 2 + k)"
  by (auto simp: pma_word_def elim!: evenE)

definition write_half :: "u8 list \<Rightarrow> nat \<Rightarrow> u16" where
  "write_half s k = ucast (s ! (2 * k)) OR push_bit 8 (ucast (s ! (2 * k + 1)))"

lemma write_step:
  assumes "even a" and "a div 2 + k < length (PMA r)" and "length (PMA r) = 256" and "2 * k + 1 < length s"
  shows "do { temp1 \<leftarrow> rd s (2 * k); b \<leftarrow> rd s (2 * k + 1);
      pma_set (a * 2 + 4 * k) (ucast temp1 OR push_bit 8 (ucast b)) r } =
    Some (r\<lparr>PMA := (PMA r)[a div 2 + k := write_half s k]\<rparr>)"
  using assms pma_word_at [of a k] by (simp add: pma_set_def rd_def wr_def write_half_def)

lemma USB_WritePMA_result:
  assumes "length (PMA r) = 256" and "even (unat addr)" and "unat addr + unat n \<le> 512"
    and "unat n \<le> length src"
  shows "\<exists>p. USB_WritePMA behind src addr n r = Some (r\<lparr>PMA := p\<rparr>) \<and> length p = 256 \<and>
    (\<forall>j < 256. p ! j = (if unat addr div 2 \<le> j \<and> j < unat addr div 2 + (unat n + 1) div 2
       then write_half (src @ [behind]) (j - unat addr div 2) else PMA r ! j))"
proof -
  let ?a = "unat addr div 2" and ?s = "src @ [behind]"
  let ?P = "\<lambda>i r'. \<exists>p. r' = r\<lparr>PMA := p\<rparr> \<and> length p = 256 \<and>
    (\<forall>j < 256. p ! j = (if ?a \<le> j \<and> j < ?a + i then write_half ?s (j - ?a) else PMA r ! j))"
  have "\<exists>r'. USB_WritePMA behind src addr n r = Some r' \<and> ?P ((unat n + 1) div 2) r'"
    unfolding USB_WritePMA_def
  proof (rule for_each_upt)
    have "r = r\<lparr>PMA := PMA r\<rparr>" by simp
    then show "?P 0 r" using assms(1) by fastforce
  next
    fix i and r' :: usb_regs assume i: "i < (unat n + 1) div 2" and "?P i r'"
    then obtain p where p: "r' = r\<lparr>PMA := p\<rparr>" "length p = 256"
      "\<forall>j < 256. p ! j = (if ?a \<le> j \<and> j < ?a + i then write_half ?s (j - ?a) else PMA r ! j)" by blast
    have "?a + i < 256" using assms(2,3) i by presburger
    moreover have "2 * i + 1 < length ?s" using assms(4) i by simp
    ultimately have "do { temp1 \<leftarrow> rd ?s (2 * i); b \<leftarrow> rd ?s (2 * i + 1);
        pma_set (unat addr * 2 + 4 * i) (ucast temp1 OR push_bit 8 (ucast b)) r' } =
        Some (r'\<lparr>PMA := (PMA r')[?a + i := write_half ?s i]\<rparr>)"
      using p(1,2) by (intro write_step [OF assms(2)]) simp_all
    moreover have "?P (Suc i) (r'\<lparr>PMA := (PMA r')[?a + i := write_half ?s i]\<rparr>)"
      using p \<open>?a + i < 256\<close>
      by (intro exI [of _ "p[?a + i := write_half ?s i]"]) (auto simp: nth_list_update less_Suc_eq)
    ultimately show "\<exists>r''. do { temp1 \<leftarrow> rd ?s (2 * i); b \<leftarrow> rd ?s (2 * i + 1);
        pma_set (unat addr * 2 + 4 * i) (ucast temp1 OR push_bit 8 (ucast b)) r' } = Some r'' \<and> ?P (Suc i) r''"
      by blast
  qed
  then show ?thesis by blast
qed

text \<open>A packet written is the packet the peripheral sends, and everything else is as it was.\<close>

lemma USB_WritePMA_packet:
  assumes "length (PMA r) = 256" and "even (unat addr)" and "unat addr + unat n \<le> 512"
    and "unat n \<le> length src"
  obtains p where "USB_WritePMA behind src addr n r = Some (r\<lparr>PMA := p\<rparr>)" "length p = 256"
    "pma_bytes (r\<lparr>PMA := p\<rparr>) (unat addr) (unat n) = take (unat n) src"
    "\<And>j. j < 256 \<Longrightarrow> j < unat addr div 2 \<or> unat addr div 2 + (unat n + 1) div 2 \<le> j \<Longrightarrow> p ! j = PMA r ! j"
proof -
  let ?a = "unat addr div 2"
  from USB_WritePMA_result [OF assms, of behind] obtain p where p:
    "USB_WritePMA behind src addr n r = Some (r\<lparr>PMA := p\<rparr>)" "length p = 256"
    "\<forall>j < 256. p ! j = (if ?a \<le> j \<and> j < ?a + (unat n + 1) div 2
       then write_half (src @ [behind]) (j - ?a) else PMA r ! j)" by blast
  have byte: "pma_byte (r\<lparr>PMA := p\<rparr>) (unat addr + j) = src ! j" if "j < unat n" for j
  proof -
    have idx: "(unat addr + j) div 2 = ?a + j div 2" and par: "even (unat addr + j) \<longleftrightarrow> even j"
      using assms(2) by (auto elim!: evenE)
    have "?a + j div 2 < 256" "j div 2 < (unat n + 1) div 2" using assms(2,3) that by presburger+
    then have "p ! (?a + j div 2) = write_half (src @ [behind]) (j div 2)" using p(3) by simp
    moreover have "(src @ [behind]) ! j = src ! j" using that assms(4) by (simp add: nth_append)
    moreover have "ucast (write_half s k AND 0xFF) = s ! (2 * k)"
      "ucast (drop_bit 8 (write_half s k) AND 0xFF) = s ! (2 * k + 1)" for s k
      unfolding write_half_def by (rule half_word_bytes)+
    moreover have "PMA (r\<lparr>PMA := p\<rparr>) = p" by simp
    ultimately show ?thesis
      unfolding pma_byte_def Let_def idx par by (cases "even j") (simp_all only: if_True if_False, simp_all)
  qed
  have "pma_bytes (r\<lparr>PMA := p\<rparr>) (unat addr) (unat n) = take (unat n) src"
    using assms(4) by (intro nth_equalityI) (simp_all add: pma_bytes_def byte)
  from p(1,2) this show thesis by (rule that) (use p(3) in auto)
qed

lemma USB_ReadPMA_packet:
  assumes "length (PMA r) = 256" and "even (unat addr)" and "unat addr + unat n \<le> 512"
    and "unat n \<le> length buf"
  shows "USB_ReadPMA addr n r buf = Some (overwritten 0 buf (pma_bytes r (unat addr) (unat n)))"
proof -
  let ?a = "unat addr"
  have get: "pma_get (?a * 2 + 4 * k) r = Some (PMA r ! (?a div 2 + k))" if "?a div 2 + k < 256" for k
    using that assms(1) pma_word_at [OF assms(2) that] by (simp add: pma_get_def rd_def)
  have lo: "pma_byte r (?a + 2 * k) = ucast (PMA r ! (?a div 2 + k) AND 0xFF)"
    and hi: "pma_byte r (?a + (2 * k + 1)) = ucast (drop_bit 8 (PMA r ! (?a div 2 + k)) AND 0xFF)" for k
    using assms(2) by (auto simp: pma_byte_def Let_def elim!: evenE)
  have next1: "overwritten 0 buf (pma_bytes r ?a (Suc m)) =
      (overwritten 0 buf (pma_bytes r ?a m))[m := pma_byte r (?a + m)]" if "m < length buf" for m
    using that by (simp add: overwritten_def pma_bytes_def list_update_append Cons_nth_drop_Suc [symmetric])
  have len: "length (overwritten 0 buf (pma_bytes r ?a m)) = length buf" if "m \<le> length buf" for m
    using that by (simp add: length_overwritten)
  let ?P = "\<lambda>i b. b = overwritten 0 buf (pma_bytes r ?a (2 * i))"
  let ?body = "\<lambda>k b. do { temp \<leftarrow> pma_get (?a * 2 + 4 * k) r; b \<leftarrow> wr b (2 * k) (ucast (temp AND 0xFF));
      wr b (2 * k + 1) (ucast (drop_bit 8 temp AND 0xFF)) }"
  have "\<exists>b. for_each ?body [0..<unat n div 2] buf = Some b \<and> ?P (unat n div 2) b"
  proof (rule for_each_upt)
    show "?P 0 buf" by (simp add: pma_bytes_def)
  next
    fix i b assume i: "i < unat n div 2" and b: "?P i b"
    have "?a div 2 + i < 256" "2 * i + 1 < length buf" using assms(2-4) i by presburger+
    then have "?body i b = Some (b[2 * i := pma_byte r (?a + 2 * i), 2 * i + 1 := pma_byte r (?a + (2 * i + 1))])"
      unfolding get [OF \<open>?a div 2 + i < 256\<close>] lo hi by (simp add: b len wr_def)
    moreover have "b[2 * i := pma_byte r (?a + 2 * i), 2 * i + 1 := pma_byte r (?a + (2 * i + 1))] =
        overwritten 0 buf (pma_bytes r ?a (2 * Suc i))"
      using next1 [of "2 * i"] next1 [of "2 * i + 1"] \<open>2 * i + 1 < length buf\<close> by (simp add: b)
    ultimately show "\<exists>b'. ?body i b = Some b' \<and> ?P (Suc i) b'" by simp
  qed
  then have loop: "for_each ?body [0..<unat n div 2] buf =
      Some (overwritten 0 buf (pma_bytes r ?a (2 * (unat n div 2))))" by blast
  show ?thesis
  proof (cases "even (unat n)")
    case True
    then have "2 * (unat n div 2) = unat n" "unat n mod 2 = 0" by simp_all
    with loop show ?thesis by (simp add: USB_ReadPMA_def)
  next
    case False
    then have e: "Suc (2 * (unat n div 2)) = unat n" "unat n mod 2 = 1" by (simp_all add: odd_iff_mod_2_eq_one)
    have r1: "?a div 2 + unat n div 2 < 256" using assms(2,3) False by presburger
    have r2: "2 * (unat n div 2) < length buf" using e(1) assms(4) by linarith
    have "wr (overwritten 0 buf (pma_bytes r ?a (2 * (unat n div 2)))) (2 * (unat n div 2))
        (ucast (PMA r ! (?a div 2 + unat n div 2) AND 0xFF)) =
        Some (overwritten 0 buf (pma_bytes r ?a (Suc (2 * (unat n div 2)))))"
      unfolding next1 [OF r2] lo using r2 len [of "2 * (unat n div 2)"] by (simp add: wr_def)
    with loop get [OF r1] e show ?thesis
      by (simp only: USB_ReadPMA_def bind.bind_lunit e) simp
  qed
qed

subsection \<open>Well-formed driver states\<close>

text \<open>
  An endpoint's buffer is half-word aligned, behind the buffer table of 64 bytes and inside the packet
  memory. Buffers of different endpoints may overlap.
\<close>

definition ep_ok :: "usb_dc_ep_state \<Rightarrow> bool" where
  "ep_ok e \<longleftrightarrow> even (unat (ep_pma_addr e)) \<and> unat (ep_pma_addr e) + unat (ep_pma_buf_len e) \<le> 512 \<and>
     (ep_pma_buf_len e \<noteq> 0 \<longrightarrow> 64 \<le> unat (ep_pma_addr e)) \<and> ep_mps e \<le> ep_pma_buf_len e"

lemma ep_ok_mps:
  assumes "ep_ok e"
  shows "even (unat (ep_pma_addr e))" and "unat (ep_pma_addr e) + unat (ep_mps e) \<le> 512"
    and "ep_mps e \<noteq> 0 \<Longrightarrow> 64 \<le> unat (ep_pma_addr e)"
  using assms by (auto simp: ep_ok_def word_le_nat_alt unat_eq_zero)

definition regs_ok :: "usb_regs \<Rightarrow> bool" where
  "regs_ok r \<longleftrightarrow> length (EPR r) = 8 \<and> length (PMA r) = 256 \<and> BTABLE r = 0"

definition dc_inv :: "usb_dc \<Rightarrow> bool" where
  "dc_inv d \<longleftrightarrow> regs_ok (USB d) \<and> length (in_ep d) = 8 \<and> length (out_ep d) = 8 \<and>
     (\<forall>e \<in> set (in_ep d) \<union> set (out_ep d). ep_ok e)"

lemma btable_word: "(8 * i + c) * 2 = 4 * (4 * i + c div 2)" if "even c" for c i :: nat
  using that by (auto elim!: evenE)

lemma pma_word_4: "pma_word (4 * k) = (if k < 256 then Some k else None)"
  by (simp add: pma_word_def)

lemma btable_results:
  assumes "regs_ok r" and "i < 8"
  shows "PCD_SET_EP_TX_ADDRESS i a r = Some (r\<lparr>PMA := (PMA r)[4 * i := ucast (push_bit 1 (drop_bit 1 a))]\<rparr>)"
    and "PCD_SET_EP_TX_CNT i c r = Some (r\<lparr>PMA := (PMA r)[4 * i + 1 := c]\<rparr>)"
    and "PCD_SET_EP_RX_ADDRESS i a r = Some (r\<lparr>PMA := (PMA r)[4 * i + 2 := ucast (push_bit 1 (drop_bit 1 a))]\<rparr>)"
    and "PCD_SET_EP_RX_CNT i c r = Some (r\<lparr>PMA := (PMA r)[4 * i + 3 :=
           PCD_SET_EP_CNT_RX_REG (PMA r ! (4 * i + 3)) (ucast c)]\<rparr>)"
    and "PCD_GET_EP_TX_CNT i r = Some (ucast (PMA r ! (4 * i + 1)) AND 0x3FF)"
    and "PCD_GET_EP_RX_CNT i r = Some (ucast (PMA r ! (4 * i + 3)) AND 0x3FF)"
proof -
  have w: "i * 8 * 2 = 4 * (4 * i)" "(i * 8 + 2) * 2 = 4 * (4 * i + 1)" "(i * 8 + 4) * 2 = 4 * (4 * i + 2)"
    "(i * 8 + 6) * 2 = 4 * (4 * i + 3)" "(0 + i * 8 + 2) * 2 = 4 * (4 * i + 1)" "(0 + i * 8 + 6) * 2 = 4 * (4 * i + 3)"
    by simp_all
  have b: "4 * i < 256" "4 * i + 1 < 256" "4 * i + 2 < 256" "4 * i + 3 < 256" using assms(2) by simp_all
  note d = pma_set_def pma_get_def rd_def wr_def w pma_word_4 if_P [OF b(1)] if_P [OF b(2)] if_P [OF b(3)] if_P [OF b(4)]
    bind.bind_lunit option.simps Let_def
  have r: "unat (BTABLE r) = 0" "length (PMA r) = 256" using assms(1) by (simp_all add: regs_ok_def)
  show "PCD_SET_EP_TX_ADDRESS i a r = Some (r\<lparr>PMA := (PMA r)[4 * i := ucast (push_bit 1 (drop_bit 1 a))]\<rparr>)"
    "PCD_SET_EP_TX_CNT i c r = Some (r\<lparr>PMA := (PMA r)[4 * i + 1 := c]\<rparr>)"
    "PCD_SET_EP_RX_ADDRESS i a r = Some (r\<lparr>PMA := (PMA r)[4 * i + 2 := ucast (push_bit 1 (drop_bit 1 a))]\<rparr>)"
    unfolding PCD_SET_EP_TX_ADDRESS_def PCD_SET_EP_TX_CNT_def PCD_SET_EP_RX_ADDRESS_def r add_0
    by (simp_all only: d r)
  show "PCD_SET_EP_RX_CNT i c r = Some (r\<lparr>PMA := (PMA r)[4 * i + 3 :=
           PCD_SET_EP_CNT_RX_REG (PMA r ! (4 * i + 3)) (ucast c)]\<rparr>)"
    "PCD_GET_EP_TX_CNT i r = Some (ucast (PMA r ! (4 * i + 1)) AND 0x3FF)"
    "PCD_GET_EP_RX_CNT i r = Some (ucast (PMA r ! (4 * i + 3)) AND 0x3FF)"
    unfolding PCD_SET_EP_RX_CNT_def PCD_GET_EP_TX_CNT_def PCD_GET_EP_RX_CNT_def r add_0
    by (simp_all only: d r)
qed

lemma unat_ucast_16_32: "unat (ucast (x :: u16) :: u32) = unat x"
  using unsigned_less [of x, where 'a = nat] by (simp add: unsigned_ucast_eq take_bit_nat_eq_self_iff)

lemma ucast_of_nat_16: "ucast (of_nat m :: u32) = (of_nat m :: u16)"
  by (rule bit_word_eqI) (simp add: bit_simps)

subsection \<open>What the endpoint functions do\<close>

definition tx_packet :: "usb_dc \<Rightarrow> nat \<Rightarrow> u8 list" where
  "tx_packet d i = pma_bytes (USB d) (unat (ep_pma_addr (in_ep d ! i))) (unat (PMA (USB d) ! (4 * i + 1)))"

definition rx_count :: "usb_dc \<Rightarrow> nat \<Rightarrow> nat" where
  "rx_count d i = unat (PMA (USB d) ! (4 * i + 3) AND 0x3FF)"

definition rx_packet :: "usb_dc \<Rightarrow> nat \<Rightarrow> nat \<Rightarrow> u8 list" where
  "rx_packet d i n = pma_bytes (USB d) (unat (ep_pma_addr (out_ep d ! i))) n"

text \<open>\<open>sends i pkt d d'\<close>: endpoint \<open>i\<close> has been handed the packet \<open>pkt\<close> and is enabled for the host's IN token.\<close>

definition sends :: "nat \<Rightarrow> u8 list \<Rightarrow> usb_dc \<Rightarrow> usb_dc \<Rightarrow> bool" where
  "sends i pkt d d' \<longleftrightarrow> (\<exists>p. d' = d\<lparr>USB := (USB d)\<lparr>PMA := p,
      EPR := (EPR (USB d))[i := set_stat_tx 0x0030 (EPR (USB d) ! i)]\<rparr>\<rparr> \<and> length p = 256) \<and>
     tx_packet d' i = pkt"

lemma sends_inv: "sends i pkt d d' \<Longrightarrow> dc_inv d \<Longrightarrow> dc_inv d'"
  by (auto simp: sends_def dc_inv_def regs_ok_def)

lemma sends_overread: "sends i pkt d d' \<Longrightarrow> overread d' = overread d \<and> in_ep d' = in_ep d \<and>
    out_ep d' = out_ep d \<and> dev_addr d' = dev_addr d \<and> pma_offset d' = pma_offset d \<and> brd d' = brd d"
  by (auto simp: sends_def)

lemma dc_inv_regs: "dc_inv d \<Longrightarrow> regs_ok (USB d)"
  by (simp add: dc_inv_def)

lemma dc_inv_in_ep: "dc_inv d \<Longrightarrow> i < 8 \<Longrightarrow> ep_ok (in_ep d ! i)"
  by (simp add: dc_inv_def)

lemma dc_inv_out_ep: "dc_inv d \<Longrightarrow> i < 8 \<Longrightarrow> ep_ok (out_ep d ! i)"
  by (simp add: dc_inv_def)

lemma pma_bytes_count:
  assumes "64 \<le> a" and "k < 32"
  shows "pma_bytes (r\<lparr>PMA := p[k := c], EPR := e\<rparr>) a n = pma_bytes (r\<lparr>PMA := p\<rparr>) a n"
  using assms by (simp add: pma_bytes_def pma_byte_def Let_def nth_list_update)

lemma ep_write_empty:
  assumes "dc_inv d" and "i < 8" and "USB_EP_GET_IDX ep = i"
  shows "\<exists>d'. usbd_ep_write ep src 0 d = Some (0, None, d') \<and> sends i [] d d'"
proof -
  let ?p = "(PMA (USB d))[4 * i + 1 := 0]"
  let ?e = "(EPR (USB d))[i := set_stat_tx 0x0030 (EPR (USB d) ! i)]"
  have ok: "regs_ok (USB d)" "regs_ok ((USB d)\<lparr>PMA := ?p\<rparr>)" "i < length (EPR (USB d))" "4 * i + 1 < 256"
    "length (PMA (USB d)) = 256"
    using assms(1,2) by (simp_all add: dc_inv_def regs_ok_def)
  have "usbd_ep_write ep src 0 d = Some (0, None, d\<lparr>USB := (USB d)\<lparr>PMA := ?p, EPR := ?e\<rparr>\<rparr>)"
    using ok assms(2,3)
    by (simp add: usbd_ep_write_def on_usb_def btable_results(2) tx_status.acts)
  moreover have "sends i [] d (d\<lparr>USB := (USB d)\<lparr>PMA := ?p, EPR := ?e\<rparr>\<rparr>)"
    using ok by (auto simp: sends_def tx_packet_def pma_bytes_def)
  ultimately show ?thesis by blast
qed

lemma ep_write_packet:
  assumes "dc_inv d" and "i < 8" and "USB_EP_GET_IDX ep = i" and "len \<noteq> 0"
    and m: "m = min (unat len) (unat (ep_mps (in_ep d ! i)))" and "m \<le> length src" and "ep_mps (in_ep d ! i) \<noteq> 0"
  shows "\<exists>d'. usbd_ep_write ep (Some src) len d = Some (0, Some (of_nat m), d') \<and> sends i (take m src) d d'"
proof -
  let ?e = "in_ep d ! i"
  have ep: "even (unat (ep_pma_addr ?e))" "unat (ep_pma_addr ?e) + unat (ep_mps ?e) \<le> 512" "64 \<le> unat (ep_pma_addr ?e)"
    using ep_ok_mps [OF dc_inv_in_ep [OF assms(1,2)]] assms(7) by simp_all
  have ok: "regs_ok (USB d)" "i < length (EPR (USB d))" "length (PMA (USB d)) = 256" "4 * i + 1 < 256" "rd (in_ep d) i = Some ?e"
    using assms(1,2) by (simp_all add: dc_inv_def regs_ok_def rd_def)
  have small: "m \<le> 512" using ep(2) m by simp
  have chunk: "(if len > ucast (ep_mps ?e) then ucast (ep_mps ?e) else len) = (of_nat m :: u32)"
    unfolding m by (cases "unat len \<le> unat (ep_mps ?e)") (simp_all add: word_less_nat_alt min_def unat_ucast_16_32)
  have cast: "ucast (of_nat m :: u32) = (of_nat m :: u16)" "unat (of_nat m :: u16) = m"
    using small by (simp_all add: unat_of_nat ucast_of_nat_16)
  have pre: "unat (ep_pma_addr ?e) + unat (of_nat m :: u16) \<le> 512" "unat (of_nat m :: u16) \<le> length src"
    using ep(2) m assms(6) unfolding cast(2) by simp_all
  obtain p where p: "USB_WritePMA (overread d) src (ep_pma_addr ?e) (of_nat m) (USB d) = Some ((USB d)\<lparr>PMA := p\<rparr>)"
    "length p = 256" "pma_bytes ((USB d)\<lparr>PMA := p\<rparr>) (unat (ep_pma_addr ?e)) m = take m src"
    by (rule USB_WritePMA_packet [OF ok(3) ep(1) pre, of "overread d"]) (simp only: cast(2))
  let ?p = "p[4 * i + 1 := of_nat m]" and ?epr = "(EPR (USB d))[i := set_stat_tx 0x0030 (EPR (USB d) ! i)]"
  have ok2: "regs_ok ((USB d)\<lparr>PMA := p\<rparr>)" using ok(1) p(2) by (simp add: regs_ok_def)
  have "usbd_ep_write ep (Some src) len d = Some (0, Some (of_nat m), d\<lparr>USB := (USB d)\<lparr>PMA := ?p, EPR := ?epr\<rparr>\<rparr>)"
    using assms(2-4) ok p(1) btable_results(2) [OF ok2 assms(2)]
    by (simp add: usbd_ep_write_def chunk cast(1) on_usb_def tx_status.acts)
  moreover have "tx_packet (d\<lparr>USB := (USB d)\<lparr>PMA := ?p, EPR := ?epr\<rparr>\<rparr>) i = take m src"
    using p(2,3) ok(4) cast(2) assms(2) pma_bytes_count [OF ep(3), of "4 * i + 1"] by (simp add: tx_packet_def)
  ultimately show ?thesis using p(2) by (auto simp: sends_def)
qed

end
