(* ===== verification/UsbPort.thy ===== *)
theory UsbPort imports UsbDcFacts begin

text \<open>
  What the endpoint functions of the controller port do on well-formed states: reading a packet,
  opening an endpoint, stalling it; the allocation of packet memory; and the properties of the port.
\<close>

subsection \<open>Reading a packet\<close>

lemma unat_and_3FF: "unat (ucast (v :: u16) AND (0x3FF :: u32)) = unat (v AND 0x3FF)"
proof -
  have "ucast v AND (0x3FF :: u32) = ucast (v AND 0x3FF)"
  proof (rule bit_word_eqI)
    fix n
    have "bit (0x3FF :: u32) n \<longleftrightarrow> n < 10" "bit (0x3FF :: u16) n \<longleftrightarrow> n < 10"
      using bit_mask_iff [where 'a = u32, of 10 n] bit_mask_iff [where 'a = u16, of 10 n]
      by (auto simp: mask_eq_exp_minus_1)
    then show "bit (ucast v AND (0x3FF :: u32)) n = bit (ucast (v AND 0x3FF) :: u32) n"
      by (auto simp: bit_simps)
  qed
  then show ?thesis by (simp only: unat_ucast_16_32)
qed

lemma rx_count_u32: "regs_ok (USB d) \<Longrightarrow> i < 8 \<Longrightarrow>
    \<exists>c. PCD_GET_EP_RX_CNT i (USB d) = Some c \<and> unat c = rx_count d i"
  using unat_and_3FF [of "PMA (USB d) ! (4 * i + 3)"] by (simp add: btable_results(6) rx_count_def)

lemma ep_read_packet:
  assumes "dc_inv d" and "i < 8" and "USB_EP_GET_IDX ep = i" and "len \<noteq> 0"
    and n: "n = min (rx_count d i) (unat len)" and "n \<le> length buf" and fits: "n \<le> unat (ep_mps (out_ep d ! i))"
  shows "usbd_ep_read ep (Some buf) len d =
      Some (0, Some (overwritten 0 buf (rx_packet d i n)), Some (of_nat n), d)"
proof -
  let ?e = "out_ep d ! i"
  have ok: "regs_ok (USB d)" "length (PMA (USB d)) = 256" "rd (out_ep d) i = Some ?e" "ep_ok ?e"
    using assms(1,2) dc_inv_out_ep [OF assms(1,2)] by (simp_all add: dc_inv_def regs_ok_def rd_def)
  obtain c where c: "PCD_GET_EP_RX_CNT i (USB d) = Some c" "unat c = rx_count d i"
    using rx_count_u32 [OF ok(1) assms(2)] by blast
  have le: "unat (ep_pma_addr ?e) + n \<le> 512" using ep_ok_mps(2) [OF ok(4)] fits by simp
  have mn: "min c len = of_nat n"
    unfolding n c(2) [symmetric] by (auto simp: min_def word_le_nat_alt)
  have cast: "ucast (of_nat n :: u32) = (of_nat n :: u16)" "unat (of_nat n :: u16) = n"
    using le by (simp_all add: unat_of_nat ucast_of_nat_16)
  have pre: "unat (ep_pma_addr ?e) + unat (of_nat n :: u16) \<le> 512" "unat (of_nat n :: u16) \<le> length buf"
    unfolding cast(2) using le assms(6) by simp_all
  from USB_ReadPMA_packet [OF ok(2) ep_ok_mps(1) [OF ok(4)] pre] show ?thesis
    using assms(3,4) ok(3) by (simp add: usbd_ep_read_def c(1) mn cast rx_packet_def)
qed

lemma ep_read_arms:
  assumes "dc_inv d" and "i < 8" and "USB_EP_GET_IDX ep = i"
  shows "usbd_ep_read ep dst 0 d = Some (0, dst, None, if i = 0 then d
      else d\<lparr>USB := (USB d)\<lparr>EPR := (EPR (USB d))[i := set_stat_rx 0x3000 (EPR (USB d) ! i)]\<rparr>\<rparr>)"
proof -
  have "i < length (EPR (USB d))" using assms(1,2) by (simp add: dc_inv_def regs_ok_def)
  then show ?thesis using assms(3) by (simp add: usbd_ep_read_def on_usb_def rx_status.acts)
qed

subsection \<open>Opening an endpoint\<close>

definition fits :: "usbd_endpoint_cfg \<Rightarrow> u32 \<Rightarrow> usb_dc_ep_state \<Rightarrow> bool" where
  "fits c off e \<longleftrightarrow> cfg_ep_mps c \<le> ep_pma_buf_len e \<or> off + ucast (cfg_ep_mps c) < 512"

definition new_ep :: "usbd_endpoint_cfg \<Rightarrow> u32 \<Rightarrow> usb_dc_ep_state \<Rightarrow> usb_dc_ep_state" where
  "new_ep c off e =
     (let e = e\<lparr>ep_mps := cfg_ep_mps c, ep_type := cfg_ep_type c\<rparr>
      in if cfg_ep_mps c > ep_pma_buf_len e
         then e\<lparr>ep_pma_buf_len := cfg_ep_mps c, ep_pma_addr := ucast off\<rparr> else e)"

definition new_offset :: "usbd_endpoint_cfg \<Rightarrow> u32 \<Rightarrow> usb_dc_ep_state \<Rightarrow> u32" where
  "new_offset c off e = (if cfg_ep_mps c > ep_pma_buf_len e then off + ucast (cfg_ep_mps c) else off)"

lemma ep_open_out_opens:
  assumes "regs_ok (USB d)" and "i < 8" and "length (out_ep d) = 8" and "fits c (pma_offset d) (out_ep d ! i)"
  shows "\<exists>p. ep_open_out c i d = Some (0, d\<lparr>out_ep := (out_ep d)[i := new_ep c (pma_offset d) (out_ep d ! i)],
      pma_offset := new_offset c (pma_offset d) (out_ep d ! i),
      USB := (USB d)\<lparr>PMA := p, EPR := (EPR (USB d))[i := set_stat_rx 0x3000 (clear_dtog_rx (EPR (USB d) ! i))]\<rparr>\<rparr>)
      \<and> length p = 256"
proof -
  have ok: "i < length (EPR (USB d))" "length (PMA (USB d)) = 256" "BTABLE (USB d) = 0" "length (EPR (USB d)) = 8"
    using assms(1,2) by (simp_all add: regs_ok_def)
  have ok': "regs_ok ((USB d)\<lparr>PMA := p\<rparr>)" if "length p = 256" for p using assms(1) that by (simp add: regs_ok_def)
  show ?thesis
    using assms ok ok' by (auto simp: ep_open_out_def rd_def on_usb_def btable_results rx_status.acts
      clear_rx_dtog.acts fits_def new_ep_def new_offset_def Let_def)
qed

lemma ep_open_in_opens:
  assumes "regs_ok (USB d)" and "i < 8" and "length (in_ep d) = 8" and "fits c (pma_offset d) (in_ep d ! i)"
  shows "\<exists>p. ep_open_in c i d = Some (0, d\<lparr>in_ep := (in_ep d)[i := new_ep c (pma_offset d) (in_ep d ! i)],
      pma_offset := new_offset c (pma_offset d) (in_ep d ! i),
      USB := (USB d)\<lparr>PMA := p, EPR := (EPR (USB d))[i :=
        set_stat_tx (if cfg_ep_type c \<noteq> 1 then 0x0020 else 0x0000) (clear_dtog_tx (EPR (USB d) ! i))]\<rparr>\<rparr>)
      \<and> length p = 256"
proof -
  have ok: "i < length (EPR (USB d))" "length (PMA (USB d)) = 256" "BTABLE (USB d) = 0" "length (EPR (USB d)) = 8"
    using assms(1,2) by (simp_all add: regs_ok_def)
  show ?thesis
    using assms ok
    by (intro exI [of _ "if cfg_ep_mps c > ep_pma_buf_len (in_ep d ! i)
        then (PMA (USB d))[4 * i := ucast (push_bit 1 (drop_bit 1 (pma_offset d)))] else PMA (USB d)"])
      (auto simp: ep_open_in_def rd_def on_usb_def btable_results tx_status.acts
      clear_tx_dtog.acts fits_def new_ep_def new_offset_def Let_def)
qed

subsection \<open>Packet memory allocation\<close>

text \<open>
  Endpoint buffers are handed out from \<open>pma_offset\<close> upwards: every buffer lies below it, and no two
  endpoints share a byte.
\<close>

definition apart :: "usb_dc_ep_state \<Rightarrow> usb_dc_ep_state \<Rightarrow> bool" where
  "apart e f \<longleftrightarrow> ep_pma_buf_len e = 0 \<or> ep_pma_buf_len f = 0 \<or>
     unat (ep_pma_addr e) + unat (ep_pma_buf_len e) \<le> unat (ep_pma_addr f) \<or>
     unat (ep_pma_addr f) + unat (ep_pma_buf_len f) \<le> unat (ep_pma_addr e)"

definition below :: "nat \<Rightarrow> usb_dc_ep_state \<Rightarrow> bool" where
  "below off e \<longleftrightarrow> ep_pma_buf_len e = 0 \<or> unat (ep_pma_addr e) + unat (ep_pma_buf_len e) \<le> off"

definition layout :: "usb_dc_ep_state list \<Rightarrow> u32 \<Rightarrow> bool" where
  "layout es off \<longleftrightarrow> 64 \<le> unat off \<and> unat off \<le> 512 \<and> even (unat off) \<and>
     (\<forall>e \<in> set es. ep_ok e \<and> below (unat off) e) \<and>
     (\<forall>j < length es. \<forall>k < length es. j \<noteq> k \<longrightarrow> apart (es ! j) (es ! k))"

definition layout_ok :: "usb_dc \<Rightarrow> bool" where
  "layout_ok d \<longleftrightarrow> dc_inv d \<and> layout (in_ep d @ out_ep d) (pma_offset d)"

lemma apart_sym: "apart e f \<longleftrightarrow> apart f e"
  by (auto simp: apart_def)

lemma below_apart: "below (unat off) e \<Longrightarrow> unat (ep_pma_addr f) = unat off \<Longrightarrow> apart e f"
  by (auto simp: apart_def below_def)

lemma below_mono: "below n e \<Longrightarrow> n \<le> m \<Longrightarrow> below m e"
  by (auto simp: below_def)

lemma apart_same_buffer:
  "ep_pma_addr e' = ep_pma_addr e \<Longrightarrow> ep_pma_buf_len e' = ep_pma_buf_len e \<Longrightarrow> apart e' f = apart e f"
  by (simp add: apart_def)

lemma unat_offset:
  assumes "unat (off :: u32) \<le> 512"
  shows "unat (off + ucast (m :: u16)) = unat off + unat m" and "unat (ucast off :: u16) = unat off"
proof -
  have "unat m < 65536" using unsigned_less [of m, where 'a = nat] by simp
  then show "unat (off + ucast m) = unat off + unat m"
    using assms by (subst unat_add_lem [THEN iffD1]) (simp_all add: unat_ucast_16_32)
  show "unat (ucast off :: u16) = unat off"
    using assms by (simp add: unsigned_ucast_eq take_bit_nat_eq_self_iff)
qed

lemma layout_update:
  assumes l: "layout es off" and k: "k < length es" and f: "fits c off (es ! k)" and ev: "even (unat (cfg_ep_mps c))"
  shows "layout (es[k := new_ep c off (es ! k)]) (new_offset c off (es ! k))"
proof (cases "cfg_ep_mps c > ep_pma_buf_len (es ! k)")
  case False
  let ?e = "new_ep c off (es ! k)"
  have same: "ep_pma_addr ?e = ep_pma_addr (es ! k)" "ep_pma_buf_len ?e = ep_pma_buf_len (es ! k)" "ep_mps ?e = cfg_ep_mps c"
    using False by (simp_all add: new_ep_def)
  have old: "ep_ok (es ! k)" "below (unat off) (es ! k)" using l k by (simp_all add: layout_def)
  have "ep_ok ?e" "below (unat off) ?e"
    using old False by (auto simp: ep_ok_def below_def same)
  moreover have "apart ?e f = apart (es ! k) f" "apart f ?e = apart f (es ! k)" for f
    using apart_same_buffer [OF same(1,2)] apart_sym by metis+
  moreover have "new_offset c off (es ! k) = off" using False by (simp add: new_offset_def)
  ultimately show ?thesis
    using l k by (auto simp: layout_def nth_list_update dest!: set_update_subset_insert [THEN subsetD])
next
  case True
  let ?e = "new_ep c off (es ! k)" and ?off = "new_offset c off (es ! k)"
  have off: "64 \<le> unat off" "unat off \<le> 512" "even (unat off)" using l by (simp_all add: layout_def)
  have e: "unat (ep_pma_addr ?e) = unat off" "ep_pma_buf_len ?e = cfg_ep_mps c" "ep_mps ?e = cfg_ep_mps c"
    using True unat_offset(2) [OF off(2)] by (simp_all add: new_ep_def)
  have o: "unat ?off = unat off + unat (cfg_ep_mps c)" using True unat_offset(1) [OF off(2)] by (simp add: new_offset_def)
  have "off + ucast (cfg_ep_mps c) < 512" using f True by (auto simp: fits_def)
  then have le: "unat ?off < 512" using True by (simp add: new_offset_def word_less_nat_alt)
  have "ep_ok ?e" "below (unat ?off) ?e" using off e o le by (simp_all add: ep_ok_def below_def)
  moreover have "apart ?e f" "apart f ?e" if "below (unat off) f" for f
    using below_apart [OF that e(1)] apart_sym by blast+
  moreover have "below (unat ?off) f" if "below (unat off) f" for f using below_mono [OF that] o by simp
  ultimately show ?thesis
    using l k off o le ev by (auto simp: layout_def nth_list_update dest!: set_update_subset_insert [THEN subsetD])
qed

lemma layout_ep_ok: "layout es off \<Longrightarrow> e \<in> set es \<Longrightarrow> ep_ok e"
  by (simp add: layout_def)

lemma layout_okI:
  assumes "regs_ok (USB d)" and "length (in_ep d) = 8" and "length (out_ep d) = 8"
    and "layout (in_ep d @ out_ep d) (pma_offset d)"
  shows "layout_ok d"
  using assms layout_ep_ok [OF assms(4)] by (auto simp: layout_ok_def dc_inv_def)

subsection \<open>Opening through the driver function\<close>

definition cfg_ok :: "usbd_endpoint_cfg \<Rightarrow> bool" where
  "cfg_ok c \<longleftrightarrow> USB_EP_GET_IDX (cfg_ep_addr c) < 8 \<and> cfg_ep_type c \<le> 3 \<and> even (unat (cfg_ep_mps c))"

definition ep_of :: "usb_dc \<Rightarrow> u8 \<Rightarrow> usb_dc_ep_state" where
  "ep_of d ep = (if USB_EP_DIR_IS_OUT ep then out_ep d else in_ep d) ! USB_EP_GET_IDX ep"

lemma ep_type_cases: "(ty :: u8) \<le> 3 \<Longrightarrow> ty = 0 \<or> ty = 1 \<or> ty = 2 \<or> ty = 3"
proof -
  assume "ty \<le> 3"
  then have "unat ty \<le> 3" by (simp add: word_le_nat_alt)
  then have "unat ty = 0 \<or> unat ty = 1 \<or> unat ty = 2 \<or> unat ty = 3" by linarith
  then show ?thesis by (simp add: word_unat_eq_iff)
qed

lemma ep_type_bits_Some: "ty \<le> 3 \<Longrightarrow> \<exists>t. ep_type_bits ty = Some (t AND 0x0600)"
  by (drule ep_type_cases) (auto simp: ep_type_bits_def intro: exI [of _ "0x0200"] exI [of _ "0x0600"]
      exI [of _ "0x0400"] exI [of _ "0"])

lemma low_nibble: "(i :: nat) < 8 \<Longrightarrow> (of_nat i :: u16) AND 0x000F = of_nat i"
  by (drule below8) (elim disjE; simp)

text \<open>\<open>opened c t v\<close>: what opening makes of the endpoint register \<open>v\<close>, for the type bits \<open>t\<close>.\<close>

definition opened :: "usbd_endpoint_cfg \<Rightarrow> u16 \<Rightarrow> u16 \<Rightarrow> u16" where
  "opened c t v =
     (let v = or_ep_address (of_nat (USB_EP_GET_IDX (cfg_ep_addr c))) (set_ep_type t v)
      in if USB_EP_DIR_IS_OUT (cfg_ep_addr c) then set_stat_rx 0x3000 (clear_dtog_rx v)
         else set_stat_tx (if cfg_ep_type c \<noteq> 1 then 0x0020 else 0x0000) (clear_dtog_tx v))"

lemma ep_open_type_address:
  assumes "regs_ok (USB d)" and "i < 8"
  shows "do { d \<leftarrow> on_usb (PCD_SET_EPTYPE i (t AND 0x0600)) d; on_usb (PCD_SET_EP_ADDRESS i (of_nat i)) d } =
    Some (d\<lparr>USB := (USB d)\<lparr>EPR := (EPR (USB d))[i := or_ep_address (of_nat i) (set_ep_type t (EPR (USB d) ! i))]\<rparr>\<rparr>)"
proof -
  have "i < length (EPR (USB d))" using assms by (simp add: regs_ok_def)
  then show ?thesis
    using set_address.acts [of i "of_nat i"] unfolding low_nibble [OF assms(2)]
    by (simp add: on_usb_def set_type.acts)
qed

lemma usbd_ep_open_step:
  assumes "regs_ok (USB d)" and "USB_EP_GET_IDX (cfg_ep_addr c) = i" and "i < 8"
    and "ep_type_bits (cfg_ep_type c) = Some (t AND 0x0600)"
  shows "usbd_ep_open c d = (let d = d\<lparr>USB := (USB d)\<lparr>EPR := (EPR (USB d))[i :=
        or_ep_address (of_nat i) (set_ep_type t (EPR (USB d) ! i))]\<rparr>\<rparr>
      in if USB_EP_DIR_IS_OUT (cfg_ep_addr c) then ep_open_out c i d else ep_open_in c i d)"
proof -
  have "usbd_ep_open c d = do { d \<leftarrow> do { d \<leftarrow> on_usb (PCD_SET_EPTYPE i (t AND 0x0600)) d;
        on_usb (PCD_SET_EP_ADDRESS i (of_nat i)) d };
      if USB_EP_DIR_IS_OUT (cfg_ep_addr c) then ep_open_out c i d else ep_open_in c i d }"
    using assms(2,4) by (simp add: usbd_ep_open_def)
  then show ?thesis unfolding ep_open_type_address [OF assms(1,3)] by (simp add: Let_def)
qed

text \<open>The shape of a driver state, without what is said about the buffers.\<close>

definition dc_shape :: "usb_dc \<Rightarrow> bool" where
  "dc_shape d \<longleftrightarrow> regs_ok (USB d) \<and> length (in_ep d) = 8 \<and> length (out_ep d) = 8"

lemma layout_ok_shape: "layout_ok d \<Longrightarrow> dc_shape d"
  by (simp add: layout_ok_def dc_inv_def dc_shape_def)

lemma usbd_ep_open_opens:
  assumes l: "dc_shape d" and c: "cfg_ok c" and f: "fits c (pma_offset d) (ep_of d (cfg_ep_addr c))"
    and i: "i = USB_EP_GET_IDX (cfg_ep_addr c)" and t: "ep_type_bits (cfg_ep_type c) = Some (t AND 0x0600)"
    and e': "e' = new_ep c (pma_offset d) (ep_of d (cfg_ep_addr c))"
  shows "\<exists>p. usbd_ep_open c d = Some (0,
      (if USB_EP_DIR_IS_OUT (cfg_ep_addr c) then d\<lparr>out_ep := (out_ep d)[i := e']\<rparr> else d\<lparr>in_ep := (in_ep d)[i := e']\<rparr>)
      \<lparr>pma_offset := new_offset c (pma_offset d) (ep_of d (cfg_ep_addr c)),
       USB := (USB d)\<lparr>PMA := p, EPR := (EPR (USB d))[i := opened c t (EPR (USB d) ! i)]\<rparr>\<rparr>) \<and> length p = 256"
proof -
  have i8: "i < 8" using c i by (simp add: cfg_ok_def)
  have r: "regs_ok (USB d)" "length (in_ep d) = 8" "length (out_ep d) = 8" using l by (simp_all add: dc_shape_def)
  have len: "length (EPR (USB d)) = 8" using r by (simp add: regs_ok_def)
  let ?d = "d\<lparr>USB := (USB d)\<lparr>EPR := (EPR (USB d))[i := or_ep_address (of_nat i) (set_ep_type t (EPR (USB d) ! i))]\<rparr>\<rparr>"
  have rd: "regs_ok (USB ?d)" using r(1) by (simp add: regs_ok_def)
  note step = usbd_ep_open_step [OF r(1) i [symmetric] i8 t, unfolded Let_def]
  show ?thesis
  proof (cases "USB_EP_DIR_IS_OUT (cfg_ep_addr c)")
    case True
    from f True i have "fits c (pma_offset ?d) (out_ep ?d ! i)" by (simp add: ep_of_def)
    from ep_open_out_opens [OF rd i8 _ this] r(3) True show ?thesis
      unfolding step e' by (simp add: ep_of_def i [symmetric] opened_def i8 len)
  next
    case False
    from f False i have "fits c (pma_offset ?d) (in_ep ?d ! i)" by (simp add: ep_of_def)
    from ep_open_in_opens [OF rd i8 _ this] r(2) False show ?thesis
      unfolding step e' by (simp add: ep_of_def i [symmetric] opened_def i8 len)
  qed
qed

lemma usbd_ep_open_layout:
  assumes l: "layout_ok d" and c: "cfg_ok c" and f: "fits c (pma_offset d) (ep_of d (cfg_ep_addr c))"
  shows "\<exists>d'. usbd_ep_open c d = Some (0, d') \<and> layout_ok d'"
proof -
  let ?i = "USB_EP_GET_IDX (cfg_ep_addr c)"
  have i8: "?i < 8" using c by (simp add: cfg_ok_def)
  have dc: "dc_inv d" and lay: "layout (in_ep d @ out_ep d) (pma_offset d)" using l by (simp_all add: layout_ok_def)
  have r: "regs_ok (USB d)" "length (in_ep d) = 8" "length (out_ep d) = 8" using dc by (simp_all add: dc_inv_def)
  obtain t where t: "ep_type_bits (cfg_ep_type c) = Some (t AND 0x0600)"
    using ep_type_bits_Some c cfg_ok_def by blast
  let ?k = "if USB_EP_DIR_IS_OUT (cfg_ep_addr c) then 8 + ?i else ?i"
  have e: "(in_ep d @ out_ep d) ! ?k = ep_of d (cfg_ep_addr c)" "?k < length (in_ep d @ out_ep d)"
    using r i8 by (simp_all add: ep_of_def nth_append)
  have ev: "even (unat (cfg_ep_mps c))" using c by (simp add: cfg_ok_def)
  note lu = layout_update [OF lay e(2), unfolded e(1), OF f ev]
  from usbd_ep_open_opens [OF layout_ok_shape [OF l] c f refl t refl] obtain p d' where d': "usbd_ep_open c d = Some (0, d')" "length p = 256"
    "d' = (if USB_EP_DIR_IS_OUT (cfg_ep_addr c)
       then d\<lparr>out_ep := (out_ep d)[?i := new_ep c (pma_offset d) (ep_of d (cfg_ep_addr c))]\<rparr>
       else d\<lparr>in_ep := (in_ep d)[?i := new_ep c (pma_offset d) (ep_of d (cfg_ep_addr c))]\<rparr>)
      \<lparr>pma_offset := new_offset c (pma_offset d) (ep_of d (cfg_ep_addr c)),
       USB := (USB d)\<lparr>PMA := p, EPR := (EPR (USB d))[?i := opened c t (EPR (USB d) ! ?i)]\<rparr>\<rparr>" by blast
  have "layout_ok d'"
  proof (rule layout_okI)
    show "regs_ok (USB d')" using r(1) d'(2) unfolding d'(3) by (simp add: regs_ok_def)
    show "length (in_ep d') = 8" "length (out_ep d') = 8" using r(2,3) unfolding d'(3) by simp_all
    show "layout (in_ep d' @ out_ep d') (pma_offset d')"
      using lu r i8 unfolding d'(3) by (simp add: list_update_append split: if_splits)
  qed
  with d'(1) show ?thesis by blast
qed

lemma usbd_ep_open_fields:
  assumes l: "dc_shape d" and c: "cfg_ok c" and f: "fits c (pma_offset d) (ep_of d (cfg_ep_addr c))"
    and i: "i = USB_EP_GET_IDX (cfg_ep_addr c)" and e: "e' = new_ep c (pma_offset d) (ep_of d (cfg_ep_addr c))"
  shows "\<exists>d'. usbd_ep_open c d = Some (0, d') \<and> dc_shape d' \<and>
    in_ep d' = (if USB_EP_DIR_IS_OUT (cfg_ep_addr c) then in_ep d else (in_ep d)[i := e']) \<and>
    out_ep d' = (if USB_EP_DIR_IS_OUT (cfg_ep_addr c) then (out_ep d)[i := e'] else out_ep d) \<and>
    pma_offset d' = new_offset c (pma_offset d) (ep_of d (cfg_ep_addr c))"
proof -
  obtain t where t: "ep_type_bits (cfg_ep_type c) = Some (t AND 0x0600)"
    using ep_type_bits_Some c cfg_ok_def by blast
  from usbd_ep_open_opens [OF l c f i t e] l show ?thesis
    by (auto simp: dc_shape_def regs_ok_def)
qed

end
