(* ===== verification/UsbPortProps.thy ===== *)
theory UsbPortProps imports UsbPort begin

text \<open>
  The properties of the controller port: what each endpoint macro does to its register, the round
  trip of a packet through the packet memory, what \<open>usbd_ep_write\<close>, \<open>usbd_ep_read\<close> and
  \<open>usbd_ep_open\<close> promise, and the directions of \<open>usbd_ep_clear_stall\<close>.
\<close>

subsection \<open>A concrete driver state for the witnesses\<close>

definition reset_regs :: usb_regs where
  "reset_regs = \<lparr>EPR = replicate 8 0, CNTR = 0x0003, ISTR = 0, DADDR = 0, BTABLE = 0, PMA = replicate 256 0\<rparr>"

definition power_on :: usb_dc where
  "power_on = \<lparr>USB = reset_regs, dev_addr = 0, pma_offset = 0, in_ep = replicate 8 zero_ep,
     out_ep = replicate 8 zero_ep, overread = 0, brd = \<lparr>board_calls = [], DP_CTRL = 0\<rparr>\<rparr>"

definition initialised :: usb_dc where
  "initialised = snd (usb_dc_init id power_on)"

lemma initialised_simps:
  "EPR (USB initialised) = replicate 8 0" "PMA (USB initialised) = replicate 256 0" "BTABLE (USB initialised) = 0"
  "in_ep initialised = replicate 8 zero_ep" "out_ep initialised = replicate 8 zero_ep"
  "pma_offset initialised = 64"
  by (simp_all add: initialised_def usb_dc_init_def Let_def power_on_def reset_regs_def write_ISTR_def)




definition buf64 :: "u16 \<Rightarrow> usb_dc_ep_state" where
  "buf64 a = \<lparr>ep_mps = 64, ep_type = 3, ep_stalled = 0, ep_pma_buf_len = 64, ep_pma_addr = a\<rparr>"

definition ready :: usb_dc where
  "ready = initialised\<lparr>in_ep := (replicate 8 zero_ep)[1 := buf64 64], out_ep := (replicate 8 zero_ep)[2 := buf64 128],
     USB := (USB initialised)\<lparr>PMA := (replicate 256 0)[11 := 3, 64 := 0x0201, 65 := 0x0003]\<rparr>\<rparr>"

lemma dc_inv_ready: "dc_inv ready"
proof -
  have ok: "ep_ok zero_ep" "ep_ok (buf64 64)" "ep_ok (buf64 128)"
    by (simp_all add: ep_ok_def zero_ep_def buf64_def)
  have "\<forall>e \<in> set ((replicate 8 zero_ep)[1 := buf64 64]) \<union> set ((replicate 8 zero_ep)[2 := buf64 128]). ep_ok e"
    using ok by (auto dest!: set_update_subset_insert [THEN subsetD])
  then show ?thesis by (simp add: dc_inv_def ready_def regs_ok_def initialised_simps)
qed

subsection \<open>The endpoint macros\<close>

text \<open>
  C14: each macro of the register file acts on its own field only. Although the status and data toggle
  bits flip on a written 1 and the transfer flags clear on a written 0, writing a status sets exactly
  the two status bits, clearing one transfer flag keeps the other one, and a data toggle is cleared
  whatever it was; nothing else of the endpoint register and no other register changes, and an
  endpoint beyond the register file is an access to nothing.
\<close>

theorem endpoint_macros_set_their_field:
  "PCD_SET_EP_TX_STATUS i s r = (if i < length (EPR r)
     then Some (r\<lparr>EPR := (EPR r)[i := (EPR r ! i AND NOT 0x0030) OR (s AND 0x0030)]\<rparr>) else None) \<and>
   PCD_SET_EP_RX_STATUS i s r = (if i < length (EPR r)
     then Some (r\<lparr>EPR := (EPR r)[i := (EPR r ! i AND NOT 0x3000) OR (s AND 0x3000)]\<rparr>) else None) \<and>
   PCD_CLEAR_RX_EP_CTR i r = (if i < length (EPR r)
     then Some (r\<lparr>EPR := (EPR r)[i := EPR r ! i AND NOT 0x8000]\<rparr>) else None) \<and>
   PCD_CLEAR_TX_EP_CTR i r = (if i < length (EPR r)
     then Some (r\<lparr>EPR := (EPR r)[i := EPR r ! i AND NOT 0x0080]\<rparr>) else None) \<and>
   PCD_CLEAR_RX_DTOG i r = (if i < length (EPR r)
     then Some (r\<lparr>EPR := (EPR r)[i := EPR r ! i AND NOT 0x4000]\<rparr>) else None) \<and>
   PCD_CLEAR_TX_DTOG i r = (if i < length (EPR r)
     then Some (r\<lparr>EPR := (EPR r)[i := EPR r ! i AND NOT 0x0040]\<rparr>) else None)"
  by (intro conjI tx_status.acts [unfolded field_defs] rx_status.acts [unfolded field_defs]
      clear_rx_ctr.acts [unfolded field_defs] clear_tx_ctr.acts [unfolded field_defs]
      clear_rx_dtog.acts [unfolded field_defs] clear_tx_dtog.acts [unfolded field_defs])

subsection \<open>Packets\<close>

text \<open>
  C15: a packet of any length, odd ones included, that \<open>USB_WritePMA\<close> puts at an aligned address of
  the packet memory is what \<open>USB_ReadPMA\<close> reads back there; the bytes of the reading buffer behind
  the packet stay as they were, and so does every half word of the memory outside the packet.
\<close>

theorem packet_memory_roundtrip:
  assumes "length (PMA r) = 256" and "even (unat addr)" and "unat addr + unat n \<le> 512"
    and "unat n \<le> length src" and "unat n \<le> length buf"
  shows "\<exists>r'. USB_WritePMA behind src addr n r = Some r' \<and>
    USB_ReadPMA addr n r' buf = Some (take (unat n) src @ drop (unat n) buf) \<and>
    (\<forall>j. j < 256 \<longrightarrow> j < unat addr div 2 \<or> unat addr div 2 + (unat n + 1) div 2 \<le> j \<longrightarrow> PMA r' ! j = PMA r ! j)"
proof -
  obtain p where p: "USB_WritePMA behind src addr n r = Some (r\<lparr>PMA := p\<rparr>)" "length p = 256"
    "pma_bytes (r\<lparr>PMA := p\<rparr>) (unat addr) (unat n) = take (unat n) src"
    "\<And>j. j < 256 \<Longrightarrow> j < unat addr div 2 \<or> unat addr div 2 + (unat n + 1) div 2 \<le> j \<Longrightarrow> p ! j = PMA r ! j"
    by (rule USB_WritePMA_packet [OF assms(1-4), of behind], rule that)
  have "length (PMA (r\<lparr>PMA := p\<rparr>)) = 256" using p(2) by simp
  from USB_ReadPMA_packet [OF this assms(2,3,5)] p(3) assms(4)
  have "USB_ReadPMA addr n (r\<lparr>PMA := p\<rparr>) buf = Some (take (unat n) src @ drop (unat n) buf)"
    by (simp add: overwritten_def min_def)
  with p(1,4) show ?thesis by (intro exI [of _ "r\<lparr>PMA := p\<rparr>"]) simp
qed

theorem packet_memory_roundtrip_witness:
  "\<exists>r'. USB_WritePMA 0 [1, 2, 3] 64 3 reset_regs = Some r' \<and> USB_ReadPMA 64 3 r' [0, 0, 0, 0] = Some [1, 2, 3, 0]"
  using packet_memory_roundtrip [of reset_regs 64 3 "[1, 2, 3]" "[0, 0, 0, 0]" 0] by (auto simp: reset_regs_def)

text \<open>
  C16: \<open>usbd_ep_write\<close> hands the peripheral exactly the first \<open>min data_len ep_mps\<close> bytes of the data,
  an empty packet for length 0, reports that number through \<open>ret_bytes\<close>, makes the endpoint valid for
  the host's next IN token, and changes no other driver state.
\<close>

theorem ep_write_sends_packet:
  assumes "dc_inv d" and "USB_EP_GET_IDX ep < 8" and "ep_mps (in_ep d ! USB_EP_GET_IDX ep) \<noteq> 0"
    and "m = min (unat len) (unat (ep_mps (in_ep d ! USB_EP_GET_IDX ep)))" and "m \<le> length src"
  shows "\<exists>d'. usbd_ep_write ep (Some src) len d = Some (0, if len = 0 then None else Some (of_nat m), d') \<and>
    sends (USB_EP_GET_IDX ep) (take m src) d d' \<and> dc_inv d'"
proof (cases "len = 0")
  case True
  with assms(4) have "take m src = []" by simp
  with ep_write_empty [OF assms(1,2) refl, of "Some src"] sends_inv assms(1) True show ?thesis by (auto)
next
  case False
  from ep_write_packet [OF assms(1,2) refl False assms(4,5,3)] sends_inv assms(1) False show ?thesis by auto
qed

theorem ep_write_sends_packet_witness:
  "\<exists>d'. usbd_ep_write 0x81 (Some [7, 8, 9]) 3 ready = Some (0, Some 3, d') \<and> sends 1 [7, 8, 9] ready d'"
  using ep_write_sends_packet [OF dc_inv_ready, of "0x81" 3 3 "[7, 8, 9]"]
  by (auto simp: USB_EP_GET_IDX_def ready_def buf64_def)

text \<open>
  C17: \<open>usbd_ep_read\<close> copies the packet that the peripheral received, or its first \<open>max_data_len\<close>
  bytes, to the start of the caller's buffer and reports their number; the rest of the buffer and the
  whole driver state stay as they were, so the endpoint is not armed by it.
\<close>

theorem ep_read_delivers_packet:
  assumes "dc_inv d" and "USB_EP_GET_IDX ep < 8" and "len \<noteq> 0"
    and "n = min (rx_count d (USB_EP_GET_IDX ep)) (unat len)" and "n \<le> length buf"
    and "n \<le> unat (ep_mps (out_ep d ! USB_EP_GET_IDX ep))"
  shows "usbd_ep_read ep (Some buf) len d =
    Some (0, Some (rx_packet d (USB_EP_GET_IDX ep) n @ drop n buf), Some (of_nat n), d)"
  using ep_read_packet [OF assms(1,2) refl assms(3-6)] by (simp add: overwritten_def rx_packet_def)

theorem ep_read_delivers_packet_witness:
  "usbd_ep_read 0x02 (Some [0, 0, 0, 0]) 4 ready = Some (0, Some [1, 2, 3, 0], Some 3, ready)"
proof -
  have c: "rx_count ready 2 = 3" "out_ep ready ! 2 = buf64 128" by (simp_all add: rx_count_def ready_def)
  have p: "rx_packet ready 2 3 = [1, 2, 3]"
    by (simp add: rx_packet_def c pma_bytes_def pma_byte_def Let_def buf64_def upt_rec) (simp add: ready_def)
  show ?thesis
    using ep_read_delivers_packet [OF dc_inv_ready, of "0x02" 4 3 "[0, 0, 0, 0]"] by (simp add: USB_EP_GET_IDX_def c p buf64_def)
qed

subsection \<open>Opening and stalling\<close>



text \<open>
  \<open>usbd_ep_clear_stall\<close> acts on the other direction of the endpoint than \<open>usbd_ep_set_stall\<close>:
  after an OUT endpoint is stalled and the stall is cleared its receive status is still STALL, and the
  function set its transmit status to NAK instead; likewise an IN endpoint stays stalled and
  reception is enabled.
\<close>

theorem clear_stall_other_direction:
  assumes "USB_EP_GET_IDX ep < length (EPR (USB d))" and "USB_EP_GET_IDX ep < length (in_ep d)"
    and "ep_type (in_ep d ! USB_EP_GET_IDX ep) \<noteq> 1"
  shows "\<exists>d1 d2. usbd_ep_set_stall ep d = Some (0, d1) \<and> usbd_ep_clear_stall ep d1 = Some (0, d2) \<and>
    (if USB_EP_DIR_IS_OUT ep
     then EPR (USB d2) ! USB_EP_GET_IDX ep AND 0x3030 = 0x1020
     else EPR (USB d2) ! USB_EP_GET_IDX ep AND 0x3030 = 0x3010)"
proof -
  have "set_stat_tx 0x0020 (clear_dtog_tx (set_stat_rx 0x1000 v)) AND 0x3030 = 0x1020"
    "set_stat_rx 0x3000 (clear_dtog_rx (set_stat_tx 0x0010 v)) AND 0x3030 = 0x3010" for v
    by (rule u16_eqI; auto simp: field_defs bit_simps)+
  then show ?thesis using assms
    by (cases "USB_EP_DIR_IS_OUT ep") (simp_all add: usbd_ep_set_stall_def usbd_ep_clear_stall_def on_usb_def
        Let_def rd_def tx_status.acts rx_status.acts clear_tx_dtog.acts clear_rx_dtog.acts)
qed

theorem clear_stall_other_direction_witness:
  "\<exists>d1 d2. usbd_ep_set_stall 0x02 initialised = Some (0, d1) \<and> usbd_ep_clear_stall 0x02 d1 = Some (0, d2) \<and>
     EPR (USB d2) ! 2 AND 0x3030 = 0x1020"
  using clear_stall_other_direction [of "0x02" initialised]
  by (simp add: initialised_simps USB_EP_GET_IDX_def USB_EP_DIR_IS_OUT_def zero_ep_def)

end
