(* ===== verification/UsbState.thy ===== *)
theory UsbState imports UsbDc begin

text \<open>
  The state of the USB device stack above the controller port: setup packets, the registered classes,
  interfaces and endpoints, the control transfer, and the HID class data of class/hid/usbd_hid.c.
  \<open>'a\<close> is the state of the application, on which its callbacks act.
\<close>

subsection \<open>Setup packets\<close>

record usb_setup_packet =
  bmRequestType :: u8
  bRequest :: u8
  wValue :: u16
  wIndex :: u16
  wLength :: u16

definition half_word :: "u8 \<Rightarrow> u8 \<Rightarrow> u16" where
  "half_word lo hi = ucast lo OR push_bit 8 (ucast hi)"

definition LO_BYTE :: "u16 \<Rightarrow> u8" where "LO_BYTE x = ucast (x AND 0x00FF)"

definition HI_BYTE :: "u16 \<Rightarrow> u8" where "HI_BYTE x = ucast (drop_bit 8 (x AND 0xFF00))"

text \<open>The eight bytes of the packed structure, as the controller port writes them.\<close>

definition setup_bytes :: "usb_setup_packet \<Rightarrow> u8 list" where
  "setup_bytes s = [bmRequestType s, bRequest s, LO_BYTE (wValue s), HI_BYTE (wValue s),
     LO_BYTE (wIndex s), HI_BYTE (wIndex s), LO_BYTE (wLength s), HI_BYTE (wLength s)]"

definition setup_of_bytes :: "u8 list \<Rightarrow> usb_setup_packet" where
  "setup_of_bytes b = \<lparr>bmRequestType = b ! 0, bRequest = b ! 1, wValue = half_word (b ! 2) (b ! 3),
     wIndex = half_word (b ! 4) (b ! 5), wLength = half_word (b ! 6) (b ! 7)\<rparr>"

subsection \<open>Pointers to data sent on endpoint 0\<close>

text \<open>
  The objects that the data pointer of a control transfer can point to, and pointers as an object and
  an offset. The objects of the HID class are numbered by their element of \<open>usbd_hid_cfg\<close>.
\<close>

datatype obj =
    ReqData | Descr | RemoteWakeup | Configuration | Reserved
  | Msosv1String | Msosv1CompatId | Msosv1Property | Msosv2CompatId | BosString
  | HidDescriptor nat | HidReportDescriptor nat | HidReport nat | HidIdle nat | HidProtocol nat

datatype ptr = Null | Ptr obj nat

fun ptr_add :: "ptr \<Rightarrow> nat \<Rightarrow> ptr" where
  "ptr_add Null n = Null"
| "ptr_add (Ptr x k) n = Ptr x (k + n)"

subsection \<open>Registered objects\<close>

record usb_msosv1_descriptor =
  msosv1_string :: "u8 list"
  msosv1_string_len :: u8
  msosv1_vendor_code :: u8
  msosv1_compat_id :: "u8 list"
  msosv1_compat_id_len :: u16
  msosv1_comp_id_property :: "u8 list"
  msosv1_comp_id_property_len :: u16

record usb_msosv2_descriptor =
  msosv2_compat_id :: "u8 list"
  msosv2_compat_id_len :: u16
  msosv2_vendor_code :: u8

record usb_bos_descriptor =
  bos_string :: "u8 list"
  bos_string_len :: u32

datatype usbd_event =
    USBD_EVENT_ERROR | USBD_EVENT_RESET | USBD_EVENT_SOF | USBD_EVENT_CONNECTED | USBD_EVENT_CONFIGURED
  | USBD_EVENT_SUSPEND | USBD_EVENT_DISCONNECTED | USBD_EVENT_RESUME | USBD_EVENT_SET_INTERFACE
  | USBD_EVENT_SET_REMOTE_WAKEUP | USBD_EVENT_CLEAR_REMOTE_WAKEUP | USBD_EVENT_SET_HALT
  | USBD_EVENT_CLEAR_HALT | USBD_EVENT_SETUP_NOTIFY | USBD_EVENT_EP0_IN_NOTIFY
  | USBD_EVENT_EP0_OUT_NOTIFY | USBD_EVENT_EP_IN_NOTIFY | USBD_EVENT_EP_OUT_NOTIFY | USBD_EVENT_UNKNOWN

text \<open>
  The request and notification handlers that the code installs in an interface are those of the HID
  class; an endpoint callback is a function on the controller port and the application.
\<close>

datatype request_handler = hid_class_request | hid_custom_request

datatype notify_handler_fn = hid_notify

type_synonym 'a endpoint_callback = "u8 \<Rightarrow> usb_dc \<times> 'a \<Rightarrow> (usb_dc \<times> 'a) option"

record 'a usbd_endpoint =
  ept_addr :: u8
  ep_cb :: "'a endpoint_callback option"

text \<open>
  Classes, interfaces and endpoints are objects of the application, named by numbers; the intrusive
  lists are lists of these names.
\<close>

record usbd_interface =
  class_handler :: "request_handler option"
  vendor_handler :: "request_handler option"
  custom_handler :: "request_handler option"
  notify_handler :: "notify_handler_fn option"
  intf_num :: u8
  ep_list :: "nat list"

text \<open>
  \<open>usb_slist_add_tail\<close>: the node at the end gets \<open>n\<close> as its successor and \<open>n\<close> none. A node that is
  already in the list therefore ends it.
\<close>

definition usb_slist_add_tail :: "nat list \<Rightarrow> nat \<Rightarrow> nat list" where
  "usb_slist_add_tail l n = takeWhile (\<lambda>x. x \<noteq> n) l @ [n]"

subsection \<open>The HID class\<close>

record 'a usbd_hid_cfg_priv =
  hid_descriptor :: "u8 list option"
  hid_report_descriptor :: "u8 list option"
  hid_report_descriptor_len :: u32
  current_intf_num :: u8
  hid_state :: u8
  hid_report :: u8
  hid_idle_state :: u8
  hid_protocol :: u8
  get_report_callback :: "(u8 \<Rightarrow> u8 \<Rightarrow> 'a \<Rightarrow> u8 \<times> 'a) option"
  set_report_callback :: "(u8 \<Rightarrow> u8 \<Rightarrow> u8 list \<Rightarrow> u8 \<Rightarrow> 'a \<Rightarrow> 'a) option"
  get_idle_callback :: "(u8 \<Rightarrow> 'a \<Rightarrow> u8 \<times> 'a) option"
  set_idle_callback :: "(u8 \<Rightarrow> u8 \<Rightarrow> 'a \<Rightarrow> 'a) option"
  set_protocol_callback :: "(u8 \<Rightarrow> 'a \<Rightarrow> 'a) option"
  get_protocol_callback :: "('a \<Rightarrow> u8 \<times> 'a) option"

subsection \<open>The state\<close>

text \<open>
  \<open>usbd_core_cfg\<close>, the static variables of usbd_core.c and usbd_hid.c, the controller port and the
  application. The out parameters \<open>data\<close> and \<open>len\<close> of the request handlers always point to
  \<open>ep0_data_buf\<close> and \<open>ep0_data_buf_len\<close>, and \<open>setup\<close> to the setup packet; the handlers below update
  those fields.
\<close>

record 'a usbd =
  setup_pkt :: usb_setup_packet
  ep0_data_buf :: ptr
  ep0_data_buf_residue :: u32
  ep0_data_buf_len :: u32
  zlp_flag :: bool
  descriptors :: "u8 list option"
  req_data :: "u8 list"
  in_ep_cb :: "'a endpoint_callback option list"
  out_ep_cb :: "'a endpoint_callback option list"
  configured :: bool
  configuration :: u8
  remote_wakeup :: u16
  reserved :: u8
  usbd_class_head :: "nat list"
  intf_list :: "nat \<Rightarrow> nat list"
  interfaces :: "nat \<Rightarrow> usbd_interface"
  endpoints :: "nat \<Rightarrow> 'a usbd_endpoint"
  intf_offset :: u8
  msosv1_desc :: "usb_msosv1_descriptor option"
  msosv2_desc :: "usb_msosv2_descriptor option"
  bos_desc :: "usb_bos_descriptor option"
  usbd_hid_cfg :: "'a usbd_hid_cfg_priv list"
  usbd_hid_class_head :: "nat list"
  last_class :: "nat option"
  hid_num :: u8
  port_dc :: usb_dc
  application :: 'a

text \<open>The bytes of an object; \<open>None\<close> where there is no object behind the pointer.\<close>

fun obj_bytes :: "'a usbd \<Rightarrow> obj \<Rightarrow> u8 list option" where
  "obj_bytes s ReqData = Some (req_data s)"
| "obj_bytes s Descr = descriptors s"
| "obj_bytes s RemoteWakeup = Some [LO_BYTE (remote_wakeup s), HI_BYTE (remote_wakeup s)]"
| "obj_bytes s Configuration = Some [configuration s]"
| "obj_bytes s Reserved = Some [reserved s]"
| "obj_bytes s Msosv1String = map_option msosv1_string (msosv1_desc s)"
| "obj_bytes s Msosv1CompatId = map_option msosv1_compat_id (msosv1_desc s)"
| "obj_bytes s Msosv1Property = map_option msosv1_comp_id_property (msosv1_desc s)"
| "obj_bytes s Msosv2CompatId = map_option msosv2_compat_id (msosv2_desc s)"
| "obj_bytes s BosString = map_option bos_string (bos_desc s)"
| "obj_bytes s (HidDescriptor k) = do { h \<leftarrow> rd (usbd_hid_cfg s) k; hid_descriptor h }"
| "obj_bytes s (HidReportDescriptor k) = do { h \<leftarrow> rd (usbd_hid_cfg s) k; hid_report_descriptor h }"
| "obj_bytes s (HidReport k) = do { h \<leftarrow> rd (usbd_hid_cfg s) k; Some [hid_report h] }"
| "obj_bytes s (HidIdle k) = do { h \<leftarrow> rd (usbd_hid_cfg s) k; Some [hid_idle_state h] }"
| "obj_bytes s (HidProtocol k) = do { h \<leftarrow> rd (usbd_hid_cfg s) k; Some [hid_protocol h] }"

text \<open>The object from the pointer on, as \<open>usbd_ep_write\<close> gets it: null, or the bytes (a fault if none).\<close>

fun ptr_bytes :: "'a usbd \<Rightarrow> ptr \<Rightarrow> u8 list option option" where
  "ptr_bytes s Null = Some None"
| "ptr_bytes s (Ptr x k) = do { b \<leftarrow> obj_bytes s x; Some (Some (drop k b)) }"

definition deref :: "'a usbd \<Rightarrow> ptr \<Rightarrow> u8 option" where
  "deref s p = (case p of Null \<Rightarrow> None | Ptr x k \<Rightarrow> do { b \<leftarrow> obj_bytes s x; rd b k })"

definition set_data :: "ptr \<Rightarrow> u32 \<Rightarrow> 'a usbd \<Rightarrow> 'a usbd" where
  "set_data p l s = s\<lparr>ep0_data_buf := p, ep0_data_buf_len := l\<rparr>"

text \<open>A call of the controller port, and one that cannot fault.\<close>

definition on_dc :: "(usb_dc \<Rightarrow> (int \<times> usb_dc) option) \<Rightarrow> 'a usbd \<Rightarrow> (int \<times> 'a usbd) option" where
  "on_dc f s = do { (rc, d) \<leftarrow> f (port_dc s); Some (rc, s\<lparr>port_dc := d\<rparr>) }"

definition all_interfaces :: "'a usbd \<Rightarrow> nat list" where
  "all_interfaces s = concat (map (intf_list s) (usbd_class_head s))"

text \<open>The static variables at reset, for the given endpoint objects, controller port and application.\<close>

definition zero_hid :: "'a usbd_hid_cfg_priv" where
  "zero_hid = \<lparr>hid_descriptor = None, hid_report_descriptor = None, hid_report_descriptor_len = 0,
     current_intf_num = 0, hid_state = 0, hid_report = 0, hid_idle_state = 0, hid_protocol = 0,
     get_report_callback = None, set_report_callback = None, get_idle_callback = None,
     set_idle_callback = None, set_protocol_callback = None, get_protocol_callback = None\<rparr>"

definition zero_interface :: usbd_interface where
  "zero_interface = \<lparr>class_handler = None, vendor_handler = None, custom_handler = None, notify_handler = None,
     intf_num = 0, ep_list = []\<rparr>"

definition usbd_zero :: "(nat \<Rightarrow> 'a usbd_endpoint) \<Rightarrow> usb_dc \<Rightarrow> 'a \<Rightarrow> 'a usbd" where
  "usbd_zero eps d a = \<lparr>setup_pkt = \<lparr>bmRequestType = 0, bRequest = 0, wValue = 0, wIndex = 0, wLength = 0\<rparr>,
     ep0_data_buf = Null, ep0_data_buf_residue = 0, ep0_data_buf_len = 0, zlp_flag = False, descriptors = None,
     req_data = replicate 256 0, in_ep_cb = replicate 8 None, out_ep_cb = replicate 8 None, configured = False,
     configuration = 0, remote_wakeup = 0, reserved = 0, usbd_class_head = [], intf_list = (\<lambda>_. []),
     interfaces = (\<lambda>_. zero_interface), endpoints = eps, intf_offset = 0, msosv1_desc = None,
     msosv2_desc = None, bos_desc = None, usbd_hid_cfg = replicate 4 zero_hid, usbd_hid_class_head = [],
     last_class = None, hid_num = 0, port_dc = d, application = a\<rparr>"

subsection \<open>Basic facts\<close>

lemma half_word_bytes_16: "half_word (LO_BYTE x) (HI_BYTE x) = x"
  unfolding half_word_def LO_BYTE_def HI_BYTE_def
  by (rule u16_eqI; simp add: bit_simps)

lemma length_setup_bytes [simp]: "length (setup_bytes s) = 8"
  by (simp add: setup_bytes_def)

lemma setup_roundtrip: "setup_of_bytes (setup_bytes s) = s"
  by (simp add: setup_of_bytes_def setup_bytes_def half_word_bytes_16)

lemma usb_slist_add_tail_fresh: "n \<notin> set l \<Longrightarrow> usb_slist_add_tail l n = l @ [n]"
  by (auto simp: usb_slist_add_tail_def intro: takeWhile_eq_all_conv [THEN iffD2])

lemma usb_slist_add_tail_distinct: "distinct l \<Longrightarrow> distinct (usb_slist_add_tail l n)"
  by (auto simp: usb_slist_add_tail_def intro: distinct_takeWhile dest: set_takeWhileD)

end
