(* ===== verification/UsbHid.thy ===== *)
theory UsbHid imports UsbState begin

text \<open>
  The HID class, class/hid/usbd_hid.c: its request and notification handlers, its registration
  functions, and the registration functions of usbd_core.c that they use.
\<close>

subsection \<open>Registration in the core\<close>

definition usbd_desc_register :: "u8 list \<Rightarrow> 'a usbd \<Rightarrow> 'a usbd" where
  "usbd_desc_register ds s = s\<lparr>descriptors := Some ds\<rparr>"

definition usbd_msosv1_desc_register :: "usb_msosv1_descriptor option \<Rightarrow> 'a usbd \<Rightarrow> 'a usbd" where
  "usbd_msosv1_desc_register ds s = s\<lparr>msosv1_desc := ds\<rparr>"

definition usbd_msosv2_desc_register :: "usb_msosv2_descriptor option \<Rightarrow> 'a usbd \<Rightarrow> 'a usbd" where
  "usbd_msosv2_desc_register ds s = s\<lparr>msosv2_desc := ds\<rparr>"

definition usbd_bos_desc_register :: "usb_bos_descriptor option \<Rightarrow> 'a usbd \<Rightarrow> 'a usbd" where
  "usbd_bos_desc_register ds s = s\<lparr>bos_desc := ds\<rparr>"

definition usbd_class_register :: "nat \<Rightarrow> 'a usbd \<Rightarrow> 'a usbd" where
  "usbd_class_register c s =
     s\<lparr>usbd_class_head := usb_slist_add_tail (usbd_class_head s) c, intf_list := (intf_list s)(c := [])\<rparr>"

definition usbd_class_add_interface :: "nat \<Rightarrow> nat \<Rightarrow> 'a usbd \<Rightarrow> 'a usbd" where
  "usbd_class_add_interface c i s =
     (let s = s\<lparr>interfaces := (interfaces s)(i := (interfaces s i)\<lparr>intf_num := intf_offset s\<rparr>)\<rparr>;
          s = s\<lparr>intf_list := (intf_list s)(c := usb_slist_add_tail (intf_list s c) i)\<rparr>;
          s = s\<lparr>interfaces := (interfaces s)(i := (interfaces s i)\<lparr>ep_list := []\<rparr>)\<rparr>
      in s\<lparr>intf_offset := intf_offset s + 1\<rparr>)"

definition usbd_interface_add_endpoint :: "nat \<Rightarrow> nat \<Rightarrow> 'a usbd \<Rightarrow> 'a usbd" where
  "usbd_interface_add_endpoint i e s =
     s\<lparr>interfaces := (interfaces s)(i := (interfaces s i)\<lparr>ep_list := usb_slist_add_tail (ep_list (interfaces s i)) e\<rparr>)\<rparr>"

definition usb_device_is_configured :: "'a usbd \<Rightarrow> bool" where
  "usb_device_is_configured s = configured s"

subsection \<open>Handlers\<close>

text \<open>The search of every handler: the first element of the class list with the interface number.\<close>

definition hid_of_intf :: "u8 \<Rightarrow> 'a usbd \<Rightarrow> nat option" where
  "hid_of_intf n s = find (\<lambda>k. current_intf_num (usbd_hid_cfg s ! k) = n) (usbd_hid_class_head s)"

definition upd_hid :: "nat \<Rightarrow> ('a usbd_hid_cfg_priv \<Rightarrow> 'a usbd_hid_cfg_priv) \<Rightarrow> 'a usbd \<Rightarrow> 'a usbd" where
  "upd_hid k f s = s\<lparr>usbd_hid_cfg := (usbd_hid_cfg s)[k := f (usbd_hid_cfg s ! k)]\<rparr>"

definition usbd_hid_reset :: "'a usbd \<Rightarrow> 'a usbd" where
  "usbd_hid_reset s = fold (\<lambda>k. upd_hid k (\<lambda>h. h\<lparr>hid_state := 0, hid_report := 0, hid_idle_state := 0,
     hid_protocol := 0\<rparr>)) (usbd_hid_class_head s) s"

text \<open>Null or the object, for a pointer variable of the class.\<close>

definition ptr_to :: "obj \<Rightarrow> u8 list option \<Rightarrow> ptr" where
  "ptr_to x v = (case v of None \<Rightarrow> Null | Some _ \<Rightarrow> Ptr x 0)"

text \<open>Reading \<open>hid_descriptor[0]\<close> faults when no descriptor is registered.\<close>

definition hid_custom_request_handler :: "'a usbd \<Rightarrow> (int \<times> 'a usbd) option" where
  "hid_custom_request_handler s =
     (let p = setup_pkt s in
      if bmRequestType p AND 0x80 = 0x80 \<and> bRequest p = 0x06
      then
        let val8 = ucast (drop_bit 8 (wValue p)) :: u8 in
        case hid_of_intf (ucast (wIndex p)) s of
          None \<Rightarrow> Some (-2, s)
        | Some k \<Rightarrow>
            let h = usbd_hid_cfg s ! k in
            if val8 = 0x21
            then do { ds \<leftarrow> hid_descriptor h; l \<leftarrow> rd ds 0; Some (0, set_data (Ptr (HidDescriptor k) 0) (ucast l) s) }
            else if val8 = 0x22
            then Some (0, set_data (ptr_to (HidReportDescriptor k) (hid_report_descriptor h)) (hid_report_descriptor_len h) s)
            else if val8 = 0x23 then Some (0, s)
            else Some (-2, s)
      else Some (-1, s))"

definition hid_class_request_handler :: "'a usbd \<Rightarrow> (int \<times> 'a usbd) option" where
  "hid_class_request_handler s =
     (let p = setup_pkt s in
      case hid_of_intf (ucast (wIndex p)) s of
        None \<Rightarrow> Some (-2, s)
      | Some k \<Rightarrow>
          let h = usbd_hid_cfg s ! k in
          if bRequest p = 0x01
          then let s = (case get_report_callback h of None \<Rightarrow> s
                 | Some f \<Rightarrow> let (v, a) = f (LO_BYTE (wValue p)) (HI_BYTE (wValue p)) (application s)
                     in upd_hid k (\<lambda>h. h\<lparr>hid_report := v\<rparr>) (s\<lparr>application := a\<rparr>))
               in Some (0, set_data (Ptr (HidReport k) 0) 1 s)
          else if bRequest p = 0x02
          then let s = (case get_idle_callback h of None \<Rightarrow> s
                 | Some f \<Rightarrow> let (v, a) = f (LO_BYTE (wValue p)) (application s)
                     in upd_hid k (\<lambda>h. h\<lparr>hid_idle_state := v\<rparr>) (s\<lparr>application := a\<rparr>))
               in Some (0, set_data (Ptr (HidIdle k) 0) 1 s)
          else if bRequest p = 0x03
          then let s = (case get_protocol_callback h of None \<Rightarrow> s
                 | Some f \<Rightarrow> let (v, a) = f (application s)
                     in upd_hid k (\<lambda>h. h\<lparr>hid_protocol := v\<rparr>) (s\<lparr>application := a\<rparr>))
               in Some (0, set_data (Ptr (HidProtocol k) 0) 1 s)
          else if bRequest p = 0x09
          then do {
            s \<leftarrow> (case set_report_callback h of None \<Rightarrow> Some s
               | Some f \<Rightarrow> do { src \<leftarrow> ptr_bytes s (ep0_data_buf s);
                   Some (s\<lparr>application := f (LO_BYTE (wValue p)) (HI_BYTE (wValue p)) (case src of None \<Rightarrow> [] | Some b \<Rightarrow> b)
                     (ucast (ep0_data_buf_len s)) (application s)\<rparr>) });
            b \<leftarrow> deref s (ep0_data_buf s);
            Some (0, upd_hid k (\<lambda>h. h\<lparr>hid_report := b\<rparr>) s) }
          else if bRequest p = 0x0A
          then let s = (case set_idle_callback h of None \<Rightarrow> s
                 | Some f \<Rightarrow> s\<lparr>application := f (LO_BYTE (wValue p)) (HI_BYTE (wIndex p)) (application s)\<rparr>)
               in Some (0, upd_hid k (\<lambda>h. h\<lparr>hid_idle_state := HI_BYTE (wIndex p)\<rparr>) s)
          else if bRequest p = 0x0B
          then let s = (case set_protocol_callback h of None \<Rightarrow> s
                 | Some f \<Rightarrow> s\<lparr>application := f (LO_BYTE (wValue p)) (application s)\<rparr>)
               in Some (0, upd_hid k (\<lambda>h. h\<lparr>hid_protocol := LO_BYTE (wValue p)\<rparr>) s)
          else Some (-1, s))"

definition hid_notify_handler :: "usbd_event \<Rightarrow> 'a usbd \<Rightarrow> 'a usbd" where
  "hid_notify_handler event s = (if event = USBD_EVENT_RESET then usbd_hid_reset s else s)"

subsection \<open>Registration of a HID interface\<close>

definition usbd_hid_add_interface :: "nat \<Rightarrow> nat \<Rightarrow> 'a usbd \<Rightarrow> 'a usbd option" where
  "usbd_hid_add_interface devclass i s =
     (let s = (if last_class s \<noteq> Some devclass
               then usbd_class_register devclass (s\<lparr>last_class := Some devclass\<rparr>) else s);
          s = s\<lparr>interfaces := (interfaces s)(i := (interfaces s i)\<lparr>class_handler := Some hid_class_request,
                custom_handler := Some hid_custom_request, vendor_handler := None, notify_handler := Some hid_notify\<rparr>)\<rparr>;
          s = usbd_class_add_interface devclass i s;
          n = unat (hid_num s)
      in do { h \<leftarrow> rd (usbd_hid_cfg s) n;
              let s = upd_hid n (\<lambda>h. h\<lparr>current_intf_num := intf_num (interfaces s i)\<rparr>) s;
              let s = s\<lparr>usbd_hid_class_head := usb_slist_add_tail (usbd_hid_class_head s) n\<rparr>;
              Some (s\<lparr>hid_num := hid_num s + 1\<rparr>) })"

text \<open>\<open>usbd_hid_descriptor_register\<close> and \<open>usbd_hid_reset_state\<close> and \<open>usbd_hid_send_report\<close> have empty bodies.\<close>

definition usbd_hid_descriptor_register :: "u8 \<Rightarrow> u8 list \<Rightarrow> 'a usbd \<Rightarrow> 'a usbd" where
  "usbd_hid_descriptor_register n ds s = s"

definition usbd_hid_reset_state :: "'a usbd \<Rightarrow> 'a usbd" where
  "usbd_hid_reset_state s = s"

definition usbd_hid_send_report :: "u8 \<Rightarrow> u8 list \<Rightarrow> u8 \<Rightarrow> 'a usbd \<Rightarrow> 'a usbd" where
  "usbd_hid_send_report ep src n s = s"

definition usbd_hid_report_descriptor_register :: "u8 \<Rightarrow> u8 list \<Rightarrow> u32 \<Rightarrow> 'a usbd \<Rightarrow> 'a usbd" where
  "usbd_hid_report_descriptor_register n ds desc_len s =
     (case hid_of_intf n s of None \<Rightarrow> s
      | Some k \<Rightarrow> upd_hid k (\<lambda>h. h\<lparr>hid_report_descriptor := Some ds, hid_report_descriptor_len := desc_len\<rparr>) s)"

text \<open>A callback argument that is null leaves the installed one.\<close>

definition or_else :: "'b option \<Rightarrow> 'b option \<Rightarrow> 'b option" where
  "or_else new old = (case new of None \<Rightarrow> old | Some _ \<Rightarrow> new)"

definition usbd_hid_set_request_callback ::
  "u8 \<Rightarrow> (u8 \<Rightarrow> u8 \<Rightarrow> 'a \<Rightarrow> u8 \<times> 'a) option \<Rightarrow> (u8 \<Rightarrow> u8 \<Rightarrow> u8 list \<Rightarrow> u8 \<Rightarrow> 'a \<Rightarrow> 'a) option \<Rightarrow>
   (u8 \<Rightarrow> 'a \<Rightarrow> u8 \<times> 'a) option \<Rightarrow> (u8 \<Rightarrow> u8 \<Rightarrow> 'a \<Rightarrow> 'a) option \<Rightarrow> (u8 \<Rightarrow> 'a \<Rightarrow> 'a) option \<Rightarrow>
   ('a \<Rightarrow> u8 \<times> 'a) option \<Rightarrow> 'a usbd \<Rightarrow> 'a usbd" where
  "usbd_hid_set_request_callback n gr sr gi si sp gp s =
     (case hid_of_intf n s of None \<Rightarrow> s
      | Some k \<Rightarrow> upd_hid k (\<lambda>h. h\<lparr>get_report_callback := or_else gr (get_report_callback h),
          set_report_callback := or_else sr (set_report_callback h),
          get_idle_callback := or_else gi (get_idle_callback h),
          set_idle_callback := or_else si (set_idle_callback h),
          set_protocol_callback := or_else sp (set_protocol_callback h),
          get_protocol_callback := or_else gp (get_protocol_callback h)\<rparr>) s)"

end
