(* ===== verification/UsbCore.thy ===== *)
theory UsbCore imports UsbHid begin

text \<open>
  The device core, core/usbd_core.c: descriptor walks, the standard, class, vendor and custom request
  handlers, the control transfer on endpoint 0, endpoint callbacks and event notification.
\<close>

subsection \<open>Walking the descriptors\<close>

text \<open>
  The loop \<open>while (p[DESC_bLength] != 0) { body; p += p[DESC_bLength]; }\<close>: the body leaves the loop with
  a result (\<open>Inl\<close>) or goes on (\<open>Inr\<close>); at the zero length the loop ends with \<open>Inr\<close>. A walk off the end
  of the table is a fault.
\<close>

function walk_desc :: "(nat \<Rightarrow> 's \<Rightarrow> ('r + 's) option) \<Rightarrow> u8 list \<Rightarrow> nat \<Rightarrow> 's \<Rightarrow> ('r + 's) option" where
  "walk_desc body ds p s =
     (if p < length ds
      then (if ds ! p = 0 then Some (Inr s)
            else (case body p s of
                None \<Rightarrow> None
              | Some (Inl r) \<Rightarrow> Some (Inl r)
              | Some (Inr s') \<Rightarrow> walk_desc body ds (p + unat (ds ! p)) s'))
      else None)"
  by pat_completeness auto
termination
  by (relation "measure (\<lambda>(body, ds, p, s). length ds - p)") (auto simp: unat_gt_0 intro!: diff_less_mono2)

declare walk_desc.simps [simp del]

definition is_device_configured :: "'a usbd \<Rightarrow> bool" where
  "is_device_configured s \<longleftrightarrow> configuration s \<noteq> 0"

definition is_interface_valid :: "u8 \<Rightarrow> 'a usbd \<Rightarrow> bool option" where
  "is_interface_valid intf s =
     do { ds \<leftarrow> descriptors s;
          r \<leftarrow> walk_desc (\<lambda>p u. do { ty \<leftarrow> rd ds (p + 1);
                 if ty = 0x02
                 then do { n \<leftarrow> rd ds (p + 4); Some (if intf < n then Inl True else Inr u) }
                 else Some (Inr u) }) ds 0 ();
          Some (case r of Inl b \<Rightarrow> b | Inr u \<Rightarrow> False) }"

definition is_ep_valid :: "u8 \<Rightarrow> bool" where
  "is_ep_valid ep = (if ep AND 0x7F = 0 then True else True)"

subsection \<open>Endpoints\<close>

definition usbd_ep_callback_register :: "'a usbd \<Rightarrow> 'a usbd option" where
  "usbd_ep_callback_register s =
     for_each (\<lambda>i. for_each (\<lambda>k s. let e = endpoints s k in
          case ep_cb e of None \<Rightarrow> Some s
          | Some cb \<Rightarrow>
              if ept_addr e AND 0x80 \<noteq> 0
              then do { l \<leftarrow> wr (in_ep_cb s) (unat (ept_addr e AND 0x7F)) (Some cb); Some (s\<lparr>in_ep_cb := l\<rparr>) }
              else do { l \<leftarrow> wr (out_ep_cb s) (unat (ept_addr e AND 0x7F)) (Some cb); Some (s\<lparr>out_ep_cb := l\<rparr>) })
        (ep_list (interfaces s i))) (all_interfaces s) s"

definition ep_cfg_of_desc :: "u8 list \<Rightarrow> nat \<Rightarrow> usbd_endpoint_cfg option" where
  "ep_cfg_of_desc ds p =
     do { a \<leftarrow> rd ds (p + 2); t \<leftarrow> rd ds (p + 3); lo \<leftarrow> rd ds (p + 4); hi \<leftarrow> rd ds (p + 5);
          Some \<lparr>cfg_ep_addr = a, cfg_ep_mps = half_word lo hi AND 0x07FF, cfg_ep_type = t AND 0x03\<rparr> }"

text \<open>What \<open>usbd_ep_open\<close> returns is not looked at.\<close>

definition usbd_set_endpoint :: "u8 list \<Rightarrow> nat \<Rightarrow> 'a usbd \<Rightarrow> (bool \<times> 'a usbd) option" where
  "usbd_set_endpoint ds p s =
     do { c \<leftarrow> ep_cfg_of_desc ds p;
          (rc, s) \<leftarrow> on_dc (usbd_ep_open c) s;
          Some (True, s\<lparr>configured := True\<rparr>) }"

definition usbd_reset_endpoint :: "u8 list \<Rightarrow> nat \<Rightarrow> 'a usbd \<Rightarrow> (bool \<times> 'a usbd) option" where
  "usbd_reset_endpoint ds p s =
     do { c \<leftarrow> ep_cfg_of_desc ds p; (rc, s) \<leftarrow> on_dc (usbd_ep_close (cfg_ep_addr c)) s; Some (True, s) }"

subsection \<open>Descriptors\<close>

definition usbd_get_descriptor :: "u16 \<Rightarrow> 'a usbd \<Rightarrow> (bool \<times> 'a usbd) option" where
  "usbd_get_descriptor type_index s =
     (let ty = ucast (drop_bit 8 type_index) :: u8; index = ucast type_index :: u8 in
      if ty = 0x03 \<and> index = 0xEE
      then (case msosv1_desc s of None \<Rightarrow> Some (False, s)
            | Some m \<Rightarrow> Some (True, set_data (Ptr Msosv1String 0) (ucast (msosv1_string_len m)) s))
      else if ty = 0x0F
      then (case bos_desc s of None \<Rightarrow> Some (False, s)
            | Some m \<Rightarrow> Some (True, set_data (Ptr BosString 0) (bos_string_len m) s))
      else if ty = 0x04 \<or> ty = 0x05 \<or> ty > 0x05 then Some (False, s)
      else do {
        ds \<leftarrow> descriptors s;
        r \<leftarrow> walk_desc (\<lambda>p cur_index. do { t \<leftarrow> rd ds (p + 1);
               if t = ty then Some (if cur_index = ucast index then Inl p else Inr (cur_index + 1))
               else Some (Inr cur_index) }) ds 0 (0 :: u32);
        case r of
          Inr cur_index \<Rightarrow> Some (False, s)
        | Inl p \<Rightarrow>
            if ty = 0x02
            then do { lo \<leftarrow> rd ds (p + 2); hi \<leftarrow> rd ds (p + 3);
                      Some (True, set_data (Ptr Descr p) (ucast lo OR push_bit 8 (ucast hi)) s) }
            else do { l \<leftarrow> rd ds p; Some (True, set_data (Ptr Descr p) (ucast l) s) } })"

text \<open>The three local variables of the configuration walk and the state it changes.\<close>

record 'a cfg_walk =
  cw_found :: bool
  cw_alt :: u8
  cw_id :: u8
  cw_st :: "'a usbd"

definition set_config_body :: "u8 list \<Rightarrow> u8 \<Rightarrow> u8 \<Rightarrow> nat \<Rightarrow> 'a cfg_walk \<Rightarrow> (unit + 'a cfg_walk) option" where
  "set_config_body ds config_index alt_setting p w =
     do { ty \<leftarrow> rd ds (p + 1);
          if ty = 0x02
          then do { c \<leftarrow> rd ds (p + 5);
                    let w = w\<lparr>cw_id := c\<rparr>;
                    Some (Inr (if c = config_index then w\<lparr>cw_found := True\<rparr> else w)) }
          else if ty = 0x04 then do { a \<leftarrow> rd ds (p + 3); Some (Inr (w\<lparr>cw_alt := a\<rparr>)) }
          else if ty = 0x05
          then if cw_id w \<noteq> config_index \<or> cw_alt w \<noteq> alt_setting then Some (Inr w)
               else do { (found, s) \<leftarrow> usbd_set_endpoint ds p (cw_st w);
                         Some (Inr (w\<lparr>cw_found := found, cw_st := s\<rparr>)) }
          else Some (Inr w) }"

definition usbd_set_configuration :: "u8 \<Rightarrow> u8 \<Rightarrow> 'a usbd \<Rightarrow> (bool \<times> 'a usbd) option" where
  "usbd_set_configuration config_index alt_setting s =
     (if config_index = 0 then Some (True, s)
      else do {
        ds \<leftarrow> descriptors s;
        r \<leftarrow> walk_desc (set_config_body ds config_index alt_setting) ds 0
               \<lparr>cw_found = False, cw_alt = 0xFF, cw_id = 0xFF, cw_st = s\<rparr>;
        case r of Inl u \<Rightarrow> None | Inr w \<Rightarrow> Some (cw_found w, cw_st w) })"

text \<open>
  Class notification: every interface with a handler gets the event. The argument of the event is not
  read by the HID handler.
\<close>

definition usbd_class_event_notify_handler :: "usbd_event \<Rightarrow> 'a usbd \<Rightarrow> 'a usbd" where
  "usbd_class_event_notify_handler event s =
     fold (\<lambda>i s. case notify_handler (interfaces s i) of None \<Rightarrow> s | Some hid_notify \<Rightarrow> hid_notify_handler event s)
       (all_interfaces s) s"

definition set_intf_body :: "u8 list \<Rightarrow> u8 \<Rightarrow> u8 \<Rightarrow> nat \<Rightarrow> 'a cfg_walk \<Rightarrow> (unit + 'a cfg_walk) option" where
  "set_intf_body ds iface alt_setting p w =
     do { ty \<leftarrow> rd ds (p + 1);
          if ty = 0x04
          then do { a \<leftarrow> rd ds (p + 3); n \<leftarrow> rd ds (p + 2); Some (Inr (w\<lparr>cw_alt := a, cw_id := n\<rparr>)) }
          else if ty = 0x05
          then if cw_id w = iface
               then do { (ret, s) \<leftarrow> (if cw_alt w \<noteq> alt_setting then usbd_reset_endpoint ds p (cw_st w)
                           else usbd_set_endpoint ds p (cw_st w));
                         Some (Inr (w\<lparr>cw_found := ret, cw_st := s\<rparr>)) }
               else Some (Inr w)
          else Some (Inr w) }"

definition usbd_set_interface :: "u8 \<Rightarrow> u8 \<Rightarrow> 'a usbd \<Rightarrow> (bool \<times> 'a usbd) option" where
  "usbd_set_interface iface alt_setting s =
     do { ds \<leftarrow> descriptors s;
          r \<leftarrow> walk_desc (set_intf_body ds iface alt_setting) ds 0
                 \<lparr>cw_found = False, cw_alt = 0xFF, cw_id = 0xFF, cw_st = s\<rparr>;
          case r of Inl u \<Rightarrow> None
          | Inr w \<Rightarrow> Some (cw_found w, usbd_class_event_notify_handler USBD_EVENT_SET_INTERFACE (cw_st w)) }"

subsection \<open>Standard requests\<close>

definition usbd_std_device_req_handler :: "'a usbd \<Rightarrow> (bool \<times> 'a usbd) option" where
  "usbd_std_device_req_handler s =
     (let p = setup_pkt s; val = wValue p in
      if bRequest p = 0x00 then Some (True, set_data (Ptr RemoteWakeup 0) 2 s)
      else if bRequest p = 0x01
      then if val = 1
           then Some (True, usbd_class_event_notify_handler USBD_EVENT_CLEAR_REMOTE_WAKEUP (s\<lparr>remote_wakeup := 0\<rparr>))
           else Some (False, s)
      else if bRequest p = 0x03
      then if val = 1
           then Some (True, usbd_class_event_notify_handler USBD_EVENT_SET_REMOTE_WAKEUP (s\<lparr>remote_wakeup := 1\<rparr>))
           else Some (False, s)
      else if bRequest p = 0x05
      then let (rc, d) = usbd_set_address (ucast val) (port_dc s) in Some (True, s\<lparr>port_dc := d\<rparr>)
      else if bRequest p = 0x06 then usbd_get_descriptor val s
      else if bRequest p = 0x07 then Some (False, s)
      else if bRequest p = 0x08 then Some (True, set_data (Ptr Configuration 0) 1 s)
      else if bRequest p = 0x09
      then let val = val AND 0xFF in
           do { (ok, s) \<leftarrow> usbd_set_configuration (ucast val) 0 s;
                if \<not> ok then Some (False, s)
                else Some (True, usbd_class_event_notify_handler USBD_EVENT_CONFIGURED (s\<lparr>configuration := ucast val\<rparr>)) }
      else if bRequest p = 0x0A then Some (True, s)
      else if bRequest p = 0x0B then Some (True, s)
      else Some (False, s))"

definition usbd_std_interface_req_handler :: "'a usbd \<Rightarrow> (bool \<times> 'a usbd) option" where
  "usbd_std_interface_req_handler s =
     (let p = setup_pkt s in
      do { refused \<leftarrow> (if \<not> is_device_configured s then Some True
             else do { v \<leftarrow> is_interface_valid (ucast (wIndex p)) s; Some (\<not> v) });
           if refused then Some (False, s)
           else if bRequest p = 0x00 then Some (True, set_data (Ptr RemoteWakeup 0) 2 s)
           else if bRequest p = 0x01 \<or> bRequest p = 0x03 then Some (False, s)
           else if bRequest p = 0x0A then Some (True, set_data (Ptr Reserved 0) 1 s)
           else if bRequest p = 0x0B
           then do { (ret, s) \<leftarrow> usbd_set_interface (ucast (wIndex p)) (ucast (wValue p)) s; Some (True, s) }
           else Some (False, s) })"

definition usbd_std_endpoint_req_handler :: "'a usbd \<Rightarrow> (bool \<times> 'a usbd) option" where
  "usbd_std_endpoint_req_handler s =
     (let p = setup_pkt s; ep = ucast (wIndex p) :: u8; ctrl_or_configured = (ep AND 0x7F = 0 \<or> is_device_configured s) in
      if \<not> is_ep_valid ep then Some (False, s)
      else if bRequest p = 0x00
      then if ctrl_or_configured
           then let (rc, d) = usbd_ep_is_stalled ep (port_dc s)
                in Some (True, set_data (Ptr RemoteWakeup 0) 2 (s\<lparr>port_dc := d\<rparr>))
           else Some (False, s)
      else if bRequest p = 0x01
      then if wValue p = 0 \<and> ctrl_or_configured
           then do { (rc, s) \<leftarrow> on_dc (usbd_ep_clear_stall ep) s;
                     Some (True, usbd_class_event_notify_handler USBD_EVENT_CLEAR_HALT s) }
           else Some (False, s)
      else if bRequest p = 0x03
      then if wValue p = 0 \<and> ctrl_or_configured
           then do { (rc, s) \<leftarrow> on_dc (usbd_ep_set_stall ep) s;
                     Some (True, usbd_class_event_notify_handler USBD_EVENT_SET_HALT s) }
           else Some (False, s)
      else Some (False, s))"

definition usbd_standard_request_handler :: "'a usbd \<Rightarrow> (int \<times> 'a usbd) option" where
  "usbd_standard_request_handler s =
     (let recipient = bmRequestType (setup_pkt s) AND 0x03; rc = (\<lambda>ok. if ok then 0 else - 1 :: int) in
      if recipient = 0x00 then do { (ok, s) \<leftarrow> usbd_std_device_req_handler s; Some (rc ok, s) }
      else if recipient = 0x01 then do { (ok, s) \<leftarrow> usbd_std_interface_req_handler s; Some (rc ok, s) }
      else if recipient = 0x02 then do { (ok, s) \<leftarrow> usbd_std_endpoint_req_handler s; Some (rc ok, s) }
      else Some (-1, s))"

subsection \<open>Class, vendor and custom requests\<close>

fun call_request :: "request_handler \<Rightarrow> 'a usbd \<Rightarrow> (int \<times> 'a usbd) option" where
  "call_request hid_class_request s = hid_class_request_handler s"
| "call_request hid_custom_request s = hid_custom_request_handler s"

text \<open>The search of the class and custom handlers: the first interface with the number and a handler.\<close>

definition intf_request ::
  "(usbd_interface \<Rightarrow> request_handler option) \<Rightarrow> 'a usbd \<Rightarrow> request_handler option" where
  "intf_request get s =
     (case find (\<lambda>i. get (interfaces s i) \<noteq> None \<and>
         ucast (intf_num (interfaces s i)) = wIndex (setup_pkt s) AND 0xFF) (all_interfaces s) of
        None \<Rightarrow> None | Some i \<Rightarrow> get (interfaces s i))"

definition usbd_class_request_handler :: "'a usbd \<Rightarrow> (int \<times> 'a usbd) option" where
  "usbd_class_request_handler s =
     (if bmRequestType (setup_pkt s) AND 0x03 \<noteq> 0x01 then Some (-1, s)
      else case intf_request class_handler s of None \<Rightarrow> Some (-1, s) | Some f \<Rightarrow> call_request f s)"

definition usbd_custom_request_handler :: "'a usbd \<Rightarrow> (int \<times> 'a usbd) option" where
  "usbd_custom_request_handler s =
     (if bmRequestType (setup_pkt s) AND 0x03 \<noteq> 0x01 then Some (-1, s)
      else case intf_request custom_handler s of None \<Rightarrow> Some (-1, s) | Some f \<Rightarrow> call_request f s)"

text \<open>The vendor handlers are tried in turn until one returns 0.\<close>

fun try_vendor :: "nat list \<Rightarrow> 'a usbd \<Rightarrow> (int \<times> 'a usbd) option" where
  "try_vendor [] s = Some (-1, s)"
| "try_vendor (i # is) s =
     (case vendor_handler (interfaces s i) of
        None \<Rightarrow> try_vendor is s
      | Some f \<Rightarrow> do { (rc, s) \<leftarrow> call_request f s; if rc = 0 then Some (0, s) else try_vendor is s })"

definition usbd_vendor_request_handler :: "'a usbd \<Rightarrow> (int \<times> 'a usbd) option" where
  "usbd_vendor_request_handler s =
     (let p = setup_pkt s in
      case msosv1_desc s of
        Some m \<Rightarrow>
          if bRequest p = msosv1_vendor_code m
          then if wIndex p = 0x04
               then Some (0, set_data (Ptr Msosv1CompatId 0) (ucast (msosv1_compat_id_len m)) s)
               else if wIndex p = 0x05
               then Some (0, set_data (Ptr Msosv1Property 0) (ucast (msosv1_comp_id_property_len m)) s)
               else Some (-1, s)
          else try_vendor (all_interfaces s) s
      | None \<Rightarrow>
          (case msosv2_desc s of
             Some m \<Rightarrow>
               if bRequest p = msosv2_vendor_code m
               then if wIndex p = 0x07
                    then Some (0, set_data (Ptr Msosv2CompatId 0) (ucast (msosv2_compat_id_len m)) s)
                    else Some (-1, s)
               else try_vendor (all_interfaces s) s
           | None \<Rightarrow> try_vendor (all_interfaces s) s))"

definition usbd_setup_request_handler :: "'a usbd \<Rightarrow> (bool \<times> 'a usbd) option" where
  "usbd_setup_request_handler s =
     (let ty = bmRequestType (setup_pkt s) AND 0x60 in
      do { (rc, s) \<leftarrow> usbd_custom_request_handler s;
           if rc = 0 then Some (True, s)
           else if ty = 0x00 then do { (rc, s) \<leftarrow> usbd_standard_request_handler s; Some (\<not> rc < 0, s) }
           else if ty = 0x20 then do { (rc, s) \<leftarrow> usbd_class_request_handler s; Some (\<not> rc < 0, s) }
           else if ty = 0x40 then do { (rc, s) \<leftarrow> usbd_vendor_request_handler s; Some (\<not> rc < 0, s) }
           else Some (False, s) })"

subsection \<open>The control transfer\<close>

definition usbd_send_to_host :: "u16 \<Rightarrow> 'a usbd \<Rightarrow> 'a usbd option" where
  "usbd_send_to_host len s =
     (if \<not> zlp_flag s
      then do {
        src \<leftarrow> ptr_bytes s (ep0_data_buf s);
        (rc, ret, d) \<leftarrow> usbd_ep_write 0x80 src (ep0_data_buf_residue s) (port_dc s);
        let s = s\<lparr>port_dc := d\<rparr>;
        let chunk = (case ret of None \<Rightarrow> ep0_data_buf_residue s | Some c \<Rightarrow> c);
        if rc < 0 then Some s
        else do {
          let s = s\<lparr>ep0_data_buf := ptr_add (ep0_data_buf s) (unat chunk)\<rparr>;
          let s = s\<lparr>ep0_data_buf_residue := ep0_data_buf_residue s - chunk\<rparr>;
          Some (if ep0_data_buf_residue s = 0 \<and> ucast len > ep0_data_buf_len s \<and> ep0_data_buf_len s mod 64 = 0
                then s\<lparr>zlp_flag := True\<rparr> else s) } }
      else do {
        let s = s\<lparr>zlp_flag := False\<rparr>;
        (rc, ret, d) \<leftarrow> usbd_ep_write 0x80 None 0 (port_dc s);
        Some (s\<lparr>port_dc := d\<rparr>) })"

definition stall_ep0 :: "'a usbd \<Rightarrow> 'a usbd option" where
  "stall_ep0 s = do { (rc, s) \<leftarrow> on_dc (usbd_ep_set_stall 0x80) s; Some s }"

definition usbd_ep0_setup_handler :: "'a usbd \<Rightarrow> 'a usbd option" where
  "usbd_ep0_setup_handler s =
     do { (rc, dst, cnt, d) \<leftarrow> usbd_ep_read 0x00 (Some (setup_bytes (setup_pkt s))) 8 (port_dc s);
          let s = s\<lparr>port_dc := d\<rparr>;
          let s = (case dst of None \<Rightarrow> s | Some b \<Rightarrow> s\<lparr>setup_pkt := setup_of_bytes b\<rparr>);
          let p = setup_pkt s;
          if rc < 0 then stall_ep0 s
          else if wLength p > 256 \<and> bmRequestType p AND 0x80 = 0x00 then stall_ep0 s
          else do {
            let s = s\<lparr>ep0_data_buf_residue := ucast (wLength p), ep0_data_buf_len := ucast (wLength p), zlp_flag := False\<rparr>;
            if wLength p \<noteq> 0 \<and> bmRequestType p AND 0x80 = 0x00 then Some s
            else do {
              (ok, s) \<leftarrow> usbd_setup_request_handler s;
              if \<not> ok then stall_ep0 s
              else do {
                let s = s\<lparr>ep0_data_buf_residue := min (ep0_data_buf_len s) (ucast (wLength p))\<rparr>;
                usbd_send_to_host (wLength p) s } } } }"

definition usbd_ep0_out_handler :: "'a usbd \<Rightarrow> 'a usbd option" where
  "usbd_ep0_out_handler s =
     (if ep0_data_buf_residue s = 0
      then do { (rc, dst, cnt, d) \<leftarrow> usbd_ep_read 0x00 None 0 (port_dc s);
                let s = s\<lparr>port_dc := d\<rparr>;
                if rc < 0 then stall_ep0 s else Some s }
      else do {
        let s = s\<lparr>ep0_data_buf := Ptr ReqData 0\<rparr>;
        (rc, dst, cnt, d) \<leftarrow> usbd_ep_read 0x00 (Some (req_data s)) (ep0_data_buf_residue s) (port_dc s);
        let s = s\<lparr>port_dc := d\<rparr>;
        let s = (case dst of None \<Rightarrow> s | Some b \<Rightarrow> s\<lparr>req_data := b\<rparr>);
        let chunk = (case cnt of None \<Rightarrow> 0 | Some c \<Rightarrow> c);
        if rc < 0 then stall_ep0 s
        else do {
          let s = s\<lparr>ep0_data_buf := ptr_add (ep0_data_buf s) (unat chunk)\<rparr>;
          let s = s\<lparr>ep0_data_buf_residue := ep0_data_buf_residue s - chunk\<rparr>;
          if ep0_data_buf_residue s = 0
          then do {
            let s = s\<lparr>ep0_data_buf := Ptr ReqData 0\<rparr>;
            (ok, s) \<leftarrow> usbd_setup_request_handler s;
            if \<not> ok then stall_ep0 s else usbd_send_to_host (wLength (setup_pkt s)) s }
          else Some s } })"

definition usbd_ep0_in_handler :: "'a usbd \<Rightarrow> 'a usbd option" where
  "usbd_ep0_in_handler s =
     (if ep0_data_buf_residue s \<noteq> 0 \<or> zlp_flag s then usbd_send_to_host (wLength (setup_pkt s)) s else Some s)"

subsection \<open>Events\<close>

definition call_ep_cb :: "'a endpoint_callback option list \<Rightarrow> u8 \<Rightarrow> 'a usbd \<Rightarrow> 'a usbd option" where
  "call_ep_cb cbs ep s =
     do { cb \<leftarrow> rd cbs (unat (ep AND 0x7F));
          case cb of None \<Rightarrow> Some s
          | Some f \<Rightarrow> do { (d, a) \<leftarrow> f ep (port_dc s, application s); Some (s\<lparr>port_dc := d, application := a\<rparr>) } }"

definition usbd_ep_out_handler :: "u8 \<Rightarrow> 'a usbd \<Rightarrow> 'a usbd option" where
  "usbd_ep_out_handler ep s = call_ep_cb (out_ep_cb s) ep s"

definition usbd_ep_in_handler :: "u8 \<Rightarrow> 'a usbd \<Rightarrow> 'a usbd option" where
  "usbd_ep_in_handler ep s = call_ep_cb (in_ep_cb s) ep s"

definition ep0_cfg :: "u8 \<Rightarrow> usbd_endpoint_cfg" where
  "ep0_cfg ep = \<lparr>cfg_ep_addr = ep, cfg_ep_mps = 64, cfg_ep_type = 0\<rparr>"

definition usbd_event_notify_handler :: "usbd_event \<Rightarrow> u8 \<Rightarrow> 'a usbd \<Rightarrow> 'a usbd option" where
  "usbd_event_notify_handler event arg s =
     (case event of
        USBD_EVENT_RESET \<Rightarrow>
          do { let s = s\<lparr>port_dc := snd (usbd_set_address 0 (port_dc s))\<rparr>;
               let s = s\<lparr>configured := False, configuration := 0\<rparr>;
               (rc, s) \<leftarrow> on_dc (usbd_ep_open (ep0_cfg 0x80)) s;
               (rc, s) \<leftarrow> on_dc (usbd_ep_open (ep0_cfg 0x00)) s;
               s \<leftarrow> usbd_ep_callback_register s;
               Some (usbd_class_event_notify_handler event s) }
      | USBD_EVENT_SETUP_NOTIFY \<Rightarrow> usbd_ep0_setup_handler s
      | USBD_EVENT_EP0_IN_NOTIFY \<Rightarrow> usbd_ep0_in_handler s
      | USBD_EVENT_EP0_OUT_NOTIFY \<Rightarrow> usbd_ep0_out_handler s
      | USBD_EVENT_EP_IN_NOTIFY \<Rightarrow> usbd_ep_in_handler arg s
      | USBD_EVENT_EP_OUT_NOTIFY \<Rightarrow> usbd_ep_out_handler arg s
      | USBD_EVENT_UNKNOWN \<Rightarrow> Some s
      | _ \<Rightarrow> Some (usbd_class_event_notify_handler event s))"

definition usbd_initialize :: "(usb_regs \<Rightarrow> usb_regs) \<Rightarrow> 'a usbd \<Rightarrow> int \<times> 'a usbd" where
  "usbd_initialize force s = (let (rc, d) = usb_dc_init force (port_dc s) in (0, s\<lparr>port_dc := d\<rparr>))"

end
