(* ===== verification/UsbIrq.thy ===== *)
theory UsbIrq imports UsbCore begin

text \<open>
  The interrupt handler of the controller port, \<open>USBD_IRQHandler\<close> of usb_dc_fsdev.c. The CTR, DIR and
  EP_ID bits of \<open>ISTR\<close> are computed by the peripheral from the pending transfers of the endpoint
  registers; that arbitration is the parameter \<open>arb\<close>, with what usb_fsdev_reg.h and the comments of
  the handler say of these bits as the laws of the locale \<open>ctr_arbiter\<close>. No transfer arrives while the
  handler runs. \<open>force\<close> is the effect of a forced reset.
\<close>

definition read_ISTR :: "(u16 list \<Rightarrow> u16) \<Rightarrow> usb_regs \<Rightarrow> u16" where
  "read_ISTR arb r = (ISTR r AND 0x7F00) OR (arb (EPR r) AND 0x801F)"

definition clear_ISTR :: "(u16 list \<Rightarrow> u16) \<Rightarrow> u16 \<Rightarrow> 'a usbd \<Rightarrow> 'a usbd" where
  "clear_ISTR arb flag s =
     (let r = USB (port_dc s) in s\<lparr>port_dc := (port_dc s)\<lparr>USB := write_ISTR (read_ISTR arb r AND NOT flag) r\<rparr>\<rparr>)"

definition set_CNTR :: "(u16 \<Rightarrow> u16) \<Rightarrow> 'a usbd \<Rightarrow> 'a usbd" where
  "set_CNTR f s = s\<lparr>port_dc := (port_dc s)\<lparr>USB := (USB (port_dc s))\<lparr>CNTR := f (CNTR (USB (port_dc s)))\<rparr>\<rparr>\<rparr>"

definition on_regs :: "(usb_regs \<Rightarrow> usb_regs option) \<Rightarrow> 'a usbd \<Rightarrow> 'a usbd option" where
  "on_regs f s = do { d \<leftarrow> on_usb f (port_dc s); Some (s\<lparr>port_dc := d\<rparr>) }"

subsection \<open>Correct transfers\<close>

text \<open>The address takes effect once the status stage of SET_ADDRESS has been sent.\<close>

definition take_address :: "'a usbd \<Rightarrow> 'a usbd option" where
  "take_address s =
     (let d = port_dc s in
      if dev_addr d > 0
      then do { c \<leftarrow> PCD_GET_EP_TX_CNT 0 (USB d);
                Some (if c = 0
                      then s\<lparr>port_dc := d\<lparr>USB := (USB d)\<lparr>DADDR := ucast (dev_addr d) OR 0x0080\<rparr>, dev_addr := 0\<rparr>\<rparr>
                      else s) }
      else Some s)"

definition ctr_ep0_in :: "'a usbd \<Rightarrow> 'a usbd option" where
  "ctr_ep0_in s =
     do { s \<leftarrow> on_regs (PCD_CLEAR_TX_EP_CTR 0) s;
          s \<leftarrow> usbd_event_notify_handler USBD_EVENT_EP0_IN_NOTIFY 0 s;
          take_address s }"

definition ctr_ep0_out :: "'a usbd \<Rightarrow> 'a usbd option" where
  "ctr_ep0_out s =
     do { wEPVal \<leftarrow> PCD_GET_ENDPOINT 0 (USB (port_dc s));
          if wEPVal AND 0x0800 \<noteq> 0
          then do { s \<leftarrow> on_regs (PCD_CLEAR_RX_EP_CTR 0) s;
                    s \<leftarrow> usbd_event_notify_handler USBD_EVENT_SETUP_NOTIFY 0 s;
                    on_regs (PCD_SET_EP_RX_STATUS 0 0x3000) s }
          else if wEPVal AND 0x8000 \<noteq> 0
          then do { s \<leftarrow> on_regs (PCD_CLEAR_RX_EP_CTR 0) s;
                    s \<leftarrow> usbd_event_notify_handler USBD_EVENT_EP0_OUT_NOTIFY 0 s;
                    on_regs (PCD_SET_EP_RX_STATUS 0 0x3000) s }
          else Some s }"

definition ctr_ep :: "u8 \<Rightarrow> 'a usbd \<Rightarrow> 'a usbd option" where
  "ctr_ep epindex s =
     do { wEPVal \<leftarrow> PCD_GET_ENDPOINT (unat epindex) (USB (port_dc s));
          s \<leftarrow> (if wEPVal AND 0x8000 \<noteq> 0
                then do { s \<leftarrow> on_regs (PCD_CLEAR_RX_EP_CTR (unat epindex)) s;
                          usbd_event_notify_handler USBD_EVENT_EP_OUT_NOTIFY (epindex AND 0x7F) s }
                else Some s);
          if wEPVal AND 0x0080 \<noteq> 0
          then do { s \<leftarrow> on_regs (PCD_CLEAR_TX_EP_CTR (unat epindex)) s;
                    usbd_event_notify_handler USBD_EVENT_EP_IN_NOTIFY (epindex OR 0x80) s }
          else Some s }"

definition ctr_step :: "u16 \<Rightarrow> 'a usbd \<Rightarrow> 'a usbd option" where
  "ctr_step wIstr s =
     (let epindex = ucast (wIstr AND 0x000F) :: u8 in
      if epindex = 0
      then if wIstr AND 0x0010 = 0 then ctr_ep0_in s else ctr_ep0_out s
      else ctr_ep epindex s)"

text \<open>
  The loop \<open>while ((USB->ISTR & USB_ISTR_CTR) != 0)\<close> with fuel: \<open>Inl\<close> when the fuel is used up, \<open>Inr\<close>
  of the last \<open>wIstr\<close> read and the state when the loop ends.
\<close>

fun ctr_loop :: "(u16 list \<Rightarrow> u16) \<Rightarrow> nat \<Rightarrow> u16 \<Rightarrow> 'a usbd \<Rightarrow> ('a usbd + u16 \<times> 'a usbd) option" where
  "ctr_loop arb 0 wIstr s =
     (if read_ISTR arb (USB (port_dc s)) AND 0x8000 \<noteq> 0 then Some (Inl s) else Some (Inr (wIstr, s)))"
| "ctr_loop arb (Suc n) wIstr s =
     (if read_ISTR arb (USB (port_dc s)) AND 0x8000 \<noteq> 0
      then let wIstr = read_ISTR arb (USB (port_dc s)) in do { s \<leftarrow> ctr_step wIstr s; ctr_loop arb n wIstr s }
      else Some (Inr (wIstr, s)))"

subsection \<open>Bus events\<close>

definition irq_reset :: "(u16 list \<Rightarrow> u16) \<Rightarrow> 'a usbd \<Rightarrow> 'a usbd option" where
  "irq_reset arb s =
     do { s \<leftarrow> usbd_event_notify_handler USBD_EVENT_RESET 0 s;
          let s = s\<lparr>port_dc := (port_dc s)\<lparr>pma_offset := USB_BTABLE_SIZE\<rparr>\<rparr>;
          Some (clear_ISTR arb 0x0400 s) }"

definition irq_wakeup :: "(u16 list \<Rightarrow> u16) \<Rightarrow> 'a usbd \<Rightarrow> 'a usbd" where
  "irq_wakeup arb s =
     (let s = set_CNTR (\<lambda>c. c AND NOT 0x0004) s; s = set_CNTR (\<lambda>c. c AND NOT 0x0008) s in clear_ISTR arb 0x1000 s)"

text \<open>The wait for the reset flag does not end when the forced reset has not set it.\<close>

definition irq_suspend :: "(u16 list \<Rightarrow> u16) \<Rightarrow> (usb_regs \<Rightarrow> usb_regs) \<Rightarrow> 'a usbd \<Rightarrow> 'a usbd option" where
  "irq_suspend arb force s =
     do { store_ep \<leftarrow> for_each (\<lambda>i l. do { v \<leftarrow> PCD_GET_ENDPOINT i (USB (port_dc s)); Some (l @ [v]) }) [0..<8] [];
          let s = set_CNTR (\<lambda>c. c OR 0x0001) s;
          let s = s\<lparr>port_dc := (port_dc s)\<lparr>USB := force (USB (port_dc s))\<rparr>\<rparr>;
          let s = set_CNTR (\<lambda>c. c AND NOT 0x0001) s;
          if read_ISTR arb (USB (port_dc s)) AND 0x0400 = 0 then None
          else do {
            let s = clear_ISTR arb 0x0400 s;
            s \<leftarrow> for_each (\<lambda>i s. do { v \<leftarrow> rd store_ep i; on_regs (PCD_SET_ENDPOINT i v) s }) [0..<8] s;
            let s = set_CNTR (\<lambda>c. c OR 0x0008) s;
            let s = clear_ISTR arb 0x0800 s;
            Some (set_CNTR (\<lambda>c. c OR 0x0004) s) } }"

text \<open>
  The fuel 16 is the number of pending flags that eight endpoint registers can hold. The fault
  \<open>None\<close> also stands for a loop that runs out of it.
\<close>

definition USBD_IRQHandler :: "(u16 list \<Rightarrow> u16) \<Rightarrow> (usb_regs \<Rightarrow> usb_regs) \<Rightarrow> 'a usbd \<Rightarrow> 'a usbd option" where
  "USBD_IRQHandler arb force s =
     (let wIstr = read_ISTR arb (USB (port_dc s)) in
      do { (wIstr, s) \<leftarrow> (if wIstr AND 0x8000 \<noteq> 0
             then do { r \<leftarrow> ctr_loop arb 16 wIstr s; (case r of Inl t \<Rightarrow> None | Inr p \<Rightarrow> Some p) }
             else Some (wIstr, s));
           s \<leftarrow> (if wIstr AND 0x0400 \<noteq> 0 then irq_reset arb s else Some s);
           let s = (if wIstr AND 0x4000 \<noteq> 0 then clear_ISTR arb 0x4000 s else s);
           let s = (if wIstr AND 0x2000 \<noteq> 0 then clear_ISTR arb 0x2000 s else s);
           let s = (if wIstr AND 0x1000 \<noteq> 0 then irq_wakeup arb s else s);
           s \<leftarrow> (if wIstr AND 0x0800 \<noteq> 0 then irq_suspend arb force s else Some s);
           let s = (if wIstr AND 0x0200 \<noteq> 0 then clear_ISTR arb 0x0200 s else s);
           Some (if wIstr AND 0x0100 \<noteq> 0 then clear_ISTR arb 0x0100 s else s) })"

subsection \<open>The arbitration of pending transfers\<close>

definition pending_at :: "u16 list \<Rightarrow> nat \<Rightarrow> bool" where
  "pending_at e i \<longleftrightarrow> i < length e \<and> (bit (e ! i) 15 \<or> bit (e ! i) 7)"

locale ctr_arbiter =
  fixes arb :: "u16 list \<Rightarrow> u16"
  assumes ctr_iff: "length e = 8 \<Longrightarrow> arb e AND 0x8000 \<noteq> 0 \<longleftrightarrow> (\<exists>i. pending_at e i)"
    and ep_id: "length e = 8 \<Longrightarrow> arb e AND 0x8000 \<noteq> 0 \<Longrightarrow> pending_at e (unat (arb e AND 0x000F))"
    and dir_in: "length e = 8 \<Longrightarrow> arb e AND 0x8000 \<noteq> 0 \<Longrightarrow> arb e AND 0x0010 = 0 \<Longrightarrow>
      bit (e ! unat (arb e AND 0x000F)) 7"
    and dir_out: "length e = 8 \<Longrightarrow> arb e AND 0x8000 \<noteq> 0 \<Longrightarrow> arb e AND 0x0010 \<noteq> 0 \<Longrightarrow>
      bit (e ! unat (arb e AND 0x000F)) 15"

text \<open>The lowest endpoint first, reception before transmission.\<close>

definition lowest_first :: "u16 list \<Rightarrow> u16" where
  "lowest_first e =
     (case find (pending_at e) [0..<8] of
        None \<Rightarrow> 0
      | Some i \<Rightarrow> (if bit (e ! i) 15 then 0x8010 else 0x8000) OR of_nat i)"

end
