(* ===== verification/UsbStable.thy ===== *)
theory UsbStable imports UsbIrq begin

text \<open>
  What the device core does to the controller port: a relation that every driver function keeps is
  kept by every handler of the core (locale \<open>port_relation\<close>), and the core changes none of the
  registered tables. The relation is instantiated in the theories that follow.
\<close>

subsection \<open>The tables of a state\<close>

definition kept :: "'a usbd \<Rightarrow> 'a usbd \<Rightarrow> bool" where
  "kept s t \<longleftrightarrow> descriptors t = descriptors s \<and> in_ep_cb t = in_ep_cb s \<and> out_ep_cb t = out_ep_cb s \<and>
     endpoints t = endpoints s \<and> interfaces t = interfaces s \<and> intf_list t = intf_list s \<and>
     usbd_class_head t = usbd_class_head s \<and> usbd_hid_class_head t = usbd_hid_class_head s \<and>
     length (usbd_hid_cfg t) = length (usbd_hid_cfg s)"

lemma kept_refl [simp]: "kept s s"
  by (simp add: kept_def)

lemma kept_trans: "kept s t \<Longrightarrow> kept t u \<Longrightarrow> kept s u"
  by (simp add: kept_def)

lemma kept_fields [simp]:
  "kept s (set_data q l t) = kept s t" "kept s (t\<lparr>application := a\<rparr>) = kept s t"
  "kept s (t\<lparr>configured := c\<rparr>) = kept s t"
  "kept s (t\<lparr>configuration := c8\<rparr>) = kept s t"
  "kept s (t\<lparr>remote_wakeup := w\<rparr>) = kept s t"
  "kept s (t\<lparr>req_data := b\<rparr>) = kept s t"
  "kept s (t\<lparr>ep0_data_buf := q\<rparr>) = kept s t"
  "kept s (t\<lparr>ep0_data_buf_residue := l\<rparr>) = kept s t"
  "kept s (t\<lparr>ep0_data_buf_len := l\<rparr>) = kept s t"
  "kept s (t\<lparr>zlp_flag := z\<rparr>) = kept s t"
  "kept s (t\<lparr>setup_pkt := u\<rparr>) = kept s t"
  "kept s (t\<lparr>port_dc := d\<rparr>) = kept s t"
  "kept (set_data q l s) t = kept s t" "kept (s\<lparr>application := a\<rparr>) t = kept s t"
  "kept (s\<lparr>configured := c\<rparr>) t = kept s t"
  "kept (s\<lparr>configuration := c8\<rparr>) t = kept s t"
  "kept (s\<lparr>remote_wakeup := w\<rparr>) t = kept s t"
  "kept (s\<lparr>req_data := b\<rparr>) t = kept s t"
  "kept (s\<lparr>ep0_data_buf := q\<rparr>) t = kept s t"
  "kept (s\<lparr>ep0_data_buf_residue := l\<rparr>) t = kept s t"
  "kept (s\<lparr>ep0_data_buf_len := l\<rparr>) t = kept s t"
  "kept (s\<lparr>zlp_flag := z\<rparr>) t = kept s t"
  "kept (s\<lparr>setup_pkt := u\<rparr>) t = kept s t"
  "kept (s\<lparr>port_dc := d\<rparr>) t = kept s t"
  by (simp_all add: kept_def set_data_def)

lemma port_set_data [simp]: "port_dc (set_data q l s) = port_dc s"
  by (simp add: set_data_def)

lemma kept_upd_hid: "kept s (upd_hid k f s)"
  by (simp add: kept_def upd_hid_def)

lemma port_upd_hid [simp]: "port_dc (upd_hid k f s) = port_dc s"
  by (simp add: upd_hid_def)

lemma fold_upd_hid: "kept s (fold (\<lambda>k. upd_hid k f) ks s) \<and> port_dc (fold (\<lambda>k. upd_hid k f) ks s) = port_dc s"
  by (induction ks arbitrary: s) (auto intro: kept_trans kept_upd_hid)

lemma hid_notify_kept: "kept s (hid_notify_handler ev s) \<and> port_dc (hid_notify_handler ev s) = port_dc s"
  unfolding hid_notify_handler_def usbd_hid_reset_def using fold_upd_hid [of s] by auto

lemma class_notify_kept:
  "kept s (usbd_class_event_notify_handler ev s) \<and> port_dc (usbd_class_event_notify_handler ev s) = port_dc s"
proof -
  have "kept s (fold (\<lambda>i s. case notify_handler (interfaces s i) of None \<Rightarrow> s
        | Some hid_notify \<Rightarrow> hid_notify_handler ev s) is s) \<and>
      port_dc (fold (\<lambda>i s. case notify_handler (interfaces s i) of None \<Rightarrow> s
        | Some hid_notify \<Rightarrow> hid_notify_handler ev s) is s) = port_dc s" for "is"
  proof (induction "is" arbitrary: s)
    case (Cons i "is")
    then show ?case
      using hid_notify_kept [of s ev]
      by (auto split: option.split notify_handler_fn.split intro: kept_trans)
  qed simp
  then show ?thesis by (simp add: usbd_class_event_notify_handler_def)
qed

subsection \<open>A walk keeps what its body keeps\<close>

lemma walk_desc_keeps:
  assumes "walk_desc body ds p w = Some r" and "Q w"
    and "\<And>p w w'. body p w = Some (Inr w') \<Longrightarrow> Q w \<Longrightarrow> Q w'" and "\<And>p w x. body p w = Some (Inl x) \<Longrightarrow> Q w \<Longrightarrow> L x"
  shows "case r of Inl x \<Rightarrow> L x | Inr w' \<Rightarrow> Q w'"
  using assms
proof (induction body ds p w rule: walk_desc.induct)
  case (1 body ds p w)
  show ?case
  proof (cases "p < length ds \<and> ds ! p \<noteq> 0")
    case False
    with 1 show ?thesis by (auto simp: walk_desc.simps [of body ds p w] split: if_splits)
  next
    case True
    with 1(2) consider x where "body p w = Some (Inl x)" "r = Inl x"
      | w' where "body p w = Some (Inr w')" "walk_desc body ds (p + unat (ds ! p)) w' = Some r"
      by (auto simp: walk_desc.simps [of body ds p w] split: option.splits sum.splits)
    then show ?thesis
    proof cases
      case 1
      with assms(4) "1.prems"(2,4) show ?thesis by auto
    next
      case 2
      from "1.IH" [OF _ _ this(1) refl] True this "1.prems"(2-4) show ?thesis by blast
    qed
  qed
qed

subsection \<open>The contract\<close>

locale port_relation =
  fixes R :: "usb_dc \<Rightarrow> usb_dc \<Rightarrow> bool"
  assumes refl: "R d d"
    and trans: "R d e \<Longrightarrow> R e f \<Longrightarrow> R d f"
    and address: "R d (snd (usbd_set_address a d))"
    and ep_open: "usbd_ep_open c d = Some (rc, d') \<Longrightarrow> R d d'"
    and ep_close: "usbd_ep_close ep d = Some (rc, d') \<Longrightarrow> R d d'"
    and set_stall: "usbd_ep_set_stall ep d = Some (rc, d') \<Longrightarrow> R d d'"
    and clear_stall: "usbd_ep_clear_stall ep d = Some (rc, d') \<Longrightarrow> R d d'"
    and ep_write: "usbd_ep_write ep src n d = Some (rc, ret, d') \<Longrightarrow> R d d'"
    and ep_read: "usbd_ep_read ep dst n d = Some (rc, b, ret, d') \<Longrightarrow> R d d'"
begin

definition rel :: "'a usbd \<Rightarrow> 'a usbd \<Rightarrow> bool" where
  "rel s t \<longleftrightarrow> R (port_dc s) (port_dc t) \<and> kept s t"

lemma rel_refl [simp]: "rel s s"
  by (simp add: rel_def refl)

lemma rel_trans: "rel s t \<Longrightarrow> rel t u \<Longrightarrow> rel s u"
  using trans kept_trans unfolding rel_def by blast

lemma rel_upd_hid: "rel s t \<Longrightarrow> rel s (upd_hid k f t)"
  by (auto simp: rel_def intro: kept_trans kept_upd_hid)

lemma rel_notify: "rel s t \<Longrightarrow> rel s (usbd_class_event_notify_handler ev t)"
  using kept_trans class_notify_kept unfolding rel_def by metis

lemma rel_fields [simp]:
  "rel s (set_data q l t) = rel s t" "rel s (t\<lparr>application := a\<rparr>) = rel s t"
  "rel s (t\<lparr>configured := c\<rparr>) = rel s t" "rel s (t\<lparr>configuration := c8\<rparr>) = rel s t"
  "rel s (t\<lparr>remote_wakeup := w\<rparr>) = rel s t"
  by (simp_all add: rel_def)

lemma rel_port: "R (port_dc s) d \<Longrightarrow> rel s (s\<lparr>port_dc := d\<rparr>)"
  by (simp add: rel_def kept_def)

lemma on_dc_rel: "on_dc f s = Some (rc, t) \<Longrightarrow> (\<And>d rc d'. f d = Some (rc, d') \<Longrightarrow> R d d') \<Longrightarrow> rel s t"
  by (auto simp: on_dc_def intro!: rel_port split: Option.bind_split_asm)

lemma on_dc_rels:
  "on_dc (usbd_ep_open c) s = Some (rc, t) \<Longrightarrow> rel s t"
  "on_dc (usbd_ep_close ep) s = Some (rc, t) \<Longrightarrow> rel s t"
  "on_dc (usbd_ep_set_stall ep) s = Some (rc, t) \<Longrightarrow> rel s t"
  "on_dc (usbd_ep_clear_stall ep) s = Some (rc, t) \<Longrightarrow> rel s t"
  using on_dc_rel ep_open ep_close set_stall clear_stall by blast+

lemma hid_custom_rel: "hid_custom_request_handler s = Some (rc, t) \<Longrightarrow> rel s t"
  unfolding hid_custom_request_handler_def Let_def
  by (auto split: if_split_asm option.split_asm Option.bind_split_asm)

lemma hid_class_rel: "hid_class_request_handler s = Some (rc, t) \<Longrightarrow> rel s t"
  unfolding hid_class_request_handler_def Let_def
  by (auto split: if_split_asm option.split_asm Option.bind_split_asm prod.split_asm
      intro!: rel_upd_hid)

lemma call_request_rel: "call_request f s = Some (rc, t) \<Longrightarrow> rel s t"
  using hid_custom_rel hid_class_rel by (cases f) auto

lemma class_request_rel: "usbd_class_request_handler s = Some (rc, t) \<Longrightarrow> rel s t"
  unfolding usbd_class_request_handler_def
  by (auto split: if_split_asm option.split_asm dest: call_request_rel)

lemma custom_request_rel: "usbd_custom_request_handler s = Some (rc, t) \<Longrightarrow> rel s t"
  unfolding usbd_custom_request_handler_def
  by (auto split: if_split_asm option.split_asm dest: call_request_rel)

lemma try_vendor_rel: "try_vendor is s = Some (rc, t) \<Longrightarrow> rel s t"
proof (induction "is" arbitrary: s)
  case (Cons i "is")
  show ?case
  proof (cases "vendor_handler (interfaces s i)")
    case None
    with Cons show ?thesis by simp
  next
    case (Some f)
    with Cons.prems obtain c u where u: "call_request f s = Some (c, u)" "u = t \<or> try_vendor is u = Some (rc, t)"
      by (auto split: Option.bind_split_asm if_split_asm)
    from call_request_rel [OF u(1)] u(2) Cons.IH show ?thesis by (auto intro: rel_trans)
  qed
qed simp

lemma vendor_request_rel: "usbd_vendor_request_handler s = Some (rc, t) \<Longrightarrow> rel s t"
  unfolding usbd_vendor_request_handler_def Let_def
  by (auto split: if_split_asm option.split_asm dest: try_vendor_rel)

lemma get_descriptor_rel: "usbd_get_descriptor x s = Some (b, t) \<Longrightarrow> rel s t"
  unfolding usbd_get_descriptor_def Let_def
  by (auto split: if_split_asm option.split_asm Option.bind_split_asm sum.split_asm)

lemma set_endpoint_rel: "usbd_set_endpoint ds p s = Some (b, t) \<Longrightarrow> rel s t"
  by (auto simp: usbd_set_endpoint_def split: Option.bind_split_asm dest: on_dc_rels)

lemma reset_endpoint_rel: "usbd_reset_endpoint ds p s = Some (b, t) \<Longrightarrow> rel s t"
  by (auto simp: usbd_reset_endpoint_def split: Option.bind_split_asm dest: on_dc_rels)

lemma set_configuration_rel:
  assumes "usbd_set_configuration ci alt s = Some (b, t)"
  shows "rel s t"
proof (cases "ci = 0")
  case True
  with assms show ?thesis by (simp add: usbd_set_configuration_def)
next
  case False
  with assms obtain ds r where w: "walk_desc (set_config_body ds ci alt) ds 0
      \<lparr>cw_found = False, cw_alt = 0xFF, cw_id = 0xFF, cw_st = s\<rparr> = Some (Inr r)" "t = cw_st r"
    by (auto simp: usbd_set_configuration_def split: Option.bind_split_asm sum.split_asm)
  have "rel s (cw_st w')" if "set_config_body ds ci alt p w = Some (Inr w')" "rel s (cw_st w)" for p and w w' :: "'a cfg_walk"
    using that by (auto simp: set_config_body_def Let_def split: Option.bind_split_asm if_split_asm
        dest!: set_endpoint_rel intro: rel_trans)
  from walk_desc_keeps [OF w(1), of "\<lambda>w. rel s (cw_st w)" "\<lambda>_. True"] this show ?thesis by (auto simp: w(2))
qed

lemma set_interface_rel:
  assumes "usbd_set_interface i alt s = Some (b, t)"
  shows "rel s t"
proof -
  from assms obtain ds r where w: "walk_desc (set_intf_body ds i alt) ds 0
      \<lparr>cw_found = False, cw_alt = 0xFF, cw_id = 0xFF, cw_st = s\<rparr> = Some (Inr r)"
    "t = usbd_class_event_notify_handler USBD_EVENT_SET_INTERFACE (cw_st r)"
    by (auto simp: usbd_set_interface_def split: Option.bind_split_asm sum.split_asm)
  have "rel s (cw_st w')" if "set_intf_body ds i alt p w = Some (Inr w')" "rel s (cw_st w)" for p and w w' :: "'a cfg_walk"
    using that by (auto simp: set_intf_body_def split: Option.bind_split_asm if_split_asm
        dest!: set_endpoint_rel reset_endpoint_rel intro: rel_trans)
  from walk_desc_keeps [OF w(1), of "\<lambda>w. rel s (cw_st w)" "\<lambda>_. True"] this have "rel s (cw_st r)" by auto
  then show ?thesis unfolding w(2) by (rule rel_notify)
qed

lemma std_device_rel: "usbd_std_device_req_handler s = Some (b, t) \<Longrightarrow> rel s t"
  using rel_port [OF address [of "port_dc s"]]
  unfolding usbd_std_device_req_handler_def Let_def case_prod_beta
  by (auto split: if_split_asm Option.bind_split_asm intro!: rel_notify
      dest!: get_descriptor_rel set_configuration_rel)

lemma std_interface_rel: "usbd_std_interface_req_handler s = Some (b, t) \<Longrightarrow> rel s t"
  unfolding usbd_std_interface_req_handler_def Let_def case_prod_beta
  by (auto split: if_split_asm Option.bind_split_asm dest!: set_interface_rel)

lemma std_endpoint_rel: "usbd_std_endpoint_req_handler s = Some (b, t) \<Longrightarrow> rel s t"
  unfolding usbd_std_endpoint_req_handler_def Let_def case_prod_beta usbd_ep_is_stalled_def
  by (auto split: if_split_asm Option.bind_split_asm intro!: rel_notify dest!: on_dc_rels)

lemma standard_rel: "usbd_standard_request_handler s = Some (rc, t) \<Longrightarrow> rel s t"
  unfolding usbd_standard_request_handler_def Let_def case_prod_beta
  by (auto split: if_split_asm Option.bind_split_asm dest!: std_device_rel std_interface_rel std_endpoint_rel)

lemma setup_request_rel:
  assumes "usbd_setup_request_handler s = Some (ok, t)"
  shows "rel s t"
proof -
  from assms obtain rc u where u: "usbd_custom_request_handler s = Some (rc, u)"
    "t = u \<or> (\<exists>c. usbd_standard_request_handler u = Some (c, t)) \<or> (\<exists>c. usbd_class_request_handler u = Some (c, t)) \<or>
      (\<exists>c. usbd_vendor_request_handler u = Some (c, t))"
    unfolding usbd_setup_request_handler_def Let_def
    by (auto split: if_split_asm Option.bind_split_asm)
  from custom_request_rel [OF u(1)] u(2) show ?thesis
    by (auto dest: standard_rel class_request_rel vendor_request_rel intro: rel_trans)
qed

lemma stall_rel: "stall_ep0 s = Some t \<Longrightarrow> rel s t"
  by (auto simp: stall_ep0_def split: Option.bind_split_asm dest: on_dc_rels)

lemma send_rel: "usbd_send_to_host n s = Some t \<Longrightarrow> rel s t"
  unfolding usbd_send_to_host_def Let_def
  by (auto simp: rel_def split: if_split_asm Option.bind_split_asm dest!: ep_write)

lemma ep0_setup_rel: "usbd_ep0_setup_handler s = Some t \<Longrightarrow> rel s t"
  unfolding usbd_ep0_setup_handler_def Let_def
  by (auto simp: rel_def split: if_split_asm Option.bind_split_asm option.split_asm
      dest!: ep_read stall_rel setup_request_rel send_rel)
    (blast intro: trans kept_trans)+

lemma ep0_out_rel: "usbd_ep0_out_handler s = Some t \<Longrightarrow> rel s t"
  unfolding usbd_ep0_out_handler_def Let_def
  by (auto simp: rel_def split: if_split_asm Option.bind_split_asm option.split_asm
      dest!: ep_read stall_rel setup_request_rel send_rel)
    (blast intro: trans kept_trans)+

lemma ep0_in_rel: "usbd_ep0_in_handler s = Some t \<Longrightarrow> rel s t"
  by (auto simp: usbd_ep0_in_handler_def split: if_split_asm dest: send_rel)

text \<open>Endpoint callbacks are the application's; those that are installed must keep the relation, too.\<close>

definition cbs_ok :: "'a usbd \<Rightarrow> bool" where
  "cbs_ok s \<longleftrightarrow> (\<forall>f. Some f \<in> set (in_ep_cb s) \<or> Some f \<in> set (out_ep_cb s) \<or> (\<exists>k. ep_cb (endpoints s k) = Some f) \<longrightarrow>
     (\<forall>ep d a d' a'. f ep (d, a) = Some (d', a') \<longrightarrow> R d d'))"

lemma cbs_ok_rel: "rel s t \<Longrightarrow> cbs_ok s \<Longrightarrow> cbs_ok t"
  by (simp add: rel_def kept_def cbs_ok_def)

lemma call_ep_cb_rel:
  assumes "call_ep_cb cbs ep s = Some t" and "cbs_ok s" and "cbs = in_ep_cb s \<or> cbs = out_ep_cb s"
  shows "rel s t"
proof -
  from assms(1) obtain cb where cb: "rd cbs (unat (ep AND 0x7F)) = Some cb"
    "(case cb of None \<Rightarrow> Some s | Some f \<Rightarrow>
        do { (d, a) \<leftarrow> f ep (port_dc s, application s); Some (s\<lparr>port_dc := d, application := a\<rparr>) }) = Some t"
    unfolding call_ep_cb_def by (cases "rd cbs (unat (ep AND 0x7F))") auto
  show ?thesis
  proof (cases cb)
    case None
    with cb(2) show ?thesis by simp
  next
    case (Some f)
    with cb(1) have f: "Some f \<in> set cbs" by (auto simp: rd_def split: if_split_asm dest: nth_mem)
    from cb(2) Some obtain d a where r: "f ep (port_dc s, application s) = Some (d, a)"
      "t = s\<lparr>port_dc := d, application := a\<rparr>"
      by (cases "f ep (port_dc s, application s)") auto
    from assms(2,3) f r(1) have "R (port_dc s) d" unfolding cbs_ok_def by blast
    then show ?thesis by (simp add: r(2) rel_def)
  qed
qed

lemma notify_rel:
  assumes "usbd_event_notify_handler ev arg s = Some t" and "cbs_ok s" and "ev \<noteq> USBD_EVENT_RESET"
  shows "rel s t"
  using assms
  by (cases ev) (auto simp: usbd_event_notify_handler_def usbd_ep_in_handler_def usbd_ep_out_handler_def
      dest: ep0_setup_rel ep0_in_rel ep0_out_rel call_ep_cb_rel intro: rel_notify)

end

end
