(* ===== verification/UsbPending.thy ===== *)
theory UsbPending imports UsbStable UsbPort begin

text \<open>
  Pending transfers: no driver function and no handler of the core sets a transfer flag, each step of
  the interrupt handler's loop clears at least one, so the loop ends within 16 steps.
\<close>

subsection \<open>The transfer flags\<close>

definition pend_set :: "u16 list \<Rightarrow> (nat \<times> nat) set" where
  "pend_set e = {(k, b). k < length e \<and> (b = 15 \<or> b = 7) \<and> bit (e ! k) b}"

lemma pend_set_subset: "pend_set e \<subseteq> {..<length e} \<times> {15, 7}"
  by (auto simp: pend_set_def)

lemma finite_pend_set [simp]: "finite (pend_set e)"
  by (rule finite_subset [OF pend_set_subset]) simp

lemma card_pend_set: "card (pend_set e) \<le> 2 * length e"
proof -
  have "card (pend_set e) \<le> card ({..<length e} \<times> {15 :: nat, 7})"
    by (rule card_mono [OF _ pend_set_subset]) simp
  then show ?thesis by (simp add: card_cartesian_product)
qed

lemma pending_at_iff: "pending_at e i \<longleftrightarrow> (i, 15) \<in> pend_set e \<or> (i, 7) \<in> pend_set e"
  by (auto simp: pending_at_def pend_set_def)

definition fewer :: "usb_regs \<Rightarrow> usb_regs \<Rightarrow> bool" where
  "fewer r r' \<longleftrightarrow> (length (EPR r) = 8 \<longrightarrow>
     length (EPR r') = 8 \<and> pend_set (EPR r') \<subseteq> pend_set (EPR r))"

definition quiet :: "(usb_regs \<Rightarrow> usb_regs option) \<Rightarrow> bool" where
  "quiet f \<longleftrightarrow> (\<forall>r r'. f r = Some r' \<longrightarrow> fewer r r')"

lemma fewer_refl [simp]: "fewer r r"
  by (simp add: fewer_def)

lemma fewer_trans: "fewer a b \<Longrightarrow> fewer b c \<Longrightarrow> fewer a c"
  by (auto simp: fewer_def)

lemma pending_bits_bit: "bit (pending_bits v) n \<longleftrightarrow> (n = 15 \<or> n = 7) \<and> bit v n"
proof -
  have "n < 16 \<Longrightarrow> bit (0x8080 :: u16) n \<longleftrightarrow> n = 15 \<or> n = 7"
    by (drule below16) (auto simp: bit_simps)
  then show ?thesis by (auto simp: pending_bits_def bit_and_iff dest: bit_imp_le_length)
qed

context epr_op begin

lemma quiet: "quiet (op i)"
proof -
  have "bit (f v) b \<Longrightarrow> b = 15 \<or> b = 7 \<Longrightarrow> bit v b" for v b
    using clears [of v] pending_bits_bit [of "f v" b] pending_bits_bit [of v b]
    by (auto simp: bit_eq_iff [where 'a = u16] bit_and_iff bit_not_iff)
  then show ?thesis
    by (auto simp: quiet_def acts fewer_def pend_set_def nth_list_update split: if_split_asm)
qed

end

lemma quiet_pma: "quiet (pma_set off v)"
  by (auto simp: quiet_def pma_set_def fewer_def split: Option.bind_split_asm)

lemma quiet_btable:
  "quiet (PCD_SET_EP_TX_ADDRESS i a)" "quiet (PCD_SET_EP_RX_ADDRESS i a)" "quiet (PCD_SET_EP_TX_CNT i c)"
  "quiet (PCD_SET_EP_RX_CNT i c)"
  using quiet_pma unfolding quiet_def PCD_SET_EP_TX_ADDRESS_def PCD_SET_EP_RX_ADDRESS_def
    PCD_SET_EP_TX_CNT_def PCD_SET_EP_RX_CNT_def Let_def
  by (blast, blast, blast, auto split: Option.bind_split_asm)

lemma for_each_fewer: "for_each f is r = Some r' \<Longrightarrow> (\<And>i r r'. f i r = Some r' \<Longrightarrow> fewer r r') \<Longrightarrow> fewer r r'"
proof (induction "is" arbitrary: r)
  case (Cons i "is")
  then obtain x where "f i r = Some x" "for_each f is x = Some r'" by (auto split: Option.bind_split_asm)
  with Cons.IH [of x] Cons.prems(2) show ?case using fewer_trans by blast
qed simp

lemma quiet_WritePMA: "quiet (USB_WritePMA b src a n)"
  unfolding quiet_def USB_WritePMA_def
  using for_each_fewer quiet_pma [unfolded quiet_def]
  by (force split: Option.bind_split_asm)

subsection \<open>The driver functions\<close>

definition dc_fewer :: "usb_dc \<Rightarrow> usb_dc \<Rightarrow> bool" where
  "dc_fewer d d' \<longleftrightarrow> fewer (USB d) (USB d')"

lemma on_usb_quiet: "on_usb f d = Some d' \<Longrightarrow> quiet f \<Longrightarrow> dc_fewer d d'"
  by (auto simp: on_usb_def quiet_def dc_fewer_def split: Option.bind_split_asm)

lemma dc_fewer_refl [simp]: "dc_fewer d d"
  by (simp add: dc_fewer_def)

lemma dc_fewer_trans: "dc_fewer a b \<Longrightarrow> dc_fewer b c \<Longrightarrow> dc_fewer a c"
  unfolding dc_fewer_def by (rule fewer_trans)

lemma dc_fewer_fields [simp]:
  "dc_fewer d (e\<lparr>out_ep := x\<rparr>) = dc_fewer d e" "dc_fewer d (e\<lparr>in_ep := x\<rparr>) = dc_fewer d e"
  "dc_fewer d (e\<lparr>pma_offset := o'\<rparr>) = dc_fewer d e" "dc_fewer d (e\<lparr>dev_addr := a\<rparr>) = dc_fewer d e"
  "dc_fewer (d\<lparr>out_ep := x\<rparr>) e = dc_fewer d e" "dc_fewer (d\<lparr>in_ep := x\<rparr>) e = dc_fewer d e"
  "dc_fewer (d\<lparr>pma_offset := o'\<rparr>) e = dc_fewer d e" "dc_fewer (d\<lparr>dev_addr := a\<rparr>) e = dc_fewer d e"
  by (simp_all add: dc_fewer_def)

lemmas quiets = tx_status.quiet rx_status.quiet clear_rx_ctr.quiet clear_tx_ctr.quiet clear_rx_dtog.quiet
  clear_tx_dtog.quiet set_address.quiet set_type.quiet quiet_btable quiet_WritePMA

lemmas on_usb_quiets = on_usb_quiet [OF _ tx_status.quiet] on_usb_quiet [OF _ rx_status.quiet]
  on_usb_quiet [OF _ clear_rx_dtog.quiet] on_usb_quiet [OF _ clear_tx_dtog.quiet]
  on_usb_quiet [OF _ quiet_btable(1)] on_usb_quiet [OF _ quiet_btable(2)] on_usb_quiet [OF _ quiet_btable(3)]
  on_usb_quiet [OF _ quiet_btable(4)] on_usb_quiet [OF _ quiet_WritePMA]

lemma ep_write_fewer: "usbd_ep_write ep src n d = Some (rc, ret, d') \<Longrightarrow> dc_fewer d d'"
  unfolding usbd_ep_write_def Let_def
  by (auto split: if_split_asm Option.bind_split_asm dest!: on_usb_quiets) (blast intro: dc_fewer_trans)+

lemma ep_read_fewer: "usbd_ep_read ep dst n d = Some (rc, b, ret, d') \<Longrightarrow> dc_fewer d d'"
  unfolding usbd_ep_read_def Let_def
  by (auto split: if_split_asm Option.bind_split_asm dest!: on_usb_quiets)

lemma ep_stall_fewer:
  "usbd_ep_close ep d = Some (rc, d') \<Longrightarrow> dc_fewer d d'"
  "usbd_ep_set_stall ep d = Some (rc, d') \<Longrightarrow> dc_fewer d d'"
  "usbd_ep_clear_stall ep d = Some (rc, d') \<Longrightarrow> dc_fewer d d'"
  unfolding usbd_ep_close_def usbd_ep_set_stall_def usbd_ep_clear_stall_def Let_def
  by (auto split: if_split_asm Option.bind_split_asm dest!: on_usb_quiets) (blast intro: dc_fewer_trans)+

lemma ep_open_halves_fewer:
  "ep_open_out c i d = Some (rc, d') \<Longrightarrow> dc_fewer d d'" "ep_open_in c i d = Some (rc, d') \<Longrightarrow> dc_fewer d d'"
  unfolding ep_open_out_def ep_open_in_def Let_def
  by (auto split: if_split_asm Option.bind_split_asm dest!: on_usb_quiets) (blast intro: dc_fewer_trans)+

lemma quiet_set_address: "quiet (PCD_SET_EP_ADDRESS i (of_nat i))"
  unfolding quiet_def fewer_def
proof (intro allI impI)
  fix r r' assume "PCD_SET_EP_ADDRESS i (of_nat i) r = Some r'" and len: "length (EPR r) = 8"
  moreover from this have "i < 8"
    by (auto simp: PCD_SET_EP_ADDRESS_def PCD_GET_ENDPOINT_def rd_def split: if_split_asm)
  ultimately have "PCD_SET_EP_ADDRESS i (of_nat i AND 0x000F) r = Some r'" by (simp only: low_nibble)
  with set_address.quiet len show "length (EPR r') = 8 \<and> pend_set (EPR r') \<subseteq> pend_set (EPR r)"
    unfolding quiet_def fewer_def by blast
qed

lemma ep_type_bits_masked: "ep_type_bits ty = Some t \<Longrightarrow> t AND 0x0600 = t"
  by (auto simp: ep_type_bits_def split: if_split_asm)

lemma ep_open_fewer:
  assumes "usbd_ep_open c d = Some (rc, d')"
  shows "dc_fewer d d'"
proof -
  let ?i = "USB_EP_GET_IDX (cfg_ep_addr c)"
  from assms obtain t d1 d2 where t: "ep_type_bits (cfg_ep_type c) = Some t"
    and s: "on_usb (PCD_SET_EPTYPE ?i t) d = Some d1"
    "on_usb (PCD_SET_EP_ADDRESS ?i (of_nat ?i)) d1 = Some d2"
    "ep_open_out c ?i d2 = Some (rc, d') \<or> ep_open_in c ?i d2 = Some (rc, d')"
    unfolding usbd_ep_open_def Let_def
    by (auto split: if_split_asm Option.bind_split_asm)
  have "dc_fewer d d1" using on_usb_quiet [OF _ set_type.quiet] s(1) ep_type_bits_masked [OF t] by metis
  moreover have "dc_fewer d1 d2" using s(2) quiet_set_address by (rule on_usb_quiet)
  ultimately show ?thesis using s(3) ep_open_halves_fewer by (blast intro: dc_fewer_trans)
qed

lemma set_address_fewer: "dc_fewer d (snd (usbd_set_address a d))"
  by (simp add: usbd_set_address_def Let_def dc_fewer_def fewer_def)

interpretation pend: port_relation dc_fewer
  using ep_open_fewer ep_stall_fewer ep_write_fewer ep_read_fewer set_address_fewer
  by unfold_locales (blast intro: dc_fewer_refl dc_fewer_trans)+

subsection \<open>The interrupt loop\<close>

definition epr :: "'a usbd \<Rightarrow> u16 list" where "epr s = EPR (USB (port_dc s))"

lemma pend_set_clear:
  "length e = 8 \<Longrightarrow> i < 8 \<Longrightarrow> pend_set (e[i := clear_ctr_rx (e ! i)]) = pend_set e - {(i, 15)}"
  "length e = 8 \<Longrightarrow> i < 8 \<Longrightarrow> pend_set (e[i := clear_ctr_tx (e ! i)]) = pend_set e - {(i, 7)}"
  by (auto simp: pend_set_def nth_list_update clear_ctr_rx_def clear_ctr_tx_def bit_simps split: if_split_asm)

lemma ISTR_fields:
  "read_ISTR arb r AND 0x8000 = arb (EPR r) AND 0x8000" "read_ISTR arb r AND 0x0010 = arb (EPR r) AND 0x0010"
  "read_ISTR arb r AND 0x000F = arb (EPR r) AND 0x000F"
  unfolding read_ISTR_def by (rule u16_eqI; simp add: bit_simps)+

lemma low_nibble_u8: "unat (ucast (v AND 0x000F :: u16) :: u8) = unat (v AND 0x000F)"
proof -
  have "unat (v AND 0x000F) \<le> 15" using word_and_le1 [of v "0x000F"] by (simp add: word_le_nat_alt)
  then show ?thesis by (simp add: unsigned_ucast_eq take_bit_nat_eq_self_iff)
qed

lemma on_regs_pend: "on_regs f s = Some t \<Longrightarrow> quiet f \<Longrightarrow> pend.rel s t"
  unfolding on_regs_def using on_usb_quiet
  by (fastforce intro: pend.rel_port split: Option.bind_split_asm)

lemma on_regs_clear_rx:
  assumes "on_regs (PCD_CLEAR_RX_EP_CTR i) s = Some t" and "length (epr s) = 8"
  shows "pend.rel s t" "length (epr t) = 8" "pend_set (epr t) = pend_set (epr s) - {(i, 15)}"
proof -
  show "pend.rel s t" using assms(1) clear_rx_ctr.quiet by (rule on_regs_pend)
  have "i < 8" "epr t = (epr s)[i := clear_ctr_rx (epr s ! i)]"
    using assms by (auto simp: on_regs_def on_usb_def clear_rx_ctr.acts epr_def split: if_split_asm)
  then show "length (epr t) = 8" "pend_set (epr t) = pend_set (epr s) - {(i, 15)}"
    using pend_set_clear(1) [OF assms(2)] assms(2) by simp_all
qed

lemma on_regs_clear_tx:
  assumes "on_regs (PCD_CLEAR_TX_EP_CTR i) s = Some t" and "length (epr s) = 8"
  shows "pend.rel s t" "length (epr t) = 8" "pend_set (epr t) = pend_set (epr s) - {(i, 7)}"
proof -
  show "pend.rel s t" using assms(1) clear_tx_ctr.quiet by (rule on_regs_pend)
  have "i < 8" "epr t = (epr s)[i := clear_ctr_tx (epr s ! i)]"
    using assms by (auto simp: on_regs_def on_usb_def clear_tx_ctr.acts epr_def split: if_split_asm)
  then show "length (epr t) = 8" "pend_set (epr t) = pend_set (epr s) - {(i, 7)}"
    using pend_set_clear(2) [OF assms(2)] assms(2) by simp_all
qed

lemma pend_rel_epr: "pend.rel s t \<Longrightarrow> length (epr s) = 8 \<Longrightarrow> length (epr t) = 8 \<and> pend_set (epr t) \<subseteq> pend_set (epr s)"
  by (simp add: pend.rel_def dc_fewer_def fewer_def epr_def)

lemma take_address_pend: "take_address s = Some t \<Longrightarrow> pend.rel s t"
  by (auto simp: take_address_def Let_def pend.rel_def dc_fewer_def fewer_def split: if_split_asm Option.bind_split_asm)

text \<open>A step that clears a flag and is quiet otherwise.\<close>

definition clears_flag :: "nat \<times> nat \<Rightarrow> 'a usbd \<Rightarrow> 'a usbd \<Rightarrow> bool" where
  "clears_flag x s t \<longleftrightarrow> (pend.cbs_ok s \<longrightarrow> length (epr s) = 8 \<longrightarrow>
     pend.rel s t \<and> pend_set (epr t) \<subseteq> pend_set (epr s) - {x})"

lemma clears_flagI:
  assumes "pend.cbs_ok s \<Longrightarrow> length (epr s) = 8 \<Longrightarrow> pend.rel s s1 \<and> pend_set (epr s1) \<subseteq> pend_set (epr s) - {x}"
    and "pend.cbs_ok s1 \<Longrightarrow> pend.rel s1 t"
  shows "clears_flag x s t"
  unfolding clears_flag_def
proof (intro impI)
  assume a: "pend.cbs_ok s" "length (epr s) = 8"
  note s1 = assms(1) [OF a]
  have "pend.rel s1 t" using s1 a(1) pend.cbs_ok_rel assms(2) by blast
  with s1 a(2) show "pend.rel s t \<and> pend_set (epr t) \<subseteq> pend_set (epr s) - {x}"
    using pend_rel_epr [of s s1] pend_rel_epr [of s1 t] pend.rel_trans by blast
qed

end
