(* ===== verification/UsbIrqFacts.thy ===== *)
theory UsbIrqFacts imports UsbPending UsbPortProps begin

text \<open>
  The interrupt handler: the lowest-first arbitration obeys the laws of \<open>ctr_arbiter\<close>, and each round of the loop over
  correct transfers clears a flag, for every arbitration that obeys them.
\<close>

subsection \<open>The lowest-first arbitration obeys the laws\<close>

lemma lowest_first_Some:
  assumes "find (pending_at e) [0..<8] = Some i"
  shows "i < 8" and "pending_at e i" and "lowest_first e AND 0x000F = of_nat i"
    and "lowest_first e AND 0x8000 \<noteq> 0" and "lowest_first e AND 0x0010 \<noteq> 0 \<longleftrightarrow> bit (e ! i) 15"
proof -
  show i: "i < 8" "pending_at e i" using assms by (auto simp: find_Some_iff)
  from below8 [OF i(1)] have "lowest_first e AND 0x000F = of_nat i \<and> lowest_first e AND 0x8000 \<noteq> 0 \<and>
      (lowest_first e AND 0x0010 \<noteq> 0 \<longleftrightarrow> bit (e ! i) 15)"
    unfolding lowest_first_def assms option.case by (elim disjE) (cases "bit (e ! i) 15"; simp)+
  then show "lowest_first e AND 0x000F = of_nat i" "lowest_first e AND 0x8000 \<noteq> 0"
    "lowest_first e AND 0x0010 \<noteq> 0 \<longleftrightarrow> bit (e ! i) 15" by simp_all
qed

interpretation lf: ctr_arbiter lowest_first
proof
  fix e :: "u16 list" assume len: "length e = 8"
  have none: "lowest_first e AND 0x8000 = 0 \<and> \<not> (\<exists>i. pending_at e i)" if "find (pending_at e) [0..<8] = None"
  proof
    show "lowest_first e AND 0x8000 = 0" by (simp add: lowest_first_def that)
    show "\<not> (\<exists>i. pending_at e i)" using that len by (auto simp: find_None_iff pending_at_def)
  qed
  show iff: "lowest_first e AND 0x8000 \<noteq> 0 \<longleftrightarrow> (\<exists>i. pending_at e i)"
    using none lowest_first_Some by (cases "find (pending_at e) [0..<8]") blast+
  assume "lowest_first e AND 0x8000 \<noteq> 0"
  then obtain i where i: "find (pending_at e) [0..<8] = Some i" using none by fastforce
  note l = lowest_first_Some [OF i]
  have ix: "unat (lowest_first e AND 0x000F) = i" unfolding l(3) using l(1) by (simp add: unat_of_nat)
  show "pending_at e (unat (lowest_first e AND 0x000F))" unfolding ix by (rule l(2))
  show "bit (e ! unat (lowest_first e AND 0x000F)) 7" if "lowest_first e AND 0x0010 = 0"
    unfolding ix using that l(2,5) by (auto simp: pending_at_def)
  show "bit (e ! unat (lowest_first e AND 0x000F)) 15" if "lowest_first e AND 0x0010 \<noteq> 0"
    unfolding ix using that l(5) by blast
qed

subsection \<open>Each step clears a flag\<close>

lemma notify_pend:
  "usbd_event_notify_handler ev arg s = Some t \<Longrightarrow> pend.cbs_ok s \<Longrightarrow> ev \<noteq> USBD_EVENT_RESET \<Longrightarrow> pend.rel s t"
  by (rule pend.notify_rel)

lemma ctr_ep0_in_clears: "ctr_ep0_in s = Some t \<Longrightarrow> clears_flag (0, 7) s t"
proof -
  assume "ctr_ep0_in s = Some t"
  then obtain s1 s2 where s: "on_regs (PCD_CLEAR_TX_EP_CTR 0) s = Some s1"
    "usbd_event_notify_handler USBD_EVENT_EP0_IN_NOTIFY 0 s1 = Some s2" "take_address s2 = Some t"
    by (auto simp: ctr_ep0_in_def split: Option.bind_split_asm)
  show ?thesis
  proof (rule clears_flagI)
    show "pend.rel s s1 \<and> pend_set (epr s1) \<subseteq> pend_set (epr s) - {(0, 7)}" if "length (epr s) = 8"
      using on_regs_clear_tx [OF s(1) that] by simp
    show "pend.rel s1 t" if "pend.cbs_ok s1"
      using notify_pend [OF s(2) that] take_address_pend [OF s(3)] pend.rel_trans by blast
  qed
qed

lemma ctr_ep0_out_clears:
  assumes "ctr_ep0_out s = Some t" and "bit (epr s ! 0) 15" and "length (epr s) = 8"
  shows "clears_flag (0, 15) s t"
proof -
  have "epr s ! 0 AND 0x8000 \<noteq> 0" using assms(2) and_pow2 [of "0x8000" 15 "epr s ! 0"] by simp
  moreover have "PCD_GET_ENDPOINT 0 (USB (port_dc s)) = Some (epr s ! 0)"
    using assms(3) by (simp add: PCD_GET_ENDPOINT_def rd_def epr_def)
  ultimately obtain s1 s2 ev where s: "on_regs (PCD_CLEAR_RX_EP_CTR 0) s = Some s1"
    "usbd_event_notify_handler ev 0 s1 = Some s2" "ev \<noteq> USBD_EVENT_RESET"
    "on_regs (PCD_SET_EP_RX_STATUS 0 0x3000) s2 = Some t"
    using assms(1) by (fastforce simp: ctr_ep0_out_def split: Option.bind_split_asm if_split_asm)
  show ?thesis
  proof (rule clears_flagI)
    show "pend.rel s s1 \<and> pend_set (epr s1) \<subseteq> pend_set (epr s) - {(0, 15)}" if "length (epr s) = 8"
      using on_regs_clear_rx [OF s(1) that] by simp
    show "pend.rel s1 t" if "pend.cbs_ok s1"
      using notify_pend [OF s(2) that s(3)] on_regs_pend [OF s(4) rx_status.quiet] pend.rel_trans by blast
  qed
qed

definition opt_clear :: "bool \<Rightarrow> (nat \<Rightarrow> usb_regs \<Rightarrow> usb_regs option) \<Rightarrow> nat \<Rightarrow> usbd_event \<Rightarrow> u8 \<Rightarrow> 'a usbd \<Rightarrow> 'a usbd option" where
  "opt_clear b f i ev arg s =
     (if b then do { s \<leftarrow> on_regs (f i) s; usbd_event_notify_handler ev arg s } else Some s)"

lemma opt_clear_rel:
  assumes "opt_clear b f i ev arg s = Some t" and "quiet (f i)" and "ev \<noteq> USBD_EVENT_RESET" and "pend.cbs_ok s"
  shows "pend.rel s t"
proof (cases b)
  case True
  with assms(1) obtain s1 where s: "on_regs (f i) s = Some s1" "usbd_event_notify_handler ev arg s1 = Some t"
    by (auto simp: opt_clear_def split: Option.bind_split_asm)
  have r: "pend.rel s s1" using s(1) assms(2) by (rule on_regs_pend)
  with notify_pend [OF s(2) _ assms(3)] pend.cbs_ok_rel [OF r assms(4)] pend.rel_trans show ?thesis by blast
qed (use assms(1) in \<open>simp add: opt_clear_def\<close>)

lemma ctr_ep_clears:
  assumes "ctr_ep n s = Some t" and p: "pending_at (epr s) (unat n)" and "length (epr s) = 8"
  shows "\<exists>b. (unat n, b) \<in> pend_set (epr s) \<and> clears_flag (unat n, b) s t"
proof -
  let ?v = "epr s ! unat n"
  have "PCD_GET_ENDPOINT (unat n) (USB (port_dc s)) = Some ?v"
    using p by (simp add: PCD_GET_ENDPOINT_def rd_def epr_def pending_at_def)
  with assms(1) obtain s1 where
    s: "opt_clear (?v AND 0x8000 \<noteq> 0) PCD_CLEAR_RX_EP_CTR (unat n) USBD_EVENT_EP_OUT_NOTIFY (n AND 0x7F) s = Some s1"
      "opt_clear (?v AND 0x0080 \<noteq> 0) PCD_CLEAR_TX_EP_CTR (unat n) USBD_EVENT_EP_IN_NOTIFY (n OR 0x80) s1 = Some t"
    unfolding ctr_ep_def opt_clear_def by (auto split: Option.bind_split_asm)
  have bits: "?v AND 0x8000 \<noteq> 0 \<longleftrightarrow> bit ?v 15" "?v AND 0x0080 \<noteq> 0 \<longleftrightarrow> bit ?v 7"
    using and_pow2 [of "0x8000" 15 ?v] and_pow2 [of "0x0080" 7 ?v] by simp_all
  note r1 = opt_clear_rel [OF s(1) clear_rx_ctr.quiet, simplified]
  note r2 = opt_clear_rel [OF s(2) clear_tx_ctr.quiet, simplified]
  show ?thesis
  proof (cases "bit ?v 15")
    case True
    with bits(1) s(1) obtain u where u: "on_regs (PCD_CLEAR_RX_EP_CTR (unat n)) s = Some u"
      "usbd_event_notify_handler USBD_EVENT_EP_OUT_NOTIFY (n AND 0x7F) u = Some s1"
      by (auto simp: opt_clear_def split: Option.bind_split_asm)
    have "clears_flag (unat n, 15) s t"
    proof (rule clears_flagI)
      show "pend.rel s u \<and> pend_set (epr u) \<subseteq> pend_set (epr s) - {(unat n, 15)}" if "length (epr s) = 8"
        using on_regs_clear_rx [OF u(1) that] by simp
      show "pend.rel u t" if "pend.cbs_ok u"
        using notify_pend [OF u(2) that] r2 pend.cbs_ok_rel that pend.rel_trans by blast
    qed
    then show ?thesis using True p by (auto simp: pend_set_def pending_at_def)
  next
    case False
    with bits(1) s(1) have s1: "s1 = s" by (simp add: opt_clear_def)
    have b7: "bit ?v 7" using False p by (simp add: pending_at_def)
    with bits(2) s(2) obtain u where u: "on_regs (PCD_CLEAR_TX_EP_CTR (unat n)) s = Some u"
      "usbd_event_notify_handler USBD_EVENT_EP_IN_NOTIFY (n OR 0x80) u = Some t"
      by (auto simp: opt_clear_def s1 split: Option.bind_split_asm)
    have "clears_flag (unat n, 7) s t"
    proof (rule clears_flagI)
      show "pend.rel s u \<and> pend_set (epr u) \<subseteq> pend_set (epr s) - {(unat n, 7)}" if "length (epr s) = 8"
        using on_regs_clear_tx [OF u(1) that] by simp
      show "pend.rel u t" if "pend.cbs_ok u" using notify_pend [OF u(2) that] by simp
    qed
    then show ?thesis using b7 p by (auto simp: pend_set_def pending_at_def)
  qed
qed

context ctr_arbiter begin

lemma step_clears:
  assumes "ctr_step (read_ISTR arb (USB (port_dc s))) s = Some t" and "length (epr s) = 8"
    and "read_ISTR arb (USB (port_dc s)) AND 0x8000 \<noteq> 0"
  shows "\<exists>x \<in> pend_set (epr s). clears_flag x s t"
proof -
  let ?w = "read_ISTR arb (USB (port_dc s))" and ?e = "epr s"
  have f: "?w AND 0x8000 = arb ?e AND 0x8000" "?w AND 0x0010 = arb ?e AND 0x0010" "?w AND 0x000F = arb ?e AND 0x000F"
    unfolding epr_def by (rule ISTR_fields)+
  have ctr: "arb ?e AND 0x8000 \<noteq> 0" using assms(3) f(1) by simp
  let ?n = "ucast (?w AND 0x000F) :: u8"
  have n: "unat ?n = unat (arb ?e AND 0x000F)" unfolding low_nibble_u8 f(3) ..
  note p = ep_id [OF assms(2) ctr, folded n]
  show ?thesis
  proof (cases "?n = 0")
    case False
    with assms(1) have "ctr_ep ?n s = Some t" by (simp add: ctr_step_def Let_def)
    from ctr_ep_clears [OF this p assms(2)] show ?thesis by blast
  next
    case True
    with n have z: "unat (arb ?e AND 0x000F) = 0" by simp
    show ?thesis
    proof (cases "?w AND 0x0010 = 0")
      case T: True
      with True assms(1) have "ctr_ep0_in s = Some t" by (simp add: ctr_step_def Let_def)
      moreover have "bit (?e ! 0) 7" using dir_in [OF assms(2) ctr] T f(2) z by simp
      ultimately show ?thesis using ctr_ep0_in_clears assms(2)
        by (intro bexI [of _ "(0, 7)"]) (simp_all add: pend_set_def)
    next
      case F: False
      with True assms(1) have "ctr_ep0_out s = Some t" by (simp add: ctr_step_def Let_def)
      moreover have "bit (?e ! 0) 15" using dir_out [OF assms(2) ctr] F f(2) z by simp
      ultimately show ?thesis using ctr_ep0_out_clears assms(2)
        by (intro bexI [of _ "(0, 15)"]) (simp_all add: pend_set_def)
    qed
  qed
qed

lemma step_decreases:
  assumes "ctr_step (read_ISTR arb (USB (port_dc s))) s = Some t" and "length (epr s) = 8"
    and "read_ISTR arb (USB (port_dc s)) AND 0x8000 \<noteq> 0" and "pend.cbs_ok s"
  shows "length (epr t) = 8" and "pend.cbs_ok t" and "pend.rel s t"
    and "card (pend_set (epr t)) < card (pend_set (epr s))"
proof -
  obtain x where x: "x \<in> pend_set (epr s)" "clears_flag x s t" using step_clears [OF assms(1-3)] by blast
  then have r: "pend.rel s t" "pend_set (epr t) \<subseteq> pend_set (epr s) - {x}"
    using assms(2,4) by (simp_all add: clears_flag_def)
  show "pend.rel s t" "length (epr t) = 8" "pend.cbs_ok t"
    using r(1) pend_rel_epr [OF r(1) assms(2)] pend.cbs_ok_rel [OF r(1) assms(4)] by simp_all
  have "pend_set (epr t) \<subset> pend_set (epr s)" using r(2) x(1) by blast
  then show "card (pend_set (epr t)) < card (pend_set (epr s))" by (simp add: psubset_card_mono)
qed

end

end
