(* ===== verification/Descriptors.thy ===== *)
theory Descriptors imports UsbCore begin

text \<open>
  The descriptor tables of project/CMSIS_DAPv2/src/usb_descriptor.c, with the initialiser macros of
  usb_def.h that build them, their registration, and what the core's walk finds in them.
\<close>

subsection \<open>The initialiser macros\<close>

definition WBVAL :: "u16 \<Rightarrow> u8 list" where
  "WBVAL x = [ucast (x AND 0xFF), ucast (drop_bit 8 x AND 0xFF)]"

definition USB_DEVICE_DESCRIPTOR_INIT :: "u16 \<Rightarrow> u8 \<Rightarrow> u8 \<Rightarrow> u8 \<Rightarrow> u16 \<Rightarrow> u16 \<Rightarrow> u16 \<Rightarrow> u8 \<Rightarrow> u8 list" where
  "USB_DEVICE_DESCRIPTOR_INIT bcdUSB bDeviceClass bDeviceSubClass bDeviceProtocol idVendor idProduct bcdDevice
     bNumConfigurations =
     [0x12, 0x01] @ WBVAL bcdUSB @ [bDeviceClass, bDeviceSubClass, bDeviceProtocol, 0x40] @
     WBVAL idVendor @ WBVAL idProduct @ WBVAL bcdDevice @ [0x01, 0x02, 0x03, bNumConfigurations]"

definition USB_CONFIG_DESCRIPTOR_INIT :: "u16 \<Rightarrow> u8 \<Rightarrow> u8 \<Rightarrow> u8 \<Rightarrow> u8 \<Rightarrow> u8 list" where
  "USB_CONFIG_DESCRIPTOR_INIT wTotalLength bNumInterfaces bConfigurationValue bmAttributes bMaxPower =
     [0x09, 0x02] @ WBVAL wTotalLength @ [bNumInterfaces, bConfigurationValue, 0x00, bmAttributes, bMaxPower div 2]"

definition USB_LANGID_INIT :: "u16 \<Rightarrow> u8 list" where
  "USB_LANGID_INIT langid = [0x04, 0x03] @ WBVAL langid"

text \<open>The characters of a string descriptor, each followed by a zero byte.\<close>

definition utf16 :: "string \<Rightarrow> u8 list" where
  "utf16 cs = concat (map (\<lambda>c. [of_char c, 0]) cs)"

subsection \<open>The tables\<close>

definition cmsis_hid_report_descriptor :: "u8 list" where
  "cmsis_hid_report_descriptor =
    [0x06, 0x00, 0xFF, 0x09, 0x01, 0xA1, 0x01,
     0x09, 0x02, 0x15, 0x00, 0x26, 0xFF, 0x00, 0x75, 0x08, 0x95, 0x40, 0x81, 0x02,
     0x09, 0x03, 0x15, 0x00, 0x26, 0xFF, 0x00, 0x75, 0x08, 0x95, 0x40, 0x91, 0x02,
     0xC0]"

definition interface_descriptor :: "u8 list" where
  "interface_descriptor = [0x09, 0x04, 0x00, 0x00, 0x02, 0x03, 0x00, 0x00, 0x00]"

definition hid_class_descriptor :: "u8 list" where
  "hid_class_descriptor = [0x09, 0x21, 0x11, 0x01, 0x00, 0x01, 0x22, 34, 0x00]"

definition endpoint_out_descriptor :: "u8 list" where
  "endpoint_out_descriptor = [0x07, 0x05, 0x02, 0x03, 64, 0x00, 1]"

definition endpoint_in_descriptor :: "u8 list" where
  "endpoint_in_descriptor = [0x07, 0x05, 0x81, 0x03, 64, 0x00, 1]"

definition string_descriptor :: "u8 \<Rightarrow> string \<Rightarrow> u8 list" where
  "string_descriptor n cs = [n, 0x03] @ utf16 cs"

definition cmsis_hid_descriptor :: "u8 list" where
  "cmsis_hid_descriptor =
     USB_DEVICE_DESCRIPTOR_INIT 0x0200 0x00 0x00 0x00 0x0D28 0x0204 0x0100 0x01 @
     USB_CONFIG_DESCRIPTOR_INIT 41 0x01 0x01 0x80 100 @
     interface_descriptor @ hid_class_descriptor @ endpoint_out_descriptor @ endpoint_in_descriptor @
     USB_LANGID_INIT 0x0409 @ string_descriptor 0x12 ''ARM mbed'' @
     string_descriptor 0x2E ''CMSIS-DAP v2 (N32G43x)'' @ string_descriptor 0x12 ''00000000'' @ [0x00]"

definition cmsis_dap_usb_desc_init :: "'a usbd \<Rightarrow> 'a usbd" where
  "cmsis_dap_usb_desc_init s = usbd_desc_register cmsis_hid_descriptor s"

definition cmsis_dap_hid_report_register :: "u8 \<Rightarrow> 'a usbd \<Rightarrow> 'a usbd" where
  "cmsis_dap_hid_report_register n s = usbd_hid_report_descriptor_register n cmsis_hid_report_descriptor 34 s"

subsection \<open>The table as a list of descriptors\<close>

text \<open>A table of descriptors, each headed by its length, behind which a zero ends it.\<close>

definition desc_table :: "u8 list list \<Rightarrow> u8 list" where
  "desc_table dss = concat dss @ [0]"

definition well_headed :: "u8 list \<Rightarrow> bool" where
  "well_headed x \<longleftrightarrow> 2 \<le> length x \<and> unat (hd x) = length x"

text \<open>What the walk does with such a table: one round for each descriptor, at its start.\<close>

fun walk_list :: "(nat \<Rightarrow> 's \<Rightarrow> ('r + 's) option) \<Rightarrow> u8 list list \<Rightarrow> nat \<Rightarrow> 's \<Rightarrow> ('r + 's) option" where
  "walk_list body [] p s = Some (Inr s)"
| "walk_list body (x # xs) p s =
     (case body p s of
        None \<Rightarrow> None
      | Some (Inl r) \<Rightarrow> Some (Inl r)
      | Some (Inr s') \<Rightarrow> walk_list body xs (p + length x) s')"

lemma walk_desc_table_at:
  assumes "\<forall>x \<in> set xs. well_headed x"
  shows "walk_desc body (pre @ concat xs @ [0] @ post) (length pre) s = walk_list body xs (length pre) s"
  using assms
proof (induction xs arbitrary: pre s)
  case Nil
  then show ?case by (simp add: walk_desc.simps nth_append)
next
  case (Cons x xs)
  then obtain y r where x: "x = y # r" "unat y = length x" by (cases x) (auto simp: well_headed_def)
  have "(pre @ concat (x # xs) @ [0] @ post) ! length pre = y" "y \<noteq> 0"
    using x Cons.prems by (auto simp: nth_append)
  moreover have "walk_desc body ((pre @ x) @ concat xs @ [0] @ post) (length (pre @ x)) s' =
      walk_list body xs (length (pre @ x)) s'" for s'
    using Cons by (intro Cons.IH) simp
  ultimately show ?case
    using x(2) by (subst walk_desc.simps) (simp add: add.commute split: option.split sum.split)
qed

lemma walk_desc_table:
  "\<forall>x \<in> set xs. well_headed x \<Longrightarrow> walk_desc body (desc_table xs) 0 s = walk_list body xs 0 s"
  using walk_desc_table_at [of xs body "[]" "[]" s] by (simp add: desc_table_def)

definition cmsis_descs :: "u8 list list" where
  "cmsis_descs =
    [USB_DEVICE_DESCRIPTOR_INIT 0x0200 0x00 0x00 0x00 0x0D28 0x0204 0x0100 0x01,
     USB_CONFIG_DESCRIPTOR_INIT 41 0x01 0x01 0x80 100,
     interface_descriptor, hid_class_descriptor, endpoint_out_descriptor, endpoint_in_descriptor,
     USB_LANGID_INIT 0x0409, string_descriptor 0x12 ''ARM mbed'',
     string_descriptor 0x2E ''CMSIS-DAP v2 (N32G43x)'', string_descriptor 0x12 ''00000000'']"

lemma cmsis_table: "cmsis_hid_descriptor = desc_table cmsis_descs"
  by (simp add: cmsis_hid_descriptor_def desc_table_def cmsis_descs_def)

lemmas desc_defs = USB_DEVICE_DESCRIPTOR_INIT_def USB_CONFIG_DESCRIPTOR_INIT_def USB_LANGID_INIT_def WBVAL_def
  interface_descriptor_def hid_class_descriptor_def endpoint_out_descriptor_def endpoint_in_descriptor_def
  string_descriptor_def utf16_def

lemma cmsis_well_headed: "\<forall>x \<in> set cmsis_descs. well_headed x"
  by (simp add: cmsis_descs_def well_headed_def desc_defs)

text \<open>The table with its bytes computed.\<close>

lemma cmsis_bytes:
  "cmsis_descs =
    [[0x12, 0x01, 0x00, 0x02, 0, 0, 0, 0x40, 0x28, 0x0D, 0x04, 0x02, 0x00, 0x01, 1, 2, 3, 1],
     [0x09, 0x02, 41, 0, 1, 1, 0, 0x80, 50],
     [0x09, 0x04, 0, 0, 2, 3, 0, 0, 0], [0x09, 0x21, 0x11, 0x01, 0, 1, 0x22, 34, 0],
     [0x07, 0x05, 0x02, 0x03, 64, 0, 1], [0x07, 0x05, 0x81, 0x03, 64, 0, 1], [0x04, 0x03, 0x09, 0x04],
     string_descriptor 0x12 ''ARM mbed'', string_descriptor 0x2E ''CMSIS-DAP v2 (N32G43x)'',
     string_descriptor 0x12 ''00000000'']"
  by (simp add: cmsis_descs_def USB_DEVICE_DESCRIPTOR_INIT_def USB_CONFIG_DESCRIPTOR_INIT_def USB_LANGID_INIT_def
      WBVAL_def interface_descriptor_def hid_class_descriptor_def endpoint_out_descriptor_def
      endpoint_in_descriptor_def)

end
