(* ===== verification/System.thy ===== *)
theory System imports Descriptors DapTransfer UsbIrqFacts begin

text \<open>
  The firmware as main.c puts it together: the HID endpoint callbacks that run the CMSIS-DAP command
  processor, the registration of the single HID interface, and \<open>main\<close>. The application state of the USB
  stack is the command processor's state; the JTAG target is the parameter \<open>env\<close>, and \<open>stack\<close> stands for
  what the uninitialised request buffer of the callback holds.
\<close>

subsection \<open>Endpoint callbacks\<close>

definition usbd_hid_out_handler :: "target \<Rightarrow> u8 list \<Rightarrow> dap endpoint_callback" where
  "usbd_hid_out_handler env stack ep = (\<lambda>(d, a).
     do { (rc, req_buffer, cnt, d) \<leftarrow> usbd_ep_read ep (Some stack) 64 d;
          let req_len = (case cnt of None \<Rightarrow> 0 | Some c \<Rightarrow> c);
          (d, a) \<leftarrow>
            (if req_len > 0
             then do {
               (resp_len, resp_buffer', a) \<leftarrow> dap_process_command env req_buffer req_len (Some (replicate 64 0)) a;
               (rc, ret, d) \<leftarrow> usbd_ep_write 0x81 resp_buffer' 64 d;
               Some (d, a) }
             else Some (d, a));
          (rc, dst, cnt, d) \<leftarrow> usbd_ep_read ep None 0 d;
          Some (d, a) })"

definition usbd_hid_in_handler :: "dap endpoint_callback" where
  "usbd_hid_in_handler ep = Some"

subsection \<open>Registration and start\<close>

text \<open>
  \<open>cmsis_dap_class\<close> and \<open>cmsis_dap_intf\<close> are the objects 0 of their kinds, \<open>hid_out_ep\<close> is endpoint
  object 0 and \<open>hid_in_ep\<close> endpoint object 1.
\<close>

definition hid_endpoints :: "target \<Rightarrow> u8 list \<Rightarrow> nat \<Rightarrow> dap usbd_endpoint" where
  "hid_endpoints env stack k =
     (if k = 0 then \<lparr>ept_addr = 0x02, ep_cb = Some (usbd_hid_out_handler env stack)\<rparr>
      else \<lparr>ept_addr = 0x81, ep_cb = Some usbd_hid_in_handler\<rparr>)"

definition cmsis_dap_usb_init :: "(usb_regs \<Rightarrow> usb_regs) \<Rightarrow> 'a usbd \<Rightarrow> 'a usbd option" where
  "cmsis_dap_usb_init force s =
     do { let s = cmsis_dap_usb_desc_init s;
          s \<leftarrow> usbd_hid_add_interface 0 0 s;
          let s = cmsis_dap_hid_report_register 0 s;
          let s = usbd_interface_add_endpoint 0 0 s;
          let s = usbd_interface_add_endpoint 0 1 s;
          Some (snd (usbd_initialize force s)) }"

text \<open>What \<open>main\<close> asks of the kernel: a thread with its name, stack size, priority and time slice.\<close>

record thread_start =
  th_name :: string
  th_stack_size :: u32
  th_priority :: u8
  th_tick :: u32

definition main_c :: "(usb_regs \<Rightarrow> usb_regs) \<Rightarrow> dap usbd \<Rightarrow> (int \<times> dap usbd \<times> thread_start list) option" where
  "main_c force s =
     do { let s = s\<lparr>application := dap_init (application s)\<rparr>;
          s \<leftarrow> cmsis_dap_usb_init force s;
          Some (0, s, [\<lparr>th_name = ''dap_log'', th_stack_size = 1024, th_priority = 20, th_tick = 5\<rparr>]) }"

definition at_reset :: "target \<Rightarrow> u8 list \<Rightarrow> dap usbd" where
  "at_reset env stack = usbd_zero (hid_endpoints env stack) power_on dap_initial"

subsection \<open>A report is answered\<close>

lemma hid_out_handler_answers:
  assumes inv: "dc_inv d" and mps: "ep_mps (in_ep d ! 1) = 64"
    and n: "n = rx_count d 2" "0 < n" "n \<le> 64" "n \<le> unat (ep_mps (out_ep d ! 2))" and st: "length stack = 64"
    and run: "dap_process_command env (Some (rx_packet d 2 n @ drop n stack)) (of_nat n) (Some (replicate 64 0)) a =
      Some (len, Some out, a')" and out: "length out = 64"
  shows "\<exists>d1 d'. usbd_hid_out_handler env stack 0x02 (d, a) = Some (d', a') \<and> sends 1 out d d1 \<and>
    d' = d1\<lparr>USB := (USB d1)\<lparr>EPR := (EPR (USB d1))[2 := set_stat_rx 0x3000 (EPR (USB d1) ! 2)]\<rparr>\<rparr> \<and> dc_inv d'"
proof -
  have ix: "USB_EP_GET_IDX 0x02 = 2" "USB_EP_GET_IDX 0x81 = 1" by (simp_all add: USB_EP_GET_IDX_def)
  have r: "usbd_ep_read 0x02 (Some stack) 64 d = Some (0, Some (rx_packet d 2 n @ drop n stack), Some (of_nat n), d)"
    using ep_read_packet [OF inv _ ix(1), of 64 n stack] n st by (simp add: overwritten_def rx_packet_def)
  have pos: "(of_nat n :: u32) > 0" using n(2,3) by (simp add: word_less_nat_alt unat_of_nat)
  obtain d1 where w: "usbd_ep_write 0x81 (Some out) 64 d = Some (0, Some 64, d1)" "sends 1 out d d1"
    using ep_write_packet [OF inv _ ix(2), of 64 64 out] mps out by auto
  have inv1: "dc_inv d1" using sends_inv [OF w(2) inv] .
  let ?d' = "d1\<lparr>USB := (USB d1)\<lparr>EPR := (EPR (USB d1))[2 := set_stat_rx 0x3000 (EPR (USB d1) ! 2)]\<rparr>\<rparr>"
  have a: "usbd_ep_read 0x02 None 0 d1 = Some (0, None, None, ?d')"
    using ep_read_arms [OF inv1 _ ix(1), of None] by simp
  have "usbd_hid_out_handler env stack 0x02 (d, a) = Some (?d', a')"
    using pos by (simp add: usbd_hid_out_handler_def r run w(1) a)
  moreover have "dc_inv ?d'" using inv1 by (simp add: dc_inv_def regs_ok_def)
  ultimately show ?thesis using w(2) by blast
qed

lemma and_status: "set_stat_tx 0x0030 v AND 0x0030 = 0x0030" "set_stat_rx 0x3000 v AND 0x3000 = 0x3000"
  by (rule u16_eqI; simp add: field_defs bit_simps)+

text \<open>
  C20: every 1 to 64 byte report that the host sends to endpoint 2 with a command other than the two
  transfer commands is answered: the callback runs the command processor on exactly the received
  bytes, hands its 64-byte answer, zero-padded, to IN endpoint 1, enables that endpoint, enables
  endpoint 2 for the next report, and keeps the invariants of the port and of the command processor.
\<close>

theorem report_is_answered:
  assumes "dc_inv d" and "dap_inv a" and "ep_mps (in_ep d ! 1) = 64" and "rx_count d 2 = n" and "0 < n" and "n \<le> 64"
    and "n \<le> unat (ep_mps (out_ep d ! 2))" and "length stack = 64"
    and "rx_packet d 2 n ! 0 \<noteq> 0x31" and "rx_packet d 2 n ! 0 \<noteq> 0x32"
  shows "\<exists>d' a' len out. usbd_hid_out_handler env stack 0x02 (d, a) = Some (d', a') \<and>
    dap_process_command env (Some (rx_packet d 2 n @ drop n stack)) (of_nat n) (Some (replicate 64 0)) a =
      Some (len, Some out, a') \<and>
    tx_packet d' 1 = out \<and> length out = 64 \<and> EPR (USB d') ! 1 AND 0x0030 = 0x0030 \<and>
    EPR (USB d') ! 2 AND 0x3000 = 0x3000 \<and> dc_inv d' \<and> dap_inv a'"
proof -
  let ?req = "rx_packet d 2 n @ drop n stack"
  have len: "length ?req = 64" "?req ! 0 = rx_packet d 2 n ! 0"
    using assms(5,6,8) by (simp_all add: rx_packet_def nth_append)
  have un: "unat (of_nat n :: u32) = n" using assms(6) by (simp add: unat_of_nat)
  have pos: "(0 :: u32) < of_nat n" "unat (of_nat n :: u32) \<le> 64" using assms(5,6) un by (simp_all add: word_less_nat_alt)
  obtain l out a' where p: "dap_process_command env (Some ?req) (of_nat n) (Some (replicate 64 0)) a = Some (l, Some out, a')"
    "length out = 64" "dap_inv a'"
    using report_command_runs [OF assms(2) len(1) pos length_replicate [of 64 0], of env] assms(9,10) len(2) by auto
  obtain d1 d' where h: "usbd_hid_out_handler env stack 0x02 (d, a) = Some (d', a')" "sends 1 out d d1"
    "d' = d1\<lparr>USB := (USB d1)\<lparr>EPR := (EPR (USB d1))[2 := set_stat_rx 0x3000 (EPR (USB d1) ! 2)]\<rparr>\<rparr>" "dc_inv d'"
    using hid_out_handler_answers [OF assms(1,3) assms(4) [symmetric] assms(5-8) p(1,2)] by blast
  have tx: "tx_packet d' 1 = out" using h(2) by (simp add: h(3) sends_def tx_packet_def pma_bytes_def pma_byte_def)
  have e: "length (EPR (USB d1)) = 8" "EPR (USB d1) ! 1 = set_stat_tx 0x0030 (EPR (USB d) ! 1)"
    using h(2) assms(1) by (auto simp: sends_def dc_inv_def regs_ok_def)
  from h(1,4) p tx e and_status show ?thesis by (simp add: h(3))
qed

theorem report_is_answered_witness:
  "\<exists>d' a' out. usbd_hid_out_handler (\<lambda>_. 0) (replicate 64 0) 0x02 (ready, dap_initial) = Some (d', a') \<and>
     tx_packet d' 1 = out \<and> length out = 64 \<and> dap_inv a'"
proof -
  have c: "rx_count ready 2 = 3" "out_ep ready ! 2 = buf64 128" "in_ep ready ! 1 = buf64 64" by (simp_all add: rx_count_def ready_def)
  have p: "rx_packet ready 2 3 ! 0 = 1"
    by (simp add: rx_packet_def c pma_bytes_def pma_byte_def Let_def buf64_def upt_rec) (simp add: ready_def)
  show ?thesis
    using report_is_answered [OF dc_inv_ready dap_inv_initial _ c(1), of "replicate 64 0" "\<lambda>_. 0"] p c(2,3)
    by (auto simp: buf64_def)
qed

end
