(* ===== verification/Enumeration.thy ===== *)
theory Enumeration imports System begin

text \<open>
  Enumeration: the descriptor search against a list specification, what SET_CONFIGURATION opens, the
  state after \<open>main\<close>, and the packet memory after a bus reset and a configuration.
\<close>

subsection \<open>The descriptor search\<close>

text \<open>Specification: offset and bytes of the \<open>i\<close>-th descriptor of type \<open>ty\<close> in a list of descriptors.\<close>

fun nth_of_type :: "u8 \<Rightarrow> nat \<Rightarrow> u8 list list \<Rightarrow> (nat \<times> u8 list) option" where
  "nth_of_type ty i [] = None"
| "nth_of_type ty i (x # xs) =
     (if x ! 1 = ty \<and> i = 0 then Some (0, x)
      else map_option (\<lambda>(k, y). (length x + k, y)) (nth_of_type ty (if x ! 1 = ty then i - 1 else i) xs))"

definition search_body :: "u8 list \<Rightarrow> u8 \<Rightarrow> u8 \<Rightarrow> nat \<Rightarrow> u32 \<Rightarrow> (nat + u32) option" where
  "search_body ds ty index p cur_index =
     do { t \<leftarrow> rd ds (p + 1);
          if t = ty then Some (if cur_index = ucast index then Inl p else Inr (cur_index + 1)) else Some (Inr cur_index) }"

lemma unat_ucast_8_32: "unat (ucast (x :: u8) :: u32) = unat x"
  using unsigned_less [of x, where 'a = nat] by (simp add: unsigned_ucast_eq take_bit_nat_eq_self_iff)

lemma rd_in_table:
  assumes "k < length x" shows "rd (pre @ concat (x # xs) @ post) (length pre + k) = Some (x ! k)"
  using assms by (simp add: rd_def nth_append)

lemma search_list:
  assumes "\<forall>x \<in> set xs. well_headed x" and "unat cur + i = unat index" and "ds = pre @ concat xs @ [0]"
  shows "case walk_list (search_body ds ty index) xs (length pre) cur of
      None \<Rightarrow> False
    | Some (Inl p) \<Rightarrow> (\<exists>k y. nth_of_type ty i xs = Some (k, y) \<and> p = length pre + k)
    | Some (Inr c) \<Rightarrow> nth_of_type ty i xs = None"
  using assms
proof (induction xs arbitrary: pre cur i)
  case (Cons x xs)
  have x: "1 < length x" using Cons.prems(1) by (auto simp: well_headed_def)
  have t: "rd ds (length pre + 1) = Some (x ! 1)" unfolding Cons.prems(3) by (rule rd_in_table [OF x])
  have ds: "ds = (pre @ x) @ concat xs @ [0]" using Cons.prems(3) by simp
  have wf: "\<forall>x \<in> set xs. well_headed x" using Cons.prems(1) by simp
  have eq: "cur = ucast index \<longleftrightarrow> i = 0"
    using Cons.prems(2) unfolding word_unat_eq_iff unat_ucast_8_32 by linarith
  show ?case
  proof (cases "x ! 1 = ty")
    case False
    note ih = Cons.IH [OF wf Cons.prems(2) ds]
    from False t ih show ?thesis by (auto simp: search_body_def split: option.splits sum.splits)
  next
    case ty: True
    show ?thesis
    proof (cases "i = 0")
      case True
      with ty t eq show ?thesis by (simp add: search_body_def)
    next
      case False
      have "unat index < 256" using unsigned_less [of index, where 'a = nat] by simp
      then have "unat (cur + 1) + (i - 1) = unat index"
        using Cons.prems(2) False by (subst unat_add_lem [THEN iffD1]) simp_all
      note ih = Cons.IH [OF wf this ds]
      from False ty t eq ih show ?thesis by (auto simp: search_body_def split: option.splits sum.splits)
    qed
  qed
qed simp

lemma search_desc:
  assumes "\<forall>x \<in> set xs. well_headed x" and "descriptors s = Some (desc_table xs)"
  shows "case walk_desc (search_body (desc_table xs) ty index) (desc_table xs) 0 0 of
      None \<Rightarrow> False
    | Some (Inl p) \<Rightarrow> (\<exists>y. nth_of_type ty (unat index) xs = Some (p, y))
    | Some (Inr c) \<Rightarrow> nth_of_type ty (unat index) xs = None"
  unfolding walk_desc_table [OF assms(1)]
  using search_list [OF assms(1), of 0 "unat index" index "desc_table xs" "[]" ty]
  by (simp add: desc_table_def split: option.splits sum.splits)

lemma nth_of_type_at:
  assumes "nth_of_type ty i xs = Some (p, y)"
  shows "\<exists>a b. xs = a @ y # b \<and> p = length (concat a) \<and> y ! 1 = ty"
  using assms
proof (induction xs arbitrary: i p)
  case (Cons x xs)
  show ?case
  proof (cases "x ! 1 = ty \<and> i = 0")
    case True
    with Cons.prems show ?thesis by (intro exI [of _ "[]"] exI [of _ xs]) auto
  next
    case False
    with Cons.prems obtain k where k: "nth_of_type ty (if x ! 1 = ty then i - 1 else i) xs = Some (k, y)" "p = length x + k"
      by auto
    from Cons.IH [OF k(1)] obtain a b where "xs = a @ y # b" "k = length (concat a)" "y ! 1 = ty" by blast
    with k(2) show ?thesis by (intro exI [of _ "x # a"] exI [of _ b]) simp
  qed
qed simp

text \<open>The length a descriptor is sent with: its first byte, for a configuration its total length.\<close>

definition sent_length :: "u8 list \<Rightarrow> u32" where
  "sent_length y = (if y ! 1 = 0x02 then ucast (y ! 2) OR push_bit 8 (ucast (y ! 3)) else ucast (y ! 0))"

lemma get_descriptor_result:
  assumes "\<forall>x \<in> set dss. well_headed x \<and> (x ! 1 = 0x02 \<longrightarrow> 4 \<le> length x)" and "descriptors s = Some (desc_table dss)"
    and "ty = ucast (drop_bit 8 w)" and "index = (ucast w :: u8)" and "ty \<in> {0x01, 0x02, 0x03}" and "ty = 0x03 \<longrightarrow> index \<noteq> 0xEE"
  shows "usbd_get_descriptor w s = Some (case nth_of_type ty (unat index) dss of
      None \<Rightarrow> (False, s)
    | Some (p, y) \<Rightarrow> (True, set_data (Ptr Descr p) (sent_length y) s))"
proof -
  let ?ds = "desc_table dss"
  have wf: "\<forall>x \<in> set dss. well_headed x" using assms(1) by blast
  have ty: "\<not> (ty = 0x03 \<and> index = 0xEE)" "ty \<noteq> 0x0F" "\<not> (ty = 0x04 \<or> ty = 0x05 \<or> ty > 0x05)"
    using assms(5,6) by auto
  have unf: "usbd_get_descriptor w s = do { r \<leftarrow> walk_desc (search_body ?ds ty index) ?ds 0 0;
      case r of Inr cur_index \<Rightarrow> Some (False, s)
      | Inl p \<Rightarrow> if ty = 0x02
          then do { lo \<leftarrow> rd ?ds (p + 2); hi \<leftarrow> rd ?ds (p + 3);
                    Some (True, set_data (Ptr Descr p) (ucast lo OR push_bit 8 (ucast hi)) s) }
          else do { l \<leftarrow> rd ?ds p; Some (True, set_data (Ptr Descr p) (ucast l) s) } }"
    unfolding usbd_get_descriptor_def Let_def assms(3) [symmetric] assms(4) [symmetric] if_not_P [OF ty(1)]
      if_not_P [OF ty(2)] if_not_P [OF ty(3)] assms(2) search_body_def by simp
  show ?thesis
  proof (cases "nth_of_type ty (unat index) dss")
    case None
    with search_desc [OF wf assms(2), of ty index] show ?thesis
      by (auto simp: unf split: option.splits sum.splits)
  next
    case (Some q)
    then obtain p y where y: "nth_of_type ty (unat index) dss = Some (p, y)" by (cases q) auto
    from nth_of_type_at [OF y] obtain a b where ab: "dss = a @ y # b" "p = length (concat a)" "y ! 1 = ty" by blast
    have len: "2 \<le> length y" "ty = 0x02 \<longrightarrow> 4 \<le> length y"
      using assms(1) ab by (auto simp: well_headed_def)
    have r: "rd ?ds (p + k) = Some (y ! k)" if "k < length y" for k
      using rd_in_table [OF that, of "concat a" b "[0]"] by (simp add: ab desc_table_def)
    have r0: "rd ?ds p = Some (y ! 0)" using r [of 0] len(1) by (cases y) simp_all
    have "walk_desc (search_body ?ds ty index) ?ds 0 0 = Some (Inl p)"
      using search_desc [OF wf assms(2), of ty index] y by (auto split: option.splits sum.splits)
    then show ?thesis using r [of 2] r [of 3] r0 len ab(3) y by (auto simp: unf sent_length_def)
  qed
qed

text \<open>
  C21: for every well-formed descriptor table, GET_DESCRIPTOR for a device, configuration or string
  descriptor finds exactly the \<open>index\<close>-th descriptor of the type, points the answer at it, with the
  total length of a configuration and the own length of the others, and is refused without a change
  of the state when there are not so many; the walk never leaves the table.
\<close>

theorem get_descriptor_refines_search:
  assumes "\<forall>x \<in> set dss. well_headed x \<and> (x ! 1 = 0x02 \<longrightarrow> 4 \<le> length x)" and "descriptors s = Some (desc_table dss)"
    and "ty = ucast (drop_bit 8 w)" and "index = (ucast w :: u8)" and "ty \<in> {0x01, 0x02, 0x03}" and "ty = 0x03 \<longrightarrow> index \<noteq> 0xEE"
  shows "usbd_get_descriptor w s = Some (case nth_of_type ty (unat index) dss of
      None \<Rightarrow> (False, s)
    | Some (p, y) \<Rightarrow> (True, set_data (Ptr Descr p) (sent_length y) s))"
  by (rule get_descriptor_result [OF assms])

lemma cmsis_search:
  "nth_of_type 0x01 0 cmsis_descs = Some (0, cmsis_descs ! 0)"
  "nth_of_type 0x02 0 cmsis_descs = Some (18, cmsis_descs ! 1)"
  "nth_of_type 0x03 0 cmsis_descs = Some (59, cmsis_descs ! 6)"
  "nth_of_type 0x03 1 cmsis_descs = Some (63, cmsis_descs ! 7)"
  "nth_of_type 0x03 2 cmsis_descs = Some (81, cmsis_descs ! 8)"
  "nth_of_type 0x03 3 cmsis_descs = Some (127, cmsis_descs ! 9)"
  "nth_of_type 0x03 4 cmsis_descs = None"
  by (simp_all add: cmsis_bytes string_descriptor_def utf16_def)

lemma cmsis_config_long: "\<forall>x \<in> set cmsis_descs. well_headed x \<and> (x ! 1 = 0x02 \<longrightarrow> 4 \<le> length x)"
  by (simp add: cmsis_bytes well_headed_def string_descriptor_def utf16_def)

theorem get_descriptor_refines_search_witness:
  "usbd_get_descriptor 0x0302 ((usbd_zero (\<lambda>_. \<lparr>ept_addr = 0, ep_cb = None\<rparr>) power_on ())
     \<lparr>descriptors := Some cmsis_hid_descriptor\<rparr>) = Some (True, set_data (Ptr Descr 81) 46
     ((usbd_zero (\<lambda>_. \<lparr>ept_addr = 0, ep_cb = None\<rparr>) power_on ())\<lparr>descriptors := Some cmsis_hid_descriptor\<rparr>))"
proof -
  let ?s = "(usbd_zero (\<lambda>_. \<lparr>ept_addr = 0, ep_cb = None\<rparr>) power_on ())\<lparr>descriptors := Some cmsis_hid_descriptor\<rparr>"
  have "descriptors ?s = Some (desc_table cmsis_descs)" by (simp add: cmsis_table)
  moreover have "sent_length (cmsis_descs ! 8) = 46" by (simp add: cmsis_bytes sent_length_def string_descriptor_def)
  ultimately show ?thesis
    using get_descriptor_refines_search [OF cmsis_config_long, of ?s "0x03" "0x0302" "2"] by (simp add: cmsis_search)
qed

subsection \<open>What SET_CONFIGURATION opens\<close>

definition ep_out_cfg :: usbd_endpoint_cfg where
  "ep_out_cfg = \<lparr>cfg_ep_addr = 0x02, cfg_ep_mps = 64, cfg_ep_type = 3\<rparr>"

definition ep_in_cfg :: usbd_endpoint_cfg where
  "ep_in_cfg = \<lparr>cfg_ep_addr = 0x81, cfg_ep_mps = 64, cfg_ep_type = 3\<rparr>"

lemma cmsis_rd:
  "rd cmsis_hid_descriptor 1 = Some 0x01" "rd cmsis_hid_descriptor 19 = Some 0x02" "rd cmsis_hid_descriptor 23 = Some 0x01"
  "rd cmsis_hid_descriptor 28 = Some 0x04" "rd cmsis_hid_descriptor 30 = Some 0x00" "rd cmsis_hid_descriptor 37 = Some 0x21"
  "rd cmsis_hid_descriptor 46 = Some 0x05" "rd cmsis_hid_descriptor 53 = Some 0x05" "rd cmsis_hid_descriptor 60 = Some 0x03"
  "rd cmsis_hid_descriptor 64 = Some 0x03" "rd cmsis_hid_descriptor 82 = Some 0x03" "rd cmsis_hid_descriptor 128 = Some 0x03"
  "ep_cfg_of_desc cmsis_hid_descriptor 45 = Some ep_out_cfg" "ep_cfg_of_desc cmsis_hid_descriptor 52 = Some ep_in_cfg"
  unfolding cmsis_table cmsis_bytes desc_table_def string_descriptor_def utf16_def
  by (simp_all add: rd_def ep_cfg_of_desc_def half_word_def ep_out_cfg_def ep_in_cfg_def)

lemma cmsis_walk:
  "walk_desc body cmsis_hid_descriptor 0 w = walk_list body cmsis_descs 0 w"
  unfolding cmsis_table by (rule walk_desc_table [OF cmsis_well_headed])

lemma cmsis_lengths: "map length cmsis_descs = [18, 9, 9, 9, 7, 7, 4, 18, 46, 18]"
  by (simp add: cmsis_bytes string_descriptor_def utf16_def)

lemma walk_list_lengths:
  "walk_list body (x # xs) p s =
     (case body p s of None \<Rightarrow> None | Some (Inl r) \<Rightarrow> Some (Inl r) | Some (Inr s') \<Rightarrow> walk_list body xs (p + length x) s')"
  by simp

lemma set_configuration_result:
  assumes "descriptors s = Some cmsis_hid_descriptor"
  shows "usbd_set_configuration c 0 s =
    (if c = 0 then Some (True, s)
     else if c = 1 then
       do { (rc, s) \<leftarrow> on_dc (usbd_ep_open ep_out_cfg) s;
            (rc, s) \<leftarrow> on_dc (usbd_ep_open ep_in_cfg) (s\<lparr>configured := True\<rparr>);
            Some (True, s\<lparr>configured := True\<rparr>) }
     else Some (False, s))"
proof -
  obtain x0 x1 x2 x3 x4 x5 x6 x7 x8 x9 where xs: "cmsis_descs = [x0, x1, x2, x3, x4, x5, x6, x7, x8, x9]"
    and l: "length x0 = 18" "length x1 = 9" "length x2 = 9" "length x3 = 9" "length x4 = 7" "length x5 = 7"
      "length x6 = 4" "length x7 = 18" "length x8 = 46" "length x9 = 18"
    using cmsis_lengths by (auto simp: Cons_eq_map_conv map_eq_Cons_conv)
  show ?thesis
    unfolding usbd_set_configuration_def assms option.case bind.bind_lunit cmsis_walk xs
    by (cases "c = 0"; cases "c = 1")
      (simp_all add: l set_config_body_def cmsis_rd [simplified] usbd_set_endpoint_def Let_def
        split: Option.bind_split option.split)
qed

text \<open>
  For the firmware's table SET_CONFIGURATION 1 opens exactly the OUT endpoint 2 and then the IN
  endpoint 1 with 64-byte interrupt packets, ignoring what the controller port returns, and marks the
  device configured; configuration 0 does nothing and succeeds; any other one changes nothing and fails.
\<close>

theorem set_configuration_opens:
  assumes "descriptors s = Some cmsis_hid_descriptor"
  shows "usbd_set_configuration c 0 s =
    (if c = 0 then Some (True, s)
     else if c = 1 then
       do { (rc, s) \<leftarrow> on_dc (usbd_ep_open ep_out_cfg) s;
            (rc, s) \<leftarrow> on_dc (usbd_ep_open ep_in_cfg) (s\<lparr>configured := True\<rparr>);
            Some (True, s\<lparr>configured := True\<rparr>) }
     else Some (False, s))"
  by (rule set_configuration_result [OF assms])

theorem set_configuration_opens_witness:
  "usbd_set_configuration 2 0 ((usbd_zero (\<lambda>_. \<lparr>ept_addr = 0, ep_cb = None\<rparr>) power_on ())
     \<lparr>descriptors := Some cmsis_hid_descriptor\<rparr>) = Some (False, (usbd_zero (\<lambda>_. \<lparr>ept_addr = 0, ep_cb = None\<rparr>) power_on ())
     \<lparr>descriptors := Some cmsis_hid_descriptor\<rparr>)"
  using set_configuration_opens [of "(usbd_zero (\<lambda>_. \<lparr>ept_addr = 0, ep_cb = None\<rparr>) power_on ())
     \<lparr>descriptors := Some cmsis_hid_descriptor\<rparr>" 2] by simp

subsection \<open>The state after main\<close>

text \<open>A forced reset of the peripheral does not change how many registers and memory words there are.\<close>

definition keeps_shape :: "(usb_regs \<Rightarrow> usb_regs) \<Rightarrow> bool" where
  "keeps_shape force \<longleftrightarrow> (\<forall>r. length (EPR (force r)) = length (EPR r) \<and> length (PMA (force r)) = length (PMA r))"

lemma init_port:
  assumes "keeps_shape force"
  shows "dc_shape (snd (usb_dc_init force power_on))" and "in_ep (snd (usb_dc_init force power_on)) = replicate 8 zero_ep"
    and "out_ep (snd (usb_dc_init force power_on)) = replicate 8 zero_ep" and "pma_offset (snd (usb_dc_init force power_on)) = 64"
  using assms by (simp_all add: usb_dc_init_def Let_def dc_shape_def regs_ok_def write_ISTR_def power_on_def reset_regs_def
      keeps_shape_def)

lemma main_state:
  "\<exists>s. main_c force (at_reset env stack) = Some (0, s, [\<lparr>th_name = ''dap_log'', th_stack_size = 1024, th_priority = 20, th_tick = 5\<rparr>]) \<and>
     port_dc s = snd (usb_dc_init force power_on) \<and> descriptors s = Some cmsis_hid_descriptor \<and>
     all_interfaces s = [0] \<and> interfaces s 0 = \<lparr>class_handler = Some hid_class_request, vendor_handler = None,
       custom_handler = Some hid_custom_request, notify_handler = Some hid_notify, intf_num = 0, ep_list = [0, 1]\<rparr> \<and>
     endpoints s = hid_endpoints env stack \<and> usbd_hid_class_head s = [0] \<and>
     hid_report_descriptor (usbd_hid_cfg s ! 0) = Some cmsis_hid_report_descriptor \<and>
     hid_report_descriptor_len (usbd_hid_cfg s ! 0) = 34 \<and> hid_descriptor (usbd_hid_cfg s ! 0) = None \<and>
     current_intf_num (usbd_hid_cfg s ! 0) = 0 \<and> length (usbd_hid_cfg s) = 4 \<and>
     in_ep_cb s = replicate 8 None \<and> out_ep_cb s = replicate 8 None \<and> \<not> configured s \<and>
     application s = dap_init dap_initial"
  by (simp add: main_c_def at_reset_def cmsis_dap_usb_init_def cmsis_dap_usb_desc_init_def usbd_desc_register_def
      usbd_hid_add_interface_def usbd_class_register_def usbd_class_add_interface_def usb_slist_add_tail_def
      usbd_zero_def Let_def rd_def upd_hid_def zero_hid_def zero_interface_def usbd_interface_add_endpoint_def
      cmsis_dap_hid_report_register_def usbd_hid_report_descriptor_register_def hid_of_intf_def
      usbd_initialize_def case_prod_beta all_interfaces_def nth_list_update)

lemma on_dc_open:
  assumes "dc_shape (port_dc s)" and "cfg_ok c" and "fits c (pma_offset (port_dc s)) (ep_of (port_dc s) (cfg_ep_addr c))"
    and "i = USB_EP_GET_IDX (cfg_ep_addr c)" and "e' = new_ep c (pma_offset (port_dc s)) (ep_of (port_dc s) (cfg_ep_addr c))"
  shows "\<exists>d. on_dc (usbd_ep_open c) s = Some (0, s\<lparr>port_dc := d\<rparr>) \<and> dc_shape d \<and>
    in_ep d = (if USB_EP_DIR_IS_OUT (cfg_ep_addr c) then in_ep (port_dc s) else (in_ep (port_dc s))[i := e']) \<and>
    out_ep d = (if USB_EP_DIR_IS_OUT (cfg_ep_addr c) then (out_ep (port_dc s))[i := e'] else out_ep (port_dc s)) \<and>
    pma_offset d = new_offset c (pma_offset (port_dc s)) (ep_of (port_dc s) (cfg_ep_addr c))"
  using usbd_ep_open_fields [OF assms] by (auto simp: on_dc_def)

lemma set_address_port: "dc_shape (snd (usbd_set_address 0 d)) = dc_shape d" "in_ep (snd (usbd_set_address a d)) = in_ep d"
  "out_ep (snd (usbd_set_address a d)) = out_ep d" "pma_offset (snd (usbd_set_address a d)) = pma_offset d"
  by (simp_all add: usbd_set_address_def Let_def dc_shape_def regs_ok_def)

definition ep64 :: "u8 \<Rightarrow> u16 \<Rightarrow> usb_dc_ep_state" where
  "ep64 ty a = \<lparr>ep_mps = 64, ep_type = ty, ep_stalled = 0, ep_pma_buf_len = 64, ep_pma_addr = a\<rparr>"

lemma new_ep_zero:
  "cfg_ep_mps c = 64 \<Longrightarrow> new_ep c off zero_ep = ep64 (cfg_ep_type c) (ucast off)"
  "cfg_ep_mps c = 64 \<Longrightarrow> new_offset c off zero_ep = off + 64"
  "cfg_ep_mps c = 64 \<Longrightarrow> off + 64 < 512 \<Longrightarrow> fits c off zero_ep"
  by (simp_all add: new_ep_def ep64_def zero_ep_def new_offset_def fits_def)

lemma reset_opens_ep0:
  assumes "dc_shape (port_dc s)" and "in_ep (port_dc s) = replicate 8 zero_ep" and "out_ep (port_dc s) = replicate 8 zero_ep"
    and "pma_offset (port_dc s) = 64"
  shows "\<exists>d1 d. on_dc (usbd_ep_open (ep0_cfg 0x80)) s = Some (0, s\<lparr>port_dc := d1\<rparr>) \<and>
    on_dc (usbd_ep_open (ep0_cfg 0x00)) (s\<lparr>port_dc := d1\<rparr>) = Some (0, s\<lparr>port_dc := d\<rparr>) \<and> dc_shape d \<and>
    in_ep d = (replicate 8 zero_ep)[0 := ep64 0 64] \<and> out_ep d = (replicate 8 zero_ep)[0 := ep64 0 128]"
proof -
  have c: "cfg_ok (ep0_cfg 0x80)" "cfg_ok (ep0_cfg 0x00)" by (simp_all add: cfg_ok_def ep0_cfg_def USB_EP_GET_IDX_def)
  have s: "cfg_ep_addr (ep0_cfg a) = a" "cfg_ep_mps (ep0_cfg a) = 64" "cfg_ep_type (ep0_cfg a) = 0" for a by (simp_all add: ep0_cfg_def)
  have e: "ep_of (port_dc s) 0x80 = zero_ep" using assms(2) by (simp add: ep_of_def USB_EP_GET_IDX_def USB_EP_DIR_IS_OUT_def)
  obtain d1 where d1: "on_dc (usbd_ep_open (ep0_cfg 0x80)) s = Some (0, s\<lparr>port_dc := d1\<rparr>)" "dc_shape d1"
    "in_ep d1 = (replicate 8 zero_ep)[0 := ep64 0 64]" "out_ep d1 = replicate 8 zero_ep" "pma_offset d1 = 128"
    using on_dc_open [OF assms(1) c(1) _ refl refl] new_ep_zero [of "ep0_cfg 0x80" 64] assms(2-4)
    by (auto simp: s e USB_EP_GET_IDX_def USB_EP_DIR_IS_OUT_def)
  have e2: "ep_of d1 0x00 = zero_ep" using d1(4) by (simp add: ep_of_def USB_EP_GET_IDX_def USB_EP_DIR_IS_OUT_def)
  obtain d where "on_dc (usbd_ep_open (ep0_cfg 0x00)) (s\<lparr>port_dc := d1\<rparr>) = Some (0, s\<lparr>port_dc := d\<rparr>)" "dc_shape d"
    "in_ep d = (replicate 8 zero_ep)[0 := ep64 0 64]" "out_ep d = (replicate 8 zero_ep)[0 := ep64 0 128]"
    using on_dc_open [of "s\<lparr>port_dc := d1\<rparr>", OF _ c(2) _ refl refl] new_ep_zero [of "ep0_cfg 0x00" 128] d1
    by (auto simp: s e2 USB_EP_GET_IDX_def USB_EP_DIR_IS_OUT_def)
  with d1(1) show ?thesis by blast
qed

end
