(* ===== verification/Startup.thy ===== *)
theory Startup imports Enumeration begin

text \<open>
  From \<open>main\<close> through the first bus reset to SET_CONFIGURATION 1: what the reset installs, and where the
  endpoint buffers end up in the packet memory.
\<close>

text \<open>The callbacks that the reset takes over from the registered endpoint objects.\<close>

lemma callback_register_result:
  assumes "all_interfaces s = [0]" and "ep_list (interfaces s 0) = [0, 1]" and "endpoints s = hid_endpoints env stack"
    and "length (in_ep_cb s) = 8" and "length (out_ep_cb s) = 8"
  shows "usbd_ep_callback_register s = Some (s\<lparr>in_ep_cb := (in_ep_cb s)[1 := Some usbd_hid_in_handler],
      out_ep_cb := (out_ep_cb s)[2 := Some (usbd_hid_out_handler env stack)]\<rparr>)"
  using assms by (simp add: usbd_ep_callback_register_def hid_endpoints_def wr_def)

lemma all_interfaces_port [simp]: "all_interfaces (s\<lparr>port_dc := d\<rparr>) = all_interfaces s"
  "all_interfaces (s\<lparr>configured := c\<rparr>) = all_interfaces s" "all_interfaces (s\<lparr>configuration := k\<rparr>) = all_interfaces s"
  by (simp_all add: all_interfaces_def)

lemma class_notify_fields:
  "usbd_class_event_notify_handler ev s = t \<Longrightarrow> configured t = configured s \<and> configuration t = configuration s \<and>
     application t = application s"
proof -
  have h: "configured (fold (\<lambda>k. upd_hid k f) ks s) = configured s \<and> configuration (fold (\<lambda>k. upd_hid k f) ks s) = configuration s \<and>
      application (fold (\<lambda>k. upd_hid k f) ks s) = application s" for f ks and s :: "'a usbd"
    by (induction ks arbitrary: s) (simp_all add: upd_hid_def)
  have n: "configured (hid_notify_handler ev s) = configured s \<and> configuration (hid_notify_handler ev s) = configuration s \<and>
      application (hid_notify_handler ev s) = application s" for s :: "'a usbd"
    by (simp add: hid_notify_handler_def usbd_hid_reset_def h)
  have "configured (fold (\<lambda>i s. case notify_handler (interfaces s i) of None \<Rightarrow> s | Some hid_notify \<Rightarrow> hid_notify_handler ev s) is s) = configured s \<and>
    configuration (fold (\<lambda>i s. case notify_handler (interfaces s i) of None \<Rightarrow> s | Some hid_notify \<Rightarrow> hid_notify_handler ev s) is s) = configuration s \<and>
    application (fold (\<lambda>i s. case notify_handler (interfaces s i) of None \<Rightarrow> s | Some hid_notify \<Rightarrow> hid_notify_handler ev s) is s) = application s" for "is"
    by (induction "is" arbitrary: s) (auto simp: n split: option.split notify_handler_fn.split)
  then show "usbd_class_event_notify_handler ev s = t \<Longrightarrow> configured t = configured s \<and> configuration t = configuration s \<and>
     application t = application s"
    by (auto simp: usbd_class_event_notify_handler_def)
qed

text \<open>The bus reset, from a state in which no endpoint has been opened.\<close>

lemma irq_reset_result:
  assumes "dc_shape (port_dc s)" and "in_ep (port_dc s) = replicate 8 zero_ep" and "out_ep (port_dc s) = replicate 8 zero_ep"
    and "pma_offset (port_dc s) = 64" and "all_interfaces s = [0]" and "ep_list (interfaces s 0) = [0, 1]"
    and "endpoints s = hid_endpoints env stack" and "length (in_ep_cb s) = 8" and "length (out_ep_cb s) = 8"
  shows "\<exists>t. irq_reset arb s = Some t \<and> dc_shape (port_dc t) \<and> pma_offset (port_dc t) = 64 \<and>
    in_ep (port_dc t) = (replicate 8 zero_ep)[0 := ep64 0 64] \<and> out_ep (port_dc t) = (replicate 8 zero_ep)[0 := ep64 0 128] \<and>
    in_ep_cb t = (in_ep_cb s)[1 := Some usbd_hid_in_handler] \<and>
    out_ep_cb t = (out_ep_cb s)[2 := Some (usbd_hid_out_handler env stack)] \<and>
    descriptors t = descriptors s \<and> \<not> configured t \<and> configuration t = 0 \<and> application t = application s"
proof -
  let ?s = "s\<lparr>port_dc := snd (usbd_set_address 0 (port_dc s)), configured := False, configuration := 0\<rparr>"
  have p: "dc_shape (port_dc ?s)" "in_ep (port_dc ?s) = replicate 8 zero_ep" "out_ep (port_dc ?s) = replicate 8 zero_ep"
    "pma_offset (port_dc ?s) = 64"
    using assms(1-4) set_address_port by simp_all
  from reset_opens_ep0 [OF p] obtain d1 d where d: "on_dc (usbd_ep_open (ep0_cfg 0x80)) ?s = Some (0, ?s\<lparr>port_dc := d1\<rparr>)"
    "on_dc (usbd_ep_open (ep0_cfg 0x00)) (?s\<lparr>port_dc := d1\<rparr>) = Some (0, ?s\<lparr>port_dc := d\<rparr>)" "dc_shape d"
    "in_ep d = (replicate 8 zero_ep)[0 := ep64 0 64]" "out_ep d = (replicate 8 zero_ep)[0 := ep64 0 128]" by blast
  let ?t = "?s\<lparr>port_dc := d, in_ep_cb := (in_ep_cb s)[1 := Some usbd_hid_in_handler],
      out_ep_cb := (out_ep_cb s)[2 := Some (usbd_hid_out_handler env stack)]\<rparr>"
  have cb: "usbd_ep_callback_register (?s\<lparr>port_dc := d\<rparr>) = Some ?t"
    using callback_register_result [of "?s\<lparr>port_dc := d\<rparr>" env stack] assms(5-9) by simp
  let ?u = "usbd_class_event_notify_handler USBD_EVENT_RESET ?t"
  have u: "kept ?t ?u" "port_dc ?u = d" using class_notify_kept [of ?t USBD_EVENT_RESET] by simp_all
  have c: "configured ?u = configured ?t \<and> configuration ?u = configuration ?t \<and> application ?u = application ?t"
    by (rule class_notify_fields [OF refl])
  have "usbd_event_notify_handler USBD_EVENT_RESET 0 s = Some ?u"
    using d(1,2) cb by (simp add: usbd_event_notify_handler_def)
  then have "irq_reset arb s = Some (clear_ISTR arb 0x0400 (?u\<lparr>port_dc := (port_dc ?u)\<lparr>pma_offset := 64\<rparr>\<rparr>))"
    by (simp add: irq_reset_def)
  moreover have "dc_shape (d\<lparr>pma_offset := 64, USB := write_ISTR v (USB d)\<rparr>)" for v
    using d(3) by (simp add: dc_shape_def regs_ok_def write_ISTR_def)
  ultimately show ?thesis using d(4,5) u c
    by (simp add: clear_ISTR_def Let_def kept_def)
qed

lemma configure_opens:
  assumes "dc_shape (port_dc s)" and "pma_offset (port_dc s) = 64" and "in_ep (port_dc s) ! 1 = zero_ep"
    and "out_ep (port_dc s) ! 2 = zero_ep" and "descriptors s = Some cmsis_hid_descriptor"
  shows "\<exists>t. usbd_set_configuration 1 0 s = Some (True, t) \<and> dc_shape (port_dc t) \<and>
    in_ep (port_dc t) = (in_ep (port_dc s))[1 := ep64 3 128] \<and> out_ep (port_dc t) = (out_ep (port_dc s))[2 := ep64 3 64] \<and>
    configured t \<and> in_ep_cb t = in_ep_cb s \<and> out_ep_cb t = out_ep_cb s"
proof -
  have c: "cfg_ok ep_out_cfg" "cfg_ok ep_in_cfg" by (simp_all add: cfg_ok_def ep_out_cfg_def ep_in_cfg_def USB_EP_GET_IDX_def)
  have a: "cfg_ep_addr ep_out_cfg = 0x02" "cfg_ep_addr ep_in_cfg = 0x81" "cfg_ep_mps ep_out_cfg = 64" "cfg_ep_mps ep_in_cfg = 64"
    "cfg_ep_type ep_out_cfg = 3" "cfg_ep_type ep_in_cfg = 3" "USB_EP_GET_IDX 0x02 = 2" "USB_EP_GET_IDX 0x81 = 1"
    "USB_EP_DIR_IS_OUT 0x02" "\<not> USB_EP_DIR_IS_OUT 0x81"
    by (simp_all add: ep_out_cfg_def ep_in_cfg_def USB_EP_GET_IDX_def USB_EP_DIR_IS_OUT_def)
  have e: "ep_of (port_dc s) 0x02 = zero_ep" using assms(4) by (simp add: ep_of_def a)
  obtain d1 where d1: "on_dc (usbd_ep_open ep_out_cfg) s = Some (0, s\<lparr>port_dc := d1\<rparr>)" "dc_shape d1"
    "in_ep d1 = in_ep (port_dc s)" "out_ep d1 = (out_ep (port_dc s))[2 := ep64 3 64]" "pma_offset d1 = 128"
    using on_dc_open [OF assms(1) c(1) _ refl refl] new_ep_zero [of ep_out_cfg 64] assms(2) by (auto simp: a e)
  let ?s = "s\<lparr>port_dc := d1, configured := True\<rparr>"
  have e2: "ep_of d1 0x81 = zero_ep" using assms(3) d1(3) by (simp add: ep_of_def a)
  obtain d where d: "on_dc (usbd_ep_open ep_in_cfg) ?s = Some (0, ?s\<lparr>port_dc := d\<rparr>)" "dc_shape d"
    "in_ep d = (in_ep (port_dc s))[1 := ep64 3 128]" "out_ep d = (out_ep (port_dc s))[2 := ep64 3 64]"
    using on_dc_open [of ?s, OF _ c(2) _ refl refl] new_ep_zero [of ep_in_cfg 128] d1 by (auto simp: a e2)
  have "usbd_set_configuration 1 0 s = Some (True, ?s\<lparr>port_dc := d, configured := True\<rparr>)"
    unfolding set_configuration_result [OF assms(5)] using d1(1) d(1) by simp
  with d(2-4) show ?thesis by simp
qed

subsection \<open>Properties\<close>



text \<open>
  the order of events in the interrupt handler's reset branch makes endpoint buffers overlap. The
  branch opens endpoint 0 first (at 64 and 128) and then puts the allocation offset back to 64; the
  SET_CONFIGURATION that follows therefore opens OUT endpoint 2 at 64 and IN endpoint 1 at 128, on the
  very bytes of endpoint 0's IN and OUT buffers.
\<close>

theorem reset_makes_buffers_overlap:
  assumes "keeps_shape force"
  shows "\<exists>s t u ths. main_c force (at_reset env stack) = Some (0, s, ths) \<and> irq_reset arb s = Some t \<and>
    usbd_set_configuration 1 0 t = Some (True, u) \<and>
    in_ep (port_dc u) ! 0 = ep64 0 64 \<and> out_ep (port_dc u) ! 2 = ep64 3 64 \<and>
    out_ep (port_dc u) ! 0 = ep64 0 128 \<and> in_ep (port_dc u) ! 1 = ep64 3 128 \<and>
    \<not> apart (in_ep (port_dc u) ! 0) (out_ep (port_dc u) ! 2) \<and>
    \<not> apart (out_ep (port_dc u) ! 0) (in_ep (port_dc u) ! 1)"
proof -
  from main_state [of force env stack] obtain s where s: "main_c force (at_reset env stack) =
      Some (0, s, [\<lparr>th_name = ''dap_log'', th_stack_size = 1024, th_priority = 20, th_tick = 5\<rparr>])"
    "port_dc s = snd (usb_dc_init force power_on)" "descriptors s = Some cmsis_hid_descriptor" "all_interfaces s = [0]"
    "ep_list (interfaces s 0) = [0, 1]" "endpoints s = hid_endpoints env stack" "in_ep_cb s = replicate 8 None"
    "out_ep_cb s = replicate 8 None" by auto
  from irq_reset_result [of s env stack arb] s init_port [OF assms] obtain t where t: "irq_reset arb s = Some t"
    "dc_shape (port_dc t)" "pma_offset (port_dc t) = 64" "in_ep (port_dc t) = (replicate 8 zero_ep)[0 := ep64 0 64]"
    "out_ep (port_dc t) = (replicate 8 zero_ep)[0 := ep64 0 128]" "descriptors t = Some cmsis_hid_descriptor" by fastforce
  from configure_opens [OF t(2,3) _ _ t(6)] t(4,5) obtain u where u: "usbd_set_configuration 1 0 t = Some (True, u)"
    "in_ep (port_dc u) = (in_ep (port_dc t))[1 := ep64 3 128]" "out_ep (port_dc u) = (out_ep (port_dc t))[2 := ep64 3 64]" by auto
  have "\<not> apart (ep64 ty a) (ep64 ty' a)" for ty ty' a by (simp add: apart_def ep64_def)
  with s(1) t(1,4,5) u show ?thesis by simp
qed

theorem reset_makes_buffers_overlap_witness:
  "\<exists>s t u ths. main_c id (at_reset (\<lambda>_. 0) (replicate 64 0)) = Some (0, s, ths) \<and> irq_reset lowest_first s = Some t \<and>
     usbd_set_configuration 1 0 t = Some (True, u) \<and> \<not> apart (in_ep (port_dc u) ! 0) (out_ep (port_dc u) ! 2)"
  using reset_makes_buffers_overlap [of id "\<lambda>_. 0" "replicate 64 0" lowest_first] by (auto simp: keeps_shape_def)

end
