(* ===== verification/Control.thy ===== *)
theory Control imports Startup begin

text \<open>
  Control transfers on endpoint 0: the packets in which an answer is sent, the effect of a second OUT
  data packet, the setup packet on the wire, the address change, and requests that fault.
\<close>

subsection \<open>The data stage of an IN transfer\<close>

text \<open>Specification: full 64-byte packets and a last one, which may be full or, for no data, empty.\<close>

function packets :: "u8 list \<Rightarrow> u8 list list" where
  "packets ds = (if length ds \<le> 64 then [ds] else take 64 ds # packets (drop 64 ds))"
  by pat_completeness auto
termination by (relation "measure length") auto

declare packets.simps [simp del]

text \<open>Each IN token of the host completes a packet; then the handler is run and the next packet is there.\<close>

fun host_reads :: "nat \<Rightarrow> 'a usbd \<Rightarrow> (u8 list list \<times> 'a usbd) option" where
  "host_reads 0 s = Some ([], s)"
| "host_reads (Suc n) s =
     do { s \<leftarrow> usbd_ep0_in_handler s;
          (ps, t) \<leftarrow> host_reads n s;
          Some (tx_packet (port_dc s) 0 # ps, t) }"

text \<open>An answer of \<open>r\<close> bytes from offset \<open>k\<close> of the object \<open>x\<close> is waiting; \<open>l\<close> bytes were offered.\<close>

definition in_stage :: "'a usbd \<Rightarrow> obj \<Rightarrow> u8 list \<Rightarrow> nat \<Rightarrow> nat \<Rightarrow> u32 \<Rightarrow> u16 \<Rightarrow> bool" where
  "in_stage s x bs k r l len \<longleftrightarrow> dc_inv (port_dc s) \<and> ep_mps (in_ep (port_dc s) ! 0) = 64 \<and>
     obj_bytes s x = Some bs \<and> ep0_data_buf s = Ptr x k \<and> unat (ep0_data_buf_residue s) = r \<and>
     k + r \<le> length bs \<and> ep0_data_buf_len s = l \<and> wLength (setup_pkt s) = len \<and> \<not> zlp_flag s"

lemma obj_bytes_frame [simp]:
  "obj_bytes (s\<lparr>port_dc := d\<rparr>) x = obj_bytes s x" "obj_bytes (s\<lparr>ep0_data_buf := q\<rparr>) x = obj_bytes s x"
  "obj_bytes (s\<lparr>ep0_data_buf_residue := n\<rparr>) x = obj_bytes s x" "obj_bytes (s\<lparr>zlp_flag := z\<rparr>) x = obj_bytes s x"
  by (cases x; simp)+

definition sent :: "u8 list \<Rightarrow> 'a usbd \<Rightarrow> 'a usbd \<Rightarrow> bool" where
  "sent pkt s t \<longleftrightarrow> tx_packet (port_dc t) 0 = pkt \<and> EPR (USB (port_dc t)) ! 0 AND 0x0030 = 0x0030 \<and>
     dc_inv (port_dc t) \<and> in_ep (port_dc t) = in_ep (port_dc s)"

lemma sends_sent: "sends 0 pkt (port_dc s) d \<Longrightarrow> dc_inv (port_dc s) \<Longrightarrow> port_dc t = d \<Longrightarrow> sent pkt s t"
  using sends_inv [of 0 pkt "port_dc s" d] sends_overread [of 0 pkt "port_dc s" d]
  by (auto simp: sent_def sends_def and_status dc_inv_def regs_ok_def)

lemma send_chunk:
  assumes i: "in_stage s x bs k r l len" and m: "m = min r 64"
  shows "\<exists>t. usbd_send_to_host len s = Some t \<and> sent (take m (drop k bs)) s t \<and>
    obj_bytes t x = Some bs \<and> ep0_data_buf t = Ptr x (k + m) \<and> unat (ep0_data_buf_residue t) = r - m \<and>
    ep0_data_buf_len t = l \<and> setup_pkt t = setup_pkt s \<and> (zlp_flag t \<longleftrightarrow> r = m \<and> l < ucast len \<and> l mod 64 = 0)"
proof -
  have s: "dc_inv (port_dc s)" "ep_mps (in_ep (port_dc s) ! 0) = 64" "obj_bytes s x = Some bs"
    "ep0_data_buf s = Ptr x k" "unat (ep0_data_buf_residue s) = r" "k + r \<le> length bs" "ep0_data_buf_len s = l" "\<not> zlp_flag s"
    using i by (simp_all add: in_stage_def)
  have ix: "USB_EP_GET_IDX 0x80 = 0" by (simp add: USB_EP_GET_IDX_def)
  let ?n = "ep0_data_buf_residue s"
  obtain ret d where w: "usbd_ep_write 0x80 (Some (drop k bs)) ?n (port_dc s) = Some (0, ret, d)"
    "sends 0 (take m (drop k bs)) (port_dc s) d" "(case ret of None \<Rightarrow> ?n | Some c \<Rightarrow> c) = of_nat m"
  proof (cases "?n = 0")
    case True
    then have "m = 0" using s(5) m by simp
    with ep_write_empty [OF s(1) _ ix, of "Some (drop k bs)"] True that show ?thesis by auto
  next
    case False
    have "m = min (unat ?n) (unat (ep_mps (in_ep (port_dc s) ! 0)))" using m s(2,5) by simp
    moreover have "m \<le> length (drop k bs)" using s(6) m by simp
    ultimately show ?thesis using ep_write_packet [OF s(1) _ ix False] s(2) that by fastforce
  qed
  have sub: "?n - of_nat m = of_nat (r - m)" "unat (of_nat (r - m) :: u32) = r - m"
    "(of_nat (r - m) :: u32) = 0 \<longleftrightarrow> r = m" "unat (of_nat m :: u32) = m"
  proof -
    have b: "r < 2 ^ 32" using s(5) unsigned_less [of ?n, where 'a = nat] by simp
    show "unat (of_nat (r - m) :: u32) = r - m" "unat (of_nat m :: u32) = m"
      unfolding unat_of_nat by (rule mod_less; use b m in simp)+
    have "?n = of_nat r" unfolding s(5) [symmetric] by simp
    then show "?n - of_nat m = of_nat (r - m)" using m by simp
    show "(of_nat (r - m) :: u32) = 0 \<longleftrightarrow> r = m"
      using \<open>unat (of_nat (r - m) :: u32) = r - m\<close> m by (metis diff_is_0_eq min.cobounded1 nle_le unat_eq_zero)
  qed
  have w3: "(case ret of None \<Rightarrow> ep0_data_buf_residue (s\<lparr>port_dc := d\<rparr>) | Some c \<Rightarrow> c) = of_nat m"
    using w(3) by (cases ret) simp_all
  have eqm: "?n = of_nat m \<longleftrightarrow> r = m" using sub(4) by (simp add: word_unat_eq_iff s(5))
  let ?t = "s\<lparr>port_dc := d, ep0_data_buf := Ptr x (k + m), ep0_data_buf_residue := of_nat (r - m)\<rparr>"
  let ?u = "if r = m \<and> l < ucast len \<and> l mod 64 = 0 then ?t\<lparr>zlp_flag := True\<rparr> else ?t"
  have "usbd_send_to_host len s = Some ?u"
    unfolding usbd_send_to_host_def unfolding Let_def using s(3,4,7,8) w(1) sub eqm by (simp add: w3)
  moreover have "sent (take m (drop k bs)) s ?u" using sends_sent [OF w(2) s(1), of ?u] by simp
  ultimately show ?thesis using s sub by (intro exI [of _ ?u]) auto
qed

lemma send_zlp:
  assumes "zlp_flag s" and "dc_inv (port_dc s)"
  shows "\<exists>t. usbd_send_to_host len s = Some t \<and> sent [] s t \<and> \<not> zlp_flag t \<and> ep0_data_buf_residue t = ep0_data_buf_residue s"
proof -
  have ix: "USB_EP_GET_IDX 0x80 = 0" by (simp add: USB_EP_GET_IDX_def)
  obtain d where d: "usbd_ep_write 0x80 None 0 (port_dc s) = Some (0, None, d)" "sends 0 [] (port_dc s) d"
    using ep_write_empty [OF assms(2) _ ix, of None] by auto
  have "usbd_send_to_host len s = Some (s\<lparr>zlp_flag := False, port_dc := d\<rparr>)"
    using assms(1) d(1) by (simp add: usbd_send_to_host_def Let_def)
  moreover have "sent [] s (s\<lparr>zlp_flag := False, port_dc := d\<rparr>)" using sends_sent [OF d(2) assms(2)] by simp
  ultimately show ?thesis by auto
qed

definition zlp_packet :: "u32 \<Rightarrow> u16 \<Rightarrow> u8 list list" where
  "zlp_packet l len = (if l < ucast len \<and> l mod 64 = 0 then [[]] else [])"

lemma in_transfer:
  assumes "in_stage s x bs k r l len"
  shows "\<exists>t n ps u. usbd_send_to_host len s = Some t \<and> host_reads n t = Some (ps, u) \<and>
    tx_packet (port_dc t) 0 # ps = packets (take r (drop k bs)) @ zlp_packet l len \<and>
    ep0_data_buf_residue u = 0 \<and> \<not> zlp_flag u"
  using assms
proof (induction r arbitrary: s k rule: less_induct)
  case (less r)
  note i = less.prems
  let ?D = "take r (drop k bs)"
  have kr: "k + r \<le> length bs" using i by (simp add: in_stage_def)
  then have len: "length ?D = r" by simp
  from send_chunk [OF i refl] obtain t where t: "usbd_send_to_host len s = Some t" "sent (take (min r 64) (drop k bs)) s t"
    "obj_bytes t x = Some bs" "ep0_data_buf t = Ptr x (k + min r 64)" "unat (ep0_data_buf_residue t) = r - min r 64"
    "ep0_data_buf_len t = l" "setup_pkt t = setup_pkt s" "zlp_flag t \<longleftrightarrow> r = min r 64 \<and> l < ucast len \<and> l mod 64 = 0"
    by (elim exE conjE)
  have wl: "wLength (setup_pkt t) = len" using i t(7) by (simp add: in_stage_def)
  show ?case
  proof (cases "r \<le> 64")
    case True
    have tx: "tx_packet (port_dc t) 0 = ?D" using t(2) True by (simp add: sent_def min_def)
    have pk: "packets ?D = [?D]" using True len by (simp add: packets.simps)
    have res: "ep0_data_buf_residue t = 0" using t(5) True by (simp add: unat_eq_zero)
    show ?thesis
    proof (cases "zlp_flag t")
      case False
      then have "zlp_packet l len = []" using t(8) True by (auto simp: zlp_packet_def)
      with False t(1) tx pk res show ?thesis by (intro exI [of _ t] exI [of _ 0]) simp
    next
      case z: True
      then have zp: "zlp_packet l len = [[]]" using t(8) by (auto simp: zlp_packet_def)
      obtain u where u: "usbd_send_to_host len t = Some u" "sent [] t u" "\<not> zlp_flag u" "ep0_data_buf_residue u = 0"
        using send_zlp [OF z, of len] t(2) res by (auto simp: sent_def)
      have "host_reads 1 t = Some ([[]], u)" using u z wl by (simp add: usbd_ep0_in_handler_def sent_def)
      with t(1) tx pk zp u(3,4) show ?thesis
        by (intro exI [of _ t] exI [of _ "1 :: nat"] exI [of _ "[[]]"] exI [of _ u]) simp
    qed
  next
    case False
    have m64: "min r 64 = 64" using False by simp
    have "dc_inv (port_dc t)" "in_ep (port_dc t) = in_ep (port_dc s)" using t(2) by (simp_all add: sent_def)
    moreover have "\<not> zlp_flag t" using t(8) m64 False by simp
    ultimately have "in_stage t x bs (k + 64) (r - 64) l len"
      using i t(3-6) wl kr False unfolding in_stage_def m64 by simp
    from less.IH [OF _ this] False have "\<exists>t' n ps u. usbd_send_to_host len t = Some t' \<and> host_reads n t' = Some (ps, u) \<and>
      tx_packet (port_dc t') 0 # ps = packets (take (r - 64) (drop (k + 64) bs)) @ zlp_packet l len \<and>
      ep0_data_buf_residue u = 0 \<and> \<not> zlp_flag u" by simp
    then obtain t' n ps u where h: "usbd_send_to_host len t = Some t'" "host_reads n t' = Some (ps, u)"
      "tx_packet (port_dc t') 0 # ps = packets (take (r - 64) (drop (k + 64) bs)) @ zlp_packet l len"
      "ep0_data_buf_residue u = 0" "\<not> zlp_flag u" by (elim exE conjE)
    have "ep0_data_buf_residue t \<noteq> 0" using t(5) False by auto
    then have "host_reads (Suc n) t = Some (tx_packet (port_dc t') 0 # ps, u)"
      using h(1,2) wl by (simp add: usbd_ep0_in_handler_def)
    moreover have "packets ?D = take 64 ?D # packets (drop 64 ?D)" using False len by (subst packets.simps) simp
    moreover have "drop 64 ?D = take (r - 64) (drop (k + 64) bs)" by (simp add: drop_take add.commute)
    moreover have "tx_packet (port_dc t) 0 = take 64 ?D" using t(2) False by (simp add: sent_def min_def)
    ultimately show ?thesis using t(1) h(3-5) by (intro exI [of _ t] exI [of _ "Suc n"]) simp
  qed
qed

subsection \<open>The setup stage\<close>

text \<open>The state in which the request handler is called.\<close>

definition at_request :: "usb_setup_packet \<Rightarrow> 'a usbd \<Rightarrow> 'a usbd" where
  "at_request p s = s\<lparr>setup_pkt := p, ep0_data_buf_residue := ucast (wLength p), ep0_data_buf_len := ucast (wLength p),
     zlp_flag := False\<rparr>"

definition setup_arrived :: "usb_setup_packet \<Rightarrow> 'a usbd \<Rightarrow> bool" where
  "setup_arrived p s \<longleftrightarrow> dc_inv (port_dc s) \<and> rx_count (port_dc s) 0 = 8 \<and> 8 \<le> unat (ep_mps (out_ep (port_dc s) ! 0)) \<and>
     rx_packet (port_dc s) 0 8 = setup_bytes p \<and> ep_mps (in_ep (port_dc s) ! 0) = 64"

lemma setup_stage:
  assumes "setup_arrived p s" and "wLength p = 0 \<or> bmRequestType p AND 0x80 \<noteq> 0"
  shows "usbd_ep0_setup_handler s =
    do { (ok, s) \<leftarrow> usbd_setup_request_handler (at_request p s);
         if \<not> ok then stall_ep0 s
         else usbd_send_to_host (wLength p)
           (s\<lparr>ep0_data_buf_residue := min (ep0_data_buf_len s) (ucast (wLength p))\<rparr>) }"
proof -
  have ix: "USB_EP_GET_IDX 0x00 = 0" by (simp add: USB_EP_GET_IDX_def)
  have "usbd_ep_read 0x00 (Some (setup_bytes (setup_pkt s))) 8 (port_dc s) = Some (0, Some (setup_bytes p), Some 8, port_dc s)"
  proof -
    have a: "dc_inv (port_dc s)" "rx_count (port_dc s) 0 = 8" "8 \<le> unat (ep_mps (out_ep (port_dc s) ! 0))"
      "rx_packet (port_dc s) 0 8 = setup_bytes p"
      using assms(1) by (simp_all only: setup_arrived_def)
    have o: "overwritten 0 (setup_bytes q) (setup_bytes p) = setup_bytes p" for q
      by (simp add: overwritten_def)
    have n: "(8 :: nat) = min 8 (unat (8 :: u32))" "(0 :: nat) < 8" "(8 :: u32) \<noteq> 0" by simp_all
    show ?thesis
      using ep_read_packet [OF a(1) n(2) ix n(3), unfolded a(2), OF n(1) _ a(3), of "setup_bytes (setup_pkt s)"]
      unfolding a(4) o by simp
  qed
  note r = this
  have c: "\<not> (wLength p > 256 \<and> bmRequestType p AND 0x80 = 0x00)" "\<not> (wLength p \<noteq> 0 \<and> bmRequestType p AND 0x80 = 0x00)"
    using assms(2) by auto
  have z: "\<not> (0 :: int) < 0" by simp
  have s: "s\<lparr>port_dc := port_dc s\<rparr> = s" "setup_pkt (s\<lparr>setup_pkt := p\<rparr>) = p" by simp_all
  show ?thesis
    unfolding usbd_ep0_setup_handler_def r Let_def bind.bind_lunit prod.case option.case setup_roundtrip s if_not_P [OF c(1)]
      if_not_P [OF z] usb_setup_packet.simps usbd.simps at_request_def by (simp add: c)
qed

lemma port_at_request [simp]: "port_dc (at_request p s) = port_dc s" "setup_pkt (at_request p s) = p"
  "descriptors (at_request p s) = descriptors s" "zlp_flag (at_request p s) = False"
  "ep0_data_buf (at_request p s) = ep0_data_buf s"
  by (simp_all add: at_request_def)

lemma unat_min_word: "unat (min a b) = min (unat a) (unat b)" for a b :: u32
  by (auto simp: min_def word_le_nat_alt)

lemma in_answer:
  assumes "setup_arrived p s" and "wLength p = 0 \<or> bmRequestType p AND 0x80 \<noteq> 0"
    and "usbd_setup_request_handler (at_request p s) = Some (True, set_data (Ptr x k) l (at_request p s))"
    and "obj_bytes s x = Some bs" and "k + unat l \<le> length bs"
  shows "\<exists>t n ps u. usbd_ep0_setup_handler s = Some t \<and> host_reads n t = Some (ps, u) \<and>
    tx_packet (port_dc t) 0 # ps = packets (take (min (unat l) (unat (wLength p))) (drop k bs)) @ zlp_packet l (wLength p) \<and>
    ep0_data_buf_residue u = 0 \<and> \<not> zlp_flag u"
proof -
  let ?s = "(set_data (Ptr x k) l (at_request p s))\<lparr>ep0_data_buf_residue := min l (ucast (wLength p))\<rparr>"
  have f: "setup_pkt (set_data (Ptr x k) l (at_request p s)) = p" "ep0_data_buf_len (set_data (Ptr x k) l (at_request p s)) = l"
    by (simp_all add: set_data_def)
  have e: "usbd_ep0_setup_handler s = usbd_send_to_host (wLength p) ?s"
    using setup_stage [OF assms(1,2)] assms(3) by (simp add: f)
  have o: "obj_bytes ?s x = Some bs" using assms(4) by (cases x) (simp_all add: set_data_def at_request_def)
  have "in_stage ?s x bs k (min (unat l) (unat (wLength p))) l (wLength p)"
    using assms(1,5) o by (auto simp: in_stage_def set_data_def setup_arrived_def unat_min_word unat_ucast_16_32)
  from in_transfer [OF this] show ?thesis by (simp add: e)
qed

text \<open>A standard request to the device passes the custom handler, which wants the interface as recipient.\<close>

lemma device_request:
  assumes "bmRequestType p AND 0x63 = 0"
  shows "usbd_setup_request_handler (at_request p s) =
    do { (ok, t) \<leftarrow> usbd_std_device_req_handler (at_request p s); Some (ok, t) }"
proof -
  have "bmRequestType p AND 0x03 = (bmRequestType p AND 0x63) AND 0x03" "bmRequestType p AND 0x60 = (bmRequestType p AND 0x63) AND 0x60"
    by (simp_all add: and.assoc)
  then have "bmRequestType p AND 0x03 = 0" "bmRequestType p AND 0x60 = 0" using assms by simp_all
  then show ?thesis
    by (cases "usbd_std_device_req_handler (at_request p s)")
      (auto simp: usbd_setup_request_handler_def usbd_custom_request_handler_def usbd_standard_request_handler_def)
qed



subsection \<open>A concrete setup packet\<close>

definition asked :: "u16 \<Rightarrow> u16 \<Rightarrow> u16 \<Rightarrow> u16 \<Rightarrow> usb_dc" where
  "asked a b c e = initialised\<lparr>in_ep := (replicate 8 zero_ep)[0 := ep64 0 64], out_ep := (replicate 8 zero_ep)[0 := ep64 0 128],
     USB := (USB initialised)\<lparr>PMA := (replicate 256 0)[3 := 8, 64 := a, 65 := b, 66 := c, 67 := e]\<rparr>\<rparr>"

definition asked_stack :: "u16 \<Rightarrow> u16 \<Rightarrow> u16 \<Rightarrow> u16 \<Rightarrow> unit usbd" where
  "asked_stack a b c e = (usbd_zero (\<lambda>_. \<lparr>ept_addr = 0, ep_cb = None\<rparr>) (asked a b c e) ())\<lparr>descriptors := Some cmsis_hid_descriptor\<rparr>"

lemma ucast_and_mask_8: "ucast (x AND 255) = (ucast x :: u8)" for x :: u16
proof -
  have m: "(255 :: u16) = mask 8" by (simp add: mask_eq_exp_minus_1)
  show ?thesis unfolding m by (rule bit_word_eqI) (auto simp: bit_simps)
qed

lemma asked_port: "dc_inv (asked a b c e)" "rx_count (asked a b c e) 0 = 8" "out_ep (asked a b c e) ! 0 = ep64 0 128"
  "rx_packet (asked a b c e) 0 8 = [ucast a, ucast (drop_bit 8 a), ucast b, ucast (drop_bit 8 b), ucast c,
     ucast (drop_bit 8 c), ucast e, ucast (drop_bit 8 e)]"
proof -
  have ok: "ep_ok zero_ep" "ep_ok (ep64 0 64)" "ep_ok (ep64 0 128)"
    by (simp_all add: ep_ok_def zero_ep_def ep64_def)
  have "\<forall>x \<in> set ((replicate 8 zero_ep)[0 := ep64 0 64]) \<union> set ((replicate 8 zero_ep)[0 := ep64 0 128]). ep_ok x"
    using ok by (auto dest!: set_update_subset_insert [THEN subsetD])
  then show "dc_inv (asked a b c e)" by (simp add: dc_inv_def asked_def regs_ok_def initialised_simps)
  have "ucast (x AND 255) = (ucast x :: u8)" for x :: u16
    using ucast_and_mask_8 [of x] .
  then show "rx_packet (asked a b c e) 0 8 = [ucast a, ucast (drop_bit 8 a), ucast b, ucast (drop_bit 8 b), ucast c,
     ucast (drop_bit 8 c), ucast e, ucast (drop_bit 8 e)]"
    by (simp add: rx_packet_def pma_bytes_def pma_byte_def Let_def asked_def ep64_def upt_rec)
  show "rx_count (asked a b c e) 0 = 8" "out_ep (asked a b c e) ! 0 = ep64 0 128" by (simp_all add: rx_count_def asked_def)
qed

lemma asked_stack_simps [simp]: "port_dc (asked_stack a b c e) = asked a b c e"
  "descriptors (asked_stack a b c e) = Some cmsis_hid_descriptor" "req_data (asked_stack a b c e) = replicate 256 0"
  "ep0_data_buf (asked_stack a b c e) = Null"
  by (simp_all add: asked_stack_def usbd_zero_def)

lemma setup_arrived_asked:
  assumes "setup_bytes p = [ucast a, ucast (drop_bit 8 a), ucast b, ucast (drop_bit 8 b), ucast c, ucast (drop_bit 8 c),
     ucast e, ucast (drop_bit 8 e)]"
  shows "setup_arrived p (asked_stack a b c e)"
  using asked_port [of a b c e] assms by (simp add: setup_arrived_def ep64_def) (simp add: asked_def ep64_def)

subsection \<open>Control OUT data\<close>

text \<open>One OUT data packet that is not the last.\<close>

lemma out_packet:
  assumes "dc_inv (port_dc s)" and "n = rx_count (port_dc s) 0" and "n \<le> unat (ep_mps (out_ep (port_dc s) ! 0))"
    and "n < unat (ep0_data_buf_residue s)" and "n \<le> length (req_data s)"
  shows "usbd_ep0_out_handler s = Some (s\<lparr>req_data := rx_packet (port_dc s) 0 n @ drop n (req_data s),
    ep0_data_buf := Ptr ReqData n, ep0_data_buf_residue := ep0_data_buf_residue s - of_nat n\<rparr>)"
proof -
  have ix: "USB_EP_GET_IDX 0x00 = 0" by (simp add: USB_EP_GET_IDX_def)
  let ?r = "ep0_data_buf_residue s"
  have nz: "?r \<noteq> 0" using assms(4) by auto
  have m: "n = min (rx_count (port_dc s) 0) (unat ?r)" using assms(2,4) by simp
  have read: "usbd_ep_read 0x00 (Some (req_data s)) ?r (port_dc s) =
      Some (0, Some (rx_packet (port_dc s) 0 n @ drop n (req_data s)), Some (of_nat n), port_dc s)"
    using ep_read_packet [OF assms(1) _ ix nz m assms(5,3)] by (simp add: overwritten_def rx_packet_def)
  have un: "unat (of_nat n :: u32) = n" using assms(4) unsigned_less [of ?r, where 'a = nat] by (simp add: unat_of_nat)
  have left: "?r - of_nat n \<noteq> 0" using un assms(4) by auto
  show ?thesis using nz left un by (simp add: usbd_ep0_out_handler_def read Let_def)
qed

subsection \<open>Requests that fault\<close>

lemma hid_get_descriptor_faults:
  assumes "bmRequestType (setup_pkt s) AND 0x80 = 0x80" and "bRequest (setup_pkt s) = 0x06"
    and "drop_bit 8 (wValue (setup_pkt s)) = 0x21"
    and "hid_of_intf (ucast (wIndex (setup_pkt s))) s = Some k" and "hid_descriptor (usbd_hid_cfg s ! k) = None"
  shows "hid_custom_request_handler s = None"
  using assms by (simp add: hid_custom_request_handler_def Let_def)

lemma halt_beyond_registers_faults:
  assumes "length (EPR (USB d)) = 8" and "8 \<le> USB_EP_GET_IDX ep"
  shows "usbd_ep_set_stall ep d = None" and "usbd_ep_clear_stall ep d = None" and "is_ep_valid ep"
  using assms by (simp_all add: usbd_ep_set_stall_def usbd_ep_clear_stall_def on_usb_def is_ep_valid_def
      tx_status.faults rx_status.faults clear_tx_dtog.faults clear_rx_dtog.faults Let_def)

subsection \<open>Properties\<close>

text \<open>
  C23: GET_DESCRIPTOR is answered completely. When the setup packet of a GET_DESCRIPTOR request for the
  \<open>index\<close>-th device, configuration or string descriptor of the table has arrived, and the host goes on
  reading endpoint 0, it gets exactly the descriptor's bytes (for a configuration the total length), or
  the first \<open>wLength\<close> of them, cut into 64-byte packets, and an empty packet at the end just when the
  descriptor is shorter than asked for and a multiple of 64 bytes long.
\<close>

theorem get_descriptor_delivered:
  assumes "setup_arrived p s" and "bmRequestType p = 0x80" and "bRequest p = 0x06"
    and "\<forall>x \<in> set dss. well_headed x \<and> (x ! 1 = 0x02 \<longrightarrow> 4 \<le> length x)" and "descriptors s = Some (desc_table dss)"
    and "ty = ucast (drop_bit 8 (wValue p))" and "index = (ucast (wValue p) :: u8)" and "ty \<in> {0x01, 0x02, 0x03}"
    and "ty = 0x03 \<longrightarrow> index \<noteq> 0xEE" and "nth_of_type ty (unat index) dss = Some (k, y)"
    and "k + unat (sent_length y) \<le> length (desc_table dss)"
  shows "\<exists>t n ps u. usbd_ep0_setup_handler s = Some t \<and> host_reads n t = Some (ps, u) \<and>
    tx_packet (port_dc t) 0 # ps =
      packets (take (min (unat (sent_length y)) (unat (wLength p))) (drop k (desc_table dss))) @ zlp_packet (sent_length y) (wLength p) \<and>
    ep0_data_buf_residue u = 0 \<and> \<not> zlp_flag u"
proof -
  have d: "descriptors (at_request p s) = Some (desc_table dss)" using assms(5) by simp
  have "usbd_std_device_req_handler (at_request p s) = usbd_get_descriptor (wValue p) (at_request p s)"
    using assms(3) by (simp add: usbd_std_device_req_handler_def Let_def)
  then have "usbd_setup_request_handler (at_request p s) = Some (True, set_data (Ptr Descr k) (sent_length y) (at_request p s))"
    using device_request [of p s] assms(2,10) get_descriptor_result [OF assms(4) d assms(6-9)] by simp
  with in_answer [OF assms(1) _ _ _ assms(11), of Descr] assms(2,5) show ?thesis by simp
qed

theorem get_descriptor_delivered_witness:
  "\<exists>t n ps u. usbd_ep0_setup_handler (asked_stack 0x0680 0x0100 0 0x0040) = Some t \<and> host_reads n t = Some (ps, u) \<and>
     tx_packet (port_dc t) 0 # ps = [cmsis_descs ! 0]"
proof -
  let ?p = "\<lparr>bmRequestType = 0x80, bRequest = 0x06, wValue = 0x0100, wIndex = 0, wLength = 0x0040\<rparr>"
  have a: "setup_arrived ?p (asked_stack 0x0680 0x0100 0 0x0040)"
    by (rule setup_arrived_asked) (simp add: setup_bytes_def LO_BYTE_def HI_BYTE_def)
  have d: "descriptors (asked_stack 0x0680 0x0100 0 0x0040) = Some (desc_table cmsis_descs)"
    by (simp add: asked_stack_def cmsis_table)
  have l: "sent_length (cmsis_descs ! 0) = 18" "length (cmsis_descs ! 0) = 18" by (simp_all add: sent_length_def cmsis_bytes)
  have x: "desc_table cmsis_descs = cmsis_descs ! 0 @ concat (tl cmsis_descs) @ [0]"
    by (simp add: desc_table_def cmsis_bytes)
  have "take 18 (desc_table cmsis_descs) = cmsis_descs ! 0" "18 \<le> length (desc_table cmsis_descs)"
    unfolding x using l(2) by simp_all
  then show ?thesis
    using get_descriptor_delivered [OF a _ _ cmsis_config_long d, of "0x01" 0 0 "cmsis_descs ! 0"] l
    by (auto simp: cmsis_search zlp_packet_def packets.simps)
qed



text \<open>
  the data of a control OUT transfer of more than one packet is lost. Every packet but the last is
  copied to the start of the request buffer, whatever was received before, so after two packets the
  second one has overwritten the first one, and the handler of the request sees only the newest bytes
  there.
\<close>

theorem out_data_overwritten:
  assumes "dc_inv (port_dc s)" and "rx_count (port_dc s) 0 = n" and "n \<le> unat (ep_mps (out_ep (port_dc s) ! 0))"
    and "dc_inv d" and "rx_count d 0 = m" and "m \<le> unat (ep_mps (out_ep d ! 0))"
    and "n + m < unat (ep0_data_buf_residue s)" and "n \<le> length (req_data s)" and "m \<le> n"
  shows "\<exists>t u. usbd_ep0_out_handler s = Some t \<and> usbd_ep0_out_handler (t\<lparr>port_dc := d\<rparr>) = Some u \<and>
    req_data u = rx_packet d 0 m @ drop m (rx_packet (port_dc s) 0 n) @ drop n (req_data s) \<and>
    unat (ep0_data_buf_residue u) = unat (ep0_data_buf_residue s) - (n + m)"
proof -
  let ?r = "ep0_data_buf_residue s"
  let ?t = "s\<lparr>req_data := rx_packet (port_dc s) 0 n @ drop n (req_data s), ep0_data_buf := Ptr ReqData n,
    ep0_data_buf_residue := ?r - of_nat n\<rparr>"
  have lt: "unat ?r < 2 ^ 32" using unsigned_less [of ?r, where 'a = nat] by simp
  have left: "unat (?r - of_nat k) = unat ?r - k" if "k < unat ?r" for k
    using that lt by (simp add: unat_sub word_le_nat_alt unat_of_nat)
  have t: "usbd_ep0_out_handler s = Some ?t"
    using out_packet [OF assms(1) assms(2) [symmetric] assms(3)] assms(7,8) by simp
  have len: "length (rx_packet d' 0 k) = k" for d' k by (simp add: rx_packet_def)
  have u: "usbd_ep0_out_handler (?t\<lparr>port_dc := d\<rparr>) = Some (?t\<lparr>port_dc := d,
      req_data := rx_packet d 0 m @ drop m (req_data ?t), ep0_data_buf := Ptr ReqData m,
      ep0_data_buf_residue := ?r - of_nat n - of_nat m\<rparr>)"
    using out_packet [of "?t\<lparr>port_dc := d\<rparr>" m] assms(4-9) left [of n] len by simp
  have "?r - of_nat n - of_nat m = ?r - of_nat (n + m)" by simp
  then have "unat (?r - of_nat n - of_nat m) = unat ?r - (n + m)" using left [OF assms(7)] by (simp only:)
  with t u show ?thesis using assms(9) len by simp
qed

theorem out_data_overwritten_witness:
  "\<exists>t u. usbd_ep0_out_handler ((asked_stack 0x0201 0x0403 0x0605 0x0807)\<lparr>ep0_data_buf_residue := 100\<rparr>) = Some t \<and>
     usbd_ep0_out_handler (t\<lparr>port_dc := asked 0x1211 0x1413 0x1615 0x1817\<rparr>) = Some u \<and>
     take 8 (req_data u) = [0x11, 0x12, 0x13, 0x14, 0x15, 0x16, 0x17, 0x18]"
proof -
  let ?s = "(asked_stack 0x0201 0x0403 0x0605 0x0807)\<lparr>ep0_data_buf_residue := 100\<rparr>"
  let ?d = "asked 0x1211 0x1413 0x1615 0x1817"
  have p: "port_dc ?s = asked 0x0201 0x0403 0x0605 0x0807" "req_data ?s = replicate 256 0" by simp_all
  have n: "8 \<le> unat (ep_mps (out_ep (asked a b c e) ! 0))" for a b c e by (simp add: asked_port(3) ep64_def)
  have h: "8 + 8 < unat (ep0_data_buf_residue ?s)" "8 \<le> length (req_data ?s)" "(8 :: nat) \<le> 8" by simp_all
  from out_data_overwritten [of ?s 8 ?d 8, unfolded p, OF asked_port(1,2) n asked_port(1,2) n h(1) h(2) [unfolded p] h(3)]
  obtain t u where "usbd_ep0_out_handler ?s = Some t" "usbd_ep0_out_handler (t\<lparr>port_dc := ?d\<rparr>) = Some u"
    "req_data u = rx_packet ?d 0 8 @ drop 8 (rx_packet (asked 0x0201 0x0403 0x0605 0x0807) 0 8) @ drop 8 (replicate 256 0)"
    by blast
  then show ?thesis by (simp add: asked_port(4))
qed

end
