(* ===== verification/Interrupt.thy ===== *)
theory Interrupt imports Control begin

text \<open>
  The interrupt handler in the firmware: its rounds over correct transfers, the states that the firmware reaches from \<open>main\<close> by
  interrupts, and that the loop ends in each of them with the callbacks of main.c.
\<close>

subsection \<open>The rounds of the loop\<close>

text \<open>\<open>n\<close> rounds of the loop over correct transfers take \<open>s\<close> to \<open>t\<close>, without a fault and without a bound on their number.\<close>

inductive ctr_rounds :: "(u16 list \<Rightarrow> u16) \<Rightarrow> nat \<Rightarrow> 'a usbd \<Rightarrow> 'a usbd \<Rightarrow> bool" for arb where
  no_round: "ctr_rounds arb 0 s s"
| one_round: "read_ISTR arb (USB (port_dc s)) AND 0x8000 \<noteq> 0 \<Longrightarrow> ctr_step (read_ISTR arb (USB (port_dc s))) s = Some u \<Longrightarrow>
    ctr_rounds arb n u t \<Longrightarrow> ctr_rounds arb (Suc n) s t"

inductive_cases ctr_rounds_SucE: "ctr_rounds arb (Suc n) s t"

lemma rounds_loop: "ctr_rounds arb n s t \<Longrightarrow> \<exists>w'. ctr_loop arb (n + k) w s = ctr_loop arb k w' t"
  by (induction arbitrary: w rule: ctr_rounds.induct) (auto simp: Let_def)

lemma ISTR_ctr: "read_ISTR arb (USB (port_dc s)) AND 0x8000 = arb (epr s) AND 0x8000"
  using ISTR_fields(1) [of arb "USB (port_dc s)"] by (simp add: epr_def)

context ctr_arbiter begin

lemma ctr_pending: "length (epr s) = 8 \<Longrightarrow> read_ISTR arb (USB (port_dc s)) AND 0x8000 = 0 \<longleftrightarrow> pend_set (epr s) = {}"
  unfolding ISTR_ctr using ctr_iff [of "epr s"] by (auto simp: pending_at_def pend_set_def)

text \<open>Each round clears a flag, so the rounds come to an end: nothing is pending, or the next round faults.\<close>

lemma rounds_end:
  assumes "length (epr s) = 8" and "pend.cbs_ok s"
  shows "\<exists>n t. ctr_rounds arb n s t \<and> n + card (pend_set (epr t)) \<le> card (pend_set (epr s)) \<and> pend.rel s t \<and> length (epr t) = 8 \<and>
    (pend_set (epr t) = {} \<or> ctr_step (read_ISTR arb (USB (port_dc t))) t = None)"
  using assms
proof (induction "card (pend_set (epr s))" arbitrary: s rule: less_induct)
  case less
  show ?case
  proof (cases "pend_set (epr s) = {} \<or> ctr_step (read_ISTR arb (USB (port_dc s))) s = None")
    case True
    then show ?thesis using less.prems by (intro exI [of _ 0] exI [of _ s]) (auto intro: no_round)
  next
    case False
    then obtain u where u: "ctr_step (read_ISTR arb (USB (port_dc s))) s = Some u" by auto
    have c: "read_ISTR arb (USB (port_dc s)) AND 0x8000 \<noteq> 0" using ctr_pending [OF less.prems(1)] False by simp
    note d = step_decreases [OF u less.prems(1) c less.prems(2)]
    from less.hyps [OF d(4,1,2)] obtain n t where t: "ctr_rounds arb n u t" "n + card (pend_set (epr t)) \<le> card (pend_set (epr u))"
      "pend.rel u t" "length (epr t) = 8" "pend_set (epr t) = {} \<or> ctr_step (read_ISTR arb (USB (port_dc t))) t = None" by blast
    then show ?thesis using d(4) pend.rel_trans [OF d(3) t(3)] one_round [OF c u t(1)]
      by (intro exI [of _ "Suc n"] exI [of _ t]) auto
  qed
qed

lemma loop_outcome:
  assumes "length (epr s) = 8" and "pend.cbs_ok s"
  shows "\<exists>n t. n \<le> 16 \<and> ctr_rounds arb n s t \<and> pend.rel s t \<and> length (epr t) = 8 \<and>
    (if pend_set (epr t) = {} then \<exists>w'. ctr_loop arb 16 w s = Some (Inr (w', t))
     else ctr_step (read_ISTR arb (USB (port_dc t))) t = None \<and> ctr_loop arb 16 w s = None)"
proof -
  from rounds_end [OF assms] obtain n t where t: "ctr_rounds arb n s t" "n + card (pend_set (epr t)) \<le> card (pend_set (epr s))"
    "pend.rel s t" "length (epr t) = 8" "pend_set (epr t) = {} \<or> ctr_step (read_ISTR arb (USB (port_dc t))) t = None" by blast
  have n: "n + card (pend_set (epr t)) \<le> 16" using t(2) card_pend_set [of "epr s"] assms(1) by simp
  then obtain k where k: "16 = n + k" by (metis le_Suc_ex add_leD1)
  obtain w' where w': "ctr_loop arb 16 w s = ctr_loop arb k w' t" using rounds_loop [OF t(1), of k w] unfolding k by blast
  show ?thesis
  proof (cases "pend_set (epr t) = {}")
    case True
    then have "ctr_loop arb k w' t = Some (Inr (w', t))" using ctr_pending [OF t(4)] by (cases k) simp_all
    with True t n w' show ?thesis by (intro exI [of _ n] exI [of _ t]) simp
  next
    case False
    then have "0 < card (pend_set (epr t))" by (simp add: card_gt_0_iff)
    with n k obtain j where "k = Suc j" by (cases k) auto
    then have "ctr_loop arb k w' t = None" using ctr_pending [OF t(4)] False t(5) by (simp add: Let_def)
    with False t n w' show ?thesis by (intro exI [of _ n] exI [of _ t]) simp
  qed
qed

end

subsection \<open>The callbacks of main.c\<close>

lemma out_handler_fewer: "usbd_hid_out_handler env stack ep (d, a) = Some (d', a') \<Longrightarrow> dc_fewer d d'"
  unfolding usbd_hid_out_handler_def Let_def
  by (auto split: if_split_asm Option.bind_split_asm dest!: ep_read_fewer ep_write_fewer) (blast intro: dc_fewer_trans)+

text \<open>The endpoint objects are those of main.c, and no other callbacks are installed; the controller has its eight registers.\<close>

definition firmware_ok :: "target \<Rightarrow> u8 list \<Rightarrow> dap usbd \<Rightarrow> bool" where
  "firmware_ok env stack s \<longleftrightarrow> length (epr s) = 8 \<and> endpoints s = hid_endpoints env stack \<and>
     set (in_ep_cb s) \<union> set (out_ep_cb s) \<subseteq> {None, Some usbd_hid_in_handler, Some (usbd_hid_out_handler env stack)}"

lemma firmware_cbs_ok: "firmware_ok env stack s \<Longrightarrow> pend.cbs_ok s"
  by (auto simp: firmware_ok_def pend.cbs_ok_def hid_endpoints_def usbd_hid_in_handler_def split: if_split_asm
      dest: out_handler_fewer)

lemma firmware_ok_rel: "pend.rel s t \<Longrightarrow> firmware_ok env stack s \<Longrightarrow> firmware_ok env stack t"
  using pend_rel_epr [of s t] by (auto simp: firmware_ok_def pend.rel_def kept_def)

subsection \<open>The states that the firmware reaches\<close>

lemma for_each_keeps: "for_each f is s = Some t \<Longrightarrow> P s \<Longrightarrow> (\<And>i s t. f i s = Some t \<Longrightarrow> P s \<Longrightarrow> P t) \<Longrightarrow> P t"
proof (induction "is" arbitrary: s)
  case (Cons i "is")
  then obtain u where "f i s = Some u" "for_each f is u = Some t" by (auto split: Option.bind_split_asm)
  with Cons.IH [of u] Cons.prems(2,3) show ?case by blast
qed simp

lemma firmware_ok_fields [simp]:
  "firmware_ok env stack (s\<lparr>configured := c\<rparr>) = firmware_ok env stack s"
  "firmware_ok env stack (s\<lparr>configuration := k\<rparr>) = firmware_ok env stack s"
  "firmware_ok env stack (set_CNTR f s) = firmware_ok env stack s" "firmware_ok env stack (clear_ISTR arb w s) = firmware_ok env stack s"
  "firmware_ok env stack (s\<lparr>port_dc := (port_dc s)\<lparr>pma_offset := n\<rparr>\<rparr>) = firmware_ok env stack s"
  by (simp_all add: firmware_ok_def epr_def set_CNTR_def clear_ISTR_def write_ISTR_def Let_def)

lemma firmware_ok_USB: "firmware_ok env stack s \<Longrightarrow> length (EPR r) = 8 \<Longrightarrow> firmware_ok env stack (s\<lparr>port_dc := (port_dc s)\<lparr>USB := r\<rparr>\<rparr>)"
  by (simp add: firmware_ok_def epr_def)

lemma register_firmware_ok: "usbd_ep_callback_register s = Some t \<Longrightarrow> firmware_ok env stack s \<Longrightarrow> firmware_ok env stack t"
proof -
  let ?C = "{None, Some usbd_hid_in_handler, Some (usbd_hid_out_handler env stack)}"
  have one: "firmware_ok env stack v"
    if "(let e = endpoints u k in case ep_cb e of None \<Rightarrow> Some u
      | Some cb \<Rightarrow> if ept_addr e AND 0x80 \<noteq> 0
          then do { l \<leftarrow> wr (in_ep_cb u) (unat (ept_addr e AND 0x7F)) (Some cb); Some (u\<lparr>in_ep_cb := l\<rparr>) }
          else do { l \<leftarrow> wr (out_ep_cb u) (unat (ept_addr e AND 0x7F)) (Some cb); Some (u\<lparr>out_ep_cb := l\<rparr>) }) = Some v"
      "firmware_ok env stack u" for u v k
  proof -
    have c: "ep_cb (endpoints u k) \<in> ?C" using that(2) by (auto simp: firmware_ok_def hid_endpoints_def)
    have s: "set (l[i := x]) \<subseteq> ?C" if "set l \<subseteq> ?C" "x \<in> ?C" for l i x
      using that set_update_subset_insert [of l i x] by blast
    show ?thesis using that c
      by (auto simp: Let_def wr_def firmware_ok_def epr_def split: option.split_asm if_split_asm dest!: s [THEN subsetD, rotated 2])
  qed
  show "usbd_ep_callback_register s = Some t \<Longrightarrow> firmware_ok env stack s \<Longrightarrow> firmware_ok env stack t"
    unfolding usbd_ep_callback_register_def by (rule for_each_keeps, assumption+) (rule for_each_keeps, assumption+, rule one)
qed

lemma on_dc_firmware_ok: "on_dc (usbd_ep_open c) s = Some (rc, t) \<Longrightarrow> firmware_ok env stack s \<Longrightarrow> firmware_ok env stack t"
  using pend.on_dc_rels(1) firmware_ok_rel by blast

lemma class_notify_firmware_ok:
  "firmware_ok env stack s \<Longrightarrow> firmware_ok env stack (usbd_class_event_notify_handler ev s)"
  using class_notify_kept [of s ev] by (simp add: firmware_ok_def kept_def epr_def)

lemma reset_firmware_ok:
  assumes "irq_reset arb s = Some t" and "firmware_ok env stack s"
  shows "firmware_ok env stack t"
proof -
  let ?s = "s\<lparr>port_dc := snd (usbd_set_address 0 (port_dc s)), configured := False, configuration := 0\<rparr>"
  from assms(1) obtain rc1 a rc2 b c where s: "on_dc (usbd_ep_open (ep0_cfg 0x80)) ?s = Some (rc1, a)"
    "on_dc (usbd_ep_open (ep0_cfg 0x00)) a = Some (rc2, b)" "usbd_ep_callback_register b = Some c"
    "t = clear_ISTR arb 0x0400 ((usbd_class_event_notify_handler USBD_EVENT_RESET c)\<lparr>port_dc :=
       (port_dc (usbd_class_event_notify_handler USBD_EVENT_RESET c))\<lparr>pma_offset := USB_BTABLE_SIZE\<rparr>\<rparr>)"
    by (auto simp: irq_reset_def usbd_event_notify_handler_def Let_def split: Option.bind_split_asm)
  have "firmware_ok env stack ?s"
    using assms(2) by (simp add: firmware_ok_def epr_def usbd_set_address_def Let_def)
  then have "firmware_ok env stack c" using s(1-3) on_dc_firmware_ok register_firmware_ok by blast
  then show ?thesis by (simp add: s(4) class_notify_firmware_ok)
qed

lemma suspend_firmware_ok:
  assumes "irq_suspend arb force s = Some t" and "firmware_ok env stack s" and "keeps_shape force"
  shows "firmware_ok env stack t"
proof -
  have on: "firmware_ok env stack v" if "on_regs (PCD_SET_ENDPOINT i w) u = Some v" "firmware_ok env stack u" for i w u v
    using that by (auto simp: on_regs_def on_usb_def PCD_SET_ENDPOINT_def firmware_ok_def epr_def dest: wr_length split: Option.bind_split_asm)
  have each: "firmware_ok env stack v" if "for_each (\<lambda>i s. do { v \<leftarrow> rd l i; on_regs (PCD_SET_ENDPOINT i v) s }) is u = Some v" "firmware_ok env stack u"
    for l "is" u v
    using that by (rule for_each_keeps) (auto split: Option.bind_split_asm intro: on)
  have f: "firmware_ok env stack (u\<lparr>port_dc := (port_dc u)\<lparr>USB := force (USB (port_dc u))\<rparr>\<rparr>)" if "firmware_ok env stack u" for u
    using that assms(3) by (simp add: firmware_ok_def epr_def keeps_shape_def)
  from assms(1) obtain l u where u: "for_each (\<lambda>i s. do { v \<leftarrow> rd l i; on_regs (PCD_SET_ENDPOINT i v) s }) [0..<8]
      (clear_ISTR arb 0x0400 (set_CNTR (\<lambda>c. c AND NOT 0x0001) ((set_CNTR (\<lambda>c. c OR 0x0001) s)\<lparr>port_dc :=
        (port_dc (set_CNTR (\<lambda>c. c OR 0x0001) s))\<lparr>USB := force (USB (port_dc (set_CNTR (\<lambda>c. c OR 0x0001) s)))\<rparr>\<rparr>))) = Some u"
    "t = set_CNTR (\<lambda>c. c OR 0x0004) (clear_ISTR arb 0x0800 (set_CNTR (\<lambda>c. c OR 0x0008) u))"
    unfolding irq_suspend_def Let_def by (auto split: Option.bind_split_asm if_split_asm)
  have "firmware_ok env stack u" using u(1) by (rule each) (simp add: f assms(2))
  then show ?thesis by (simp add: u(2))
qed

lemma handler_firmware_ok:
  assumes "USBD_IRQHandler arb force s = Some t" and "firmware_ok env stack s" and "keeps_shape force" and "ctr_arbiter arb"
  shows "firmware_ok env stack t"
proof -
  let ?w = "read_ISTR arb (USB (port_dc s))"
  have loop: "firmware_ok env stack v" if "ctr_loop arb 16 ?w s = Some (Inr (w', v))" for w' v
  proof -
    have l: "length (epr s) = 8" using assms(2) by (simp add: firmware_ok_def)
    from ctr_arbiter.loop_outcome [OF assms(4) l firmware_cbs_ok [OF assms(2)], of ?w] that have "pend.rel s v"
      by (auto split: if_split_asm)
    then show ?thesis using assms(2) firmware_ok_rel by blast
  qed
  define clr where "clr w f v = (if w AND f \<noteq> 0 then clear_ISTR arb f v else v)" for w f and v :: "dap usbd"
  define wake where "wake w v = (if w AND 0x1000 \<noteq> 0 then irq_wakeup arb v else v)" for w :: u16 and v :: "dap usbd"
  from assms(1) obtain w u v x where u: "(if ?w AND 0x8000 \<noteq> 0
      then do { r \<leftarrow> ctr_loop arb 16 ?w s; (case r of Inl t \<Rightarrow> None | Inr p \<Rightarrow> Some p) } else Some (?w, s)) = Some (w, u)"
    "(if w AND 0x0400 \<noteq> 0 then irq_reset arb u else Some u) = Some v"
    and x: "(if w AND 0x0800 \<noteq> 0 then irq_suspend arb force (wake w (clr w 0x2000 (clr w 0x4000 v)))
      else Some (wake w (clr w 0x2000 (clr w 0x4000 v)))) = Some x"
    "t = clr w 0x0100 (clr w 0x0200 x)"
    unfolding USBD_IRQHandler_def Let_def clr_def wake_def by (auto split: Option.bind_split_asm)
  have "firmware_ok env stack u" using u(1) loop assms(2) by (auto split: if_split_asm Option.bind_split_asm sum.split_asm)
  then have v: "firmware_ok env stack v" using u(2) reset_firmware_ok by (auto split: if_split_asm)
  have "firmware_ok env stack x"
    using x(1) v suspend_firmware_ok [OF _ _ assms(3)] by (auto simp: clr_def wake_def irq_wakeup_def Let_def split: if_split_asm)
  then show ?thesis by (simp add: x(2) clr_def)
qed

text \<open>
  The states that the firmware reaches from power on: \<open>main\<close>, then any changes of the registers and the packet memory by the peripheral,
  and interrupts.
\<close>

inductive reached :: "(u16 list \<Rightarrow> u16) \<Rightarrow> (usb_regs \<Rightarrow> usb_regs) \<Rightarrow> target \<Rightarrow> u8 list \<Rightarrow> dap usbd \<Rightarrow> bool" for arb force env stack where
  after_main: "main_c force (at_reset env stack) = Some (rc, s, ths) \<Longrightarrow> reached arb force env stack s"
| peripheral: "reached arb force env stack s \<Longrightarrow> length (EPR r) = 8 \<Longrightarrow> reached arb force env stack (s\<lparr>port_dc := (port_dc s)\<lparr>USB := r\<rparr>\<rparr>)"
| interrupt: "reached arb force env stack s \<Longrightarrow> USBD_IRQHandler arb force s = Some t \<Longrightarrow> reached arb force env stack t"

lemma reached_firmware_ok:
  assumes "reached arb force env stack s" and "ctr_arbiter arb" and "keeps_shape force"
  shows "firmware_ok env stack s"
  using assms(1)
proof (induction rule: reached.induct)
  case (after_main rc s ths)
  from main_state [of force env stack] init_port(1) [OF assms(3)] after_main show ?case
    by (auto simp: firmware_ok_def epr_def dc_shape_def regs_ok_def)
next
  case (peripheral s r)
  then show ?case by (intro firmware_ok_USB)
next
  case (interrupt s t)
  with handler_firmware_ok assms(2,3) show ?case by blast
qed

subsection \<open>Reports do not fault\<close>

text \<open>
  The transfers of a configured device that carry reports: pending are at most a report on OUT endpoint 2 and an answer that was sent
  on IN endpoint 1, and the report has 1 to 64 bytes and is not one of the two transfer commands.
\<close>

definition report_ok :: "usb_dc \<Rightarrow> bool" where
  "report_ok d \<longleftrightarrow> 0 < rx_count d 2 \<and> rx_count d 2 \<le> 64 \<and> rx_count d 2 \<le> unat (ep_mps (out_ep d ! 2)) \<and>
     rx_packet d 2 (rx_count d 2) ! 0 \<noteq> 0x31 \<and> rx_packet d 2 (rx_count d 2) ! 0 \<noteq> 0x32"

definition report_traffic :: "target \<Rightarrow> u8 list \<Rightarrow> dap usbd \<Rightarrow> bool" where
  "report_traffic env stack s \<longleftrightarrow> dc_inv (port_dc s) \<and> dap_inv (application s) \<and> ep_mps (in_ep (port_dc s) ! 1) = 64 \<and>
     rd (in_ep_cb s) 1 = Some (Some usbd_hid_in_handler) \<and> rd (out_ep_cb s) 2 = Some (Some (usbd_hid_out_handler env stack)) \<and>
     length stack = 64 \<and> pend_set (epr s) \<subseteq> {(1, 7), (2, 15)} \<and> ((2, 15) \<in> pend_set (epr s) \<longrightarrow> report_ok (port_dc s))"

lemma report_ok_EPR: "report_ok (d\<lparr>USB := (USB d)\<lparr>EPR := e\<rparr>\<rparr>) = report_ok d"
  by (simp add: report_ok_def rx_count_def rx_packet_def pma_bytes_def pma_byte_def)

lemma dc_inv_EPR: "dc_inv d \<Longrightarrow> length e = 8 \<Longrightarrow> dc_inv (d\<lparr>USB := (USB d)\<lparr>EPR := e\<rparr>\<rparr>)"
  by (simp add: dc_inv_def regs_ok_def)

lemma in_step_traffic:
  assumes "report_traffic env stack s" and "(1, 7) \<in> pend_set (epr s)"
  shows "\<exists>t. ctr_ep 1 s = Some t \<and> report_traffic env stack t"
proof -
  let ?e = "EPR (USB (port_dc s))"
  have l: "length ?e = 8" using assms(1) by (simp add: report_traffic_def dc_inv_def regs_ok_def)
  have "pend_set ?e \<subseteq> {(1, 7), (2, 15)}" using assms(1) by (simp add: report_traffic_def epr_def)
  then have "(1, 15) \<notin> pend_set ?e" by auto
  then have b: "bit (?e ! 1) 7" "\<not> bit (?e ! 1) 15" using assms(2) l by (simp_all add: pend_set_def epr_def)
  then have v: "?e ! 1 AND 0x0080 \<noteq> 0" "?e ! 1 AND 0x8000 = 0"
    using and_pow2 [of "0x8000" 15 "?e ! 1"] and_pow2 [of "0x0080" 7 "?e ! 1"] by simp_all
  let ?d = "(port_dc s)\<lparr>USB := (USB (port_dc s))\<lparr>EPR := ?e[1 := clear_ctr_tx (?e ! 1)]\<rparr>\<rparr>"
  have "on_regs (PCD_CLEAR_TX_EP_CTR 1) s = Some (s\<lparr>port_dc := ?d\<rparr>)"
    using l by (simp add: on_regs_def on_usb_def clear_tx_ctr.acts)
  moreover have "usbd_event_notify_handler USBD_EVENT_EP_IN_NOTIFY 0x81 (s\<lparr>port_dc := ?d\<rparr>) = Some (s\<lparr>port_dc := ?d\<rparr>)"
    using assms(1) by (simp add: usbd_event_notify_handler_def usbd_ep_in_handler_def call_ep_cb_def usbd_hid_in_handler_def report_traffic_def)
  ultimately have "ctr_ep 1 s = Some (s\<lparr>port_dc := ?d\<rparr>)"
    using l v by (simp add: ctr_ep_def PCD_GET_ENDPOINT_def rd_def)
  moreover have "pend_set (?e[1 := clear_ctr_tx (?e ! 1)]) = pend_set ?e - {(1, 7)}"
    using pend_set_clear(2) [OF l, of 1] by simp
  then have "report_traffic env stack (s\<lparr>port_dc := ?d\<rparr>)"
    using assms(1) l by (auto simp: report_traffic_def epr_def report_ok_EPR dc_inv_EPR)
  ultimately show ?thesis by blast
qed

lemma pend_set_status:
  assumes "length e = 8"
  shows "pend_set (e[1 := set_stat_tx 0x0030 (e ! 1)]) \<subseteq> pend_set e" "pend_set (e[2 := set_stat_rx 0x3000 (e ! 2)]) \<subseteq> pend_set e"
  using assms by (auto simp: pend_set_def nth_list_update set_stat_tx_def set_stat_rx_def bit_simps split: if_split_asm)

lemma out_step_traffic:
  assumes "report_traffic env stack s" and "(2, 15) \<in> pend_set (epr s)"
  shows "\<exists>t. ctr_ep 2 s = Some t \<and> report_traffic env stack t"
proof -
  let ?e = "EPR (USB (port_dc s))" and ?n = "rx_count (port_dc s) 2"
  have l: "length ?e = 8" using assms(1) by (simp add: report_traffic_def dc_inv_def regs_ok_def)
  have "pend_set ?e \<subseteq> {(1, 7), (2, 15)}" using assms(1) by (simp add: report_traffic_def epr_def)
  then have "(2, 7) \<notin> pend_set ?e" by auto
  then have b: "bit (?e ! 2) 15" "\<not> bit (?e ! 2) 7" using assms(2) l by (simp_all add: pend_set_def epr_def)
  then have v: "?e ! 2 AND 0x8000 \<noteq> 0" "?e ! 2 AND 0x0080 = 0"
    using and_pow2 [of "0x8000" 15 "?e ! 2"] and_pow2 [of "0x0080" 7 "?e ! 2"] by simp_all
  let ?d = "(port_dc s)\<lparr>USB := (USB (port_dc s))\<lparr>EPR := ?e[2 := clear_ctr_rx (?e ! 2)]\<rparr>\<rparr>"
  have clear: "on_regs (PCD_CLEAR_RX_EP_CTR 2) s = Some (s\<lparr>port_dc := ?d\<rparr>)"
    using l by (simp add: on_regs_def on_usb_def clear_rx_ctr.acts)
  have inv: "dc_inv ?d" "dap_inv (application s)" "ep_mps (in_ep ?d ! 1) = 64" "length stack = 64" "report_ok ?d"
    using assms l by (auto simp: report_traffic_def report_ok_EPR dc_inv_EPR)
  have same: "rx_count ?d 2 = ?n" "rx_packet ?d 2 ?n = rx_packet (port_dc s) 2 ?n" "out_ep ?d = out_ep (port_dc s)"
    by (simp_all add: rx_count_def rx_packet_def pma_bytes_def pma_byte_def)
  have n: "0 < ?n" "?n \<le> 64" "?n \<le> unat (ep_mps (out_ep ?d ! 2))" "rx_packet ?d 2 ?n ! 0 \<noteq> 0x31" "rx_packet ?d 2 ?n ! 0 \<noteq> 0x32"
    using inv(5) by (simp_all add: report_ok_def same)
  let ?req = "rx_packet ?d 2 ?n @ drop ?n stack"
  have r: "length ?req = 64" "?req ! 0 = rx_packet ?d 2 ?n ! 0"
    using n(1,2) inv(4) by (simp_all add: rx_packet_def nth_append)
  have pos: "(0 :: u32) < of_nat ?n" "unat (of_nat ?n :: u32) \<le> 64" using n(1,2) by (simp_all add: word_less_nat_alt unat_of_nat)
  from report_command_runs [OF inv(2) r(1) pos length_replicate [of 64 0], of env] n(4,5) obtain k out a' where
    p: "dap_process_command env (Some ?req) (of_nat ?n) (Some (replicate 64 0)) (application s) = Some (k, Some out, a')"
      "length out = 64" "dap_inv a'" unfolding r(2) by blast
  obtain d1 d' where h: "usbd_hid_out_handler env stack 0x02 (?d, application s) = Some (d', a')" "sends 1 out ?d d1"
    "d' = d1\<lparr>USB := (USB d1)\<lparr>EPR := (EPR (USB d1))[2 := set_stat_rx 0x3000 (EPR (USB d1) ! 2)]\<rparr>\<rparr>" "dc_inv d'"
    using hid_out_handler_answers [OF inv(1,3) same(1) [symmetric] n(1-3) inv(4) p(1,2)] by blast
  let ?t = "s\<lparr>port_dc := d', application := a'\<rparr>"
  have "usbd_event_notify_handler USBD_EVENT_EP_OUT_NOTIFY 2 (s\<lparr>port_dc := ?d\<rparr>) = Some ?t"
    using assms(1) h(1) by (simp add: usbd_event_notify_handler_def usbd_ep_out_handler_def call_ep_cb_def report_traffic_def)
  then have "ctr_ep 2 s = Some ?t"
    using l v clear by (simp add: ctr_ep_def PCD_GET_ENDPOINT_def rd_def)
  moreover have "in_ep d1 = in_ep (port_dc s)" "EPR (USB d1) = (?e[2 := clear_ctr_rx (?e ! 2)])[1 := set_stat_tx 0x0030 (?e[2 := clear_ctr_rx (?e ! 2)] ! 1)]"
    using h(2) by (auto simp: sends_def)
  moreover from this(2) have "pend_set (EPR (USB d')) \<subseteq> pend_set ?e - {(2, 15)}"
    using pend_set_status(2) [of "EPR (USB d1)"] pend_set_status(1) [of "?e[2 := clear_ctr_rx (?e ! 2)]"] pend_set_clear(1) [OF l, of 2] l
    unfolding h(3) by auto
  ultimately show ?thesis using assms(1) h(4) p(3) by (intro exI [of _ ?t]) (auto simp: report_traffic_def epr_def h(3))
qed

context ctr_arbiter begin

lemma step_traffic:
  assumes "report_traffic env stack s" and "pend_set (epr s) \<noteq> {}"
  shows "\<exists>t. ctr_step (read_ISTR arb (USB (port_dc s))) s = Some t \<and> report_traffic env stack t"
proof -
  let ?w = "read_ISTR arb (USB (port_dc s))"
  have l: "length (epr s) = 8" using assms(1) by (simp add: report_traffic_def dc_inv_def regs_ok_def epr_def)
  have c: "arb (epr s) AND 0x8000 \<noteq> 0" using ctr_pending [OF l] assms(2) by (simp add: ISTR_ctr)
  let ?n = "ucast (?w AND 0x000F) :: u8"
  have n: "unat ?n = unat (arb (epr s) AND 0x000F)"
    unfolding low_nibble_u8 using ISTR_fields(3) [of arb "USB (port_dc s)"] by (simp add: epr_def)
  have p: "(unat ?n, 15) \<in> pend_set (epr s) \<or> (unat ?n, 7) \<in> pend_set (epr s)"
    using ep_id [OF l c] unfolding n pending_at_iff .
  have s: "pend_set (epr s) \<subseteq> {(1, 7), (2, 15)}" using assms(1) by (simp add: report_traffic_def)
  then have "?n = 1 \<and> (1, 7) \<in> pend_set (epr s) \<or> ?n = 2 \<and> (2, 15) \<in> pend_set (epr s)"
    using p by (auto simp: word_unat_eq_iff)
  then show ?thesis
  proof
    assume a: "?n = 1 \<and> (1, 7) \<in> pend_set (epr s)"
    then have "ctr_step ?w s = ctr_ep 1 s" by (simp add: ctr_step_def)
    with in_step_traffic [OF assms(1)] a show ?thesis by simp
  next
    assume a: "?n = 2 \<and> (2, 15) \<in> pend_set (epr s)"
    then have "ctr_step ?w s = ctr_ep 2 s" by (simp add: ctr_step_def)
    with out_step_traffic [OF assms(1)] a show ?thesis by simp
  qed
qed

lemma rounds_traffic: "ctr_rounds arb n s t \<Longrightarrow> report_traffic env stack s \<Longrightarrow> report_traffic env stack t"
proof (induction rule: ctr_rounds.induct)
  case (one_round s u n t)
  have l: "length (epr s) = 8" using one_round.prems by (simp add: report_traffic_def dc_inv_def regs_ok_def epr_def)
  from one_round.hyps(1) have "pend_set (epr s) \<noteq> {}" using ctr_pending [OF l] by simp
  from step_traffic [OF one_round.prems this] one_round.hyps(2) one_round.IH show ?case by auto
qed

end

subsection \<open>The loop ends\<close>

lemma pend_set_flags: "length (EPR (USB (port_dc t))) = 8 \<Longrightarrow> pend_set (epr t) = {} \<longleftrightarrow> (\<forall>i < 8. EPR (USB (port_dc t)) ! i AND 0x8080 = 0)"
  for t :: "'a usbd"
proof -
  assume l: "length (EPR (USB (port_dc t))) = 8"
  have "v AND 0x8080 = 0 \<longleftrightarrow> \<not> bit v 15 \<and> \<not> bit v 7" for v :: u16
  proof -
    have "v AND 0x8080 = 0 \<longleftrightarrow> (\<forall>n. \<not> bit (pending_bits v) n)" by (auto simp: pending_bits_def intro: bit_eqI)
    then show ?thesis by (auto simp: pending_bits_bit)
  qed
  with l show ?thesis by (auto simp: pend_set_def epr_def)
qed

text \<open>
  C19: in every state that the firmware reaches from \<open>main\<close> by interrupts, with the endpoint callbacks of main.c and whatever the
  peripheral has put into its registers and the packet memory, the loop over correct transfers runs at most 16 rounds, for every order in which the
  peripheral reports the transfers: a round takes one or two flags away and the handlers it calls set none. After these rounds nothing is
  pending and the loop returns, or the next round faults and the loop does not return; the registered descriptors, interfaces and
  callbacks are as before. If the transfers carry a report other than the two transfer commands, and an answer that has been sent, no round faults.
\<close>

theorem irq_loop_terminates:
  assumes "ctr_arbiter arb" and "keeps_shape force" and "reached arb force env stack s"
  shows "\<exists>n t. n \<le> 16 \<and> ctr_rounds arb n s t \<and> kept s t \<and>
    (if \<forall>i < 8. EPR (USB (port_dc t)) ! i AND 0x8080 = 0
     then \<exists>w'. ctr_loop arb 16 wIstr s = Some (Inr (w', t))
     else ctr_step (read_ISTR arb (USB (port_dc t))) t = None \<and> ctr_loop arb 16 wIstr s = None) \<and>
    (report_traffic env stack s \<longrightarrow> (\<forall>i < 8. EPR (USB (port_dc t)) ! i AND 0x8080 = 0))"
proof -
  have f: "firmware_ok env stack s" using reached_firmware_ok [OF assms(3,1,2)] .
  then have "length (epr s) = 8" by (simp add: firmware_ok_def)
  from ctr_arbiter.loop_outcome [OF assms(1) this firmware_cbs_ok [OF f], of wIstr] obtain n t where
    t: "n \<le> 16" "ctr_rounds arb n s t" "pend.rel s t" "length (EPR (USB (port_dc t))) = 8"
    and out: "if pend_set (epr t) = {} then \<exists>w'. ctr_loop arb 16 wIstr s = Some (Inr (w', t))
      else ctr_step (read_ISTR arb (USB (port_dc t))) t = None \<and> ctr_loop arb 16 wIstr s = None"
    by (auto simp: epr_def)
  have "report_traffic env stack s \<longrightarrow> pend_set (epr t) = {}"
    using ctr_arbiter.rounds_traffic [OF assms(1) t(2)] ctr_arbiter.step_traffic [OF assms(1), of env stack t] out by (auto split: if_split_asm)
  then show ?thesis
    using t(1-3) out unfolding pend_set_flags [OF t(4)] by (intro exI [of _ n] exI [of _ t]) (simp only: pend.rel_def)
qed

subsection \<open>A run of the firmware to its first report\<close>

lemma class_notify_cfg: "\<exists>c. usbd_class_event_notify_handler ev s = s\<lparr>usbd_hid_cfg := c\<rparr>" for s :: "'a usbd"
proof -
  let ?P = "\<lambda>t. \<exists>c. t = s\<lparr>usbd_hid_cfg := c\<rparr>"
  have h: "?P (fold (\<lambda>k. upd_hid k f) ks t)" if "?P t" for f ks t
    using that
  proof (induction ks arbitrary: t)
    case (Cons k ks)
    then have "?P (upd_hid k f t)" by (auto simp: upd_hid_def)
    from Cons.IH [OF this] show ?case by simp
  qed simp
  have n: "?P (hid_notify_handler ev t)" if "?P t" for t
    using that h [OF that] by (simp add: hid_notify_handler_def usbd_hid_reset_def)
  have "?P (fold (\<lambda>i s. case notify_handler (interfaces s i) of None \<Rightarrow> s | Some hid_notify \<Rightarrow> hid_notify_handler ev s) is t)" if "?P t" for "is" t
    using that
  proof (induction "is" arbitrary: t)
    case (Cons i "is")
    have "?P (case notify_handler (interfaces t i) of None \<Rightarrow> t | Some hid_notify \<Rightarrow> hid_notify_handler ev t)"
      using Cons.prems n by (simp split: option.split notify_handler_fn.split)
    from Cons.IH [OF this] show ?case by simp
  qed simp
  moreover have "?P s" by (rule exI [of _ "usbd_hid_cfg s"]) simp
  ultimately show ?thesis unfolding usbd_class_event_notify_handler_def by blast
qed

text \<open>The answer to a request starts at the data pointer, which is null until a request sets it.\<close>

lemma reset_data: "irq_reset arb s = Some t \<Longrightarrow> ep0_data_buf t = ep0_data_buf s"
proof -
  assume "irq_reset arb s = Some t"
  then obtain rc1 a rc2 b c where s: "on_dc (usbd_ep_open (ep0_cfg 0x80))
      (s\<lparr>port_dc := snd (usbd_set_address 0 (port_dc s)), configured := False, configuration := 0\<rparr>) = Some (rc1, a)"
    "on_dc (usbd_ep_open (ep0_cfg 0x00)) a = Some (rc2, b)" "usbd_ep_callback_register b = Some c"
    "t = clear_ISTR arb 0x0400 ((usbd_class_event_notify_handler USBD_EVENT_RESET c)\<lparr>port_dc :=
       (port_dc (usbd_class_event_notify_handler USBD_EVENT_RESET c))\<lparr>pma_offset := USB_BTABLE_SIZE\<rparr>\<rparr>)"
    by (auto simp: irq_reset_def usbd_event_notify_handler_def Let_def split: Option.bind_split_asm)
  have "ep0_data_buf b = ep0_data_buf s" using s(1,2) by (auto simp: on_dc_def split: Option.bind_split_asm)
  moreover have "ep0_data_buf c = ep0_data_buf b"
    using s(3) unfolding usbd_ep_callback_register_def
    by (rule for_each_keeps [where P = "\<lambda>u. ep0_data_buf u = ep0_data_buf b"])
      (auto elim!: for_each_keeps [where P = "\<lambda>u. ep0_data_buf u = ep0_data_buf b"] simp: Let_def split: option.split_asm if_split_asm Option.bind_split_asm)
  ultimately show ?thesis
    using class_notify_cfg [of USBD_EVENT_RESET c] by (auto simp: s(4) clear_ISTR_def Let_def)
qed

lemma main_data: "main_c force (at_reset env stack) = Some (rc, s, ths) \<Longrightarrow> ep0_data_buf s = Null"
  by (auto simp: main_c_def at_reset_def cmsis_dap_usb_init_def cmsis_dap_usb_desc_init_def usbd_desc_register_def
      usbd_hid_add_interface_def usbd_class_register_def usbd_class_add_interface_def usb_slist_add_tail_def
      usbd_zero_def Let_def rd_def upd_hid_def zero_hid_def zero_interface_def usbd_interface_add_endpoint_def
      cmsis_dap_hid_report_register_def usbd_hid_report_descriptor_register_def hid_of_intf_def
      usbd_initialize_def case_prod_beta all_interfaces_def nth_list_update)

text \<open>A bus reset alone, and a correct transfer alone.\<close>

lemma handler_reset: "read_ISTR arb (USB (port_dc s)) = 0x0400 \<Longrightarrow> USBD_IRQHandler arb force s = irq_reset arb s"
  by (simp add: USBD_IRQHandler_def split: bind_split)

lemma handler_setup:
  assumes "read_ISTR arb (USB (port_dc s)) = 0x8010" and "ctr_ep0_out s = Some t" and "read_ISTR arb (USB (port_dc t)) AND 0x8000 = 0"
  shows "USBD_IRQHandler arb force s = Some t"
proof -
  have "ctr_step 0x8010 s = Some t" using assms(2) by (simp add: ctr_step_def)
  then have "ctr_loop arb (Suc (Suc 14)) 0x8010 s = Some (Inr (0x8010, t))"
    unfolding ctr_loop.simps(2) using assms(1,3) by (simp add: Let_def)
  then have "ctr_loop arb 16 0x8010 s = Some (Inr (0x8010, t))" by simp
  then show ?thesis using assms(1) by (simp add: USBD_IRQHandler_def)
qed

definition set_configuration_1 :: usb_setup_packet where
  "set_configuration_1 = \<lparr>bmRequestType = 0, bRequest = 0x09, wValue = 1, wIndex = 0, wLength = 0\<rparr>"

text \<open>SET_CONFIGURATION 1 arrives in the state after a bus reset.\<close>

lemma setup_configures:
  assumes "setup_arrived set_configuration_1 s" and "dc_shape (port_dc s)" and "pma_offset (port_dc s) = 64"
    and "in_ep (port_dc s) = (replicate 8 zero_ep)[0 := ep64 0 64]" and "out_ep (port_dc s) = (replicate 8 zero_ep)[0 := ep64 0 128]"
    and "descriptors s = Some cmsis_hid_descriptor" and "ep0_data_buf s = Null"
  shows "\<exists>t. usbd_ep0_setup_handler s = Some t \<and> dc_inv (port_dc t) \<and> in_ep_cb t = in_ep_cb s \<and> out_ep_cb t = out_ep_cb s \<and>
    application t = application s \<and> in_ep (port_dc t) ! 1 = ep64 3 128 \<and> out_ep (port_dc t) ! 2 = ep64 3 64"
proof -
  let ?s = "at_request set_configuration_1 s"
  have d: "descriptors ?s = Some cmsis_hid_descriptor" using assms(6) by simp
  from configure_opens [of ?s, OF _ _ _ _ d] assms(2-5) obtain u where
    u: "usbd_set_configuration 1 0 ?s = Some (True, u)" "dc_shape (port_dc u)"
      "in_ep (port_dc u) = (replicate 8 zero_ep)[0 := ep64 0 64, 1 := ep64 3 128]"
      "out_ep (port_dc u) = (replicate 8 zero_ep)[0 := ep64 0 128, 2 := ep64 3 64]" by auto
  have same: "in_ep_cb u = in_ep_cb s" "out_ep_cb u = out_ep_cb s" "application u = application s" "ep0_data_buf u = Null" "\<not> zlp_flag u"
    "ep0_data_buf_len u = 0"
    using u(1) unfolding set_configuration_result [OF d]
    by (auto simp: on_dc_def at_request_def set_configuration_1_def assms(7) split: Option.bind_split_asm)
  obtain c where c: "usbd_class_event_notify_handler USBD_EVENT_CONFIGURED (u\<lparr>configuration := 1\<rparr>) = u\<lparr>configuration := 1, usbd_hid_cfg := c\<rparr>"
    using class_notify_cfg [of USBD_EVENT_CONFIGURED "u\<lparr>configuration := 1\<rparr>"] by auto
  let ?u = "u\<lparr>configuration := 1, usbd_hid_cfg := c\<rparr>"
  have "usbd_std_device_req_handler ?s = Some (True, ?u)"
    using u(1) c by (simp add: usbd_std_device_req_handler_def set_configuration_1_def Let_def)
  then have "usbd_setup_request_handler ?s = Some (True, ?u)"
    using device_request [of set_configuration_1 s] by (simp add: set_configuration_1_def)
  then have h: "usbd_ep0_setup_handler s = usbd_send_to_host 0 (?u\<lparr>ep0_data_buf_residue := 0\<rparr>)"
    using setup_stage [OF assms(1)] same(6) by (simp add: set_configuration_1_def)
  have ok: "ep_ok zero_ep" "ep_ok (ep64 0 64)" "ep_ok (ep64 0 128)" "ep_ok (ep64 3 64)" "ep_ok (ep64 3 128)"
    by (simp_all add: ep_ok_def zero_ep_def ep64_def)
  have "\<forall>e \<in> set (in_ep (port_dc u)) \<union> set (out_ep (port_dc u)). ep_ok e"
    unfolding u(3,4) using ok by (auto dest!: set_update_subset_insert [THEN subsetD])
  then have inv: "dc_inv (port_dc u)" using u(2) by (simp add: dc_inv_def dc_shape_def)
  obtain d where w: "usbd_ep_write 0x80 None 0 (port_dc u) = Some (0, None, d)" "sends 0 [] (port_dc u) d"
    using ep_write_empty [OF inv, of 0 "0x80" None] by (auto simp: USB_EP_GET_IDX_def)
  have "in_ep d = in_ep (port_dc u)" "out_ep d = out_ep (port_dc u)" using w(2) by (auto simp: sends_def)
  then show ?thesis
    using h w(1) same sends_inv [OF w(2) inv] u(3,4) by (simp add: usbd_send_to_host_def Let_def)
qed

text \<open>From power on: \<open>main\<close>, a bus reset, and SET_CONFIGURATION 1.\<close>

definition regs_at_reset :: usb_regs where
  "regs_at_reset = reset_regs\<lparr>ISTR := 0x0400\<rparr>"

definition regs_at_setup :: usb_regs where
  "regs_at_setup = reset_regs\<lparr>EPR := (replicate 8 0)[0 := 0x8800], PMA := (replicate 256 0)[3 := 8, 64 := 0x0900, 65 := 0x0001]\<rparr>"

lemma regs_events: "read_ISTR lowest_first regs_at_reset = 0x0400" "read_ISTR lowest_first regs_at_setup = 0x8010"
proof -
  have "find (pending_at (replicate 8 0)) [0..<8] = None" by (auto simp: find_None_iff pending_at_def)
  then have "lowest_first (replicate 8 0) = 0" by (simp add: lowest_first_def)
  then show "read_ISTR lowest_first regs_at_reset = 0x0400" by (simp add: read_ISTR_def regs_at_reset_def reset_regs_def)
  have "find (pending_at ((replicate 8 0)[0 := 0x8800])) [0..<8] = Some 0" by (simp add: pending_at_def upt_rec)
  then have "lowest_first ((replicate 8 0)[0 := 0x8800]) = 0x8010" by (simp add: lowest_first_def)
  then show "read_ISTR lowest_first regs_at_setup = 0x8010" by (simp add: read_ISTR_def regs_at_setup_def reset_regs_def)
qed

lemma setup_arrives:
  assumes "dc_shape d" and "in_ep d = (replicate 8 zero_ep)[0 := ep64 0 64]" and "out_ep d = (replicate 8 zero_ep)[0 := ep64 0 128]"
    and "port_dc s = d\<lparr>USB := regs_at_setup\<lparr>EPR := e\<rparr>\<rparr>" and "length e = 8"
  shows "setup_arrived set_configuration_1 s" and "dc_shape (port_dc s)"
proof -
  have ok: "ep_ok zero_ep" "ep_ok (ep64 0 64)" "ep_ok (ep64 0 128)" by (simp_all add: ep_ok_def zero_ep_def ep64_def)
  have "\<forall>e \<in> set (in_ep d) \<union> set (out_ep d). ep_ok e"
    unfolding assms(2,3) using ok by (auto dest!: set_update_subset_insert [THEN subsetD])
  then have inv: "dc_inv (port_dc s)" using assms by (simp add: dc_inv_def dc_shape_def regs_ok_def regs_at_setup_def reset_regs_def)
  then show "dc_shape (port_dc s)" by (simp add: dc_inv_def dc_shape_def)
  have b: "setup_bytes set_configuration_1 = [0, 9, 1, 0, 0, 0, 0, 0]"
    by (simp add: setup_bytes_def set_configuration_1_def LO_BYTE_def HI_BYTE_def)
  have "rx_packet (port_dc s) 0 8 = [0, 9, 1, 0, 0, 0, 0, 0]"
    by (simp add: rx_packet_def pma_bytes_def pma_byte_def Let_def assms(3,4) regs_at_setup_def reset_regs_def ep64_def upt_rec)
  then show "setup_arrived set_configuration_1 s"
    unfolding setup_arrived_def b using inv
    by (simp add: rx_count_def assms(2-4) regs_at_setup_def reset_regs_def ep64_def)
qed

lemma configured_run:
  "\<exists>s. reached lowest_first id env stack s \<and> dc_inv (port_dc s) \<and> rd (in_ep_cb s) 1 = Some (Some usbd_hid_in_handler) \<and>
    rd (out_ep_cb s) 2 = Some (Some (usbd_hid_out_handler env stack)) \<and> dap_inv (application s) \<and>
    in_ep (port_dc s) ! 1 = ep64 3 128 \<and> out_ep (port_dc s) ! 2 = ep64 3 64"
proof -
  have k: "keeps_shape id" by (simp add: keeps_shape_def)
  from main_state [of id env stack] obtain s0 ths where s0: "main_c id (at_reset env stack) = Some (0, s0, ths)"
    "port_dc s0 = snd (usb_dc_init id power_on)" "descriptors s0 = Some cmsis_hid_descriptor" "all_interfaces s0 = [0]"
    "ep_list (interfaces s0 0) = [0, 1]" "endpoints s0 = hid_endpoints env stack" "in_ep_cb s0 = replicate 8 None"
    "out_ep_cb s0 = replicate 8 None" "application s0 = dap_init dap_initial" by auto
  define s1 where "s1 = s0\<lparr>port_dc := (port_dc s0)\<lparr>USB := regs_at_reset\<rparr>\<rparr>"
  have r1: "reached lowest_first id env stack s1"
    unfolding s1_def by (rule reached.peripheral [OF reached.after_main [OF s0(1)]]) (simp add: regs_at_reset_def reset_regs_def)
  have "dc_shape (port_dc s1)" using init_port [OF k] by (simp add: s1_def s0(2) dc_shape_def regs_ok_def regs_at_reset_def reset_regs_def)
  from irq_reset_result [of s1 env stack lowest_first, OF this] init_port [OF k] s0 obtain t where t: "irq_reset lowest_first s1 = Some t"
    "dc_shape (port_dc t)" "pma_offset (port_dc t) = 64" "in_ep (port_dc t) = (replicate 8 zero_ep)[0 := ep64 0 64]"
    "out_ep (port_dc t) = (replicate 8 zero_ep)[0 := ep64 0 128]" "in_ep_cb t = (replicate 8 None)[1 := Some usbd_hid_in_handler]"
    "out_ep_cb t = (replicate 8 None)[2 := Some (usbd_hid_out_handler env stack)]" "descriptors t = Some cmsis_hid_descriptor"
    "application t = dap_init dap_initial"
    by (auto simp: s1_def)
  have "read_ISTR lowest_first (USB (port_dc s1)) = 0x0400" using regs_events(1) by (simp add: s1_def)
  then have "USBD_IRQHandler lowest_first id s1 = Some t" using t(1) by (subst handler_reset)
  then have r2: "reached lowest_first id env stack t" by (rule reached.interrupt [OF r1])
  define s3 where "s3 = t\<lparr>port_dc := (port_dc t)\<lparr>USB := regs_at_setup\<rparr>\<rparr>"
  have r3: "reached lowest_first id env stack s3"
    unfolding s3_def by (rule reached.peripheral [OF r2]) (simp add: regs_at_setup_def reset_regs_def)
  let ?e = "(replicate 8 0)[0 := 0x8800 :: u16]"
  have e: "EPR regs_at_setup = ?e" by (simp add: regs_at_setup_def)
  define d where "d = (port_dc t)\<lparr>USB := regs_at_setup\<lparr>EPR := ?e[0 := clear_ctr_rx 0x8800]\<rparr>\<rparr>"
  define u where "u = s3\<lparr>port_dc := d\<rparr>"
  have clear: "on_regs (PCD_CLEAR_RX_EP_CTR 0) s3 = Some u"
    by (simp add: on_regs_def on_usb_def clear_rx_ctr.acts s3_def e u_def d_def)
  have "port_dc u = (port_dc t)\<lparr>USB := regs_at_setup\<lparr>EPR := ?e[0 := clear_ctr_rx 0x8800]\<rparr>\<rparr>" by (simp add: u_def d_def)
  note arrived = setup_arrives [OF t(2,4,5) this, simplified]
  have data: "ep0_data_buf u = Null" using reset_data [OF t(1)] main_data [OF s0(1)] by (simp add: u_def s3_def s1_def)
  from setup_configures [OF arrived] t(3-5,8) data obtain v where v: "usbd_ep0_setup_handler u = Some v" "dc_inv (port_dc v)"
    "in_ep_cb v = in_ep_cb t" "out_ep_cb v = out_ep_cb t" "application v = application t" "in_ep (port_dc v) ! 1 = ep64 3 128"
    "out_ep (port_dc v) ! 2 = ep64 3 64"
    by (auto simp: u_def d_def s3_def)
  let ?x = "v\<lparr>port_dc := (port_dc v)\<lparr>USB := (USB (port_dc v))\<lparr>EPR := (EPR (USB (port_dc v)))[0 := set_stat_rx 0x3000 (EPR (USB (port_dc v)) ! 0)]\<rparr>\<rparr>\<rparr>"
  have lv: "length (EPR (USB (port_dc v))) = 8" using v(2) by (simp add: dc_inv_def regs_ok_def)
  then have arm: "on_regs (PCD_SET_EP_RX_STATUS 0 0x3000) v = Some ?x"
    by (simp add: on_regs_def on_usb_def rx_status.acts)
  have "usbd_event_notify_handler USBD_EVENT_SETUP_NOTIFY 0 u = Some v" using v(1) by (simp add: usbd_event_notify_handler_def)
  then have out: "ctr_ep0_out s3 = Some ?x"
    using clear arm by (simp add: ctr_ep0_out_def PCD_GET_ENDPOINT_def rd_def s3_def e)
  have lu: "length (epr u) = 8" by (simp add: u_def d_def epr_def)
  have "pend_set ?e \<subseteq> {(0, 15)}" by (auto simp: pend_set_def nth_list_update split: if_split_asm)
  then have "pend_set (epr u) = {}" using pend_set_clear(1) [of ?e 0] by (auto simp: u_def d_def epr_def)
  moreover have "pend.rel u ?x" using pend.rel_trans [OF pend.ep0_setup_rel [OF v(1)] on_regs_pend [OF arm rx_status.quiet]] .
  ultimately have "read_ISTR lowest_first (USB (port_dc ?x)) AND 0x8000 = 0"
    using lf.ctr_pending [of ?x] pend_rel_epr [of u ?x] lu by simp
  from handler_setup [OF _ out this] regs_events(2) have "USBD_IRQHandler lowest_first id s3 = Some ?x" by (simp add: s3_def)
  then have "reached lowest_first id env stack ?x" by (rule reached.interrupt [OF r3])
  moreover have "dc_inv (port_dc ?x)" using dc_inv_EPR [OF v(2)] lv by simp
  moreover have "dap_inv (dap_init dap_initial)" by (intro dap_inv_init dap_inv_initial)
  ultimately show ?thesis using v(3-7) t(6,7,9) by (intro exI [of _ ?x]) (simp add: rd_def)
qed

theorem irq_loop_terminates_witness:
  "\<exists>s t w'. reached lowest_first id (\<lambda>_. 0) (replicate 64 0) s \<and> EPR (USB (port_dc s)) = [0, 0x0080, 0x8000, 0, 0, 0, 0, 0] \<and>
     out_ep_cb s ! 2 = Some (usbd_hid_out_handler (\<lambda>_. 0) (replicate 64 0)) \<and> in_ep_cb s ! 1 = Some usbd_hid_in_handler \<and>
     ctr_loop lowest_first 16 0 s = Some (Inr (w', t)) \<and> (\<forall>i < 8. EPR (USB (port_dc t)) ! i AND 0x8080 = 0)"
proof -
  let ?env = "\<lambda>_. 0" and ?stack = "replicate 64 0" and ?e = "[0, 0x0080, 0x8000, 0, 0, 0, 0, 0] :: u16 list"
  obtain s where s: "reached lowest_first id ?env ?stack s" "dc_inv (port_dc s)" "rd (in_ep_cb s) 1 = Some (Some usbd_hid_in_handler)"
    "rd (out_ep_cb s) 2 = Some (Some (usbd_hid_out_handler ?env ?stack))" "dap_inv (application s)"
    "in_ep (port_dc s) ! 1 = ep64 3 128" "out_ep (port_dc s) ! 2 = ep64 3 64"
    using configured_run [of ?env ?stack] by (elim exE conjE) (rule that)
  define r where "r = reset_regs\<lparr>EPR := ?e, PMA := (replicate 256 0)[11 := 3]\<rparr>"
  define x where "x = s\<lparr>port_dc := (port_dc s)\<lparr>USB := r\<rparr>\<rparr>"
  have re: "reached lowest_first id ?env ?stack x"
    unfolding x_def by (rule reached.peripheral [OF s(1)]) (simp add: r_def)
  have "dc_inv (port_dc x)" using s(2) by (simp add: x_def r_def dc_inv_def regs_ok_def reset_regs_def)
  moreover have "report_ok (port_dc x)"
  proof -
    have n: "rx_count (port_dc x) 2 = 3" by (simp add: rx_count_def x_def r_def)
    have "rx_packet (port_dc x) 2 3 ! 0 = 0"
      by (simp add: rx_packet_def pma_bytes_def pma_byte_def x_def r_def s(7) ep64_def Let_def)
    with n show ?thesis by (simp add: report_ok_def x_def s(7) ep64_def)
  qed
  moreover have "pend_set (epr x) \<subseteq> {(1, 7), (2, 15)}"
    by (auto simp: pend_set_def epr_def x_def r_def nth_Cons' less_Suc_eq numeral_eq_Suc split: if_split_asm)
  ultimately have tr: "report_traffic ?env ?stack x"
    using s by (simp add: report_traffic_def x_def ep64_def)
  have k: "keeps_shape id" by (simp add: keeps_shape_def)
  from irq_loop_terminates [OF lf.ctr_arbiter_axioms k re, of 0] tr obtain t w' where
    t: "ctr_loop lowest_first 16 0 x = Some (Inr (w', t))" "\<forall>i < 8. EPR (USB (port_dc t)) ! i AND 0x8080 = 0"
    by (auto split: if_split_asm)
  from s(3,4) have "out_ep_cb x ! 2 = Some (usbd_hid_out_handler ?env ?stack)" "in_ep_cb x ! 1 = Some usbd_hid_in_handler"
    by (auto simp: x_def rd_def split: if_split_asm)
  moreover have "EPR (USB (port_dc x)) = ?e" by (simp add: x_def r_def)
  ultimately show ?thesis using re t by blast
qed

end
