(* ===== verification/Mem.thy ===== *)
theory Mem imports Prelude begin

text \<open>
  The small-memory heap of the kernel (mem.c): every block starts with a 12-byte header in the heap
  itself. Memory is a function from addresses to bytes, headers are read from and written to it; the
  user's data lie between them. An \<open>RT_ASSERT\<close> that fails stops the system and is \<open>None\<close>, and so is
  waiting for the heap's semaphore, which nobody else would release.
\<close>

subsection \<open>Memory and block headers\<close>

type_synonym memory = "u32 \<Rightarrow> u8"

record heap_mem =
  h_magic :: u16
  h_used :: u16
  h_next :: u32
  h_prev :: u32

definition load16 :: "memory \<Rightarrow> u32 \<Rightarrow> u16" where
  "load16 m p = ucast (le16 (m p) (m (p + 1)))"

definition load32 :: "memory \<Rightarrow> u32 \<Rightarrow> u32" where
  "load32 m p = le32 (m p) (m (p + 1)) (m (p + 2)) (m (p + 3))"

definition load_hdr :: "memory \<Rightarrow> u32 \<Rightarrow> heap_mem" where
  "load_hdr m p = \<lparr>h_magic = load16 m p, h_used = load16 m (p + 2), h_next = load32 m (p + 4), h_prev = load32 m (p + 8)\<rparr>"

definition hdr_bytes :: "heap_mem \<Rightarrow> u8 list" where
  "hdr_bytes b = [byte_of 0 (ucast (h_magic b)), byte_of 1 (ucast (h_magic b)), byte_of 0 (ucast (h_used b)), byte_of 1 (ucast (h_used b)),
     byte_of 0 (h_next b), byte_of 1 (h_next b), byte_of 2 (h_next b), byte_of 3 (h_next b),
     byte_of 0 (h_prev b), byte_of 1 (h_prev b), byte_of 2 (h_prev b), byte_of 3 (h_prev b)]"

definition store_hdr :: "u32 \<Rightarrow> heap_mem \<Rightarrow> memory \<Rightarrow> memory" where
  "store_hdr p b m = (\<lambda>x. if unat (x - p) < 12 then hdr_bytes b ! unat (x - p) else m x)"

definition SIZEOF_STRUCT_MEM :: u32 where "SIZEOF_STRUCT_MEM = 12"

definition MIN_SIZE :: u32 where "MIN_SIZE = 12"

definition HEAP_MAGIC :: u16 where "HEAP_MAGIC = 0x1ea0"

definition RT_ALIGN :: "u32 \<Rightarrow> u32 \<Rightarrow> u32" where "RT_ALIGN sz align = (sz + align - 1) AND NOT (align - 1)"

definition RT_ALIGN_DOWN :: "u32 \<Rightarrow> u32 \<Rightarrow> u32" where "RT_ALIGN_DOWN sz align = sz AND NOT (align - 1)"

definition MIN_SIZE_ALIGNED :: u32 where "MIN_SIZE_ALIGNED = RT_ALIGN MIN_SIZE 4"

subsection \<open>State\<close>

record heap =
  memory :: memory
  heap_ptr :: u32
  heap_end :: u32
  lfree :: u32
  heap_sem :: u16
  mem_size_aligned :: u32
  used_mem :: u32
  max_mem :: u32

definition hdr :: "heap \<Rightarrow> u32 \<Rightarrow> heap_mem" where
  "hdr h p = load_hdr (memory h) p"

definition set_hdr :: "u32 \<Rightarrow> (heap_mem \<Rightarrow> heap_mem) \<Rightarrow> heap \<Rightarrow> heap" where
  "set_hdr p f h = h\<lparr>memory := store_hdr p (f (hdr h p)) (memory h)\<rparr>"

definition take_heap_sem :: "heap \<Rightarrow> heap option" where
  "take_heap_sem h = (if heap_sem h > 0 then Some (h\<lparr>heap_sem := heap_sem h - 1\<rparr>) else None)"

definition release_heap_sem :: "heap \<Rightarrow> heap" where
  "release_heap_sem h = h\<lparr>heap_sem := heap_sem h + 1\<rparr>"

definition add_used :: "u32 \<Rightarrow> heap \<Rightarrow> heap" where
  "add_used n h =
     (let h = h\<lparr>used_mem := used_mem h + n\<rparr>
      in if max_mem h < used_mem h then h\<lparr>max_mem := used_mem h\<rparr> else h)"

subsection \<open>Operations\<close>

text \<open>The two halves of \<open>plug_holes\<close>: joining with the next and with the previous block.\<close>

definition plug_forward :: "u32 \<Rightarrow> heap \<Rightarrow> heap" where
  "plug_forward mem h =
     (let nmem = heap_ptr h + h_next (hdr h mem) in
      if mem \<noteq> nmem \<and> h_used (hdr h nmem) = 0 \<and> nmem \<noteq> heap_end h
      then let h = (if lfree h = nmem then h\<lparr>lfree := mem\<rparr> else h);
               h = set_hdr mem (\<lambda>b. b\<lparr>h_next := h_next (hdr h nmem)\<rparr>) h
           in set_hdr (heap_ptr h + h_next (hdr h nmem)) (\<lambda>b. b\<lparr>h_prev := mem - heap_ptr h\<rparr>) h
      else h)"

definition plug_backward :: "u32 \<Rightarrow> heap \<Rightarrow> heap" where
  "plug_backward mem h =
     (let pmem = heap_ptr h + h_prev (hdr h mem) in
      if pmem \<noteq> mem \<and> h_used (hdr h pmem) = 0
      then let h = (if lfree h = mem then h\<lparr>lfree := pmem\<rparr> else h);
               h = set_hdr pmem (\<lambda>b. b\<lparr>h_next := h_next (hdr h mem)\<rparr>) h
           in set_hdr (heap_ptr h + h_next (hdr h mem)) (\<lambda>b. b\<lparr>h_prev := pmem - heap_ptr h\<rparr>) h
      else h)"

definition plug_holes :: "u32 \<Rightarrow> heap \<Rightarrow> heap option" where
  "plug_holes mem h =
     (if \<not> (heap_ptr h \<le> mem \<and> mem < heap_end h \<and> h_used (hdr h mem) = 0) then None
      else Some (plug_backward mem (plug_forward mem h)))"

text \<open>With an error (a range that is too small) nothing is initialised.\<close>

definition rt_system_heap_init :: "u32 \<Rightarrow> u32 \<Rightarrow> heap \<Rightarrow> heap" where
  "rt_system_heap_init begin_addr end_addr h =
     (let begin_align = RT_ALIGN begin_addr 4; end_align = RT_ALIGN_DOWN end_addr 4 in
      if end_align > 2 * SIZEOF_STRUCT_MEM \<and> end_align - 2 * SIZEOF_STRUCT_MEM \<ge> begin_align
      then let h = h\<lparr>mem_size_aligned := end_align - begin_align - 2 * SIZEOF_STRUCT_MEM\<rparr>;
               h = h\<lparr>heap_ptr := begin_align\<rparr>;
               nxt = mem_size_aligned h + SIZEOF_STRUCT_MEM;
               h = set_hdr (heap_ptr h) (\<lambda>b. \<lparr>h_magic = HEAP_MAGIC, h_used = 0, h_next = nxt, h_prev = 0\<rparr>) h;
               h = h\<lparr>heap_end := heap_ptr h + h_next (hdr h (heap_ptr h))\<rparr>;
               h = set_hdr (heap_end h) (\<lambda>b. \<lparr>h_magic = HEAP_MAGIC, h_used = 1, h_next = nxt, h_prev = nxt\<rparr>) h;
               h = h\<lparr>heap_sem := 1\<rparr>
           in h\<lparr>lfree := heap_ptr h\<rparr>
      else h)"

text \<open>The loop that moves \<open>lfree\<close> to the next free block.\<close>

partial_function (option) next_free :: "heap \<Rightarrow> u32 \<Rightarrow> u32 option" where
  "next_free h p = (if h_used (hdr h p) \<noteq> 0 \<and> p \<noteq> heap_end h then next_free h (heap_ptr h + h_next (hdr h p)) else Some p)"

text \<open>Marking the block that was found as used, and splitting it if the rest can hold a block.\<close>

definition malloc_mark :: "u32 \<Rightarrow> u32 \<Rightarrow> heap \<Rightarrow> heap" where
  "malloc_mark sz ptr h =
     (let mem = heap_ptr h + ptr in
      if h_next (hdr h mem) - (ptr + SIZEOF_STRUCT_MEM) \<ge> sz + SIZEOF_STRUCT_MEM + MIN_SIZE_ALIGNED
      then let ptr2 = ptr + SIZEOF_STRUCT_MEM + sz;
               mem2 = heap_ptr h + ptr2;
               h = set_hdr mem2 (\<lambda>b. \<lparr>h_magic = HEAP_MAGIC, h_used = 0, h_next = h_next (hdr h mem), h_prev = ptr\<rparr>) h;
               h = set_hdr mem (\<lambda>b. b\<lparr>h_next := ptr2, h_used := 1\<rparr>) h;
               h = (if h_next (hdr h mem2) \<noteq> mem_size_aligned h + SIZEOF_STRUCT_MEM
                    then set_hdr (heap_ptr h + h_next (hdr h mem2)) (\<lambda>b. b\<lparr>h_prev := ptr2\<rparr>) h else h)
           in add_used (sz + SIZEOF_STRUCT_MEM) h
      else let h = set_hdr mem (\<lambda>b. b\<lparr>h_used := 1\<rparr>) h
           in add_used (h_next (hdr h mem) - (mem - heap_ptr h)) h)"

text \<open>What \<open>rt_malloc\<close> does with the block it has found, to the end of the function.\<close>

definition malloc_take :: "u32 \<Rightarrow> u32 \<Rightarrow> heap \<Rightarrow> (u32 \<times> heap) option" where
  "malloc_take sz ptr h =
     (let mem = heap_ptr h + ptr;
          h = malloc_mark sz ptr h;
          h = set_hdr mem (\<lambda>b. b\<lparr>h_magic := HEAP_MAGIC\<rparr>) h
      in do { h \<leftarrow> (if mem = lfree h
                   then do { f \<leftarrow> next_free h (lfree h);
                             let h = h\<lparr>lfree := f\<rparr>;
                             if lfree h = heap_end h \<or> h_used (hdr h (lfree h)) = 0 then Some h else None }
                   else Some h);
              let h = release_heap_sem h;
              if mem + SIZEOF_STRUCT_MEM + sz \<le> heap_end h \<and> (mem + SIZEOF_STRUCT_MEM) mod 4 = 0 \<and> mem AND 3 = 0
              then Some (mem + SIZEOF_STRUCT_MEM, h) else None })"

text \<open>The search loop from the offset \<open>ptr\<close>; \<open>None\<close> if it does not end.\<close>

partial_function (option) malloc_loop :: "u32 \<Rightarrow> u32 \<Rightarrow> heap \<Rightarrow> (u32 \<times> heap) option" where
  "malloc_loop sz ptr h =
     (if ptr < mem_size_aligned h - sz
      then let mem = heap_ptr h + ptr in
           if h_used (hdr h mem) = 0 \<and> h_next (hdr h mem) - (ptr + SIZEOF_STRUCT_MEM) \<ge> sz
           then malloc_take sz ptr h
           else malloc_loop sz (h_next (hdr h mem)) h
      else Some (0, release_heap_sem h))"

declare next_free.simps [code] malloc_loop.simps [code]

definition rt_malloc :: "u32 \<Rightarrow> heap \<Rightarrow> (u32 \<times> heap) option" where
  "rt_malloc sz h =
     (if sz = 0 then Some (0, h)
      else
        let sz = RT_ALIGN sz 4 in
        if sz > mem_size_aligned h then Some (0, h)
        else
          let sz = (if sz < MIN_SIZE_ALIGNED then MIN_SIZE_ALIGNED else sz) in
          do { h \<leftarrow> take_heap_sem h; malloc_loop sz (lfree h - heap_ptr h) h })"

definition rt_free :: "u32 \<Rightarrow> heap \<Rightarrow> heap option" where
  "rt_free rmem h =
     (if rmem = 0 then Some h
      else if \<not> (rmem AND 3 = 0 \<and> rmem \<ge> heap_ptr h \<and> rmem < heap_end h) then None
      else if rmem < heap_ptr h \<or> rmem \<ge> heap_end h then Some h
      else
        let mem = rmem - SIZEOF_STRUCT_MEM in
        do { h \<leftarrow> take_heap_sem h;
             if \<not> (h_used (hdr h mem) \<noteq> 0 \<and> h_magic (hdr h mem) = HEAP_MAGIC) then None
             else do {
               let h = set_hdr mem (\<lambda>b. b\<lparr>h_used := 0, h_magic := HEAP_MAGIC\<rparr>) h;
               let h = (if mem < lfree h then h\<lparr>lfree := mem\<rparr> else h);
               let h = h\<lparr>used_mem := used_mem h - (h_next (hdr h mem) - (mem - heap_ptr h))\<rparr>;
               h \<leftarrow> plug_holes mem h;
               Some (release_heap_sem h) } })"

text \<open>
  \<open>rt_memcpy\<close> and \<open>rt_memset\<close> of kservice.c, in the variant of \<open>RT_USING_TINY_SIZE\<close>: one byte after the
  other, downwards where an upward copy would overwrite bytes not yet copied.
\<close>

fun copy_up :: "u32 \<Rightarrow> u32 \<Rightarrow> nat \<Rightarrow> memory \<Rightarrow> memory" where
  "copy_up tmp s 0 m = m"
| "copy_up tmp s (Suc count) m = copy_up (tmp + 1) (s + 1) count (m(tmp := m s))"

fun copy_down :: "u32 \<Rightarrow> u32 \<Rightarrow> nat \<Rightarrow> memory \<Rightarrow> memory" where
  "copy_down tmp s 0 m = m"
| "copy_down tmp s (Suc len) m = copy_down tmp s len (m(tmp + of_nat len := m (s + of_nat len)))"

definition rt_memcpy :: "u32 \<Rightarrow> u32 \<Rightarrow> u32 \<Rightarrow> memory \<Rightarrow> memory" where
  "rt_memcpy dst src count m =
     (if dst \<le> src \<or> dst > src + count then copy_up dst src (unat count) m else copy_down dst src (unat count) m)"

fun rt_memset :: "u32 \<Rightarrow> u8 \<Rightarrow> nat \<Rightarrow> memory \<Rightarrow> memory" where
  "rt_memset s c 0 m = m"
| "rt_memset s c (Suc count) m = rt_memset (s + 1) c count (m(s := c))"

definition rt_realloc :: "u32 \<Rightarrow> u32 \<Rightarrow> heap \<Rightarrow> (u32 \<times> heap) option" where
  "rt_realloc rmem newsize h =
     (let newsize = RT_ALIGN newsize 4 in
      if newsize > mem_size_aligned h then Some (0, h)
      else if newsize = 0 then do { h \<leftarrow> rt_free rmem h; Some (0, h) }
      else if rmem = 0 then rt_malloc newsize h
      else do {
        h \<leftarrow> take_heap_sem h;
        if rmem < heap_ptr h \<or> rmem \<ge> heap_end h then Some (rmem, release_heap_sem h)
        else
          let mem = rmem - SIZEOF_STRUCT_MEM;
              ptr = mem - heap_ptr h;
              sz = h_next (hdr h mem) - ptr - SIZEOF_STRUCT_MEM
          in
          if sz = newsize then Some (rmem, release_heap_sem h)
          else if newsize + SIZEOF_STRUCT_MEM + MIN_SIZE < sz
          then do {
            let h = h\<lparr>used_mem := used_mem h - (sz - newsize)\<rparr>;
            let ptr2 = ptr + SIZEOF_STRUCT_MEM + newsize;
            let mem2 = heap_ptr h + ptr2;
            let h = set_hdr mem2 (\<lambda>b. \<lparr>h_magic = HEAP_MAGIC, h_used = 0, h_next = h_next (hdr h mem), h_prev = ptr\<rparr>) h;
            let h = set_hdr mem (\<lambda>b. b\<lparr>h_next := ptr2\<rparr>) h;
            let h = (if h_next (hdr h mem2) \<noteq> mem_size_aligned h + SIZEOF_STRUCT_MEM
                     then set_hdr (heap_ptr h + h_next (hdr h mem2)) (\<lambda>b. b\<lparr>h_prev := ptr2\<rparr>) h else h);
            h \<leftarrow> plug_holes mem2 h;
            Some (rmem, release_heap_sem h) }
          else do {
            let h = release_heap_sem h;
            (nmem, h) \<leftarrow> rt_malloc newsize h;
            if nmem \<noteq> 0
            then do {
              let h = h\<lparr>memory := rt_memcpy nmem rmem (if sz < newsize then sz else newsize) (memory h)\<rparr>;
              h \<leftarrow> rt_free rmem h;
              Some (nmem, h) }
            else Some (nmem, h) } })"

definition rt_calloc :: "u32 \<Rightarrow> u32 \<Rightarrow> heap \<Rightarrow> (u32 \<times> heap) option" where
  "rt_calloc count sz h =
     do { (p, h) \<leftarrow> rt_malloc (count * sz) h;
          if p \<noteq> 0 then Some (p, h\<lparr>memory := rt_memset p 0 (unat (count * sz)) (memory h)\<rparr>) else Some (p, h) }"

text \<open>\<open>rt_memory_info\<close>: the three values it writes through its pointers.\<close>

definition rt_memory_info :: "heap \<Rightarrow> u32 \<times> u32 \<times> u32" where
  "rt_memory_info h = (mem_size_aligned h, used_mem h, max_mem h)"

end
