(* ===== verification/MemFacts.thy ===== *)
theory MemFacts imports Mem begin

text \<open>
  Facts on the heap of mem.c: headers in memory, headers by their offset, and the chain of blocks.
\<close>

subsection \<open>Headers in memory\<close>

lemma le16_byte_of: "ucast (le16 (byte_of 0 (ucast w)) (byte_of 1 (ucast w))) = (w :: u16)"
proof (rule bit_word_eqI)
  fix n assume "n < LENGTH(16)"
  then consider "n < 8" | "8 \<le> n" "n < 16" by fastforce
  then show "bit (ucast (le16 (byte_of 0 (ucast w)) (byte_of 1 (ucast w))) :: u16) n = bit w n"
    by cases (auto simp: le16_def bit_simps bit_byte_of)
qed

lemma unat_add_diff: "k < 2 ^ 32 \<Longrightarrow> unat (p + of_nat k - p) = k" for p :: u32
  by (simp add: unat_of_nat)

lemma store_hdr_at: "k < 12 \<Longrightarrow> store_hdr p b m (p + of_nat k) = hdr_bytes b ! k"
  using unat_add_diff [of k p] by (simp add: store_hdr_def)

lemma load_store_hdr [simp]: "load_hdr (store_hdr p b m) p = b"
proof -
  have "store_hdr p b m p = hdr_bytes b ! 0" "store_hdr p b m (p + 1) = hdr_bytes b ! 1" "store_hdr p b m (p + 2) = hdr_bytes b ! 2"
    "store_hdr p b m (p + 3) = hdr_bytes b ! 3" "store_hdr p b m (p + 4) = hdr_bytes b ! 4" "store_hdr p b m (p + 5) = hdr_bytes b ! 5"
    "store_hdr p b m (p + 6) = hdr_bytes b ! 6" "store_hdr p b m (p + 7) = hdr_bytes b ! 7" "store_hdr p b m (p + 8) = hdr_bytes b ! 8"
    "store_hdr p b m (p + 9) = hdr_bytes b ! 9" "store_hdr p b m (p + 10) = hdr_bytes b ! 10" "store_hdr p b m (p + 11) = hdr_bytes b ! 11"
    using store_hdr_at [of 0 p b m] store_hdr_at [of 1 p b m] store_hdr_at [of 2 p b m] store_hdr_at [of 3 p b m]
      store_hdr_at [of 4 p b m] store_hdr_at [of 5 p b m] store_hdr_at [of 6 p b m] store_hdr_at [of 7 p b m]
      store_hdr_at [of 8 p b m] store_hdr_at [of 9 p b m] store_hdr_at [of 10 p b m] store_hdr_at [of 11 p b m] by simp_all
  then show ?thesis
    by (simp add: load_hdr_def load16_def load32_def add.assoc hdr_bytes_def le16_byte_of [simplified] le32_byte_of [simplified])
qed

lemma unat_diff_nat:
  assumes "a < 2 ^ 32" and "b < 2 ^ 32"
  shows "unat (of_nat a - of_nat b :: u32) = (if b \<le> a then a - b else 2 ^ 32 + a - b)"
proof (cases "b \<le> a")
  case True
  then have "(of_nat a - of_nat b :: u32) = of_nat (a - b)" by (rule of_nat_diff [symmetric])
  then show ?thesis using True assms by (simp only: unat_of_nat) simp
next
  case False
  have "(of_nat (2 ^ 32 + a) :: u32) = of_nat a" unfolding word_unat_eq_iff unat_of_nat by simp
  then have "(of_nat a - of_nat b :: u32) = of_nat (2 ^ 32 + a - b)"
    using of_nat_diff [of b "2 ^ 32 + a", where 'a = u32] assms(2) by (simp only:)
  then show ?thesis using False assms by (simp only: unat_of_nat) simp
qed

lemma unat_diff: "unat (p - q) = (if unat q \<le> unat p then unat p - unat q else 2 ^ 32 + unat p - unat q)" for p q :: u32
  using unat_diff_nat [of "unat p" "unat q"] unsigned_less [of p, where 'a = nat] unsigned_less [of q, where 'a = nat] by simp

definition apart12 :: "u32 \<Rightarrow> u32 \<Rightarrow> bool" where
  "apart12 p q \<longleftrightarrow> 12 \<le> unat (p - q) \<and> 12 \<le> unat (q - p)"

lemma store_hdr_outside: "12 \<le> unat (x - p) \<Longrightarrow> store_hdr p b m x = m x"
  by (simp add: store_hdr_def)

lemma store_hdr_apart:
  assumes "apart12 p q" and "k < 12"
  shows "store_hdr q b m (p + of_nat k) = m (p + of_nat k)"
proof (rule store_hdr_outside)
  have lt: "unat p < 2 ^ 32" "unat q < 2 ^ 32" using unsigned_less [of p, where 'a = nat] unsigned_less [of q, where 'a = nat] by simp_all
  have d: "12 \<le> unat (p - q)" "unat (p - q) + 12 \<le> 2 ^ 32"
    using assms(1) lt unfolding apart12_def unat_diff [of p q] unat_diff [of q p] by (auto split: if_split_asm)
  have "p + of_nat k - q = (p - q) + of_nat k" by simp
  moreover have "unat ((p - q) + of_nat k) = unat (p - q) + k"
    using d assms(2) by (simp only: unat_word_ariths(1)) (simp add: unat_of_nat)
  ultimately show "12 \<le> unat (p + of_nat k - q)" using d by (simp only:)
qed

lemma load_store_hdr_apart:
  assumes "apart12 p q" shows "load_hdr (store_hdr q b m) p = load_hdr m p"
proof -
  have "store_hdr q b m p = m p" using store_hdr_apart [OF assms, of 0] by simp
  moreover have "store_hdr q b m (p + 1) = m (p + 1)" "store_hdr q b m (p + 2) = m (p + 2)" "store_hdr q b m (p + 3) = m (p + 3)"
    "store_hdr q b m (p + 4) = m (p + 4)" "store_hdr q b m (p + 5) = m (p + 5)" "store_hdr q b m (p + 6) = m (p + 6)"
    "store_hdr q b m (p + 7) = m (p + 7)" "store_hdr q b m (p + 8) = m (p + 8)" "store_hdr q b m (p + 9) = m (p + 9)"
    "store_hdr q b m (p + 10) = m (p + 10)" "store_hdr q b m (p + 11) = m (p + 11)"
    using store_hdr_apart [OF assms, of 1] store_hdr_apart [OF assms, of 2] store_hdr_apart [OF assms, of 3]
      store_hdr_apart [OF assms, of 4] store_hdr_apart [OF assms, of 5] store_hdr_apart [OF assms, of 6]
      store_hdr_apart [OF assms, of 7] store_hdr_apart [OF assms, of 8] store_hdr_apart [OF assms, of 9]
      store_hdr_apart [OF assms, of 10] store_hdr_apart [OF assms, of 11] by simp_all
  ultimately show ?thesis by (simp add: load_hdr_def load16_def load32_def add.assoc)
qed

subsection \<open>Headers by offset\<close>

definition room :: "heap \<Rightarrow> nat" where
  "room h = unat (mem_size_aligned h) + 12"

definition heap_shape :: "heap \<Rightarrow> bool" where
  "heap_shape h \<longleftrightarrow> heap_ptr h \<noteq> 0 \<and> heap_ptr h AND 3 = 0 \<and> 4 dvd room h \<and> unat (heap_ptr h) + room h + 12 \<le> 2 ^ 32 \<and>
     heap_end h = heap_ptr h + of_nat (room h) \<and> room h < 2 ^ 32 - 12"

definition blk :: "heap \<Rightarrow> nat \<Rightarrow> heap_mem" where
  "blk h i = hdr h (heap_ptr h + of_nat i)"

lemma of_nat_u32_eq: "i < 2 ^ 32 \<Longrightarrow> j < 2 ^ 32 \<Longrightarrow> (of_nat i :: u32) = of_nat j \<longleftrightarrow> i = j"
  by (simp add: word_unat_eq_iff unat_of_nat)

lemma of_nat_u32_le: "i < 2 ^ 32 \<Longrightarrow> j < 2 ^ 32 \<Longrightarrow> (of_nat i :: u32) \<le> of_nat j \<longleftrightarrow> i \<le> j"
  by (simp add: word_le_nat_alt unat_of_nat)

lemma of_nat_u32_less: "i < 2 ^ 32 \<Longrightarrow> j < 2 ^ 32 \<Longrightarrow> (of_nat i :: u32) < of_nat j \<longleftrightarrow> i < j"
  by (simp add: word_less_nat_alt unat_of_nat)

lemma unat_at: "heap_shape h \<Longrightarrow> i \<le> room h \<Longrightarrow> unat (heap_ptr h + of_nat i) = unat (heap_ptr h) + i"
  by (simp add: heap_shape_def unat_word_ariths unat_of_nat)

lemma at_eq: "heap_shape h \<Longrightarrow> i \<le> room h \<Longrightarrow> j \<le> room h \<Longrightarrow>
    heap_ptr h + of_nat i = heap_ptr h + of_nat j \<longleftrightarrow> i = j"
  by (simp add: word_unat_eq_iff unat_at)

lemma at_less: "heap_shape h \<Longrightarrow> i \<le> room h \<Longrightarrow> j \<le> room h \<Longrightarrow>
    heap_ptr h + of_nat i < heap_ptr h + of_nat j \<longleftrightarrow> i < j"
  by (simp add: word_less_nat_alt unat_at)

lemma at_le: "heap_shape h \<Longrightarrow> i \<le> room h \<Longrightarrow> j \<le> room h \<Longrightarrow>
    heap_ptr h + of_nat i \<le> heap_ptr h + of_nat j \<longleftrightarrow> i \<le> j"
  by (simp add: word_le_nat_alt unat_at)

lemma at_apart:
  assumes "heap_shape h" and "i \<le> room h" and "j \<le> room h" and "i + 12 \<le> j \<or> j + 12 \<le> i"
  shows "apart12 (heap_ptr h + of_nat i) (heap_ptr h + of_nat j)"
proof -
  have b: "room h + 12 < 2 ^ 32" using assms(1) by (simp add: heap_shape_def)
  have "12 \<le> unat (of_nat a - of_nat b :: u32)" if "a \<le> room h" "b \<le> room h" "a + 12 \<le> b \<or> b + 12 \<le> a" for a b
    using that b by (subst unat_diff_nat) auto
  then show ?thesis using assms(2-4) by (auto simp: apart12_def)
qed

lemma set_hdr_fields [simp]:
  "heap_ptr (set_hdr p f h) = heap_ptr h" "heap_end (set_hdr p f h) = heap_end h" "lfree (set_hdr p f h) = lfree h"
  "heap_sem (set_hdr p f h) = heap_sem h" "mem_size_aligned (set_hdr p f h) = mem_size_aligned h"
  "used_mem (set_hdr p f h) = used_mem h" "max_mem (set_hdr p f h) = max_mem h"
  by (simp_all add: set_hdr_def)

lemma hdr_set_same [simp]: "hdr (set_hdr p f h) p = f (hdr h p)"
  by (simp add: hdr_def set_hdr_def)

lemma hdr_fields [simp]:
  "hdr (h\<lparr>lfree := a\<rparr>) p = hdr h p" "hdr (h\<lparr>heap_sem := v\<rparr>) p = hdr h p" "hdr (h\<lparr>used_mem := n\<rparr>) p = hdr h p"
  "hdr (h\<lparr>max_mem := n\<rparr>) p = hdr h p" "hdr (h\<lparr>heap_end := e\<rparr>) p = hdr h p" "hdr (h\<lparr>heap_ptr := e\<rparr>) p = hdr h p"
  "hdr (h\<lparr>mem_size_aligned := n\<rparr>) p = hdr h p"
  by (simp_all add: hdr_def)

lemma shape_fields [simp]:
  "heap_shape (set_hdr p f h) = heap_shape h" "room (set_hdr p f h) = room h"
  by (simp_all add: heap_shape_def room_def)

lemma blk_set:
  assumes "heap_shape h" and "i \<le> room h" and "j \<le> room h" and "i = j \<or> i + 12 \<le> j \<or> j + 12 \<le> i"
  shows "blk (set_hdr (heap_ptr h + of_nat j) f h) i = (if i = j then f (blk h i) else blk h i)"
  using load_store_hdr_apart [OF at_apart [OF assms(1-3)]] assms(4)
  by (auto simp: blk_def hdr_def set_hdr_def)

text \<open>The bytes that a store to a header changes.\<close>

definition span12 :: "heap \<Rightarrow> nat \<Rightarrow> u32 set" where
  "span12 h i = (\<lambda>k. heap_ptr h + of_nat k) ` {i..<i + 12}"

lemma set_hdr_outside:
  assumes "x \<notin> span12 h i"
  shows "memory (set_hdr (heap_ptr h + of_nat i) f h) x = memory h x"
proof -
  let ?d = "unat (x - (heap_ptr h + of_nat i))"
  have "x = heap_ptr h + of_nat (i + ?d)" by simp
  then have "12 \<le> ?d" using assms unfolding span12_def by (metis add_less_cancel_left atLeastLessThan_iff image_eqI le_add1 not_le)
  then show ?thesis by (simp add: set_hdr_def store_hdr_outside)
qed

subsection \<open>The chain of blocks\<close>

text \<open>Blocks with their length, the header included, and whether they are used.\<close>

type_synonym blocks = "(nat \<times> bool) list"

definition tot :: "blocks \<Rightarrow> nat" where "tot bs = sum_list (map fst bs)"

lemma tot_simps [simp]: "tot [] = 0" "tot (b # bs) = fst b + tot bs" "tot (as @ bs) = tot as + tot bs"
  by (simp_all add: tot_def)

fun chain :: "(nat \<Rightarrow> heap_mem) \<Rightarrow> nat \<Rightarrow> nat \<Rightarrow> blocks \<Rightarrow> bool" where
  "chain B p i [] \<longleftrightarrow> True"
| "chain B p i ((n, u) # bs) \<longleftrightarrow> 12 \<le> n \<and> 4 dvd n \<and>
     B i = \<lparr>h_magic = HEAP_MAGIC, h_used = of_bool u, h_next = of_nat (i + n), h_prev = of_nat p\<rparr> \<and> chain B i (i + n) bs"

fun lastp :: "nat \<Rightarrow> nat \<Rightarrow> blocks \<Rightarrow> nat" where
  "lastp p i [] = p"
| "lastp p i (b # bs) = lastp i (i + fst b) bs"

fun starts :: "nat \<Rightarrow> blocks \<Rightarrow> nat list" where
  "starts i [] = []"
| "starts i (b # bs) = i # starts (i + fst b) bs"

definition big :: "blocks \<Rightarrow> bool" where "big bs \<longleftrightarrow> (\<forall>b \<in> set bs. 12 \<le> fst b)"

lemma chain_append: "chain B p i (as @ bs) \<longleftrightarrow> chain B p i as \<and> chain B (lastp p i as) (i + tot as) bs"
  by (induction as arbitrary: p i) (auto simp: add.assoc)

lemma starts_append [simp]: "starts i (as @ bs) = starts i as @ starts (i + tot as) bs"
  by (induction as arbitrary: i) (auto simp: add.assoc)

lemma lastp_append [simp]: "lastp p i (as @ bs) = lastp (lastp p i as) (i + tot as) bs"
  by (induction as arbitrary: p i) (auto simp: add.assoc)

lemma chain_big: "chain B p i bs \<Longrightarrow> big bs"
  by (induction B p i bs rule: chain.induct) (auto simp: big_def)

lemma starts_bounds: "big bs \<Longrightarrow> j \<in> set (starts i bs) \<Longrightarrow> i \<le> j \<and> j + 12 \<le> i + tot bs"
  by (induction bs arbitrary: i) (fastforce simp: big_def)+

lemma chain_cong:
  assumes "\<And>j. j \<in> set (starts i bs) \<Longrightarrow> B' j = B j"
  shows "chain B' p i bs = chain B p i bs"
  using assms by (induction bs arbitrary: p i) auto

text \<open>The block behind a change learns that its predecessor starts elsewhere.\<close>

lemma chain_new_prev:
  assumes "chain B p i bs" and "\<And>j. j \<in> set (starts i bs) \<Longrightarrow> j \<noteq> i \<Longrightarrow> B' j = B j"
    and "bs \<noteq> [] \<Longrightarrow> B' i = (B i)\<lparr>h_prev := of_nat q\<rparr>"
  shows "chain B' q i bs"
proof (cases bs)
  case (Cons b cs)
  obtain n u where b: "b = (n, u)" by (cases b)
  have c: "chain B i (i + n) cs" "12 \<le> n" using assms(1) by (simp_all add: Cons b)
  have "chain B' i (i + n) cs = chain B i (i + n) cs"
  proof (rule chain_cong)
    fix j assume j: "j \<in> set (starts (i + n) cs)"
    then have "j \<noteq> i" using starts_bounds [OF chain_big [OF c(1)] j] c(2) by simp
    with j show "B' j = B j" using assms(2) by (simp add: Cons b)
  qed
  with assms c show ?thesis by (simp add: Cons b)
qed simp

fun first_free :: "nat \<Rightarrow> blocks \<Rightarrow> nat" where
  "first_free i [] = i"
| "first_free i (b # bs) = (if snd b then first_free (i + fst b) bs else i)"

definition used_sum :: "blocks \<Rightarrow> nat" where "used_sum bs = tot (filter snd bs)"

lemma used_sum_simps [simp]: "used_sum [] = 0" "used_sum (b # bs) = (if snd b then fst b else 0) + used_sum bs"
  "used_sum (as @ bs) = used_sum as + used_sum bs"
  by (simp_all add: used_sum_def)

definition coalesced :: "blocks \<Rightarrow> bool" where "coalesced bs \<longleftrightarrow> successively (\<lambda>a b. snd a \<or> snd b) bs"

text \<open>What holds whether or not the semaphore is taken, and the invariant between two operations.\<close>

definition heap_chain :: "heap \<Rightarrow> blocks \<Rightarrow> bool" where
  "heap_chain h bs \<longleftrightarrow> heap_shape h \<and> chain (blk h) 0 0 bs \<and> tot bs = room h \<and> h_used (blk h (room h)) \<noteq> 0"

definition heap_inv :: "heap \<Rightarrow> blocks \<Rightarrow> bool" where
  "heap_inv h bs \<longleftrightarrow> heap_chain h bs \<and> coalesced bs \<and> heap_sem h = 1 \<and> used_mem h = of_nat (used_sum bs) \<and>
     lfree h = heap_ptr h + of_nat (first_free 0 bs) \<and> (\<forall>b \<in> set bs. snd b \<longrightarrow> 12 < fst b)"

lemma big_append [simp]: "big (as @ bs) \<longleftrightarrow> big as \<and> big bs" "big (b # bs) \<longleftrightarrow> 12 \<le> fst b \<and> big bs" "big []"
  by (auto simp: big_def)

lemma starts_apart:
  assumes "big bs" and "j \<in> insert (i + tot bs) (set (starts i bs))" and "k \<in> insert (i + tot bs) (set (starts i bs))"
  shows "j = k \<or> j + 12 \<le> k \<or> k + 12 \<le> j"
  using assms
proof (induction bs arbitrary: i)
  case (Cons b bs)
  have c: "12 \<le> fst b" "big bs" using Cons.prems(1) by simp_all
  have s: "i + tot (b # bs) = (i + fst b) + tot bs" by (simp add: add.assoc)
  have later: "i + 12 \<le> x" if "x \<in> insert ((i + fst b) + tot bs) (set (starts (i + fst b) bs))" for x
    using that c(1) starts_bounds [OF c(2), of x "i + fst b"] by auto
  show ?case
  proof (cases "j = i \<or> k = i")
    case True
    then show ?thesis using Cons.prems(2,3) later unfolding s by (simp only: starts.simps set_simps insert_iff) metis
  next
    case False
    then have "j \<in> insert ((i + fst b) + tot bs) (set (starts (i + fst b) bs))" "k \<in> insert ((i + fst b) + tot bs) (set (starts (i + fst b) bs))"
      using Cons.prems(2,3) unfolding s by auto
    then show ?thesis using Cons.IH [OF c(2)] by blast
  qed
qed simp

lemma blk_set_starts:
  assumes "heap_shape h" and "big bs" and "tot bs = room h"
    and "j \<in> insert (room h) (set (starts 0 bs))" and "k \<in> insert (room h) (set (starts 0 bs))"
  shows "blk (set_hdr (heap_ptr h + of_nat j) f h) k = (if k = j then f (blk h k) else blk h k)"
proof -
  have "j \<le> room h" "k \<le> room h" using starts_bounds [OF assms(2), of _ 0] assms(3-5) by fastforce+
  then show ?thesis using blk_set [OF assms(1), of k j f] starts_apart [OF assms(2), of j 0 k] assms(3-5) by auto
qed

lemma first_free_append:
  "first_free i (as @ bs) = (if \<forall>b \<in> set as. snd b then first_free (i + tot as) bs else first_free i as)"
  by (induction as arbitrary: i) (auto simp: add.assoc)

lemma first_free_less: "big bs \<Longrightarrow> \<not> (\<forall>b \<in> set bs. snd b) \<Longrightarrow> first_free i bs + 12 \<le> i + tot bs"
proof (induction bs arbitrary: i)
  case (Cons b bs)
  from Cons.IH [of "i + fst b"] Cons.prems show ?case by (cases "snd b") auto
qed simp

lemma first_free_unused: "chain B p i bs \<Longrightarrow> first_free i bs = i + tot bs \<or> h_used (B (first_free i bs)) = 0"
  by (induction B p i bs rule: chain.induct) (auto simp: add.assoc)

lemma first_free_bounds: "i \<le> first_free i bs \<and> first_free i bs \<le> i + tot bs"
proof (induction bs arbitrary: i)
  case (Cons b bs)
  from Cons.IH [of "i + fst b"] show ?case by auto
qed simp

lemma and_3_dvd: "p AND 3 = 0 \<longleftrightarrow> 4 dvd unat p" for p :: u32
proof -
  have m: "(3 :: u32) = mask 2" by (simp add: mask_eq_exp_minus_1)
  have "unat (p AND 3) = take_bit 2 (unat p)" unfolding m take_bit_eq_mask [symmetric] by (rule unsigned_take_bit_eq)
  then have "unat (p AND 3) = unat p mod 4" by (simp add: take_bit_eq_mod)
  then show ?thesis by (simp add: unat_eq_zero [symmetric] dvd_eq_mod_eq_0)
qed

lemma mod_4_dvd: "p mod 4 = 0 \<longleftrightarrow> 4 dvd unat p" for p :: u32
  using unat_mod [of p 4] by (simp add: unat_eq_zero [symmetric] dvd_eq_mod_eq_0)

lemma chain_dvd: "chain B p i bs \<Longrightarrow> 4 dvd tot bs"
  by (induction B p i bs rule: chain.induct) auto

end
