(* ===== verification/MemAlloc.thy ===== *)
theory MemAlloc imports MemFacts begin

text \<open>
  \<open>rt_malloc\<close> against the allocation on the list of blocks.
\<close>

subsection \<open>The search\<close>

text \<open>Specification: the first free block that starts before \<open>lim\<close> and has room for \<open>s\<close> bytes.\<close>

fun find_fit :: "nat \<Rightarrow> nat \<Rightarrow> nat \<Rightarrow> blocks \<Rightarrow> (blocks \<times> nat \<times> blocks) option" where
  "find_fit lim s i [] = None"
| "find_fit lim s i (b # bs) =
     (if lim \<le> i then None
      else if \<not> snd b \<and> s + 12 \<le> fst b then Some ([], fst b, bs)
      else map_option (\<lambda>(as, n, cs). (b # as, n, cs)) (find_fit lim s (i + fst b) bs))"

lemma find_fit_Some:
  "find_fit lim s i bs = Some (as, n, cs) \<Longrightarrow> bs = as @ (n, False) # cs \<and> s + 12 \<le> n \<and> i + tot as < lim"
  by (induction lim s i bs arbitrary: as rule: find_fit.induct) (auto split: if_split_asm)

lemma chain_next: "chain B p i ((n, u) # bs) \<Longrightarrow> h_next (B i) = of_nat (i + n) \<and> h_used (B i) = of_bool u"
  by simp

lemma of_bool_u16 [simp]: "of_bool u = (0 :: u16) \<longleftrightarrow> \<not> u"
  by simp

lemma malloc_loop_finds:
  assumes "heap_shape h" and "chain (blk h) p i bs" and "i + tot bs = room h" and "unat sz + 12 \<le> room h"
  shows "malloc_loop sz (of_nat i) h =
    (case find_fit (room h - 12 - unat sz) (unat sz) i bs of
       None \<Rightarrow> Some (0, release_heap_sem h)
     | Some (as, n, cs) \<Rightarrow> malloc_take sz (of_nat (i + tot as)) h)"
  using assms(2,3)
proof (induction bs arbitrary: p i)
  have R: "room h < 2 ^ 32 - 12" "heap_shape h" using assms(1) by (simp_all add: heap_shape_def)
  have m: "mem_size_aligned h = of_nat (room h - 12)" by (simp add: room_def)
  have lim: "mem_size_aligned h - sz = of_nat (room h - 12 - unat sz)"
    unfolding m using of_nat_diff [of "unat sz" "room h - 12", where 'a = u32] assms(4) by simp
  {
    case Nil
    have "\<not> (of_nat i :: u32) < mem_size_aligned h - sz"
      unfolding lim using of_nat_u32_less [of i "room h - 12 - unat sz"] R Nil by simp
    then show ?case by (simp add: malloc_loop.simps [of sz "of_nat i"])
  next
    case (Cons b bs)
    obtain n u where b: "b = (n, u)" by (cases b)
    have c: "12 \<le> n" "blk h i = \<lparr>h_magic = HEAP_MAGIC, h_used = of_bool u, h_next = of_nat (i + n), h_prev = of_nat p\<rparr>"
      "chain (blk h) i (i + n) bs" "(i + n) + tot bs = room h"
      using Cons.prems by (simp_all add: b)
    have H: "hdr h (heap_ptr h + of_nat i) = \<lparr>h_magic = HEAP_MAGIC, h_used = of_bool u, h_next = of_nat (i + n), h_prev = of_nat p\<rparr>"
      using c(2) by (simp add: blk_def)
    have guard: "(of_nat i :: u32) < mem_size_aligned h - sz \<longleftrightarrow> i < room h - 12 - unat sz"
      unfolding lim using R c(4) by (intro of_nat_u32_less) auto
    have d: "(of_nat (i + n) :: u32) - (of_nat i + SIZEOF_STRUCT_MEM) = of_nat (n - 12)"
      using c(1) by (simp add: SIZEOF_STRUCT_MEM_def)
    have fits: "sz \<le> of_nat (i + n) - (of_nat i + SIZEOF_STRUCT_MEM) \<longleftrightarrow> unat sz + 12 \<le> n"
    proof -
      have "unat (of_nat (n - 12) :: u32) = n - 12" unfolding unat_of_nat using R c(1,4) by (intro mod_less) simp
      then show ?thesis unfolding d word_le_nat_alt using c(1) by auto
    qed
    show ?case
      unfolding malloc_loop.simps [of sz "of_nat i"] guard Let_def H
      using Cons.IH [OF c(3,4)] fits
      by (auto simp: b add.assoc split: option.split)
  }
qed

lemma next_free_finds:
  assumes "heap_shape h" and "chain (blk h) p i bs" and "i + tot bs = room h"
  shows "next_free h (heap_ptr h + of_nat i) = Some (heap_ptr h + of_nat (first_free i bs))"
  using assms(2,3)
proof (induction bs arbitrary: p i)
  case Nil
  then have "heap_ptr h + of_nat i = heap_end h" using assms(1) by (simp add: heap_shape_def)
  then show ?case by (simp add: next_free.simps)
next
  case (Cons b bs)
  obtain n u where b: "b = (n, u)" by (cases b)
  have c: "12 \<le> n" "blk h i = \<lparr>h_magic = HEAP_MAGIC, h_used = of_bool u, h_next = of_nat (i + n), h_prev = of_nat p\<rparr>"
    "chain (blk h) i (i + n) bs" "(i + n) + tot bs = room h"
    using Cons.prems by (simp_all add: b)
  have H: "hdr h (heap_ptr h + of_nat i) = \<lparr>h_magic = HEAP_MAGIC, h_used = of_bool u, h_next = of_nat (i + n), h_prev = of_nat p\<rparr>"
    using c(2) by (simp add: blk_def)
  have "heap_ptr h + of_nat i \<noteq> heap_end h"
    using at_eq [OF assms(1), of i "room h"] c(1,4) assms(1) by (simp add: heap_shape_def)
  then show ?case
    unfolding next_free.simps [of h "heap_ptr h + of_nat i"] H using Cons.IH [OF c(3,4)] by (simp add: b add.assoc)
qed

subsection \<open>The block that was found\<close>

definition split_block :: "nat \<Rightarrow> nat \<Rightarrow> blocks" where
  "split_block s n = (if s + 36 \<le> n then [(s + 12, True), (n - 12 - s, False)] else [(n, True)])"

text \<open>Only headers are written: those of the blocks \<open>bs\<close> and of the end mark.\<close>

definition header_area :: "heap \<Rightarrow> blocks \<Rightarrow> u32 set" where
  "header_area h bs = (\<Union>i \<in> insert (room h) (set (starts 0 bs)). span12 h i)"

definition touches :: "blocks \<Rightarrow> heap \<Rightarrow> heap \<Rightarrow> bool" where
  "touches bs h h' \<longleftrightarrow> heap_ptr h' = heap_ptr h \<and> mem_size_aligned h' = mem_size_aligned h \<and> heap_end h' = heap_end h \<and>
     (\<forall>x. x \<notin> header_area h bs \<longrightarrow> memory h' x = memory h x)"

lemma touches_refl [simp]: "touches bs h h"
  by (simp add: touches_def)

lemma touches_set_hdr:
  assumes "touches bs h g" and "j \<in> insert (room h) (set (starts 0 bs))" and "p = heap_ptr h + of_nat j"
  shows "touches bs h (set_hdr p f g)"
proof -
  have "memory (set_hdr p f g) x = memory h x" if "x \<notin> header_area h bs" for x
  proof -
    have "x \<notin> span12 g j" using that assms(1,2) by (auto simp: header_area_def span12_def touches_def)
    then show ?thesis using set_hdr_outside [of x g j f] assms(1,3) that by (simp add: touches_def)
  qed
  then show ?thesis using assms(1) by (simp add: touches_def)
qed

lemma touches_fields [simp]:
  "touches bs h (g\<lparr>lfree := a\<rparr>) = touches bs h g" "touches bs h (g\<lparr>heap_sem := v\<rparr>) = touches bs h g"
  "touches bs h (g\<lparr>used_mem := n\<rparr>) = touches bs h g" "touches bs h (g\<lparr>max_mem := n\<rparr>) = touches bs h g"
  "touches bs h (add_used n g) = touches bs h g" "touches bs h (release_heap_sem g) = touches bs h g"
  by (simp_all add: touches_def add_used_def release_heap_sem_def Let_def)

lemma touches_room: "touches bs h g \<Longrightarrow> room g = room h"
  by (simp add: touches_def room_def)

lemma touches_shape: "touches bs h g \<Longrightarrow> heap_shape h \<Longrightarrow> heap_shape g"
  by (simp add: touches_def heap_shape_def room_def)

lemma add_used_simps [simp]:
  "hdr (add_used n h) p = hdr h p" "heap_ptr (add_used n h) = heap_ptr h" "heap_end (add_used n h) = heap_end h"
  "lfree (add_used n h) = lfree h" "heap_sem (add_used n h) = heap_sem h" "mem_size_aligned (add_used n h) = mem_size_aligned h"
  "used_mem (add_used n h) = used_mem h + n"
  by (simp_all add: add_used_def Let_def)

lemma blk_fields [simp]:
  "blk (h\<lparr>lfree := a\<rparr>) = blk h" "blk (h\<lparr>heap_sem := v\<rparr>) = blk h" "blk (h\<lparr>used_mem := n\<rparr>) = blk h"
  "blk (h\<lparr>max_mem := n\<rparr>) = blk h" "blk (add_used n h) = blk h" "blk (release_heap_sem h) = blk h"
  by (simp_all add: blk_def fun_eq_iff release_heap_sem_def)

text \<open>The three writes of a split.\<close>

lemma split_chain:
  assumes c: "heap_chain h (as @ (n, u) # cs)" and s: "s + 36 \<le> n" "4 dvd s" and i: "i = tot as" and j: "j = i + 12 + s"
    and h1: "h1 = set_hdr (heap_ptr h + of_nat j) (\<lambda>b. \<lparr>h_magic = HEAP_MAGIC, h_used = 0, h_next = of_nat (i + n), h_prev = of_nat i\<rparr>) h"
    and h2: "h2 = set_hdr (heap_ptr h + of_nat i) (\<lambda>b. b\<lparr>h_next := of_nat j, h_used := 1\<rparr>) h1"
    and h3: "h3 = (if cs = [] then h2 else set_hdr (heap_ptr h + of_nat (i + n)) (\<lambda>b. b\<lparr>h_prev := of_nat j\<rparr>) h2)"
  shows "heap_chain h3 (as @ (s + 12, True) # (n - 12 - s, False) # cs)" and "touches (as @ (s + 12, True) # (n - 12 - s, False) # cs) h h3"
proof -
  let ?bs = "as @ (s + 12, True) # (n - 12 - s, False) # cs"
  have c': "heap_shape h" "chain (blk h) 0 0 as" "chain (blk h) (lastp 0 0 as) i ((n, u) # cs)" "tot as + (n + tot cs) = room h"
    "h_used (blk h (room h)) \<noteq> 0"
    using c by (simp_all add: heap_chain_def chain_append i)
  have n: "4 dvd n" "12 \<le> n" "chain (blk h) i (i + n) cs"
    "blk h i = \<lparr>h_magic = HEAP_MAGIC, h_used = of_bool u, h_next = of_nat (i + n), h_prev = of_nat (lastp 0 0 as)\<rparr>"
    using c'(3) by simp_all
  have big: "big ?bs" using chain_big [OF c'(2)] chain_big [OF n(3)] s(1) by simp
  have T: "tot ?bs = room h" using c'(4) s(1) by simp
  let ?S = "insert (room h) (set (starts 0 ?bs))"
  have in_S: "i \<in> ?S" "j \<in> ?S" "cs \<noteq> [] \<Longrightarrow> i + n \<in> ?S" using s(1) by (auto simp: i j neq_Nil_conv)
  have t1: "touches ?bs h h1" unfolding h1 by (rule touches_set_hdr [OF touches_refl in_S(2) refl])
  have t2: "touches ?bs h h2" unfolding h2 by (rule touches_set_hdr [OF t1 in_S(1) refl])
  have t3: "touches ?bs h h3"
  proof (cases "cs = []")
    case True
    show ?thesis unfolding h3 if_P [OF True] by (rule t2)
  next
    case False
    show ?thesis unfolding h3 if_not_P [OF False] by (rule touches_set_hdr [OF t2 in_S(3) [OF False] refl])
  qed
  have p: "heap_ptr h1 = heap_ptr h" "heap_ptr h2 = heap_ptr h" "room h1 = room h" "room h2 = room h" "heap_shape h1" "heap_shape h2"
    using c'(1) by (simp_all add: h1 h2)
  have b1: "blk h1 k = (if k = j then \<lparr>h_magic = HEAP_MAGIC, h_used = 0, h_next = of_nat (i + n), h_prev = of_nat i\<rparr> else blk h k)" if "k \<in> ?S" for k
    unfolding h1 using blk_set_starts [OF c'(1) big T in_S(2) that] .
  have b2: "blk h2 k = (if k = i then (blk h1 k)\<lparr>h_next := of_nat j, h_used := 1\<rparr> else blk h1 k)" if "k \<in> ?S" for k
    unfolding h2 p(1) [symmetric] by (rule blk_set_starts [OF p(5) big]; use T p(3) in_S that in simp)
  have b3: "blk h3 k = (if cs \<noteq> [] \<and> k = i + n then (blk h2 k)\<lparr>h_prev := of_nat j\<rparr> else blk h2 k)" if "k \<in> ?S" for k
  proof (cases "cs = []")
    case False
    then show ?thesis unfolding h3 p(2) [symmetric]
      using blk_set_starts [OF p(6) big, of "i + n" k] T p(4) in_S that by simp
  qed (simp add: h3)
  have ne: "i \<noteq> j" "j \<noteq> i + n" "i \<noteq> i + n" using s(1) n(2) by (simp_all add: j)
  have Bi: "blk h3 i = \<lparr>h_magic = HEAP_MAGIC, h_used = 1, h_next = of_nat j, h_prev = of_nat (lastp 0 0 as)\<rparr>"
    using b3 [OF in_S(1)] b2 [OF in_S(1)] b1 [OF in_S(1)] ne n(4) by simp
  have Bj: "blk h3 j = \<lparr>h_magic = HEAP_MAGIC, h_used = 0, h_next = of_nat (i + n), h_prev = of_nat i\<rparr>"
    using b3 [OF in_S(2)] b2 [OF in_S(2)] b1 [OF in_S(2)] ne by simp
  have same: "blk h3 k = blk h k" if "k \<in> ?S" "k \<noteq> i" "k \<noteq> j" "cs = [] \<or> k \<noteq> i + n" for k
    using that b3 [OF that(1)] b2 [OF that(1)] b1 [OF that(1)] by auto
  have A: "chain (blk h3) 0 0 as"
  proof -
    have "chain (blk h3) 0 0 as = chain (blk h) 0 0 as"
    proof (rule chain_cong)
      fix k assume k: "k \<in> set (starts 0 as)"
      then have "k + 12 \<le> i" using starts_bounds [OF chain_big [OF c'(2)] k] by (simp add: i)
      then show "blk h3 k = blk h k" using same [of k] k by (simp add: j)
    qed
    then show ?thesis using c'(2) by simp
  qed
  have C: "chain (blk h3) j (i + n) cs"
  proof (rule chain_new_prev [OF n(3)])
    fix k assume k: "k \<in> set (starts (i + n) cs)" "k \<noteq> i + n"
    then have "i + n \<le> k" using starts_bounds [OF chain_big [OF n(3)] k(1)] by simp
    moreover have "k \<in> ?S" using k(1) s(1) by (simp add: i)
    ultimately show "blk h3 k = blk h k" using same [of k] k(2) s(1) n(2) by (simp add: j)
  next
    assume ne_cs: "cs \<noteq> []"
    show "blk h3 (i + n) = (blk h (i + n))\<lparr>h_prev := of_nat j\<rparr>"
      using b3 [OF in_S(3) [OF ne_cs]] b2 [OF in_S(3) [OF ne_cs]] b1 [OF in_S(3) [OF ne_cs]] ne ne_cs by simp
  qed
  have E: "blk h3 (room h) = blk h (room h)"
  proof (rule same)
    show "room h \<noteq> i" "room h \<noteq> j" using c'(4) s(1) n(2) by (simp_all add: i j)
    have "cs \<noteq> [] \<Longrightarrow> 12 \<le> tot cs" using chain_big [OF n(3)] by (cases cs) simp_all
    then show "cs = [] \<or> room h \<noteq> i + n" using c'(4) by (auto simp: i)
  qed simp
  have J: "j + (n - 12 - s) = i + n" "i + (s + 12) = j" using s(1) by (simp_all add: j)
  have d: "4 dvd n - 12 - s" using n(1) s(2) by (intro dvd_diff_nat) simp_all
  have "chain (blk h3) (lastp 0 0 as) i ((s + 12, True) # (n - 12 - s, False) # cs)"
    unfolding chain.simps J using Bi Bj C s d by simp
  then have "chain (blk h3) 0 0 ?bs" using A by (simp add: chain_append i)
  then show "heap_chain h3 (as @ (s + 12, True) # (n - 12 - s, False) # cs)" "touches (as @ (s + 12, True) # (n - 12 - s, False) # cs) h h3"
    unfolding heap_chain_def touches_room [OF t3] E using t3 touches_shape [OF t3 c'(1)] T c'(5) by simp_all
qed

text \<open>A write to one header that changes at most its used flag.\<close>

lemma set_used_chain:
  assumes c: "heap_chain h (as @ (n, u) # cs)" and i: "i = tot as"
    and f: "f (blk h i) = (blk h i)\<lparr>h_used := of_bool v\<rparr>"
  shows "heap_chain (set_hdr (heap_ptr h + of_nat i) f h) (as @ (n, v) # cs)"
    and "touches (as @ (n, u) # cs) h (set_hdr (heap_ptr h + of_nat i) f h)"
proof -
  let ?bs = "as @ (n, u) # cs" and ?g = "set_hdr (heap_ptr h + of_nat i) f h"
  have c': "heap_shape h" "chain (blk h) 0 0 as" "chain (blk h) (lastp 0 0 as) i ((n, u) # cs)" "tot ?bs = room h"
    "h_used (blk h (room h)) \<noteq> 0"
    using c by (simp_all add: heap_chain_def chain_append i)
  have n: "12 \<le> n" "4 dvd n" "chain (blk h) i (i + n) cs"
    "blk h i = \<lparr>h_magic = HEAP_MAGIC, h_used = of_bool u, h_next = of_nat (i + n), h_prev = of_nat (lastp 0 0 as)\<rparr>"
    using c'(3) by simp_all
  have big: "big ?bs" using chain_big [OF c'(2)] chain_big [OF n(3)] n(1) by simp
  let ?S = "insert (room h) (set (starts 0 ?bs))"
  have in_S: "i \<in> ?S" by (simp add: i)
  have b: "blk ?g k = (if k = i then f (blk h k) else blk h k)" if "k \<in> ?S" for k
    by (rule blk_set_starts [OF c'(1) big c'(4) in_S that])
  have A: "chain (blk ?g) 0 0 as"
  proof -
    have "chain (blk ?g) 0 0 as = chain (blk h) 0 0 as"
    proof (rule chain_cong)
      fix k assume k: "k \<in> set (starts 0 as)"
      then have "k \<noteq> i" using starts_bounds [OF chain_big [OF c'(2)] k] by (simp add: i)
      then show "blk ?g k = blk h k" using b [of k] k by simp
    qed
    then show ?thesis using c'(2) by simp
  qed
  have C: "chain (blk ?g) i (i + n) cs"
  proof -
    have "chain (blk ?g) i (i + n) cs = chain (blk h) i (i + n) cs"
    proof (rule chain_cong)
      fix k assume k: "k \<in> set (starts (i + n) cs)"
      then have "k \<noteq> i" using starts_bounds [OF chain_big [OF n(3)] k] n(1) by simp
      then show "blk ?g k = blk h k" using b [of k] k by (simp add: i)
    qed
    then show ?thesis using n(3) by simp
  qed
  have Bi: "blk ?g i = \<lparr>h_magic = HEAP_MAGIC, h_used = of_bool v, h_next = of_nat (i + n), h_prev = of_nat (lastp 0 0 as)\<rparr>"
    using b [OF in_S] f n(4) by simp
  have "room h \<noteq> i" using c'(4) n(1) by (simp add: i)
  then have E: "blk ?g (room h) = blk h (room h)" using b [of "room h"] by simp
  have "chain (blk ?g) (lastp 0 0 as) i ((n, v) # cs)" unfolding chain.simps using Bi C n(1,2) by simp
  then have "chain (blk ?g) 0 0 (as @ (n, v) # cs)" using A by (simp add: chain_append i)
  then show "heap_chain ?g (as @ (n, v) # cs)" unfolding heap_chain_def shape_fields E using c'(1,4,5) by simp
  show "touches ?bs h ?g" by (rule touches_set_hdr [OF touches_refl in_S refl])
qed

lemma MIN_SIZE_ALIGNED_12: "MIN_SIZE_ALIGNED = 12"
  by (simp add: MIN_SIZE_ALIGNED_def MIN_SIZE_def RT_ALIGN_def)

lemma chain_at:
  assumes "heap_chain h (as @ (n, u) # cs)"
  shows "hdr h (heap_ptr h + of_nat (tot as)) =
      \<lparr>h_magic = HEAP_MAGIC, h_used = of_bool u, h_next = of_nat (tot as + n), h_prev = of_nat (lastp 0 0 as)\<rparr>"
    and "12 \<le> n" and "4 dvd n" and "tot as + n + tot cs = room h" and "room h < 2 ^ 32 - 12" and "4 dvd tot as" and "heap_shape h"
  using assms chain_dvd [of "blk h" 0 0 as] by (simp_all add: heap_chain_def chain_append blk_def [symmetric] heap_shape_def)

lemma heap_chain_big: "heap_chain h bs \<Longrightarrow> big bs"
  using chain_big by (auto simp: heap_chain_def)

lemma malloc_mark_marks:
  assumes c: "heap_chain h (as @ (n, False) # cs)" and s: "unat sz + 12 \<le> n" "4 dvd unat sz"
  shows "heap_chain (malloc_mark sz (of_nat (tot as)) h) (as @ split_block (unat sz) n @ cs)"
    and "touches (as @ split_block (unat sz) n @ cs) h (malloc_mark sz (of_nat (tot as)) h)"
    and "lfree (malloc_mark sz (of_nat (tot as)) h) = lfree h" and "heap_sem (malloc_mark sz (of_nat (tot as)) h) = heap_sem h"
    and "used_mem (malloc_mark sz (of_nat (tot as)) h) = used_mem h + of_nat (used_sum (split_block (unat sz) n))"
proof -
  let ?i = "tot as" and ?s = "unat sz"
  note at = chain_at [OF c]
  have R: "room h < 2 ^ 32" "n < 2 ^ 32" using at(4,5) by simp_all
  have d: "(of_nat (?i + n) :: u32) - (of_nat ?i + SIZEOF_STRUCT_MEM) = of_nat (n - 12)"
    using at(2) by (simp add: SIZEOF_STRUCT_MEM_def)
  have un: "unat (of_nat (n - 12) :: u32) = n - 12" unfolding unat_of_nat using R(2) by (intro mod_less) simp
  have us: "unat (sz + SIZEOF_STRUCT_MEM + MIN_SIZE_ALIGNED) = ?s + 24"
    unfolding MIN_SIZE_ALIGNED_12 SIZEOF_STRUCT_MEM_def using s(1) at(4,5) by (simp add: unat_word_ariths)
  have cond: "sz + SIZEOF_STRUCT_MEM + MIN_SIZE_ALIGNED \<le> of_nat (?i + n) - (of_nat ?i + SIZEOF_STRUCT_MEM) \<longleftrightarrow> ?s + 36 \<le> n"
    unfolding d word_le_nat_alt un us using at(2) by auto
  have "heap_chain (malloc_mark sz (of_nat ?i) h) (as @ split_block ?s n @ cs) \<and>
    touches (as @ split_block ?s n @ cs) h (malloc_mark sz (of_nat ?i) h) \<and>
    lfree (malloc_mark sz (of_nat ?i) h) = lfree h \<and> heap_sem (malloc_mark sz (of_nat ?i) h) = heap_sem h \<and>
    used_mem (malloc_mark sz (of_nat ?i) h) = used_mem h + of_nat (used_sum (split_block ?s n))"
  proof (cases "?s + 36 \<le> n")
    case True
    let ?j = "?i + 12 + ?s"
    let ?h1 = "set_hdr (heap_ptr h + of_nat ?j) (\<lambda>b. \<lparr>h_magic = HEAP_MAGIC, h_used = 0, h_next = of_nat (?i + n), h_prev = of_nat ?i\<rparr>) h"
    let ?h2 = "set_hdr (heap_ptr h + of_nat ?i) (\<lambda>b. b\<lparr>h_next := of_nat ?j, h_used := 1\<rparr>) ?h1"
    let ?h3 = "if cs = [] then ?h2 else set_hdr (heap_ptr h + of_nat (?i + n)) (\<lambda>b. b\<lparr>h_prev := of_nat ?j\<rparr>) ?h2"
    note sc = split_chain [OF c True s(2) refl refl refl refl refl]
    have j: "of_nat ?i + SIZEOF_STRUCT_MEM + sz = (of_nat ?j :: u32)" by (simp add: SIZEOF_STRUCT_MEM_def)
    have "blk ?h2 ?j = blk ?h1 ?j"
      using blk_set [of ?h1 ?j ?i] at(2,4,7) True by simp
    then have nx: "h_next (hdr ?h2 (heap_ptr h + of_nat ?j)) = of_nat (?i + n)" by (simp add: blk_def)
    have "mem_size_aligned ?h2 + SIZEOF_STRUCT_MEM = of_nat (room h)" by (simp add: room_def SIZEOF_STRUCT_MEM_def)
    moreover have "?i + n = room h \<longleftrightarrow> cs = []" using at(4) heap_chain_big [OF c] by (cases cs) auto
    ultimately have last: "h_next (hdr ?h2 (heap_ptr h + of_nat ?j)) \<noteq> mem_size_aligned ?h2 + SIZEOF_STRUCT_MEM \<longleftrightarrow> cs \<noteq> []"
      unfolding nx using of_nat_u32_eq [of "?i + n" "room h"] at(4) R(1) by simp
    have m: "malloc_mark sz (of_nat ?i) h = add_used (sz + SIZEOF_STRUCT_MEM) ?h3"
      unfolding malloc_mark_def Let_def at(1) heap_mem.simps cond if_P [OF True] j last unfolding nx by simp
    show ?thesis unfolding m using sc True
      by (simp add: split_block_def SIZEOF_STRUCT_MEM_def heap_chain_def heap_shape_def room_def)
  next
    case False
    let ?g = "set_hdr (heap_ptr h + of_nat ?i) (\<lambda>b. b\<lparr>h_used := 1\<rparr>) h"
    have g: "heap_chain ?g (as @ (n, True) # cs)" "touches (as @ (n, False) # cs) h ?g"
      using set_used_chain [OF c refl, of "\<lambda>b. b\<lparr>h_used := 1\<rparr>" True] by simp_all
    have st: "touches (as @ (n, True) # cs) h g = touches (as @ (n, False) # cs) h g" for g
      by (simp add: touches_def header_area_def)
    have m: "malloc_mark sz (of_nat ?i) h = add_used (of_nat n) ?g"
      unfolding malloc_mark_def Let_def at(1) heap_mem.simps cond if_not_P [OF False] by (simp add: at(1))
    show ?thesis unfolding m using g st False
      by (simp add: split_block_def heap_chain_def heap_shape_def room_def)
  qed
  then show "heap_chain (malloc_mark sz (of_nat (tot as)) h) (as @ split_block (unat sz) n @ cs)"
    "touches (as @ split_block (unat sz) n @ cs) h (malloc_mark sz (of_nat (tot as)) h)"
    "lfree (malloc_mark sz (of_nat (tot as)) h) = lfree h" "heap_sem (malloc_mark sz (of_nat (tot as)) h) = heap_sem h"
    "used_mem (malloc_mark sz (of_nat (tot as)) h) = used_mem h + of_nat (used_sum (split_block (unat sz) n))"
    by blast+
qed

text \<open>The whole rest of \<open>rt_malloc\<close>, entered with the semaphore taken.\<close>

lemma heap_chain_fields [simp]:
  "heap_chain (h\<lparr>lfree := a\<rparr>) bs = heap_chain h bs" "heap_chain (h\<lparr>heap_sem := v\<rparr>) bs = heap_chain h bs"
  "heap_chain (h\<lparr>used_mem := m\<rparr>) bs = heap_chain h bs" "heap_chain (release_heap_sem h) bs = heap_chain h bs"
  by (simp_all add: heap_chain_def heap_shape_def room_def release_heap_sem_def)

lemma split_block_facts:
  assumes "s + 12 \<le> n"
  shows "tot (split_block s n) = n" and "\<exists>m vs. split_block s n = (m, True) # vs"
  using assms by (auto simp: split_block_def)

lemma coalesced_split:
  assumes "coalesced (as @ (n, False) # cs)" shows "coalesced (as @ split_block s n @ cs)"
  using assms by (auto simp: coalesced_def split_block_def successively_append_iff successively_Cons)

lemma malloc_take_takes:
  assumes c: "heap_chain h (as @ (n, False) # cs)" and s: "unat sz + 12 \<le> n" "4 dvd unat sz"
    and inv: "coalesced (as @ (n, False) # cs)" "heap_sem h = 0" "used_mem h = of_nat (used_sum (as @ (n, False) # cs))"
      "lfree h = heap_ptr h + of_nat (first_free 0 (as @ (n, False) # cs))"
      "\<forall>b \<in> set (as @ (n, False) # cs). snd b \<longrightarrow> 12 < fst b" and pos: "0 < unat sz"
  shows "\<exists>h'. malloc_take sz (of_nat (tot as)) h = Some (heap_ptr h + of_nat (tot as + 12), h') \<and>
    heap_inv h' (as @ split_block (unat sz) n @ cs) \<and> touches (as @ split_block (unat sz) n @ cs) h h'"
proof -
  let ?i = "tot as" and ?bs = "as @ split_block (unat sz) n @ cs"
  note at = chain_at [OF c]
  define g where "g = malloc_mark sz (of_nat ?i) h"
  note mark = malloc_mark_marks [OF c s, folded g_def]
  obtain m vs where sp: "split_block (unat sz) n = (m, True) # vs" using split_block_facts(2) [OF s(1)] by blast
  have T: "tot (split_block (unat sz) n) = n" by (rule split_block_facts(1) [OF s(1)])
  have bs: "?bs = as @ (m, True) # vs @ cs" by (simp add: sp)
  define k where "k = set_hdr (heap_ptr g + of_nat ?i) (\<lambda>b. b\<lparr>h_magic := HEAP_MAGIC\<rparr>) g"
  have hp: "heap_ptr g = heap_ptr h" using mark(2) by (simp add: touches_def)
  have gat: "blk g ?i = \<lparr>h_magic = HEAP_MAGIC, h_used = 1, h_next = of_nat (?i + m), h_prev = of_nat (lastp 0 0 as)\<rparr>"
    using chain_at(1) [of g as m True "vs @ cs"] mark(1) by (simp add: bs blk_def)
  have k: "heap_chain k ?bs" "touches ?bs h k"
  proof -
    show "heap_chain k ?bs"
      unfolding k_def bs by (rule set_used_chain(1) [OF mark(1) [unfolded bs] refl]) (simp add: gat)
    show "touches ?bs h k" unfolding k_def hp
      by (rule touches_set_hdr [OF mark(2) _ refl]) (simp add: bs)
  qed
  have kf: "lfree k = lfree h" "heap_sem k = 0" "used_mem k = of_nat (used_sum ?bs)" "heap_ptr k = heap_ptr h"
    "heap_shape k" "room k = room h"
    using mark(3-5) inv(2,3) k hp touches_room [OF k(2)] by (simp_all add: k_def heap_chain_def)
  let ?f = "first_free 0 ?bs"
  have ff: "?f \<le> room h" "?f = room h \<or> h_used (blk k ?f) = 0"
    using first_free_bounds [of 0 ?bs] first_free_unused [of "blk k" 0 0 ?bs] k(1) kf(6) by (simp_all add: heap_chain_def)
  have up: "(if heap_ptr h + of_nat ?i = lfree k
             then do { f \<leftarrow> next_free k (lfree k);
                       let h = k\<lparr>lfree := f\<rparr>;
                       if lfree h = heap_end h \<or> h_used (hdr h (lfree h)) = 0 then Some h else None }
             else Some k) = Some (k\<lparr>lfree := heap_ptr h + of_nat ?f\<rparr>)"
  proof (cases "\<forall>b \<in> set as. snd b")
    case True
    have l: "lfree k = heap_ptr k + of_nat ?i" using inv(4) True kf(1,4) by (simp add: first_free_append)
    have "chain (blk k) (lastp 0 0 as) ?i (split_block (unat sz) n @ cs)" "?i + tot (split_block (unat sz) n @ cs) = room k"
      using k(1) by (simp_all add: heap_chain_def chain_append)
    then have "next_free k (heap_ptr k + of_nat ?i) = Some (heap_ptr k + of_nat ?f)"
      using next_free_finds [OF kf(5)] True by (simp add: first_free_append)
    moreover have "heap_ptr k + of_nat ?f = heap_end k \<or> h_used (hdr k (heap_ptr k + of_nat ?f)) = 0"
      using ff(2) kf(5,6) by (auto simp: blk_def heap_shape_def)
    ultimately show ?thesis unfolding l by (simp add: kf(4))
  next
    case False
    then have f: "first_free 0 (as @ xs) = first_free 0 as" for xs by (auto simp: first_free_append)
    have "first_free 0 as \<noteq> ?i" "first_free 0 as \<le> room h"
      using first_free_less [of as 0] False heap_chain_big [OF c] at(4) by auto
    then have "heap_ptr h + of_nat ?i \<noteq> lfree k"
      unfolding kf(1) inv(4) f using at_eq [OF at(7), of ?i "first_free 0 as"] at(4) by simp
    moreover have "k\<lparr>lfree := heap_ptr h + of_nat ?f\<rparr> = k" using kf(1) inv(4) by (simp add: f)
    ultimately show ?thesis by simp
  qed
  let ?r = "release_heap_sem (k\<lparr>lfree := heap_ptr h + of_nat ?f\<rparr>)"
  have e: "heap_end ?r = heap_ptr h + of_nat (room h)" "unat (heap_ptr h) + room h + 12 \<le> 2 ^ 32"
    using kf(4-6) at(7) by (simp_all add: heap_shape_def release_heap_sem_def)
  have p: "heap_ptr h + of_nat ?i + SIZEOF_STRUCT_MEM = heap_ptr h + of_nat (?i + 12)" by (simp add: SIZEOF_STRUCT_MEM_def)
  have q: "heap_ptr h + of_nat ?i + SIZEOF_STRUCT_MEM + sz = heap_ptr h + of_nat (?i + 12 + unat sz)"
    by (simp add: SIZEOF_STRUCT_MEM_def)
  have chk1: "heap_ptr h + of_nat ?i + SIZEOF_STRUCT_MEM + sz \<le> heap_end ?r"
    unfolding e(1) q using at_le [OF at(7), of "?i + 12 + unat sz" "room h"] at(4) s(1) by (simp only:)
  have al: "4 dvd unat (heap_ptr h)" using at(7) by (simp add: heap_shape_def and_3_dvd)
  have chk2: "(heap_ptr h + of_nat (?i + 12)) mod 4 = 0" "heap_ptr h + of_nat ?i AND 3 = 0"
    unfolding mod_4_dvd and_3_dvd using unat_at [OF at(7), of "?i + 12"] unat_at [OF at(7), of ?i] at(4,2,6) al by simp_all
  have kk: "set_hdr (heap_ptr h + of_nat ?i) (\<lambda>b. b\<lparr>h_magic := HEAP_MAGIC\<rparr>) g = k"
    unfolding k_def hp ..
  have "malloc_take sz (of_nat ?i) h = Some (heap_ptr h + of_nat (?i + 12), ?r)"
    unfolding malloc_take_def Let_def g_def [symmetric] kk up [unfolded Let_def] bind.bind_lunit
    using chk1 chk2 p by (simp only:) simp
  moreover have "\<forall>b \<in> set ?bs. snd b \<longrightarrow> 12 < fst b"
    using inv(5) s(1) pos by (auto simp: split_block_def split: if_split_asm)
  then have "heap_inv ?r ?bs"
    using k(1) coalesced_split [OF inv(1)] kf by (simp add: heap_inv_def) (simp add: release_heap_sem_def)
  ultimately show ?thesis using k(2) by (intro exI [of _ ?r]) simp
qed

subsection \<open>The request\<close>

lemma align_down_4: "unat (x AND NOT 3) = 4 * (unat x div 4)" for x :: u32
proof -
  have m: "(3 :: u32) = mask 2" by (simp add: mask_eq_exp_minus_1)
  have e: "x AND NOT 3 = push_bit 2 (drop_bit 2 x)"
  proof (rule bit_word_eqI)
    fix n assume "n < LENGTH(32)"
    then show "bit (x AND NOT 3) n = bit (push_bit 2 (drop_bit 2 x)) n"
      unfolding m using le_Suc_ex [of 2 n] by (cases "2 \<le> n") (auto simp: bit_simps)
  qed
  have d: "unat (drop_bit 2 x) = unat x div 4" by (simp add: drop_bit_eq_div unat_div)
  have "unat x div 4 * 4 < 2 ^ 32" using unsigned_less [of x, where 'a = nat] by simp
  then have "unat (drop_bit 2 x * 4) = unat x div 4 * 4"
    using d by (simp add: unat_word_ariths)
  then show ?thesis unfolding e by (simp add: push_bit_eq_mult)
qed

text \<open>Rounding a size up to the alignment wraps for the three largest sizes.\<close>

lemma align_4:
  "unat (RT_ALIGN sz 4) = (if unat sz \<le> 2 ^ 32 - 4 then 4 * ((unat sz + 3) div 4) else 0)"
proof -
  have lt: "unat sz < 2 ^ 32" using unsigned_less [of sz, where 'a = nat] by simp
  have r: "RT_ALIGN sz 4 = (sz + 3) AND NOT 3" by (simp add: RT_ALIGN_def add.commute)
  have "unat (sz + 3) = (unat sz + 3) mod 2 ^ 32" by (simp add: unat_word_ariths)
  then have "unat (sz + 3) = (if unat sz \<le> 2 ^ 32 - 4 then unat sz + 3 else unat sz + 3 - 2 ^ 32)"
    using lt by (auto simp: mod_if)
  then show ?thesis unfolding r align_down_4 using lt by auto
qed

text \<open>The size of a block's data for a request: rounded up, at least 12 bytes.\<close>

definition data_size :: "u32 \<Rightarrow> nat" where
  "data_size sz = max 12 (unat (RT_ALIGN sz 4))"

lemma data_size_pos: "0 < data_size sz"
  by (simp add: data_size_def)

definition request :: "u32 \<Rightarrow> u32" where
  "request sz = (if RT_ALIGN sz 4 < MIN_SIZE_ALIGNED then MIN_SIZE_ALIGNED else RT_ALIGN sz 4)"

lemma unat_request: "unat (request sz) = data_size sz"
  unfolding request_def data_size_def MIN_SIZE_ALIGNED_12 by (simp add: word_less_nat_alt max_def)

lemma data_size_dvd: "4 dvd data_size sz"
  unfolding data_size_def align_4 by (auto simp: max_def)

text \<open>Specification of an allocation on the list of blocks: \<open>None\<close> if no block is found.\<close>

definition alloc_blocks :: "nat \<Rightarrow> nat \<Rightarrow> blocks \<Rightarrow> (nat \<times> blocks) option" where
  "alloc_blocks rm s bs =
     (case find_fit (rm - 12 - s) s 0 bs of
        None \<Rightarrow> None
      | Some (as, n, cs) \<Rightarrow> Some (tot as, as @ split_block s n @ cs))"

text \<open>Starting the search at the first free block finds the same block.\<close>

lemma first_free_takeWhile: "first_free i bs = i + tot (takeWhile snd bs)"
  by (induction bs arbitrary: i) simp_all

lemma find_fit_limit: "lim \<le> i \<Longrightarrow> find_fit lim s i bs = None"
  by (cases bs) simp_all

lemma find_fit_skip:
  "\<forall>b \<in> set as. snd b \<Longrightarrow> find_fit lim s i (as @ cs) =
    map_option (\<lambda>(xs, n, ys). (as @ xs, n, ys)) (find_fit lim s (i + tot as) cs)"
proof (induction as arbitrary: i)
  case Nil
  show ?case by (cases "find_fit lim s i cs") simp_all
next
  case (Cons b as)
  then show ?case
    using find_fit_limit [of lim "i + fst b + tot as" s cs]
    by (cases "find_fit lim s (i + fst b + tot as) cs") (auto simp: add.assoc)
qed

lemma malloc_refines:
  assumes inv: "heap_inv h bs" and big: "24 \<le> room h"
  shows "if sz = 0 \<or> room h < 12 + unat (RT_ALIGN sz 4) then rt_malloc sz h = Some (0, h)
    else case alloc_blocks (room h) (data_size sz) bs of
      None \<Rightarrow> rt_malloc sz h = Some (0, h)
    | Some (i, bs') \<Rightarrow> \<exists>h'. rt_malloc sz h = Some (heap_ptr h + of_nat (i + 12), h') \<and> heap_inv h' bs' \<and> touches bs' h h'"
proof -
  have c: "heap_chain h bs" "coalesced bs" "heap_sem h = 1" "used_mem h = of_nat (used_sum bs)"
    "lfree h = heap_ptr h + of_nat (first_free 0 bs)" "\<forall>b \<in> set bs. snd b \<longrightarrow> 12 < fst b"
    using inv by (simp_all add: heap_inv_def)
  have sh: "heap_shape h" "chain (blk h) 0 0 bs" "tot bs = room h" using c(1) by (simp_all add: heap_chain_def)
  have msa: "mem_size_aligned h < RT_ALIGN sz 4 \<longleftrightarrow> room h < 12 + unat (RT_ALIGN sz 4)"
    by (simp add: word_less_nat_alt room_def)
  let ?h = "h\<lparr>heap_sem := 0\<rparr>"
  have rel: "release_heap_sem ?h = h" using c(3) by (simp add: release_heap_sem_def)
  show ?thesis
  proof (cases "sz = 0 \<or> room h < 12 + unat (RT_ALIGN sz 4)")
    case True
    then show ?thesis using msa by (auto simp: rt_malloc_def Let_def)
  next
    case False
    let ?s = "data_size sz"
    have s: "?s + 12 \<le> room h" using False big by (auto simp: data_size_def max_def)
    have call: "rt_malloc sz h = malloc_loop (request sz) (lfree h - heap_ptr h) ?h"
      using False msa c(3) by (simp add: rt_malloc_def Let_def request_def take_heap_sem_def)
    define as where "as = takeWhile snd bs"
    define cs where "cs = dropWhile snd bs"
    have as: "bs = as @ cs" "\<forall>b \<in> set as. snd b" "first_free 0 bs = tot as"
      by (auto simp: as_def cs_def first_free_takeWhile dest!: set_takeWhileD)
    have start: "lfree h - heap_ptr h = of_nat (tot as)" using c(5) as by simp
    have ch: "heap_shape ?h" "chain (blk ?h) (lastp 0 0 as) (tot as) cs" "tot as + tot cs = room ?h" "unat (request sz) + 12 \<le> room ?h"
      using sh as s by (simp_all add: heap_shape_def room_def chain_append unat_request)
    have loop: "rt_malloc sz h = (case find_fit (room h - 12 - ?s) ?s (tot as) cs of
        None \<Rightarrow> Some (0, h) | Some (xs, n, ys) \<Rightarrow> malloc_take (request sz) (of_nat (tot as + tot xs)) ?h)"
      unfolding call start malloc_loop_finds [OF ch] unat_request rel by (simp add: room_def)
    have ff: "find_fit (room h - 12 - ?s) ?s 0 bs = map_option (\<lambda>(xs, n, ys). (as @ xs, n, ys)) (find_fit (room h - 12 - ?s) ?s (tot as) cs)"
      using find_fit_skip [of as "room h - 12 - ?s" ?s 0 cs] as by simp
    show ?thesis
    proof (cases "find_fit (room h - 12 - ?s) ?s (tot as) cs")
      case None
      then show ?thesis using False loop ff by (simp add: alloc_blocks_def)
    next
      case (Some r)
      then obtain xs n ys where r: "find_fit (room h - 12 - ?s) ?s (tot as) cs = Some (xs, n, ys)" by (cases r) auto
      from find_fit_Some [OF r] have fit: "cs = xs @ (n, False) # ys" "?s + 12 \<le> n" by simp_all
      have bs: "bs = (as @ xs) @ (n, False) # ys" using as fit(1) by simp
      have "heap_chain ?h ((as @ xs) @ (n, False) # ys)" using c(1) bs by simp
      from malloc_take_takes [OF this, of "request sz", unfolded unat_request, OF fit(2) data_size_dvd]
      obtain h' where h': "malloc_take (request sz) (of_nat (tot (as @ xs))) ?h = Some (heap_ptr h + of_nat (tot (as @ xs) + 12), h')"
        "heap_inv h' ((as @ xs) @ split_block ?s n @ ys)" "touches ((as @ xs) @ split_block ?s n @ ys) ?h h'"
        using c(2,4-6) bs data_size_pos by auto
      have t: "touches ((as @ xs) @ split_block ?s n @ ys) h h'"
        using h'(3) by (simp add: touches_def header_area_def span12_def room_def)
      have a: "alloc_blocks (room h) ?s bs = Some (tot (as @ xs), (as @ xs) @ split_block ?s n @ ys)"
        using ff r by (simp add: alloc_blocks_def)
      have "rt_malloc sz h = malloc_take (request sz) (of_nat (tot (as @ xs))) ?h" using loop r by simp
      then show ?thesis using False h'(1,2) t unfolding a if_not_P [OF False] option.case prod.case by simp
    qed
  qed
qed

end
