(* ===== verification/MemFree.thy ===== *)
theory MemFree imports MemAlloc begin

text \<open>
  \<open>plug_holes\<close>, \<open>rt_free\<close> and \<open>rt_realloc\<close> against the list of blocks.
\<close>

subsection \<open>Joining two blocks\<close>

lemma touches_trans:
  assumes "touches bs h g" and "touches bs' g k" and "set (starts 0 bs') \<subseteq> set (starts 0 bs)"
  shows "touches bs h k"
proof -
  have e: "room g = room h" "span12 g = span12 h" using assms(1) by (simp_all add: touches_def room_def span12_def fun_eq_iff)
  have "header_area g bs' \<subseteq> header_area h bs" unfolding header_area_def e using assms(3) by auto
  then show ?thesis using assms(1,2) by (auto simp: touches_def)
qed

lemma merge_chain:
  assumes c: "heap_chain h (as @ (n, u) # (m, v) # ds)" and i: "i = tot as"
    and h1: "h1 = set_hdr (heap_ptr h + of_nat i) (\<lambda>b. b\<lparr>h_next := of_nat (i + n + m)\<rparr>) h"
    and h2: "h2 = set_hdr (heap_ptr h + of_nat (i + n + m)) (\<lambda>b. b\<lparr>h_prev := of_nat i\<rparr>) h1"
  shows "heap_chain h2 (as @ (n + m, u) # ds)" and "touches (as @ (n, u) # (m, v) # ds) h h2"
proof -
  let ?bs = "as @ (n, u) # (m, v) # ds" and ?j = "i + n + m"
  have c': "heap_shape h" "chain (blk h) 0 0 as" "chain (blk h) (lastp 0 0 as) i ((n, u) # (m, v) # ds)" "tot ?bs = room h"
    "h_used (blk h (room h)) \<noteq> 0"
    using c by (simp_all add: heap_chain_def chain_append i)
  have n: "12 \<le> n" "12 \<le> m" "4 dvd n" "4 dvd m" "chain (blk h) (i + n) ?j ds"
    "blk h i = \<lparr>h_magic = HEAP_MAGIC, h_used = of_bool u, h_next = of_nat (i + n), h_prev = of_nat (lastp 0 0 as)\<rparr>"
    using c'(3) by simp_all
  have big: "big ?bs" by (rule heap_chain_big [OF c])
  let ?S = "insert (room h) (set (starts 0 ?bs))"
  have in_S: "i \<in> ?S" "?j \<in> ?S" using c'(4) by (auto simp: i neq_Nil_conv; cases ds; simp)+
  have t1: "touches ?bs h h1" unfolding h1 by (rule touches_set_hdr [OF touches_refl in_S(1) refl])
  have t2: "touches ?bs h h2" unfolding h2 by (rule touches_set_hdr [OF t1 in_S(2) refl])
  have p: "heap_ptr h1 = heap_ptr h" "room h1 = room h" "heap_shape h1" using c'(1) by (simp_all add: h1)
  have b1: "blk h1 k = (if k = i then (blk h k)\<lparr>h_next := of_nat ?j\<rparr> else blk h k)" if "k \<in> ?S" for k
    unfolding h1 by (rule blk_set_starts [OF c'(1) big c'(4) in_S(1) that])
  have b2: "blk h2 k = (if k = ?j then (blk h1 k)\<lparr>h_prev := of_nat i\<rparr> else blk h1 k)" if "k \<in> ?S" for k
    unfolding h2 p(1) [symmetric] by (rule blk_set_starts [OF p(3) big]; use c'(4) p(2) in_S that in simp)
  have A: "chain (blk h2) 0 0 as"
  proof -
    have "chain (blk h2) 0 0 as = chain (blk h) 0 0 as"
    proof (rule chain_cong)
      fix k assume k: "k \<in> set (starts 0 as)"
      then have "k + 12 \<le> i" using starts_bounds [OF chain_big [OF c'(2)] k] by (simp add: i)
      then show "blk h2 k = blk h k" using b1 [of k] b2 [of k] k by simp
    qed
    then show ?thesis using c'(2) by simp
  qed
  have C: "chain (blk h2) i ?j ds"
  proof (rule chain_new_prev [OF n(5)])
    fix k assume k: "k \<in> set (starts ?j ds)" "k \<noteq> ?j"
    then have "?j \<le> k" using starts_bounds [OF chain_big [OF n(5)] k(1)] by simp
    moreover have "k \<in> ?S" using k(1) by (simp add: i add.assoc)
    ultimately show "blk h2 k = blk h k" using b1 [of k] b2 [of k] k(2) n(1) by simp
  next
    show "blk h2 ?j = (blk h ?j)\<lparr>h_prev := of_nat i\<rparr>" using b1 [OF in_S(2)] b2 [OF in_S(2)] n(1) by simp
  qed
  have Bi: "blk h2 i = \<lparr>h_magic = HEAP_MAGIC, h_used = of_bool u, h_next = of_nat (i + (n + m)), h_prev = of_nat (lastp 0 0 as)\<rparr>"
    using b1 [OF in_S(1)] b2 [OF in_S(1)] n by (simp add: add.assoc)
  have "i < room h" using c'(4) n(1) by (simp add: i)
  then have E: "h_used (blk h2 (room h)) = h_used (blk h (room h))" using b1 [of "room h"] b2 [of "room h"] by (cases "room h = ?j") simp_all
  have "chain (blk h2) (lastp 0 0 as) i ((n + m, u) # ds)" unfolding chain.simps using Bi C n by (simp add: add.assoc)
  then have "chain (blk h2) 0 0 (as @ (n + m, u) # ds)" using A by (simp add: chain_append i)
  then show "heap_chain h2 (as @ (n + m, u) # ds)"
    unfolding heap_chain_def touches_room [OF t2] E using touches_shape [OF t2 c'(1)] c'(4,5) by simp
  show "touches ?bs h h2" by (rule t2)
qed

text \<open>Specification: what a freed block of \<open>n\<close> bytes between \<open>as\<close> and \<open>cs\<close> becomes, and where \<open>lfree\<close> moves.\<close>

fun plug_next :: "nat \<Rightarrow> blocks \<Rightarrow> nat \<times> blocks" where
  "plug_next n ((m, False) # ds) = (n + m, ds)"
| "plug_next n ds = (n, ds)"

definition plug_prev :: "blocks \<Rightarrow> nat \<Rightarrow> blocks \<Rightarrow> blocks" where
  "plug_prev as n cs =
     (if as \<noteq> [] \<and> \<not> snd (last as) then butlast as @ (fst (last as) + n, False) # cs else as @ (n, False) # cs)"

definition plug :: "blocks \<Rightarrow> nat \<Rightarrow> blocks \<Rightarrow> blocks" where
  "plug as n cs = (let (n, cs) = plug_next n cs in plug_prev as n cs)"

definition plug_free :: "nat \<Rightarrow> blocks \<Rightarrow> nat \<Rightarrow> blocks \<Rightarrow> nat" where
  "plug_free l as n cs =
     (let l = (if fst (plug_next n cs) \<noteq> n \<and> l = tot as + n then tot as else l)
      in if as \<noteq> [] \<and> \<not> snd (last as) \<and> l = tot as then tot (butlast as) else l)"

text \<open>The two halves of \<open>plug_holes\<close>.\<close>

lemma plug_forward_joins:
  assumes c: "heap_chain h (as @ (n, False) # cs)" and i: "i = tot as" and l: "lfree h = heap_ptr h + of_nat l" "l \<le> room h"
    and r: "plug_next n cs = (n', cs')" and g: "g = plug_forward (heap_ptr h + of_nat i) h"
  shows "heap_chain g (as @ (n', False) # cs')" and "touches (as @ (n, False) # cs) h g"
    and "lfree g = heap_ptr h + of_nat (if n' \<noteq> n \<and> l = i + n then i else l)"
    and "heap_sem g = heap_sem h" and "used_mem g = used_mem h"
proof -
  note at = chain_at [OF c, folded i]
  have nm: "heap_ptr h + of_nat (i + n) = heap_end h \<longleftrightarrow> cs = []" and ne: "heap_ptr h + of_nat i \<noteq> heap_ptr h + of_nat (i + n)"
    and lf: "lfree h = heap_ptr h + of_nat (i + n) \<longleftrightarrow> l = i + n"
  proof -
    have "i + n = room h \<longleftrightarrow> cs = []" using at(4) heap_chain_big [OF c] by (cases cs) auto
    then show "heap_ptr h + of_nat (i + n) = heap_end h \<longleftrightarrow> cs = []"
      using at_eq [OF at(7), of "i + n" "room h"] at(4,7) by (simp add: heap_shape_def)
    show "heap_ptr h + of_nat i \<noteq> heap_ptr h + of_nat (i + n)" using at_eq [OF at(7), of i "i + n"] at(2,4) by simp
    show "lfree h = heap_ptr h + of_nat (i + n) \<longleftrightarrow> l = i + n" unfolding l(1) using at_eq [OF at(7) l(2), of "i + n"] at(4) by simp
  qed
  have "heap_chain g (as @ (n', False) # cs') \<and> touches (as @ (n, False) # cs) h g \<and>
    lfree g = heap_ptr h + of_nat (if n' \<noteq> n \<and> l = i + n then i else l) \<and> heap_sem g = heap_sem h \<and> used_mem g = used_mem h"
  proof (cases "\<exists>m ds. cs = (m, False) # ds")
    case True
    then obtain m ds where cs: "cs = (m, False) # ds" by blast
    have c2: "heap_chain h ((as @ [(n, False)]) @ (m, False) # ds)" using c by (simp add: cs)
    have N: "hdr h (heap_ptr h + of_nat (i + n)) =
        \<lparr>h_magic = HEAP_MAGIC, h_used = 0, h_next = of_nat (i + n + m), h_prev = of_nat i\<rparr>"
      using chain_at(1) [OF c2] by (simp add: i)
    define k where "k = (if l = i + n then h\<lparr>lfree := heap_ptr h + of_nat i\<rparr> else h)"
    have k: "heap_ptr k = heap_ptr h" "hdr k p = hdr h p" "heap_chain k bs = heap_chain h bs" "touches bs k f = touches bs h f"
      "lfree k = heap_ptr h + of_nat (if l = i + n then i else l)" "heap_sem k = heap_sem h" "used_mem k = used_mem h" "room k = room h" for p bs f
      using l(1) by (simp_all add: k_def touches_def header_area_def span12_def room_def)
    let ?h1 = "set_hdr (heap_ptr k + of_nat i) (\<lambda>b. b\<lparr>h_next := of_nat (i + n + m)\<rparr>) k"
    let ?h2 = "set_hdr (heap_ptr k + of_nat (i + n + m)) (\<lambda>b. b\<lparr>h_prev := of_nat i\<rparr>) ?h1"
    have c3: "heap_chain k (as @ (n, False) # (m, False) # ds)" using c k(3) by (simp add: cs)
    have "blk ?h1 (i + n) = blk k (i + n)"
      using blk_set [of k "i + n" i] at(2,4) c3 k(8) by (simp add: heap_chain_def)
    then have nx: "h_next (hdr ?h1 (heap_ptr h + of_nat (i + n))) = of_nat (i + n + m)"
      using N k by (simp add: blk_def)
    have cond: "heap_ptr h + of_nat i \<noteq> heap_ptr h + of_nat (i + n) \<and> (0 :: u16) = 0 \<and> cs \<noteq> []"
      using ne cs by simp
    have "g = set_hdr (heap_ptr ?h1 + h_next (hdr ?h1 (heap_ptr h + of_nat (i + n))))
        (\<lambda>b. b\<lparr>h_prev := heap_ptr h + of_nat i - heap_ptr ?h1\<rparr>) ?h1"
      unfolding g plug_forward_def Let_def at(1) heap_mem.simps N nm lf if_P [OF cond] k_def [symmetric] k(1,2) ..
    then have g': "g = ?h2" unfolding nx by (simp add: k(1))
    note mc = merge_chain [OF c3 i refl refl]
    show ?thesis using mc r at(2) chain_at(2) [OF c2] k(4-7) by (auto simp: g' cs)
  next
    case False
    have e: "n' = n" "cs' = cs" using r False by (cases "(n, cs)" rule: plug_next.cases; simp)+
    have "cs = [] \<or> h_used (hdr h (heap_ptr h + of_nat (i + n))) \<noteq> 0"
    proof (cases cs)
      case (Cons b ds)
      then obtain m where b: "b = (m, True)" using False by (cases b) auto
      have "heap_chain h ((as @ [(n, False)]) @ (m, True) # ds)" using c by (simp add: Cons b)
      from chain_at(1) [OF this] show ?thesis by (simp add: i)
    qed simp
    then have "g = h" unfolding g plug_forward_def Let_def at(1) heap_mem.simps nm by auto
    then show ?thesis using c e l by simp
  qed
  then show "heap_chain g (as @ (n', False) # cs')" "touches (as @ (n, False) # cs) h g"
    "lfree g = heap_ptr h + of_nat (if n' \<noteq> n \<and> l = i + n then i else l)" "heap_sem g = heap_sem h" "used_mem g = used_mem h"
    by blast+
qed

lemma plug_backward_joins:
  assumes c: "heap_chain h (as @ (n, False) # cs)" and i: "i = tot as" and l: "lfree h = heap_ptr h + of_nat l" "l \<le> room h"
    and g: "g = plug_backward (heap_ptr h + of_nat i) h"
  shows "heap_chain g (plug_prev as n cs)" and "touches (as @ (n, False) # cs) h g"
    and "lfree g = heap_ptr h + of_nat (if as \<noteq> [] \<and> \<not> snd (last as) \<and> l = i then tot (butlast as) else l)"
    and "heap_sem g = heap_sem h" and "used_mem g = used_mem h"
proof -
  note at = chain_at [OF c, folded i]
  have lf: "lfree h = heap_ptr h + of_nat i \<longleftrightarrow> l = i"
    unfolding l(1) using at_eq [OF at(7) l(2), of i] at(4) by simp
  have "heap_chain g (plug_prev as n cs) \<and> touches (as @ (n, False) # cs) h g \<and>
    lfree g = heap_ptr h + of_nat (if as \<noteq> [] \<and> \<not> snd (last as) \<and> l = i then tot (butlast as) else l) \<and>
    heap_sem g = heap_sem h \<and> used_mem g = used_mem h"
  proof (cases "as \<noteq> [] \<and> \<not> snd (last as)")
    case True
    obtain bs k where as: "as = bs @ [(k, False)]"
    proof (cases as rule: rev_exhaust)
      case (snoc ys y)
      with True that show ?thesis by (cases y) auto
    qed (use True in simp)
    have c2: "heap_chain h (bs @ (k, False) # (n, False) # cs)" using c by (simp add: as)
    note at2 = chain_at [OF c2]
    define p where "p = tot bs"
    have ip: "i = p + k" "lastp 0 0 as = p" by (simp_all add: i as p_def)
    have P: "hdr h (heap_ptr h + of_nat p) = \<lparr>h_magic = HEAP_MAGIC, h_used = 0, h_next = of_nat i, h_prev = of_nat (lastp 0 0 bs)\<rparr>"
      using at2(1) by (simp add: ip p_def)
    have ne: "heap_ptr h + of_nat p \<noteq> heap_ptr h + of_nat i"
      using at_eq [OF at(7), of p i] at2(2) at(4) ip by simp
    define q where "q = (if l = i then h\<lparr>lfree := heap_ptr h + of_nat p\<rparr> else h)"
    have q: "heap_ptr q = heap_ptr h" "hdr q x = hdr h x" "heap_chain q xs = heap_chain h xs" "touches xs q f = touches xs h f"
      "lfree q = heap_ptr h + of_nat (if l = i then p else l)" "heap_sem q = heap_sem h" "used_mem q = used_mem h" "room q = room h" for x xs f
      using l(1) by (simp_all add: q_def touches_def header_area_def span12_def room_def)
    let ?h1 = "set_hdr (heap_ptr q + of_nat p) (\<lambda>b. b\<lparr>h_next := of_nat (p + k + n)\<rparr>) q"
    let ?h2 = "set_hdr (heap_ptr q + of_nat (p + k + n)) (\<lambda>b. b\<lparr>h_prev := of_nat p\<rparr>) ?h1"
    have c3: "heap_chain q (bs @ (k, False) # (n, False) # cs)" using c2 q(3) by simp
    have "blk ?h1 i = blk q i"
      using blk_set [of q i p] at2(2,4) at(4) c3 q(8) ip by (simp add: heap_chain_def)
    then have nx: "h_next (hdr ?h1 (heap_ptr h + of_nat i)) = of_nat (p + k + n)"
      using at(1) q ip by (simp add: blk_def)
    have cond: "heap_ptr h + of_nat p \<noteq> heap_ptr h + of_nat i \<and> (0 :: u16) = 0" using ne by simp
    have w: "(of_nat (i + n) :: u32) = of_nat (p + k + n)" by (simp add: ip)
    have "g = set_hdr (heap_ptr ?h1 + h_next (hdr ?h1 (heap_ptr h + of_nat i)))
        (\<lambda>b. b\<lparr>h_prev := heap_ptr h + of_nat p - heap_ptr ?h1\<rparr>) ?h1"
      unfolding g plug_backward_def Let_def at(1) heap_mem.simps ip(2) P lf if_P [OF cond] q_def [symmetric] q(1,2) w ..
    then have g': "g = ?h2" unfolding nx by (simp add: q(1))
    note mc = merge_chain [OF c3 p_def refl refl]
    show ?thesis using mc q(4-7) by (simp add: g' as plug_prev_def p_def)
  next
    case False
    have "\<not> (heap_ptr h + of_nat (lastp 0 0 as) \<noteq> heap_ptr h + of_nat i \<and> h_used (hdr h (heap_ptr h + of_nat (lastp 0 0 as))) = 0)"
    proof (cases as rule: rev_exhaust)
      case (snoc bs b)
      then obtain k where b: "b = (k, True)" using False by (cases b) auto
      have "heap_chain h (bs @ (k, True) # (n, False) # cs)" using c by (simp add: snoc b)
      from chain_at(1) [OF this] show ?thesis by (simp add: snoc b)
    qed (simp add: i)
    then have "g = h" unfolding g plug_backward_def Let_def at(1) heap_mem.simps by auto
    then show ?thesis using c l False by (auto simp: plug_prev_def)
  qed
  then show "heap_chain g (plug_prev as n cs)" "touches (as @ (n, False) # cs) h g"
    "lfree g = heap_ptr h + of_nat (if as \<noteq> [] \<and> \<not> snd (last as) \<and> l = i then tot (butlast as) else l)"
    "heap_sem g = heap_sem h" "used_mem g = used_mem h"
    by blast+
qed

lemma plug_next_facts:
  "plug_next n cs = (n', cs') \<Longrightarrow> n' + tot cs' = n + tot cs \<and> set (starts (j + n') cs') \<subseteq> set (starts (j + n) cs) \<and>
    used_sum cs' = used_sum cs"
  by (cases "(n, cs)" rule: plug_next.cases) (auto simp: add.assoc)

lemma plug_holes_plugs:
  assumes c: "heap_chain h (as @ (n, False) # cs)" and i: "i = tot as" and l: "lfree h = heap_ptr h + of_nat l" "l \<le> room h"
  shows "\<exists>g. plug_holes (heap_ptr h + of_nat i) h = Some g \<and> heap_chain g (plug as n cs) \<and> touches (as @ (n, False) # cs) h g \<and>
    lfree g = heap_ptr h + of_nat (plug_free l as n cs) \<and> heap_sem g = heap_sem h \<and> used_mem g = used_mem h"
proof -
  note at = chain_at [OF c, folded i]
  obtain n' cs' where pn: "plug_next n cs = (n', cs')" by (cases "plug_next n cs")
  let ?f = "plug_forward (heap_ptr h + of_nat i) h"
  note f = plug_forward_joins [OF c i l pn refl]
  have hp: "heap_ptr ?f = heap_ptr h" "room ?f = room h" using f(2) touches_room by (auto simp: touches_def)
  let ?l = "if n' \<noteq> n \<and> l = i + n then i else l"
  have l': "lfree ?f = heap_ptr ?f + of_nat ?l" "?l \<le> room ?f" using f(3) hp l(2) at(4) by simp_all
  note b = plug_backward_joins [OF f(1) i l' refl, unfolded hp]
  have "heap_ptr h + of_nat i < heap_end h" "heap_ptr h \<le> heap_ptr h + of_nat i"
    using at_less [OF at(7), of i "room h"] at_le [OF at(7), of 0 i] at(2,4,7) by (simp_all add: heap_shape_def)
  then have "plug_holes (heap_ptr h + of_nat i) h = Some (plug_backward (heap_ptr h + of_nat i) ?f)"
    using at(1) by (simp add: plug_holes_def)
  moreover have "touches (as @ (n, False) # cs) h (plug_backward (heap_ptr h + of_nat i) ?f)"
    using touches_trans [OF f(2) b(2)] plug_next_facts [OF pn, of i] by (auto simp: i)
  ultimately show ?thesis using b f(4,5) pn by (auto simp: plug_def plug_free_def i)
qed

subsection \<open>rt_free\<close>

lemma tot_butlast: "as \<noteq> [] \<Longrightarrow> tot (butlast as) + fst (last as) = tot as"
  by (induction as rule: rev_induct) simp_all

lemma first_free_all_used: "\<forall>b \<in> set as. snd b \<Longrightarrow> first_free i as = i + tot as"
  by (induction as arbitrary: i) (simp_all add: add.assoc)

lemma plug_used:
  "used_sum (plug as n cs) = used_sum as + used_sum cs"
  "b \<in> set (plug as n cs) \<Longrightarrow> snd b \<Longrightarrow> b \<in> set as \<union> set cs"
proof -
  obtain n' cs' where pn: "plug_next n cs = (n', cs')" by (cases "plug_next n cs")
  have cs': "used_sum cs' = used_sum cs" "set cs' \<subseteq> set cs"
    using pn by (cases "(n, cs)" rule: plug_next.cases; auto)+
  show "used_sum (plug as n cs) = used_sum as + used_sum cs"
    using pn cs'(1) by (cases as rule: rev_exhaust) (auto simp: plug_def plug_prev_def)
  show "b \<in> set (plug as n cs) \<Longrightarrow> snd b \<Longrightarrow> b \<in> set as \<union> set cs"
    using pn cs'(2) by (auto simp: plug_def plug_prev_def split: if_split_asm dest: in_set_butlastD)
qed

lemma plug_coalesced:
  assumes "coalesced (as @ (n, u) # cs)" and "coalesced cs"
  shows "coalesced (plug as n cs)"
proof -
  obtain n' cs' where pn: "plug_next n cs = (n', cs')" by (cases "plug_next n cs")
  have cs': "coalesced ((n', False) # cs')"
    using pn assms(2) by (cases "(n, cs)" rule: plug_next.cases) (auto simp: coalesced_def successively_Cons)
  have as: "coalesced as" using assms(1) by (auto simp: coalesced_def successively_append_iff)
  show ?thesis
  proof (cases as rule: rev_exhaust)
    case (snoc bs b)
    then show ?thesis using as cs' pn
      by (cases b) (auto simp: plug_def plug_prev_def coalesced_def successively_append_iff successively_Cons)
  qed (use cs' pn in \<open>simp add: plug_def plug_prev_def\<close>)
qed

lemma plug_first_free:
  assumes "big as" and "0 < n"
  shows "first_free 0 (plug as n cs) = plug_free (first_free 0 (as @ (n, False) # cs)) as n cs"
proof -
  obtain n' cs' where pn: "plug_next n cs = (n', cs')" by (cases "plug_next n cs")
  show ?thesis
  proof (cases as rule: rev_exhaust)
    case (snoc bs b)
    have lt: "first_free 0 bs < tot bs" if "\<not> (\<forall>b \<in> set bs. snd b)"
      using first_free_less [of bs 0] that assms(1) snoc by simp
    show ?thesis using pn lt assms
      by (cases "snd b"; cases "\<forall>b \<in> set bs. snd b")
        (auto simp: plug_def plug_prev_def plug_free_def snoc first_free_append)
  qed (use pn assms(2) in \<open>simp add: plug_def plug_prev_def plug_free_def\<close>)
qed

lemma free_refines:
  assumes inv: "heap_inv h (as @ (n, True) # cs)" and i: "i = tot as"
  shows "\<exists>h'. rt_free (heap_ptr h + of_nat (i + 12)) h = Some h' \<and> heap_inv h' (plug as n cs) \<and>
    touches (as @ (n, True) # cs) h h'"
proof -
  let ?bs = "as @ (n, True) # cs" and ?fs = "as @ (n, False) # cs"
  have c: "heap_chain h ?bs" "coalesced ?bs" "heap_sem h = 1" "used_mem h = of_nat (used_sum ?bs)"
    "lfree h = heap_ptr h + of_nat (first_free 0 ?bs)" "\<forall>b \<in> set ?bs. snd b \<longrightarrow> 12 < fst b"
    using inv by (simp_all add: heap_inv_def)
  note at = chain_at [OF c(1), folded i]
  have n: "12 < n" using c(6) by simp
  let ?p = "heap_ptr h + of_nat (i + 12)"
  have up: "unat ?p = unat (heap_ptr h) + (i + 12)" by (rule unat_at [OF at(7)]) (use at(4) n in simp)
  have al: "4 dvd unat (heap_ptr h)" using at(7) by (simp add: heap_shape_def and_3_dvd)
  have p: "?p \<noteq> 0" "?p AND 3 = 0" "heap_ptr h \<le> ?p" "?p < heap_end h"
  proof -
    show "?p \<noteq> 0" using up by (auto simp: unat_eq_zero [symmetric])
    show "?p AND 3 = 0" unfolding and_3_dvd up using al at(6) by simp
    show "heap_ptr h \<le> ?p" using at_le [OF at(7), of 0 "i + 12"] at(4) n by simp
    show "?p < heap_end h" using at_less [OF at(7), of "i + 12" "room h"] at(4,7) n by (simp add: heap_shape_def)
  qed
  have mem: "?p - SIZEOF_STRUCT_MEM = heap_ptr h + of_nat i" by (simp add: SIZEOF_STRUCT_MEM_def)
  let ?h0 = "h\<lparr>heap_sem := 0\<rparr>"
  let ?h1 = "set_hdr (heap_ptr h + of_nat i) (\<lambda>b. b\<lparr>h_used := 0, h_magic := HEAP_MAGIC\<rparr>) ?h0"
  have h1: "heap_chain ?h1 ?fs" "touches ?bs ?h0 ?h1"
    using set_used_chain [of ?h0 as n True cs i "\<lambda>b. b\<lparr>h_used := 0, h_magic := HEAP_MAGIC\<rparr>" False] c(1) i at(1)
    by (simp_all add: blk_def)
  have at1: "hdr ?h1 (heap_ptr h + of_nat i) =
      \<lparr>h_magic = HEAP_MAGIC, h_used = 0, h_next = of_nat (i + n), h_prev = of_nat (lastp 0 0 as)\<rparr>"
    using chain_at(1) [OF h1(1)] by (simp add: i)
  let ?L = "first_free 0 ?bs" and ?M = "first_free 0 ?fs"
  have L: "?L \<le> room h" "i \<le> room h" using first_free_bounds [of 0 ?bs] at(4) by (simp_all add: i)
  have M: "?M = (if i < ?L then i else ?L)" "?M \<le> room h"
  proof -
    show "?M = (if i < ?L then i else ?L)"
    proof (cases "\<forall>b \<in> set as. snd b")
      case True
      then show ?thesis using first_free_bounds [of "i + n" cs] n by (simp add: first_free_append i)
    next
      case False
      then have "first_free 0 as < i" using first_free_less [of as 0] heap_chain_big [OF c(1)] by (simp add: i)
      with False show ?thesis unfolding first_free_append if_not_P [OF False] by simp
    qed
    then show "?M \<le> room h" using L by simp
  qed
  let ?h2 = "?h1\<lparr>lfree := heap_ptr h + of_nat ?M\<rparr>"
  have lf: "(if heap_ptr h + of_nat i < lfree ?h1 then ?h1\<lparr>lfree := heap_ptr h + of_nat i\<rparr> else ?h1) = ?h2"
    using at_less [OF at(7) L(2,1)] c(5) M(1) by simp
  let ?h3 = "?h2\<lparr>used_mem := used_mem ?h2 - of_nat n\<rparr>"
  have c3: "heap_chain ?h3 ?fs" "lfree ?h3 = heap_ptr ?h3 + of_nat ?M" "?M \<le> room ?h3"
    using h1(1) M(2) by (simp_all add: room_def)
  from plug_holes_plugs [OF c3(1) i c3(2,3)] obtain g where g: "plug_holes (heap_ptr h + of_nat i) ?h3 = Some g" "heap_chain g (plug as n cs)"
    "touches ?fs ?h3 g" "lfree g = heap_ptr h + of_nat (plug_free ?M as n cs)" "heap_sem g = 0"
    "used_mem g = used_mem h - of_nat n" by auto
  have u: "used_mem ?h2 - (h_next (hdr ?h2 (heap_ptr h + of_nat i)) - (heap_ptr h + of_nat i - heap_ptr ?h2)) = used_mem ?h2 - of_nat n"
    using at1 by simp
  have ok: "h_used (hdr ?h0 (heap_ptr h + of_nat i)) \<noteq> 0 \<and> h_magic (hdr ?h0 (heap_ptr h + of_nat i)) = HEAP_MAGIC"
    using at(1) by simp
  have dead: "\<not> (?p < heap_ptr h \<or> heap_end h \<le> ?p)" using p by auto
  have asrt: "\<not> \<not> (?p AND 3 = 0 \<and> heap_ptr h \<le> ?p \<and> ?p < heap_end h)" using p by blast
  have okn: "\<not> \<not> (h_used (hdr ?h0 (heap_ptr h + of_nat i)) \<noteq> 0 \<and> h_magic (hdr ?h0 (heap_ptr h + of_nat i)) = HEAP_MAGIC)"
    using ok by blast
  have t: "take_heap_sem h = Some ?h0" using c(3) by (simp add: take_heap_sem_def)
  have "rt_free ?p h = Some (release_heap_sem g)"
    unfolding rt_free_def if_not_P [OF p(1)] if_not_P [OF asrt] if_not_P [OF dead] Let_def mem t bind.bind_lunit
      if_not_P [OF okn] lf u g(1) ..
  moreover have "heap_inv (release_heap_sem g) (plug as n cs)"
  proof -
    have "used_mem g = of_nat (used_sum (plug as n cs))" unfolding g(6) c(4) plug_used(1) by simp
    moreover have "heap_sem (release_heap_sem g) = 1" using g(5) by (simp add: release_heap_sem_def)
    moreover have "heap_ptr g = heap_ptr h" using g(3) by (simp add: touches_def)
    moreover have "coalesced (plug as n cs)"
      using plug_coalesced [OF c(2)] c(2) by (auto simp: coalesced_def successively_append_iff successively_Cons)
    moreover have "first_free 0 (plug as n cs) = plug_free ?M as n cs"
      using plug_first_free [of as n cs] heap_chain_big [OF c(1)] n by simp
    moreover have "\<forall>b \<in> set (plug as n cs). snd b \<longrightarrow> 12 < fst b" using plug_used(2) c(6) by auto
    ultimately show ?thesis using g(2,4) by (simp add: heap_inv_def) (simp add: release_heap_sem_def)
  qed
  moreover have "touches ?bs h (release_heap_sem g)"
  proof -
    have "touches ?bs h ?h3" using h1(2) by (simp add: touches_def header_area_def span12_def room_def)
    from touches_trans [OF this g(3)] show ?thesis by simp
  qed
  ultimately show ?thesis by blast
qed

end
