(* ===== verification/MemClient.thy ===== *)
theory MemClient imports MemFree begin

text \<open>
  The heap as its clients see it: the contract of an allocator, what follows from it for every sequence
  of calls, and its interpretation on the functions of mem.c.
\<close>

subsection \<open>Used blocks\<close>

fun used_at :: "nat \<Rightarrow> blocks \<Rightarrow> (nat \<times> nat) set" where
  "used_at i [] = {}"
| "used_at i (b # bs) = (if snd b then {(i, fst b)} else {}) \<union> used_at (i + fst b) bs"

lemma used_at_append [simp]: "used_at i (as @ bs) = used_at i as \<union> used_at (i + tot as) bs"
  by (induction as arbitrary: i) (auto simp: add.assoc)

lemma used_at_bounds: "(j, n) \<in> used_at i bs \<Longrightarrow> i \<le> j \<and> j + n \<le> i + tot bs"
  by (induction bs arbitrary: i) (fastforce split: if_split_asm)+

lemma used_at_split: "(j, n) \<in> used_at i bs \<Longrightarrow> \<exists>as cs. bs = as @ (n, True) # cs \<and> j = i + tot as"
proof (induction bs arbitrary: i)
  case (Cons b bs)
  show ?case
  proof (cases "(j, n) \<in> used_at (i + fst b) bs")
    case True
    from Cons.IH [OF this] obtain as cs where "bs = as @ (n, True) # cs" "j = i + fst b + tot as" by blast
    then show ?thesis by (intro exI [of _ "b # as"] exI [of _ cs]) simp
  next
    case False
    with Cons.prems have "b = (n, True)" "j = i" by (cases b; auto split: if_split_asm)+
    then show ?thesis by (intro exI [of _ "[]"] exI [of _ bs]) simp
  qed
qed simp

lemma used_at_disjoint:
  "(i, n) \<in> used_at k bs \<Longrightarrow> (j, m) \<in> used_at k bs \<Longrightarrow> (i, n) = (j, m) \<or> i + n \<le> j \<or> j + m \<le> i"
proof (induction bs arbitrary: k)
  case (Cons b bs)
  have "k + fst b \<le> x" if "(x, y) \<in> used_at (k + fst b) bs" for x y using used_at_bounds [OF that] by simp
  with Cons show ?case by (fastforce split: if_split_asm)
qed simp

lemma used_at_plug: "used_at 0 (plug as n cs) = used_at 0 as \<union> used_at (tot as + n) cs"
proof -
  obtain n' cs' where pn: "plug_next n cs = (n', cs')" by (cases "plug_next n cs")
  have c: "used_at (i + n') cs' = used_at (i + n) cs" for i
    using pn by (cases "(n, cs)" rule: plug_next.cases) (auto simp: add.assoc)
  show ?thesis using pn c [of "tot as"] by (cases as rule: rev_exhaust) (auto simp: plug_def plug_prev_def add.assoc)
qed

lemma used_at_alloc:
  assumes "s + 12 \<le> n"
  shows "\<exists>m. s + 12 \<le> m \<and> m \<le> n \<and> used_at i (split_block s n) = {(i, m)}"
  using assms by (auto simp: split_block_def)

subsection \<open>Data\<close>

definition block_data :: "heap \<Rightarrow> u32 \<Rightarrow> u32 set" where
  "block_data h p = (\<lambda>k. p + of_nat k) ` {..<unat (h_next (hdr h (p - SIZEOF_STRUCT_MEM)) - (p - heap_ptr h))}"

definition pointers :: "heap \<Rightarrow> blocks \<Rightarrow> u32 set" where
  "pointers h bs = (\<lambda>(i, n). heap_ptr h + of_nat (i + 12)) ` used_at 0 bs"

definition owns :: "heap \<Rightarrow> u32 set \<Rightarrow> bool" where
  "owns h P \<longleftrightarrow> (\<exists>bs. heap_inv h bs \<and> 24 \<le> room h \<and> P = pointers h bs)"

lemma block_data_at:
  assumes "heap_chain h bs" and "(i, n) \<in> used_at 0 bs"
  shows "block_data h (heap_ptr h + of_nat (i + 12)) = (\<lambda>k. heap_ptr h + of_nat k) ` {i + 12..<i + n}"
proof -
  obtain as cs where bs: "bs = as @ (n, True) # cs" "i = tot as" using used_at_split [OF assms(2)] by auto
  note at = chain_at [OF assms(1) [unfolded bs(1)], folded bs(2)]
  have m: "heap_ptr h + of_nat (i + 12) - SIZEOF_STRUCT_MEM = heap_ptr h + of_nat i"
    "heap_ptr h + of_nat (i + 12) - heap_ptr h = of_nat (i + 12)" by (simp_all add: SIZEOF_STRUCT_MEM_def)
  have d: "unat (of_nat (i + n) - of_nat (i + 12) :: u32) = n - 12"
    by (subst unat_diff_nat) (use at(2,4,5) in auto)
  have s: "{i + 12..<i + n} = (\<lambda>k. i + 12 + k) ` {..<n - 12}"
  proof (intro equalityI subsetI)
    fix x assume "x \<in> {i + 12..<i + n}"
    then show "x \<in> (\<lambda>k. i + 12 + k) ` {..<n - 12}" by (intro image_eqI [of _ _ "x - (i + 12)"]) auto
  qed auto
  show ?thesis unfolding block_data_def m at(1) heap_mem.simps d s image_image by (simp add: add.assoc)
qed

lemma at_inj:
  assumes "heap_shape h" and "x < room h + 12" and "y < room h + 12"
  shows "heap_ptr h + of_nat x = heap_ptr h + of_nat y \<longleftrightarrow> x = y"
proof -
  have "x < 2 ^ 32" "y < 2 ^ 32" using assms by (simp_all add: heap_shape_def)
  then show ?thesis using of_nat_u32_eq by simp
qed

lemma data_not_header:
  assumes "heap_chain h bs" and "(i, n) \<in> used_at 0 bs" and "i + 12 \<le> k" and "k < i + n"
  shows "heap_ptr h + of_nat k \<notin> header_area h bs"
proof
  assume "heap_ptr h + of_nat k \<in> header_area h bs"
  then obtain s where s: "s \<in> insert (room h) (set (starts 0 bs))" "heap_ptr h + of_nat k \<in> span12 h s"
    unfolding header_area_def by (rule UN_E)
  from s(2) obtain e where e: "s \<le> e" "e < s + 12" "heap_ptr h + of_nat k = heap_ptr h + of_nat e"
    unfolding span12_def by auto
  obtain as cs where bs: "bs = as @ (n, True) # cs" "i = tot as" using used_at_split [OF assms(2)] by auto
  note at = chain_at [OF assms(1) [unfolded bs(1)], folded bs(2)]
  have big: "big as" "big cs" using heap_chain_big [OF assms(1)] by (simp_all add: bs)
  have le: "s \<le> room h" using starts_bounds [OF heap_chain_big [OF assms(1)], of s 0] s(1) assms(1) by (auto simp: heap_chain_def)
  have "k = e" using at_inj [OF at(7), of k e] e le assms(4) at(4) by simp
  moreover have "s = i \<or> s + 12 \<le> i \<or> i + n \<le> s"
    using s(1) starts_bounds [OF big(1), of s 0] starts_bounds [OF big(2), of s "i + n"] at(4) by (auto simp: bs)
  ultimately show False using assms(3,4) e(1,2) by auto
qed

subsection \<open>The contract of an allocator\<close>

text \<open>
  \<open>owns h P\<close>: the heap is well formed and the pointers handed out and not yet freed are \<open>P\<close>; each has
  its data, a set of addresses. A call returns, gives either the null pointer and changes nothing, or a
  new pointer, and touches nobody's data; a client may write to the data it owns.
\<close>

locale allocator =
  fixes malloc :: "u32 \<Rightarrow> 'h \<Rightarrow> (u32 \<times> 'h) option" and free :: "u32 \<Rightarrow> 'h \<Rightarrow> 'h option"
    and store :: "u32 \<Rightarrow> u8 \<Rightarrow> 'h \<Rightarrow> 'h" and byte :: "'h \<Rightarrow> u32 \<Rightarrow> u8"
    and owns :: "'h \<Rightarrow> u32 set \<Rightarrow> bool" and cells :: "'h \<Rightarrow> u32 \<Rightarrow> u32 set"
  assumes malloc_law: "owns h P \<Longrightarrow> \<exists>p h'. malloc sz h = Some (p, h') \<and>
      (p = 0 \<and> h' = h \<or> p \<noteq> 0 \<and> p \<notin> P \<and> owns h' (insert p P) \<and>
        (unat sz \<le> 2 ^ 32 - 4 \<longrightarrow> (\<forall>k < unat sz. p + of_nat k \<in> cells h' p)) \<and>
        (\<forall>q \<in> P. cells h' q = cells h q \<and> (\<forall>x \<in> cells h q. byte h' x = byte h x)))"
    and free_law: "owns h P \<Longrightarrow> p \<in> P \<Longrightarrow> \<exists>h'. free p h = Some h' \<and> owns h' (P - {p}) \<and>
      (\<forall>q \<in> P - {p}. cells h' q = cells h q \<and> (\<forall>x \<in> cells h q. byte h' x = byte h x))"
    and store_law: "owns h P \<Longrightarrow> p \<in> P \<Longrightarrow> x \<in> cells h p \<Longrightarrow> owns (store x b h) P \<and>
      (\<forall>q \<in> P. cells (store x b h) q = cells h q) \<and> (\<forall>y. byte (store x b h) y = (if y = x then b else byte h y))"
    and cells_disjoint: "owns h P \<Longrightarrow> p \<in> P \<Longrightarrow> q \<in> P \<Longrightarrow> p \<noteq> q \<Longrightarrow> cells h p \<inter> cells h q = {}"

text \<open>A client: it asks for memory, frees the \<open>k\<close>-th pointer that it holds, or writes a byte of its data.\<close>

datatype heap_call = Alloc u32 | Release nat | Store nat nat u8

definition remove_nth :: "nat \<Rightarrow> 'b list \<Rightarrow> 'b list" where
  "remove_nth k xs = take k xs @ drop (Suc k) xs"

fun step_client :: "(u32 \<Rightarrow> 'h \<Rightarrow> (u32 \<times> 'h) option) \<Rightarrow> (u32 \<Rightarrow> 'h \<Rightarrow> 'h option) \<Rightarrow> (u32 \<Rightarrow> u8 \<Rightarrow> 'h \<Rightarrow> 'h) \<Rightarrow> ('h \<Rightarrow> u32 \<Rightarrow> u32 set) \<Rightarrow>
    heap_call \<Rightarrow> u32 list \<times> 'h \<Rightarrow> (u32 list \<times> 'h) option" where
  "step_client malloc free store cells (Alloc sz) (ps, h) =
     do { (p, h) \<leftarrow> malloc sz h; Some (if p = 0 then ps else p # ps, h) }"
| "step_client malloc free store cells (Release k) (ps, h) =
     (if k < length ps then do { h \<leftarrow> free (ps ! k) h; Some (remove_nth k ps, h) } else Some (ps, h))"
| "step_client malloc free store cells (Store k d b) (ps, h) =
     Some (ps, if k < length ps \<and> ps ! k + of_nat d \<in> cells h (ps ! k) then store (ps ! k + of_nat d) b h else h)"

fun run_client :: "(heap_call \<Rightarrow> 's \<Rightarrow> 's option) \<Rightarrow> heap_call list \<Rightarrow> 's \<Rightarrow> 's option" where
  "run_client f [] s = Some s"
| "run_client f (c # cs) s = do { s \<leftarrow> f c s; run_client f cs s }"

text \<open>The calls neither free \<open>p\<close> nor write through it.\<close>

fun spares :: "u32 \<Rightarrow> heap_call \<Rightarrow> u32 list \<Rightarrow> bool" where
  "spares p (Alloc sz) ps = True"
| "spares p (Release k) ps = (k < length ps \<longrightarrow> ps ! k \<noteq> p)"
| "spares p (Store k d b) ps = (k < length ps \<longrightarrow> ps ! k \<noteq> p)"

fun spared :: "(heap_call \<Rightarrow> u32 list \<times> 'h \<Rightarrow> (u32 list \<times> 'h) option) \<Rightarrow> u32 \<Rightarrow> heap_call list \<Rightarrow> u32 list \<times> 'h \<Rightarrow> bool" where
  "spared f p [] s = True"
| "spared f p (c # cs) s = (spares p c (fst s) \<and> (case f c s of None \<Rightarrow> True | Some t \<Rightarrow> spared f p cs t))"

lemma remove_nth_set:
  assumes "distinct ps" and "k < length ps"
  shows "set (remove_nth k ps) = set ps - {ps ! k}" and "distinct (remove_nth k ps)"
proof -
  have e: "ps = take k ps @ ps ! k # drop (Suc k) ps" using assms(2) by (rule id_take_nth_drop)
  have "distinct (take k ps @ ps ! k # drop (Suc k) ps)" using assms(1) e by simp
  then show "set (remove_nth k ps) = set ps - {ps ! k}" "distinct (remove_nth k ps)"
    using arg_cong [OF e, of set] by (auto simp: remove_nth_def)
qed

context allocator begin

lemma step_total:
  assumes "owns h (set ps)" and "distinct ps"
  shows "\<exists>qs h'. step_client malloc free store cells c (ps, h) = Some (qs, h') \<and> owns h' (set qs) \<and> distinct qs"
proof (cases c)
  case (Alloc sz)
  from malloc_law [OF assms(1), of sz] assms show ?thesis by (auto simp: Alloc)
next
  case (Release k)
  show ?thesis
  proof (cases "k < length ps")
    case True
    then obtain h' where "free (ps ! k) h = Some h'" "owns h' (set ps - {ps ! k})" using free_law [OF assms(1)] nth_mem by blast
    then show ?thesis using True remove_nth_set [OF assms(2) True] by (simp add: Release)
  qed (use assms in \<open>simp add: Release\<close>)
next
  case (Store k d b)
  then show ?thesis using store_law [OF assms(1) nth_mem] assms by auto
qed

lemma run_total:
  assumes "owns h (set ps)" and "distinct ps"
  shows "\<exists>qs h'. run_client (step_client malloc free store cells) cs (ps, h) = Some (qs, h') \<and> owns h' (set qs) \<and> distinct qs"
  using assms
proof (induction cs arbitrary: ps h)
  case (Cons c cs)
  from step_total [OF Cons.prems, of c] obtain qs g where s: "step_client malloc free store cells c (ps, h) = Some (qs, g)"
    "owns g (set qs)" "distinct qs" by blast
  from Cons.IH [OF s(2,3)] s(1) show ?case by simp
qed simp

lemma step_keeps_data:
  assumes "owns h (set ps)" and "distinct ps" and "p \<in> set ps" and "spares p c ps" and "x \<in> cells h p"
    and "step_client malloc free store cells c (ps, h) = Some (qs, h')"
  shows "p \<in> set qs \<and> cells h' p = cells h p \<and> byte h' x = byte h x"
proof (cases c)
  case (Alloc sz)
  from malloc_law [OF assms(1), of sz] assms(3,5,6) show ?thesis by (auto simp: Alloc split: if_split_asm)
next
  case (Release k)
  show ?thesis
  proof (cases "k < length ps")
    case True
    then obtain g where g: "free (ps ! k) h = Some g"
      "\<forall>q \<in> set ps - {ps ! k}. cells g q = cells h q \<and> (\<forall>x \<in> cells h q. byte g x = byte h x)"
      using free_law [OF assms(1)] nth_mem by blast
    have "p \<in> set ps - {ps ! k}" using assms(3,4) True by (simp add: Release)
    then show ?thesis using g assms(5,6) True remove_nth_set [OF assms(2) True] by (auto simp: Release)
  qed (use assms in \<open>simp add: Release\<close>)
next
  case (Store k d b)
  show ?thesis
  proof (cases "k < length ps \<and> ps ! k + of_nat d \<in> cells h (ps ! k)")
    case True
    then have "ps ! k \<noteq> p" using assms(4) by (simp add: Store)
    then have "x \<noteq> ps ! k + of_nat d" using cells_disjoint [OF assms(1) assms(3) nth_mem, of k] True assms(5) by auto
    then show ?thesis using store_law [OF assms(1) nth_mem, of k] True assms(3,6) by (auto simp: Store)
  qed (use assms in \<open>auto simp: Store\<close>)
qed

lemma run_keeps_data:
  assumes "owns h (set ps)" and "distinct ps" and "p \<in> set ps" and "x \<in> cells h p"
    and "spared (step_client malloc free store cells) p cs (ps, h)"
    and "run_client (step_client malloc free store cells) cs (ps, h) = Some (qs, h')"
  shows "p \<in> set qs \<and> cells h' p = cells h p \<and> byte h' x = byte h x"
  using assms
proof (induction cs arbitrary: ps h)
  case (Cons c cs)
  from step_total [OF Cons.prems(1,2), of c] obtain rs g where s: "step_client malloc free store cells c (ps, h) = Some (rs, g)"
    "owns g (set rs)" "distinct rs" by blast
  have "p \<in> set rs \<and> cells g p = cells h p \<and> byte g x = byte h x"
    using step_keeps_data [OF Cons.prems(1-3) _ Cons.prems(4) s(1)] Cons.prems(5) by simp
  with Cons.IH [OF s(2,3)] s(1) Cons.prems(4-6) show ?case by simp
qed simp

end

subsection \<open>The heap keeps the contract\<close>

definition store_byte :: "u32 \<Rightarrow> u8 \<Rightarrow> heap \<Rightarrow> heap" where
  "store_byte x b h = h\<lparr>memory := (memory h)(x := b)\<rparr>"

lemma load_hdr_other:
  assumes "x \<notin> (\<lambda>k. p + of_nat k) ` {..<12}"
  shows "load_hdr (m(x := b)) p = load_hdr m p"
proof -
  have n: "x \<noteq> p + of_nat k" if "k < 12" for k using assms that by auto
  have "x \<noteq> p" using n [of 0] by simp
  moreover have "x \<noteq> p + 1" "x \<noteq> p + 2" "x \<noteq> p + 3" "x \<noteq> p + 4" "x \<noteq> p + 5" "x \<noteq> p + 6" "x \<noteq> p + 7" "x \<noteq> p + 8"
    "x \<noteq> p + 9" "x \<noteq> p + 10" "x \<noteq> p + 11"
    using n [of 1] n [of 2] n [of 3] n [of 4] n [of 5] n [of 6] n [of 7] n [of 8] n [of 9] n [of 10] n [of 11] by simp_all
  ultimately show ?thesis by (simp add: load_hdr_def load16_def load32_def add.assoc)
qed

lemma span12_shift: "span12 h i = (\<lambda>k. heap_ptr h + of_nat i + of_nat k) ` {..<12}"
proof -
  have "{i..<i + 12} = (\<lambda>k. i + k) ` {..<12}"
  proof (intro equalityI subsetI)
    fix x assume "x \<in> {i..<i + 12}"
    then show "x \<in> (\<lambda>k. i + k) ` {..<12}" by (intro image_eqI [of _ _ "x - i"]) auto
  qed auto
  then show ?thesis by (simp add: span12_def image_image add.assoc)
qed

lemma store_byte_chain:
  assumes "heap_chain h bs" and "x \<notin> header_area h bs"
  shows "heap_chain (store_byte x b h) bs" and "k \<in> insert (room h) (set (starts 0 bs)) \<Longrightarrow> blk (store_byte x b h) k = blk h k"
proof -
  have same: "blk (store_byte x b h) k = blk h k" if "k \<in> insert (room h) (set (starts 0 bs))" for k
  proof -
    have "x \<notin> span12 h k" using assms(2) that by (auto simp: header_area_def)
    then show ?thesis using load_hdr_other [of x "heap_ptr h + of_nat k" "memory h" b]
      by (simp add: blk_def hdr_def store_byte_def span12_shift)
  qed
  then show "k \<in> insert (room h) (set (starts 0 bs)) \<Longrightarrow> blk (store_byte x b h) k = blk h k" .
  have "chain (blk (store_byte x b h)) 0 0 bs = chain (blk h) 0 0 bs" by (rule chain_cong) (simp add: same)
  then show "heap_chain (store_byte x b h) bs"
    using assms(1) same [of "room h"] by (simp add: heap_chain_def) (simp add: store_byte_def heap_shape_def room_def)
qed

lemma owns_pointer:
  assumes "heap_inv h bs" and "p \<in> pointers h bs"
  shows "\<exists>i n. (i, n) \<in> used_at 0 bs \<and> p = heap_ptr h + of_nat (i + 12) \<and> p \<noteq> 0 \<and> i + n \<le> room h \<and> 12 < n \<and>
    block_data h p = (\<lambda>k. heap_ptr h + of_nat k) ` {i + 12..<i + n}"
proof -
  obtain i n where i: "(i, n) \<in> used_at 0 bs" "p = heap_ptr h + of_nat (i + 12)" using assms(2) by (auto simp: pointers_def)
  have c: "heap_chain h bs" using assms(1) by (simp add: heap_inv_def)
  obtain as cs where bs: "bs = as @ (n, True) # cs" "i = tot as" using used_at_split [OF i(1)] by auto
  have n: "12 < n" "i + n \<le> room h"
    using assms(1) used_at_bounds [OF i(1)] c by (auto simp: heap_inv_def bs heap_chain_def)
  have "unat p = unat (heap_ptr h) + (i + 12)" unfolding i(2) using n c by (intro unat_at) (auto simp: heap_chain_def)
  then have "p \<noteq> 0" by (auto simp: unat_eq_zero [symmetric])
  then show ?thesis using i n block_data_at [OF c i(1)] by blast
qed

text \<open>The pointers that stay keep their data when only headers of \<open>bs\<close> are written and their blocks stay.\<close>

lemma data_kept:
  assumes "heap_chain h bs" and "heap_chain h' bs'" and "touches cs h h'" and "(i, n) \<in> used_at 0 bs" and "(i, n) \<in> used_at 0 bs'"
    and "cs = bs \<or> cs = bs'" and "q = heap_ptr h + of_nat (i + 12)"
  shows "block_data h' q = block_data h q \<and> (\<forall>x \<in> block_data h q. memory h' x = memory h x)"
proof -
  have hp: "heap_ptr h' = heap_ptr h" "header_area h' = header_area h"
    using assms(3) by (simp_all add: touches_def header_area_def span12_def room_def fun_eq_iff)
  have d: "block_data h q = (\<lambda>k. heap_ptr h + of_nat k) ` {i + 12..<i + n}" "block_data h' q = block_data h q"
    using block_data_at [OF assms(1,4)] block_data_at [OF assms(2,5)] by (simp_all add: hp assms(7))
  have "memory h' x = memory h x" if x: "x \<in> block_data h q" for x
  proof -
    obtain k where k: "x = heap_ptr h + of_nat k" "i + 12 \<le> k" "k < i + n" using x unfolding d(1) by auto
    have "x \<notin> header_area h bs" "x \<notin> header_area h bs'"
      using data_not_header [OF assms(1,4) k(2,3)] data_not_header [OF assms(2,5) k(2,3)] by (simp_all add: k(1) hp)
    then show ?thesis using assms(3,6) by (auto simp: touches_def)
  qed
  then show ?thesis using d(2) by blast
qed

lemma owns_malloc:
  assumes "owns h P"
  shows "\<exists>p h'. rt_malloc sz h = Some (p, h') \<and> (p = 0 \<and> h' = h \<or> p \<noteq> 0 \<and> p \<notin> P \<and> owns h' (insert p P) \<and>
    (unat sz \<le> 2 ^ 32 - 4 \<longrightarrow> (\<forall>k < unat sz. p + of_nat k \<in> block_data h' p)) \<and>
    (\<forall>q \<in> P. block_data h' q = block_data h q \<and> (\<forall>x \<in> block_data h q. memory h' x = memory h x)))"
proof -
  obtain bs where o: "heap_inv h bs" "24 \<le> room h" "P = pointers h bs" using assms by (auto simp: owns_def)
  note m = malloc_refines [OF o(1,2), of sz]
  show ?thesis
  proof (cases "(sz = 0 \<or> room h < 12 + unat (RT_ALIGN sz 4)) \<or> alloc_blocks (room h) (data_size sz) bs = None")
    case True
    then have "rt_malloc sz h = Some (0, h)" using m by (auto split: if_split_asm)
    then show ?thesis by blast
  next
    case False
    then obtain as n cs where f: "find_fit (room h - 12 - data_size sz) (data_size sz) 0 bs = Some (as, n, cs)"
      by (auto simp: alloc_blocks_def split: option.split_asm)
    let ?bs = "as @ split_block (data_size sz) n @ cs" and ?i = "tot as"
    have bs: "bs = as @ (n, False) # cs" "data_size sz + 12 \<le> n" using find_fit_Some [OF f] by simp_all
    obtain h' where h': "rt_malloc sz h = Some (heap_ptr h + of_nat (?i + 12), h')" "heap_inv h' ?bs" "touches ?bs h h'"
      using m False f by (auto simp: alloc_blocks_def)
    let ?p = "heap_ptr h + of_nat (?i + 12)"
    obtain k where k: "k \<le> n" "data_size sz + 12 \<le> k" "used_at ?i (split_block (data_size sz) n) = {(?i, k)}" using used_at_alloc [OF bs(2)] by blast
    have c: "heap_chain h bs" "heap_chain h' ?bs" "heap_shape h" using o(1) h'(2) by (simp_all add: heap_inv_def heap_chain_def)
    have hp: "heap_ptr h' = heap_ptr h" "room h' = room h" using h'(3) touches_room by (auto simp: touches_def)
    have u: "used_at 0 ?bs = insert (?i, k) (used_at 0 bs)"
      using k(3) split_block_facts(1) [OF bs(2)] by (auto simp: bs(1))
    have P: "pointers h' ?bs = insert ?p P" unfolding pointers_def u o(3) hp by simp
    have "?p \<in> pointers h' ?bs" by (simp add: P)
    from owns_pointer [OF h'(2) this] have "?p \<noteq> 0" by blast
    moreover have "?p + of_nat x \<in> block_data h' ?p" if x: "x < unat sz" "unat sz \<le> 2 ^ 32 - 4" for x
    proof -
      have "unat sz \<le> data_size sz" using x(2) by (simp add: data_size_def align_4)
      moreover have "block_data h' ?p = (\<lambda>k. heap_ptr h + of_nat k) ` {?i + 12..<?i + k}"
      proof -
        have "(?i, k) \<in> used_at 0 ?bs" unfolding u by simp
        from block_data_at [OF c(2) this] show ?thesis unfolding hp .
      qed
      ultimately show ?thesis using k(2) x(1) by (auto intro!: image_eqI [of _ _ "?i + 12 + x"])
    qed
    moreover have "?p \<notin> P"
    proof
      assume "?p \<in> P"
      then obtain j l where j: "(j, l) \<in> used_at 0 bs" "?p = heap_ptr h + of_nat (j + 12)" "j + l \<le> room h" "12 < l"
        using owns_pointer [OF o(1)] o(3) by metis
      have "?i + n \<le> room h" using c(1) by (simp add: heap_chain_def bs(1))
      then have "j = ?i" using at_eq [OF c(3), of "?i + 12" "j + 12"] j(2-4) bs(2) by simp
      then show False using j(1,4) used_at_bounds [of j l 0 as] used_at_bounds [of j l "?i + n" cs] bs(2) by (auto simp: bs(1))
    qed
    moreover have "block_data h' q = block_data h q \<and> (\<forall>x \<in> block_data h q. memory h' x = memory h x)" if q: "q \<in> P" for q
    proof -
      obtain j l where "(j, l) \<in> used_at 0 bs" "q = heap_ptr h + of_nat (j + 12)" using q o(3) by (auto simp: pointers_def)
      then show ?thesis using data_kept [OF c(1,2) h'(3)] u by blast
    qed
    moreover have "owns h' (insert ?p P)" unfolding owns_def using h'(2) P hp(2) o(2) by auto
    ultimately show ?thesis using h'(1) by blast
  qed
qed

lemma owns_free:
  assumes "owns h P" and "p \<in> P"
  shows "\<exists>h'. rt_free p h = Some h' \<and> owns h' (P - {p}) \<and>
    (\<forall>q \<in> P - {p}. block_data h' q = block_data h q \<and> (\<forall>x \<in> block_data h q. memory h' x = memory h x))"
proof -
  obtain bs where o: "heap_inv h bs" "24 \<le> room h" "P = pointers h bs" using assms by (auto simp: owns_def)
  obtain i n where i: "(i, n) \<in> used_at 0 bs" "p = heap_ptr h + of_nat (i + 12)" "i + n \<le> room h"
    using owns_pointer [OF o(1)] assms(2) o(3) by blast
  obtain as cs where bs: "bs = as @ (n, True) # cs" "i = tot as" using used_at_split [OF i(1)] by auto
  obtain h' where h': "rt_free p h = Some h'" "heap_inv h' (plug as n cs)" "touches bs h h'"
    using free_refines [OF o(1) [unfolded bs(1)] bs(2)] by (auto simp: i(2) bs(1))
  have c: "heap_chain h bs" "heap_chain h' (plug as n cs)" "heap_shape h" using o(1) h'(2) by (simp_all add: heap_inv_def heap_chain_def)
  have hp: "heap_ptr h' = heap_ptr h" "room h' = room h" using h'(3) touches_room by (auto simp: touches_def)
  have n: "12 < n" using o(1) by (simp add: heap_inv_def bs(1))
  have u: "used_at 0 (plug as n cs) = used_at 0 bs - {(i, n)}"
    using used_at_bounds [of i n 0 as] used_at_bounds [of i n "i + n" cs] n by (auto simp: used_at_plug bs)
  have inj: "(j, l) = (i, n)" if "(j, l) \<in> used_at 0 bs" "heap_ptr h + of_nat (j + 12) = p" for j l
  proof -
    have "heap_ptr h + of_nat (j + 12) \<in> pointers h bs" using that(1) by (auto simp: pointers_def)
    have "j + l \<le> room h" "12 < l" using used_at_bounds [OF that(1)] c(1) o(1) used_at_split [OF that(1)]
      by (auto simp: heap_chain_def heap_inv_def)
    then have "j = i" using at_eq [OF c(3), of "j + 12" "i + 12"] that(2) i(2,3) n by simp
    then show ?thesis using used_at_disjoint [OF that(1) i(1)] n \<open>12 < l\<close> by auto
  qed
  have P: "pointers h' (plug as n cs) = P - {p}"
    unfolding pointers_def u o(3) hp using inj i(2) by auto
  have "block_data h' q = block_data h q \<and> (\<forall>x \<in> block_data h q. memory h' x = memory h x)" if q: "q \<in> P - {p}" for q
  proof -
    obtain j l where "(j, l) \<in> used_at 0 bs" "q = heap_ptr h + of_nat (j + 12)" using q o(3) by (auto simp: pointers_def)
    then show ?thesis using data_kept [OF c(1,2) h'(3), of j l q] u q i(2) by auto
  qed
  moreover have "owns h' (P - {p})" unfolding owns_def using h'(2) P hp(2) o(2) by auto
  ultimately show ?thesis using h'(1) by blast
qed

lemma owns_store:
  assumes "owns h P" and "p \<in> P" and "x \<in> block_data h p"
  shows "owns (store_byte x b h) P \<and> (\<forall>q \<in> P. block_data (store_byte x b h) q = block_data h q) \<and>
    (\<forall>y. memory (store_byte x b h) y = (if y = x then b else memory h y))"
proof -
  obtain bs where o: "heap_inv h bs" "24 \<le> room h" "P = pointers h bs" using assms by (auto simp: owns_def)
  have c: "heap_chain h bs" using o(1) by (simp add: heap_inv_def)
  obtain i n where i: "(i, n) \<in> used_at 0 bs" "block_data h p = (\<lambda>k. heap_ptr h + of_nat k) ` {i + 12..<i + n}"
    using owns_pointer [OF o(1)] assms(2) o(3) by blast
  obtain k where "x = heap_ptr h + of_nat k" "i + 12 \<le> k" "k < i + n" using assms(3) unfolding i(2) by auto
  then have x: "x \<notin> header_area h bs" using data_not_header [OF c i(1)] by blast
  note s = store_byte_chain [OF c x, where b = b]
  have f: "heap_ptr (store_byte x b h) = heap_ptr h" "room (store_byte x b h) = room h" "lfree (store_byte x b h) = lfree h"
    "heap_sem (store_byte x b h) = heap_sem h" "used_mem (store_byte x b h) = used_mem h"
    by (simp_all add: store_byte_def room_def)
  have inv: "heap_inv (store_byte x b h) bs" using o(1) s(1) f by (simp add: heap_inv_def)
  have P: "pointers (store_byte x b h) bs = P" by (simp add: o(3) pointers_def f)
  have d: "block_data (store_byte x b h) q = block_data h q" if q: "q \<in> P" for q
  proof -
    obtain j l where "(j, l) \<in> used_at 0 bs" "q = heap_ptr h + of_nat (j + 12)" using q o(3) by (auto simp: pointers_def)
    then show ?thesis using block_data_at [OF c] block_data_at [OF s(1)] by (simp add: f)
  qed
  have "owns (store_byte x b h) P" unfolding owns_def using inv P f(2) o(2) by auto
  then show ?thesis using d by (simp add: store_byte_def)
qed

lemma owns_disjoint:
  assumes "owns h P" and "p \<in> P" and "q \<in> P" and "p \<noteq> q"
  shows "block_data h p \<inter> block_data h q = {}"
proof -
  obtain bs where o: "heap_inv h bs" "24 \<le> room h" "P = pointers h bs" using assms by (auto simp: owns_def)
  have sh: "heap_shape h" using o(1) by (simp add: heap_inv_def heap_chain_def)
  obtain i n where i: "(i, n) \<in> used_at 0 bs" "p = heap_ptr h + of_nat (i + 12)" "i + n \<le> room h"
      "block_data h p = (\<lambda>k. heap_ptr h + of_nat k) ` {i + 12..<i + n}"
    using owns_pointer [OF o(1)] assms(2) o(3) by blast
  obtain j m where j: "(j, m) \<in> used_at 0 bs" "q = heap_ptr h + of_nat (j + 12)" "j + m \<le> room h"
      "block_data h q = (\<lambda>k. heap_ptr h + of_nat k) ` {j + 12..<j + m}"
    using owns_pointer [OF o(1)] assms(3) o(3) by blast
  have ij: "i + n \<le> j \<or> j + m \<le> i" using used_at_disjoint [OF i(1) j(1)] assms(4) i(2) j(2) by auto
  have "heap_ptr h + of_nat x \<noteq> heap_ptr h + of_nat y" if "i + 12 \<le> x" "x < i + n" "j + 12 \<le> y" "y < j + m" for x y
    using at_eq [OF sh, of x y] that ij i(3) j(3) by auto
  then show ?thesis unfolding i(4) j(4) by auto
qed

interpretation heap_allocator: allocator rt_malloc rt_free store_byte "\<lambda>h. memory h" owns block_data
  by (unfold_locales, rule owns_malloc, assumption, rule owns_free, assumption+, rule owns_store, assumption+,
      rule owns_disjoint, assumption+)

end
