(* ===== verification/MemRealloc.thy ===== *)
theory MemRealloc imports MemClient begin

text \<open>
  \<open>rt_realloc\<close>: shrinking in place, and moving to a larger block with \<open>rt_memcpy\<close>.
\<close>

subsection \<open>The block behind a pointer\<close>

text \<open>The checks before the cases of \<open>rt_realloc\<close>, for a pointer to a used block.\<close>

lemma used_pointer:
  assumes "heap_inv h (as @ (n, True) # cs)" and "i = tot as"
  shows "heap_ptr h + of_nat (i + 12) \<noteq> 0"
    and "\<not> (heap_ptr h + of_nat (i + 12) < heap_ptr h \<or> heap_end h \<le> heap_ptr h + of_nat (i + 12))"
    and "heap_ptr h + of_nat (i + 12) - SIZEOF_STRUCT_MEM = heap_ptr h + of_nat i"
    and "h_next (hdr h (heap_ptr h + of_nat i)) - (heap_ptr h + of_nat i - heap_ptr h) - SIZEOF_STRUCT_MEM = of_nat (n - 12)"
    and "unat (of_nat (n - 12) :: u32) = n - 12" and "12 < n" and "i + n + tot cs = room h"
proof -
  have c: "heap_chain h (as @ (n, True) # cs)" using assms(1) by (simp add: heap_inv_def)
  note at = chain_at [OF c, folded assms(2)]
  show n: "12 < n" "i + n + tot cs = room h" using assms(1) at(4) by (simp_all add: heap_inv_def)
  have up: "unat (heap_ptr h + of_nat (i + 12)) = unat (heap_ptr h) + (i + 12)" by (rule unat_at [OF at(7)]) (use n in simp)
  then show "heap_ptr h + of_nat (i + 12) \<noteq> 0" by (auto simp: unat_eq_zero [symmetric])
  have "heap_ptr h + of_nat (i + 12) < heap_end h"
    using at_less [OF at(7), of "i + 12" "room h"] n at(7) by (simp add: heap_shape_def)
  moreover have "heap_ptr h \<le> heap_ptr h + of_nat (i + 12)" using at_le [OF at(7), of 0 "i + 12"] n by simp
  ultimately show "\<not> (heap_ptr h + of_nat (i + 12) < heap_ptr h \<or> heap_end h \<le> heap_ptr h + of_nat (i + 12))" by auto
  show "heap_ptr h + of_nat (i + 12) - SIZEOF_STRUCT_MEM = heap_ptr h + of_nat i" by (simp add: SIZEOF_STRUCT_MEM_def)
  show "h_next (hdr h (heap_ptr h + of_nat i)) - (heap_ptr h + of_nat i - heap_ptr h) - SIZEOF_STRUCT_MEM = of_nat (n - 12)"
    unfolding at(1) using n(1) by (simp add: SIZEOF_STRUCT_MEM_def)
  show "unat (of_nat (n - 12) :: u32) = n - 12" unfolding unat_of_nat using at(5) n(2) by (intro mod_less) simp
qed

text \<open>
  Specification of \<open>rt_realloc\<close> by its cases; \<open>w\<close> is the rounded size. The shrinking case leaves \<open>lfree\<close> to
  \<open>plug_holes\<close>.
\<close>

lemma realloc_shrinks:
  assumes inv: "heap_inv h (as @ (n, True) # cs)" and i: "i = tot as" and w: "w = unat (RT_ALIGN newsize 4)" "0 < w" "w + 36 < n"
  shows "\<exists>h'. rt_realloc (heap_ptr h + of_nat (i + 12)) newsize h = Some (heap_ptr h + of_nat (i + 12), h') \<and>
    heap_chain h' (plug (as @ [(w + 12, True)]) (n - 12 - w) cs) \<and> heap_sem h' = 1 \<and>
    used_mem h' = of_nat (used_sum (as @ (w + 12, True) # cs)) \<and> heap_ptr h' = heap_ptr h \<and> room h' = room h \<and>
    lfree h' = heap_ptr h + of_nat (plug_free (first_free 0 (as @ (n, True) # cs)) (as @ [(w + 12, True)]) (n - 12 - w) cs)"
proof -
  let ?bs = "as @ (n, True) # cs" and ?p = "heap_ptr h + of_nat (i + 12)" and ?N = "RT_ALIGN newsize 4"
  have c: "heap_chain h ?bs" "heap_sem h = 1" "used_mem h = of_nat (used_sum ?bs)" "lfree h = heap_ptr h + of_nat (first_free 0 ?bs)"
    using inv by (simp_all add: heap_inv_def)
  note at = chain_at [OF c(1), folded i] and up = used_pointer [OF inv i]
  have dvd: "4 dvd w" unfolding w(1) align_4 by simp
  have N: "?N = of_nat w" by (simp add: w(1))
  have uw: "unat (of_nat w :: u32) = w" using N w(1) by simp
  have small: "\<not> ?N > mem_size_aligned h" "?N \<noteq> 0"
    using w at(4) by (auto simp: word_less_nat_alt room_def unat_eq_zero [symmetric])
  define h0 where "h0 = h\<lparr>heap_sem := 0\<rparr>"
  have t: "take_heap_sem h = Some h0" using c(2) by (simp add: take_heap_sem_def h0_def)
  have h0: "heap_ptr h0 = heap_ptr h" "heap_end h0 = heap_end h" "hdr h0 x = hdr h x" "mem_size_aligned h0 = mem_size_aligned h"
    "heap_chain h0 bs = heap_chain h bs" "used_mem h0 = used_mem h" "room h0 = room h" for x bs by (simp_all add: h0_def room_def)
  have ne: "(of_nat (n - 12) :: u32) \<noteq> ?N" using up(5) w uw N by auto
  have lt: "?N + SIZEOF_STRUCT_MEM + MIN_SIZE < of_nat (n - 12)"
  proof -
    have "unat (?N + SIZEOF_STRUCT_MEM + MIN_SIZE) = w + 24"
      using w(3) at(4,5) by (simp add: SIZEOF_STRUCT_MEM_def MIN_SIZE_def N unat_word_ariths uw)
    then show ?thesis unfolding word_less_nat_alt up(5) using w(3) by simp
  qed
  define h1 where "h1 = h0\<lparr>used_mem := used_mem h0 - (of_nat (n - 12) - ?N)\<rparr>"
  have h1: "heap_ptr h1 = heap_ptr h" "heap_end h1 = heap_end h" "hdr h1 x = hdr h x" "mem_size_aligned h1 = mem_size_aligned h"
    "heap_chain h1 bs = heap_chain h bs" "room h1 = room h" "lfree h1 = lfree h" "heap_sem h1 = 0" for x bs
    by (simp_all add: h1_def h0_def room_def)
  let ?j = "i + 12 + w"
  let ?g1 = "set_hdr (heap_ptr h1 + of_nat ?j) (\<lambda>b. \<lparr>h_magic = HEAP_MAGIC, h_used = 0, h_next = of_nat (i + n), h_prev = of_nat i\<rparr>) h1"
  let ?g2 = "set_hdr (heap_ptr h1 + of_nat i) (\<lambda>b. b\<lparr>h_next := of_nat ?j, h_used := 1\<rparr>) ?g1"
  let ?g3 = "if cs = [] then ?g2 else set_hdr (heap_ptr h1 + of_nat (i + n)) (\<lambda>b. b\<lparr>h_prev := of_nat ?j\<rparr>) ?g2"
  have ch1: "heap_chain h1 (as @ (n, True) # cs)" "w + 36 \<le> n" using c(1) h1(5) w(3) by simp_all
  note sc = split_chain [OF ch1 dvd i refl refl refl refl]
  have j: "of_nat i + SIZEOF_STRUCT_MEM + ?N = (of_nat ?j :: u32)" by (simp add: SIZEOF_STRUCT_MEM_def N)
  have sh1: "heap_shape h1" using ch1 by (simp add: heap_chain_def)
  have at1: "hdr ?g1 (heap_ptr h + of_nat i) = hdr h (heap_ptr h + of_nat i)"
    using blk_set [OF sh1, of i ?j] w(3) at(4) h1(3,6) by (simp add: blk_def h1(1))
  have g2: "set_hdr (heap_ptr h + of_nat i) (\<lambda>b. b\<lparr>h_next := of_nat ?j\<rparr>) ?g1 = ?g2"
    unfolding set_hdr_def h1(1) at1 [unfolded h1(1) set_hdr_def] using at(1) by (simp add: hdr_def)
  have "blk ?g2 ?j = blk ?g1 ?j" using blk_set [of ?g1 ?j i] sh1 w(3) at(4) h1(6) by (simp add: h1(1))
  then have nx: "h_next (hdr ?g2 (heap_ptr h + of_nat ?j)) = of_nat (i + n)" by (simp add: blk_def h1(1))
  have "mem_size_aligned ?g2 + SIZEOF_STRUCT_MEM = of_nat (room h)" by (simp add: room_def SIZEOF_STRUCT_MEM_def h1(4))
  moreover have "i + n = room h \<longleftrightarrow> cs = []" using at(4) heap_chain_big [OF c(1)] by (cases cs) auto
  ultimately have last: "h_next (hdr ?g2 (heap_ptr h + of_nat ?j)) \<noteq> mem_size_aligned ?g2 + SIZEOF_STRUCT_MEM \<longleftrightarrow> cs \<noteq> []"
    unfolding nx using of_nat_u32_eq [of "i + n" "room h"] at(4,5) by simp
  have chain: "heap_chain ?g3 ((as @ [(w + 12, True)]) @ (n - 12 - w, False) # cs)" using sc(1) by simp
  have f: "heap_ptr ?g3 = heap_ptr h" "room ?g3 = room h" "lfree ?g3 = heap_ptr ?g3 + of_nat (first_free 0 ?bs)" "heap_sem ?g3 = 0"
    "used_mem ?g3 = used_mem h1" using c(4) h1 by (simp_all add: room_def)
  have L: "first_free 0 ?bs \<le> room ?g3" unfolding f(2) using first_free_bounds [of 0 ?bs] at(4) by (simp add: i)
  have ij: "?j = tot (as @ [(w + 12, True)])" by (simp add: i)
  from plug_holes_plugs [OF chain ij f(3) L] obtain g where g: "plug_holes (heap_ptr h + of_nat ?j) ?g3 = Some g"
    "heap_chain g (plug (as @ [(w + 12, True)]) (n - 12 - w) cs)" "heap_ptr g = heap_ptr h" "room g = room h"
    "lfree g = heap_ptr h + of_nat (plug_free (first_free 0 ?bs) (as @ [(w + 12, True)]) (n - 12 - w) cs)"
    "heap_sem g = 0" "used_mem g = used_mem h1"
    unfolding f(1,4,5) using touches_room f(1,2) by (fastforce simp: touches_def)
  have nx_at: "h_next (hdr h (heap_ptr h + of_nat i)) = of_nat (i + n)" unfolding at(1) by simp
  have len: "of_nat (i + n) - of_nat i - SIZEOF_STRUCT_MEM = (of_nat (n - 12) :: u32)" using up(4) by (simp add: nx_at)
  have plug: "(if cs \<noteq> [] then set_hdr (heap_ptr h + of_nat (i + n)) (\<lambda>b. b\<lparr>h_prev := of_nat ?j\<rparr>) ?g2 else ?g2) = ?g3"
    unfolding h1(1) by simp
  note last' = last [unfolded nx set_hdr_fields]
  have "rt_realloc ?p newsize h = Some (?p, release_heap_sem g)"
    unfolding rt_realloc_def Let_def if_not_P [OF small(1)] if_not_P [OF small(2)] if_not_P [OF up(1)] t bind.bind_lunit h0(1-3)
      if_not_P [OF up(2)] up(3) add_diff_cancel_left' nx_at len if_not_P [OF ne] if_P [OF lt] h1_def [symmetric] h1(1,3) j
      g2 [unfolded h1(1)] nx [unfolded h1(1)] set_hdr_fields last' plug [unfolded h1(1)] g(1) [unfolded h1(1)] bind.bind_lunit ..
  moreover have "used_mem h1 = of_nat (used_sum (as @ (w + 12, True) # cs))"
    using w(3) up(6) by (simp add: h1_def h0_def c(3) N)
  ultimately show ?thesis using g by (intro exI [of _ "release_heap_sem g"]) (simp add: release_heap_sem_def room_def)
qed

subsection \<open>Copying\<close>

definition cells_of :: "u32 \<Rightarrow> nat \<Rightarrow> u32 set" where
  "cells_of p n = (\<lambda>k. p + of_nat k) ` {..<n}"

definition copied :: "u32 \<Rightarrow> u32 \<Rightarrow> nat \<Rightarrow> memory \<Rightarrow> memory \<Rightarrow> bool" where
  "copied d s n m m' \<longleftrightarrow> (\<forall>k < n. m' (d + of_nat k) = m (s + of_nat k)) \<and> (\<forall>x. x \<notin> cells_of d n \<longrightarrow> m' x = m x)"

lemma offset_inj: "k < 2 ^ 32 \<Longrightarrow> l < 2 ^ 32 \<Longrightarrow> d + of_nat k = d + (of_nat l :: u32) \<longleftrightarrow> k = l"
  using of_nat_u32_eq by simp

lemma copy_up_copies:
  assumes "cells_of d n \<inter> cells_of s n = {}" and "n \<le> 2 ^ 32"
  shows "copied d s n m (copy_up d s n m)"
  using assms
proof (induction n arbitrary: d s m)
  case (Suc n)
  let ?m = "m(d := m s)"
  have sub: "cells_of (d + 1) n \<subseteq> cells_of d (Suc n)" "cells_of (s + 1) n \<subseteq> cells_of s (Suc n)"
    by (force simp: cells_of_def intro!: image_eqI [of _ _ "Suc k" for k])+
  have ih: "copied (d + 1) (s + 1) n ?m (copy_up (d + 1) (s + 1) n ?m)"
    using Suc.IH [of "d + 1" "s + 1" ?m] Suc.prems sub by fastforce
  have d: "d \<notin> cells_of (d + 1) n"
  proof
    assume "d \<in> cells_of (d + 1) n"
    then obtain k where "k < n" "d + of_nat 0 = d + of_nat (Suc k)" by (auto simp: cells_of_def add.assoc)
    then show False using offset_inj [of 0 "Suc k" d] Suc.prems(2) by simp
  qed
  have "copy_up d s (Suc n) m (d + of_nat k) = m (s + of_nat k)" if "k < Suc n" for k
  proof (cases k)
    case 0
    then show ?thesis using ih d by (simp add: copied_def)
  next
    case (Suc l)
    have "s + of_nat k \<in> cells_of s (Suc n)" "d \<in> cells_of d (Suc n)"
      using that by (auto simp: cells_of_def intro: image_eqI [of _ _ 0])
    then have "s + of_nat k \<noteq> d" using Suc.prems(1) by auto
    then show ?thesis using ih that Suc by (simp add: copied_def add.assoc)
  qed
  moreover have "copy_up d s (Suc n) m x = m x" if "x \<notin> cells_of d (Suc n)" for x
  proof -
    have "x \<noteq> d" using that by (auto simp: cells_of_def intro: image_eqI [of _ _ 0])
    moreover have "x \<notin> cells_of (d + 1) n" using that sub by auto
    ultimately show ?thesis using ih by (simp add: copied_def)
  qed
  ultimately show ?case by (simp only: copied_def) blast
qed (simp add: copied_def)

lemma copy_down_copies:
  assumes "cells_of d n \<inter> cells_of s n = {}" and "n \<le> 2 ^ 32"
  shows "copied d s n m (copy_down d s n m)"
  using assms
proof (induction n arbitrary: m)
  case (Suc n)
  let ?m = "m(d + of_nat n := m (s + of_nat n))"
  have sub: "cells_of d (Suc n) = insert (d + of_nat n) (cells_of d n)" "cells_of s (Suc n) = insert (s + of_nat n) (cells_of s n)"
    by (simp_all add: cells_of_def lessThan_Suc)
  have ih: "copied d s n ?m (copy_down d s n ?m)"
    by (rule Suc.IH) (use Suc.prems sub in auto)
  have d: "d + of_nat n \<notin> cells_of d n"
    using offset_inj [of n _ d] Suc.prems(2) by (auto simp: cells_of_def)
  have "copy_down d s (Suc n) m (d + of_nat k) = m (s + of_nat k)" if k: "k < Suc n" for k
  proof (cases "k = n")
    case True
    then show ?thesis using ih d by (simp add: copied_def)
  next
    case False
    then have "s + of_nat k \<in> cells_of s n" using k by (auto simp: cells_of_def)
    then have "s + of_nat k \<noteq> d + of_nat n" using Suc.prems(1) sub by auto
    then show ?thesis using ih k False by (simp add: copied_def)
  qed
  moreover have "copy_down d s (Suc n) m x = m x" if "x \<notin> cells_of d (Suc n)" for x
    using ih that sub by (simp add: copied_def)
  ultimately show ?case by (simp only: copied_def) blast
qed (simp add: copied_def)

lemma memcpy_copies:
  assumes "cells_of d (unat n) \<inter> cells_of s (unat n) = {}"
  shows "copied d s (unat n) m (rt_memcpy d s n m)"
  using copy_up_copies [OF assms] copy_down_copies [OF assms] unsigned_less [of n, where 'a = nat]
  by (simp add: rt_memcpy_def)

text \<open>A client that writes to its own data only keeps the heap well formed.\<close>

lemma owns_writes:
  assumes "owns h P" and "q \<in> P" and "S \<subseteq> block_data h q" and "finite S" and "\<And>x. x \<notin> S \<Longrightarrow> m x = memory h x"
  shows "owns (h\<lparr>memory := m\<rparr>) P \<and> (\<forall>r \<in> P. block_data (h\<lparr>memory := m\<rparr>) r = block_data h r)"
  using assms(4,1,3,5)
proof (induction S arbitrary: h rule: finite_induct)
  case empty
  then have "m = memory h" by (simp add: fun_eq_iff)
  then have "h\<lparr>memory := m\<rparr> = h" by simp
  then show ?case using empty by simp
next
  case (insert y S)
  let ?g = "store_byte y (m y) h"
  have s: "owns ?g P" "\<forall>r \<in> P. block_data ?g r = block_data h r" "\<forall>z. memory ?g z = (if z = y then m y else memory h z)"
    using owns_store [OF insert.prems(1) assms(2), of y "m y"] insert.prems(2) by simp_all
  have "owns (?g\<lparr>memory := m\<rparr>) P \<and> (\<forall>r \<in> P. block_data (?g\<lparr>memory := m\<rparr>) r = block_data ?g r)"
    by (rule insert.IH [OF s(1)]) (use s insert.prems(2,3) assms(2) in auto)
  moreover have "?g\<lparr>memory := m\<rparr> = h\<lparr>memory := m\<rparr>" by (simp add: store_byte_def)
  ultimately show ?case using s(2) by simp
qed

subsection \<open>Moving\<close>

definition data_len :: "heap \<Rightarrow> u32 \<Rightarrow> nat" where
  "data_len h p = unat (h_next (hdr h (p - SIZEOF_STRUCT_MEM)) - (p - heap_ptr h))"

lemma block_data_cells: "block_data h p = cells_of p (data_len h p)"
  by (simp add: block_data_def cells_of_def data_len_def)

lemma cells_of_mono: "m \<le> n \<Longrightarrow> cells_of p m \<subseteq> cells_of p n"
  by (auto simp: cells_of_def)

lemma align_aligned: "RT_ALIGN (RT_ALIGN sz 4) 4 = RT_ALIGN sz 4"
proof -
  have "4 dvd unat (RT_ALIGN sz 4)" unfolding align_4 by simp
  then obtain k where k: "unat (RT_ALIGN sz 4) = 4 * k" by (elim dvdE)
  have "4 * k < 2 ^ 32" using k unsigned_less [of "RT_ALIGN sz 4", where 'a = nat] by simp
  then have "4 * k \<le> 2 ^ 32 - 4" by simp
  then have "unat (RT_ALIGN (RT_ALIGN sz 4) 4) = unat (RT_ALIGN sz 4)" unfolding align_4 [of "RT_ALIGN sz 4"] k by simp
  then show ?thesis by (simp only: word_unat_eq_iff)
qed

lemma realloc_moves:
  assumes o: "owns h P" and p: "p \<in> P" and w: "w = unat (RT_ALIGN newsize 4)" "0 < w" "w \<le> unat (mem_size_aligned h)"
    and len: "w \<noteq> data_len h p" "data_len h p \<le> w + 24"
  shows "\<exists>q h'. rt_realloc p newsize h = Some (q, h') \<and> (q = 0 \<and> h' = h \<or>
    q \<noteq> 0 \<and> q \<notin> P \<and> owns h' (insert q (P - {p})) \<and> cells_of q w \<subseteq> block_data h' q \<and>
    (\<forall>k < min w (data_len h p). memory h' (q + of_nat k) = memory h (p + of_nat k)) \<and>
    (\<forall>r \<in> P - {p}. block_data h' r = block_data h r \<and> (\<forall>x \<in> block_data h r. memory h' x = memory h x)))"
proof -
  let ?N = "RT_ALIGN newsize 4"
  obtain bs where bs: "heap_inv h bs" "24 \<le> room h" "P = pointers h bs" using o by (auto simp: owns_def)
  obtain i n where i: "(i, n) \<in> used_at 0 bs" "p = heap_ptr h + of_nat (i + 12)" using p by (auto simp: bs(3) pointers_def)
  obtain as cs where s: "bs = as @ (n, True) # cs" "i = tot as" using used_at_split [OF i(1)] by auto
  note up = used_pointer [OF bs(1) [unfolded s(1)] s(2), folded i(2)]
  have dl: "data_len h p = n - 12"
  proof -
    have "h_next (hdr h (heap_ptr h + of_nat i)) - (p - heap_ptr h) = of_nat (n - 12)"
      using up(4) by (simp add: i(2) SIZEOF_STRUCT_MEM_def algebra_simps)
    then show ?thesis unfolding data_len_def up(3) using up(5) by simp
  qed
  have "heap_sem h = 1" using bs(1) by (simp add: heap_inv_def)
  then have t: "take_heap_sem h = Some (h\<lparr>heap_sem := 0\<rparr>)" and rel: "release_heap_sem (h\<lparr>heap_sem := 0\<rparr>) = h"
    by (simp_all add: take_heap_sem_def release_heap_sem_def)
  have small: "\<not> ?N > mem_size_aligned h" "?N \<noteq> 0" using w by (auto simp: word_less_nat_alt)
  have ne: "(of_nat (n - 12) :: u32) \<noteq> ?N" using len(1) w(1) up(5) dl by auto
  have lt: "\<not> ?N + SIZEOF_STRUCT_MEM + MIN_SIZE < of_nat (n - 12)"
  proof -
    have "room h < 2 ^ 32 - 12" "w + 12 \<le> room h"
      using w(1,3) bs(1) by (simp_all add: heap_inv_def heap_chain_def heap_shape_def) (simp add: room_def)
    then have "w + 24 < 2 ^ 32" by simp
    then have "unat (?N + SIZEOF_STRUCT_MEM + MIN_SIZE) = w + 24"
      by (simp add: SIZEOF_STRUCT_MEM_def MIN_SIZE_def unat_word_ariths w(1))
    then show ?thesis unfolding word_less_nat_alt up(5) using len(2) dl by simp
  qed
  define cnt where "cnt = (if of_nat (n - 12) < ?N then of_nat (n - 12) else ?N)"
  have um: "unat cnt = min w (data_len h p)" using up(5) w(1) dl by (auto simp: cnt_def word_less_nat_alt)
  have lenq: "h_next (hdr (h\<lparr>heap_sem := 0\<rparr>) (p - SIZEOF_STRUCT_MEM)) - (p - SIZEOF_STRUCT_MEM - heap_ptr (h\<lparr>heap_sem := 0\<rparr>)) - SIZEOF_STRUCT_MEM = of_nat (n - 12)"
    using up(3,4) by simp
  have call: "rt_realloc p newsize h = do { (nmem, g) \<leftarrow> rt_malloc ?N h;
      if nmem \<noteq> 0 then do { let g = g\<lparr>memory := rt_memcpy nmem p cnt (memory g)\<rparr>; g \<leftarrow> rt_free p g; Some (nmem, g) }
      else Some (nmem, g) }"
    unfolding rt_realloc_def Let_def if_not_P [OF small(1)] if_not_P [OF small(2)] if_not_P [OF up(1)] t bind.bind_lunit lenq cnt_def
    using up(2) ne lt rel by simp
  obtain q g where m: "rt_malloc ?N h = Some (q, g)" and alt: "q = 0 \<and> g = h \<or> q \<noteq> 0 \<and> q \<notin> P \<and> owns g (insert q P) \<and>
      (unat ?N \<le> 2 ^ 32 - 4 \<longrightarrow> (\<forall>k < unat ?N. q + of_nat k \<in> block_data g q)) \<and>
      (\<forall>r \<in> P. block_data g r = block_data h r \<and> (\<forall>x \<in> block_data h r. memory g x = memory h x))"
    using owns_malloc [OF o, of ?N] by blast
  show ?thesis
  proof (cases "q = 0")
    case True
    then show ?thesis using alt m by (simp add: call)
  next
    case False
    with alt have g: "q \<notin> P" "owns g (insert q P)" "unat ?N \<le> 2 ^ 32 - 4 \<longrightarrow> (\<forall>k < unat ?N. q + of_nat k \<in> block_data g q)"
      "\<forall>r \<in> P. block_data g r = block_data h r \<and> (\<forall>x \<in> block_data h r. memory g x = memory h x)" by blast+
    have "unat ?N \<le> 2 ^ 32 - 4" unfolding align_4 by auto
    then have new: "cells_of q w \<subseteq> block_data g q" using g(3) by (auto simp: cells_of_def w(1))
    let ?g = "g\<lparr>memory := rt_memcpy q p cnt (memory g)\<rparr>"
    have sub: "cells_of q (unat cnt) \<subseteq> block_data g q" "cells_of p (unat cnt) \<subseteq> block_data g p"
    proof -
      show "cells_of q (unat cnt) \<subseteq> block_data g q" using new cells_of_mono [of "unat cnt" w q] um by auto
      have "block_data g p = cells_of p (data_len h p)" using g(4) p by (simp add: block_data_cells [symmetric])
      then show "cells_of p (unat cnt) \<subseteq> block_data g p" using cells_of_mono [of "unat cnt" "data_len h p" p] um by simp
    qed
    have pq: "p \<noteq> q" using g(1) p by auto
    have "block_data g q \<inter> block_data g p = {}" using owns_disjoint [OF g(2)] pq p by auto
    then have "cells_of q (unat cnt) \<inter> cells_of p (unat cnt) = {}" using sub by blast
    then have c: "copied q p (unat cnt) (memory g) (memory ?g)" using memcpy_copies [of q cnt p "memory g"] by simp
    have o2: "owns ?g (insert q P) \<and> (\<forall>r \<in> insert q P. block_data ?g r = block_data g r)"
      by (rule owns_writes [OF g(2) insertI1 sub(1)]) (use c in \<open>auto simp: cells_of_def copied_def\<close>)
    have "p \<in> insert q P" using p by simp
    from owns_free [OF conjunct1 [OF o2] this] obtain f where f: "rt_free p ?g = Some f" "owns f (insert q P - {p})"
      "\<forall>r \<in> insert q P - {p}. block_data f r = block_data ?g r \<and> (\<forall>x \<in> block_data ?g r. memory f x = memory ?g x)" by blast
    have P': "insert q P - {p} = insert q (P - {p})" using pq by auto
    have data: "block_data f r = block_data g r \<and> (\<forall>x \<in> block_data g r. memory f x = memory ?g x)" if "r \<in> insert q (P - {p})" for r
      using f(3) o2 that unfolding P' by auto
    have "memory f (q + of_nat k) = memory h (p + of_nat k)" if k: "k < min w (data_len h p)" for k
    proof -
      have "q + of_nat k \<in> block_data g q" "p + of_nat k \<in> block_data h p"
        using k um sub(1) by (auto simp: cells_of_def block_data_cells)
      then show ?thesis using data [of q] c k um g(4) p by (auto simp: copied_def)
    qed
    moreover have "block_data f r = block_data h r \<and> (\<forall>x \<in> block_data h r. memory f x = memory h x)" if r: "r \<in> P - {p}" for r
    proof -
      have "block_data g r \<inter> block_data g q = {}" using owns_disjoint [OF g(2), of r q] r g(1) by auto
      then have "\<forall>x \<in> block_data g r. memory ?g x = memory g x" using c sub(1) by (auto simp: copied_def)
      then show ?thesis using data [of r] g(4) r by auto
    qed
    moreover have "cells_of q w \<subseteq> block_data f q" using data [of q] new by simp
    moreover have "rt_realloc p newsize h = Some (q, f)" using m f(1) False by (simp add: call)
    ultimately show ?thesis using False g(1) f(2) P' by auto
  qed
qed

end
