(* ===== verification/MemProps.thy ===== *)
theory MemProps imports MemRealloc begin

text \<open>
  The properties of the heap: its initialisation, the refinement of the list of blocks, the client's
  guarantees, and what goes wrong at the limits and in \<open>rt_realloc\<close>.
\<close>

subsection \<open>Initialisation\<close>

lemma heap_init_inv:
  assumes "b = unat (RT_ALIGN begin_addr 4)" and "e = unat (RT_ALIGN_DOWN end_addr 4)" and "0 < b" and "b + 24 \<le> e" and "used_mem h = 0"
  shows "heap_inv (rt_system_heap_init begin_addr end_addr h) [(e - b - 12, False)]"
    and "room (rt_system_heap_init begin_addr end_addr h) = e - b - 12"
proof -
  have wb: "RT_ALIGN begin_addr 4 = of_nat b" and we: "RT_ALIGN_DOWN end_addr 4 = of_nat e" by (simp_all add: assms(1,2))
  have e: "e < 2 ^ 32" "e \<le> 2 ^ 32 - 4" "4 dvd e" "4 dvd b"
  proof -
    show lt: "e < 2 ^ 32" using assms(2) unsigned_less [of "RT_ALIGN_DOWN end_addr 4", where 'a = nat] by simp
    show d: "4 dvd e" unfolding assms(2) by (simp add: RT_ALIGN_DOWN_def align_down_4 [simplified])
    show "4 dvd b" unfolding assms(1) align_4 by simp
    from lt d show "e \<le> 2 ^ 32 - 4" by (elim dvdE) simp
  qed
  have ce: "(of_nat e :: u32) > 2 * SIZEOF_STRUCT_MEM \<and> (of_nat e :: u32) - 2 * SIZEOF_STRUCT_MEM \<ge> of_nat b"
  proof -
    have "(of_nat e :: u32) - 24 = of_nat (e - 24)" using assms(4) by simp
    then show ?thesis using assms(3,4) e(1) of_nat_u32_le [of b "e - 24"] of_nat_u32_less [of 24 e]
      by (simp add: SIZEOF_STRUCT_MEM_def)
  qed
  define r where "r = e - b - 12"
  have r: "12 \<le> r" "4 dvd r" "b + r + 12 = e" using assms(4) e(3,4) by (auto simp: r_def dvd_diff_nat)
  have sz: "(of_nat e :: u32) - of_nat b - 2 * SIZEOF_STRUCT_MEM = of_nat (r - 12)"
    unfolding r(3) [symmetric] using r(1) by (simp add: SIZEOF_STRUCT_MEM_def)
  have nx: "(of_nat (r - 12) :: u32) + SIZEOF_STRUCT_MEM = of_nat r" using r(1) by (simp add: SIZEOF_STRUCT_MEM_def)
  let ?A = "\<lparr>h_magic = HEAP_MAGIC, h_used = 0, h_next = of_nat r, h_prev = 0\<rparr>"
  let ?E = "\<lparr>h_magic = HEAP_MAGIC, h_used = 1, h_next = of_nat r, h_prev = of_nat r\<rparr>"
  let ?h0 = "h\<lparr>mem_size_aligned := of_nat (r - 12), heap_ptr := of_nat b\<rparr>"
  let ?h1 = "(set_hdr (of_nat b) (\<lambda>_. ?A) ?h0)\<lparr>heap_end := of_nat b + of_nat r\<rparr>"
  let ?h2 = "set_hdr (heap_ptr ?h1 + of_nat r) (\<lambda>_. ?E) ?h1"
  let ?g = "?h2\<lparr>heap_sem := 1, lfree := of_nat b\<rparr>"
  have g: "rt_system_heap_init begin_addr end_addr h = ?g"
    unfolding rt_system_heap_init_def Let_def wb we if_P [OF ce] using sz nx by simp
  have rm: "unat (of_nat (r - 12) :: u32) = r - 12" unfolding unat_of_nat using r(3) e(1) by (intro mod_less) simp
  have ub: "unat (of_nat b :: u32) = b" unfolding unat_of_nat using r(3) e(1) by (intro mod_less) simp
  have b0: "(of_nat b :: u32) \<noteq> 0" using ub assms(3) by auto
  have room1: "room ?h1 = r" using rm r(1) by (simp add: room_def)
  have sh: "heap_shape ?h1"
    unfolding heap_shape_def room1 using b0 ub r e by (simp add: and_3_dvd)
  have s1: "blk ?h1 0 = ?A" by (simp add: blk_def)
  have s2: "blk ?h2 k = (if k = r then ?E else blk ?h1 k)" if "k = 0 \<or> k = r" for k
    using blk_set [OF sh, of k r "\<lambda>_. ?E"] that r(1) room1 by auto
  have c: "heap_chain ?h2 [(r, False)]"
    using sh s1 s2 [of 0] s2 [of r] r room1 by (simp add: heap_chain_def)
  show "heap_inv (rt_system_heap_init begin_addr end_addr h) [(e - b - 12, False)]"
    unfolding g heap_inv_def r_def [symmetric] using c assms(5) by (simp add: coalesced_def)
  show "room (rt_system_heap_init begin_addr end_addr h) = e - b - 12"
    unfolding g r_def [symmetric] using rm r(1) by (simp add: room_def)
qed

subsection \<open>The heap of the board\<close>

text \<open>board.h and \<open>rt_hw_board_init\<close> of board.c: the upper half of the 32 KB of RAM.\<close>

definition N32G43X_SRAM_START :: u32 where "N32G43X_SRAM_START = 0x20000000 + 32 div 2 * 1024"

definition N32G43X_SRAM_END :: u32 where "N32G43X_SRAM_END = 0x20000000 + 32 * 1024"

definition heap_at_reset :: heap where
  "heap_at_reset = \<lparr>memory = (\<lambda>_. 0), heap_ptr = 0, heap_end = 0, lfree = 0, heap_sem = 0, mem_size_aligned = 0, used_mem = 0, max_mem = 0\<rparr>"

definition board_heap :: heap where
  "board_heap = rt_system_heap_init N32G43X_SRAM_START N32G43X_SRAM_END heap_at_reset"

lemma board_addresses:
  "unat (RT_ALIGN N32G43X_SRAM_START 4) = 0x20004000" "unat (RT_ALIGN_DOWN N32G43X_SRAM_END 4) = 0x20008000" "used_mem heap_at_reset = 0"
  by (simp_all add: RT_ALIGN_def RT_ALIGN_DOWN_def N32G43X_SRAM_START_def N32G43X_SRAM_END_def heap_at_reset_def)

lemma board_heap_inv: "heap_inv board_heap [(16372, False)]" and room_board_heap: "room board_heap = 16372"
  using heap_init_inv [OF board_addresses(1) [symmetric] board_addresses(2) [symmetric] _ _ board_addresses(3)] by (simp_all add: board_heap_def)

lemma board_heap_ptr: "heap_ptr board_heap = 0x20004000"
  by (simp add: board_heap_def rt_system_heap_init_def Let_def RT_ALIGN_def RT_ALIGN_DOWN_def N32G43X_SRAM_START_def N32G43X_SRAM_END_def
      SIZEOF_STRUCT_MEM_def set_hdr_def)

text \<open>Initialising the heap on a non-empty range makes one free block of the aligned range less the end mark.\<close>

theorem heap_init:
  assumes "b = unat (RT_ALIGN begin_addr 4)" and "e = unat (RT_ALIGN_DOWN end_addr 4)" and "0 < b" and "b + 24 \<le> e" and "used_mem h = 0"
  shows "heap_inv (rt_system_heap_init begin_addr end_addr h) [(e - b - 12, False)] \<and>
    room (rt_system_heap_init begin_addr end_addr h) = e - b - 12"
  using heap_init_inv [OF assms] by simp

theorem heap_init_witness: "heap_inv board_heap [(0x20008000 - 0x20004000 - 12, False)]"
  unfolding board_heap_def
  using heap_init [OF board_addresses(1) [symmetric] board_addresses(2) [symmetric] _ _ board_addresses(3)] by simp

subsection \<open>Allocation and release\<close>

text \<open>
  C25: \<open>rt_malloc\<close> on a well-formed heap always returns, and does what first fit does on the list of blocks:
  it takes the first free block that holds the rounded size and starts below the limit of the search, splits
  it if the rest can hold a block, and returns a null pointer and an unchanged heap if there is none. It
  writes block headers only.
\<close>

theorem malloc_first_fit:
  assumes "heap_inv h bs" and "24 \<le> room h"
  shows "if sz = 0 \<or> room h < 12 + unat (RT_ALIGN sz 4) then rt_malloc sz h = Some (0, h)
    else case alloc_blocks (room h) (data_size sz) bs of
      None \<Rightarrow> rt_malloc sz h = Some (0, h)
    | Some (i, bs') \<Rightarrow> \<exists>h'. rt_malloc sz h = Some (heap_ptr h + of_nat (i + 12), h') \<and> heap_inv h' bs' \<and> touches bs' h h'"
  using malloc_refines [OF assms] .

theorem malloc_first_fit_witness:
  "\<exists>h'. rt_malloc 100 board_heap = Some (0x2000400C, h') \<and> heap_inv h' [(112, True), (16260, False)]"
  using malloc_first_fit [OF board_heap_inv, of 100]
  by (auto simp: room_board_heap board_heap_ptr RT_ALIGN_def alloc_blocks_def data_size_def split_block_def)

lemma board_malloc_100:
  "\<exists>h'. rt_malloc 100 board_heap = Some (0x2000400C, h') \<and> heap_inv h' [(112, True), (16260, False)] \<and> heap_ptr h' = 0x20004000 \<and> room h' = 16372"
proof -
  obtain h' where h': "rt_malloc 100 board_heap = Some (0x2000400C, h')" "heap_inv h' [(112, True), (16260, False)]"
    "touches [(112, True), (16260, False)] board_heap h'"
    using malloc_refines [OF board_heap_inv, of 100]
    by (auto simp: room_board_heap board_heap_ptr RT_ALIGN_def alloc_blocks_def data_size_def split_block_def)
  moreover have "heap_ptr h' = 0x20004000" using h'(3) board_heap_ptr by (simp add: touches_def)
  ultimately show ?thesis using touches_room [OF h'(3)] room_board_heap by auto
qed

text \<open>
  C8: \<open>rt_free\<close> of a used block returns without a failed assertion, makes it free and joins it with
  its free neighbours, so that no two free blocks are adjacent; it writes block headers only.
\<close>

theorem free_coalesces:
  assumes "heap_inv h (as @ (n, True) # cs)" and "i = tot as"
  shows "\<exists>h'. rt_free (heap_ptr h + of_nat (i + 12)) h = Some h' \<and> heap_inv h' (plug as n cs) \<and> touches (as @ (n, True) # cs) h h'"
  using free_refines [OF assms] .

theorem free_coalesces_witness:
  "\<exists>h h'. rt_malloc 100 board_heap = Some (0x2000400C, h) \<and> rt_free 0x2000400C h = Some h' \<and> heap_inv h' [(16372, False)]"
proof -
  obtain h where h: "rt_malloc 100 board_heap = Some (0x2000400C, h)" "heap_inv h ([] @ (112, True) # [(16260, False)])" "heap_ptr h = 0x20004000"
    using board_malloc_100 by auto
  from free_coalesces [OF h(2), of 0] h(1,3) show ?thesis by (auto simp: plug_def plug_prev_def)
qed

lemma plug_split_block:
  assumes "coalesced (as @ (n, False) # cs)" and "s + 12 \<le> n"
  shows "split_block s n = (k, True) # ds \<Longrightarrow> plug as k (ds @ cs) = as @ (n, False) # cs"
proof -
  have l: "as = [] \<or> snd (last as)"
    using assms(1) by (auto simp: coalesced_def successively_append_iff)
  have c: "cs = [] \<or> snd (hd cs)" using assms(1) by (cases cs) (auto simp: coalesced_def successively_append_iff)
  have "plug_next n cs = (n, cs)" using c by (cases cs; cases "hd cs") auto
  then show "split_block s n = (k, True) # ds \<Longrightarrow> plug as k (ds @ cs) = as @ (n, False) # cs"
    using l assms(2) by (auto simp: split_block_def plug_def plug_prev_def split: if_split_asm)
qed

text \<open>Allocating and freeing again, and allocating the same size again.\<close>

lemma malloc_then_free:
  assumes "heap_inv h bs" and "24 \<le> room h" and "rt_malloc sz h = Some (p, h')" and "p \<noteq> 0"
  shows "\<exists>g. rt_free p h' = Some g \<and> heap_inv g bs \<and> heap_ptr g = heap_ptr h \<and> room g = room h \<and> used_mem g = used_mem h \<and> lfree g = lfree h \<and>
    (\<forall>q \<in> pointers h bs. block_data g q = block_data h q \<and> (\<forall>x \<in> block_data h q. memory g x = memory h x))"
proof -
  note m = malloc_refines [OF assms(1,2), of sz]
  have "\<not> (sz = 0 \<or> room h < 12 + unat (RT_ALIGN sz 4))" using m assms(3,4) by auto
  with m obtain i bs' where a: "alloc_blocks (room h) (data_size sz) bs = Some (i, bs')" and p: "p = heap_ptr h + of_nat (i + 12)"
    and h': "heap_inv h' bs'" "touches bs' h h'" using assms(3,4) by (auto split: option.split_asm)
  obtain as n cs where f: "bs = as @ (n, False) # cs" "data_size sz + 12 \<le> n" "i = tot as" "bs' = as @ split_block (data_size sz) n @ cs"
    using a by (auto simp: alloc_blocks_def dest!: find_fit_Some split: option.split_asm)
  obtain k ds where k: "split_block (data_size sz) n = (k, True) # ds"
    by (cases "data_size sz + 36 \<le> n") (simp_all add: split_block_def)
  have "coalesced bs" using assms(1) by (simp add: heap_inv_def)
  then have pl: "plug as k (ds @ cs) = bs" using plug_split_block [OF _ f(2) k] by (simp add: f(1))
  have ptr: "heap_ptr h' = heap_ptr h" "room h' = room h" using h'(2) by (simp_all add: touches_def room_def)
  obtain g where g: "rt_free p h' = Some g" "heap_inv g bs" "touches bs' h' g"
    using free_refines [of h' as k "ds @ cs", OF _ f(3)] h'(1) by (auto simp: f(4) k pl p ptr)
  have ptr_g: "heap_ptr g = heap_ptr h" "room g = room h" using g(3) ptr by (simp_all add: touches_def room_def)
  have o: "owns h (pointers h bs)" using assms(1,2) by (auto simp: owns_def)
  from owns_malloc [OF this, of sz] assms(3,4) have m2: "p \<notin> pointers h bs" "owns h' (insert p (pointers h bs))"
    "\<forall>q \<in> pointers h bs. block_data h' q = block_data h q \<and> (\<forall>x \<in> block_data h q. memory h' x = memory h x)" by auto
  from owns_free [OF m2(2) insertI1] g(1) m2(1)
  have "\<forall>q \<in> pointers h bs. block_data g q = block_data h' q \<and> (\<forall>x \<in> block_data h' q. memory g x = memory h' x)" by auto
  then show ?thesis using g assms(1) m2(3) ptr_g by (intro exI [of _ g]) (simp add: heap_inv_def)
qed

lemma malloc_again:
  assumes "heap_inv h bs" and "24 \<le> room h" and "rt_malloc sz h = Some (p, h')" and "p \<noteq> 0"
    and "heap_inv g bs" and "heap_ptr g = heap_ptr h" and "room g = room h"
  shows "\<exists>g'. rt_malloc sz g = Some (p, g')"
  using malloc_refines [OF assms(1,2), of sz] malloc_refines [OF assms(5), of sz] assms(2-4,6,7)
  by (auto split: option.splits if_splits)

text \<open>
  Freeing the block that \<open>rt_malloc\<close> has just returned restores the list of blocks, the used size and the
  start of the search, and leaves the data of every other block unchanged.
\<close>

theorem malloc_free_restores:
  assumes "heap_inv h bs" and "24 \<le> room h" and "rt_malloc sz h = Some (p, h')" and "p \<noteq> 0"
  shows "\<exists>g. rt_free p h' = Some g \<and> heap_inv g bs \<and> heap_ptr g = heap_ptr h \<and> used_mem g = used_mem h \<and> lfree g = lfree h \<and>
    (\<forall>q \<in> pointers h bs. block_data g q = block_data h q \<and> (\<forall>x \<in> block_data h q. memory g x = memory h x))"
  using malloc_then_free [OF assms] by blast

theorem malloc_free_restores_witness:
  "\<exists>h g. rt_malloc 100 board_heap = Some (0x2000400C, h) \<and> rt_free 0x2000400C h = Some g \<and> heap_inv g [(16372, False)]"
proof -
  obtain h where h: "rt_malloc 100 board_heap = Some (0x2000400C, h)" using board_malloc_100 by auto
  from malloc_free_restores [OF board_heap_inv _ this] h show ?thesis by (auto simp: room_board_heap)
qed

subsection \<open>The client\<close>

lemma owns_data_nonempty:
  assumes "owns h P" and "p \<in> P"
  shows "block_data h p \<noteq> {}"
proof -
  obtain bs where bs: "heap_inv h bs" "P = pointers h bs" using assms(1) by (auto simp: owns_def)
  obtain i n where "12 < n" "block_data h p = (\<lambda>k. heap_ptr h + of_nat k) ` {i + 12..<i + n}"
    using owns_pointer [OF bs(1)] assms(2) bs(2) by blast
  then show ?thesis by auto
qed

text \<open>
  C5: A client that starts with pointers it owns, allocates, frees its own pointers and writes to its own
  data never meets a failed assertion or an endless loop, its blocks never overlap, and the data of a
  block that it neither writes to nor frees never change.
\<close>

theorem heap_client_safe:
  fixes calls :: "heap_call list"
  assumes "owns h (set ps)" and "distinct ps"
  shows "\<exists>qs h'. run_client (step_client rt_malloc rt_free store_byte block_data) calls (ps, h) = Some (qs, h') \<and>
    owns h' (set qs) \<and> distinct qs \<and>
    (\<forall>p \<in> set qs. \<forall>q \<in> set qs. p \<noteq> q \<longrightarrow> block_data h' p \<inter> block_data h' q = {}) \<and>
    (\<forall>p \<in> set ps. spared (step_client rt_malloc rt_free store_byte block_data) p calls (ps, h) \<longrightarrow>
       p \<in> set qs \<and> block_data h' p = block_data h p \<and> (\<forall>x \<in> block_data h p. memory h' x = memory h x))"
proof -
  obtain qs h' where r: "run_client (step_client rt_malloc rt_free store_byte block_data) calls (ps, h) = Some (qs, h')"
    "owns h' (set qs)" "distinct qs" using heap_allocator.run_total [OF assms] by blast
  moreover have "p \<in> set qs \<and> block_data h' p = block_data h p \<and> (\<forall>x \<in> block_data h p. memory h' x = memory h x)"
    if p: "p \<in> set ps" and sp: "spared (step_client rt_malloc rt_free store_byte block_data) p calls (ps, h)" for p
    using heap_allocator.run_keeps_data [OF assms p _ sp r(1)] owns_data_nonempty [OF assms(1) p] by blast
  ultimately show ?thesis using owns_disjoint [OF r(2)] by blast
qed

theorem heap_client_safe_witness:
  "\<exists>h. rt_malloc 100 board_heap = Some (0x2000400C, h) \<and>
    (\<exists>qs h'. run_client (step_client rt_malloc rt_free store_byte block_data) [Alloc 200, Alloc 16000, Alloc 0xFFFFFFFF] ([0x2000400C], h) = Some (qs, h') \<and>
      0x2000400C \<in> set qs \<and> distinct qs \<and> (\<forall>x \<in> block_data h 0x2000400C. memory h' x = memory h x))"
proof -
  obtain h where h: "rt_malloc 100 board_heap = Some (0x2000400C, h)" "heap_inv h [(112, True), (16260, False)]" "heap_ptr h = 0x20004000" "room h = 16372"
    using board_malloc_100 by auto
  have o: "owns h (set [0x2000400C])" using h(2-4) by (auto simp: owns_def pointers_def intro!: exI [of _ "[(112, True), (16260, False)]"])
  show ?thesis using heap_client_safe [OF o, of "[Alloc 200, Alloc 16000, Alloc 0xFFFFFFFF]"] h(1)
    by (fastforce split: option.splits)
qed

subsection \<open>Changing the size of a block\<close>

text \<open>
  C26: \<open>rt_realloc\<close> to a size that neither equals nor shrinks the block enough to split it returns a new block
  that starts with the old data, or a null pointer and an unchanged heap; the old block is freed and no other
  data change.
\<close>

theorem realloc_keeps_data:
  assumes "owns h P" and "p \<in> P" and "w = unat (RT_ALIGN newsize 4)" and "0 < w" and "w \<le> unat (mem_size_aligned h)"
    and "w \<noteq> data_len h p" and "data_len h p \<le> w + 24"
  shows "\<exists>q h'. rt_realloc p newsize h = Some (q, h') \<and> (q = 0 \<and> h' = h \<or>
    q \<noteq> 0 \<and> q \<notin> P \<and> owns h' (insert q (P - {p})) \<and> cells_of q w \<subseteq> block_data h' q \<and>
    (\<forall>k < min w (data_len h p). memory h' (q + of_nat k) = memory h (p + of_nat k)) \<and>
    (\<forall>r \<in> P - {p}. block_data h' r = block_data h r \<and> (\<forall>x \<in> block_data h r. memory h' x = memory h x)))"
  using realloc_moves [OF assms] .

theorem realloc_keeps_data_witness:
  "\<exists>h q h'. rt_malloc 100 board_heap = Some (0x2000400C, h) \<and> rt_realloc 0x2000400C 300 h = Some (q, h') \<and>
    (q = 0 \<or> owns h' {q} \<and> (\<forall>k < 100. memory h' (q + of_nat k) = memory h (0x2000400C + of_nat k)))"
proof -
  obtain h where h: "rt_malloc 100 board_heap = Some (0x2000400C, h)" "heap_inv h [(112, True), (16260, False)]" "heap_ptr h = 0x20004000" "room h = 16372"
    using board_malloc_100 by auto
  have o: "owns h {0x2000400C}" using h(2-4) by (auto simp: owns_def pointers_def intro!: exI [of _ "[(112, True), (16260, False)]"])
  have c: "heap_chain h ([] @ (112, True) # [(16260, False)])" using h(2) by (simp add: heap_inv_def)
  have "data_len h 0x2000400C = 100" using chain_at(1) [OF c] h(3) by (simp add: data_len_def SIZEOF_STRUCT_MEM_def)
  then show ?thesis
    using realloc_keeps_data [OF o, of "0x2000400C" 300 300] h(1,4) by (fastforce simp: RT_ALIGN_def room_def)
qed

lemma malloc_at_end:
  assumes "lfree h = heap_end h" and "heap_end h = heap_ptr h + of_nat (room h)" and "heap_sem h = 1" and "24 \<le> room h" and "room h < 2 ^ 32"
  shows "rt_malloc sz h = Some (0, h)"
proof (cases "sz = 0 \<or> mem_size_aligned h < RT_ALIGN sz 4")
  case False
  let ?h = "h\<lparr>heap_sem := 0\<rparr>"
  have t: "take_heap_sem h = Some ?h" and rel: "release_heap_sem ?h = h" using assms(3) by (simp_all add: take_heap_sem_def release_heap_sem_def)
  have "(12 :: u32) \<le> mem_size_aligned h" using assms(4) by (simp add: word_le_nat_alt room_def)
  then have "request sz \<le> mem_size_aligned h" using False by (auto simp: request_def MIN_SIZE_ALIGNED_12 not_less)
  then have "unat (mem_size_aligned h - request sz) \<le> unat (mem_size_aligned h)" by (simp add: unat_sub)
  then have g: "\<not> of_nat (room h) < mem_size_aligned h - request sz"
  proof -
    have "unat (of_nat (room h) :: u32) = room h" unfolding unat_of_nat using assms(5) by simp
    then show ?thesis using \<open>unat (mem_size_aligned h - request sz) \<le> _\<close> unfolding word_less_nat_alt by (simp add: room_def)
  qed
  have "malloc_loop (request sz) (lfree ?h - heap_ptr ?h) ?h = Some (0, h)"
    using g rel by (subst malloc_loop.simps) (simp add: assms(1,2))
  then show ?thesis using False t by (simp add: rt_malloc_def Let_def request_def)
qed (auto simp: rt_malloc_def Let_def)

text \<open>
  When every block is used and \<open>rt_realloc\<close> shrinks one of them, the rest becomes a free block that
  \<open>lfree\<close> does not point to: every later \<open>rt_malloc\<close> fails although the block is free.
\<close>

theorem realloc_shrink_loses_block:
  assumes "heap_inv h (as @ (n, True) # cs)" and "i = tot as" and "\<forall>b \<in> set (as @ cs). snd b"
    and "w = unat (RT_ALIGN newsize 4)" and "0 < w" and "w + 36 < n"
  shows "\<exists>h'. rt_realloc (heap_ptr h + of_nat (i + 12)) newsize h = Some (heap_ptr h + of_nat (i + 12), h') \<and>
    heap_chain h' (as @ (w + 12, True) # (n - 12 - w, False) # cs) \<and> lfree h' = heap_end h' \<and>
    (\<forall>sz. rt_malloc sz h' = Some (0, h'))"
proof -
  let ?as = "as @ [(w + 12, True)]"
  have u: "\<forall>b \<in> set as. snd b" "\<forall>b \<in> set cs. snd b" using assms(3) by auto
  have "plug_next (n - 12 - w) cs = (n - 12 - w, cs)" using u(2) by (cases cs; cases "hd cs") auto
  then have pl: "plug ?as (n - 12 - w) cs = as @ (w + 12, True) # (n - 12 - w, False) # cs"
    "plug_free l ?as (n - 12 - w) cs = l" for l by (simp_all add: plug_def plug_prev_def plug_free_def)
  have c: "heap_chain h (as @ (n, True) # cs)" using assms(1) by (simp add: heap_inv_def)
  have "takeWhile snd (as @ (n, True) # cs) = as @ (n, True) # cs" using assms(3) by (intro takeWhile_eq_all_conv [THEN iffD2]) auto
  then have ff: "first_free 0 (as @ (n, True) # cs) = room h" using c by (simp only: first_free_takeWhile heap_chain_def)
  obtain h' where h': "rt_realloc (heap_ptr h + of_nat (i + 12)) newsize h = Some (heap_ptr h + of_nat (i + 12), h')"
    "heap_chain h' (as @ (w + 12, True) # (n - 12 - w, False) # cs)" "heap_sem h' = 1" "heap_ptr h' = heap_ptr h" "room h' = room h"
    "lfree h' = heap_ptr h + of_nat (room h)"
    using realloc_shrinks [OF assms(1,2,4-6)] unfolding pl ff by blast
  have e: "heap_end h' = heap_ptr h' + of_nat (room h')" "room h' < 2 ^ 32" using h'(2) by (simp_all add: heap_chain_def heap_shape_def)
  have big: "24 \<le> room h'" using h'(2) assms(6) by (auto simp: heap_chain_def)
  have l: "lfree h' = heap_end h'" using e h' by simp
  show ?thesis using malloc_at_end [OF l e(1) h'(3) big e(2)] h'(1,2) l by blast
qed

theorem realloc_shrink_loses_block_witness:
  "\<exists>h h'. rt_malloc 16356 board_heap = Some (0x2000400C, h) \<and> rt_realloc 0x2000400C 100 h = Some (0x2000400C, h') \<and>
    heap_chain h' [(112, True), (16260, False)] \<and> rt_malloc 4 h' = Some (0, h')"
proof -
  obtain h where h: "rt_malloc 16356 board_heap = Some (0x2000400C, h)" "heap_inv h ([] @ (16372, True) # [])" "touches [(16372, True)] board_heap h"
    using malloc_refines [OF board_heap_inv, of 16356]
    by (auto simp: room_board_heap board_heap_ptr RT_ALIGN_def alloc_blocks_def data_size_def split_block_def)
  have "heap_ptr h = 0x20004000" using h(3) board_heap_ptr by (simp add: touches_def)
  with realloc_shrink_loses_block [OF h(2), of 0 100 100] h(1) show ?thesis by (auto simp: RT_ALIGN_def)
qed

subsection \<open>Sizes at the limits\<close>

text \<open>A size above \<open>2 ^ 32 - 4\<close> is rounded up to zero and then raised to the smallest block.\<close>

lemma malloc_huge_size:
  assumes "0xFFFFFFFC < sz" and "4 \<le> mem_size_aligned h"
  shows "rt_malloc sz h = rt_malloc 1 h"
proof -
  have "unat (RT_ALIGN sz 4) = 0" unfolding align_4 using assms(1) by (simp add: word_less_nat_alt)
  moreover have "RT_ALIGN 1 4 = 4" by (simp add: RT_ALIGN_def)
  ultimately show ?thesis using assms by (auto simp: rt_malloc_def Let_def MIN_SIZE_ALIGNED_12 word_less_nat_alt word_le_nat_alt)
qed

text \<open>A free block at the end of the heap is not found by a request of exactly its size.\<close>

lemma malloc_last_block_exact:
  assumes "heap_inv h (as @ [(n, False)])" and "\<forall>b \<in> set as. snd b" and "24 \<le> n" and "n = 12 + data_size sz"
  shows "rt_malloc sz h = Some (0, h)"
proof -
  have c: "tot as + n = room h" using assms(1) by (simp add: heap_inv_def heap_chain_def)
  have none: "find_fit (room h - 12 - data_size sz) (data_size sz) i (as @ [(n, False)]) = None" if "room h = i + tot as + n" for i
    using assms(2) that assms(4)
  proof (induction as arbitrary: i)
    case (Cons a as)
    then show ?case by (simp add: add.assoc)
  qed simp
  then have "alloc_blocks (room h) (data_size sz) (as @ [(n, False)]) = None" unfolding alloc_blocks_def using none [of 0] c by (simp only: add_0 option.case)
  then show ?thesis using malloc_refines [OF assms(1), of sz] c assms(3) by (auto split: if_split_asm)
qed

lemma memset_sets: "n \<le> 2 ^ 32 \<Longrightarrow> rt_memset s c n m x = (if x \<in> cells_of s n then c else m x)"
proof (induction n arbitrary: s m)
  case (Suc n)
  have "{..<Suc n} = insert 0 (Suc ` {..<n})" by (auto simp: less_Suc_eq_0_disj)
  then have "cells_of s (Suc n) = insert s (cells_of (s + 1) n)" by (simp add: cells_of_def image_image add.assoc)
  then show ?case using Suc by simp
qed (simp add: cells_of_def)

text \<open>\<open>rt_calloc\<close> clears the block; the product of its arguments wraps.\<close>

lemma calloc_clears:
  assumes "owns h P" and "unat (count * sz) \<le> 2 ^ 32 - 4"
  shows "\<exists>p h'. rt_calloc count sz h = Some (p, h') \<and> (p = 0 \<and> h' = h \<or> p \<noteq> 0 \<and> p \<notin> P \<and> owns h' (insert p P) \<and>
    (\<forall>k < unat (count * sz). memory h' (p + of_nat k) = 0) \<and>
    (\<forall>q \<in> P. block_data h' q = block_data h q \<and> (\<forall>x \<in> block_data h q. memory h' x = memory h x)))"
proof -
  let ?n = "unat (count * sz)"
  obtain p g where m: "rt_malloc (count * sz) h = Some (p, g)" and alt: "p = 0 \<and> g = h \<or> p \<noteq> 0 \<and> p \<notin> P \<and> owns g (insert p P) \<and>
      (?n \<le> 2 ^ 32 - 4 \<longrightarrow> (\<forall>k < ?n. p + of_nat k \<in> block_data g p)) \<and>
      (\<forall>r \<in> P. block_data g r = block_data h r \<and> (\<forall>x \<in> block_data h r. memory g x = memory h x))"
    using owns_malloc [OF assms(1), of "count * sz"] by blast
  show ?thesis
  proof (cases "p = 0")
    case True
    then show ?thesis using alt m by (simp add: rt_calloc_def)
  next
    case False
    with alt assms(2) have g: "p \<notin> P" "owns g (insert p P)" "cells_of p ?n \<subseteq> block_data g p"
      "\<forall>r \<in> P. block_data g r = block_data h r \<and> (\<forall>x \<in> block_data h r. memory g x = memory h x)" by (auto simp: cells_of_def)
    let ?m = "rt_memset p 0 ?n (memory g)"
    have s: "?m x = (if x \<in> cells_of p ?n then 0 else memory g x)" for x using assms(2) by (intro memset_sets) simp
    have o: "owns (g\<lparr>memory := ?m\<rparr>) (insert p P) \<and> (\<forall>r \<in> insert p P. block_data (g\<lparr>memory := ?m\<rparr>) r = block_data g r)"
      by (rule owns_writes [OF g(2) insertI1 g(3)]) (simp add: cells_of_def, simp add: s)
    have "?m x = memory h x" if r: "r \<in> P" and x: "x \<in> block_data h r" for r x
    proof -
      have "block_data g r \<inter> block_data g p = {}" using owns_disjoint [OF g(2), of r p] r g(1) by auto
      then show ?thesis using s g(3,4) r x by auto
    qed
    moreover have "?m (p + of_nat k) = 0" if "k < ?n" for k using s that by (auto simp: cells_of_def)
    ultimately show ?thesis using m False g(1,4) o by (simp add: rt_calloc_def)
  qed
qed

end
