(* ===== verification/RtList.thy ===== *)
theory RtList imports Prelude begin

text \<open>
  The doubly linked lists of the kernel (rtservice.h). A list node is a place in memory, a value of the
  type \<open>'n\<close>; its two pointers are functions. A list is a ring through its head; a node on no list points
  to itself. The second half relates the rings to sequences: \<open>rings s L\<close> says that \<open>L\<close> gives, for every
  node that is on no list, the sequence of nodes on the ring that it heads.
\<close>

subsection \<open>Operations\<close>

record 'n links =
  nxt :: "'n \<Rightarrow> 'n"
  prv :: "'n \<Rightarrow> 'n"

definition rt_list_init :: "'n \<Rightarrow> 'n links \<Rightarrow> 'n links" where
  "rt_list_init l s = s\<lparr>nxt := (nxt s)(l := l), prv := (prv s)(l := l)\<rparr>"

definition rt_list_insert_after :: "'n \<Rightarrow> 'n \<Rightarrow> 'n links \<Rightarrow> 'n links" where
  "rt_list_insert_after l n s =
     (let s = s\<lparr>prv := (prv s)(nxt s l := n)\<rparr>;
          s = s\<lparr>nxt := (nxt s)(n := nxt s l)\<rparr>;
          s = s\<lparr>nxt := (nxt s)(l := n)\<rparr>
      in s\<lparr>prv := (prv s)(n := l)\<rparr>)"

definition rt_list_insert_before :: "'n \<Rightarrow> 'n \<Rightarrow> 'n links \<Rightarrow> 'n links" where
  "rt_list_insert_before l n s =
     (let s = s\<lparr>nxt := (nxt s)(prv s l := n)\<rparr>;
          s = s\<lparr>prv := (prv s)(n := prv s l)\<rparr>;
          s = s\<lparr>prv := (prv s)(l := n)\<rparr>
      in s\<lparr>nxt := (nxt s)(n := l)\<rparr>)"

definition rt_list_remove :: "'n \<Rightarrow> 'n links \<Rightarrow> 'n links" where
  "rt_list_remove n s =
     (let s = s\<lparr>prv := (prv s)(nxt s n := prv s n)\<rparr>;
          s = s\<lparr>nxt := (nxt s)(prv s n := nxt s n)\<rparr>
      in s\<lparr>nxt := (nxt s)(n := n), prv := (prv s)(n := n)\<rparr>)"

definition rt_list_isempty :: "'n \<Rightarrow> 'n links \<Rightarrow> bool" where
  "rt_list_isempty l s \<longleftrightarrow> nxt s l = l"

text \<open>\<open>rt_list_len\<close> from the node \<open>p\<close>; \<open>None\<close> if the walk never comes back to the head.\<close>

partial_function (option) list_len_from :: "'n \<Rightarrow> 'n links \<Rightarrow> 'n \<Rightarrow> nat \<Rightarrow> nat option" where
  "list_len_from l s p len = (if nxt s p \<noteq> l then list_len_from l s (nxt s p) (len + 1) else Some len)"

declare list_len_from.simps [code]

definition rt_list_len :: "'n \<Rightarrow> 'n links \<Rightarrow> nat option" where
  "rt_list_len l s = list_len_from l s l 0"

subsection \<open>Rings\<close>

definition consecutive :: "'n links \<Rightarrow> 'n \<Rightarrow> 'n \<Rightarrow> bool" where
  "consecutive s a b \<longleftrightarrow> nxt s a = b \<and> prv s b = a"

definition ring :: "'n links \<Rightarrow> 'n \<Rightarrow> 'n list \<Rightarrow> bool" where
  "ring s h xs \<longleftrightarrow> successively (consecutive s) (h # xs @ [h]) \<and> distinct (h # xs)"

lemma walk_frame:
  assumes "successively (consecutive s) w" and "\<forall>x \<in> set (butlast w). nxt t x = nxt s x" and "\<forall>y \<in> set (tl w). prv t y = prv s y"
  shows "successively (consecutive t) w"
  using assms
proof (induction w rule: induct_list012)
  case (3 x y w)
  then show ?case by (auto simp: consecutive_def)
qed simp_all

text \<open>
  The walk around a ring, cut between \<open>xs\<close> and \<open>ys\<close>: \<open>us @ [a]\<close> before the cut, \<open>b # vs\<close> after it. A change of
  the links between \<open>a\<close> and \<open>b\<close> leaves both parts as they are.
\<close>

lemma cut_ring:
  assumes "distinct (h # xs @ ys)" and "a = last (h # xs)" and "b = hd (ys @ [h])"
  obtains us vs where "h # xs = us @ [a]" and "ys @ [h] = b # vs" and "a \<notin> set ys" and "b \<notin> set xs"
proof -
  obtain us where us: "h # xs = us @ [a]" using assms(2) by (metis append_butlast_last_id list.distinct(1))
  obtain vs where vs: "ys @ [h] = b # vs" using assms(3) by (cases "ys @ [h]") auto
  have "insert h (set xs) = insert a (set us)" "insert h (set ys) = insert b (set vs)"
    using arg_cong [OF us, of set] arg_cong [OF vs, of set] by auto
  then have "a \<notin> set ys" "b \<notin> set xs" using assms(1) by auto
  with us vs show thesis by (rule that)
qed

lemma before_cut:
  assumes "h # xs = us @ [a]" and "distinct (h # xs)" and "successively (consecutive s) (us @ [a])"
    and "\<forall>x. x \<in> set (h # xs) - {a} \<longrightarrow> nxt t x = nxt s x" and "\<forall>y. y \<in> set xs \<longrightarrow> prv t y = prv s y"
  shows "successively (consecutive t) (us @ [a])"
proof -
  have "set (tl (us @ [a])) = set xs" using assms(1) by (metis list.sel(3))
  moreover have "distinct (us @ [a])" using assms(1,2) by simp
  ultimately show ?thesis using walk_frame [OF assms(3)] assms(1,4,5) by auto
qed

lemma after_cut:
  assumes "ys @ [h] = b # vs" and "distinct (ys @ [h])" and "successively (consecutive s) (b # vs)"
    and "\<forall>x. x \<in> set ys \<longrightarrow> nxt t x = nxt s x" and "\<forall>y. y \<in> set (ys @ [h]) - {b} \<longrightarrow> prv t y = prv s y"
  shows "successively (consecutive t) (b # vs)"
proof -
  have "set (butlast (b # vs)) = set ys" using assms(1) by (metis butlast_snoc)
  moreover have "distinct (b # vs)" using assms(1,2) by simp
  ultimately show ?thesis using walk_frame [OF assms(3)] assms(1,4,5) by auto
qed

lemma ring_ends:
  assumes "ring s h xs"
  shows "nxt s h = hd (xs @ [h])" and "prv s h = last (h # xs)"
proof -
  have w: "successively (consecutive s) (h # xs @ [h])" using assms by (simp add: ring_def)
  show "nxt s h = hd (xs @ [h])" using w by (cases xs) (auto simp: consecutive_def)
  have "successively (consecutive s) ((h # xs) @ [h])" using w by simp
  then show "prv s h = last (h # xs)" unfolding successively_append_iff by (auto simp: consecutive_def)
qed

lemma ring_at:
  assumes "ring s h (xs @ n # ys)"
  shows "nxt s n = hd (ys @ [h])" and "prv s n = last (h # xs)"
proof -
  have "successively (consecutive s) ((h # xs) @ (n # ys @ [h]))" using assms by (simp add: ring_def)
  then have w: "successively (consecutive s) (n # ys @ [h])" "consecutive s (last (h # xs)) n"
    unfolding successively_append_iff by auto
  show "nxt s n = hd (ys @ [h])" using w(1) by (cases ys) (auto simp: consecutive_def)
  show "prv s n = last (h # xs)" using w(2) by (simp add: consecutive_def)
qed

lemma ring_isempty: "ring s h xs \<Longrightarrow> rt_list_isempty h s \<longleftrightarrow> xs = []"
  using ring_ends(1) [of s h xs] by (cases xs) (auto simp: rt_list_isempty_def ring_def)

lemma ring_next: "ring s h (us @ v # vs) \<Longrightarrow> nxt s (last (h # us)) = v"
  using ring_ends(1) [of s h "us @ v # vs"] ring_at(1) [of s h "butlast us" "last us" "v # vs"]
  by (cases us rule: rev_cases) auto

text \<open>The count of \<open>rt_list_len\<close> ends, with the number of nodes.\<close>

lemma list_len_at:
  assumes "ring s h (us @ vs)"
  shows "list_len_from h s (last (h # us)) n = Some (n + length vs)"
  using assms
proof (induction vs arbitrary: us n)
  case Nil
  then have "nxt s (last (h # us)) = h" using ring_at(1) [of s h "butlast us" "last us" "[]"] ring_ends(1) [of s h "[]"] by (cases us rule: rev_cases) auto
  then show ?case by (simp add: list_len_from.simps)
next
  case (Cons v vs)
  have "nxt s (last (h # us)) = v" "v \<noteq> h" using ring_next [OF Cons.prems] Cons.prems by (auto simp: ring_def)
  moreover have "list_len_from h s v (n + 1) = Some (n + 1 + length vs)" using Cons.IH [of "us @ [v]"] Cons.prems by simp
  ultimately show ?case unfolding list_len_from.simps [of h s "last (h # us)"] by simp
qed

lemma ring_len: "ring s h xs \<Longrightarrow> rt_list_len h s = Some (length xs)"
  using list_len_at [of s h "[]" xs 0] by (simp add: rt_list_len_def)

lemma ring_init: "ring (rt_list_init l s) l []"
  by (simp add: ring_def rt_list_init_def consecutive_def)

lemma ring_frame:
  assumes "ring s h xs" and "\<forall>x \<in> set (h # xs). nxt t x = nxt s x \<and> prv t x = prv s x"
  shows "ring t h xs"
  using assms walk_frame [of s "h # xs @ [h]" t] by (auto simp: ring_def butlast_append)

text \<open>A new node between two neighbours.\<close>

definition put_between :: "'n \<Rightarrow> 'n \<Rightarrow> 'n \<Rightarrow> 'n links \<Rightarrow> 'n links" where
  "put_between a n b s = s\<lparr>nxt := (nxt s)(a := n, n := b), prv := (prv s)(n := a, b := n)\<rparr>"

lemma ring_put_between:
  assumes "ring s h (xs @ ys)" and "n \<notin> set (h # xs @ ys)" and "a = last (h # xs)" and "b = hd (ys @ [h])"
  shows "ring (put_between a n b s) h (xs @ n # ys)"
proof -
  have d: "distinct (h # xs @ ys)" using assms(1) by (simp add: ring_def)
  then obtain us vs where us: "h # xs = us @ [a]" and vs: "ys @ [h] = b # vs"
    and ab: "a \<notin> set ys" "b \<notin> set xs" using assms(3,4) by (rule cut_ring)
  have walk: "h # (xs @ ys) @ [h] = (us @ [a]) @ b # vs" "h # (xs @ n # ys) @ [h] = (us @ [a]) @ n # b # vs"
    using us vs by (metis append.assoc append_Cons)+
  have w: "successively (consecutive s) (us @ [a])" "successively (consecutive s) (b # vs)"
    using assms(1) unfolding ring_def walk(1) successively_append_iff by blast+
  have n: "n \<notin> set (us @ [a])" "n \<notin> set (b # vs)" using assms(2) by (auto simp: us [symmetric] vs [symmetric])
  let ?t = "put_between a n b s"
  have "successively (consecutive ?t) (us @ [a])"
    by (rule before_cut [OF us _ w(1)]) (use n d assms(2) ab in \<open>auto simp: put_between_def\<close>)
  moreover have "successively (consecutive ?t) (b # vs)"
    by (rule after_cut [OF vs _ w(2)]) (use n d assms(2) ab in \<open>auto simp: put_between_def\<close>)
  moreover have "consecutive ?t a n" "consecutive ?t n b" using n by (auto simp: consecutive_def put_between_def)
  ultimately have "successively (consecutive ?t) ((us @ [a]) @ n # b # vs)"
    unfolding successively_append_iff by simp
  then show ?thesis unfolding ring_def walk(2) using assms(1,2) by (auto simp: ring_def)
qed

text \<open>A node taken out between two neighbours.\<close>

definition bypass :: "'n \<Rightarrow> 'n \<Rightarrow> 'n \<Rightarrow> 'n links \<Rightarrow> 'n links" where
  "bypass a n b s = s\<lparr>nxt := (nxt s)(a := b, n := n), prv := (prv s)(b := a, n := n)\<rparr>"

lemma ring_bypass:
  assumes "ring s h (xs @ n # ys)" and "a = last (h # xs)" and "b = hd (ys @ [h])"
  shows "ring (bypass a n b s) h (xs @ ys)" and "ring (bypass a n b s) n []"
proof -
  have d: "distinct (h # xs @ ys)" "n \<notin> set (h # xs @ ys)" using assms(1) by (auto simp: ring_def)
  obtain us vs where us: "h # xs = us @ [a]" and vs: "ys @ [h] = b # vs"
    and ab: "a \<notin> set ys" "b \<notin> set xs" using d(1) assms(2,3) by (rule cut_ring)
  have walk: "h # (xs @ ys) @ [h] = (us @ [a]) @ b # vs" "h # (xs @ n # ys) @ [h] = (us @ [a]) @ n # b # vs"
    using us vs by (metis append.assoc append_Cons)+
  have w: "successively (consecutive s) (us @ [a])" "successively (consecutive s) (b # vs)"
    using assms(1) unfolding ring_def walk(2) successively_append_iff by (cases vs, auto)
  have n: "n \<notin> set (us @ [a])" "n \<notin> set (b # vs)" using d(2) by (auto simp: us [symmetric] vs [symmetric])
  let ?t = "bypass a n b s"
  have "successively (consecutive ?t) (us @ [a])"
    by (rule before_cut [OF us _ w(1)]) (use n d ab in \<open>auto simp: bypass_def\<close>)
  moreover have "successively (consecutive ?t) (b # vs)"
    by (rule after_cut [OF vs _ w(2)]) (use n d ab in \<open>auto simp: bypass_def\<close>)
  moreover have "consecutive ?t a b" using n by (auto simp: consecutive_def bypass_def)
  ultimately have "successively (consecutive ?t) ((us @ [a]) @ b # vs)"
    unfolding successively_append_iff by simp
  then show "ring ?t h (xs @ ys)" unfolding ring_def walk(1) using d by auto
  show "ring ?t n []" by (simp add: ring_def consecutive_def bypass_def)
qed

subsection \<open>All lists\<close>

text \<open>\<open>L h\<close> is the sequence on the ring headed by \<open>h\<close>; it is empty for nodes on another node's ring.\<close>

definition rings :: "'n links \<Rightarrow> ('n \<Rightarrow> 'n list) \<Rightarrow> bool" where
  "rings s L \<longleftrightarrow> (\<forall>h. (\<forall>k. h \<notin> set (L k)) \<longrightarrow> ring s h (L h)) \<and> (\<forall>h k. h \<in> set (L k) \<longrightarrow> L h = []) \<and>
     (\<forall>h k. h \<noteq> k \<longrightarrow> set (L h) \<inter> set (L k) = {})"

definition unlink :: "'n \<Rightarrow> ('n \<Rightarrow> 'n list) \<Rightarrow> 'n \<Rightarrow> 'n list" where
  "unlink n L = (\<lambda>h. removeAll n (L h))"

lemma rings_ring: "rings s L \<Longrightarrow> \<forall>k. h \<notin> set (L k) \<Longrightarrow> ring s h (L h)"
  by (simp add: rings_def)

lemma rings_head: "rings s L \<Longrightarrow> L h \<noteq> [] \<Longrightarrow> h \<notin> set (L k)"
  by (auto simp: rings_def)

lemma rings_ring': "rings s L \<Longrightarrow> L h \<noteq> [] \<Longrightarrow> ring s h (L h)"
  using rings_ring rings_head by metis

lemma rings_once: "rings s L \<Longrightarrow> n \<in> set (L h) \<Longrightarrow> n \<in> set (L k) \<Longrightarrow> h = k"
  unfolding rings_def by blast

lemma rings_distinct: "rings s L \<Longrightarrow> distinct (L h)"
  using rings_ring' [of s L h] by (cases "L h = []") (auto simp: ring_def)

lemma rings_isempty: "rings s L \<Longrightarrow> \<forall>k. h \<notin> set (L k) \<Longrightarrow> rt_list_isempty h s \<longleftrightarrow> L h = []"
  using rings_ring ring_isempty by metis

lemma unlink_not: "\<forall>h. n \<notin> set (L h) \<Longrightarrow> unlink n L = L"
  by (auto simp: unlink_def fun_eq_iff)

lemma unlink_set [simp]: "set (unlink n L h) = set (L h) - {n}"
  by (simp add: unlink_def)

lemma unlink_Nil [simp]: "L h = [] \<Longrightarrow> unlink n L h = []"
  by (simp add: unlink_def)

text \<open>The rings that do not contain the changed nodes stay as they are.\<close>

lemma rings_change:
  assumes r: "rings s L" and h: "\<forall>k. h \<notin> set (L k)" and n: "n \<in> set (L h) \<or> (\<forall>k. n \<notin> set (L k)) \<and> L n = []" and hn: "h \<noteq> n"
    and set: "set xs \<subseteq> insert n (set (L h))" and ring: "ring t h xs" and lost: "n \<notin> set xs \<Longrightarrow> ring t n []" "set (L h) - {n} \<subseteq> set xs"
    and frame: "\<And>x. x \<noteq> h \<Longrightarrow> x \<noteq> n \<Longrightarrow> x \<notin> set (L h) \<Longrightarrow> nxt t x = nxt s x \<and> prv t x = prv s x"
  shows "rings t (L(h := xs))"
proof -
  let ?L = "L(h := xs)"
  have mem: "x \<in> set (?L k) \<longleftrightarrow> (if k = h then x \<in> set xs else x \<in> set (L k))" for x k by simp
  have elsewhere: "x \<notin> set xs" if "x \<in> set (L k)" "k \<noteq> h" for x k
  proof
    assume "x \<in> set xs"
    then have "x = n \<or> x \<in> set (L h)" using set by auto
    then show False using that n rings_once [OF r, of x k h] by auto
  qed
  have "ring t k (?L k)" if k: "\<forall>j. k \<notin> set (?L j)" for k
  proof -
    consider "k = h" | "k = n" "k \<noteq> h" | "k \<noteq> h" "k \<noteq> n" by blast
    then show ?thesis
    proof cases
      case 1
      then show ?thesis using ring by simp
    next
      case 2
      have "n \<notin> set xs" using k 2 by (metis fun_upd_same)
      moreover have "L n = []" using n r by (auto simp: rings_def)
      ultimately show ?thesis using 2 lost(1) by simp
    next
      case 3
      have kx: "k \<notin> set xs" using spec [OF k, of h] by simp
      have free: "k \<notin> set (L j)" for j
        using spec [OF k, of j] kx lost(2) 3 by (cases "j = h") auto
      then have rk: "ring s k (L k)" using rings_ring [OF r] by blast
      have "nxt t x = nxt s x \<and> prv t x = prv s x" if x: "x \<in> set (k # L k)" for x
      proof (rule frame)
        show "x \<noteq> h" using x 3 h by auto
        show "x \<noteq> n" using x 3 n rings_once [OF r, of n k h] by auto
        show "x \<notin> set (L h)" using x 3 free rings_once [OF r, of x k h] by auto
      qed
      then show ?thesis using ring_frame [OF rk, of t] 3 by simp
    qed
  qed
  moreover have "?L k = []" if "k \<in> set (?L j)" for j k
  proof (cases "j = h")
    case True
    then have "k = n \<or> k \<in> set (L h)" using that set by auto
    then have "L k = []" "k \<noteq> h" using n r h hn by (auto simp: rings_def)
    then show ?thesis by simp
  next
    case False
    then have "L k = []" "k \<noteq> h" using that r h by (auto simp: rings_def)
    then show ?thesis by simp
  qed
  moreover have "set (?L j) \<inter> set (?L k) = {}" if jk: "j \<noteq> k" for j k
  proof -
    have "x \<notin> set (?L k)" if "x \<in> set (?L j)" for x
    proof (cases "j = h \<or> k = h")
      case True
      then show ?thesis using that jk elsewhere [of x] by (auto split: if_split_asm)
    next
      case False
      then show ?thesis using that jk rings_once [OF r, of x j k] by auto
    qed
    then show ?thesis by blast
  qed
  ultimately show ?thesis by (simp only: rings_def) blast
qed

lemma rings_put:
  assumes "rings s L" and "\<forall>k. h \<notin> set (L k)" and "\<forall>k. n \<notin> set (L k)" and "L n = []" and "h \<noteq> n" and "L h = xs @ ys"
    and "a = last (h # xs)" and "b = hd (ys @ [h])"
  shows "rings (put_between a n b s) (L(h := xs @ n # ys))"
proof (rule rings_change [OF assms(1,2) _ assms(5)])
  have nh: "n \<notin> set (L h)" using assms(3) by blast
  have "ring s h (xs @ ys)" using rings_ring [OF assms(1,2)] assms(6) by simp
  then show "ring (put_between a n b s) h (xs @ n # ys)"
    by (rule ring_put_between) (use nh assms(5-8) in auto)
  show "nxt (put_between a n b s) x = nxt s x \<and> prv (put_between a n b s) x = prv s x"
    if "x \<noteq> h" "x \<noteq> n" "x \<notin> set (L h)" for x
  proof -
    have "a \<in> insert h (set xs)" "b \<in> insert h (set ys)" using assms(7,8) by (cases ys; auto)+
    then show ?thesis using that assms(6) by (auto simp: put_between_def)
  qed
qed (use assms in auto)

lemma rings_bypass:
  assumes "rings s L" and "L h = xs @ n # ys" and "a = last (h # xs)" and "b = hd (ys @ [h])"
  shows "rings (bypass a n b s) (L(h := xs @ ys))"
proof (rule rings_change [OF assms(1)])
  have h: "L h \<noteq> []" using assms(2) by simp
  show free: "\<forall>k. h \<notin> set (L k)" using rings_head [OF assms(1) h] by blast
  have r: "ring s h (xs @ n # ys)" using rings_ring [OF assms(1) free] assms(2) by simp
  show "n \<in> set (L h) \<or> (\<forall>k. n \<notin> set (L k)) \<and> L n = []" using assms(2) by simp
  show "h \<noteq> n" using r by (auto simp: ring_def)
  show "ring (bypass a n b s) h (xs @ ys)" "ring (bypass a n b s) n []" using ring_bypass [OF r assms(3,4)] by simp_all
  show "nxt (bypass a n b s) x = nxt s x \<and> prv (bypass a n b s) x = prv s x" if "x \<noteq> h" "x \<noteq> n" "x \<notin> set (L h)" for x
  proof -
    have "a \<in> insert h (set xs)" "b \<in> insert h (set ys)" using assms(3,4) by (cases ys; auto)+
    then show ?thesis using that assms(2) by (auto simp: bypass_def)
  qed
qed (use assms in auto)

subsection \<open>The operations on all lists\<close>

lemma insert_before_put: "n \<noteq> l \<Longrightarrow> n \<noteq> prv s l \<Longrightarrow> rt_list_insert_before l n s = put_between (prv s l) n l s"
  by (auto simp: rt_list_insert_before_def put_between_def fun_upd_twist)

lemma insert_after_put: "n \<noteq> l \<Longrightarrow> n \<noteq> nxt s l \<Longrightarrow> rt_list_insert_after l n s = put_between l n (nxt s l) s"
  by (auto simp: rt_list_insert_after_def put_between_def fun_upd_twist)

lemma remove_bypass: "n \<noteq> prv s n \<Longrightarrow> n \<noteq> nxt s n \<Longrightarrow> rt_list_remove n s = bypass (prv s n) n (nxt s n) s"
  by (auto simp: rt_list_remove_def bypass_def fun_upd_twist)

lemma remove_self: "prv s n = n \<Longrightarrow> nxt s n = n \<Longrightarrow> rt_list_remove n s = s"
  by (cases s) (simp add: rt_list_remove_def fun_upd_idem)

lemma rings_insert_last:
  assumes "rings s L" and "\<forall>k. h \<notin> set (L k)" and "\<forall>k. n \<notin> set (L k)" and "L n = []" and "h \<noteq> n"
  shows "rings (rt_list_insert_before h n s) (L(h := L h @ [n]))"
proof -
  have e: "prv s h = last (h # L h)" using ring_ends [OF rings_ring [OF assms(1,2)]] by simp
  have ne: "n \<noteq> prv s h" using e spec [OF assms(3), of h] assms(5) last_in_set [of "L h"] by (cases "L h = []") auto
  show ?thesis
    unfolding insert_before_put [OF assms(5) [symmetric] ne]
    using rings_put [OF assms, of "L h" "[]"] e by simp
qed

lemma rings_insert_first:
  assumes "rings s L" and "\<forall>k. h \<notin> set (L k)" and "\<forall>k. n \<notin> set (L k)" and "L n = []" and "h \<noteq> n"
  shows "rings (rt_list_insert_after h n s) (L(h := n # L h))"
proof -
  have e: "nxt s h = hd (L h @ [h])" using ring_ends [OF rings_ring [OF assms(1,2)]] by simp
  have ne: "n \<noteq> nxt s h" using e assms(3,5) by (cases "L h") (auto dest: spec [of _ h])
  show ?thesis
    unfolding insert_after_put [OF assms(5) [symmetric] ne]
    using rings_put [OF assms, of "[]" "L h"] e by simp
qed

lemma rings_insert_before:
  assumes "rings s L" and "\<forall>k. n \<notin> set (L k)" and "L n = []" and "L h = xs @ m # ys" and "h \<noteq> n"
  shows "rings (rt_list_insert_before m n s) (L(h := xs @ n # m # ys))"
proof -
  have h: "L h \<noteq> []" using assms(4) by simp
  have free: "\<forall>k. h \<notin> set (L k)" using rings_head [OF assms(1) h] by blast
  have r: "ring s h (xs @ m # ys)" using rings_ring [OF assms(1) free] assms(4) by simp
  have e: "prv s m = last (h # xs)" using ring_at [OF r] by simp
  have mn: "n \<noteq> m" "n \<noteq> prv s m" using e assms(2,4,5) by (auto dest: spec [of _ h])
  show ?thesis
    unfolding insert_before_put [OF mn]
    using rings_put [OF assms(1) free assms(2,3,5,4)] e by simp
qed

lemma rings_insert_after:
  assumes "rings s L" and "\<forall>k. n \<notin> set (L k)" and "L n = []" and "L h = xs @ m # ys" and "h \<noteq> n"
  shows "rings (rt_list_insert_after m n s) (L(h := xs @ m # n # ys))"
proof -
  have h: "L h \<noteq> []" using assms(4) by simp
  have free: "\<forall>k. h \<notin> set (L k)" using rings_head [OF assms(1) h] by blast
  have r: "ring s h (xs @ m # ys)" using rings_ring [OF assms(1) free] assms(4) by simp
  have e: "nxt s m = hd (ys @ [h])" using ring_at [OF r] by simp
  have mn: "n \<noteq> m" "n \<noteq> nxt s m" using e assms(2,4,5) by (cases ys; auto dest: spec [of _ h])+
  show ?thesis
    unfolding insert_after_put [OF mn]
    using rings_put [OF assms(1) free assms(2,3,5), of "xs @ [m]" ys] assms(4) e by simp
qed

lemma rings_remove:
  assumes "rings s L" and "L n = []"
  shows "rings (rt_list_remove n s) (unlink n L)"
proof (cases "\<exists>h. n \<in> set (L h)")
  case True
  then obtain h xs ys where h: "L h = xs @ n # ys" by (metis split_list)
  have ne: "L h \<noteq> []" using h by simp
  have r: "ring s h (xs @ n # ys)" using rings_ring' [OF assms(1) ne] h by simp
  note e = ring_at [OF r]
  have d: "distinct (h # xs @ n # ys)" using r by (simp add: ring_def)
  have n: "n \<noteq> prv s n" "n \<noteq> nxt s n" using d unfolding e by (cases ys; auto)+
  have "unlink n L = L(h := xs @ ys)"
  proof
    fix k
    show "unlink n L k = (L(h := xs @ ys)) k"
    proof (cases "k = h")
      case True
      then show ?thesis using h d by (simp add: unlink_def)
    next
      case False
      then have "n \<notin> set (L k)" using rings_once [OF assms(1), of n h k] h by auto
      then show ?thesis using False by (simp add: unlink_def)
    qed
  qed
  then show ?thesis
    unfolding remove_bypass [OF n] using rings_bypass [OF assms(1) h] e by simp
next
  case False
  then have free: "\<forall>h. n \<notin> set (L h)" by blast
  note e = ring_ends [OF rings_ring [OF assms(1) free]]
  show ?thesis using remove_self [of s n] e assms by (simp add: unlink_not [OF free])
qed

end
