(* ===== verification/Kernel.thy ===== *)
theory Kernel imports RtList Mem begin

text \<open>
  The state of the RT-Thread kernel, its scheduler (scheduler.c, irq.c) and its objects (object.c), in the
  configuration of rtconfig.h: 32 priorities, assertions on, no hooks, no signals, no modules.

  Threads, timers, semaphores and mutexes are kept by address; the nodes of all lists are in one structure
  of links. A failed assertion, a null pointer, an index outside the table of ready lists and a list entry
  of the wrong kind are \<open>None\<close>. The code between disabling and enabling interrupts is one step. A context
  switch is an event, newest first; the thread that runs is \<open>rt_current_thread\<close>.
\<close>

subsection \<open>State\<close>

text \<open>Pointers: a timer of its own or the timer inside a thread; a semaphore or a mutex.\<close>

datatype timer_ptr = Thread_timer u32 | Timer_at u32

datatype ipc_ptr = Sem_at u32 | Mutex_at u32

datatype object_ptr = Obj_thread u32 | Obj_timer timer_ptr | Obj_ipc ipc_ptr

datatype node = Tlist u32 | Row timer_ptr | Obj_list object_ptr | Ready nat | Timer_head | Defunct_head | Suspend ipc_ptr | Container u8

record rt_object =
  obj_name :: string
  obj_type :: u8
  obj_flag :: u8

datatype timeout_fn = Rt_thread_timeout | User_timeout nat

record rt_timer =
  timeout_func :: timeout_fn
  timer_parameter :: u32
  timer_init_tick :: u32
  timeout_tick :: u32

record rt_thread =
  stack_addr :: u32
  stack_size :: u32
  thread_error :: int
  stat :: u8
  current_priority :: u8
  init_priority :: u8
  number_mask :: u32
  init_tick :: u32
  remaining_tick :: u32
  cleanup :: u32

record rt_mutex =
  mutex_value :: u16
  original_priority :: u8
  mutex_hold :: u8
  mutex_owner :: u32

datatype cpu_switch = Switch_to u32 | Switch u32 u32 | Switch_interrupt u32 u32

record kernel =
  klinks :: "node links"
  objects :: "object_ptr \<Rightarrow> rt_object"
  threads :: "u32 \<Rightarrow> rt_thread"
  timers :: "timer_ptr \<Rightarrow> rt_timer"
  sem_value :: "u32 \<Rightarrow> u16"
  mutexes :: "u32 \<Rightarrow> rt_mutex"
  rt_tick :: u32
  rt_interrupt_nest :: u8
  rt_scheduler_lock_nest :: u16
  rt_current_thread :: u32
  rt_current_priority :: u8
  rt_thread_ready_priority_group :: u32
  random_nr :: u32
  switches :: "cpu_switch list"
  kheap :: heap

definition RT_ASSERT :: "bool \<Rightarrow> unit option" where
  "RT_ASSERT b = (if b then Some () else None)"

definition on_links :: "(node links \<Rightarrow> node links) \<Rightarrow> kernel \<Rightarrow> kernel" where
  "on_links f k = k\<lparr>klinks := f (klinks k)\<rparr>"

definition upd_thread :: "u32 \<Rightarrow> (rt_thread \<Rightarrow> rt_thread) \<Rightarrow> kernel \<Rightarrow> kernel" where
  "upd_thread t f k = k\<lparr>threads := (threads k)(t := f (threads k t))\<rparr>"

definition upd_timer :: "timer_ptr \<Rightarrow> (rt_timer \<Rightarrow> rt_timer) \<Rightarrow> kernel \<Rightarrow> kernel" where
  "upd_timer tm f k = k\<lparr>timers := (timers k)(tm := f (timers k tm))\<rparr>"

definition upd_object :: "object_ptr \<Rightarrow> (rt_object \<Rightarrow> rt_object) \<Rightarrow> kernel \<Rightarrow> kernel" where
  "upd_object ob f k = k\<lparr>objects := (objects k)(ob := f (objects k ob))\<rparr>"

definition upd_mutex :: "u32 \<Rightarrow> (rt_mutex \<Rightarrow> rt_mutex) \<Rightarrow> kernel \<Rightarrow> kernel" where
  "upd_mutex m f k = k\<lparr>mutexes := (mutexes k)(m := f (mutexes k m))\<rparr>"

definition RT_EOK :: int where "RT_EOK = 0"
definition RT_ERROR :: int where "RT_ERROR = 1"
definition RT_ETIMEOUT :: int where "RT_ETIMEOUT = 2"
definition RT_EINTR :: int where "RT_EINTR = 9"

definition RT_THREAD_INIT :: u8 where "RT_THREAD_INIT = 0"
definition RT_THREAD_READY :: u8 where "RT_THREAD_READY = 1"
definition RT_THREAD_SUSPEND :: u8 where "RT_THREAD_SUSPEND = 2"
definition RT_THREAD_CLOSE :: u8 where "RT_THREAD_CLOSE = 4"
definition RT_THREAD_STAT_MASK :: u8 where "RT_THREAD_STAT_MASK = 0x0f"
definition RT_THREAD_PRIORITY_MAX :: nat where "RT_THREAD_PRIORITY_MAX = 32"

definition RT_Object_Class_Thread :: u8 where "RT_Object_Class_Thread = 1"
definition RT_Object_Class_Semaphore :: u8 where "RT_Object_Class_Semaphore = 2"
definition RT_Object_Class_Mutex :: u8 where "RT_Object_Class_Mutex = 3"
definition RT_Object_Class_Timer :: u8 where "RT_Object_Class_Timer = 10"
definition RT_Object_Class_Static :: u8 where "RT_Object_Class_Static = 0x80"

subsection \<open>Interrupt nesting\<close>

definition rt_interrupt_enter :: "kernel \<Rightarrow> kernel" where
  "rt_interrupt_enter k = k\<lparr>rt_interrupt_nest := rt_interrupt_nest k + 1\<rparr>"

definition rt_interrupt_leave :: "kernel \<Rightarrow> kernel" where
  "rt_interrupt_leave k = k\<lparr>rt_interrupt_nest := rt_interrupt_nest k - 1\<rparr>"

definition RT_DEBUG_NOT_IN_INTERRUPT :: "kernel \<Rightarrow> unit option" where
  "RT_DEBUG_NOT_IN_INTERRUPT k = RT_ASSERT (rt_interrupt_nest k = 0)"

definition RT_DEBUG_IN_THREAD_CONTEXT :: "kernel \<Rightarrow> unit option" where
  "RT_DEBUG_IN_THREAD_CONTEXT k = do { RT_ASSERT (rt_current_thread k \<noteq> 0); RT_DEBUG_NOT_IN_INTERRUPT k }"

subsection \<open>Scheduler\<close>

definition lowest_bit_bitmap :: "u32 list" where
  "lowest_bit_bitmap =
    [0, 0, 1, 0, 2, 0, 1, 0, 3, 0, 1, 0, 2, 0, 1, 0,
     4, 0, 1, 0, 2, 0, 1, 0, 3, 0, 1, 0, 2, 0, 1, 0,
     5, 0, 1, 0, 2, 0, 1, 0, 3, 0, 1, 0, 2, 0, 1, 0,
     4, 0, 1, 0, 2, 0, 1, 0, 3, 0, 1, 0, 2, 0, 1, 0,
     6, 0, 1, 0, 2, 0, 1, 0, 3, 0, 1, 0, 2, 0, 1, 0,
     4, 0, 1, 0, 2, 0, 1, 0, 3, 0, 1, 0, 2, 0, 1, 0,
     5, 0, 1, 0, 2, 0, 1, 0, 3, 0, 1, 0, 2, 0, 1, 0,
     4, 0, 1, 0, 2, 0, 1, 0, 3, 0, 1, 0, 2, 0, 1, 0,
     7, 0, 1, 0, 2, 0, 1, 0, 3, 0, 1, 0, 2, 0, 1, 0,
     4, 0, 1, 0, 2, 0, 1, 0, 3, 0, 1, 0, 2, 0, 1, 0,
     5, 0, 1, 0, 2, 0, 1, 0, 3, 0, 1, 0, 2, 0, 1, 0,
     4, 0, 1, 0, 2, 0, 1, 0, 3, 0, 1, 0, 2, 0, 1, 0,
     6, 0, 1, 0, 2, 0, 1, 0, 3, 0, 1, 0, 2, 0, 1, 0,
     4, 0, 1, 0, 2, 0, 1, 0, 3, 0, 1, 0, 2, 0, 1, 0,
     5, 0, 1, 0, 2, 0, 1, 0, 3, 0, 1, 0, 2, 0, 1, 0,
     4, 0, 1, 0, 2, 0, 1, 0, 3, 0, 1, 0, 2, 0, 1, 0]"

definition rt_ffs :: "u32 \<Rightarrow> u32" where
  "rt_ffs value =
     (if value = 0 then 0
      else if value AND 0xff \<noteq> 0 then lowest_bit_bitmap ! unat (value AND 0xff) + 1
      else if value AND 0xff00 \<noteq> 0 then lowest_bit_bitmap ! unat (drop_bit 8 (value AND 0xff00)) + 9
      else if value AND 0xff0000 \<noteq> 0 then lowest_bit_bitmap ! unat (drop_bit 16 (value AND 0xff0000)) + 17
      else lowest_bit_bitmap ! unat (drop_bit 24 (value AND 0xff000000)) + 25)"

text \<open>\<open>rt_list_entry\<close> of the first node of a list of threads.\<close>

fun thread_of :: "node \<Rightarrow> u32 option" where
  "thread_of (Tlist t) = Some t"
| "thread_of _ = None"

definition first_thread :: "node \<Rightarrow> kernel \<Rightarrow> u32 option" where
  "first_thread h k = thread_of (nxt (klinks k) h)"

definition priority_list :: "nat \<Rightarrow> node option" where
  "priority_list p = (if p < RT_THREAD_PRIORITY_MAX then Some (Ready p) else None)"

definition rt_system_scheduler_init :: "kernel \<Rightarrow> kernel" where
  "rt_system_scheduler_init k =
     (let k = k\<lparr>rt_scheduler_lock_nest := 0\<rparr>;
          k = fold (\<lambda>offset. on_links (rt_list_init (Ready offset))) [0..<RT_THREAD_PRIORITY_MAX] k;
          k = k\<lparr>rt_current_priority := of_nat (RT_THREAD_PRIORITY_MAX - 1), rt_current_thread := 0, rt_thread_ready_priority_group := 0\<rparr>
      in on_links (rt_list_init Defunct_head) k)"

definition rt_system_scheduler_start :: "kernel \<Rightarrow> kernel option" where
  "rt_system_scheduler_start k =
     (let highest_ready_priority = rt_ffs (rt_thread_ready_priority_group k) - 1
      in do { l \<leftarrow> priority_list (unat highest_ready_priority);
              to \<leftarrow> first_thread l k;
              Some (k\<lparr>rt_current_thread := to, switches := Switch_to to # switches k\<rparr>) })"

definition rt_schedule :: "kernel \<Rightarrow> kernel option" where
  "rt_schedule k =
     (if rt_scheduler_lock_nest k = 0
      then let highest_ready_priority = rt_ffs (rt_thread_ready_priority_group k) - 1
           in do { l \<leftarrow> priority_list (unat highest_ready_priority);
                   to \<leftarrow> first_thread l k;
                   Some (if to \<noteq> rt_current_thread k
                         then let from = rt_current_thread k;
                                  k = k\<lparr>rt_current_priority := ucast highest_ready_priority, rt_current_thread := to\<rparr>
                              in k\<lparr>switches := (if rt_interrupt_nest k = 0 then Switch from to else Switch_interrupt from to) # switches k\<rparr>
                         else k) }
      else Some k)"

definition rt_schedule_insert_thread :: "u32 \<Rightarrow> kernel \<Rightarrow> kernel option" where
  "rt_schedule_insert_thread t k =
     do { RT_ASSERT (t \<noteq> 0);
          let k = upd_thread t (\<lambda>r. r\<lparr>stat := RT_THREAD_READY OR (stat r AND NOT RT_THREAD_STAT_MASK)\<rparr>) k;
          l \<leftarrow> priority_list (unat (current_priority (threads k t)));
          let k = on_links (rt_list_insert_before l (Tlist t)) k;
          Some (k\<lparr>rt_thread_ready_priority_group := rt_thread_ready_priority_group k OR number_mask (threads k t)\<rparr>) }"

definition rt_schedule_remove_thread :: "u32 \<Rightarrow> kernel \<Rightarrow> kernel option" where
  "rt_schedule_remove_thread t k =
     do { RT_ASSERT (t \<noteq> 0);
          let k = on_links (rt_list_remove (Tlist t)) k;
          l \<leftarrow> priority_list (unat (current_priority (threads k t)));
          Some (if rt_list_isempty l (klinks k)
                then k\<lparr>rt_thread_ready_priority_group := rt_thread_ready_priority_group k AND NOT (number_mask (threads k t))\<rparr>
                else k) }"

definition rt_enter_critical :: "kernel \<Rightarrow> kernel" where
  "rt_enter_critical k = k\<lparr>rt_scheduler_lock_nest := rt_scheduler_lock_nest k + 1\<rparr>"

definition rt_exit_critical :: "kernel \<Rightarrow> kernel option" where
  "rt_exit_critical k =
     (let k = k\<lparr>rt_scheduler_lock_nest := rt_scheduler_lock_nest k - 1\<rparr>
      in if sint (rt_scheduler_lock_nest k) \<le> 0
         then let k = k\<lparr>rt_scheduler_lock_nest := 0\<rparr>
              in if rt_current_thread k \<noteq> 0 then rt_schedule k else Some k
         else Some k)"

definition rt_critical_level :: "kernel \<Rightarrow> u16" where
  "rt_critical_level k = rt_scheduler_lock_nest k"

subsection \<open>Objects\<close>

text \<open>
  The containers of the classes in this configuration with the sizes of their structures on the target
  (4-byte pointers and longs). Devices, which have a container as well, are not modelled.
\<close>

definition rt_object_container :: "(u8 \<times> u32) list" where
  "rt_object_container =
     [(RT_Object_Class_Thread, 120), (RT_Object_Class_Semaphore, 32), (RT_Object_Class_Mutex, 36), (RT_Object_Class_Timer, 44)]"

definition rt_object_get_information :: "u8 \<Rightarrow> (u8 \<times> u32) option" where
  "rt_object_get_information ty = find (\<lambda>i. fst i = ty) rt_object_container"

definition rt_object_get_type :: "object_ptr \<Rightarrow> kernel \<Rightarrow> u8" where
  "rt_object_get_type ob k = obj_type (objects k ob) AND NOT RT_Object_Class_Static"

definition rt_object_is_systemobject :: "object_ptr \<Rightarrow> kernel \<Rightarrow> bool" where
  "rt_object_is_systemobject ob k \<longleftrightarrow> obj_type (objects k ob) AND RT_Object_Class_Static \<noteq> 0"

definition RT_NAME_MAX :: nat where "RT_NAME_MAX = 8"

text \<open>The walk along a container that asserts that the object is not in it yet.\<close>

partial_function (option) not_in_container :: "object_ptr \<Rightarrow> u8 \<Rightarrow> kernel \<Rightarrow> node \<Rightarrow> unit option" where
  "not_in_container ob ty k n =
     (if n = Container ty then Some ()
      else case n of Obj_list ob' \<Rightarrow> (if ob' = ob then None else not_in_container ob ty k (nxt (klinks k) n)) | _ \<Rightarrow> None)"

definition rt_object_init :: "object_ptr \<Rightarrow> u8 \<Rightarrow> string \<Rightarrow> kernel \<Rightarrow> kernel option" where
  "rt_object_init ob ty name k =
     do { information \<leftarrow> rt_object_get_information ty;
          let k = rt_enter_critical k;
          not_in_container ob ty k (nxt (klinks k) (Container ty));
          k \<leftarrow> rt_exit_critical k;
          let k = upd_object ob (\<lambda>r. r\<lparr>obj_type := ty OR RT_Object_Class_Static, obj_name := take RT_NAME_MAX name\<rparr>) k;
          Some (on_links (rt_list_insert_after (Container ty) (Obj_list ob)) k) }"

definition rt_object_detach :: "object_ptr \<Rightarrow> kernel \<Rightarrow> kernel" where
  "rt_object_detach ob k = on_links (rt_list_remove (Obj_list ob)) (upd_object ob (\<lambda>r. r\<lparr>obj_type := 0\<rparr>) k)"

text \<open>An object of a class at an address, and its memory cleared.\<close>

definition object_at :: "u8 \<Rightarrow> u32 \<Rightarrow> object_ptr option" where
  "object_at ty p =
     (if ty = RT_Object_Class_Thread then Some (Obj_thread p)
      else if ty = RT_Object_Class_Semaphore then Some (Obj_ipc (Sem_at p))
      else if ty = RT_Object_Class_Mutex then Some (Obj_ipc (Mutex_at p))
      else if ty = RT_Object_Class_Timer then Some (Obj_timer (Timer_at p))
      else None)"

definition OFFSET_OF_THREAD_TIMER :: u32 where "OFFSET_OF_THREAD_TIMER = 68"

fun address_of :: "object_ptr \<Rightarrow> u32" where
  "address_of (Obj_thread p) = p"
| "address_of (Obj_timer (Timer_at p)) = p"
| "address_of (Obj_timer (Thread_timer t)) = t + OFFSET_OF_THREAD_TIMER"
| "address_of (Obj_ipc (Sem_at p)) = p"
| "address_of (Obj_ipc (Mutex_at p)) = p"

definition zero_thread :: rt_thread where
  "zero_thread = \<lparr>stack_addr = 0, stack_size = 0, thread_error = 0, stat = 0, current_priority = 0, init_priority = 0, number_mask = 0,
     init_tick = 0, remaining_tick = 0, cleanup = 0\<rparr>"

definition zero_mutex :: rt_mutex where
  "zero_mutex = \<lparr>mutex_value = 0, original_priority = 0, mutex_hold = 0, mutex_owner = 0\<rparr>"

fun clear_fields :: "object_ptr \<Rightarrow> kernel \<Rightarrow> kernel" where
  "clear_fields (Obj_thread p) k = upd_thread p (\<lambda>_. zero_thread) k"
| "clear_fields (Obj_ipc (Sem_at p)) k = k\<lparr>sem_value := (sem_value k)(p := 0)\<rparr>"
| "clear_fields (Obj_ipc (Mutex_at p)) k = upd_mutex p (\<lambda>_. zero_mutex) k"
| "clear_fields (Obj_timer tm) k = upd_timer tm (\<lambda>r. r\<lparr>timer_init_tick := 0, timeout_tick := 0, timer_parameter := 0\<rparr>) k"

definition rt_object_allocate :: "u8 \<Rightarrow> string \<Rightarrow> kernel \<Rightarrow> (u32 \<times> kernel) option" where
  "rt_object_allocate ty name k =
     do { RT_DEBUG_NOT_IN_INTERRUPT k;
          (_, object_size) \<leftarrow> rt_object_get_information ty;
          (p, h) \<leftarrow> rt_malloc object_size (kheap k);
          let k = k\<lparr>kheap := h\<rparr>;
          if p = 0 then Some (0, k)
          else do {
            let k = k\<lparr>kheap := (kheap k)\<lparr>memory := rt_memset p 0 (unat object_size) (memory (kheap k))\<rparr>\<rparr>;
            ob \<leftarrow> object_at ty p;
            let k = clear_fields ob k;
            let k = upd_object ob (\<lambda>_. \<lparr>obj_name = take RT_NAME_MAX name, obj_type = ty, obj_flag = 0\<rparr>) k;
            Some (p, on_links (rt_list_insert_after (Container ty) (Obj_list ob)) k) } }"

definition rt_object_delete :: "object_ptr \<Rightarrow> kernel \<Rightarrow> kernel option" where
  "rt_object_delete ob k =
     do { RT_ASSERT (obj_type (objects k ob) AND RT_Object_Class_Static = 0);
          let k = upd_object ob (\<lambda>r. r\<lparr>obj_type := 0\<rparr>) k;
          let k = on_links (rt_list_remove (Obj_list ob)) k;
          h \<leftarrow> rt_free (address_of ob) (kheap k);
          Some (k\<lparr>kheap := h\<rparr>) }"

text \<open>The walk of \<open>rt_object_find\<close>: the inner option is the pointer that is returned.\<close>

partial_function (option) find_in_container :: "string \<Rightarrow> u8 \<Rightarrow> kernel \<Rightarrow> node \<Rightarrow> object_ptr option option" where
  "find_in_container name ty k n =
     (if n = Container ty then Some None
      else case n of
        Obj_list ob \<Rightarrow> (if take RT_NAME_MAX (obj_name (objects k ob)) = take RT_NAME_MAX name then Some (Some ob)
                       else find_in_container name ty k (nxt (klinks k) n))
      | _ \<Rightarrow> None)"

definition rt_object_find :: "string \<Rightarrow> u8 \<Rightarrow> kernel \<Rightarrow> (object_ptr option \<times> kernel) option" where
  "rt_object_find name ty k =
     (if ty > 12 then Some (None, k)
      else do {
        RT_DEBUG_NOT_IN_INTERRUPT k;
        let k = rt_enter_critical k;
        information \<leftarrow> rt_object_get_information ty;
        r \<leftarrow> find_in_container name ty k (nxt (klinks k) (Container ty));
        k \<leftarrow> rt_exit_critical k;
        Some (r, k) })"

declare not_in_container.simps [code] find_in_container.simps [code]

end
