(* ===== verification/Timer.thy ===== *)
theory Timer imports Kernel begin

text \<open>
  The timers of the kernel (timer.c) with one list and no timer thread. The callbacks of application
  timers are a parameter, a function from the number of the callback.
\<close>

definition RT_TIMER_FLAG_ACTIVATED :: u8 where "RT_TIMER_FLAG_ACTIVATED = 1"
definition RT_TIMER_FLAG_ONE_SHOT :: u8 where "RT_TIMER_FLAG_ONE_SHOT = 0"
definition RT_TIMER_FLAG_PERIODIC :: u8 where "RT_TIMER_FLAG_PERIODIC = 2"

text \<open>\<open>RT_TICK_MAX / 2\<close>.\<close>

definition HALF_TICKS :: u32 where "HALF_TICKS = 0x7FFFFFFF"

definition RT_TICK_MAX :: u32 where "RT_TICK_MAX = 0xFFFFFFFF"

definition rt_tick_get :: "kernel \<Rightarrow> u32" where "rt_tick_get k = rt_tick k"

definition rt_tick_set :: "u32 \<Rightarrow> kernel \<Rightarrow> kernel" where "rt_tick_set tick k = k\<lparr>rt_tick := tick\<rparr>"

fun timer_of :: "node \<Rightarrow> timer_ptr option" where
  "timer_of (Row tm) = Some tm"
| "timer_of _ = None"

definition timer_flag :: "timer_ptr \<Rightarrow> kernel \<Rightarrow> u8" where
  "timer_flag tm k = obj_flag (objects k (Obj_timer tm))"

definition set_timer_flag :: "timer_ptr \<Rightarrow> u8 \<Rightarrow> kernel \<Rightarrow> kernel" where
  "set_timer_flag tm f = upd_object (Obj_timer tm) (\<lambda>r. r\<lparr>obj_flag := f\<rparr>)"

definition init_timer :: "timer_ptr \<Rightarrow> timeout_fn \<Rightarrow> u32 \<Rightarrow> u32 \<Rightarrow> u8 \<Rightarrow> kernel \<Rightarrow> kernel" where
  "init_timer tm timeout parameter time flag k =
     (let k = set_timer_flag tm flag k;
          k = set_timer_flag tm (timer_flag tm k AND NOT RT_TIMER_FLAG_ACTIVATED) k;
          k = upd_timer tm (\<lambda>_. \<lparr>timeout_func = timeout, timer_parameter = parameter, timer_init_tick = time, timeout_tick = 0\<rparr>) k
      in on_links (rt_list_init (Row tm)) k)"

definition remove_timer :: "timer_ptr \<Rightarrow> kernel \<Rightarrow> kernel" where
  "remove_timer tm = on_links (rt_list_remove (Row tm))"

definition rt_timer_init :: "timer_ptr \<Rightarrow> string \<Rightarrow> timeout_fn \<Rightarrow> u32 \<Rightarrow> u32 \<Rightarrow> u8 \<Rightarrow> kernel \<Rightarrow> kernel option" where
  "rt_timer_init tm name timeout parameter time flag k =
     do { k \<leftarrow> rt_object_init (Obj_timer tm) RT_Object_Class_Timer name k;
          Some (init_timer tm timeout parameter time flag k) }"

definition rt_timer_detach :: "timer_ptr \<Rightarrow> kernel \<Rightarrow> (int \<times> kernel) option" where
  "rt_timer_detach tm k =
     do { RT_ASSERT (rt_object_get_type (Obj_timer tm) k = RT_Object_Class_Timer);
          RT_ASSERT (rt_object_is_systemobject (Obj_timer tm) k);
          let k = remove_timer tm k;
          Some (RT_EOK, rt_object_detach (Obj_timer tm) k) }"

definition rt_timer_create :: "string \<Rightarrow> timeout_fn \<Rightarrow> u32 \<Rightarrow> u32 \<Rightarrow> u8 \<Rightarrow> kernel \<Rightarrow> (u32 \<times> kernel) option" where
  "rt_timer_create name timeout parameter time flag k =
     do { (p, k) \<leftarrow> rt_object_allocate RT_Object_Class_Timer name k;
          if p = 0 then Some (0, k) else Some (p, init_timer (Timer_at p) timeout parameter time flag k) }"

definition rt_timer_delete :: "timer_ptr \<Rightarrow> kernel \<Rightarrow> (int \<times> kernel) option" where
  "rt_timer_delete tm k =
     do { RT_ASSERT (rt_object_get_type (Obj_timer tm) k = RT_Object_Class_Timer);
          RT_ASSERT (\<not> rt_object_is_systemobject (Obj_timer tm) k);
          let k = remove_timer tm k;
          k \<leftarrow> rt_object_delete (Obj_timer tm) k;
          Some (RT_EOK, k) }"

text \<open>The search of \<open>rt_timer_start\<close>: the node after which the timer is inserted.\<close>

partial_function (option) timer_pos :: "u32 \<Rightarrow> kernel \<Rightarrow> node \<Rightarrow> node option" where
  "timer_pos tick k row_head =
     (if row_head = prv (klinks k) Timer_head then Some row_head
      else do {
        t \<leftarrow> timer_of (nxt (klinks k) row_head);
        if timeout_tick (timers k t) - tick = 0 then timer_pos tick k (nxt (klinks k) row_head)
        else if timeout_tick (timers k t) - tick < HALF_TICKS then Some row_head
        else timer_pos tick k (nxt (klinks k) row_head) })"

declare timer_pos.simps [code]

definition rt_timer_start :: "timer_ptr \<Rightarrow> kernel \<Rightarrow> (int \<times> kernel) option" where
  "rt_timer_start tm k =
     do { RT_ASSERT (rt_object_get_type (Obj_timer tm) k = RT_Object_Class_Timer);
          let k = remove_timer tm k;
          let k = set_timer_flag tm (timer_flag tm k AND NOT RT_TIMER_FLAG_ACTIVATED) k;
          RT_ASSERT (timer_init_tick (timers k tm) < HALF_TICKS);
          let k = upd_timer tm (\<lambda>r. r\<lparr>timeout_tick := rt_tick_get k + timer_init_tick r\<rparr>) k;
          row_head \<leftarrow> timer_pos (timeout_tick (timers k tm)) k Timer_head;
          let k = k\<lparr>random_nr := random_nr k + 1\<rparr>;
          let k = on_links (rt_list_insert_after row_head (Row tm)) k;
          Some (RT_EOK, set_timer_flag tm (timer_flag tm k OR RT_TIMER_FLAG_ACTIVATED) k) }"

definition rt_timer_stop :: "timer_ptr \<Rightarrow> kernel \<Rightarrow> (int \<times> kernel) option" where
  "rt_timer_stop tm k =
     do { RT_ASSERT (rt_object_get_type (Obj_timer tm) k = RT_Object_Class_Timer);
          if timer_flag tm k AND RT_TIMER_FLAG_ACTIVATED = 0 then Some (- RT_ERROR, k)
          else do {
            let k = remove_timer tm k;
            Some (RT_EOK, set_timer_flag tm (timer_flag tm k AND NOT RT_TIMER_FLAG_ACTIVATED) k) } }"

text \<open>\<open>rt_timer_control\<close>: the command, and the value that its argument points to before and after.\<close>

datatype timer_cmd = RT_TIMER_CTRL_SET_TIME | RT_TIMER_CTRL_GET_TIME | RT_TIMER_CTRL_SET_ONESHOT | RT_TIMER_CTRL_SET_PERIODIC | Other_timer_cmd

definition rt_timer_control :: "timer_ptr \<Rightarrow> timer_cmd \<Rightarrow> u32 \<Rightarrow> kernel \<Rightarrow> (int \<times> u32 \<times> kernel) option" where
  "rt_timer_control tm cmd arg k =
     do { RT_ASSERT (rt_object_get_type (Obj_timer tm) k = RT_Object_Class_Timer);
          Some (case cmd of
            RT_TIMER_CTRL_GET_TIME \<Rightarrow> (RT_EOK, timer_init_tick (timers k tm), k)
          | RT_TIMER_CTRL_SET_TIME \<Rightarrow> (RT_EOK, arg, upd_timer tm (\<lambda>r. r\<lparr>timer_init_tick := arg\<rparr>) k)
          | RT_TIMER_CTRL_SET_ONESHOT \<Rightarrow> (RT_EOK, arg, set_timer_flag tm (timer_flag tm k AND NOT RT_TIMER_FLAG_PERIODIC) k)
          | RT_TIMER_CTRL_SET_PERIODIC \<Rightarrow> (RT_EOK, arg, set_timer_flag tm (timer_flag tm k OR RT_TIMER_FLAG_PERIODIC) k)
          | Other_timer_cmd \<Rightarrow> (RT_EOK, arg, k)) }"

definition rt_timer_next_timeout_tick :: "kernel \<Rightarrow> u32 option" where
  "rt_timer_next_timeout_tick k =
     (if rt_list_isempty Timer_head (klinks k) then Some RT_TICK_MAX
      else do { t \<leftarrow> timer_of (nxt (klinks k) Timer_head); Some (timeout_tick (timers k t)) })"

definition rt_system_timer_init :: "kernel \<Rightarrow> kernel" where
  "rt_system_timer_init = on_links (rt_list_init Timer_head)"

text \<open>
  The loop of \<open>rt_timer_check\<close>, with the timeout functions as a parameter \<open>fire\<close> until they are
  defined; \<open>None\<close> if it does not end.
\<close>

partial_function (option) timer_check_loop :: "(timeout_fn \<Rightarrow> u32 \<Rightarrow> kernel \<Rightarrow> kernel option) \<Rightarrow> u32 \<Rightarrow> kernel \<Rightarrow> kernel option" where
  "timer_check_loop fire current_tick k =
     (if rt_list_isempty Timer_head (klinks k) then Some k
      else do {
        t \<leftarrow> timer_of (nxt (klinks k) Timer_head);
        if current_tick - timeout_tick (timers k t) < HALF_TICKS
        then do {
          let k = remove_timer t k;
          k \<leftarrow> fire (timeout_func (timers k t)) (timer_parameter (timers k t)) k;
          let current_tick = rt_tick_get k;
          k \<leftarrow> (if timer_flag t k AND RT_TIMER_FLAG_PERIODIC \<noteq> 0 \<and> timer_flag t k AND RT_TIMER_FLAG_ACTIVATED \<noteq> 0
               then do { let k = set_timer_flag t (timer_flag t k AND NOT RT_TIMER_FLAG_ACTIVATED) k;
                         (_, k) \<leftarrow> rt_timer_start t k;
                         Some k }
               else Some (set_timer_flag t (timer_flag t k AND NOT RT_TIMER_FLAG_ACTIVATED) k));
          timer_check_loop fire current_tick k }
        else Some k })"

declare timer_check_loop.simps [code]

end
