(* ===== verification/Thread.thy ===== *)
theory Thread imports Timer begin

text \<open>
  Threads (thread.c), the tick (clock.c) and the idle thread's clean-up (idle.c). The code that follows a
  call of \<open>rt_schedule\<close> in a function that suspends its caller runs when the caller is scheduled again:
  such a function returns \<open>Block\<close> when another thread has been switched to, and what it does afterwards is
  a definition of its own, named \<open>..._resumed\<close>. If no switch took place, because the scheduler is locked, that code runs
  at once. The initial stack frame and the stack pointer belong to the port and are left out, and so is the stack check
  of the scheduler.
\<close>

datatype 'a outcome = Ret 'a | Block

definition after_schedule :: "u32 \<Rightarrow> (kernel \<Rightarrow> 'a \<times> kernel) \<Rightarrow> kernel \<Rightarrow> 'a outcome \<times> kernel" where
  "after_schedule t resumed k =
     (if rt_current_thread k = t then let (r, k) = resumed k in (Ret r, k) else (Block, k))"

definition thread_stat :: "u32 \<Rightarrow> kernel \<Rightarrow> u8" where
  "thread_stat t k = stat (threads k t) AND RT_THREAD_STAT_MASK"

definition rt_thread_self :: "kernel \<Rightarrow> u32" where "rt_thread_self k = rt_current_thread k"

subsection \<open>Suspending and resuming\<close>

definition rt_thread_suspend :: "u32 \<Rightarrow> kernel \<Rightarrow> (int \<times> kernel) option" where
  "rt_thread_suspend t k =
     do { RT_ASSERT (t \<noteq> 0);
          RT_ASSERT (rt_object_get_type (Obj_thread t) k = RT_Object_Class_Thread);
          if thread_stat t k \<noteq> RT_THREAD_READY then Some (- RT_ERROR, k)
          else do {
            let k = upd_thread t (\<lambda>r. r\<lparr>stat := RT_THREAD_SUSPEND OR (stat r AND NOT RT_THREAD_STAT_MASK)\<rparr>) k;
            k \<leftarrow> rt_schedule_remove_thread t k;
            (_, k) \<leftarrow> rt_timer_stop (Thread_timer t) k;
            Some (RT_EOK, k) } }"

definition rt_thread_resume :: "u32 \<Rightarrow> kernel \<Rightarrow> (int \<times> kernel) option" where
  "rt_thread_resume t k =
     do { RT_ASSERT (t \<noteq> 0);
          RT_ASSERT (rt_object_get_type (Obj_thread t) k = RT_Object_Class_Thread);
          if thread_stat t k \<noteq> RT_THREAD_SUSPEND then Some (- RT_ERROR, k)
          else do {
            let k = on_links (rt_list_remove (Tlist t)) k;
            (_, k) \<leftarrow> rt_timer_stop (Thread_timer t) k;
            k \<leftarrow> rt_schedule_insert_thread t k;
            Some (RT_EOK, k) } }"

definition rt_thread_timeout :: "u32 \<Rightarrow> kernel \<Rightarrow> kernel option" where
  "rt_thread_timeout t k =
     do { RT_ASSERT (t \<noteq> 0);
          RT_ASSERT (thread_stat t k = RT_THREAD_SUSPEND);
          RT_ASSERT (rt_object_get_type (Obj_thread t) k = RT_Object_Class_Thread);
          let k = upd_thread t (\<lambda>r. r\<lparr>thread_error := - RT_ETIMEOUT\<rparr>) k;
          let k = on_links (rt_list_remove (Tlist t)) k;
          k \<leftarrow> rt_schedule_insert_thread t k;
          rt_schedule k }"

subsection \<open>Life of a thread\<close>

text \<open>\<open>rt_thread_init\<close> and \<open>rt_thread_create\<close>; the entry function is not part of the state.\<close>

definition init_thread :: "u32 \<Rightarrow> string \<Rightarrow> u32 \<Rightarrow> u32 \<Rightarrow> u8 \<Rightarrow> u32 \<Rightarrow> kernel \<Rightarrow> (int \<times> kernel) option" where
  "init_thread t name stack_start sz priority tick k =
     do { let k = on_links (rt_list_init (Tlist t)) k;
          let k = upd_thread t (\<lambda>r. r\<lparr>stack_addr := stack_start, stack_size := sz\<rparr>) k;
          let k = k\<lparr>kheap := (kheap k)\<lparr>memory := rt_memset stack_start 0x23 (unat sz) (memory (kheap k))\<rparr>\<rparr>;
          RT_ASSERT (unat priority < RT_THREAD_PRIORITY_MAX);
          let k = upd_thread t (\<lambda>r. r\<lparr>init_priority := priority, current_priority := priority, number_mask := 0,
                    init_tick := tick, remaining_tick := tick, thread_error := RT_EOK, stat := RT_THREAD_INIT, cleanup := 0\<rparr>) k;
          k \<leftarrow> rt_timer_init (Thread_timer t) (obj_name (objects k (Obj_thread t))) Rt_thread_timeout t 0 RT_TIMER_FLAG_ONE_SHOT k;
          Some (RT_EOK, k) }"

definition rt_thread_init :: "u32 \<Rightarrow> string \<Rightarrow> u32 \<Rightarrow> u32 \<Rightarrow> u8 \<Rightarrow> u32 \<Rightarrow> kernel \<Rightarrow> (int \<times> kernel) option" where
  "rt_thread_init t name stack_start sz priority tick k =
     do { RT_ASSERT (t \<noteq> 0);
          RT_ASSERT (stack_start \<noteq> 0);
          k \<leftarrow> rt_object_init (Obj_thread t) RT_Object_Class_Thread name k;
          init_thread t name stack_start sz priority tick k }"

definition rt_thread_create :: "string \<Rightarrow> u32 \<Rightarrow> u8 \<Rightarrow> u32 \<Rightarrow> kernel \<Rightarrow> (u32 \<times> kernel) option" where
  "rt_thread_create name sz priority tick k =
     do { (t, k) \<leftarrow> rt_object_allocate RT_Object_Class_Thread name k;
          if t = 0 then Some (0, k)
          else do {
            (stack_start, h) \<leftarrow> rt_malloc sz (kheap k);
            let k = k\<lparr>kheap := h\<rparr>;
            if stack_start = 0 then do { k \<leftarrow> rt_object_delete (Obj_thread t) k; Some (0, k) }
            else do { (_, k) \<leftarrow> init_thread t name stack_start sz priority tick k; Some (t, k) } } }"

definition rt_thread_startup :: "u32 \<Rightarrow> kernel \<Rightarrow> (int \<times> kernel) option" where
  "rt_thread_startup t k =
     do { RT_ASSERT (t \<noteq> 0);
          RT_ASSERT (thread_stat t k = RT_THREAD_INIT);
          RT_ASSERT (rt_object_get_type (Obj_thread t) k = RT_Object_Class_Thread);
          let k = upd_thread t (\<lambda>r. r\<lparr>current_priority := init_priority r\<rparr>) k;
          let k = upd_thread t (\<lambda>r. r\<lparr>number_mask := push_bit (unat (current_priority r)) 1, stat := RT_THREAD_SUSPEND\<rparr>) k;
          (_, k) \<leftarrow> rt_thread_resume t k;
          k \<leftarrow> (if rt_thread_self k \<noteq> 0 then rt_schedule k else Some k);
          Some (RT_EOK, k) }"

text \<open>What \<open>rt_thread_exit\<close> and \<open>rt_thread_detach\<close> do with the closed thread.\<close>

definition dispose :: "u32 \<Rightarrow> kernel \<Rightarrow> kernel" where
  "dispose t k =
     (if rt_object_is_systemobject (Obj_thread t) k \<and> cleanup (threads k t) = 0
      then rt_object_detach (Obj_thread t) k
      else on_links (rt_list_insert_after Defunct_head (Tlist t)) k)"

definition rt_thread_exit :: "kernel \<Rightarrow> kernel option" where
  "rt_thread_exit k =
     do { let t = rt_current_thread k;
          k \<leftarrow> rt_schedule_remove_thread t k;
          let k = upd_thread t (\<lambda>r. r\<lparr>stat := RT_THREAD_CLOSE\<rparr>) k;
          (_, k) \<leftarrow> rt_timer_detach (Thread_timer t) k;
          rt_schedule (dispose t k) }"

definition rt_thread_detach :: "u32 \<Rightarrow> kernel \<Rightarrow> (int \<times> kernel) option" where
  "rt_thread_detach t k =
     do { RT_ASSERT (t \<noteq> 0);
          RT_ASSERT (rt_object_get_type (Obj_thread t) k = RT_Object_Class_Thread);
          RT_ASSERT (rt_object_is_systemobject (Obj_thread t) k);
          k \<leftarrow> (if thread_stat t k \<noteq> RT_THREAD_INIT then rt_schedule_remove_thread t k else Some k);
          (_, k) \<leftarrow> rt_timer_detach (Thread_timer t) k;
          let k = upd_thread t (\<lambda>r. r\<lparr>stat := RT_THREAD_CLOSE\<rparr>) k;
          Some (RT_EOK, dispose t k) }"

definition rt_thread_delete :: "u32 \<Rightarrow> kernel \<Rightarrow> (int \<times> kernel) option" where
  "rt_thread_delete t k =
     do { RT_ASSERT (t \<noteq> 0);
          RT_ASSERT (rt_object_get_type (Obj_thread t) k = RT_Object_Class_Thread);
          RT_ASSERT (\<not> rt_object_is_systemobject (Obj_thread t) k);
          k \<leftarrow> (if thread_stat t k \<noteq> RT_THREAD_INIT then rt_schedule_remove_thread t k else Some k);
          (_, k) \<leftarrow> rt_timer_detach (Thread_timer t) k;
          let k = upd_thread t (\<lambda>r. r\<lparr>stat := RT_THREAD_CLOSE\<rparr>) k;
          Some (RT_EOK, on_links (rt_list_insert_after Defunct_head (Tlist t)) k) }"

definition rt_thread_yield :: "kernel \<Rightarrow> (int \<times> kernel) option" where
  "rt_thread_yield k =
     (let t = rt_current_thread k in
      if t = 0 then None
      else if thread_stat t k = RT_THREAD_READY \<and> nxt (klinks k) (Tlist t) \<noteq> prv (klinks k) (Tlist t)
      then do {
        let k = on_links (rt_list_remove (Tlist t)) k;
        l \<leftarrow> priority_list (unat (current_priority (threads k t)));
        let k = on_links (rt_list_insert_before l (Tlist t)) k;
        k \<leftarrow> rt_schedule k;
        Some (RT_EOK, k) }
      else Some (RT_EOK, k))"

definition sleep_resumed :: "u32 \<Rightarrow> kernel \<Rightarrow> int \<times> kernel" where
  "sleep_resumed t k =
     (RT_EOK, if thread_error (threads k t) = - RT_ETIMEOUT then upd_thread t (\<lambda>r. r\<lparr>thread_error := RT_EOK\<rparr>) k else k)"

definition rt_thread_sleep :: "u32 \<Rightarrow> kernel \<Rightarrow> (int outcome \<times> kernel) option" where
  "rt_thread_sleep tick k =
     do { let t = rt_current_thread k;
          RT_ASSERT (t \<noteq> 0);
          RT_ASSERT (rt_object_get_type (Obj_thread t) k = RT_Object_Class_Thread);
          (_, k) \<leftarrow> rt_thread_suspend t k;
          (_, _, k) \<leftarrow> rt_timer_control (Thread_timer t) RT_TIMER_CTRL_SET_TIME tick k;
          (_, k) \<leftarrow> rt_timer_start (Thread_timer t) k;
          k \<leftarrow> rt_schedule k;
          Some (after_schedule t (sleep_resumed t) k) }"

definition rt_thread_delay :: "u32 \<Rightarrow> kernel \<Rightarrow> (int outcome \<times> kernel) option" where
  "rt_thread_delay = rt_thread_sleep"

text \<open>\<open>rt_thread_delay_until\<close>: the result is the status and the value of \<open>*tick\<close>.\<close>

definition delay_until_resumed :: "u32 \<Rightarrow> kernel \<Rightarrow> (int \<times> u32) \<times> kernel" where
  "delay_until_resumed t k =
     (let k = (if thread_error (threads k t) = - RT_ETIMEOUT then upd_thread t (\<lambda>r. r\<lparr>thread_error := RT_EOK\<rparr>) k else k)
      in ((RT_EOK, rt_tick_get k), k))"

definition rt_thread_delay_until :: "u32 \<Rightarrow> u32 \<Rightarrow> kernel \<Rightarrow> ((int \<times> u32) outcome \<times> kernel) option" where
  "rt_thread_delay_until tick inc_tick k =
     do { let t = rt_thread_self k;
          RT_ASSERT (t \<noteq> 0);
          RT_ASSERT (rt_object_get_type (Obj_thread t) k = RT_Object_Class_Thread);
          if rt_tick_get k - tick < inc_tick
          then do {
            let tick = rt_tick_get k - tick + inc_tick;
            (_, k) \<leftarrow> rt_thread_suspend t k;
            (_, _, k) \<leftarrow> rt_timer_control (Thread_timer t) RT_TIMER_CTRL_SET_TIME tick k;
            (_, k) \<leftarrow> rt_timer_start (Thread_timer t) k;
            k \<leftarrow> rt_schedule k;
            Some (after_schedule t (delay_until_resumed t) k) }
          else Some (Ret (RT_EOK, rt_tick_get k), k) }"

definition rt_tick_from_millisecond :: "u32 \<Rightarrow> u32" where
  "rt_tick_from_millisecond ms =
     (if sint ms < 0 then - 1
      else 100 * (ms div 1000) + (100 * (ms mod 1000) + 999) div 1000)"

definition rt_thread_mdelay :: "u32 \<Rightarrow> kernel \<Rightarrow> (int outcome \<times> kernel) option" where
  "rt_thread_mdelay ms = rt_thread_sleep (rt_tick_from_millisecond ms)"

text \<open>A shift by 32 or more is undefined in C.\<close>

definition set_priority :: "u32 \<Rightarrow> u8 \<Rightarrow> kernel \<Rightarrow> kernel option" where
  "set_priority t p k =
     (if unat p < 32
      then Some (upd_thread t (\<lambda>r. r\<lparr>current_priority := p, number_mask := push_bit (unat p) 1\<rparr>) k) else None)"

datatype thread_cmd = RT_THREAD_CTRL_STARTUP | RT_THREAD_CTRL_CLOSE | RT_THREAD_CTRL_CHANGE_PRIORITY | Other_thread_cmd

definition rt_thread_control :: "u32 \<Rightarrow> thread_cmd \<Rightarrow> u8 \<Rightarrow> kernel \<Rightarrow> (int \<times> kernel) option" where
  "rt_thread_control t cmd arg k =
     do { RT_ASSERT (t \<noteq> 0);
          RT_ASSERT (rt_object_get_type (Obj_thread t) k = RT_Object_Class_Thread);
          case cmd of
            RT_THREAD_CTRL_CHANGE_PRIORITY \<Rightarrow>
              (if thread_stat t k = RT_THREAD_READY
               then do { k \<leftarrow> rt_schedule_remove_thread t k;
                         k \<leftarrow> set_priority t arg k;
                         k \<leftarrow> rt_schedule_insert_thread t k;
                         Some (RT_EOK, k) }
               else do { k \<leftarrow> set_priority t arg k; Some (RT_EOK, k) })
          | RT_THREAD_CTRL_STARTUP \<Rightarrow> rt_thread_startup t k
          | RT_THREAD_CTRL_CLOSE \<Rightarrow> rt_thread_delete t k
          | Other_thread_cmd \<Rightarrow> Some (RT_EOK, k) }"

definition rt_thread_find :: "string \<Rightarrow> kernel \<Rightarrow> (u32 \<times> kernel) option" where
  "rt_thread_find name k =
     do { let k = (if rt_thread_self k \<noteq> 0 then rt_enter_critical k else k);
          information \<leftarrow> rt_object_get_information RT_Object_Class_Thread;
          r \<leftarrow> find_in_container name RT_Object_Class_Thread k (nxt (klinks k) (Container RT_Object_Class_Thread));
          k \<leftarrow> (if rt_thread_self k \<noteq> 0 then rt_exit_critical k else Some k);
          Some (case r of Some ob \<Rightarrow> address_of ob | None \<Rightarrow> 0, k) }"

subsection \<open>Tick\<close>

text \<open>The timeout functions: that of a thread, and the application's, a parameter \<open>user\<close>.\<close>

fun call_timeout :: "(nat \<Rightarrow> u32 \<Rightarrow> kernel \<Rightarrow> kernel option) \<Rightarrow> timeout_fn \<Rightarrow> u32 \<Rightarrow> kernel \<Rightarrow> kernel option" where
  "call_timeout user Rt_thread_timeout parameter k = rt_thread_timeout parameter k"
| "call_timeout user (User_timeout n) parameter k = user n parameter k"

definition rt_timer_check :: "(nat \<Rightarrow> u32 \<Rightarrow> kernel \<Rightarrow> kernel option) \<Rightarrow> kernel \<Rightarrow> kernel option" where
  "rt_timer_check user k = timer_check_loop (call_timeout user) (rt_tick_get k) k"

definition rt_tick_increase :: "(nat \<Rightarrow> u32 \<Rightarrow> kernel \<Rightarrow> kernel option) \<Rightarrow> kernel \<Rightarrow> kernel option" where
  "rt_tick_increase user k =
     do { let k = k\<lparr>rt_tick := rt_tick k + 1\<rparr>;
          let t = rt_thread_self k;
          RT_ASSERT (t \<noteq> 0);
          let k = upd_thread t (\<lambda>r. r\<lparr>remaining_tick := remaining_tick r - 1\<rparr>) k;
          k \<leftarrow> (if remaining_tick (threads k t) = 0
               then do { let k = upd_thread t (\<lambda>r. r\<lparr>remaining_tick := init_tick r\<rparr>) k;
                         (_, k) \<leftarrow> rt_thread_yield k;
                         Some k }
               else Some k);
          rt_timer_check user k }"

text \<open>board.c.\<close>

definition SysTick_Handler :: "(nat \<Rightarrow> u32 \<Rightarrow> kernel \<Rightarrow> kernel option) \<Rightarrow> kernel \<Rightarrow> kernel option" where
  "SysTick_Handler user k = do { k \<leftarrow> rt_tick_increase user (rt_interrupt_enter k); Some (rt_interrupt_leave k) }"

subsection \<open>Idle thread\<close>

text \<open>The clean-up functions of threads are a parameter.\<close>

partial_function (option) rt_thread_idle_excute :: "(u32 \<Rightarrow> u32 \<Rightarrow> kernel \<Rightarrow> kernel option) \<Rightarrow> kernel \<Rightarrow> kernel option" where
  "rt_thread_idle_excute clean k =
     (if nxt (klinks k) Defunct_head = Defunct_head then Some k
      else do {
        RT_DEBUG_NOT_IN_INTERRUPT k;
        t \<leftarrow> first_thread Defunct_head k;
        let k = on_links (rt_list_remove (Tlist t)) k;
        let k = rt_enter_critical k;
        k \<leftarrow> (if cleanup (threads k t) \<noteq> 0 then clean (cleanup (threads k t)) t k else Some k);
        if rt_object_is_systemobject (Obj_thread t) k
        then rt_exit_critical (rt_object_detach (Obj_thread t) k)
        else do {
          k \<leftarrow> rt_exit_critical k;
          h \<leftarrow> rt_free (stack_addr (threads k t)) (kheap k);
          k \<leftarrow> rt_object_delete (Obj_thread t) (k\<lparr>kheap := h\<rparr>);
          rt_thread_idle_excute clean k } })"

declare rt_thread_idle_excute.simps [code]

end
