(* ===== verification/Ipc.thy ===== *)
theory Ipc imports Thread begin

text \<open>
  Semaphores and mutexes (ipc.c). The waiting time is a signed 32-bit number: 0 does not wait, a negative one
  waits for ever.
\<close>

definition RT_IPC_FLAG_FIFO :: u8 where "RT_IPC_FLAG_FIFO = 0"
definition RT_IPC_FLAG_PRIO :: u8 where "RT_IPC_FLAG_PRIO = 1"

subsection \<open>Lists of waiting threads\<close>

definition rt_ipc_object_init :: "ipc_ptr \<Rightarrow> kernel \<Rightarrow> kernel" where
  "rt_ipc_object_init i = on_links (rt_list_init (Suspend i))"

text \<open>The first waiting thread with a lower priority, or the head of the list.\<close>

partial_function (option) suspend_pos :: "node \<Rightarrow> u8 \<Rightarrow> kernel \<Rightarrow> node \<Rightarrow> node option" where
  "suspend_pos list p k n =
     (if n = list then Some n
      else do {
        s \<leftarrow> thread_of n;
        if p < current_priority (threads k s) then Some n else suspend_pos list p k (nxt (klinks k) n) })"

declare suspend_pos.simps [code]

definition rt_ipc_list_suspend :: "node \<Rightarrow> u32 \<Rightarrow> u8 \<Rightarrow> kernel \<Rightarrow> (int \<times> kernel) option" where
  "rt_ipc_list_suspend list t flag k =
     do { (_, k) \<leftarrow> rt_thread_suspend t k;
          if flag = RT_IPC_FLAG_FIFO then Some (RT_EOK, on_links (rt_list_insert_before list (Tlist t)) k)
          else if flag = RT_IPC_FLAG_PRIO
          then do { n \<leftarrow> suspend_pos list (current_priority (threads k t)) k (nxt (klinks k) list);
                    Some (RT_EOK, on_links (rt_list_insert_before n (Tlist t)) k) }
          else Some (RT_EOK, k) }"

definition rt_ipc_list_resume :: "node \<Rightarrow> kernel \<Rightarrow> (int \<times> kernel) option" where
  "rt_ipc_list_resume list k =
     do { t \<leftarrow> first_thread list k; (_, k) \<leftarrow> rt_thread_resume t k; Some (RT_EOK, k) }"

partial_function (option) rt_ipc_list_resume_all :: "node \<Rightarrow> kernel \<Rightarrow> (int \<times> kernel) option" where
  "rt_ipc_list_resume_all list k =
     (if rt_list_isempty list (klinks k) then Some (RT_EOK, k)
      else do {
        t \<leftarrow> first_thread list k;
        let k = upd_thread t (\<lambda>r. r\<lparr>thread_error := - RT_ERROR\<rparr>) k;
        (_, k) \<leftarrow> rt_thread_resume t k;
        rt_ipc_list_resume_all list k })"

declare rt_ipc_list_resume_all.simps [code]

text \<open>Suspending the caller on a list, for a time if it is positive.\<close>

definition suspend_for :: "ipc_ptr \<Rightarrow> u32 \<Rightarrow> u32 \<Rightarrow> kernel \<Rightarrow> kernel option" where
  "suspend_for i t time k =
     do { (_, k) \<leftarrow> rt_ipc_list_suspend (Suspend i) t (obj_flag (objects k (Obj_ipc i))) k;
          if sint time > 0
          then do { (_, _, k) \<leftarrow> rt_timer_control (Thread_timer t) RT_TIMER_CTRL_SET_TIME time k;
                    (_, k) \<leftarrow> rt_timer_start (Thread_timer t) k;
                    Some k }
          else Some k }"

definition set_ipc_flag :: "ipc_ptr \<Rightarrow> u8 \<Rightarrow> kernel \<Rightarrow> kernel" where
  "set_ipc_flag i f = upd_object (Obj_ipc i) (\<lambda>r. r\<lparr>obj_flag := f\<rparr>)"

subsection \<open>Semaphores\<close>

definition set_sem :: "u32 \<Rightarrow> u16 \<Rightarrow> kernel \<Rightarrow> kernel" where
  "set_sem s v k = k\<lparr>sem_value := (sem_value k)(s := v)\<rparr>"

definition is_sem :: "u32 \<Rightarrow> kernel \<Rightarrow> unit option" where
  "is_sem s k = do { RT_ASSERT (s \<noteq> 0); RT_ASSERT (rt_object_get_type (Obj_ipc (Sem_at s)) k = RT_Object_Class_Semaphore) }"

definition rt_sem_init :: "u32 \<Rightarrow> string \<Rightarrow> u32 \<Rightarrow> u8 \<Rightarrow> kernel \<Rightarrow> (int \<times> kernel) option" where
  "rt_sem_init s name v flag k =
     do { RT_ASSERT (s \<noteq> 0);
          RT_ASSERT (v < 0x10000);
          k \<leftarrow> rt_object_init (Obj_ipc (Sem_at s)) RT_Object_Class_Semaphore name k;
          let k = rt_ipc_object_init (Sem_at s) k;
          let k = set_sem s (ucast v) k;
          Some (RT_EOK, set_ipc_flag (Sem_at s) flag k) }"

definition rt_sem_detach :: "u32 \<Rightarrow> kernel \<Rightarrow> (int \<times> kernel) option" where
  "rt_sem_detach s k =
     do { is_sem s k;
          RT_ASSERT (rt_object_is_systemobject (Obj_ipc (Sem_at s)) k);
          (_, k) \<leftarrow> rt_ipc_list_resume_all (Suspend (Sem_at s)) k;
          Some (RT_EOK, rt_object_detach (Obj_ipc (Sem_at s)) k) }"

definition rt_sem_create :: "string \<Rightarrow> u32 \<Rightarrow> u8 \<Rightarrow> kernel \<Rightarrow> (u32 \<times> kernel) option" where
  "rt_sem_create name v flag k =
     do { RT_DEBUG_NOT_IN_INTERRUPT k;
          RT_ASSERT (v < 0x10000);
          (s, k) \<leftarrow> rt_object_allocate RT_Object_Class_Semaphore name k;
          if s = 0 then Some (s, k)
          else let k = rt_ipc_object_init (Sem_at s) k;
                   k = set_sem s (ucast v) k
               in Some (s, set_ipc_flag (Sem_at s) flag k) }"

definition rt_sem_delete :: "u32 \<Rightarrow> kernel \<Rightarrow> (int \<times> kernel) option" where
  "rt_sem_delete s k =
     do { RT_DEBUG_NOT_IN_INTERRUPT k;
          is_sem s k;
          RT_ASSERT (\<not> rt_object_is_systemobject (Obj_ipc (Sem_at s)) k);
          (_, k) \<leftarrow> rt_ipc_list_resume_all (Suspend (Sem_at s)) k;
          k \<leftarrow> rt_object_delete (Obj_ipc (Sem_at s)) k;
          Some (RT_EOK, k) }"

text \<open>The end of \<open>rt_sem_take\<close>, after the switch back to the thread.\<close>

definition sem_take_resumed :: "u32 \<Rightarrow> kernel \<Rightarrow> int \<times> kernel" where
  "sem_take_resumed t k = (if thread_error (threads k t) \<noteq> RT_EOK then thread_error (threads k t) else RT_EOK, k)"

definition rt_sem_take :: "u32 \<Rightarrow> u32 \<Rightarrow> kernel \<Rightarrow> (int outcome \<times> kernel) option" where
  "rt_sem_take s time k =
     do { is_sem s k;
          if sem_value k s > 0 then Some (Ret RT_EOK, set_sem s (sem_value k s - 1) k)
          else if time = 0 then Some (Ret (- RT_ETIMEOUT), k)
          else do {
            RT_DEBUG_IN_THREAD_CONTEXT k;
            let t = rt_thread_self k;
            let k = upd_thread t (\<lambda>r. r\<lparr>thread_error := RT_EOK\<rparr>) k;
            k \<leftarrow> suspend_for (Sem_at s) t time k;
            k \<leftarrow> rt_schedule k;
            Some (after_schedule t (sem_take_resumed t) k) } }"

definition rt_sem_trytake :: "u32 \<Rightarrow> kernel \<Rightarrow> (int outcome \<times> kernel) option" where
  "rt_sem_trytake s = rt_sem_take s 0"

definition rt_sem_release :: "u32 \<Rightarrow> kernel \<Rightarrow> (int \<times> kernel) option" where
  "rt_sem_release s k =
     do { is_sem s k;
          if \<not> rt_list_isempty (Suspend (Sem_at s)) (klinks k)
          then do { (_, k) \<leftarrow> rt_ipc_list_resume (Suspend (Sem_at s)) k;
                    k \<leftarrow> rt_schedule k;
                    Some (RT_EOK, k) }
          else Some (RT_EOK, set_sem s (sem_value k s + 1) k) }"

datatype ipc_cmd = RT_IPC_CMD_UNKNOWN | RT_IPC_CMD_RESET

definition rt_sem_control :: "u32 \<Rightarrow> ipc_cmd \<Rightarrow> u32 \<Rightarrow> kernel \<Rightarrow> (int \<times> kernel) option" where
  "rt_sem_control s cmd arg k =
     do { is_sem s k;
          if cmd = RT_IPC_CMD_RESET
          then do { (_, k) \<leftarrow> rt_ipc_list_resume_all (Suspend (Sem_at s)) k;
                    k \<leftarrow> rt_schedule (set_sem s (ucast arg) k);
                    Some (RT_EOK, k) }
          else Some (- RT_ERROR, k) }"

subsection \<open>Mutexes\<close>

definition is_mutex :: "u32 \<Rightarrow> kernel \<Rightarrow> unit option" where
  "is_mutex m k = do { RT_ASSERT (m \<noteq> 0); RT_ASSERT (rt_object_get_type (Obj_ipc (Mutex_at m)) k = RT_Object_Class_Mutex) }"

definition free_mutex :: rt_mutex where
  "free_mutex = \<lparr>mutex_value = 1, original_priority = 0xFF, mutex_hold = 0, mutex_owner = 0\<rparr>"

definition rt_mutex_init :: "u32 \<Rightarrow> string \<Rightarrow> u8 \<Rightarrow> kernel \<Rightarrow> (int \<times> kernel) option" where
  "rt_mutex_init m name flag k =
     do { RT_ASSERT (m \<noteq> 0);
          k \<leftarrow> rt_object_init (Obj_ipc (Mutex_at m)) RT_Object_Class_Mutex name k;
          let k = rt_ipc_object_init (Mutex_at m) k;
          let k = upd_mutex m (\<lambda>_. free_mutex) k;
          Some (RT_EOK, set_ipc_flag (Mutex_at m) flag k) }"

definition rt_mutex_detach :: "u32 \<Rightarrow> kernel \<Rightarrow> (int \<times> kernel) option" where
  "rt_mutex_detach m k =
     do { is_mutex m k;
          RT_ASSERT (rt_object_is_systemobject (Obj_ipc (Mutex_at m)) k);
          (_, k) \<leftarrow> rt_ipc_list_resume_all (Suspend (Mutex_at m)) k;
          Some (RT_EOK, rt_object_detach (Obj_ipc (Mutex_at m)) k) }"

definition rt_mutex_create :: "string \<Rightarrow> u8 \<Rightarrow> kernel \<Rightarrow> (u32 \<times> kernel) option" where
  "rt_mutex_create name flag k =
     do { RT_DEBUG_NOT_IN_INTERRUPT k;
          (m, k) \<leftarrow> rt_object_allocate RT_Object_Class_Mutex name k;
          if m = 0 then Some (m, k)
          else let k = rt_ipc_object_init (Mutex_at m) k;
                   k = upd_mutex m (\<lambda>_. free_mutex) k
               in Some (m, set_ipc_flag (Mutex_at m) flag k) }"

definition rt_mutex_delete :: "u32 \<Rightarrow> kernel \<Rightarrow> (int \<times> kernel) option" where
  "rt_mutex_delete m k =
     do { RT_DEBUG_NOT_IN_INTERRUPT k;
          is_mutex m k;
          RT_ASSERT (\<not> rt_object_is_systemobject (Obj_ipc (Mutex_at m)) k);
          (_, k) \<leftarrow> rt_ipc_list_resume_all (Suspend (Mutex_at m)) k;
          k \<leftarrow> rt_object_delete (Obj_ipc (Mutex_at m)) k;
          Some (RT_EOK, k) }"

text \<open>
  \<open>rt_mutex_take\<close> from the label \<open>__again\<close> up to the call of \<open>rt_schedule\<close>; the flag tells whether the
  thread has been suspended. The owner's priority is read, so a null owner is a fault.
\<close>

definition mutex_again :: "u32 \<Rightarrow> u32 \<Rightarrow> u32 \<Rightarrow> kernel \<Rightarrow> ((int \<times> bool) \<times> kernel) option" where
  "mutex_again m t time k =
     (if mutex_value (mutexes k m) > 0
      then let k = upd_mutex m (\<lambda>r. r\<lparr>mutex_value := mutex_value r - 1\<rparr>) k;
               k = upd_mutex m (\<lambda>r. r\<lparr>mutex_owner := t, original_priority := current_priority (threads k t), mutex_hold := mutex_hold r + 1\<rparr>) k
           in Some ((RT_EOK, False), k)
      else if time = 0
      then Some ((- RT_ETIMEOUT, False), upd_thread t (\<lambda>r. r\<lparr>thread_error := - RT_ETIMEOUT\<rparr>) k)
      else do {
        let ow = mutex_owner (mutexes k m);
        RT_ASSERT (ow \<noteq> 0);
        (_, k) \<leftarrow> (if current_priority (threads k t) < current_priority (threads k ow)
                  then rt_thread_control ow RT_THREAD_CTRL_CHANGE_PRIORITY (current_priority (threads k t)) k
                  else Some (RT_EOK, k));
        k \<leftarrow> suspend_for (Mutex_at m) t time k;
        k \<leftarrow> rt_schedule k;
        Some ((RT_EOK, True), k) })"

text \<open>
  The code after the switch back to the thread: without an error the previous owner has handed the mutex
  over, an interrupted wait tries again.
\<close>

partial_function (option) mutex_take_resumed :: "u32 \<Rightarrow> u32 \<Rightarrow> u32 \<Rightarrow> kernel \<Rightarrow> (int outcome \<times> kernel) option" where
  "mutex_take_resumed m t time k =
     (if thread_error (threads k t) \<noteq> RT_EOK
      then if thread_error (threads k t) = - RT_EINTR
           then do { ((r, suspended), k) \<leftarrow> mutex_again m t time k;
                     if \<not> suspended then Some (Ret r, k)
                     else if rt_current_thread k = t then mutex_take_resumed m t time k else Some (Block, k) }
           else Some (Ret (thread_error (threads k t)), k)
      else Some (Ret RT_EOK, k))"

declare mutex_take_resumed.simps [code]

definition rt_mutex_take :: "u32 \<Rightarrow> u32 \<Rightarrow> kernel \<Rightarrow> (int outcome \<times> kernel) option" where
  "rt_mutex_take m time k =
     do { RT_DEBUG_IN_THREAD_CONTEXT k;
          is_mutex m k;
          let t = rt_thread_self k;
          let k = upd_thread t (\<lambda>r. r\<lparr>thread_error := RT_EOK\<rparr>) k;
          if mutex_owner (mutexes k m) = t
          then Some (Ret RT_EOK, upd_mutex m (\<lambda>r. r\<lparr>mutex_hold := mutex_hold r + 1\<rparr>) k)
          else do { ((r, suspended), k) \<leftarrow> mutex_again m t time k;
                    if \<not> suspended then Some (Ret r, k)
                    else if rt_current_thread k = t then mutex_take_resumed m t time k else Some (Block, k) } }"

text \<open>\<open>rt_mutex_release\<close> once the last hold is given up, and whether a thread was woken.\<close>

definition mutex_give_up :: "u32 \<Rightarrow> kernel \<Rightarrow> (bool \<times> kernel) option" where
  "mutex_give_up m k =
     do { let ow = mutex_owner (mutexes k m);
          (_, k) \<leftarrow> (if original_priority (mutexes k m) \<noteq> current_priority (threads k ow)
                    then rt_thread_control ow RT_THREAD_CTRL_CHANGE_PRIORITY (original_priority (mutexes k m)) k
                    else Some (RT_EOK, k));
          if \<not> rt_list_isempty (Suspend (Mutex_at m)) (klinks k)
          then do {
            t \<leftarrow> first_thread (Suspend (Mutex_at m)) k;
            let k = upd_mutex m (\<lambda>r. r\<lparr>mutex_owner := t, original_priority := current_priority (threads k t), mutex_hold := mutex_hold r + 1\<rparr>) k;
            (_, k) \<leftarrow> rt_ipc_list_resume (Suspend (Mutex_at m)) k;
            Some (True, k) }
          else Some (False, upd_mutex m (\<lambda>r. r\<lparr>mutex_value := mutex_value r + 1, mutex_owner := 0, original_priority := 0xff\<rparr>) k) }"

definition rt_mutex_release :: "u32 \<Rightarrow> kernel \<Rightarrow> (int \<times> kernel) option" where
  "rt_mutex_release m k =
     do { is_mutex m k;
          RT_DEBUG_IN_THREAD_CONTEXT k;
          let t = rt_thread_self k;
          if t \<noteq> mutex_owner (mutexes k m)
          then Some (- RT_ERROR, upd_thread t (\<lambda>r. r\<lparr>thread_error := - RT_ERROR\<rparr>) k)
          else do {
            let k = upd_mutex m (\<lambda>r. r\<lparr>mutex_hold := mutex_hold r - 1\<rparr>) k;
            (need_schedule, k) \<leftarrow> (if mutex_hold (mutexes k m) = 0 then mutex_give_up m k else Some (False, k));
            k \<leftarrow> (if need_schedule then rt_schedule k else Some k);
            Some (RT_EOK, k) } }"

definition rt_mutex_control :: "u32 \<Rightarrow> ipc_cmd \<Rightarrow> kernel \<Rightarrow> (int \<times> kernel) option" where
  "rt_mutex_control m cmd k = do { is_mutex m k; Some (- RT_ERROR, k) }"

end
