(* ===== verification/Bitmap.thy ===== *)
theory Bitmap imports Kernel begin

text \<open>
  \<open>__rt_ffs\<close>, by which the scheduler finds the highest ready priority: it returns one more than the number of the
  lowest bit that is set.
\<close>

text \<open>The number of the lowest bit that is set, for natural numbers first.\<close>

definition lowest_in :: "nat \<Rightarrow> nat \<Rightarrow> bool" where
  "lowest_in n p \<longleftrightarrow> n mod 2 ^ Suc p = 2 ^ p"

lemma lowest_in_bits: "lowest_in n p \<Longrightarrow> bit n p \<and> (\<forall>q < p. \<not> bit n q)"
proof -
  assume l: "lowest_in n p"
  have n: "n = n div 2 ^ Suc p * 2 ^ Suc p + 2 ^ p" using l unfolding lowest_in_def by (metis div_mult_mod_eq)
  let ?m = "n div 2 ^ Suc p"
  have b: "n div 2 ^ q = ?m * 2 ^ (Suc p - q) + 2 ^ (p - q)" if "q \<le> p" for q
  proof -
    have "?m * 2 ^ Suc p + 2 ^ p = (?m * 2 ^ (Suc p - q) + 2 ^ (p - q)) * 2 ^ q"
      using that by (simp add: add_mult_distrib mult.assoc power_add [symmetric] flip: power_Suc)
    then show ?thesis using n by (metis div_mult_self_is_m zero_less_numeral zero_less_power)
  qed
  have "bit n p" using b [of p] by (simp add: bit_iff_odd)
  moreover have "\<not> bit n q" if "q < p" for q using b [of q] that by (simp add: bit_iff_odd)
  ultimately show ?thesis by blast
qed

lemma bitmap_entries:
  "list_all (\<lambda>(n, v). n = 0 \<or> unat v < 8 \<and> lowest_in n (unat v)) (enumerate 0 lowest_bit_bitmap)"
  unfolding lowest_bit_bitmap_def lowest_in_def by simp


lemma length_bitmap: "length lowest_bit_bitmap = 256"
  unfolding lowest_bit_bitmap_def by simp

lemma bitmap_entry:
  assumes "n < 256" and "n \<noteq> 0"
  shows "unat (lowest_bit_bitmap ! n) < 8 \<and> lowest_in n (unat (lowest_bit_bitmap ! n))"
proof -
  have "(n, lowest_bit_bitmap ! n) \<in> set (enumerate 0 lowest_bit_bitmap)"
    using assms(1) by (simp only: in_set_enumerate_eq length_bitmap) simp
  then show ?thesis using bspec [OF bitmap_entries [unfolded list_all_iff]] assms(2) by blast
qed

definition lowest_bit :: "u32 \<Rightarrow> nat \<Rightarrow> bool" where
  "lowest_bit w p \<longleftrightarrow> bit w p \<and> (\<forall>q < p. \<not> bit w q)"

text \<open>The lowest bit is in the byte at \<open>j\<close> if the bits below that byte are clear.\<close>

lemma byte_lowest:
  fixes w x :: u32
  assumes x: "\<forall>i. bit x i \<longleftrightarrow> i < 8 \<and> bit w (j + i)" and "x \<noteq> 0" and low: "\<forall>i < j. \<not> bit w i" and "j \<le> 24"
  shows "lowest_bit w (unat (lowest_bit_bitmap ! unat x + of_nat (j + 1) - 1))"
proof -
  have "x = take_bit 8 x" using x by (intro bit_eqI) (auto simp: bit_take_bit_iff)
  then have "unat x = take_bit 8 (unat x)" by (metis unsigned_take_bit_eq)
  moreover have "take_bit 8 (unat x) < 2 ^ 8" by (rule take_bit_nat_less_exp)
  ultimately have lt: "unat x < 256" by simp
  have "unat x \<noteq> 0" using assms(2) by (simp add: unat_eq_0)
  let ?v = "lowest_bit_bitmap ! unat x"
  have v: "unat ?v < 8" "lowest_in (unat x) (unat ?v)" using bitmap_entry [OF lt \<open>unat x \<noteq> 0\<close>] by simp_all
  have b: "bit x (unat ?v)" "\<forall>q < unat ?v. \<not> bit x q" using lowest_in_bits [OF v(2)] by (simp_all add: bit_unsigned_iff) 
  have "unat (?v + of_nat (j + 1) - 1) = unat ?v + j"
  proof -
    have "?v + of_nat (j + 1) - 1 = of_nat (unat ?v + j)" by simp
    then show ?thesis using v(1) assms(4) by (simp only: unat_of_nat) simp
  qed
  moreover have "bit w (unat ?v + j)" using b(1) x by (simp add: add.commute)
  moreover have "\<not> bit w q" if "q < unat ?v + j" for q
  proof (cases "q < j")
    case False
    then have "q = j + (q - j)" "q - j < unat ?v" using that by simp_all
    then show ?thesis using b(2) x v(1) by (metis less_trans)
  qed (use low in simp)
  ultimately show ?thesis by (simp add: lowest_bit_def)
qed

lemma ffs_masks:
  fixes w :: u32
  shows "bit (w AND 0xff) i \<longleftrightarrow> bit w i \<and> i < 8"
    and "bit (w AND 0xff00) i \<longleftrightarrow> bit w i \<and> 8 \<le> i \<and> i < 16"
    and "bit (w AND 0xff0000) i \<longleftrightarrow> bit w i \<and> 16 \<le> i \<and> i < 24"
    and "bit (w AND 0xff000000) i \<longleftrightarrow> bit w i \<and> 24 \<le> i"
proof -
  have m: "(0xff :: u32) = mask 8" "(0xff00 :: u32) = push_bit 8 (mask 8)" "(0xff0000 :: u32) = push_bit 16 (mask 8)"
    "(0xff000000 :: u32) = push_bit 24 (mask 8)" by (simp_all add: mask_eq_exp_minus_1 push_bit_eq_mult)
  show "bit (w AND 0xff) i \<longleftrightarrow> bit w i \<and> i < 8" unfolding m by (auto simp: bit_simps)
  show "bit (w AND 0xff00) i \<longleftrightarrow> bit w i \<and> 8 \<le> i \<and> i < 16" unfolding m by (auto simp: bit_simps)
  show "bit (w AND 0xff0000) i \<longleftrightarrow> bit w i \<and> 16 \<le> i \<and> i < 24" unfolding m by (auto simp: bit_simps)
  show "bit (w AND 0xff000000) i \<longleftrightarrow> bit w i \<and> 24 \<le> i" unfolding m by (auto simp: bit_simps dest: bit_imp_le_length)
qed

lemma masked_zero: "(x :: u32) = 0 \<Longrightarrow> \<not> bit x i" by simp

lemma masked_byte_lowest:
  fixes w m :: u32
  assumes m: "\<And>i. bit (w AND m) i \<longleftrightarrow> bit w i \<and> j \<le> i \<and> i < j + 8" and nz: "w AND m \<noteq> 0"
    and low: "\<forall>i < j. \<not> bit w i" and "j \<le> 24"
  shows "lowest_bit w (unat (lowest_bit_bitmap ! unat (drop_bit j (w AND m)) + of_nat (j + 1) - 1))"
proof (rule byte_lowest [OF _ _ low assms(4)])
  show bits: "\<forall>i. bit (drop_bit j (w AND m)) i \<longleftrightarrow> i < 8 \<and> bit w (j + i)" by (simp only: bit_drop_bit_eq comp_def m) auto
  show "drop_bit j (w AND m) \<noteq> 0"
  proof
    assume z: "drop_bit j (w AND m) = 0"
    have "\<not> bit (w AND m) i" for i
    proof (cases "j \<le> i")
      case True
      then show ?thesis using masked_zero [OF z, of "i - j"] by (simp only: bit_drop_bit_eq comp_def le_add_diff_inverse not_False_eq_True)
    qed (simp add: m)
    then show False using nz by (metis bit_eqI bit_0_eq bot_apply bot_bool_def)
  qed
qed

lemma rt_ffs_lowest:
  assumes "w \<noteq> 0"
  shows "lowest_bit w (unat (rt_ffs w - 1))"
proof -
  note low = masked_zero [of "w AND 0xff"] masked_zero [of "w AND 0xff00"] masked_zero [of "w AND 0xff0000"]
  note low = low [unfolded ffs_masks]
  have top: "bit (w AND 0xff000000) i \<longleftrightarrow> bit w i \<and> 24 \<le> i \<and> i < 24 + 8" for i
    using bit_imp_le_length [of w i] by (auto simp: ffs_masks)
  consider "w AND 0xff \<noteq> 0" | "w AND 0xff = 0" "w AND 0xff00 \<noteq> 0"
    | "w AND 0xff = 0" "w AND 0xff00 = 0" "w AND 0xff0000 \<noteq> 0"
    | "w AND 0xff = 0" "w AND 0xff00 = 0" "w AND 0xff0000 = 0" by blast
  then show ?thesis
  proof cases
    case 1
    show ?thesis using masked_byte_lowest [of w "0xff" 0] 1 assms unfolding ffs_masks by (simp add: rt_ffs_def)
  next
    case 2
    have "\<forall>i < 8. \<not> bit w i" using low(1) [OF 2(1)] by auto
    then show ?thesis using masked_byte_lowest [of w "0xff00" 8] 2 assms unfolding ffs_masks by (simp add: rt_ffs_def)
  next
    case 3
    have "\<forall>i < 16. \<not> bit w i" using low(1) [OF 3(1)] low(2) [OF 3(2)] by (metis not_less)
    then show ?thesis using masked_byte_lowest [of w "0xff0000" 16] 3 assms unfolding ffs_masks by (simp add: rt_ffs_def)
  next
    case 4
    have low24: "\<forall>i < 24. \<not> bit w i" using low(1) [OF 4(1)] low(2) [OF 4(2)] low(3) [OF 4(3)] by (metis not_less)
    have "w AND 0xff000000 \<noteq> 0"
    proof
      assume z: "w AND 0xff000000 = 0"
      have "\<not> bit w i" for i using masked_zero [OF z, of i] low24 by (auto simp: ffs_masks)
      then show False using assms by (metis bit_eqI bit_0_eq bot_apply bot_bool_def)
    qed
    then show ?thesis using masked_byte_lowest [OF top _ low24] 4 assms by (simp add: rt_ffs_def)
  qed
qed

end
