(* ===== verification/KernelInv.thy ===== *)
theory KernelInv imports Ipc Bitmap begin

text \<open>
  Well-formed kernel states: the sequences \<open>L\<close> behind the linked lists, and what they say about threads,
  priorities and timers. Each operation is described by its effect on \<open>L\<close>.
\<close>

type_synonym lists = "node \<Rightarrow> node list"

subsection \<open>Lists\<close>

text \<open>What the lists hold, for a set \<open>T\<close> of started threads. No thread has been closed.\<close>

fun fits :: "u32 set \<Rightarrow> node \<Rightarrow> node \<Rightarrow> bool" where
  "fits T (Ready p) (Tlist t) = (p < 32 \<and> t \<in> T)"
| "fits T (Suspend i) (Tlist t) = (t \<in> T)"
| "fits T Timer_head (Row (Thread_timer t)) = (t \<in> T)"
| "fits T (Container c) (Obj_list ob) = True"
| "fits T h n = False"

definition lists_ok :: "u32 set \<Rightarrow> kernel \<Rightarrow> lists \<Rightarrow> bool" where
  "lists_ok T k L \<longleftrightarrow> rings (klinks k) L \<and> (\<forall>h n. n \<in> set (L h) \<longrightarrow> fits T h n)"

fun is_head :: "node \<Rightarrow> bool" where
  "is_head (Tlist t) = False"
| "is_head (Row tm) = False"
| "is_head (Obj_list ob) = False"
| "is_head h = True"

lemma fits_head: "fits T h n \<Longrightarrow> is_head h \<and> \<not> is_head n"
  by (induction T h n rule: fits.induct) auto

lemma lists_fits: "lists_ok T k L \<Longrightarrow> n \<in> set (L h) \<Longrightarrow> fits T h n"
  by (simp add: lists_ok_def)

lemma lists_rings: "lists_ok T k L \<Longrightarrow> rings (klinks k) L"
  by (simp add: lists_ok_def)

lemma lists_free: "lists_ok T k L \<Longrightarrow> is_head h \<Longrightarrow> \<forall>j. h \<notin> set (L j)"
  using lists_fits fits_head by blast

lemma lists_empty: "lists_ok T k L \<Longrightarrow> \<not> is_head n \<Longrightarrow> L n = []"
  using lists_fits fits_head by (metis last_in_set)

lemma lists_isempty: "lists_ok T k L \<Longrightarrow> is_head h \<Longrightarrow> rt_list_isempty h (klinks k) \<longleftrightarrow> L h = []"
  using rings_isempty [OF lists_rings lists_free] by blast

lemma lists_ring: "lists_ok T k L \<Longrightarrow> is_head h \<Longrightarrow> ring (klinks k) h (L h)"
  using rings_ring [OF lists_rings lists_free] by blast

lemma lists_first: "lists_ok T k L \<Longrightarrow> is_head h \<Longrightarrow> nxt (klinks k) h = hd (L h @ [h])"
  using ring_ends(1) [OF lists_ring] by blast

lemma lists_remove:
  assumes "lists_ok T k L" and "\<not> is_head n"
  shows "lists_ok T (on_links (rt_list_remove n) k) (unlink n L)"
  using rings_remove [OF lists_rings [OF assms(1)] lists_empty [OF assms]] lists_fits [OF assms(1)]
  by (simp add: lists_ok_def on_links_def)

lemma lists_insert_last:
  assumes "lists_ok T k L" and "\<forall>j. n \<notin> set (L j)" and "fits T h n"
  shows "lists_ok T (on_links (rt_list_insert_before h n) k) (L(h := L h @ [n]))"
proof -
  have h: "is_head h" "\<not> is_head n" using fits_head [OF assms(3)] by simp_all
  then have "h \<noteq> n" by blast
  show ?thesis
    using rings_insert_last [OF lists_rings [OF assms(1)] lists_free [OF assms(1) h(1)] assms(2) lists_empty [OF assms(1) h(2)] \<open>h \<noteq> n\<close>]
      lists_fits [OF assms(1)] assms(3) by (auto simp: lists_ok_def on_links_def)
qed

lemma lists_insert_after:
  assumes "lists_ok T k L" and "\<forall>j. n \<notin> set (L j)" and "fits T h n" and "L h = us @ vs"
  shows "lists_ok T (on_links (rt_list_insert_after (last (h # us)) n) k) (L(h := us @ n # vs))"
proof -
  have h: "is_head h" "\<not> is_head n" using fits_head [OF assms(3)] by simp_all
  then have hn: "h \<noteq> n" by blast
  note e = lists_empty [OF assms(1) h(2)] and free = lists_free [OF assms(1) h(1)] and r = lists_rings [OF assms(1)]
  have "rings (rt_list_insert_after (last (h # us)) n (klinks k)) (L(h := us @ n # vs))"
  proof (cases us rule: rev_cases)
    case Nil
    then show ?thesis using rings_insert_first [OF r free assms(2) e hn] assms(4) by simp
  next
    case (snoc ws m)
    then show ?thesis using rings_insert_after [OF r assms(2) e _ hn, of ws m vs] assms(4) by simp
  qed
  then show ?thesis using lists_fits [OF assms(1)] assms(3,4) by (auto simp: lists_ok_def on_links_def)
qed

lemma lists_insert_before:
  assumes "lists_ok T k L" and "\<forall>j. n \<notin> set (L j)" and "fits T h n" and "L h = us @ vs"
  shows "lists_ok T (on_links (rt_list_insert_before (hd (vs @ [h])) n) k) (L(h := us @ n # vs))"
proof -
  have h: "is_head h" "\<not> is_head n" using fits_head [OF assms(3)] by simp_all
  then have hn: "h \<noteq> n" by blast
  note e = lists_empty [OF assms(1) h(2)] and free = lists_free [OF assms(1) h(1)] and r = lists_rings [OF assms(1)]
  have "rings (rt_list_insert_before (hd (vs @ [h])) n (klinks k)) (L(h := us @ n # vs))"
  proof (cases vs)
    case Nil
    then show ?thesis using rings_insert_last [OF r free assms(2) e hn] assms(4) by simp
  next
    case (Cons m ws)
    then show ?thesis using rings_insert_before [OF r assms(2) e _ hn, of us m ws] assms(4) by simp
  qed
  then show ?thesis using lists_fits [OF assms(1)] assms(3,4) by (auto simp: lists_ok_def on_links_def)
qed

text \<open>The predicate only looks at the links.\<close>

lemma lists_cong: "klinks k' = klinks k \<Longrightarrow> lists_ok T k' L \<longleftrightarrow> lists_ok T k L"
  by (simp add: lists_ok_def)

subsection \<open>Ready lists\<close>

definition group_ok :: "kernel \<Rightarrow> lists \<Rightarrow> bool" where
  "group_ok k L \<longleftrightarrow> (\<forall>p < 32. bit (rt_thread_ready_priority_group k) p \<longleftrightarrow> L (Ready p) \<noteq> [])"

lemma mask_bit: "p < 32 \<Longrightarrow> bit (push_bit p (1 :: u32)) q \<longleftrightarrow> q = p"
  by (auto simp: bit_exp_iff)

text \<open>The thread that the scheduler selects: the first one of the first list that is not empty.\<close>

definition top_priority :: "lists \<Rightarrow> nat" where
  "top_priority L = hd (filter (\<lambda>p. L (Ready p) \<noteq> []) [0..<32])"

definition top_thread :: "lists \<Rightarrow> u32" where
  "top_thread L = (case hd (L (Ready (top_priority L))) of Tlist t \<Rightarrow> t | _ \<Rightarrow> 0)"

definition some_ready :: "lists \<Rightarrow> bool" where
  "some_ready L \<longleftrightarrow> (\<exists>p < 32. L (Ready p) \<noteq> [])"

lemma top_priority:
  assumes "some_ready L"
  shows "top_priority L < 32 \<and> L (Ready (top_priority L)) \<noteq> [] \<and> (\<forall>q < top_priority L. L (Ready q) = [])"
proof -
  define ps where "ps = [0..<(32 :: nat)]"
  have ps: "set ps = {..<32}" "sorted ps" by (simp_all only: ps_def set_upt sorted_upt atLeast0LessThan)
  let ?f = "filter (\<lambda>p. L (Ready p) \<noteq> []) ps"
  have ne: "?f \<noteq> []" using assms ps by (auto simp: some_ready_def filter_empty_conv)
  have m: "hd ?f < 32" "L (Ready (hd ?f)) \<noteq> []" using hd_in_set [OF ne] ps by (simp_all del: hd_in_set)
  have "sorted ?f" using ps(2) by (simp add: sorted_wrt_filter)
  then have le: "\<forall>q \<in> set ?f. hd ?f \<le> q" using ne by (cases ?f) auto
  have "L (Ready q) = []" if "q < hd ?f" for q
  proof (rule ccontr)
    assume "L (Ready q) \<noteq> []"
    then have "q \<in> set ?f" using that m ps by simp
    then show False using le that by fastforce
  qed
  then show ?thesis using m unfolding top_priority_def ps_def by blast
qed

text \<open>The context switch of \<open>rt_schedule\<close>.\<close>

definition switch_to :: "u32 \<Rightarrow> u8 \<Rightarrow> kernel \<Rightarrow> kernel" where
  "switch_to to p k =
     (if to \<noteq> rt_current_thread k
      then k\<lparr>rt_current_priority := p, rt_current_thread := to,
             switches := (if rt_interrupt_nest k = 0 then Switch (rt_current_thread k) to else Switch_interrupt (rt_current_thread k) to) # switches k\<rparr>
      else k)"

lemma lowest_bit_unique: "lowest_bit w p \<Longrightarrow> bit w q \<Longrightarrow> \<forall>r < q. \<not> bit w r \<Longrightarrow> p = q"
  unfolding lowest_bit_def by (metis linorder_neqE_nat)

lemma selected_thread:
  assumes l: "lists_ok T k L" and g: "group_ok k L" and r: "some_ready L"
  defines "highest \<equiv> rt_ffs (rt_thread_ready_priority_group k) - 1"
  shows "highest = of_nat (top_priority L)" and "priority_list (unat highest) = Some (Ready (top_priority L))"
    and "first_thread (Ready (top_priority L)) k = Some (top_thread L)"
    and "Tlist (top_thread L) \<in> set (L (Ready (top_priority L)))"
proof -
  let ?w = "rt_thread_ready_priority_group k" and ?p = "top_priority L"
  note p = top_priority [OF r]
  have w: "bit ?w ?p" "\<forall>q < ?p. \<not> bit ?w q" using g p by (auto simp: group_ok_def)
  then have "?w \<noteq> 0" by auto
  then have "lowest_bit ?w (unat highest)" unfolding highest_def by (rule rt_ffs_lowest)
  then have e: "unat highest = ?p" using w by (rule lowest_bit_unique)
  show "highest = of_nat ?p" unfolding e [symmetric] by simp
  show "priority_list (unat highest) = Some (Ready ?p)" using p by (simp add: e priority_list_def RT_THREAD_PRIORITY_MAX_def)
  obtain n ns where ns: "L (Ready ?p) = n # ns" using p by (cases "L (Ready ?p)") auto
  then obtain t where t: "n = Tlist t" using lists_fits [OF l, of n "Ready ?p"] by (cases n) auto
  have top: "top_thread L = t" using ns t by (simp add: top_thread_def)
  then show "Tlist (top_thread L) \<in> set (L (Ready ?p))" using ns t by simp
  show "first_thread (Ready ?p) k = Some (top_thread L)"
    using lists_first [OF l, of "Ready ?p"] ns t top by (simp add: first_thread_def)
qed

lemma schedule_top:
  assumes l: "lists_ok T k L" and g: "group_ok k L" and r: "some_ready L" and "rt_scheduler_lock_nest k = 0"
  shows "rt_schedule k = Some (switch_to (top_thread L) (of_nat (top_priority L)) k)"
    and "Tlist (top_thread L) \<in> set (L (Ready (top_priority L)))"
proof -
  note s = selected_thread [OF l g r]
  show "Tlist (top_thread L) \<in> set (L (Ready (top_priority L)))" by (rule s(4))
  have "take_bit 32 (top_priority L) = top_priority L" using top_priority [OF r] by (intro take_bit_nat_eq_self) simp
  then have c: "ucast (of_nat (top_priority L) :: u32) = (of_nat (top_priority L) :: u8)" by (simp add: unsigned_of_nat)
  show "rt_schedule k = Some (switch_to (top_thread L) (of_nat (top_priority L)) k)"
    using assms(4) unfolding rt_schedule_def Let_def s(2) unfolding s(1) by (simp add: s(3) c switch_to_def)
qed

text \<open>A thread enters and leaves its ready list.\<close>

definition set_stat :: "u8 \<Rightarrow> rt_thread \<Rightarrow> rt_thread" where
  "set_stat st r = r\<lparr>stat := st OR (stat r AND NOT RT_THREAD_STAT_MASK)\<rparr>"

definition own_mask :: "rt_thread \<Rightarrow> bool" where
  "own_mask r \<longleftrightarrow> unat (current_priority r) < 32 \<and> number_mask r = push_bit (unat (current_priority r)) 1"

abbreviation prio :: "u32 \<Rightarrow> kernel \<Rightarrow> nat" where
  "prio t k \<equiv> unat (current_priority (threads k t))"

definition inserted :: "u32 \<Rightarrow> kernel \<Rightarrow> kernel" where
  "inserted t k =
     (let k = upd_thread t (set_stat RT_THREAD_READY) k;
          k = on_links (rt_list_insert_before (Ready (prio t k)) (Tlist t)) k
      in k\<lparr>rt_thread_ready_priority_group := rt_thread_ready_priority_group k OR number_mask (threads k t)\<rparr>)"

lemma insert_thread:
  assumes "t \<noteq> 0" and "own_mask (threads k t)"
  shows "rt_schedule_insert_thread t k = Some (inserted t k)"
  using assms
  by (simp add: rt_schedule_insert_thread_def inserted_def RT_ASSERT_def priority_list_def RT_THREAD_PRIORITY_MAX_def own_mask_def
      upd_thread_def set_stat_def Let_def)

lemma inserted_ok:
  assumes l: "lists_ok T k L" and t: "t \<in> T" "own_mask (threads k t)" "\<forall>j. Tlist t \<notin> set (L j)"
  shows "lists_ok T (inserted t k) (L(Ready (prio t k) := L (Ready (prio t k)) @ [Tlist t]))"
    and "group_ok k L \<Longrightarrow> group_ok (inserted t k) (L(Ready (prio t k) := L (Ready (prio t k)) @ [Tlist t]))"
proof -
  have "fits T (Ready (prio t k)) (Tlist t)" using t by (simp add: own_mask_def)
  note i = lists_insert_last [OF l t(3) this]
  have "klinks (inserted t k) = klinks (on_links (rt_list_insert_before (Ready (prio t k)) (Tlist t)) k)"
    by (simp add: inserted_def on_links_def upd_thread_def set_stat_def Let_def)
  then show "lists_ok T (inserted t k) (L(Ready (prio t k) := L (Ready (prio t k)) @ [Tlist t]))"
    using i lists_cong by blast
  have "rt_thread_ready_priority_group (inserted t k) = rt_thread_ready_priority_group k OR push_bit (prio t k) 1"
    using t(2) by (simp add: inserted_def on_links_def upd_thread_def set_stat_def own_mask_def Let_def)
  then show "group_ok (inserted t k) (L(Ready (prio t k) := L (Ready (prio t k)) @ [Tlist t]))" if "group_ok k L"
    using that t(2) by (auto simp: group_ok_def own_mask_def bit_or_iff bit_exp_iff)
qed

definition removed :: "u32 \<Rightarrow> kernel \<Rightarrow> kernel" where
  "removed t k =
     (let k = on_links (rt_list_remove (Tlist t)) k
      in if rt_list_isempty (Ready (prio t k)) (klinks k)
         then k\<lparr>rt_thread_ready_priority_group := rt_thread_ready_priority_group k AND NOT (number_mask (threads k t))\<rparr> else k)"

lemma remove_thread:
  assumes "t \<noteq> 0" and "own_mask (threads k t)"
  shows "rt_schedule_remove_thread t k = Some (removed t k)"
  using assms
  by (simp add: rt_schedule_remove_thread_def removed_def RT_ASSERT_def priority_list_def RT_THREAD_PRIORITY_MAX_def own_mask_def
      on_links_def Let_def)

lemma removed_ok:
  assumes l: "lists_ok T k L" and t: "own_mask (threads k t)" "\<forall>h. Tlist t \<in> set (L h) \<longrightarrow> h = Ready (prio t k)"
  shows "lists_ok T (removed t k) (unlink (Tlist t) L)"
    and "group_ok k L \<Longrightarrow> group_ok (removed t k) (unlink (Tlist t) L)"
proof -
  let ?k = "on_links (rt_list_remove (Tlist t)) k" and ?L = "unlink (Tlist t) L"
  have l': "lists_ok T ?k ?L" by (rule lists_remove [OF l]) simp
  have "klinks (removed t k) = klinks ?k" by (simp add: removed_def Let_def)
  then show "lists_ok T (removed t k) ?L" using l' lists_cong by blast
  have g': "rt_thread_ready_priority_group (removed t k)
     = (if ?L (Ready (prio t k)) = [] then rt_thread_ready_priority_group k AND NOT (push_bit (prio t k) 1) else rt_thread_ready_priority_group k)"
    using t(1) lists_isempty [OF l', of "Ready (prio t k)"] by (auto simp: removed_def on_links_def own_mask_def Let_def)
  have other: "?L (Ready q) = L (Ready q)" if "q \<noteq> prio t k" for q
    using that t(2) by (auto simp: unlink_def intro!: removeAll_id)
  have more: "L h \<noteq> []" if "?L h \<noteq> []" for h using that by (auto simp: unlink_def)
  show "group_ok (removed t k) ?L" if g: "group_ok k L"
    unfolding group_ok_def
  proof (intro allI impI)
    fix p :: nat
    assume p: "p < 32"
    note gp = g [unfolded group_ok_def, rule_format, OF p]
    show "bit (rt_thread_ready_priority_group (removed t k)) p \<longleftrightarrow> ?L (Ready p) \<noteq> []"
    proof (cases "p = prio t k")
      case True
      then show ?thesis using gp more [of "Ready p"] p by (simp add: g' bit_simps)
    next
      case False
      then show ?thesis using gp other [OF False] p by (simp add: g' bit_simps)
    qed
  qed
qed

subsection \<open>Searches\<close>

text \<open>\<open>rt_timer_start\<close> stops before the first timer that is due later than \<open>tick\<close>.\<close>

definition later :: "u32 \<Rightarrow> kernel \<Rightarrow> node \<Rightarrow> bool" where
  "later tick k n \<longleftrightarrow> (case timer_of n of Some t \<Rightarrow> timeout_tick (timers k t) \<noteq> tick \<and> timeout_tick (timers k t) - tick < HALF_TICKS | None \<Rightarrow> False)"

lemma timer_pos_at:
  assumes "ring (klinks k) Timer_head (us @ vs)" and "\<forall>n \<in> set vs. timer_of n \<noteq> None"
  shows "timer_pos tick k (last (Timer_head # us)) = Some (last (Timer_head # us @ takeWhile (\<lambda>n. \<not> later tick k n) vs))"
  using assms
proof (induction vs arbitrary: us)
  case Nil
  then have "prv (klinks k) Timer_head = last (Timer_head # us)" using ring_ends(2) by fastforce
  then show ?case by (simp add: timer_pos.simps)
next
  case (Cons v vs)
  have n: "nxt (klinks k) (last (Timer_head # us)) = v" using Cons.prems(1) by (rule ring_next)
  have d: "distinct (Timer_head # us @ v # vs)" using Cons.prems(1) by (simp add: ring_def)
  have "last (Timer_head # us @ v # vs) \<in> set (v # vs)" by (metis last_appendR last_in_set last_ConsR list.distinct(1) append_is_Nil_conv)
  moreover have "last (Timer_head # us) \<in> set (Timer_head # us)" by (rule last_in_set) simp
  ultimately have "last (Timer_head # us) \<noteq> prv (klinks k) Timer_head"
    unfolding ring_ends(2) [OF Cons.prems(1)] using d by (metis (no_types) append_Cons disjoint_iff distinct_append)
  moreover obtain t where t: "timer_of v = Some t" using Cons.prems(2) by auto
  moreover have "timer_pos tick k v = Some (last (Timer_head # (us @ [v]) @ takeWhile (\<lambda>n. \<not> later tick k n) vs))"
    using Cons.IH [of "us @ [v]"] Cons.prems by simp
  ultimately show ?case
    unfolding timer_pos.simps [of tick k "last (Timer_head # us)"] n
    by (auto simp: later_def)
qed

text \<open>\<open>rt_ipc_list_suspend\<close> stops at the first thread of a lower priority.\<close>

definition lower :: "u8 \<Rightarrow> kernel \<Rightarrow> node \<Rightarrow> bool" where
  "lower p k n \<longleftrightarrow> (case thread_of n of Some t \<Rightarrow> p < current_priority (threads k t) | None \<Rightarrow> False)"

lemma suspend_pos_at:
  assumes "ring (klinks k) h (us @ vs)" and "\<forall>n \<in> set vs. thread_of n \<noteq> None"
  shows "suspend_pos h p k (hd (vs @ [h])) = Some (hd (dropWhile (\<lambda>n. \<not> lower p k n) vs @ [h]))"
  using assms
proof (induction vs arbitrary: us)
  case Nil
  then show ?case by (simp add: suspend_pos.simps)
next
  case (Cons v vs)
  have n: "nxt (klinks k) v = hd (vs @ [h])" using ring_at(1) [OF Cons.prems(1)] .
  have "v \<noteq> h" using Cons.prems(1) by (auto simp: ring_def)
  moreover obtain t where t: "thread_of v = Some t" using Cons.prems(2) by auto
  moreover have "suspend_pos h p k (hd (vs @ [h])) = Some (hd (dropWhile (\<lambda>n. \<not> lower p k n) vs @ [h]))"
    using Cons.IH [of "us @ [v]"] Cons.prems by simp
  ultimately show ?case
    unfolding suspend_pos.simps [of h p k "hd ((v # vs) @ [h])"] by (simp add: lower_def n)
qed

end
