(* ===== verification/ThreadInv.thy ===== *)
theory ThreadInv imports KernelInv begin

text \<open>
  The invariant of the kernel for a set \<open>T\<close> of started threads and a set \<open>I\<close> of semaphores and mutexes, and
  what suspending, resuming, timing out and a change of priority do to it.
\<close>

subsection \<open>The invariant\<close>

definition timer_on :: "u32 \<Rightarrow> kernel \<Rightarrow> bool" where
  "timer_on t k \<longleftrightarrow> timer_flag (Thread_timer t) k AND RT_TIMER_FLAG_ACTIVATED \<noteq> 0"

text \<open>What does not change in the life of a thread.\<close>

definition statics_ok :: "kernel \<Rightarrow> u32 \<Rightarrow> bool" where
  "statics_ok k t \<longleftrightarrow> t \<noteq> 0 \<and> rt_object_get_type (Obj_thread t) k = RT_Object_Class_Thread \<and>
     rt_object_get_type (Obj_timer (Thread_timer t)) k = RT_Object_Class_Timer \<and>
     timeout_func (timers k (Thread_timer t)) = Rt_thread_timeout \<and> timer_parameter (timers k (Thread_timer t)) = t \<and>
     timer_flag (Thread_timer t) k AND RT_TIMER_FLAG_PERIODIC = 0"

text \<open>
  A ready thread is in the list of its priority and nowhere else, a suspended one in no ready list. The
  timer of a ready thread is off; a timer is in the timer list if it is on.
\<close>

definition thread_ok :: "kernel \<Rightarrow> lists \<Rightarrow> u32 \<Rightarrow> bool" where
  "thread_ok k L t \<longleftrightarrow> statics_ok k t \<and> own_mask (threads k t) \<and> thread_error (threads k t) \<in> {RT_EOK, - RT_ERROR, - RT_ETIMEOUT} \<and>
     (thread_stat t k = RT_THREAD_READY \<and> (\<forall>h. Tlist t \<in> set (L h) \<longleftrightarrow> h = Ready (prio t k)) \<and> \<not> timer_on t k \<or>
      thread_stat t k = RT_THREAD_SUSPEND \<and> (\<forall>p. Tlist t \<notin> set (L (Ready p)))) \<and>
     (timer_on t k \<longleftrightarrow> Row (Thread_timer t) \<in> set (L Timer_head))"

definition ipc_type :: "ipc_ptr \<Rightarrow> u8" where
  "ipc_type i = (case i of Sem_at _ \<Rightarrow> RT_Object_Class_Semaphore | Mutex_at _ \<Rightarrow> RT_Object_Class_Mutex)"

definition ipc_addr :: "ipc_ptr \<Rightarrow> u32" where
  "ipc_addr i = (case i of Sem_at s \<Rightarrow> s | Mutex_at m \<Rightarrow> m)"

definition mutex_ok :: "u32 set \<Rightarrow> rt_mutex \<Rightarrow> bool \<Rightarrow> bool" where
  "mutex_ok T r waiters \<longleftrightarrow>
     (if mutex_owner r = 0 then mutex_value r = 1 \<and> \<not> waiters
      else mutex_value r = 0 \<and> mutex_owner r \<in> T \<and> unat (original_priority r) < 32)"

text \<open>Nobody waits for a semaphore with a positive value or for a free mutex; the owner of a mutex is started.\<close>

definition ipc_ok :: "u32 set \<Rightarrow> kernel \<Rightarrow> lists \<Rightarrow> ipc_ptr \<Rightarrow> bool" where
  "ipc_ok T k L i \<longleftrightarrow> ipc_addr i \<noteq> 0 \<and> rt_object_get_type (Obj_ipc i) k = ipc_type i \<and>
     obj_flag (objects k (Obj_ipc i)) \<in> {RT_IPC_FLAG_FIFO, RT_IPC_FLAG_PRIO} \<and>
     (case i of Sem_at s \<Rightarrow> L (Suspend i) \<noteq> [] \<longrightarrow> sem_value k s = 0
              | Mutex_at m \<Rightarrow> mutex_ok T (mutexes k m) (L (Suspend i) \<noteq> []))"

definition kwf :: "u32 set \<Rightarrow> ipc_ptr set \<Rightarrow> kernel \<Rightarrow> lists \<Rightarrow> bool" where
  "kwf T I k L \<longleftrightarrow> lists_ok T k L \<and> group_ok k L \<and> (\<forall>t \<in> T. thread_ok k L t) \<and> (\<forall>i \<in> I. ipc_ok T k L i)"

lemma ready_not_suspend [simp]: "RT_THREAD_READY \<noteq> RT_THREAD_SUSPEND" "RT_THREAD_SUSPEND \<noteq> RT_THREAD_READY"
  by (simp_all add: RT_THREAD_READY_def RT_THREAD_SUSPEND_def)

lemma kwf_parts:
  assumes "kwf T I k L"
  shows "lists_ok T k L" and "group_ok k L" and "t \<in> T \<Longrightarrow> thread_ok k L t" and "i \<in> I \<Longrightarrow> ipc_ok T k L i"
  using assms by (simp_all add: kwf_def)

lemma thread_parts:
  assumes "thread_ok k L t"
  shows "statics_ok k t" and "own_mask (threads k t)" and "t \<noteq> 0"
    and "rt_object_get_type (Obj_thread t) k = RT_Object_Class_Thread"
    and "rt_object_get_type (Obj_timer (Thread_timer t)) k = RT_Object_Class_Timer"
    and "thread_stat t k \<noteq> RT_THREAD_READY \<Longrightarrow> thread_stat t k = RT_THREAD_SUSPEND"
    and "thread_stat t k = RT_THREAD_READY \<Longrightarrow> \<forall>h. Tlist t \<in> set (L h) \<longleftrightarrow> h = Ready (prio t k)"
    and "thread_stat t k = RT_THREAD_READY \<Longrightarrow> \<not> timer_on t k"
    and "timer_on t k \<longleftrightarrow> Row (Thread_timer t) \<in> set (L Timer_head)"
  using assms by (auto simp: thread_ok_def statics_ok_def split: if_splits)

text \<open>The part of the state that belongs to a thread, and to a semaphore or mutex.\<close>

definition same_thread :: "kernel \<Rightarrow> kernel \<Rightarrow> u32 \<Rightarrow> bool" where
  "same_thread k k' u \<longleftrightarrow> threads k' u = threads k u \<and> timers k' (Thread_timer u) = timers k (Thread_timer u) \<and>
     objects k' (Obj_thread u) = objects k (Obj_thread u) \<and> objects k' (Obj_timer (Thread_timer u)) = objects k (Obj_timer (Thread_timer u))"

definition same_lists :: "lists \<Rightarrow> lists \<Rightarrow> u32 \<Rightarrow> bool" where
  "same_lists L L' u \<longleftrightarrow> (\<forall>h. (Tlist u \<in> set (L' h) \<longleftrightarrow> Tlist u \<in> set (L h)) \<and>
     (Row (Thread_timer u) \<in> set (L' h) \<longleftrightarrow> Row (Thread_timer u) \<in> set (L h)))"

lemma thread_frame: "thread_ok k L u \<Longrightarrow> same_thread k k' u \<Longrightarrow> same_lists L L' u \<Longrightarrow> thread_ok k' L' u"
  by (simp add: thread_ok_def statics_ok_def same_thread_def same_lists_def timer_on_def timer_flag_def rt_object_get_type_def thread_stat_def) blast

lemma ipc_frame:
  assumes "ipc_ok T k L i" and "objects k' (Obj_ipc i) = objects k (Obj_ipc i)" and "sem_value k' = sem_value k" and "mutexes k' = mutexes k"
    and "L (Suspend i) = [] \<Longrightarrow> L' (Suspend i) = []"
  shows "ipc_ok T k' L' i"
  using assms by (auto simp: ipc_ok_def mutex_ok_def rt_object_get_type_def split: ipc_ptr.splits if_splits)

lemma ipcs_frame:
  assumes "kwf T I k L" and "\<forall>i. objects k' (Obj_ipc i) = objects k (Obj_ipc i)" and "sem_value k' = sem_value k"
    and "mutexes k' = mutexes k" and "\<forall>i. L (Suspend i) = [] \<longrightarrow> L' (Suspend i) = []"
  shows "\<forall>i \<in> I. ipc_ok T k' L' i"
proof
  fix i assume "i \<in> I"
  then show "ipc_ok T k' L' i" using assms kwf_parts(4) [OF assms(1)] by (intro ipc_frame [of T k L i k' L']) auto
qed

text \<open>An operation on one thread.\<close>

lemma kwf_change:
  assumes "kwf T I k L" and "lists_ok T k' L'" and "group_ok k' L'" and "thread_ok k' L' t"
    and "\<forall>u. u \<noteq> t \<longrightarrow> same_thread k k' u \<and> same_lists L L' u" and "\<forall>i \<in> I. ipc_ok T k' L' i"
  shows "kwf T I k' L'"
  unfolding kwf_def
proof (intro conjI ballI)
  fix u assume "u \<in> T"
  then show "thread_ok k' L' u" using assms(4,5) kwf_parts(3) [OF assms(1)] thread_frame by (cases "u = t") blast+
qed (use assms in blast)+

lemma stat_masked: "(st OR (x AND NOT RT_THREAD_STAT_MASK)) AND RT_THREAD_STAT_MASK = st AND (RT_THREAD_STAT_MASK :: u8)"
  by (rule bit_eqI) (auto simp: bit_simps)

lemma set_stat_stat:
  "stat (set_stat RT_THREAD_READY r) AND RT_THREAD_STAT_MASK = RT_THREAD_READY"
  "stat (set_stat RT_THREAD_SUSPEND r) AND RT_THREAD_STAT_MASK = RT_THREAD_SUSPEND"
  by (simp_all add: set_stat_def stat_masked) (simp_all add: RT_THREAD_READY_def RT_THREAD_SUSPEND_def RT_THREAD_STAT_MASK_def)

subsection \<open>Fields that the operations leave alone\<close>

lemma set_stat_fields [simp]:
  "current_priority (set_stat st r) = current_priority r" "own_mask (set_stat st r) = own_mask r"
  "thread_error (set_stat st r) = thread_error r" "number_mask (set_stat st r) = number_mask r"
  by (simp_all add: set_stat_def own_mask_def)

lemma removed_fields [simp]:
  "threads (removed t k) = threads k" "timers (removed t k) = timers k" "objects (removed t k) = objects k"
  "sem_value (removed t k) = sem_value k" "mutexes (removed t k) = mutexes k" "rt_tick (removed t k) = rt_tick k"
  "rt_interrupt_nest (removed t k) = rt_interrupt_nest k" "rt_scheduler_lock_nest (removed t k) = rt_scheduler_lock_nest k"
  "rt_current_thread (removed t k) = rt_current_thread k" "switches (removed t k) = switches k"
  by (simp_all add: removed_def on_links_def Let_def)

lemma inserted_fields [simp]:
  "threads (inserted t k) = (threads k)(t := set_stat RT_THREAD_READY (threads k t))" "timers (inserted t k) = timers k"
  "objects (inserted t k) = objects k" "sem_value (inserted t k) = sem_value k" "mutexes (inserted t k) = mutexes k"
  "rt_tick (inserted t k) = rt_tick k" "rt_interrupt_nest (inserted t k) = rt_interrupt_nest k"
  "rt_scheduler_lock_nest (inserted t k) = rt_scheduler_lock_nest k" "rt_current_thread (inserted t k) = rt_current_thread k"
  "switches (inserted t k) = switches k"
  by (simp_all add: inserted_def on_links_def upd_thread_def Let_def)

lemmas kernel_updates = on_links_def upd_thread_def upd_timer_def upd_object_def upd_mutex_def set_timer_flag_def remove_timer_def

subsection \<open>Suspending\<close>

definition suspended :: "u32 \<Rightarrow> kernel \<Rightarrow> kernel" where
  "suspended t k = removed t (upd_thread t (set_stat RT_THREAD_SUSPEND) k)"

lemma suspended_fields [simp]:
  "threads (suspended t k) = (threads k)(t := set_stat RT_THREAD_SUSPEND (threads k t))" "timers (suspended t k) = timers k"
  "objects (suspended t k) = objects k" "sem_value (suspended t k) = sem_value k" "mutexes (suspended t k) = mutexes k"
  "rt_tick (suspended t k) = rt_tick k" "rt_interrupt_nest (suspended t k) = rt_interrupt_nest k"
  "rt_scheduler_lock_nest (suspended t k) = rt_scheduler_lock_nest k" "rt_current_thread (suspended t k) = rt_current_thread k"
  "switches (suspended t k) = switches k"
  by (simp_all add: suspended_def upd_thread_def)

lemma thread_suspend:
  assumes w: "kwf T I k L" and t: "t \<in> T" "thread_stat t k = RT_THREAD_READY"
  shows "rt_thread_suspend t k = Some (RT_EOK, suspended t k)" and "kwf T I (suspended t k) (unlink (Tlist t) L)"
proof -
  note ok = thread_parts [OF kwf_parts(3) [OF w t(1)]]
  let ?k = "upd_thread t (set_stat RT_THREAD_SUSPEND) k"
  have m: "own_mask (threads ?k t)" using ok(2) by (simp add: upd_thread_def)
  have "rt_thread_suspend t k = do { (_, k) \<leftarrow> rt_timer_stop (Thread_timer t) (suspended t k); Some (RT_EOK, k) }"
    using t(2) ok(3,4) remove_thread [OF ok(3) m] by (simp add: rt_thread_suspend_def RT_ASSERT_def suspended_def set_stat_def [abs_def])
  moreover have "rt_timer_stop (Thread_timer t) (suspended t k) = Some (- RT_ERROR, suspended t k)"
    using ok(5) ok(8) [OF t(2)] by (simp add: rt_timer_stop_def RT_ASSERT_def timer_on_def timer_flag_def rt_object_get_type_def)
  ultimately show "rt_thread_suspend t k = Some (RT_EOK, suspended t k)" by simp
  have l: "lists_ok T ?k L" using kwf_parts(1) [OF w] by (simp add: lists_ok_def upd_thread_def)
  have g: "group_ok ?k L" using kwf_parts(2) [OF w] by (simp add: group_ok_def upd_thread_def)
  have at: "\<forall>h. Tlist t \<in> set (L h) \<longrightarrow> h = Ready (prio t ?k)" using ok(7) [OF t(2)] by (simp add: upd_thread_def)
  show "kwf T I (suspended t k) (unlink (Tlist t) L)"
  proof (rule kwf_change [OF w])
    show "lists_ok T (suspended t k) (unlink (Tlist t) L)" "group_ok (suspended t k) (unlink (Tlist t) L)"
      unfolding suspended_def using removed_ok [OF l m at] g by blast+
    show "thread_ok (suspended t k) (unlink (Tlist t) L) t"
      using kwf_parts(3) [OF w t(1)] t(2)
      by (auto simp: thread_ok_def statics_ok_def timer_on_def timer_flag_def rt_object_get_type_def thread_stat_def set_stat_stat)
    show "\<forall>u. u \<noteq> t \<longrightarrow> same_thread k (suspended t k) u \<and> same_lists L (unlink (Tlist t) L) u"
      by (simp add: same_thread_def same_lists_def)
    show "\<forall>i \<in> I. ipc_ok T (suspended t k) (unlink (Tlist t) L) i"
      by (rule ipcs_frame [OF w]) simp_all
  qed
qed

subsection \<open>Making ready\<close>

definition detached :: "u32 \<Rightarrow> lists \<Rightarrow> lists" where
  "detached t L = unlink (Row (Thread_timer t)) (unlink (Tlist t) L)"

definition made_ready :: "u32 \<Rightarrow> nat \<Rightarrow> lists \<Rightarrow> lists" where
  "made_ready t p L = (detached t L)(Ready p := detached t L (Ready p) @ [Tlist t])"

lemma unlink_commute: "unlink a (unlink b L) = unlink b (unlink a L)"
  by (simp add: unlink_def fun_eq_iff removeAll_filter_not_eq conj_commute)

lemma detached_set: "set (detached t L h) = set (L h) - {Tlist t, Row (Thread_timer t)}"
  by (auto simp: detached_def)

lemma detached_Nil: "L h = [] \<Longrightarrow> detached t L h = []"
  by (simp add: detached_def)

lemma row_home: "lists_ok T k L \<Longrightarrow> Row tm \<in> set (L h) \<Longrightarrow> h = Timer_head"
  by (drule (1) lists_fits) (cases h; simp)

lemma detached_ready:
  assumes "lists_ok T k L" and "\<forall>p. Tlist t \<notin> set (L (Ready p))"
  shows "detached t L (Ready p) = L (Ready p)"
  using assms(2) row_home [OF assms(1), of _ "Ready p"] by (auto simp: detached_def unlink_def intro!: removeAll_id)

lemma made_ready_ok:
  assumes w: "kwf T I k L" and t: "t \<in> T" "thread_stat t k = RT_THREAD_SUSPEND"
    and l: "lists_ok T k1 (detached t L)" "rt_thread_ready_priority_group k1 = rt_thread_ready_priority_group k"
      "current_priority (threads k1 t) = current_priority (threads k t)" "number_mask (threads k1 t) = number_mask (threads k t)"
    and k2: "klinks k2 = klinks (inserted t k1)" "rt_thread_ready_priority_group k2 = rt_thread_ready_priority_group (inserted t k1)"
      "threads k2 = (threads k)(t := set_stat RT_THREAD_READY r)" "current_priority r = current_priority (threads k t)" "own_mask r"
      "thread_error r \<in> {RT_EOK, - RT_ERROR, - RT_ETIMEOUT}" "timers k2 = timers k" "sem_value k2 = sem_value k" "mutexes k2 = mutexes k"
      "\<forall>ob. ob \<noteq> Obj_timer (Thread_timer t) \<longrightarrow> objects k2 ob = objects k ob"
      "obj_type (objects k2 (Obj_timer (Thread_timer t))) = obj_type (objects k (Obj_timer (Thread_timer t)))"
      "\<not> timer_on t k2" "timer_flag (Thread_timer t) k2 AND RT_TIMER_FLAG_PERIODIC = 0"
  shows "kwf T I k2 (made_ready t (prio t k) L)"
proof (rule kwf_change [OF w])
  note ok = kwf_parts(3) [OF w t(1)]
  have un: "\<forall>p. Tlist t \<notin> set (L (Ready p))" using ok t(2) by (simp add: thread_ok_def)
  have m: "own_mask (threads k1 t)" using thread_parts(2) [OF ok] l(3,4) by (simp add: own_mask_def)
  have free: "\<forall>j. Tlist t \<notin> set (detached t L j)" by (simp add: detached_set)
  have L: "made_ready t (prio t k) L = (detached t L)(Ready (prio t k1) := detached t L (Ready (prio t k1)) @ [Tlist t])"
    using l(3) by (simp add: made_ready_def)
  note i = inserted_ok [OF l(1) t(1) m free, folded L]
  have g: "group_ok k1 (detached t L)"
    using kwf_parts(2) [OF w] l(2) detached_ready [OF kwf_parts(1) [OF w] un] by (simp add: group_ok_def)
  show "lists_ok T k2 (made_ready t (prio t k) L)" using i(1) lists_cong [OF k2(1)] by simp
  show "group_ok k2 (made_ready t (prio t k) L)" using i(2) [OF g] k2(2) by (simp add: group_ok_def)
  have mem: "x \<in> set (made_ready t p L h) \<longleftrightarrow> (if x = Tlist t then h = Ready p else x \<in> set (L h) \<and> x \<noteq> Row (Thread_timer t))" for x h p
    by (auto simp: made_ready_def detached_set)
  have "thread_stat t k2 = RT_THREAD_READY" by (simp add: thread_stat_def k2(3) set_stat_stat)
  then show "thread_ok k2 (made_ready t (prio t k) L) t"
    using thread_parts(1) [OF ok] k2(3-7,10-) by (simp add: thread_ok_def statics_ok_def mem rt_object_get_type_def)
  show "\<forall>u. u \<noteq> t \<longrightarrow> same_thread k k2 u \<and> same_lists L (made_ready t (prio t k) L) u"
    using k2 by (simp add: same_thread_def same_lists_def mem)
  show "\<forall>i \<in> I. ipc_ok T k2 (made_ready t (prio t k) L) i"
    using k2 by (intro ipcs_frame [OF w]) (auto simp: made_ready_def detached_Nil)
qed

definition timer_off :: "u32 \<Rightarrow> kernel \<Rightarrow> kernel" where
  "timer_off t k =
     (if timer_on t k
      then set_timer_flag (Thread_timer t) (timer_flag (Thread_timer t) k AND NOT RT_TIMER_FLAG_ACTIVATED) (remove_timer (Thread_timer t) k)
      else k)"

lemma timer_stop:
  assumes "rt_object_get_type (Obj_timer (Thread_timer t)) k = RT_Object_Class_Timer"
  shows "\<exists>r. rt_timer_stop (Thread_timer t) k = Some (r, timer_off t k)"
  using assms by (simp add: rt_timer_stop_def RT_ASSERT_def timer_off_def timer_on_def kernel_updates timer_flag_def)

lemma timer_off_ok:
  assumes "lists_ok T k L" and "timer_on t k \<longleftrightarrow> Row (Thread_timer t) \<in> set (L Timer_head)"
  shows "lists_ok T (timer_off t k) (unlink (Row (Thread_timer t)) L)"
proof (cases "timer_on t k")
  case True
  then show ?thesis using lists_remove [OF assms(1), of "Row (Thread_timer t)"]
    by (simp add: timer_off_def lists_ok_def kernel_updates)
next
  case False
  then have "\<forall>h. Row (Thread_timer t) \<notin> set (L h)" using assms row_home by blast
  then show ?thesis using False assms(1) by (simp add: timer_off_def unlink_not)
qed

lemma timer_off_fields [simp]:
  "threads (timer_off t k) = threads k" "timers (timer_off t k) = timers k"
  "sem_value (timer_off t k) = sem_value k" "mutexes (timer_off t k) = mutexes k" "rt_tick (timer_off t k) = rt_tick k"
  "rt_interrupt_nest (timer_off t k) = rt_interrupt_nest k" "rt_scheduler_lock_nest (timer_off t k) = rt_scheduler_lock_nest k"
  "rt_current_thread (timer_off t k) = rt_current_thread k" "switches (timer_off t k) = switches k"
  "rt_thread_ready_priority_group (timer_off t k) = rt_thread_ready_priority_group k"
  "ob \<noteq> Obj_timer (Thread_timer t) \<Longrightarrow> objects (timer_off t k) ob = objects k ob"
  "obj_type (objects (timer_off t k) ob) = obj_type (objects k ob)"
  by (simp_all add: timer_off_def kernel_updates)

lemma flag_off: "(f AND NOT RT_TIMER_FLAG_ACTIVATED) AND RT_TIMER_FLAG_ACTIVATED = 0"
  "f AND RT_TIMER_FLAG_PERIODIC = 0 \<Longrightarrow> (f AND NOT RT_TIMER_FLAG_ACTIVATED) AND RT_TIMER_FLAG_PERIODIC = 0"
proof -
  show "(f AND NOT RT_TIMER_FLAG_ACTIVATED) AND RT_TIMER_FLAG_ACTIVATED = 0" by (rule bit_eqI) (auto simp: bit_simps)
  show "(f AND NOT RT_TIMER_FLAG_ACTIVATED) AND RT_TIMER_FLAG_PERIODIC = 0" if "f AND RT_TIMER_FLAG_PERIODIC = 0"
  proof -
    have "(f AND NOT RT_TIMER_FLAG_ACTIVATED) AND RT_TIMER_FLAG_PERIODIC = (f AND RT_TIMER_FLAG_PERIODIC) AND NOT RT_TIMER_FLAG_ACTIVATED"
      by (simp only: ac_simps)
    then show ?thesis using that by simp
  qed
qed

definition woken :: "u32 \<Rightarrow> kernel \<Rightarrow> kernel" where
  "woken t k = inserted t (timer_off t (on_links (rt_list_remove (Tlist t)) k))"

lemma timer_off_flag: "timer_flag (Thread_timer t) (timer_off t k) = timer_flag (Thread_timer t) k AND NOT RT_TIMER_FLAG_ACTIVATED"
proof (cases "timer_on t k")
  case False
  let ?f = "timer_flag (Thread_timer t) k"
  have "?f = (?f AND RT_TIMER_FLAG_ACTIVATED) OR (?f AND NOT RT_TIMER_FLAG_ACTIVATED)" by (simp flip: bit.conj_disj_distrib)
  then show ?thesis using False by (simp add: timer_off_def timer_on_def)
qed (simp add: timer_off_def timer_flag_def kernel_updates)

lemma woken_fields [simp]:
  "threads (woken t k) = (threads k)(t := set_stat RT_THREAD_READY (threads k t))" "timers (woken t k) = timers k"
  "sem_value (woken t k) = sem_value k" "mutexes (woken t k) = mutexes k"
  "rt_tick (woken t k) = rt_tick k" "rt_interrupt_nest (woken t k) = rt_interrupt_nest k"
  "rt_scheduler_lock_nest (woken t k) = rt_scheduler_lock_nest k" "rt_current_thread (woken t k) = rt_current_thread k"
  "switches (woken t k) = switches k"
  "ob \<noteq> Obj_timer (Thread_timer t) \<Longrightarrow> objects (woken t k) ob = objects k ob"
  "obj_type (objects (woken t k) ob) = obj_type (objects k ob)"
  "timer_flag (Thread_timer t) (woken t k) = timer_flag (Thread_timer t) k AND NOT RT_TIMER_FLAG_ACTIVATED"
  using timer_off_flag [of t "on_links (rt_list_remove (Tlist t)) k"]
  by (simp_all add: woken_def on_links_def timer_flag_def)

lemma thread_resume:
  assumes w: "kwf T I k L" and t: "t \<in> T" "thread_stat t k = RT_THREAD_SUSPEND"
  shows "rt_thread_resume t k = Some (RT_EOK, woken t k)" and "kwf T I (woken t k) (made_ready t (prio t k) L)"
proof -
  note ok = thread_parts [OF kwf_parts(3) [OF w t(1)]]
  let ?k = "on_links (rt_list_remove (Tlist t)) k"
  have "rt_object_get_type (Obj_timer (Thread_timer t)) ?k = RT_Object_Class_Timer"
    using ok(5) by (simp add: rt_object_get_type_def on_links_def)
  then obtain r where r: "rt_timer_stop (Thread_timer t) ?k = Some (r, timer_off t ?k)" using timer_stop by blast
  have m: "own_mask (threads (timer_off t ?k) t)" using ok(2) by (simp add: on_links_def)
  show "rt_thread_resume t k = Some (RT_EOK, woken t k)"
    using t(2) ok(4) r insert_thread [OF ok(3) m] ok(3) by (simp add: rt_thread_resume_def RT_ASSERT_def woken_def)
  have l: "lists_ok T ?k (unlink (Tlist t) L)" by (rule lists_remove [OF kwf_parts(1) [OF w]]) simp
  have "timer_on t ?k \<longleftrightarrow> Row (Thread_timer t) \<in> set (unlink (Tlist t) L Timer_head)"
    using ok(9) by (simp add: timer_on_def timer_flag_def on_links_def)
  then have l': "lists_ok T (timer_off t ?k) (detached t L)" using timer_off_ok [OF l] by (simp add: detached_def)
  show "kwf T I (woken t k) (made_ready t (prio t k) L)"
  proof (rule made_ready_ok [OF w t l'])
    show "\<not> timer_on t (woken t k)" by (simp add: timer_on_def flag_off)
    show "timer_flag (Thread_timer t) (woken t k) AND RT_TIMER_FLAG_PERIODIC = 0"
      using ok(1) by (simp add: statics_ok_def flag_off)
    show "thread_error (threads k t) \<in> {RT_EOK, - RT_ERROR, - RT_ETIMEOUT}" using kwf_parts(3) [OF w t(1)] by (simp add: thread_ok_def)
    show "own_mask (threads k t)" by (rule ok(2))
    show "threads (woken t k) = (threads k)(t := set_stat RT_THREAD_READY (threads k t))" by simp
  qed (simp_all add: woken_def [symmetric] on_links_def, simp_all add: woken_def on_links_def)
qed

end
