(* ===== verification/TimerInv.thy ===== *)
theory TimerInv imports ThreadInv begin

text \<open>
  Starting the timer of a suspended thread: the timer list stays ordered by the time that is left. The order
  holds for times below half the range of the tick, which is what \<open>rt_timer_start\<close> asserts.
\<close>

text \<open>The ticks that are left until a timer expires.\<close>

definition due :: "kernel \<Rightarrow> node \<Rightarrow> nat" where
  "due k n = (case timer_of n of Some tm \<Rightarrow> unat (timeout_tick (timers k tm) - rt_tick k) | None \<Rightarrow> 0)"

definition timers_ok :: "kernel \<Rightarrow> lists \<Rightarrow> bool" where
  "timers_ok k L \<longleftrightarrow> sorted (map (due k) (L Timer_head)) \<and> (\<forall>n \<in> set (L Timer_head). due k n < unat HALF_TICKS)"

lemma sub_below_half:
  fixes a b :: u32
  assumes "unat a < unat HALF_TICKS" and "unat b < unat HALF_TICKS"
  shows "a \<noteq> b \<and> a - b < HALF_TICKS \<longleftrightarrow> unat b < unat a"
proof -
  have h: "unat HALF_TICKS = 2147483647" by (simp add: HALF_TICKS_def)
  have "a - b < HALF_TICKS \<longleftrightarrow> unat b \<le> unat a"
    using assms unfolding word_less_nat_alt h by (simp add: unat_sub_if') arith
  then show ?thesis by (auto simp: order_le_less word_unat_eq_iff)
qed

lemma later_due:
  assumes "due k n < unat HALF_TICKS" and "unat i < unat HALF_TICKS" and "timer_of n = Some tm"
  shows "later (rt_tick k + i) k n \<longleftrightarrow> unat i < due k n"
proof -
  have "timeout_tick (timers k tm) - (rt_tick k + i) = timeout_tick (timers k tm) - rt_tick k - i" by simp
  moreover have "timeout_tick (timers k tm) = rt_tick k + i \<longleftrightarrow> timeout_tick (timers k tm) - rt_tick k = i"
    by (auto simp: algebra_simps)
  ultimately show ?thesis
    using sub_below_half [of "timeout_tick (timers k tm) - rt_tick k" i] assms(1,2)
    unfolding later_def due_def assms(3) option.case by metis
qed

text \<open>Insertion behind the timers that are due no later.\<close>

definition insert_due :: "kernel \<Rightarrow> nat \<Rightarrow> node \<Rightarrow> node list \<Rightarrow> node list" where
  "insert_due k d n xs = takeWhile (\<lambda>m. due k m \<le> d) xs @ n # dropWhile (\<lambda>m. due k m \<le> d) xs"

lemma insert_due_set [simp]: "set (insert_due k d n xs) = insert n (set xs)"
  unfolding insert_due_def by (metis Un_insert_right list.simps(15) set_append takeWhile_dropWhile_id)

lemma insert_due_sorted:
  assumes "sorted (map f xs)" and "f n = (d :: nat)" and "\<forall>m \<in> set xs. f m = due k m"
  shows "sorted (map f (insert_due k d n xs))"
  using assms
proof (induction xs)
  case (Cons x xs)
  then have IH: "sorted (map f (insert_due k d n xs))" by simp
  show ?case
  proof (cases "due k x \<le> d")
    case True
    then have e: "insert_due k d n (x # xs) = x # insert_due k d n xs" by (simp add: insert_due_def)
    show ?thesis unfolding e using IH True Cons.prems by (auto simp: )
  next
    case False
    then show ?thesis using Cons.prems by (auto simp: insert_due_def)
  qed
qed (simp add: insert_due_def)

subsection \<open>\<open>rt_timer_start\<close>\<close>

definition timer_started :: "u32 \<Rightarrow> node \<Rightarrow> kernel \<Rightarrow> kernel" where
  "timer_started t row_head k =
     (let tm = Thread_timer t;
          k = remove_timer tm k;
          k = upd_timer tm (\<lambda>r. r\<lparr>timeout_tick := rt_tick k + timer_init_tick r\<rparr>) k;
          k = k\<lparr>random_nr := random_nr k + 1\<rparr>;
          k = on_links (rt_list_insert_after row_head (Row tm)) k
      in set_timer_flag tm (timer_flag tm k AND NOT RT_TIMER_FLAG_ACTIVATED OR RT_TIMER_FLAG_ACTIVATED) k)"

lemma timer_started_fields [simp]:
  "threads (timer_started t n k) = threads k"
  "sem_value (timer_started t n k) = sem_value k" "mutexes (timer_started t n k) = mutexes k"
  "rt_tick (timer_started t n k) = rt_tick k" "rt_interrupt_nest (timer_started t n k) = rt_interrupt_nest k"
  "rt_scheduler_lock_nest (timer_started t n k) = rt_scheduler_lock_nest k" "rt_current_thread (timer_started t n k) = rt_current_thread k"
  "switches (timer_started t n k) = switches k" "rt_thread_ready_priority_group (timer_started t n k) = rt_thread_ready_priority_group k"
  "ob \<noteq> Obj_timer (Thread_timer t) \<Longrightarrow> objects (timer_started t n k) ob = objects k ob"
  "obj_type (objects (timer_started t n k) ob) = obj_type (objects k ob)"
  "timer_flag (Thread_timer t) (timer_started t n k) = timer_flag (Thread_timer t) k AND NOT RT_TIMER_FLAG_ACTIVATED OR RT_TIMER_FLAG_ACTIVATED"
  "timers (timer_started t n k)
     = (timers k)(Thread_timer t := (timers k (Thread_timer t))\<lparr>timeout_tick := rt_tick k + timer_init_tick (timers k (Thread_timer t))\<rparr>)"
  by (simp_all add: timer_started_def kernel_updates timer_flag_def Let_def)

lemma flag_on: "f AND NOT RT_TIMER_FLAG_ACTIVATED OR RT_TIMER_FLAG_ACTIVATED = f OR RT_TIMER_FLAG_ACTIVATED"
  "(f OR RT_TIMER_FLAG_ACTIVATED) AND RT_TIMER_FLAG_ACTIVATED \<noteq> 0"
  "f AND RT_TIMER_FLAG_PERIODIC = 0 \<Longrightarrow> (f OR RT_TIMER_FLAG_ACTIVATED) AND RT_TIMER_FLAG_PERIODIC = 0"
proof -
  show "f AND NOT RT_TIMER_FLAG_ACTIVATED OR RT_TIMER_FLAG_ACTIVATED = f OR RT_TIMER_FLAG_ACTIVATED"
    by (rule bit_eqI) (auto simp: bit_simps)
  show "(f OR RT_TIMER_FLAG_ACTIVATED) AND RT_TIMER_FLAG_ACTIVATED \<noteq> 0"
    by (simp add: bit.conj_disj_distrib2 RT_TIMER_FLAG_ACTIVATED_def)
  show "f AND RT_TIMER_FLAG_PERIODIC = 0 \<Longrightarrow> (f OR RT_TIMER_FLAG_ACTIVATED) AND RT_TIMER_FLAG_PERIODIC = 0"
    by (simp add: bit.conj_disj_distrib2 RT_TIMER_FLAG_ACTIVATED_def RT_TIMER_FLAG_PERIODIC_def)
qed

text \<open>The timer list afterwards.\<close>

definition with_timer :: "u32 \<Rightarrow> kernel \<Rightarrow> lists \<Rightarrow> lists" where
  "with_timer t k L =
     (let L = unlink (Row (Thread_timer t)) L
      in L(Timer_head := insert_due k (unat (timer_init_tick (timers k (Thread_timer t)))) (Row (Thread_timer t)) (L Timer_head)))"

lemma timer_rows: "lists_ok T k L \<Longrightarrow> n \<in> set (L Timer_head) \<Longrightarrow> \<exists>t \<in> T. n = Row (Thread_timer t)"
  by (drule (1) lists_fits) (cases n; simp; case_tac x2; simp)

lemma timer_start:
  assumes w: "kwf T I k L" and t: "t \<in> T" "thread_stat t k = RT_THREAD_SUSPEND" and tm: "timers_ok k L"
    and i: "timer_init_tick (timers k (Thread_timer t)) < HALF_TICKS"
  shows "\<exists>n. rt_timer_start (Thread_timer t) k = Some (RT_EOK, timer_started t n k) \<and> kwf T I (timer_started t n k) (with_timer t k L) \<and>
     timers_ok (timer_started t n k) (with_timer t k L)"
proof -
  let ?tm = "Thread_timer t" and ?i = "timer_init_tick (timers k (Thread_timer t))"
  define L1 where "L1 = unlink (Row ?tm) L"
  define k3 where "k3 = upd_timer ?tm (\<lambda>r. r\<lparr>timeout_tick := rt_tick k + timer_init_tick r\<rparr>)
    (set_timer_flag ?tm (timer_flag ?tm k AND NOT RT_TIMER_FLAG_ACTIVATED) (remove_timer ?tm k))"
  note ok = thread_parts [OF kwf_parts(3) [OF w t(1)]]
  have l: "lists_ok T k3 L1" using lists_remove [OF kwf_parts(1) [OF w], of "Row ?tm"]
    by (simp add: lists_ok_def k3_def kernel_updates L1_def)
  define xs where "xs = L1 Timer_head"
  have xs: "\<exists>tm. timer_of n = Some tm \<and> tm \<noteq> ?tm" "due k n < unat HALF_TICKS" "due k3 n = due k n" if "n \<in> set xs" for n
  proof -
    have n: "n \<in> set (L Timer_head)" "n \<noteq> Row ?tm" using that by (simp_all add: xs_def L1_def)
    then obtain u where u: "n = Row (Thread_timer u)" using timer_rows [OF kwf_parts(1) [OF w]] by blast
    then show "\<exists>tm. timer_of n = Some tm \<and> tm \<noteq> ?tm" using n by simp
    show "due k n < unat HALF_TICKS" using tm n(1) by (simp add: timers_ok_def)
    show "due k3 n = due k n" using u n by (simp add: due_def k3_def kernel_updates)
  qed
  have t3: "timeout_tick (timers k3 ?tm) = rt_tick k3 + ?i" by (simp add: k3_def kernel_updates)
  have later: "later (rt_tick k3 + ?i) k3 n \<longleftrightarrow> unat ?i < due k n" if "n \<in> set xs" for n
    using xs [OF that] later_due [of k3 n ?i] i by (auto simp: word_less_nat_alt)
  define us vs where "us = takeWhile (\<lambda>m. due k m \<le> unat ?i) xs" and "vs = dropWhile (\<lambda>m. due k m \<le> unat ?i) xs"
  have "takeWhile (\<lambda>n. \<not> later (rt_tick k3 + ?i) k3 n) xs = us"
    unfolding us_def using later by (intro takeWhile_cong) auto
  moreover have "\<forall>n \<in> set xs. timer_of n \<noteq> None" using xs by fastforce
  moreover have "ring (klinks k3) Timer_head ([] @ xs)" using lists_ring [OF l, of Timer_head] by (simp add: xs_def)
  ultimately have pos: "timer_pos (rt_tick k3 + ?i) k3 Timer_head = Some (last (Timer_head # us))"
    using timer_pos_at [of k3 "[]" xs "rt_tick k3 + ?i"] by simp
  let ?k = "timer_started t (last (Timer_head # us)) k" and ?L = "with_timer t k L"
  have L: "?L = L1(Timer_head := us @ Row ?tm # vs)"
    by (simp add: with_timer_def insert_due_def Let_def us_def vs_def xs_def L1_def)
  have "rt_timer_start ?tm k = Some (RT_EOK, ?k)"
    using ok(5) i pos unfolding rt_timer_start_def timer_started_def Let_def
    by (simp add: RT_ASSERT_def k3_def kernel_updates timer_flag_def rt_tick_get_def t3)
  moreover have mem: "x \<in> set (?L h) \<longleftrightarrow> (if x = Row ?tm then h = Timer_head else x \<in> set (L h))" for x h
    using row_home [OF kwf_parts(1) [OF w]] by (auto simp: with_timer_def Let_def)
  moreover have "kwf T I ?k ?L"
  proof (rule kwf_change [OF w])
    have "lists_ok T (on_links (rt_list_insert_after (last (Timer_head # us)) (Row ?tm)) k3) ?L"
      unfolding L using t(1) by (intro lists_insert_after [OF l]) (auto simp: L1_def us_def vs_def xs_def)
    then show "lists_ok T ?k ?L" by (rule lists_cong [THEN iffD1, rotated]) (simp add: timer_started_def k3_def kernel_updates Let_def)
    have "?L (Ready p) = L (Ready p)" for p
      using row_home [OF kwf_parts(1) [OF w], of ?tm "Ready p"] by (auto simp: with_timer_def Let_def unlink_def intro!: removeAll_id)
    then show "group_ok ?k ?L" using kwf_parts(2) [OF w] by (simp add: group_ok_def)
    have "timer_on t ?k" by (simp add: timer_on_def flag_on RT_TIMER_FLAG_ACTIVATED_def)
    then show "thread_ok ?k ?L t"
      using kwf_parts(3) [OF w t(1)] t(2)
      by (simp add: thread_ok_def statics_ok_def mem rt_object_get_type_def thread_stat_def flag_on)
    show "\<forall>u. u \<noteq> t \<longrightarrow> same_thread k ?k u \<and> same_lists L ?L u" by (simp add: same_thread_def same_lists_def mem)
    show "\<forall>i \<in> I. ipc_ok T ?k ?L i" by (rule ipcs_frame [OF w]) (simp_all add: with_timer_def Let_def)
  qed
  moreover have "timers_ok ?k ?L"
  proof -
    have d: "due ?k n = due k n" if "n \<in> set xs" for n
      using xs(1) [OF that] by (auto simp: due_def)
    have dn: "due ?k (Row ?tm) = unat ?i" by (simp add: due_def)
    have "sorted (map (due k) xs)"
      using tm by (auto simp: timers_ok_def xs_def L1_def unlink_def removeAll_filter_not_eq intro: sorted_filter)
    then have "sorted (map (due ?k) xs)" using d by (simp cong: map_cong)
    then have "sorted (map (due ?k) (insert_due k (unat ?i) (Row ?tm) xs))" using d dn by (intro insert_due_sorted) auto
    moreover have "?L Timer_head = insert_due k (unat ?i) (Row ?tm) xs" by (simp add: with_timer_def Let_def xs_def L1_def)
    ultimately show ?thesis using d dn xs(2) i by (auto simp: timers_ok_def word_less_nat_alt)
  qed
  ultimately show ?thesis by blast
qed

end
