(* ===== verification/TickInv.thy ===== *)
theory TickInv imports TimerInv begin

text \<open>
  The tick: timers that have expired are taken from the front of the timer list, and their threads are made
  ready, in that order.
\<close>

lemma switch_to_fields [simp]:
  "klinks (switch_to u p k) = klinks k" "threads (switch_to u p k) = threads k" "timers (switch_to u p k) = timers k"
  "objects (switch_to u p k) = objects k" "sem_value (switch_to u p k) = sem_value k" "mutexes (switch_to u p k) = mutexes k"
  "rt_tick (switch_to u p k) = rt_tick k" "rt_interrupt_nest (switch_to u p k) = rt_interrupt_nest k"
  "rt_scheduler_lock_nest (switch_to u p k) = rt_scheduler_lock_nest k"
  "rt_thread_ready_priority_group (switch_to u p k) = rt_thread_ready_priority_group k"
  "rt_current_thread (switch_to u p k) = u"
  by (simp_all add: switch_to_def)

text \<open>\<open>kwf\<close> does not look at the running thread, the trace or the tick.\<close>

lemma kwf_cong:
  assumes "kwf T I k L" and "klinks k' = klinks k" "rt_thread_ready_priority_group k' = rt_thread_ready_priority_group k"
    "threads k' = threads k" "timers k' = timers k" "objects k' = objects k" "sem_value k' = sem_value k" "mutexes k' = mutexes k"
  shows "kwf T I k' L"
  unfolding kwf_def
proof (intro conjI ballI)
  show "lists_ok T k' L" "group_ok k' L" using kwf_parts(1,2) [OF assms(1)] assms(2,3) by (simp_all add: lists_ok_def group_ok_def)
  show "thread_ok k' L t" if "t \<in> T" for t
    using assms(4-6) by (intro thread_frame [OF kwf_parts(3) [OF assms(1) that]]) (simp_all add: same_thread_def same_lists_def)
  show "ipc_ok T k' L i" if "i \<in> I" for i
    using assms(6-8) by (intro ipc_frame [OF kwf_parts(4) [OF assms(1) that]]) simp_all
qed

lemma in_ready_list:
  assumes "kwf T I k L" and "Tlist t \<in> set (L (Ready p))"
  shows "t \<in> T" and "thread_stat t k = RT_THREAD_READY" and "prio t k = p"
proof -
  show t: "t \<in> T" using lists_fits [OF kwf_parts(1) [OF assms(1)] assms(2)] by simp
  note ok = kwf_parts(3) [OF assms(1) t]
  show r: "thread_stat t k = RT_THREAD_READY" using ok assms(2) by (auto simp: thread_ok_def)
  show "prio t k = p" using thread_parts(7) [OF ok r] assms(2) by auto
qed

lemma ready_some:
  assumes "kwf T I k L" and "t \<in> T" and "thread_stat t k = RT_THREAD_READY"
  shows "some_ready L"
proof -
  note ok = thread_parts [OF kwf_parts(3) [OF assms(1,2)]]
  have "Tlist t \<in> set (L (Ready (prio t k)))" using ok(7) [OF assms(3)] by blast
  then have "L (Ready (prio t k)) \<noteq> []" by auto
  moreover have "prio t k < 32" using ok(2) by (simp add: own_mask_def)
  ultimately show ?thesis unfolding some_ready_def by blast
qed

definition runs :: "u32 set \<Rightarrow> kernel \<Rightarrow> bool" where
  "runs T k \<longleftrightarrow> rt_current_thread k \<in> T \<and> thread_stat (rt_current_thread k) k = RT_THREAD_READY"

text \<open>After \<open>rt_schedule\<close> the running thread is the one selected, which is ready.\<close>

lemma schedule_ok:
  assumes w: "kwf T I k L" and r: "some_ready L" and n: "rt_scheduler_lock_nest k = 0"
  shows "rt_schedule k = Some (switch_to (top_thread L) (of_nat (top_priority L)) k)"
    and "kwf T I (switch_to (top_thread L) p k) L" and "runs T (switch_to (top_thread L) p k)"
proof -
  note s = schedule_top [OF kwf_parts(1,2) [OF w] r n]
  show "rt_schedule k = Some (switch_to (top_thread L) (of_nat (top_priority L)) k)" by (rule s)
  show "kwf T I (switch_to (top_thread L) p k) L" by (rule kwf_cong [OF w]) simp_all
  show "runs T (switch_to (top_thread L) p k)" using in_ready_list [OF w s(2)] by (simp add: runs_def thread_stat_def)
qed

subsection \<open>One timer\<close>

definition timed_out :: "u32 \<Rightarrow> kernel \<Rightarrow> kernel" where
  "timed_out t k = inserted t (on_links (rt_list_remove (Tlist t)) (upd_thread t (\<lambda>r. r\<lparr>thread_error := - RT_ETIMEOUT\<rparr>) (remove_timer (Thread_timer t) k)))"

definition fired :: "u32 \<Rightarrow> lists \<Rightarrow> kernel \<Rightarrow> kernel" where
  "fired t L k =
     (let k = switch_to (top_thread L) (of_nat (top_priority L)) (timed_out t k)
      in set_timer_flag (Thread_timer t) (timer_flag (Thread_timer t) k AND NOT RT_TIMER_FLAG_ACTIVATED) k)"

lemma timed_out_fields [simp]:
  "threads (timed_out t k) = (threads k)(t := set_stat RT_THREAD_READY ((threads k t)\<lparr>thread_error := - RT_ETIMEOUT\<rparr>))"
  "timers (timed_out t k) = timers k" "objects (timed_out t k) = objects k"
  "sem_value (timed_out t k) = sem_value k" "mutexes (timed_out t k) = mutexes k"
  "rt_tick (timed_out t k) = rt_tick k" "rt_interrupt_nest (timed_out t k) = rt_interrupt_nest k"
  "rt_scheduler_lock_nest (timed_out t k) = rt_scheduler_lock_nest k" "rt_current_thread (timed_out t k) = rt_current_thread k"
  by (simp_all add: timed_out_def kernel_updates)

lemma fired_fields [simp]:
  "threads (fired t L k) = (threads k)(t := set_stat RT_THREAD_READY ((threads k t)\<lparr>thread_error := - RT_ETIMEOUT\<rparr>))"
  "timers (fired t L k) = timers k" "sem_value (fired t L k) = sem_value k" "mutexes (fired t L k) = mutexes k"
  "rt_tick (fired t L k) = rt_tick k" "rt_interrupt_nest (fired t L k) = rt_interrupt_nest k"
  "rt_scheduler_lock_nest (fired t L k) = rt_scheduler_lock_nest k" "rt_current_thread (fired t L k) = top_thread L"
  "klinks (fired t L k) = klinks (timed_out t k)"
  "rt_thread_ready_priority_group (fired t L k) = rt_thread_ready_priority_group (timed_out t k)"
  "ob \<noteq> Obj_timer (Thread_timer t) \<Longrightarrow> objects (fired t L k) ob = objects k ob"
  "obj_type (objects (fired t L k) ob) = obj_type (objects k ob)"
  "timer_flag (Thread_timer t) (fired t L k) = timer_flag (Thread_timer t) k AND NOT RT_TIMER_FLAG_ACTIVATED"
  by (simp_all add: fired_def kernel_updates timer_flag_def Let_def)

lemma fire_timer:
  assumes w: "kwf T I k L" and row: "Row (Thread_timer t) \<in> set (L Timer_head)" and n: "rt_scheduler_lock_nest k = 0"
  defines "L' \<equiv> made_ready t (prio t k) L"
  shows "t \<in> T" and "thread_stat t k = RT_THREAD_SUSPEND"
    and "rt_thread_timeout t (remove_timer (Thread_timer t) k) = Some (switch_to (top_thread L') (of_nat (top_priority L')) (timed_out t k))"
    and "kwf T I (fired t L' k) L'" and "runs T (fired t L' k)"
proof -
  show t: "t \<in> T" using timer_rows [OF kwf_parts(1) [OF w] row] by auto
  note okt = kwf_parts(3) [OF w t]
  note ok = thread_parts [OF okt]
  show st: "thread_stat t k = RT_THREAD_SUSPEND" using okt row by (auto simp: thread_ok_def)
  let ?k1 = "remove_timer (Thread_timer t) k"
  let ?k2 = "on_links (rt_list_remove (Tlist t)) (upd_thread t (\<lambda>r. r\<lparr>thread_error := - RT_ETIMEOUT\<rparr>) ?k1)"
  have "lists_ok T ?k1 (unlink (Row (Thread_timer t)) L)"
    unfolding remove_timer_def by (rule lists_remove [OF kwf_parts(1) [OF w]]) simp
  then have "lists_ok T (upd_thread t (\<lambda>r. r\<lparr>thread_error := - RT_ETIMEOUT\<rparr>) ?k1) (unlink (Row (Thread_timer t)) L)"
    by (simp add: lists_ok_def kernel_updates)
  from lists_remove [OF this, of "Tlist t"]
  have l2: "lists_ok T ?k2 (detached t L)" by (simp add: detached_def unlink_commute)
  have m: "own_mask (threads ?k2 t)" using ok(2) by (simp add: kernel_updates own_mask_def)
  have un: "\<forall>p. Tlist t \<notin> set (L (Ready p))" using okt st by (simp add: thread_ok_def)
  have p: "prio t ?k2 = prio t k" by (simp add: kernel_updates)
  have free: "\<forall>j. Tlist t \<notin> set (detached t L j)" by (simp add: detached_set)
  have g2: "group_ok ?k2 (detached t L)"
    using kwf_parts(2) [OF w] detached_ready [OF kwf_parts(1) [OF w] un] by (simp add: group_ok_def kernel_updates)
  have L': "L' = (detached t L)(Ready (prio t ?k2) := detached t L (Ready (prio t ?k2)) @ [Tlist t])"
    by (simp add: L'_def made_ready_def kernel_updates)
  note i = inserted_ok [OF l2 t m free, folded timed_out_def L']
  have r: "some_ready L'" using ok(2) by (auto simp: L'_def made_ready_def some_ready_def own_mask_def intro!: exI [of _ "prio t k"])
  have n': "rt_scheduler_lock_nest (timed_out t k) = 0" using n by simp
  have "rt_thread_timeout t ?k1 = rt_schedule (timed_out t k)"
    using ok(3,4) st insert_thread [OF ok(3) m]
    by (simp add: rt_thread_timeout_def RT_ASSERT_def timed_out_def thread_stat_def rt_object_get_type_def kernel_updates)
  then show "rt_thread_timeout t ?k1 = Some (switch_to (top_thread L') (of_nat (top_priority L')) (timed_out t k))"
    using schedule_top(1) [OF i(1) i(2) [OF g2] r n'] by simp
  show w': "kwf T I (fired t L' k) L'"
    unfolding L'_def
  proof (rule made_ready_ok [OF w t st l2])
    show "\<not> timer_on t (fired t (made_ready t (prio t k) L) k)" by (simp add: timer_on_def flag_off)
    show "timer_flag (Thread_timer t) (fired t (made_ready t (prio t k) L) k) AND RT_TIMER_FLAG_PERIODIC = 0"
      using ok(1) by (simp add: statics_ok_def flag_off)
    show "own_mask ((threads k t)\<lparr>thread_error := - RT_ETIMEOUT\<rparr>)" using ok(2) by (simp add: own_mask_def)
    show "thread_error ((threads k t)\<lparr>thread_error := - RT_ETIMEOUT\<rparr>) \<in> {RT_EOK, - RT_ERROR, - RT_ETIMEOUT}" by (simp add: RT_ETIMEOUT_def RT_EINTR_def)
  qed (simp_all add: timed_out_def, simp_all add: kernel_updates)
  show "runs T (fired t L' k)"
    using in_ready_list [OF w' schedule_top(2) [OF kwf_parts(1,2) [OF w'] r]] n by (simp add: runs_def)
qed

subsection \<open>The loop\<close>

definition expired :: "kernel \<Rightarrow> node \<Rightarrow> bool" where
  "expired k n \<longleftrightarrow> (case timer_of n of Some tm \<Rightarrow> rt_tick k - timeout_tick (timers k tm) < HALF_TICKS | None \<Rightarrow> False)"

text \<open>The threads of the timers \<open>ns\<close> are made ready one after the other.\<close>

fun wake_all :: "(u32 \<Rightarrow> nat) \<Rightarrow> node list \<Rightarrow> lists \<Rightarrow> lists" where
  "wake_all pr (Row (Thread_timer t) # ns) L = wake_all pr ns (made_ready t (pr t) L)"
| "wake_all pr _ L = L"

definition time_out_rec :: "rt_thread \<Rightarrow> rt_thread" where
  "time_out_rec r = set_stat RT_THREAD_READY (r\<lparr>thread_error := - RT_ETIMEOUT\<rparr>)"

definition timers_fired :: "node list \<Rightarrow> kernel \<Rightarrow> kernel \<Rightarrow> bool" where
  "timers_fired ns k k' \<longleftrightarrow> timers k' = timers k \<and> sem_value k' = sem_value k \<and> mutexes k' = mutexes k \<and> rt_tick k' = rt_tick k \<and>
     rt_interrupt_nest k' = rt_interrupt_nest k \<and> rt_scheduler_lock_nest k' = rt_scheduler_lock_nest k \<and>
     threads k' = (\<lambda>t. if Row (Thread_timer t) \<in> set ns then time_out_rec (threads k t) else threads k t)"

lemma made_ready_timers:
  assumes w: "lists_ok T k L" and "L Timer_head = Row (Thread_timer t) # ns"
  shows "made_ready t p L Timer_head = ns"
proof -
  have "distinct (L Timer_head)" by (rule rings_distinct [OF lists_rings [OF w]])
  then have "Row (Thread_timer t) \<notin> set ns" using assms(2) by simp
  moreover have "Tlist t \<notin> set (L Timer_head)" using timer_rows [OF w] by fastforce
  ultimately show ?thesis using assms(2) by (simp add: made_ready_def detached_def unlink_def)
qed

lemma timer_check:
  assumes "kwf T I k L" and "rt_scheduler_lock_nest k = 0" and "L Timer_head = ns"
  shows "\<exists>k'. timer_check_loop (call_timeout user) (rt_tick k) k = Some k' \<and>
     kwf T I k' (wake_all (\<lambda>t. prio t k) (takeWhile (expired k) ns) L) \<and> timers_fired (takeWhile (expired k) ns) k k' \<and>
     (if takeWhile (expired k) ns = [] then k' = k else runs T k')"
  using assms
proof (induction ns arbitrary: k L)
  case Nil
  have "rt_list_isempty Timer_head (klinks k)" using lists_isempty [OF kwf_parts(1) [OF Nil(1)]] Nil(3) by simp
  then show ?case using Nil(1) by (simp add: timer_check_loop.simps timers_fired_def)
next
  case (Cons n ns)
  note w = Cons.prems(1) and l = kwf_parts(1) [OF Cons.prems(1)]
  have row: "n \<in> set (L Timer_head)" using Cons.prems(3) by simp
  then obtain t where t: "n = Row (Thread_timer t)" using timer_rows [OF l] by blast
  have ne: "\<not> rt_list_isempty Timer_head (klinks k)" using lists_isempty [OF l] Cons.prems(3) by simp
  have first: "timer_of (nxt (klinks k) Timer_head) = Some (Thread_timer t)"
    using lists_first [OF l, of Timer_head] Cons.prems(3) t by simp
  show ?case
  proof (cases "expired k n")
    case False
    then have "timer_check_loop (call_timeout user) (rt_tick k) k = Some k"
      using ne first by (subst timer_check_loop.simps) (simp add: expired_def t)
    then show ?thesis using False w by (simp add: timers_fired_def)
  next
    case True
    define L1 where "L1 = made_ready t (prio t k) L"
    let ?k1 = "switch_to (top_thread L1) (of_nat (top_priority L1)) (timed_out t k)" and ?k2 = "fired t L1 k"
    note f = fire_timer [OF w row [unfolded t] Cons.prems(2), folded L1_def]
    have st: "statics_ok k t" using thread_parts(1) [OF kwf_parts(3) [OF w f(1)]] .
    have c: "call_timeout user (timeout_func (timers (remove_timer (Thread_timer t) k) (Thread_timer t)))
        (timer_parameter (timers (remove_timer (Thread_timer t) k) (Thread_timer t))) (remove_timer (Thread_timer t) k) = Some ?k1"
      using st f(3) by (simp add: statics_ok_def kernel_updates)
    have per: "timer_flag (Thread_timer t) ?k1 AND RT_TIMER_FLAG_PERIODIC = 0"
      using st by (simp add: statics_ok_def timer_flag_def)
    have "timer_check_loop (call_timeout user) (rt_tick k) k = timer_check_loop (call_timeout user) (rt_tick ?k2) ?k2"
      using ne first True c per
      by (subst timer_check_loop.simps) (simp add: expired_def t fired_def [symmetric] rt_tick_get_def, simp add: fired_def Let_def kernel_updates)
    moreover have "L1 Timer_head = ns" unfolding L1_def using made_ready_timers [OF l] Cons.prems(3) t by blast
    moreover have "rt_scheduler_lock_nest ?k2 = 0" using Cons.prems(2) by simp
    ultimately obtain k' where k': "timer_check_loop (call_timeout user) (rt_tick k) k = Some k'"
      "kwf T I k' (wake_all (\<lambda>t. prio t ?k2) (takeWhile (expired ?k2) ns) L1)" "timers_fired (takeWhile (expired ?k2) ns) ?k2 k'"
      "if takeWhile (expired ?k2) ns = [] then k' = ?k2 else runs T k'"
      using Cons.IH [OF f(4)] by auto
    have e: "expired ?k2 = expired k" by (simp add: expired_def fun_eq_iff split: option.split)
    have p: "(\<lambda>t. prio t ?k2) = (\<lambda>t. prio t k)" by (simp add: fun_eq_iff)
    have "Row (Thread_timer t) \<notin> set ns"
      using rings_distinct [OF lists_rings [OF l], of Timer_head] Cons.prems(3) t by simp
    then have nt: "Row (Thread_timer t) \<notin> set (takeWhile (expired k) ns)" by (meson set_takeWhileD)
    have "timers_fired (takeWhile (expired k) (n # ns)) k k'"
      using k'(3) True nt unfolding timers_fired_def e by (auto simp: t time_out_rec_def fun_eq_iff)
    moreover have "runs T k'" using k'(4) f(5) by (auto split: if_splits)
    moreover have "kwf T I k' (wake_all (\<lambda>t. prio t k) (takeWhile (expired k) ns) L1)" using k'(2) unfolding e p .
    ultimately show ?thesis using k'(1) True by (simp add: t L1_def)
  qed
qed

lemma wake_all_timers:
  assumes "distinct ns" and "\<forall>n \<in> set ns. \<exists>t. n = Row (Thread_timer t)" and "L Timer_head = ns @ ms" and "set ms \<inter> set ns = {}"
    and "\<forall>n \<in> set ms. \<exists>t. n = Row (Thread_timer t)"
  shows "wake_all pr ns L Timer_head = ms"
  using assms
proof (induction ns arbitrary: L)
  case (Cons n ns)
  then obtain t where t: "n = Row (Thread_timer t)" by auto
  have "Tlist t \<notin> set ms" "Tlist t \<notin> set ns" using Cons.prems by auto
  then have "made_ready t (pr t) L Timer_head = ns @ ms"
    using Cons.prems by (auto simp: made_ready_def detached_def unlink_def t)
  then show ?case using Cons by (simp add: t)
qed simp

subsection \<open>The time slice\<close>

text \<open>The running thread goes to the end of its ready list.\<close>

definition rotated :: "u32 \<Rightarrow> nat \<Rightarrow> lists \<Rightarrow> lists" where
  "rotated t p L = L(Ready p := removeAll (Tlist t) (L (Ready p)) @ [Tlist t])"

lemma ring_alone:
  assumes "ring s h xs" and "n \<in> set xs"
  shows "nxt s n = prv s n \<longleftrightarrow> xs = [n]"
proof -
  obtain us vs where xs: "xs = us @ n # vs" using assms(2) by (metis split_list)
  have d: "distinct (h # us @ n # vs)" using assms(1) xs by (simp add: ring_def)
  have e: "nxt s n = hd (vs @ [h])" "prv s n = last (h # us)" using ring_at [OF assms(1) [unfolded xs]] by simp_all
  have "hd (vs @ [h]) = last (h # us) \<longleftrightarrow> us = [] \<and> vs = []"
    using d by (cases vs; cases us rule: rev_cases) auto
  then show ?thesis using d unfolding e xs by (cases us) auto
qed

definition yielded :: "u32 \<Rightarrow> kernel \<Rightarrow> kernel" where
  "yielded t k = on_links (rt_list_insert_before (Ready (prio t k)) (Tlist t)) (on_links (rt_list_remove (Tlist t)) k)"

lemma yielded_ok:
  assumes w: "kwf T I k L" and t: "t \<in> T" "thread_stat t k = RT_THREAD_READY"
  shows "kwf T I (yielded t k) (rotated t (prio t k) L)"
proof (rule kwf_change [OF w])
  note ok = thread_parts [OF kwf_parts(3) [OF w t(1)]]
  note at = ok(7) [OF t(2)]
  let ?p = "prio t k" and ?k1 = "on_links (rt_list_remove (Tlist t)) k" and ?L1 = "unlink (Tlist t) L"
  have "L h = ?L1 h" if "h \<noteq> Ready ?p" for h using that at by (auto simp: unlink_def intro!: removeAll_id [symmetric])
  then have L: "rotated t ?p L = ?L1(Ready ?p := ?L1 (Ready ?p) @ [Tlist t])" by (auto simp: rotated_def unlink_def fun_eq_iff)
  have "lists_ok T ?k1 ?L1" by (rule lists_remove [OF kwf_parts(1) [OF w]]) simp
  then show "lists_ok T (yielded t k) (rotated t ?p L)"
    unfolding L yielded_def using ok(2) t(1) by (intro lists_insert_last) (auto simp: own_mask_def)
  have mem: "x \<in> set (rotated t ?p L h) \<longleftrightarrow> x \<in> set (L h)" for x h using at by (auto simp: rotated_def)
  have "set (rotated t ?p L (Ready p)) = set (L (Ready p))" for p using mem by blast
  then have "rotated t ?p L (Ready p) \<noteq> [] \<longleftrightarrow> L (Ready p) \<noteq> []" for p by (metis set_empty)
  then show "group_ok (yielded t k) (rotated t ?p L)" using kwf_parts(2) [OF w] by (simp add: group_ok_def yielded_def on_links_def)
  show "\<forall>u. u \<noteq> t \<longrightarrow> same_thread k (yielded t k) u \<and> same_lists L (rotated t ?p L) u"
    by (simp add: same_thread_def same_lists_def mem yielded_def on_links_def)
  show "thread_ok (yielded t k) (rotated t ?p L) t"
    by (rule thread_frame [OF kwf_parts(3) [OF w t(1)]]) (simp_all add: same_thread_def same_lists_def mem yielded_def on_links_def)
  show "\<forall>i \<in> I. ipc_ok T (yielded t k) (rotated t ?p L) i"
    by (rule ipcs_frame [OF w]) (simp_all add: yielded_def on_links_def rotated_def)
qed

lemma rotated_alone: "L (Ready p) = [Tlist t] \<Longrightarrow> rotated t p L = L"
  by (simp add: rotated_def fun_eq_iff)

text \<open>What \<open>rt_thread_yield\<close> leaves alone.\<close>

definition only_moved :: "kernel \<Rightarrow> kernel \<Rightarrow> bool" where
  "only_moved k k' \<longleftrightarrow> threads k' = threads k \<and> timers k' = timers k \<and> objects k' = objects k \<and> sem_value k' = sem_value k \<and>
     mutexes k' = mutexes k \<and> rt_tick k' = rt_tick k \<and> rt_interrupt_nest k' = rt_interrupt_nest k \<and>
     rt_scheduler_lock_nest k' = rt_scheduler_lock_nest k"

lemma thread_yield:
  assumes w: "kwf T I k L" and r: "runs T k" and n: "rt_scheduler_lock_nest k = 0"
  defines "t \<equiv> rt_current_thread k"
  shows "\<exists>k'. rt_thread_yield k = Some (RT_EOK, k') \<and> kwf T I k' (rotated t (prio t k) L) \<and> runs T k' \<and> only_moved k k' \<and>
     rt_current_thread k' = (if L (Ready (prio t k)) = [Tlist t] then t else top_thread (rotated t (prio t k) L))"
proof -
  have t: "t \<in> T" "thread_stat t k = RT_THREAD_READY" using r by (simp_all add: runs_def t_def)
  note ok = thread_parts [OF kwf_parts(3) [OF w t(1)]]
  let ?p = "prio t k" and ?L = "rotated t (prio t k) L"
  have in_p: "Tlist t \<in> set (L (Ready ?p))" using ok(7) [OF t(2)] by blast
  have alone: "nxt (klinks k) (Tlist t) = prv (klinks k) (Tlist t) \<longleftrightarrow> L (Ready ?p) = [Tlist t]"
    using ring_alone [OF lists_ring [OF kwf_parts(1) [OF w]] in_p] by simp
  show ?thesis
  proof (cases "L (Ready ?p) = [Tlist t]")
    case True
    then have "rt_thread_yield k = Some (RT_EOK, k)" using ok(3) alone by (simp add: rt_thread_yield_def t_def)
    then show ?thesis using True w r rotated_alone [of L "prio t k" t] by (simp add: only_moved_def t_def)
  next
    case False
    have w': "kwf T I (yielded t k) ?L" by (rule yielded_ok [OF w t])
    have "?p < 32" using ok(2) by (simp add: own_mask_def)
    then have sr: "some_ready ?L" by (auto simp: some_ready_def rotated_def intro!: exI [of _ ?p])
    have n': "rt_scheduler_lock_nest (yielded t k) = 0" using n by (simp add: yielded_def on_links_def)
    note s = schedule_ok [OF w' sr n']
    let ?k' = "switch_to (top_thread ?L) (of_nat (top_priority ?L)) (yielded t k)"
    have "rt_thread_yield k = Some (RT_EOK, ?k')"
      using ok(3) alone False t(2) s(1) \<open>?p < 32\<close>
      by (simp add: rt_thread_yield_def t_def [symmetric] priority_list_def RT_THREAD_PRIORITY_MAX_def yielded_def on_links_def Let_def)
    moreover have "only_moved k ?k'" by (simp add: only_moved_def yielded_def on_links_def)
    ultimately show ?thesis using s(2,3) False by simp
  qed
qed

subsection \<open>The whole tick\<close>

lemma kwf_upd_thread:
  assumes w: "kwf T I k L" and t: "t \<in> T"
    and f: "stat (f (threads k t)) = stat (threads k t)" "current_priority (f (threads k t)) = current_priority (threads k t)"
      "number_mask (f (threads k t)) = number_mask (threads k t)" "thread_error (f (threads k t)) \<in> {RT_EOK, - RT_ERROR, - RT_ETIMEOUT}"
  shows "kwf T I (upd_thread t f k) L"
proof (rule kwf_change [OF w])
  show "lists_ok T (upd_thread t f k) L" "group_ok (upd_thread t f k) L"
    using kwf_parts(1,2) [OF w] by (simp_all add: lists_ok_def group_ok_def upd_thread_def)
  show "thread_ok (upd_thread t f k) L t"
    using kwf_parts(3) [OF w t] f
    by (auto simp: thread_ok_def statics_ok_def own_mask_def timer_on_def timer_flag_def rt_object_get_type_def thread_stat_def upd_thread_def)
  show "\<forall>u. u \<noteq> t \<longrightarrow> same_thread k (upd_thread t f k) u \<and> same_lists L L u"
    by (simp add: same_thread_def same_lists_def upd_thread_def)
  show "\<forall>i \<in> I. ipc_ok T (upd_thread t f k) L i" by (rule ipcs_frame [OF w]) (simp_all add: upd_thread_def)
qed

lemma one_minus:
  fixes a :: u32
  assumes "unat a < unat HALF_TICKS"
  shows "1 - a < HALF_TICKS \<longleftrightarrow> unat a \<le> 1" and "1 \<le> unat a \<Longrightarrow> unat (a - 1) = unat a - 1"
proof -
  have h: "unat HALF_TICKS = 2147483647" by (simp add: HALF_TICKS_def)
  have e: "unat (1 - a) = (if unat a \<le> unat (1 :: u32) then unat (1 :: u32) - unat a else unat (1 :: u32) + 2 ^ LENGTH(32) - unat a)"
    by (rule unat_sub_if')
  show "1 - a < HALF_TICKS \<longleftrightarrow> unat a \<le> 1"
  proof (cases "unat a \<le> 1")
    case True
    then have "unat (1 - a) \<le> 1" unfolding e by simp
    then show ?thesis using True unfolding word_less_nat_alt h by linarith
  next
    case False
    then have "unat (1 - a) = 4294967297 - unat a" unfolding e by simp
    then show ?thesis using False assms unfolding word_less_nat_alt h by linarith
  qed
  have "unat (a - 1) = (if unat (1 :: u32) \<le> unat a then unat a - unat (1 :: u32) else unat a + 2 ^ LENGTH(32) - unat (1 :: u32))"
    by (rule unat_sub_if')
  then show "1 \<le> unat a \<Longrightarrow> unat (a - 1) = unat a - 1" by simp
qed

lemma tick_due:
  assumes "due k n < unat HALF_TICKS" and "timer_of n = Some tm" and "rt_tick k' = rt_tick k + 1" and "timers k' = timers k"
  shows "expired k' n \<longleftrightarrow> due k n \<le> 1" and "1 \<le> due k n \<Longrightarrow> due k' n = due k n - 1"
proof -
  let ?a = "timeout_tick (timers k tm) - rt_tick k"
  have a: "unat ?a < unat HALF_TICKS" using assms(1,2) by (simp add: due_def)
  have "rt_tick k + 1 - timeout_tick (timers k tm) = 1 - ?a" by simp
  then have "rt_tick k + 1 - timeout_tick (timers k tm) < HALF_TICKS \<longleftrightarrow> unat ?a \<le> 1" using one_minus(1) [OF a] by metis
  then show "expired k' n \<longleftrightarrow> due k n \<le> 1" using assms by (simp add: expired_def due_def)
  have "timeout_tick (timers k tm) - (rt_tick k + 1) = ?a - 1" by simp
  then have "unat (timeout_tick (timers k tm) - (rt_tick k + 1)) = unat ?a - 1" if "1 \<le> unat ?a"
    using one_minus(2) [OF a that] by metis
  then show "due k' n = due k n - 1" if "1 \<le> due k n" using that assms by (simp add: due_def)
qed

definition tick_lists :: "kernel \<Rightarrow> lists \<Rightarrow> lists" where
  "tick_lists k L =
     (let t = rt_current_thread k;
          L = (if remaining_tick (threads k t) = 1 then rotated t (prio t k) L else L)
      in wake_all (\<lambda>t. prio t k) (takeWhile (\<lambda>n. due k n \<le> 1) (L Timer_head)) L)"

lemma rotated_timers [simp]: "rotated t p L Timer_head = L Timer_head"
  by (simp add: rotated_def)

lemma slice_ok:
  assumes w: "kwf T I k L" and r: "runs T k" and n: "rt_scheduler_lock_nest k = 0"
  defines "t \<equiv> rt_current_thread k"
  defines "L' \<equiv> if remaining_tick (threads k t) = 1 then rotated t (prio t k) L else L"
  shows "\<exists>k'. rt_tick_increase user k = rt_timer_check user k' \<and> kwf T I k' L' \<and> runs T k' \<and> rt_tick k' = rt_tick k + 1 \<and> timers k' = timers k \<and>
     sem_value k' = sem_value k \<and> mutexes k' = mutexes k \<and> rt_interrupt_nest k' = rt_interrupt_nest k \<and> rt_scheduler_lock_nest k' = 0 \<and>
     (\<forall>u. u \<noteq> t \<longrightarrow> threads k' u = threads k u) \<and> (\<exists>x. threads k' t = (threads k t)\<lparr>remaining_tick := x\<rparr>)"
proof -
  have t: "t \<in> T" "thread_stat t k = RT_THREAD_READY" using r by (simp_all add: runs_def t_def)
  note ok = thread_parts [OF kwf_parts(3) [OF w t(1)]]
  have te: "thread_error (threads k t) \<in> {RT_EOK, - RT_ERROR, - RT_ETIMEOUT}" using kwf_parts(3) [OF w t(1)] by (simp add: thread_ok_def)
  define k1 where "k1 = upd_thread t (\<lambda>r. r\<lparr>remaining_tick := remaining_tick r - 1\<rparr>) (k\<lparr>rt_tick := rt_tick k + 1\<rparr>)"
  define k2 where "k2 = upd_thread t (\<lambda>r. r\<lparr>remaining_tick := init_tick r\<rparr>) k1"
  have w0: "kwf T I (k\<lparr>rt_tick := rt_tick k + 1\<rparr>) L" by (rule kwf_cong [OF w]) simp_all
  have w1: "kwf T I k1 L" unfolding k1_def using te by (intro kwf_upd_thread [OF w0 t(1)]) simp_all
  have w2: "kwf T I k2 L" unfolding k2_def using te by (intro kwf_upd_thread [OF w1 t(1)]) (simp_all add: k1_def upd_thread_def)
  have k1: "rt_tick k1 = rt_tick k + 1" "timers k1 = timers k" "sem_value k1 = sem_value k" "mutexes k1 = mutexes k"
    "rt_interrupt_nest k1 = rt_interrupt_nest k" "rt_scheduler_lock_nest k1 = 0" "rt_current_thread k1 = t"
    "\<forall>u. u \<noteq> t \<longrightarrow> threads k1 u = threads k u" "threads k1 t = (threads k t)\<lparr>remaining_tick := remaining_tick (threads k t) - 1\<rparr>"
    using n by (simp_all add: k1_def upd_thread_def t_def)
  have k2: "rt_tick k2 = rt_tick k + 1" "timers k2 = timers k" "sem_value k2 = sem_value k" "mutexes k2 = mutexes k"
    "rt_interrupt_nest k2 = rt_interrupt_nest k" "rt_scheduler_lock_nest k2 = 0" "rt_current_thread k2 = t"
    "\<forall>u. u \<noteq> t \<longrightarrow> threads k2 u = threads k u" "threads k2 t = (threads k t)\<lparr>remaining_tick := init_tick (threads k t)\<rparr>"
    using k1 by (simp_all add: k2_def upd_thread_def)
  have step: "rt_tick_increase user k =
      (if remaining_tick (threads k t) = 1 then do { (_, k) \<leftarrow> rt_thread_yield k2; rt_timer_check user k } else rt_timer_check user k1)"
    using ok(3) k1
    by (cases "rt_thread_yield k2")
      (auto simp: rt_tick_increase_def RT_ASSERT_def rt_thread_self_def t_def [symmetric] k1_def [symmetric] k2_def [symmetric] Let_def)
  show ?thesis
  proof (cases "remaining_tick (threads k t) = 1")
    case True
    have r2: "runs T k2" using t k2 by (simp add: runs_def thread_stat_def)
    have p2: "prio t k2 = prio t k" using k2 by simp
    obtain k' where k': "rt_thread_yield k2 = Some (RT_EOK, k')" "kwf T I k' (rotated t (prio t k) L)" "runs T k'" "only_moved k2 k'"
      using thread_yield [OF w2 r2 k2(6)] p2 k2(7) by auto
    then show ?thesis using True k2 step by (intro exI [of _ k']) (auto simp: L'_def only_moved_def)
  next
    case False
    have "runs T k1" using t k1 by (simp add: runs_def thread_stat_def)
    then show ?thesis using False k1 step w1 by (intro exI [of _ k1]) (auto simp: L'_def)
  qed
qed

definition tick_fired :: "kernel \<Rightarrow> lists \<Rightarrow> node list" where
  "tick_fired k L = takeWhile (\<lambda>n. due k n \<le> 1) (L Timer_head)"

lemma tick_timers:
  assumes tm: "timers_ok k L" and rows: "\<forall>n \<in> set (L Timer_head). \<exists>t. n = Row (Thread_timer t)" and d: "distinct (L Timer_head)"
    and k': "rt_tick k' = rt_tick k + 1" "timers k' = timers k"
  shows "tick_lists k L Timer_head = dropWhile (\<lambda>n. due k n \<le> 1) (L Timer_head)" and "timers_ok k' (tick_lists k L)"
    and "takeWhile (expired k') (L Timer_head) = tick_fired k L"
proof -
  let ?xs = "L Timer_head" and ?ys = "dropWhile (\<lambda>n. due k n \<le> 1) (L Timer_head)"
  have due: "expired k' n \<longleftrightarrow> due k n \<le> 1" "1 \<le> due k n \<Longrightarrow> due k' n = due k n - 1" if n: "n \<in> set ?xs" for n
  proof -
    obtain t where t: "timer_of n = Some (Thread_timer t)" using rows n by fastforce
    have b: "due k n < unat HALF_TICKS" using tm n by (simp add: timers_ok_def)
    show "expired k' n \<longleftrightarrow> due k n \<le> 1" "1 \<le> due k n \<Longrightarrow> due k' n = due k n - 1"
      using tick_due [OF b t k'] by blast+
  qed
  show "takeWhile (expired k') ?xs = tick_fired k L" unfolding tick_fired_def by (rule takeWhile_cong) (simp_all add: due)
  have split: "?xs = tick_fired k L @ ?ys" by (simp add: tick_fired_def)
  have dist: "distinct ?ys" "distinct (tick_fired k L)" "set ?ys \<inter> set (tick_fired k L) = {}"
    using d split by (metis distinct_append inf_commute)+
  have sub: "set ?ys \<subseteq> set ?xs" "set (tick_fired k L) \<subseteq> set ?xs" using split by (metis Un_upper1 Un_upper2 set_append)+
  have fold: "wake_all pr (tick_fired k L) L1 Timer_head = ?ys" if "L1 Timer_head = ?xs" for pr L1
    using rows sub dist split that by (intro wake_all_timers) auto
  show tl: "tick_lists k L Timer_head = ?ys" 
    unfolding tick_lists_def Let_def by (cases "remaining_tick (threads k (rt_current_thread k)) = 1")
      (simp_all only: if_True if_False rotated_timers tick_fired_def [symmetric] fold not_False_eq_True simp_thms)
  have srt: "sorted (map (due k) ?ys)" using tm split by (metis map_append sorted_append timers_ok_def)
  have big: "2 \<le> due k n" if "n \<in> set ?ys" for n
  proof -
    have "?ys \<noteq> []" using that by (metis empty_iff empty_set)
    then have "\<not> due k (hd ?ys) \<le> 1" by (rule hd_dropWhile)
    moreover obtain y zs where yz: "?ys = y # zs" using \<open>?ys \<noteq> []\<close> by (meson neq_Nil_conv)
    have "due k (hd ?ys) \<le> due k n" using srt that unfolding yz by auto
    ultimately show ?thesis by simp
  qed
  have now: "due k' n = due k n - 1" if "n \<in> set ?ys" for n
    using due(2) [of n] big [OF that] that sub(1) by auto
  have "sorted (map (due k') ?ys)" using srt now by (auto simp: sorted_wrt_map intro: sorted_wrt_mono_rel [rotated])
  moreover have "due k' n < unat HALF_TICKS" if "n \<in> set ?ys" for n
  proof -
    have "due k n < unat HALF_TICKS" using tm that sub(1) unfolding timers_ok_def by blast
    then show ?thesis unfolding now [OF that] by linarith
  qed
  ultimately show "timers_ok k' (tick_lists k L)" by (simp add: timers_ok_def tl)
qed

text \<open>One tick, from the state \<open>k\<close> with the lists \<open>L\<close>.\<close>

lemma sys_tick:
  assumes w: "kwf T I k L" and r: "runs T k" and n: "rt_scheduler_lock_nest k = 0" and tm: "timers_ok k L"
  shows "\<exists>k'. SysTick_Handler user k = Some k' \<and> kwf T I k' (tick_lists k L) \<and> timers_ok k' (tick_lists k L) \<and> runs T k' \<and>
     rt_tick k' = rt_tick k + 1 \<and> timers k' = timers k \<and> sem_value k' = sem_value k \<and> mutexes k' = mutexes k \<and>
     rt_interrupt_nest k' = rt_interrupt_nest k \<and> rt_scheduler_lock_nest k' = 0 \<and>
     (\<forall>t. Row (Thread_timer t) \<in> set (tick_fired k L) \<longrightarrow> thread_error (threads k' t) = - RT_ETIMEOUT \<and> thread_stat t k' = RT_THREAD_READY) \<and>
     (\<forall>t. Row (Thread_timer t) \<notin> set (tick_fired k L) \<longrightarrow> thread_error (threads k' t) = thread_error (threads k t) \<and> thread_stat t k' = thread_stat t k)"
proof -
  let ?t = "rt_current_thread k"
  define L1 where "L1 = (if remaining_tick (threads k ?t) = 1 then rotated ?t (prio ?t k) L else L)"
  define k0 where "k0 = rt_interrupt_enter k"
  have w0: "kwf T I k0 L" by (rule kwf_cong [OF w]) (simp_all add: k0_def rt_interrupt_enter_def)
  have k0: "rt_current_thread k0 = ?t" "threads k0 = threads k" "rt_tick k0 = rt_tick k" "timers k0 = timers k" "sem_value k0 = sem_value k"
    "mutexes k0 = mutexes k" "rt_scheduler_lock_nest k0 = 0" "rt_interrupt_nest k0 = rt_interrupt_nest k + 1"
    using n by (simp_all add: k0_def rt_interrupt_enter_def)
  have r0: "runs T k0" using r k0 by (simp add: runs_def thread_stat_def)
  obtain k1 where k1: "rt_tick_increase user k0 = rt_timer_check user k1" "kwf T I k1 L1" "runs T k1" "rt_tick k1 = rt_tick k + 1"
    "timers k1 = timers k" "sem_value k1 = sem_value k" "mutexes k1 = mutexes k" "rt_interrupt_nest k1 = rt_interrupt_nest k + 1"
    "rt_scheduler_lock_nest k1 = 0" "\<forall>u. u \<noteq> ?t \<longrightarrow> threads k1 u = threads k u" "\<exists>x. threads k1 ?t = (threads k ?t)\<lparr>remaining_tick := x\<rparr>"
    using slice_ok [OF w0 r0 k0(7), of user] unfolding k0 L1_def by auto
  have rows: "\<forall>n \<in> set (L Timer_head). \<exists>t. n = Row (Thread_timer t)" using timer_rows [OF kwf_parts(1) [OF w]] by blast
  have dist: "distinct (L Timer_head)" by (rule rings_distinct [OF lists_rings [OF kwf_parts(1) [OF w]]])
  have L1: "L1 Timer_head = L Timer_head" by (simp add: L1_def)
  have fields: "stat (threads k1 u) = stat (threads k u)" "thread_error (threads k1 u) = thread_error (threads k u)" "prio u k1 = prio u k" for u
    using k1(10,11) by (cases "u = ?t"; force)+
  have pr: "(\<lambda>t. prio t k1) = (\<lambda>t. prio t k)" using fields(3) by blast
  note tt = tick_timers [OF tm rows dist]
  obtain k2 where k2: "rt_timer_check user k1 = Some k2" "kwf T I k2 (tick_lists k L)" "timers_fired (tick_fired k L) k1 k2" "runs T k2"
    using timer_check [OF k1(2,9) L1, of user] k1(3) tt(3) [OF k1(4,5)] unfolding rt_timer_check_def rt_tick_get_def pr
    by (auto simp: tick_lists_def Let_def L1_def [symmetric] L1 tick_fired_def split: if_splits)
  let ?k' = "rt_interrupt_leave k2"
  have "SysTick_Handler user k = Some ?k'" using k1(1) k2(1) by (simp add: SysTick_Handler_def k0_def)
  moreover have "kwf T I ?k' (tick_lists k L)" by (rule kwf_cong [OF k2(2)]) (simp_all add: rt_interrupt_leave_def)
  moreover have "rt_tick ?k' = rt_tick k + 1" "timers ?k' = timers k" using k1 k2(3) by (simp_all add: rt_interrupt_leave_def timers_fired_def)
  moreover have "timers_ok ?k' (tick_lists k L)" by (rule tt(2)) fact+
  moreover have "runs T ?k'" using k2(4) by (simp add: runs_def rt_interrupt_leave_def thread_stat_def)
  moreover have "sem_value ?k' = sem_value k" "mutexes ?k' = mutexes k" "rt_interrupt_nest ?k' = rt_interrupt_nest k" "rt_scheduler_lock_nest ?k' = 0"
    using k1 k2(3) by (simp_all add: rt_interrupt_leave_def timers_fired_def)
  moreover have "threads ?k' t = (if Row (Thread_timer t) \<in> set (tick_fired k L) then time_out_rec (threads k1 t) else threads k1 t)" for t
    using k2(3) by (simp add: rt_interrupt_leave_def timers_fired_def)
  then have "(\<forall>t. Row (Thread_timer t) \<in> set (tick_fired k L) \<longrightarrow> thread_error (threads ?k' t) = - RT_ETIMEOUT \<and> thread_stat t ?k' = RT_THREAD_READY) \<and>
     (\<forall>t. Row (Thread_timer t) \<notin> set (tick_fired k L) \<longrightarrow> thread_error (threads ?k' t) = thread_error (threads k t) \<and> thread_stat t ?k' = thread_stat t k)"
    using fields by (simp add: time_out_rec_def thread_stat_def set_stat_stat)
  ultimately show ?thesis by blast
qed

end
