(* ===== verification/CallInv.thy ===== *)
theory CallInv imports TickInv begin

text \<open>
  The building blocks of the kernel calls: suspending the caller on a list, for a time, and switching away;
  waking a thread; changing a priority. \<open>kcore\<close> is the invariant in the middle of a call, \<open>kinv\<close> the one
  between calls. The thread \<open>idle\<close> is always ready, so that the scheduler has something to select.
\<close>

definition kcore :: "u32 set \<Rightarrow> ipc_ptr set \<Rightarrow> u32 \<Rightarrow> kernel \<Rightarrow> lists \<Rightarrow> bool" where
  "kcore T I idle k L \<longleftrightarrow> kwf T I k L \<and> timers_ok k L \<and> rt_interrupt_nest k = 0 \<and> rt_scheduler_lock_nest k = 0 \<and>
     idle \<in> T \<and> thread_stat idle k = RT_THREAD_READY"

definition kinv :: "u32 set \<Rightarrow> ipc_ptr set \<Rightarrow> u32 \<Rightarrow> kernel \<Rightarrow> lists \<Rightarrow> bool" where
  "kinv T I idle k L \<longleftrightarrow> kcore T I idle k L \<and> runs T k"

lemma core_parts:
  assumes "kcore T I idle k L"
  shows "kwf T I k L" and "timers_ok k L" and "rt_interrupt_nest k = 0" and "rt_scheduler_lock_nest k = 0"
    and "idle \<in> T" and "thread_stat idle k = RT_THREAD_READY" and "some_ready L"
  using assms ready_some by (auto simp: kcore_def)

text \<open>Timers are not affected by changes elsewhere.\<close>

lemma timers_frame:
  assumes "timers_ok k L" and "timers k' = timers k" and "rt_tick k' = rt_tick k" and "L' Timer_head = L Timer_head"
  shows "timers_ok k' L'"
proof -
  have "due k' = due k" using assms(2,3) by (simp add: due_def fun_eq_iff split: option.split)
  then show ?thesis using assms(1,4) by (simp add: timers_ok_def)
qed

lemma timers_subset:
  assumes "timers_ok k L" and "timers k' = timers k" and "rt_tick k' = rt_tick k" and "L' Timer_head = removeAll n (L Timer_head)"
  shows "timers_ok k' L'"
proof -
  have "due k' = due k" using assms(2,3) by (simp add: due_def fun_eq_iff split: option.split)
  then show ?thesis using assms(1,4) by (auto simp: timers_ok_def removeAll_filter_not_eq intro: sorted_filter)
qed

lemma tlist_not_timer: "lists_ok T k L \<Longrightarrow> Tlist t \<notin> set (L Timer_head)"
  using timer_rows by fastforce

lemma core_schedule:
  assumes "kcore T I idle k L"
  shows "rt_schedule k = Some (switch_to (top_thread L) (of_nat (top_priority L)) k)"
    and "kinv T I idle (switch_to (top_thread L) p k) L"
proof -
  note c = core_parts [OF assms]
  note s = schedule_ok [OF c(1,7,4)]
  show "rt_schedule k = Some (switch_to (top_thread L) (of_nat (top_priority L)) k)" by (rule s)
  show "kinv T I idle (switch_to (top_thread L) p k) L"
    using s c timers_frame [OF c(2), of "switch_to (top_thread L) p k" L] by (simp add: kinv_def kcore_def thread_stat_def)
qed

subsection \<open>Threads and fields\<close>

lemma core_suspend:
  assumes c: "kcore T I idle k L" and t: "t \<in> T" "thread_stat t k = RT_THREAD_READY" "t \<noteq> idle"
  shows "rt_thread_suspend t k = Some (RT_EOK, suspended t k)" and "kcore T I idle (suspended t k) (unlink (Tlist t) L)"
    and "thread_stat t (suspended t k) = RT_THREAD_SUSPEND"
proof -
  note p = core_parts [OF c]
  note s = thread_suspend [OF p(1) t(1,2)]
  show "rt_thread_suspend t k = Some (RT_EOK, suspended t k)" by (rule s)
  have "timers_ok (suspended t k) (unlink (Tlist t) L)"
    by (rule timers_frame [OF p(2)]) (use tlist_not_timer [OF kwf_parts(1) [OF p(1)]] in \<open>simp_all add: unlink_def\<close>)
  then show "kcore T I idle (suspended t k) (unlink (Tlist t) L)"
    using s(2) p t(3) by (simp add: kcore_def thread_stat_def)
  show "thread_stat t (suspended t k) = RT_THREAD_SUSPEND" by (simp add: thread_stat_def set_stat_stat)
qed

lemma core_resume:
  assumes c: "kcore T I idle k L" and t: "t \<in> T" "thread_stat t k = RT_THREAD_SUSPEND"
  shows "rt_thread_resume t k = Some (RT_EOK, woken t k)" and "kcore T I idle (woken t k) (made_ready t (prio t k) L)"
proof -
  note p = core_parts [OF c]
  note s = thread_resume [OF p(1) t]
  show "rt_thread_resume t k = Some (RT_EOK, woken t k)" by (rule s)
  have "timers_ok (woken t k) (made_ready t (prio t k) L)"
    by (rule timers_subset [OF p(2), of _ _ "Row (Thread_timer t)"])
      (use tlist_not_timer [OF kwf_parts(1) [OF p(1)]] in \<open>simp_all add: made_ready_def detached_def unlink_def\<close>)
  moreover have "thread_stat idle (woken t k) = RT_THREAD_READY" using p(6) by (simp add: thread_stat_def set_stat_stat)
  ultimately show "kcore T I idle (woken t k) (made_ready t (prio t k) L)" using s(2) p by (simp add: kcore_def)
qed

lemma core_upd_thread:
  assumes c: "kcore T I idle k L" and t: "t \<in> T"
    and f: "stat (f (threads k t)) = stat (threads k t)" "current_priority (f (threads k t)) = current_priority (threads k t)"
      "number_mask (f (threads k t)) = number_mask (threads k t)" "thread_error (f (threads k t)) \<in> {RT_EOK, - RT_ERROR, - RT_ETIMEOUT}"
  shows "kcore T I idle (upd_thread t f k) L"
proof -
  note p = core_parts [OF c]
  have "timers_ok (upd_thread t f k) L" by (rule timers_frame [OF p(2)]) (simp_all add: upd_thread_def)
  then show ?thesis using kwf_upd_thread [of T I k L t f] p t f by (simp add: kcore_def thread_stat_def) (auto simp: upd_thread_def)
qed

text \<open>A change of the semaphores and mutexes.\<close>

lemma core_upd_ipc:
  assumes c: "kcore T I idle k L" and "\<forall>i \<in> I. ipc_ok T k' L i"
    and "klinks k' = klinks k" "rt_thread_ready_priority_group k' = rt_thread_ready_priority_group k" "threads k' = threads k"
      "timers k' = timers k" "objects k' = objects k" "rt_tick k' = rt_tick k" "rt_interrupt_nest k' = rt_interrupt_nest k"
      "rt_scheduler_lock_nest k' = rt_scheduler_lock_nest k"
  shows "kcore T I idle k' L"
proof -
  note p = core_parts [OF c]
  have "kwf T I k' L"
    unfolding kwf_def
  proof (intro conjI ballI)
    show "lists_ok T k' L" "group_ok k' L" using kwf_parts(1,2) [OF p(1)] assms by (simp_all add: lists_ok_def group_ok_def)
    show "thread_ok k' L t" if "t \<in> T" for t
      using assms by (intro thread_frame [OF kwf_parts(3) [OF p(1) that]]) (simp_all add: same_thread_def same_lists_def)
  qed (use assms(2) in blast)
  moreover have "timers_ok k' L" using assms by (intro timers_frame [OF p(2)]) simp_all
  ultimately show ?thesis using p assms by (simp add: kcore_def thread_stat_def)
qed

subsection \<open>Waiting\<close>

definition can_wait :: "kernel \<Rightarrow> ipc_ptr \<Rightarrow> bool" where
  "can_wait k i \<longleftrightarrow> (case i of Sem_at s \<Rightarrow> sem_value k s = 0 | Mutex_at m \<Rightarrow> mutex_owner (mutexes k m) \<noteq> 0)"

text \<open>The place of a thread on a list of waiting threads.\<close>

definition insert_waiting :: "u32 \<Rightarrow> u8 \<Rightarrow> kernel \<Rightarrow> node list \<Rightarrow> node list" where
  "insert_waiting t flag k xs =
     (if flag = RT_IPC_FLAG_FIFO then xs @ [Tlist t]
      else takeWhile (\<lambda>n. \<not> lower (current_priority (threads k t)) k n) xs @
           Tlist t # dropWhile (\<lambda>n. \<not> lower (current_priority (threads k t)) k n) xs)"

lemma insert_waiting_set [simp]: "set (insert_waiting t flag k xs) = insert (Tlist t) (set xs)"
  unfolding insert_waiting_def by (cases "flag = RT_IPC_FLAG_FIFO") (simp_all, metis set_append takeWhile_dropWhile_id)

definition waiting :: "ipc_ptr \<Rightarrow> u32 \<Rightarrow> kernel \<Rightarrow> lists \<Rightarrow> lists" where
  "waiting i t k L =
     (unlink (Tlist t) L)(Suspend i := insert_waiting t (obj_flag (objects k (Obj_ipc i))) k (unlink (Tlist t) L (Suspend i)))"

lemma core_put_waiting:
  assumes c: "kcore T I idle k L" and t: "t \<in> T" "thread_stat t k = RT_THREAD_SUSPEND" "\<forall>j. Tlist t \<notin> set (L j)"
    and xs: "L (Suspend i) = us @ vs" and i: "can_wait k i"
  shows "kcore T I idle (on_links (rt_list_insert_before (hd (vs @ [Suspend i])) (Tlist t)) k) (L(Suspend i := us @ Tlist t # vs))"
    (is "kcore T I idle ?k ?L")
proof -
  note p = core_parts [OF c]
  have mem: "x \<in> set (?L h) \<longleftrightarrow> x \<in> set (L h) \<or> x = Tlist t \<and> h = Suspend i" for x h using xs by auto
  have "kwf T I ?k ?L"
  proof (rule kwf_change [OF p(1)])
    show "lists_ok T ?k ?L" using t by (intro lists_insert_before [OF kwf_parts(1) [OF p(1)] t(3) _ xs]) simp
    show "group_ok ?k ?L" using kwf_parts(2) [OF p(1)] by (simp add: group_ok_def on_links_def)
    show "thread_ok ?k ?L t"
      using kwf_parts(3) [OF p(1) t(1)] t(2)
      by (auto simp: thread_ok_def statics_ok_def mem timer_on_def timer_flag_def rt_object_get_type_def thread_stat_def on_links_def)
    show "\<forall>u. u \<noteq> t \<longrightarrow> same_thread k ?k u \<and> same_lists L ?L u"
      by (simp add: same_thread_def same_lists_def mem on_links_def del: fun_upd_apply)
    show "\<forall>j \<in> I. ipc_ok T ?k ?L j"
    proof
      fix j assume "j \<in> I"
      then have "ipc_ok T k L j" by (rule kwf_parts(4) [OF p(1)])
      then show "ipc_ok T ?k ?L j"
        using i by (cases j; cases "j = i") (auto simp: ipc_ok_def can_wait_def mutex_ok_def rt_object_get_type_def on_links_def)
    qed
  qed
  moreover have "timers_ok ?k ?L" by (rule timers_frame [OF p(2)]) (simp_all add: on_links_def)
  ultimately show ?thesis using p by (simp add: kcore_def thread_stat_def on_links_def)
qed

lemma thread_nodes: "lists_ok T k L \<Longrightarrow> n \<in> set (L (Suspend i)) \<Longrightarrow> \<exists>t \<in> T. n = Tlist t"
  by (drule (1) lists_fits) (cases n; simp)

lemma core_list_suspend:
  assumes c: "kcore T I idle k L" and t: "t \<in> T" "thread_stat t k = RT_THREAD_READY" "t \<noteq> idle" and i: "i \<in> I" "can_wait k i"
  shows "\<exists>s. rt_ipc_list_suspend (Suspend i) t (obj_flag (objects k (Obj_ipc i))) k = Some (RT_EOK, (suspended t k)\<lparr>klinks := s\<rparr>) \<and>
     kcore T I idle ((suspended t k)\<lparr>klinks := s\<rparr>) (waiting i t k L)"
proof -
  let ?k1 = "suspended t k" and ?L1 = "unlink (Tlist t) L" and ?flag = "obj_flag (objects k (Obj_ipc i))"
  note s = core_suspend [OF c t]
  note p = core_parts [OF s(2)]
  have fl: "?flag \<in> {RT_IPC_FLAG_FIFO, RT_IPC_FLAG_PRIO}" using kwf_parts(4) [OF core_parts(1) [OF c] i(1)] by (simp add: ipc_ok_def)
  have free: "\<forall>j. Tlist t \<notin> set (?L1 j)" by simp
  have w1: "can_wait ?k1 i" using i(2) by (cases i) (simp_all add: can_wait_def)
  have cp: "current_priority (threads ?k1 u) = current_priority (threads k u)" for u by simp
  have lo: "lower pr ?k1 n = lower pr k n" for pr n by (simp add: lower_def split: option.split)
  note put = core_put_waiting [OF s(2) t(1) s(3) free]
  show ?thesis
  proof (cases "?flag = RT_IPC_FLAG_FIFO")
    case True
    let ?s = "rt_list_insert_before (Suspend i) (Tlist t) (klinks ?k1)"
    have "waiting i t k L = ?L1(Suspend i := ?L1 (Suspend i) @ [Tlist t])" using True by (simp add: waiting_def insert_waiting_def)
    then have "kcore T I idle (?k1\<lparr>klinks := ?s\<rparr>) (waiting i t k L)"
      using put [of i "?L1 (Suspend i)" "[]"] w1 by (simp add: on_links_def)
    then show ?thesis using True s(1) by (intro exI [of _ ?s]) (simp add: rt_ipc_list_suspend_def on_links_def)
  next
    case False
    let ?pr = "current_priority (threads k t)" and ?xs = "?L1 (Suspend i)"
    define us vs where "us = takeWhile (\<lambda>n. \<not> lower ?pr k n) ?xs" and "vs = dropWhile (\<lambda>n. \<not> lower ?pr k n) ?xs"
    let ?s = "rt_list_insert_before (hd (vs @ [Suspend i])) (Tlist t) (klinks ?k1)"
    have xs: "?xs = us @ vs" by (simp add: us_def vs_def)
    have "waiting i t k L = ?L1(Suspend i := us @ Tlist t # vs)" using False by (simp add: waiting_def insert_waiting_def us_def vs_def)
    then have k: "kcore T I idle (?k1\<lparr>klinks := ?s\<rparr>) (waiting i t k L)" using put [OF xs w1] by (simp add: on_links_def)
    have r: "ring (klinks ?k1) (Suspend i) ?xs" using lists_ring [OF kwf_parts(1) [OF p(1)], of "Suspend i"] by simp
    have "\<forall>n \<in> set ?xs. thread_of n \<noteq> None" using thread_nodes [OF kwf_parts(1) [OF p(1)]] by fastforce
    then have "suspend_pos (Suspend i) ?pr ?k1 (nxt (klinks ?k1) (Suspend i)) = Some (hd (vs @ [Suspend i]))"
      using suspend_pos_at [of ?k1 "Suspend i" "[]" ?xs ?pr] r ring_ends(1) [OF r] by (simp add: lo vs_def)
    moreover have "?flag = RT_IPC_FLAG_PRIO" using fl False by simp
    ultimately show ?thesis using False s(1) k
      by (intro exI [of _ ?s]) (simp add: rt_ipc_list_suspend_def on_links_def)
  qed
qed

subsection \<open>For a time\<close>

definition timed :: "u32 \<Rightarrow> u32 \<Rightarrow> kernel \<Rightarrow> kernel" where
  "timed t time k = upd_timer (Thread_timer t) (\<lambda>r. r\<lparr>timer_init_tick := time\<rparr>) k"

lemma timed_due: "due (timed t time k) = due k"
  by (auto simp: due_def timed_def upd_timer_def fun_eq_iff split: option.split)

lemma timed_fields [simp]:
  "threads (timed t time k) = threads k" "objects (timed t time k) = objects k" "klinks (timed t time k) = klinks k"
  "sem_value (timed t time k) = sem_value k" "mutexes (timed t time k) = mutexes k" "rt_tick (timed t time k) = rt_tick k"
  "rt_interrupt_nest (timed t time k) = rt_interrupt_nest k" "rt_scheduler_lock_nest (timed t time k) = rt_scheduler_lock_nest k"
  "rt_current_thread (timed t time k) = rt_current_thread k"
  "rt_thread_ready_priority_group (timed t time k) = rt_thread_ready_priority_group k"
  by (simp_all add: timed_def upd_timer_def)

lemma core_timer:
  assumes c: "kcore T I idle k L" and t: "t \<in> T" "thread_stat t k = RT_THREAD_SUSPEND" and time: "time < HALF_TICKS"
  shows "rt_timer_control (Thread_timer t) RT_TIMER_CTRL_SET_TIME time k = Some (RT_EOK, time, timed t time k)"
    and "\<exists>n. rt_timer_start (Thread_timer t) (timed t time k) = Some (RT_EOK, timer_started t n (timed t time k)) \<and>
      kcore T I idle (timer_started t n (timed t time k)) (with_timer t (timed t time k) L)"
proof -
  note p = core_parts [OF c]
  note okt = kwf_parts(3) [OF p(1) t(1)]
  let ?k = "timed t time k"
  show "rt_timer_control (Thread_timer t) RT_TIMER_CTRL_SET_TIME time k = Some (RT_EOK, time, ?k)"
    using thread_parts(5) [OF okt] by (simp add: rt_timer_control_def RT_ASSERT_def timed_def)
  have w: "kwf T I ?k L"
  proof (rule kwf_change [OF p(1)])
    show "lists_ok T ?k L" "group_ok ?k L" using kwf_parts(1,2) [OF p(1)] by (simp_all add: lists_ok_def group_ok_def)
    show "thread_ok ?k L t" using okt
      by (auto simp: thread_ok_def statics_ok_def timer_on_def timer_flag_def rt_object_get_type_def thread_stat_def timed_def upd_timer_def)
    show "\<forall>u. u \<noteq> t \<longrightarrow> same_thread k ?k u \<and> same_lists L L u" by (simp add: same_thread_def same_lists_def) (simp add: timed_def upd_timer_def)
    show "\<forall>i \<in> I. ipc_ok T ?k L i" by (rule ipcs_frame [OF p(1)]) simp_all
  qed
  have "timers_ok ?k L" using p(2) by (simp add: timers_ok_def timed_due)
  moreover have "thread_stat t ?k = RT_THREAD_SUSPEND" using t(2) by (simp add: thread_stat_def)
  moreover have "timer_init_tick (timers ?k (Thread_timer t)) < HALF_TICKS" using time by (simp add: timed_def upd_timer_def)
  ultimately obtain n where "rt_timer_start (Thread_timer t) ?k = Some (RT_EOK, timer_started t n ?k)"
    "kwf T I (timer_started t n ?k) (with_timer t ?k L)" "timers_ok (timer_started t n ?k) (with_timer t ?k L)"
    using timer_start [OF w t(1)] by blast
  then show "\<exists>n. rt_timer_start (Thread_timer t) ?k = Some (RT_EOK, timer_started t n ?k) \<and>
      kcore T I idle (timer_started t n ?k) (with_timer t ?k L)"
    using p by (intro exI [of _ n]) (simp add: kcore_def thread_stat_def)
qed

text \<open>The waiting times that \<open>rt_timer_start\<close> accepts.\<close>

definition time_ok :: "u32 \<Rightarrow> bool" where
  "time_ok time \<longleftrightarrow> (0 < sint time \<longrightarrow> time < HALF_TICKS)"

definition wait_lists :: "ipc_ptr \<Rightarrow> u32 \<Rightarrow> u32 \<Rightarrow> kernel \<Rightarrow> lists \<Rightarrow> lists" where
  "wait_lists i t time k L = (let L = waiting i t k L in if 0 < sint time then with_timer t (timed t time k) L else L)"

definition same_ipcs :: "kernel \<Rightarrow> kernel \<Rightarrow> bool" where
  "same_ipcs k k' \<longleftrightarrow> sem_value k' = sem_value k \<and> mutexes k' = mutexes k \<and> rt_tick k' = rt_tick k"

lemma core_suspend_for:
  assumes c: "kcore T I idle k L" and t: "t \<in> T" "thread_stat t k = RT_THREAD_READY" "t \<noteq> idle" and i: "i \<in> I" "can_wait k i"
    and time: "time_ok time"
  shows "\<exists>k'. suspend_for i t time k = Some k' \<and> kcore T I idle k' (wait_lists i t time k L) \<and> same_ipcs k k' \<and>
     threads k' = (threads k)(t := set_stat RT_THREAD_SUSPEND (threads k t)) \<and> rt_current_thread k' = rt_current_thread k"
proof -
  obtain s where s: "rt_ipc_list_suspend (Suspend i) t (obj_flag (objects k (Obj_ipc i))) k = Some (RT_EOK, (suspended t k)\<lparr>klinks := s\<rparr>)"
    "kcore T I idle ((suspended t k)\<lparr>klinks := s\<rparr>) (waiting i t k L)"
    using core_list_suspend [OF c t i] by blast
  let ?k1 = "(suspended t k)\<lparr>klinks := s\<rparr>"
  show ?thesis
  proof (cases "0 < sint time")
    case True
    have st: "thread_stat t ?k1 = RT_THREAD_SUSPEND" by (simp add: thread_stat_def set_stat_stat)
    have "time < HALF_TICKS" using time True by (simp add: time_ok_def)
    note tm = core_timer [OF s(2) t(1) st this]
    obtain n where n: "rt_timer_start (Thread_timer t) (timed t time ?k1) = Some (RT_EOK, timer_started t n (timed t time ?k1))"
      "kcore T I idle (timer_started t n (timed t time ?k1)) (with_timer t (timed t time ?k1) (waiting i t k L))" using tm(2) by blast
    have "due (timed t time ?k1) = due (timed t time k)" unfolding timed_due by (simp add: due_def fun_eq_iff split: option.split)
    then have "with_timer t (timed t time ?k1) (waiting i t k L) = wait_lists i t time k L"
      using True by (simp add: wait_lists_def with_timer_def insert_due_def timed_def upd_timer_def)
    then show ?thesis using True s(1) tm(1) n
      by (intro exI [of _ "timer_started t n (timed t time ?k1)"]) (simp add: suspend_for_def same_ipcs_def)
  next
    case False
    then show ?thesis using s by (intro exI [of _ ?k1]) (simp add: suspend_for_def wait_lists_def same_ipcs_def Let_def)
  qed
qed

text \<open>The switch away from a suspended caller.\<close>

lemma core_switch:
  assumes c: "kcore T I idle k L" and t: "t \<in> T" "thread_stat t k = RT_THREAD_SUSPEND"
  shows "top_thread L \<noteq> t"
  using schedule_top(2) [OF kwf_parts(1,2) [OF core_parts(1) [OF c]] core_parts(7,4) [OF c]] t(2)
    in_ready_list(2) [OF core_parts(1) [OF c]] by fastforce

subsection \<open>Priorities\<close>

definition reprioritized :: "u32 \<Rightarrow> nat \<Rightarrow> kernel \<Rightarrow> lists \<Rightarrow> lists" where
  "reprioritized t p k L =
     (if thread_stat t k = RT_THREAD_READY
      then let L = unlink (Tlist t) L in L(Ready p := L (Ready p) @ [Tlist t]) else L)"

definition with_priority :: "u8 \<Rightarrow> rt_thread \<Rightarrow> rt_thread" where
  "with_priority p r = r\<lparr>current_priority := p, number_mask := push_bit (unat p) 1\<rparr>"

lemma with_priority_fields [simp]:
  "current_priority (with_priority p r) = p" "stat (with_priority p r) = stat r" "thread_error (with_priority p r) = thread_error r"
  "number_mask (with_priority p r) = push_bit (unat p) 1"
  by (simp_all add: with_priority_def)

lemma with_priority_mask: "unat p < 32 \<Longrightarrow> own_mask (with_priority p r)"
  by (simp add: own_mask_def)

lemma core_priority:
  assumes c: "kcore T I idle k L" and t: "t \<in> T" and p: "unat p < 32"
  shows "\<exists>k'. rt_thread_control t RT_THREAD_CTRL_CHANGE_PRIORITY p k = Some (RT_EOK, k') \<and> kcore T I idle k' (reprioritized t (unat p) k L) \<and>
     same_ipcs k k' \<and> rt_current_thread k' = rt_current_thread k \<and> objects k' = objects k \<and> timers k' = timers k \<and>
     threads k' = (threads k)(t := (if thread_stat t k = RT_THREAD_READY then set_stat RT_THREAD_READY else id) (with_priority p (threads k t)))"
proof -
  note cp = core_parts [OF c]
  note okt = kwf_parts(3) [OF cp(1) t]
  note ok = thread_parts [OF okt]
  have set: "set_priority t p k = Some (upd_thread t (with_priority p) k)" for k
    using p by (simp add: set_priority_def with_priority_def [abs_def])
  have err: "thread_error (threads k t) \<in> {RT_EOK, - RT_ERROR, - RT_ETIMEOUT}" using okt by (simp add: thread_ok_def)
  show ?thesis
  proof (cases "thread_stat t k = RT_THREAD_READY")
    case True
    let ?k1 = "removed t k" and ?L1 = "unlink (Tlist t) L" and ?k2 = "upd_thread t (with_priority p) (removed t k)"
    let ?k3 = "inserted t ?k2" and ?L = "reprioritized t (unat p) k L"
    have only: "\<forall>h. Tlist t \<in> set (L h) \<longrightarrow> h = Ready (prio t k)" using ok(7) [OF True] by blast
    note r = removed_ok [OF kwf_parts(1) [OF cp(1)] ok(2) only]
    have l2: "lists_ok T ?k2 ?L1" "group_ok ?k2 ?L1" using r kwf_parts(2) [OF cp(1)] by (simp_all add: lists_ok_def group_ok_def upd_thread_def)
    have m2: "own_mask (threads ?k2 t)" using with_priority_mask [OF p] by (simp add: upd_thread_def)
    have free: "\<forall>j. Tlist t \<notin> set (?L1 j)" by simp
    have p2: "prio t ?k2 = unat p" by (simp add: upd_thread_def)
    note i = inserted_ok [OF l2(1) t m2 free, unfolded p2]
    have L: "?L = ?L1(Ready (unat p) := ?L1 (Ready (unat p)) @ [Tlist t])" using True by (simp add: reprioritized_def Let_def)
    have eq: "rt_thread_control t RT_THREAD_CTRL_CHANGE_PRIORITY p k = Some (RT_EOK, ?k3)"
      using ok(3,4) True remove_thread [OF ok(3,2)] insert_thread [OF ok(3) m2] by (simp add: rt_thread_control_def RT_ASSERT_def set)
    have th: "threads ?k3 = (threads k)(t := set_stat RT_THREAD_READY (with_priority p (threads k t)))" by (simp add: upd_thread_def)
    have f: "timers ?k3 = timers k" "objects ?k3 = objects k" "sem_value ?k3 = sem_value k" "mutexes ?k3 = mutexes k" "rt_tick ?k3 = rt_tick k"
      "rt_current_thread ?k3 = rt_current_thread k" "rt_interrupt_nest ?k3 = rt_interrupt_nest k"
      "rt_scheduler_lock_nest ?k3 = rt_scheduler_lock_nest k" by (simp_all add: upd_thread_def)
    have mem: "x \<in> set (?L h) \<longleftrightarrow> (if x = Tlist t then h = Ready (unat p) else x \<in> set (L h))" for x h
      unfolding L by auto
    have w: "kwf T I ?k3 ?L"
    proof (rule kwf_change [OF cp(1)])
      show "lists_ok T ?k3 ?L" "group_ok ?k3 ?L" unfolding L using i l2(2) by blast+
      have "thread_stat t ?k3 = RT_THREAD_READY" unfolding thread_stat_def th by (simp add: set_stat_stat)
      then show "thread_ok ?k3 ?L t"
        using okt True with_priority_mask [OF p, of "threads k t"] unfolding thread_ok_def statics_ok_def
        by (auto simp: mem rt_object_get_type_def timer_on_def timer_flag_def f th thread_stat_def [symmetric] simp del: inserted_fields)
      show "\<forall>u. u \<noteq> t \<longrightarrow> same_thread k ?k3 u \<and> same_lists L ?L u"
        by (simp add: same_thread_def same_lists_def mem f th del: inserted_fields)
      show "\<forall>i \<in> I. ipc_ok T ?k3 ?L i" by (rule ipcs_frame [OF cp(1)]) (simp_all add: f L del: inserted_fields)
    qed
    have "timers_ok ?k3 ?L"
      by (rule timers_frame [OF cp(2)]) (use tlist_not_timer [OF kwf_parts(1) [OF cp(1)]] in \<open>simp_all add: f L unlink_def del: inserted_fields\<close>)
    moreover have "thread_stat idle ?k3 = RT_THREAD_READY" using cp(6) unfolding thread_stat_def th by (simp add: set_stat_stat)
    ultimately have "kcore T I idle ?k3 ?L" using w cp f by (simp add: kcore_def del: inserted_fields)
    then show ?thesis using eq f th True by (intro exI [of _ ?k3]) (simp add: same_ipcs_def del: inserted_fields)
  next
    case False
    let ?k1 = "upd_thread t (with_priority p) k"
    have eq: "rt_thread_control t RT_THREAD_CTRL_CHANGE_PRIORITY p k = Some (RT_EOK, ?k1)"
      using ok(3,4) False by (simp add: rt_thread_control_def RT_ASSERT_def set)
    have w: "kwf T I ?k1 L"
    proof (rule kwf_change [OF cp(1)])
      show "lists_ok T ?k1 L" "group_ok ?k1 L" using kwf_parts(1,2) [OF cp(1)] by (simp_all add: lists_ok_def group_ok_def upd_thread_def)
      show "thread_ok ?k1 L t" using okt False with_priority_mask [OF p]
        by (auto simp: thread_ok_def statics_ok_def timer_on_def timer_flag_def rt_object_get_type_def thread_stat_def upd_thread_def)
      show "\<forall>u. u \<noteq> t \<longrightarrow> same_thread k ?k1 u \<and> same_lists L L u" by (simp add: same_thread_def same_lists_def upd_thread_def)
      show "\<forall>i \<in> I. ipc_ok T ?k1 L i" by (rule ipcs_frame [OF cp(1)]) (simp_all add: upd_thread_def)
    qed
    have "timers_ok ?k1 L" by (rule timers_frame [OF cp(2)]) (simp_all add: upd_thread_def)
    then have "kcore T I idle ?k1 L" using w cp by (auto simp: kcore_def thread_stat_def upd_thread_def)
    then show ?thesis using eq False by (intro exI [of _ ?k1]) (auto simp: reprioritized_def same_ipcs_def upd_thread_def)
  qed
qed

end
