(* ===== verification/IpcInv.thy ===== *)
theory IpcInv imports CallInv begin

text \<open>
  The kernel calls of a thread other than the idle thread: they return or block, and keep the invariant.
  Each lemma gives the lists afterwards.
\<close>

lemma kinv_parts:
  assumes "kinv T I idle k L"
  shows "kcore T I idle k L" and "runs T k" and "rt_current_thread k \<in> T" and "thread_stat (rt_current_thread k) k = RT_THREAD_READY"
    and "rt_current_thread k \<noteq> 0"
proof -
  show c: "kcore T I idle k L" and r: "runs T k" using assms by (simp_all add: kinv_def)
  show t: "rt_current_thread k \<in> T" and "thread_stat (rt_current_thread k) k = RT_THREAD_READY" using r by (simp_all add: runs_def)
  show "rt_current_thread k \<noteq> 0" using thread_parts(3) [OF kwf_parts(3) [OF core_parts(1) [OF c] t]] .
qed

lemma thread_context:
  assumes "kinv T I idle k L"
  shows "RT_DEBUG_IN_THREAD_CONTEXT k = Some ()"
  using kinv_parts(5) [OF assms] core_parts(3) [OF kinv_parts(1) [OF assms]]
  by (simp add: RT_DEBUG_IN_THREAD_CONTEXT_def RT_DEBUG_NOT_IN_INTERRUPT_def RT_ASSERT_def)

text \<open>The caller has been suspended, and the scheduler selects another thread.\<close>

lemma core_block:
  assumes c: "kcore T I idle k L" and t: "t \<in> T" "thread_stat t k = RT_THREAD_SUSPEND"
  shows "\<exists>k'. rt_schedule k = Some k' \<and> kinv T I idle k' L \<and> rt_current_thread k' = top_thread L \<and> rt_current_thread k' \<noteq> t \<and>
     same_ipcs k k' \<and> threads k' = threads k \<and> timers k' = timers k"
  using core_schedule [OF c] core_switch [OF c t]
  by (intro exI [of _ "switch_to (top_thread L) (of_nat (top_priority L)) k"]) (simp add: same_ipcs_def)

subsection \<open>Sleeping\<close>

definition sleep_lists :: "u32 \<Rightarrow> u32 \<Rightarrow> kernel \<Rightarrow> lists \<Rightarrow> lists" where
  "sleep_lists t tick k L = with_timer t (timed t tick k) (unlink (Tlist t) L)"

lemma sleep_ok:
  assumes v: "kinv T I idle k L" and t: "rt_current_thread k = t" "t \<noteq> idle" and tick: "tick < HALF_TICKS"
  shows "\<exists>k'. rt_thread_sleep tick k = Some (Block, k') \<and> kinv T I idle k' (sleep_lists t tick k L) \<and> same_ipcs k k' \<and>
     threads k' = (threads k)(t := set_stat RT_THREAD_SUSPEND (threads k t)) \<and>
     due k' (Row (Thread_timer t)) = unat tick \<and> timer_init_tick (timers k' (Thread_timer t)) = tick \<and>
     rt_current_thread k' = top_thread (sleep_lists t tick k L)"
proof -
  note p = kinv_parts [OF v, unfolded t(1)]
  note ok = thread_parts [OF kwf_parts(3) [OF core_parts(1) [OF p(1)] p(3)]]
  note s = core_suspend [OF p(1,3,4) t(2)]
  note tm = core_timer [OF s(2) p(3) s(3) tick]
  let ?k1 = "timed t tick (suspended t k)"
  obtain n where n: "rt_timer_start (Thread_timer t) ?k1 = Some (RT_EOK, timer_started t n ?k1)"
    "kcore T I idle (timer_started t n ?k1) (with_timer t ?k1 (unlink (Tlist t) L))" using tm(2) by blast
  let ?k2 = "timer_started t n ?k1"
  have L: "with_timer t ?k1 (unlink (Tlist t) L) = sleep_lists t tick k L"
  proof -
    have "due ?k1 = due (timed t tick k)" unfolding timed_due by (simp add: due_def fun_eq_iff split: option.split)
    then show ?thesis by (simp add: sleep_lists_def with_timer_def insert_due_def timed_def upd_timer_def)
  qed
  have st: "thread_stat t ?k2 = RT_THREAD_SUSPEND" by (simp add: thread_stat_def set_stat_stat)
  obtain k' where k': "rt_schedule ?k2 = Some k'" "kinv T I idle k' (sleep_lists t tick k L)" "rt_current_thread k' = top_thread (sleep_lists t tick k L)"
    "rt_current_thread k' \<noteq> t" "same_ipcs ?k2 k'" "threads k' = threads ?k2" "timers k' = timers ?k2"
    using core_block [OF n(2) p(3) st] unfolding L by blast
  have "rt_thread_sleep tick k = Some (Block, k')"
    using ok(3,4) s(1) tm(1) n(1) k'(1,4) t(1) by (simp add: rt_thread_sleep_def RT_ASSERT_def after_schedule_def)
  moreover have "due k' (Row (Thread_timer t)) = unat tick"
    using k'(5,7) by (simp add: due_def same_ipcs_def timed_def upd_timer_def)
  moreover have "timer_init_tick (timers k' (Thread_timer t)) = tick" using k'(7) by (simp add: timed_def upd_timer_def)
  ultimately show ?thesis using k' by (intro exI [of _ k']) (simp add: same_ipcs_def)
qed

subsection \<open>Semaphores\<close>

lemma sem_valid:
  assumes "kcore T I idle k L" and "Sem_at s \<in> I"
  shows "is_sem s k = Some ()" and "L (Suspend (Sem_at s)) \<noteq> [] \<Longrightarrow> sem_value k s = 0"
  using kwf_parts(4) [OF core_parts(1) [OF assms(1)] assms(2)]
  by (simp_all add: ipc_ok_def is_sem_def RT_ASSERT_def ipc_type_def ipc_addr_def)

lemma core_set_sem:
  assumes c: "kcore T I idle k L" and v: "L (Suspend (Sem_at s)) \<noteq> [] \<Longrightarrow> v = 0"
  shows "kcore T I idle (set_sem s v k) L"
proof (rule core_upd_ipc [OF c])
  show "\<forall>i \<in> I. ipc_ok T (set_sem s v k) L i"
  proof
    fix i assume "i \<in> I"
    then have "ipc_ok T k L i" by (rule kwf_parts(4) [OF core_parts(1) [OF c]])
    then show "ipc_ok T (set_sem s v k) L i"
      using v by (cases i; cases "i = Sem_at s") (auto simp: ipc_ok_def rt_object_get_type_def set_sem_def)
  qed
qed (simp_all add: set_sem_def)

lemma wait_lists_error: "wait_lists i t time (upd_thread u (\<lambda>r. r\<lparr>thread_error := e\<rparr>) k) L = wait_lists i t time k L"
proof -
  let ?k = "upd_thread u (\<lambda>r. r\<lparr>thread_error := e\<rparr>) k"
  have cp: "current_priority (threads ?k v) = current_priority (threads k v)" for v by (simp add: upd_thread_def)
  have "lower pr ?k = lower pr k" for pr using cp by (simp add: lower_def fun_eq_iff split: option.split)
  moreover have "due (timed t time ?k) = due (timed t time k)"
    unfolding timed_due by (simp add: due_def upd_thread_def fun_eq_iff split: option.split)
  ultimately show ?thesis using cp
    by (simp add: wait_lists_def waiting_def insert_waiting_def with_timer_def insert_due_def Let_def) (simp add: upd_thread_def timed_def upd_timer_def)
qed

text \<open>The caller waits for \<open>i\<close>.\<close>

lemma wait_ok:
  assumes c: "kcore T I idle k L" and t: "t \<in> T" "thread_stat t k = RT_THREAD_READY" "t \<noteq> idle" and i: "i \<in> I" "can_wait k i"
    and time: "time_ok time"
  shows "\<exists>k1 k'. suspend_for i t time k = Some k1 \<and> rt_schedule k1 = Some k' \<and> kinv T I idle k' (wait_lists i t time k L) \<and>
     same_ipcs k k' \<and> threads k' = (threads k)(t := set_stat RT_THREAD_SUSPEND (threads k t)) \<and> rt_current_thread k' \<noteq> t \<and>
     rt_current_thread k' = top_thread (wait_lists i t time k L)"
proof -
  obtain k1 where k1: "suspend_for i t time k = Some k1" "kcore T I idle k1 (wait_lists i t time k L)" "same_ipcs k k1"
    "threads k1 = (threads k)(t := set_stat RT_THREAD_SUSPEND (threads k t))"
    using core_suspend_for [OF c t i time] by blast
  have "thread_stat t k1 = RT_THREAD_SUSPEND" by (simp add: thread_stat_def k1(4) set_stat_stat)
  then obtain k' where "rt_schedule k1 = Some k'" "kinv T I idle k' (wait_lists i t time k L)" "same_ipcs k1 k'" "threads k' = threads k1"
    "rt_current_thread k' \<noteq> t" "rt_current_thread k' = top_thread (wait_lists i t time k L)"
    using core_block [OF k1(2) t(1)] by blast
  then show ?thesis using k1 by (intro exI [of _ k1] exI [of _ k']) (simp add: same_ipcs_def)
qed

lemma sem_take_ok:
  assumes v: "kinv T I idle k L" and t: "rt_current_thread k = t" "t \<noteq> idle" and s: "Sem_at s \<in> I" and time: "time_ok time"
  shows "0 < sem_value k s \<Longrightarrow> rt_sem_take s time k = Some (Ret RT_EOK, set_sem s (sem_value k s - 1) k) \<and>
      kinv T I idle (set_sem s (sem_value k s - 1) k) L"
    and "sem_value k s = 0 \<Longrightarrow> time = 0 \<Longrightarrow> rt_sem_take s time k = Some (Ret (- RT_ETIMEOUT), k)"
    and "sem_value k s = 0 \<Longrightarrow> time \<noteq> 0 \<Longrightarrow> \<exists>k'. rt_sem_take s time k = Some (Block, k') \<and>
      kinv T I idle k' (wait_lists (Sem_at s) t time k L) \<and> same_ipcs k k' \<and>
      threads k' = (threads k)(t := set_stat RT_THREAD_SUSPEND ((threads k t)\<lparr>thread_error := RT_EOK\<rparr>)) \<and>
      rt_current_thread k' = top_thread (wait_lists (Sem_at s) t time k L)"
proof -
  note p = kinv_parts [OF v, unfolded t(1)]
  note sv = sem_valid [OF p(1) s]
  show "0 < sem_value k s \<Longrightarrow> rt_sem_take s time k = Some (Ret RT_EOK, set_sem s (sem_value k s - 1) k) \<and>
      kinv T I idle (set_sem s (sem_value k s - 1) k) L"
  proof (rule conjI)
    assume pos: "0 < sem_value k s"
    show "rt_sem_take s time k = Some (Ret RT_EOK, set_sem s (sem_value k s - 1) k)" using pos sv(1) by (simp add: rt_sem_take_def)
    have "kcore T I idle (set_sem s (sem_value k s - 1) k) L" using pos sv(2) by (intro core_set_sem [OF p(1)]) auto
    then show "kinv T I idle (set_sem s (sem_value k s - 1) k) L"
      using p(2) by (simp add: kinv_def runs_def thread_stat_def set_sem_def)
  qed
  show "sem_value k s = 0 \<Longrightarrow> time = 0 \<Longrightarrow> rt_sem_take s time k = Some (Ret (- RT_ETIMEOUT), k)"
    using sv(1) by (simp add: rt_sem_take_def)
  assume z: "sem_value k s = 0" and nz: "time \<noteq> 0"
  let ?k = "upd_thread t (\<lambda>r. r\<lparr>thread_error := RT_EOK\<rparr>) k"
  have c: "kcore T I idle ?k L" by (rule core_upd_thread [OF p(1,3)]) (simp_all add: RT_EOK_def RT_EINTR_def)
  have st: "thread_stat t ?k = RT_THREAD_READY" using p(4) by (simp add: thread_stat_def upd_thread_def)
  have cw: "can_wait ?k (Sem_at s)" using z by (simp add: can_wait_def upd_thread_def)
  obtain k1 k' where k': "suspend_for (Sem_at s) t time ?k = Some k1" "rt_schedule k1 = Some k'"
    "kinv T I idle k' (wait_lists (Sem_at s) t time k L)" "same_ipcs ?k k'"
    "threads k' = (threads ?k)(t := set_stat RT_THREAD_SUSPEND (threads ?k t))" "rt_current_thread k' \<noteq> t"
    "rt_current_thread k' = top_thread (wait_lists (Sem_at s) t time k L)"
    using wait_ok [OF c p(3) st t(2) s cw time] unfolding wait_lists_error by blast
  have "rt_sem_take s time k = Some (Block, k')"
    using sv(1) z nz thread_context [OF v] k'(1,2,6) t(1) by (simp add: rt_sem_take_def rt_thread_self_def after_schedule_def)
  then show "\<exists>k'. rt_sem_take s time k = Some (Block, k') \<and>
      kinv T I idle k' (wait_lists (Sem_at s) t time k L) \<and> same_ipcs k k' \<and>
      threads k' = (threads k)(t := set_stat RT_THREAD_SUSPEND ((threads k t)\<lparr>thread_error := RT_EOK\<rparr>)) \<and>
      rt_current_thread k' = top_thread (wait_lists (Sem_at s) t time k L)"
    using k' by (intro exI [of _ k']) (simp add: same_ipcs_def upd_thread_def)
qed

text \<open>The first waiting thread is woken.\<close>

lemma first_waiting:
  assumes c: "kcore T I idle k L" and ne: "L (Suspend i) \<noteq> []"
  obtains u ws where "L (Suspend i) = Tlist u # ws" and "first_thread (Suspend i) k = Some u" and "u \<in> T" and "thread_stat u k = RT_THREAD_SUSPEND"
proof -
  note l = kwf_parts(1) [OF core_parts(1) [OF c]]
  obtain n ws where n: "L (Suspend i) = n # ws" using ne by (meson neq_Nil_conv)
  then obtain u where u: "u \<in> T" "n = Tlist u" using thread_nodes [OF l, of n i] by auto
  have "first_thread (Suspend i) k = Some u" using lists_first [OF l, of "Suspend i"] n u by (simp add: first_thread_def)
  moreover have "thread_stat u k = RT_THREAD_SUSPEND"
  proof -
    note okt = kwf_parts(3) [OF core_parts(1) [OF c] u(1)]
    have "Tlist u \<in> set (L (Suspend i))" using n u by simp
    then have "thread_stat u k \<noteq> RT_THREAD_READY" using thread_parts(7) [OF okt] by auto
    then show ?thesis using thread_parts(6) [OF okt] by blast
  qed
  ultimately show thesis using that n u by blast
qed

lemma sem_release_ok:
  assumes v: "kinv T I idle k L" and s: "Sem_at s \<in> I"
  shows "L (Suspend (Sem_at s)) = [] \<Longrightarrow> rt_sem_release s k = Some (RT_EOK, set_sem s (sem_value k s + 1) k) \<and>
      kinv T I idle (set_sem s (sem_value k s + 1) k) L"
    and "L (Suspend (Sem_at s)) = Tlist u # ws \<Longrightarrow> u \<in> T \<and> (\<exists>k'. rt_sem_release s k = Some (RT_EOK, k') \<and>
      kinv T I idle k' (made_ready u (prio u k) L) \<and> same_ipcs k k' \<and>
      threads k' = (threads k)(u := set_stat RT_THREAD_READY (threads k u)) \<and> rt_current_thread k' = top_thread (made_ready u (prio u k) L))"
proof -
  note p = kinv_parts [OF v]
  note sv = sem_valid [OF p(1) s]
  note l = kwf_parts(1) [OF core_parts(1) [OF p(1)]]
  have e: "rt_list_isempty (Suspend (Sem_at s)) (klinks k) \<longleftrightarrow> L (Suspend (Sem_at s)) = []" by (rule lists_isempty [OF l]) simp
  show "rt_sem_release s k = Some (RT_EOK, set_sem s (sem_value k s + 1) k) \<and> kinv T I idle (set_sem s (sem_value k s + 1) k) L"
    if "L (Suspend (Sem_at s)) = []"
  proof -
    have "kcore T I idle (set_sem s (sem_value k s + 1) k) L" using that by (intro core_set_sem [OF p(1)]) simp
    then show ?thesis using p(2) e that sv(1) by (simp add: kinv_def runs_def thread_stat_def rt_sem_release_def) (simp add: set_sem_def)
  qed
  show "u \<in> T \<and> (\<exists>k'. rt_sem_release s k = Some (RT_EOK, k') \<and> kinv T I idle k' (made_ready u (prio u k) L) \<and> same_ipcs k k' \<and>
      threads k' = (threads k)(u := set_stat RT_THREAD_READY (threads k u)) \<and> rt_current_thread k' = top_thread (made_ready u (prio u k) L))"
    if ne: "L (Suspend (Sem_at s)) = Tlist u # ws"
  proof -
    have "L (Suspend (Sem_at s)) \<noteq> []" using ne by simp
    then have u: "first_thread (Suspend (Sem_at s)) k = Some u" "u \<in> T" "thread_stat u k = RT_THREAD_SUSPEND"
      using first_waiting [OF p(1)] ne by (metis list.inject node.inject(1))+
    note r = core_resume [OF p(1) u(2,3)]
    let ?L = "made_ready u (prio u k) L"
    note sc = core_schedule [OF r(2)]
    have "rt_sem_release s k = Some (RT_EOK, switch_to (top_thread ?L) (of_nat (top_priority ?L)) (woken u k))"
      using sv(1) e ne u(1) r(1) sc(1) by (simp add: rt_sem_release_def rt_ipc_list_resume_def)
    then show ?thesis using sc(2) u(2) by (auto simp: same_ipcs_def)
  qed
qed

end
