(* ===== verification/MutexInv.thy ===== *)
theory MutexInv imports IpcInv begin

text \<open>The mutex calls: ownership, priority inheritance, and handing over to the first waiting thread.\<close>

lemma mutex_valid:
  assumes "kcore T I idle k L" and "Mutex_at m \<in> I"
  shows "is_mutex m k = Some ()" and "mutex_ok T (mutexes k m) (L (Suspend (Mutex_at m)) \<noteq> [])"
  using kwf_parts(4) [OF core_parts(1) [OF assms(1)] assms(2)]
  by (simp_all add: ipc_ok_def is_mutex_def RT_ASSERT_def ipc_type_def ipc_addr_def)

lemma core_upd_mutex:
  assumes c: "kcore T I idle k L" and m: "mutex_ok T (f (mutexes k m)) (L (Suspend (Mutex_at m)) \<noteq> [])"
  shows "kcore T I idle (upd_mutex m f k) L"
proof (rule core_upd_ipc [OF c])
  show "\<forall>i \<in> I. ipc_ok T (upd_mutex m f k) L i"
  proof
    fix i assume "i \<in> I"
    then have "ipc_ok T k L i" by (rule kwf_parts(4) [OF core_parts(1) [OF c]])
    then show "ipc_ok T (upd_mutex m f k) L i"
      using m by (cases i; cases "i = Mutex_at m") (auto simp: ipc_ok_def rt_object_get_type_def upd_mutex_def)
  qed
qed (simp_all add: upd_mutex_def)

lemma upd_mutex_fields [simp]:
  "threads (upd_mutex m f k) = threads k" "rt_current_thread (upd_mutex m f k) = rt_current_thread k" "klinks (upd_mutex m f k) = klinks k"
  "timers (upd_mutex m f k) = timers k" "objects (upd_mutex m f k) = objects k" "rt_tick (upd_mutex m f k) = rt_tick k"
  "sem_value (upd_mutex m f k) = sem_value k" "mutexes (upd_mutex m f k) = (mutexes k)(m := f (mutexes k m))"
  "rt_interrupt_nest (upd_mutex m f k) = rt_interrupt_nest k"
  "rt_scheduler_lock_nest (upd_mutex m f k) = rt_scheduler_lock_nest k"
  by (simp_all add: upd_mutex_def)

lemma upd_thread_fields [simp]:
  "threads (upd_thread t f k) = (threads k)(t := f (threads k t))" "rt_current_thread (upd_thread t f k) = rt_current_thread k"
  "klinks (upd_thread t f k) = klinks k" "timers (upd_thread t f k) = timers k" "objects (upd_thread t f k) = objects k"
  "rt_tick (upd_thread t f k) = rt_tick k" "sem_value (upd_thread t f k) = sem_value k" "mutexes (upd_thread t f k) = mutexes k"
  "rt_interrupt_nest (upd_thread t f k) = rt_interrupt_nest k" "rt_scheduler_lock_nest (upd_thread t f k) = rt_scheduler_lock_nest k"
  by (simp_all add: upd_thread_def)

definition no_error :: "u32 \<Rightarrow> kernel \<Rightarrow> kernel" where
  "no_error t k = upd_thread t (\<lambda>r. r\<lparr>thread_error := RT_EOK\<rparr>) k"

definition locked :: "u32 \<Rightarrow> u8 \<Rightarrow> rt_mutex \<Rightarrow> rt_mutex" where
  "locked t p r = r\<lparr>mutex_value := 0, mutex_owner := t, original_priority := p, mutex_hold := mutex_hold r + 1\<rparr>"

lemma core_error:
  assumes "kcore T I idle k L" and "t \<in> T" and "e \<in> {RT_EOK, - RT_ERROR, - RT_ETIMEOUT}"
  shows "kcore T I idle (upd_thread t (\<lambda>r. r\<lparr>thread_error := e\<rparr>) k) L"
  by (rule core_upd_thread [OF assms(1,2)]) (use assms(3) in simp_all)

text \<open>What is fixed when the caller has to wait: the owner inherits the priority, and the caller is on the list.\<close>

definition inherited :: "u32 \<Rightarrow> u32 \<Rightarrow> kernel \<Rightarrow> lists \<Rightarrow> lists" where
  "inherited t ow k L = (if prio t k < prio ow k then reprioritized ow (prio t k) k L else L)"

lemma mutex_take_ok:
  assumes v: "kinv T I idle k L" and t: "rt_current_thread k = t" "t \<noteq> idle" and m: "Mutex_at m \<in> I" and time: "time_ok time"
  defines "ow \<equiv> mutex_owner (mutexes k m)"
  shows "ow = t \<Longrightarrow> rt_mutex_take m time k = Some (Ret RT_EOK, upd_mutex m (\<lambda>r. r\<lparr>mutex_hold := mutex_hold r + 1\<rparr>) (no_error t k)) \<and>
      kinv T I idle (upd_mutex m (\<lambda>r. r\<lparr>mutex_hold := mutex_hold r + 1\<rparr>) (no_error t k)) L"
    and "ow = 0 \<Longrightarrow> rt_mutex_take m time k = Some (Ret RT_EOK, upd_mutex m (locked t (current_priority (threads k t))) (no_error t k)) \<and>
      kinv T I idle (upd_mutex m (locked t (current_priority (threads k t))) (no_error t k)) L"
    and "ow \<noteq> 0 \<Longrightarrow> ow \<noteq> t \<Longrightarrow> time = 0 \<Longrightarrow>
      rt_mutex_take m time k = Some (Ret (- RT_ETIMEOUT), upd_thread t (\<lambda>r. r\<lparr>thread_error := - RT_ETIMEOUT\<rparr>) k) \<and>
      kinv T I idle (upd_thread t (\<lambda>r. r\<lparr>thread_error := - RT_ETIMEOUT\<rparr>) k) L"
    and "ow \<noteq> 0 \<Longrightarrow> ow \<noteq> t \<Longrightarrow> time \<noteq> 0 \<Longrightarrow> \<exists>k1 k'. rt_mutex_take m time k = Some (Block, k') \<and>
      kinv T I idle k' (wait_lists (Mutex_at m) t time k1 (inherited t ow k L)) \<and> same_ipcs k k' \<and>
      prio ow k' = min (prio ow k) (prio t k) \<and> prio t k' = prio t k \<and> thread_stat t k' = RT_THREAD_SUSPEND \<and>
      (\<forall>u. u \<noteq> t \<longrightarrow> u \<noteq> ow \<longrightarrow> threads k' u = threads k u) \<and> thread_error (threads k' t) = RT_EOK \<and>
      rt_current_thread k' = top_thread (wait_lists (Mutex_at m) t time k1 (inherited t ow k L))"
proof -
  note p = kinv_parts [OF v, unfolded t(1)]
  note mv = mutex_valid [OF p(1) m]
  let ?k = "no_error t k"
  have ctx: "RT_DEBUG_IN_THREAD_CONTEXT k = Some ()" by (rule thread_context [OF v])
  have c: "kcore T I idle ?k L" unfolding no_error_def by (rule core_error [OF p(1,3)]) (simp add: RT_EOK_def RT_EINTR_def)
  have st: "thread_stat t ?k = RT_THREAD_READY" using p(4) by (simp add: thread_stat_def no_error_def)
  have fields: "mutexes ?k = mutexes k" "rt_current_thread ?k = t" "current_priority (threads ?k u) = current_priority (threads k u)" for u
    using t(1) by (simp_all add: no_error_def)
  have step: "rt_mutex_take m time k =
     (if ow = t then Some (Ret RT_EOK, upd_mutex m (\<lambda>r. r\<lparr>mutex_hold := mutex_hold r + 1\<rparr>) ?k)
      else do { ((r, suspended), k) \<leftarrow> mutex_again m t time ?k;
                if \<not> suspended then Some (Ret r, k) else if rt_current_thread k = t then mutex_take_resumed m t time k else Some (Block, k) })"
    using ctx mv(1) t(1) by (simp add: rt_mutex_take_def rt_thread_self_def no_error_def ow_def Let_def)
  have runs: "runs T (upd_mutex m f ?k)" for f using p(3,4) t(1) by (simp add: runs_def thread_stat_def no_error_def)
  show "rt_mutex_take m time k = Some (Ret RT_EOK, upd_mutex m (\<lambda>r. r\<lparr>mutex_hold := mutex_hold r + 1\<rparr>) ?k) \<and>
      kinv T I idle (upd_mutex m (\<lambda>r. r\<lparr>mutex_hold := mutex_hold r + 1\<rparr>) ?k) L" if "ow = t"
    using step that runs mv(2) core_upd_mutex [OF c, of "\<lambda>r. r\<lparr>mutex_hold := mutex_hold r + 1\<rparr>" m]
    by (simp add: kinv_def fields mutex_ok_def)
  show "rt_mutex_take m time k = Some (Ret RT_EOK, upd_mutex m (locked t (current_priority (threads k t))) ?k) \<and>
      kinv T I idle (upd_mutex m (locked t (current_priority (threads k t))) ?k) L" if "ow = 0"
  proof -
    have m1: "mutex_value (mutexes k m) = 1" "L (Suspend (Mutex_at m)) = []" using mv(2) that by (simp_all add: mutex_ok_def ow_def)
    have "mutex_again m t time ?k = Some ((RT_EOK, False), upd_mutex m (locked t (current_priority (threads k t))) ?k)"
      using m1 by (simp add: mutex_again_def fields upd_mutex_def locked_def no_error_def Let_def)
    moreover have "prio t k < 32" using thread_parts(2) [OF kwf_parts(3) [OF core_parts(1) [OF p(1)] p(3)]] by (simp add: own_mask_def)
    then have "kcore T I idle (upd_mutex m (locked t (current_priority (threads k t))) ?k) L"
      using p(3,5) m1 by (intro core_upd_mutex [OF c]) (simp add: mutex_ok_def locked_def)
    ultimately show ?thesis using step that p(5) runs by (simp add: kinv_def)
  qed
  have vz: "mutex_value (mutexes k m) = 0 \<and> ow \<in> T" if "ow \<noteq> 0" using mv(2) that by (simp add: mutex_ok_def ow_def)
  show "rt_mutex_take m time k = Some (Ret (- RT_ETIMEOUT), upd_thread t (\<lambda>r. r\<lparr>thread_error := - RT_ETIMEOUT\<rparr>) k) \<and>
      kinv T I idle (upd_thread t (\<lambda>r. r\<lparr>thread_error := - RT_ETIMEOUT\<rparr>) k) L" if o: "ow \<noteq> 0" "ow \<noteq> t" "time = 0"
  proof -
    have "upd_thread t (\<lambda>r. r\<lparr>thread_error := - RT_ETIMEOUT\<rparr>) ?k = upd_thread t (\<lambda>r. r\<lparr>thread_error := - RT_ETIMEOUT\<rparr>) k"
      by (simp add: no_error_def upd_thread_def)
    then have "mutex_again m t time ?k = Some ((- RT_ETIMEOUT, False), upd_thread t (\<lambda>r. r\<lparr>thread_error := - RT_ETIMEOUT\<rparr>) k)"
      using vz o by (simp add: mutex_again_def fields)
    moreover have "kcore T I idle (upd_thread t (\<lambda>r. r\<lparr>thread_error := - RT_ETIMEOUT\<rparr>) k) L"
      by (rule core_error [OF p(1,3)]) (simp add: RT_ETIMEOUT_def RT_EINTR_def)
    ultimately show ?thesis using step o p(3,4) t(1) by (simp add: kinv_def runs_def thread_stat_def)
  qed
  show "\<exists>k1 k'. rt_mutex_take m time k = Some (Block, k') \<and>
      kinv T I idle k' (wait_lists (Mutex_at m) t time k1 (inherited t ow k L)) \<and> same_ipcs k k' \<and>
      prio ow k' = min (prio ow k) (prio t k) \<and> prio t k' = prio t k \<and> thread_stat t k' = RT_THREAD_SUSPEND \<and>
      (\<forall>u. u \<noteq> t \<longrightarrow> u \<noteq> ow \<longrightarrow> threads k' u = threads k u) \<and> thread_error (threads k' t) = RT_EOK \<and>
      rt_current_thread k' = top_thread (wait_lists (Mutex_at m) t time k1 (inherited t ow k L))"
    if o: "ow \<noteq> 0" "ow \<noteq> t" "time \<noteq> 0"
  proof -
    have low: "prio t k < 32" using thread_parts(2) [OF kwf_parts(3) [OF core_parts(1) [OF p(1)] p(3)]] by (simp add: own_mask_def)
    have rp: "reprioritized ow q ?k L = reprioritized ow q k L" for q by (simp add: reprioritized_def thread_stat_def no_error_def)
    define pri where "pri = (if prio t k < prio ow k then rt_thread_control ow RT_THREAD_CTRL_CHANGE_PRIORITY (current_priority (threads k t)) ?k else Some (RT_EOK, ?k))"
    obtain k1 where k1: "pri = Some (RT_EOK, k1)" "kcore T I idle k1 (inherited t ow k L)" "same_ipcs ?k k1" "rt_current_thread k1 = t"
      "\<forall>u. u \<noteq> ow \<longrightarrow> threads k1 u = threads ?k u" "prio ow k1 = min (prio ow k) (prio t k)"
    proof (cases "prio t k < prio ow k")
      case True
      have "ow \<in> T" using vz o(1) by simp
      from core_priority [OF c this low]
      obtain k1 where k1: "rt_thread_control ow RT_THREAD_CTRL_CHANGE_PRIORITY (current_priority (threads k t)) ?k = Some (RT_EOK, k1)"
        "kcore T I idle k1 (reprioritized ow (prio t k) k L)" "same_ipcs ?k k1" "rt_current_thread k1 = t"
        "threads k1 = (threads ?k)(ow := (if thread_stat ow ?k = RT_THREAD_READY then set_stat RT_THREAD_READY else id)
           (with_priority (current_priority (threads k t)) (threads ?k ow)))"
        unfolding rp fields by blast
      then have "prio ow k1 = prio t k" by simp
      then show ?thesis using that [of k1] k1 True by (simp add: pri_def inherited_def)
    next
      case False
      then show ?thesis using that [of ?k] c fields by (simp add: pri_def inherited_def same_ipcs_def)
    qed
    have th1: "threads k1 t = threads ?k t" using k1(5) o(2) by simp
    then have st1: "thread_stat t k1 = RT_THREAD_READY" using st by (simp add: thread_stat_def)
    have cw: "can_wait k1 (Mutex_at m)" using k1(3) o(1) fields by (simp add: can_wait_def same_ipcs_def ow_def)
    obtain k2 k' where k': "suspend_for (Mutex_at m) t time k1 = Some k2" "rt_schedule k2 = Some k'"
      "kinv T I idle k' (wait_lists (Mutex_at m) t time k1 (inherited t ow k L))" "same_ipcs k1 k'"
      "threads k' = (threads k1)(t := set_stat RT_THREAD_SUSPEND (threads k1 t))" "rt_current_thread k' \<noteq> t"
      "rt_current_thread k' = top_thread (wait_lists (Mutex_at m) t time k1 (inherited t ow k L))"
      using wait_ok [OF k1(2) p(3) st1 t(2) m cw time] by blast
    have "mutex_again m t time ?k = Some ((RT_EOK, True), k')"
      using vz o k1(1) k'(1,2) by (simp add: mutex_again_def fields pri_def RT_ASSERT_def ow_def word_less_nat_alt split: if_splits)
    then have "rt_mutex_take m time k = Some (Block, k')" using step o(2) k'(6) by simp
    moreover have "same_ipcs k k'" using k1(3) k'(4) by (simp add: same_ipcs_def no_error_def)
    moreover have "threads k' u = threads k u" if "u \<noteq> t" "u \<noteq> ow" for u using k'(5) k1(5) that by (simp add: no_error_def)
    ultimately show ?thesis using k'(3,5,7) k1(6) o(2) th1
      by (intro exI [of _ k1] exI [of _ k']) (simp add: thread_stat_def set_stat_stat no_error_def)
  qed
qed

subsection \<open>Release\<close>

definition restored :: "u32 \<Rightarrow> u32 \<Rightarrow> kernel \<Rightarrow> lists \<Rightarrow> lists" where
  "restored m t k L =
     (if original_priority (mutexes k m) \<noteq> current_priority (threads k t)
      then reprioritized t (unat (original_priority (mutexes k m))) k L else L)"

definition unlocked :: "rt_mutex \<Rightarrow> rt_mutex" where
  "unlocked r = r\<lparr>mutex_value := mutex_value r + 1, mutex_owner := 0, original_priority := 0xff\<rparr>"

definition hand_over :: "u32 \<Rightarrow> kernel \<Rightarrow> (bool \<times> kernel) option" where
  "hand_over m k =
     (if \<not> rt_list_isempty (Suspend (Mutex_at m)) (klinks k)
      then do {
        t \<leftarrow> first_thread (Suspend (Mutex_at m)) k;
        let k = upd_mutex m (\<lambda>r. r\<lparr>mutex_owner := t, original_priority := current_priority (threads k t), mutex_hold := mutex_hold r + 1\<rparr>) k;
        (_, k) \<leftarrow> rt_ipc_list_resume (Suspend (Mutex_at m)) k;
        Some (True, k) }
      else Some (False, upd_mutex m unlocked k))"

lemma give_up_parts:
  "mutex_give_up m k = do {
     (_, k) \<leftarrow> (if original_priority (mutexes k m) \<noteq> current_priority (threads k (mutex_owner (mutexes k m)))
       then rt_thread_control (mutex_owner (mutexes k m)) RT_THREAD_CTRL_CHANGE_PRIORITY (original_priority (mutexes k m)) k else Some (RT_EOK, k));
     hand_over m k }"
  by (simp only: mutex_give_up_def hand_over_def unlocked_def [abs_def] Let_def)

definition handed :: "u32 \<Rightarrow> u8 \<Rightarrow> rt_mutex \<Rightarrow> rt_mutex" where
  "handed u p r = r\<lparr>mutex_owner := u, original_priority := p, mutex_hold := mutex_hold r + 1\<rparr>"

lemma reprioritized_waiters:
  assumes "kcore T I idle k L" and "t \<in> T"
  shows "reprioritized t p k L (Suspend i) = L (Suspend i)"
proof (cases "thread_stat t k = RT_THREAD_READY")
  case True
  then have "Tlist t \<notin> set (L (Suspend i))"
    using thread_parts(7) [OF kwf_parts(3) [OF core_parts(1) [OF assms(1)] assms(2)]] by auto
  then show ?thesis by (simp add: reprioritized_def unlink_def)
qed (simp add: reprioritized_def)

lemma core_restore:
  assumes c: "kcore T I idle k L" and t: "t \<in> T" "thread_stat t k = RT_THREAD_READY" and orig: "unat orig < 32"
  defines "L1 \<equiv> if orig \<noteq> current_priority (threads k t) then reprioritized t (unat orig) k L else L"
  shows "\<exists>k1. (if orig \<noteq> current_priority (threads k t) then rt_thread_control t RT_THREAD_CTRL_CHANGE_PRIORITY orig k else Some (RT_EOK, k))
       = Some (RT_EOK, k1) \<and> kcore T I idle k1 L1 \<and> same_ipcs k k1 \<and> rt_current_thread k1 = rt_current_thread k \<and>
       current_priority (threads k1 t) = orig \<and> thread_stat t k1 = RT_THREAD_READY \<and> (\<forall>u. u \<noteq> t \<longrightarrow> threads k1 u = threads k u) \<and>
       (\<forall>i. L1 (Suspend i) = L (Suspend i))"
proof (cases "orig = current_priority (threads k t)")
  case True
  then show ?thesis using c t(2) by (simp add: L1_def same_ipcs_def)
next
  case False
  obtain k1 where "rt_thread_control t RT_THREAD_CTRL_CHANGE_PRIORITY orig k = Some (RT_EOK, k1)" "kcore T I idle k1 (reprioritized t (unat orig) k L)"
    "same_ipcs k k1" "rt_current_thread k1 = rt_current_thread k"
    "threads k1 = (threads k)(t := (if thread_stat t k = RT_THREAD_READY then set_stat RT_THREAD_READY else id) (with_priority orig (threads k t)))"
    using core_priority [OF c t(1) orig] by blast
  then show ?thesis using False t(2) reprioritized_waiters [OF c t(1)]
    by (intro exI [of _ k1]) (simp add: L1_def thread_stat_def set_stat_stat)
qed

lemma mutex_release_ok:
  assumes v: "kinv T I idle k L" and t: "rt_current_thread k = t" and m: "Mutex_at m \<in> I"
  defines "r \<equiv> mutexes k m"
  defines "L1 \<equiv> restored m t k L"
  shows "mutex_owner r \<noteq> t \<Longrightarrow> rt_mutex_release m k = Some (- RT_ERROR, upd_thread t (\<lambda>r. r\<lparr>thread_error := - RT_ERROR\<rparr>) k) \<and>
      kinv T I idle (upd_thread t (\<lambda>r. r\<lparr>thread_error := - RT_ERROR\<rparr>) k) L"
    and "mutex_owner r = t \<Longrightarrow> mutex_hold r \<noteq> 1 \<Longrightarrow>
      rt_mutex_release m k = Some (RT_EOK, upd_mutex m (\<lambda>r. r\<lparr>mutex_hold := mutex_hold r - 1\<rparr>) k) \<and>
      kinv T I idle (upd_mutex m (\<lambda>r. r\<lparr>mutex_hold := mutex_hold r - 1\<rparr>) k) L"
    and "mutex_owner r = t \<Longrightarrow> mutex_hold r = 1 \<Longrightarrow> L (Suspend (Mutex_at m)) = [] \<Longrightarrow> \<exists>k'. rt_mutex_release m k = Some (RT_EOK, k') \<and>
      kinv T I idle k' L1 \<and> mutexes k' = (mutexes k)(m := unlocked (r\<lparr>mutex_hold := 0\<rparr>)) \<and> sem_value k' = sem_value k \<and> rt_tick k' = rt_tick k \<and>
      rt_current_thread k' = t \<and> current_priority (threads k' t) = original_priority r \<and> (\<forall>u. u \<noteq> t \<longrightarrow> threads k' u = threads k u)"
    and "mutex_owner r = t \<Longrightarrow> mutex_hold r = 1 \<Longrightarrow> L (Suspend (Mutex_at m)) = Tlist u # ws \<Longrightarrow> u \<in> T \<and> u \<noteq> t \<and>
      (\<exists>k'. rt_mutex_release m k = Some (RT_EOK, k') \<and> kinv T I idle k' (made_ready u (prio u k) L1) \<and>
      mutexes k' = (mutexes k)(m := handed u (current_priority (threads k u)) (r\<lparr>mutex_hold := 0\<rparr>)) \<and> sem_value k' = sem_value k \<and>
      rt_tick k' = rt_tick k \<and> current_priority (threads k' t) = original_priority r \<and> thread_stat u k' = RT_THREAD_READY \<and>
      rt_current_thread k' = top_thread (made_ready u (prio u k) L1))"
proof -
  note p = kinv_parts [OF v, unfolded t]
  note mv = mutex_valid [OF p(1) m]
  have ctx: "RT_DEBUG_IN_THREAD_CONTEXT k = Some ()" by (rule thread_context [OF v])
  let ?h = "\<lambda>r. r\<lparr>mutex_hold := mutex_hold r - 1\<rparr>" and ?e = "upd_thread t (\<lambda>r. r\<lparr>thread_error := - RT_ERROR\<rparr>) k"
  have "kcore T I idle ?e L" by (rule core_error [OF p(1,3)]) (simp add: RT_ERROR_def RT_EINTR_def)
  then have "kinv T I idle ?e L" using p(3,4) t by (simp add: kinv_def runs_def thread_stat_def)
  then show "rt_mutex_release m k = Some (- RT_ERROR, ?e) \<and> kinv T I idle ?e L" if "mutex_owner r \<noteq> t"
    using that ctx mv(1) t by (simp add: rt_mutex_release_def rt_thread_self_def r_def)
  have okh: "kcore T I idle (upd_mutex m ?h k) L" using mv(2) by (intro core_upd_mutex [OF p(1)]) (simp add: mutex_ok_def)
  then have "kinv T I idle (upd_mutex m ?h k) L" using p(2) by (simp add: kinv_def runs_def thread_stat_def)
  then show "rt_mutex_release m k = Some (RT_EOK, upd_mutex m ?h k) \<and> kinv T I idle (upd_mutex m ?h k) L"
    if "mutex_owner r = t" "mutex_hold r \<noteq> 1"
    using that ctx mv(1) t by (simp add: rt_mutex_release_def rt_thread_self_def r_def)
  have mok: "mutex_value r = 0" "unat (original_priority r) < 32" if "mutex_owner r = t"
    using mv(2) that p(5) by (simp_all add: mutex_ok_def r_def)
  have step: "rt_mutex_release m k = do { (need_schedule, k) \<leftarrow> mutex_give_up m (upd_mutex m ?h k);
      k \<leftarrow> (if need_schedule then rt_schedule k else Some k); Some (RT_EOK, k) }" if "mutex_owner r = t" "mutex_hold r = 1"
    using that ctx mv(1) t by (simp add: rt_mutex_release_def rt_thread_self_def r_def)
  have st: "thread_stat t (upd_mutex m ?h k) = RT_THREAD_READY" using p(4) by (simp add: thread_stat_def)
  have L1': "L1 = (if original_priority r \<noteq> current_priority (threads (upd_mutex m ?h k) t)
      then reprioritized t (unat (original_priority r)) (upd_mutex m ?h k) L else L)"
    by (simp add: L1_def restored_def r_def reprioritized_def thread_stat_def)
  have restored: "\<exists>k1. (if original_priority r \<noteq> current_priority (threads k t) then
        rt_thread_control t RT_THREAD_CTRL_CHANGE_PRIORITY (original_priority r) (upd_mutex m ?h k) else Some (RT_EOK, upd_mutex m ?h k)) = Some (RT_EOK, k1) \<and>
      kcore T I idle k1 L1 \<and> same_ipcs (upd_mutex m ?h k) k1 \<and> rt_current_thread k1 = t \<and>
      current_priority (threads k1 t) = original_priority r \<and> thread_stat t k1 = RT_THREAD_READY \<and> (\<forall>u. u \<noteq> t \<longrightarrow> threads k1 u = threads k u) \<and>
      (\<forall>i. L1 (Suspend i) = L (Suspend i))" if "mutex_owner r = t"
    using core_restore [OF okh p(3) st mok(2) [OF that], folded L1'] t by simp
  have give: "mutex_give_up m (upd_mutex m ?h k) = (if original_priority r \<noteq> current_priority (threads k t) then
        rt_thread_control t RT_THREAD_CTRL_CHANGE_PRIORITY (original_priority r) (upd_mutex m ?h k) else Some (RT_EOK, upd_mutex m ?h k))
      \<bind> (\<lambda>(_, k). hand_over m k)" if "mutex_owner r = t"
    using that unfolding give_up_parts r_def by simp
  show "\<exists>k'. rt_mutex_release m k = Some (RT_EOK, k') \<and>
      kinv T I idle k' L1 \<and> mutexes k' = (mutexes k)(m := unlocked (r\<lparr>mutex_hold := 0\<rparr>)) \<and> sem_value k' = sem_value k \<and> rt_tick k' = rt_tick k \<and>
      rt_current_thread k' = t \<and> current_priority (threads k' t) = original_priority r \<and> (\<forall>u. u \<noteq> t \<longrightarrow> threads k' u = threads k u)"
    if o: "mutex_owner r = t" "mutex_hold r = 1" "L (Suspend (Mutex_at m)) = []"
  proof -
    obtain k1 where k1: "(if original_priority r \<noteq> current_priority (threads k t) then
        rt_thread_control t RT_THREAD_CTRL_CHANGE_PRIORITY (original_priority r) (upd_mutex m ?h k) else Some (RT_EOK, upd_mutex m ?h k)) = Some (RT_EOK, k1)"
      "kcore T I idle k1 L1" "same_ipcs (upd_mutex m ?h k) k1" "rt_current_thread k1 = t"
      "current_priority (threads k1 t) = original_priority r" "thread_stat t k1 = RT_THREAD_READY" "\<forall>u. u \<noteq> t \<longrightarrow> threads k1 u = threads k u"
      "\<forall>i. L1 (Suspend i) = L (Suspend i)" using restored [OF o(1)] by blast
    have mem: "mutexes k1 m = r\<lparr>mutex_hold := 0\<rparr>" using k1(3) o(2) by (simp add: same_ipcs_def r_def)
    have e: "rt_list_isempty (Suspend (Mutex_at m)) (klinks k1)"
      using lists_isempty [OF kwf_parts(1) [OF core_parts(1) [OF k1(2)]], of "Suspend (Mutex_at m)"] k1(8) o(3) by simp
    have "mutex_give_up m (upd_mutex m ?h k) = Some (False, upd_mutex m unlocked k1)"
      using e by (simp add: give [OF o(1)] k1(1) hand_over_def)
    then have "rt_mutex_release m k = Some (RT_EOK, upd_mutex m unlocked k1)" using step [OF o(1,2)] by simp
    moreover have "kcore T I idle (upd_mutex m unlocked k1) L1"
      using k1(8) o(3) mok(1) [OF o(1)] by (intro core_upd_mutex [OF k1(2)]) (simp add: mem mutex_ok_def unlocked_def)
    moreover have "runs T (upd_mutex m unlocked k1)" using k1(4,6) p(3) by (simp add: runs_def thread_stat_def)
    ultimately show ?thesis using k1(3,4,5,7) mem
      by (intro exI [of _ "upd_mutex m unlocked k1"]) (auto simp: kinv_def same_ipcs_def)
  qed
  show "u \<in> T \<and> u \<noteq> t \<and> (\<exists>k'. rt_mutex_release m k = Some (RT_EOK, k') \<and> kinv T I idle k' (made_ready u (prio u k) L1) \<and>
      mutexes k' = (mutexes k)(m := handed u (current_priority (threads k u)) (r\<lparr>mutex_hold := 0\<rparr>)) \<and> sem_value k' = sem_value k \<and>
      rt_tick k' = rt_tick k \<and> current_priority (threads k' t) = original_priority r \<and> thread_stat u k' = RT_THREAD_READY \<and>
      rt_current_thread k' = top_thread (made_ready u (prio u k) L1))"
    if o: "mutex_owner r = t" "mutex_hold r = 1" "L (Suspend (Mutex_at m)) = Tlist u # ws"
  proof -
    obtain k1 where k1: "(if original_priority r \<noteq> current_priority (threads k t) then
        rt_thread_control t RT_THREAD_CTRL_CHANGE_PRIORITY (original_priority r) (upd_mutex m ?h k) else Some (RT_EOK, upd_mutex m ?h k)) = Some (RT_EOK, k1)"
      "kcore T I idle k1 L1" "same_ipcs (upd_mutex m ?h k) k1" "rt_current_thread k1 = t"
      "current_priority (threads k1 t) = original_priority r" "thread_stat t k1 = RT_THREAD_READY" "\<forall>u. u \<noteq> t \<longrightarrow> threads k1 u = threads k u"
      "\<forall>i. L1 (Suspend i) = L (Suspend i)" using restored [OF o(1)] by blast
    have mem: "mutexes k1 m = r\<lparr>mutex_hold := 0\<rparr>" using k1(3) o(2) by (simp add: same_ipcs_def r_def)
    have ne: "L1 (Suspend (Mutex_at m)) = Tlist u # ws" using k1(8) o(3) by simp
    then have "L1 (Suspend (Mutex_at m)) \<noteq> []" by simp
    then have u: "first_thread (Suspend (Mutex_at m)) k1 = Some u" "u \<in> T" "thread_stat u k1 = RT_THREAD_SUSPEND"
      using first_waiting [OF k1(2)] ne by (metis list.inject node.inject(1))+
    then have ut: "u \<noteq> t" using k1(6) by auto
    then have cu: "current_priority (threads k1 u) = current_priority (threads k u)" using k1(7) by simp
    let ?k2 = "upd_mutex m (handed u (current_priority (threads k u))) k1" and ?L2 = "made_ready u (prio u k) L1"
    have "prio u k < 32" using thread_parts(2) [OF kwf_parts(3) [OF core_parts(1) [OF p(1)] u(2)]] by (simp add: own_mask_def)
    moreover have "u \<noteq> 0" using thread_parts(3) [OF kwf_parts(3) [OF core_parts(1) [OF p(1)] u(2)]] .
    ultimately have c2: "kcore T I idle ?k2 L1"
      using u(2) mok(1) [OF o(1)] by (intro core_upd_mutex [OF k1(2)]) (simp add: mem mutex_ok_def handed_def)
    have st2: "thread_stat u ?k2 = RT_THREAD_SUSPEND" using u(3) by (simp add: thread_stat_def)
    note w = core_resume [OF c2 u(2) st2]
    have c3: "kcore T I idle (woken u ?k2) ?L2" using w(2) cu by simp
    note sc = core_schedule [OF c3]
    let ?k' = "switch_to (top_thread ?L2) (of_nat (top_priority ?L2)) (woken u ?k2)"
    have e: "\<not> rt_list_isempty (Suspend (Mutex_at m)) (klinks k1)"
      using lists_isempty [OF kwf_parts(1) [OF core_parts(1) [OF k1(2)]], of "Suspend (Mutex_at m)"] ne by simp
    have f2: "first_thread (Suspend (Mutex_at m)) ?k2 = Some u" using u(1) by (simp add: first_thread_def)
    have "mutex_give_up m (upd_mutex m ?h k) = Some (True, woken u ?k2)"
      using e u(1) f2 w(1) cu by (simp add: give [OF o(1)] k1(1) hand_over_def handed_def [abs_def] rt_ipc_list_resume_def)
    then have "rt_mutex_release m k = Some (RT_EOK, ?k')" using step [OF o(1,2)] sc(1) by simp
    moreover have "current_priority (threads ?k' t) = original_priority r" using k1(5) ut by simp
    moreover have "thread_stat u ?k' = RT_THREAD_READY" by (simp add: thread_stat_def set_stat_stat)
    moreover have "mutexes ?k' = (mutexes k)(m := handed u (current_priority (threads k u)) (r\<lparr>mutex_hold := 0\<rparr>))" "sem_value ?k' = sem_value k"
      "rt_tick ?k' = rt_tick k" using k1(3) mem by (simp_all add: same_ipcs_def)
    ultimately show ?thesis using sc(2) u(2) ut by (auto simp: same_ipcs_def)
  qed
qed

end
