(* ===== verification/KernelRun.thy ===== *)
theory KernelRun imports MutexInv begin

text \<open>
  Threads that use the kernel: any sequence of calls by the thread that runs, and of ticks. A thread that
  has been suspended in a call finishes it when it runs again. The idle thread executes its loop (idle.c), which
  cleans up closed threads, of which there are none.
\<close>

datatype kcall = Sem_take u32 u32 | Sem_release u32 | Mutex_take u32 u32 | Mutex_release u32 | Sleep u32 | Yield

datatype kevent = Run kcall | Tick

record system =
  kernel_of :: kernel
  pending :: "u32 \<Rightarrow> kcall option"
  returned :: "(u32 \<times> kcall \<times> int) list"

fun start_call :: "kcall \<Rightarrow> kernel \<Rightarrow> (int outcome \<times> kernel) option" where
  "start_call (Sem_take s time) k = rt_sem_take s time k"
| "start_call (Sem_release s) k = do { (r, k) \<leftarrow> rt_sem_release s k; Some (Ret r, k) }"
| "start_call (Mutex_take m time) k = rt_mutex_take m time k"
| "start_call (Mutex_release m) k = do { (r, k) \<leftarrow> rt_mutex_release m k; Some (Ret r, k) }"
| "start_call (Sleep tick) k = rt_thread_sleep tick k"
| "start_call Yield k = do { (r, k) \<leftarrow> rt_thread_yield k; Some (Ret r, k) }"

text \<open>What is left of a call that has suspended the thread \<open>t\<close>.\<close>

fun finish_call :: "kcall \<Rightarrow> u32 \<Rightarrow> kernel \<Rightarrow> (int outcome \<times> kernel) option" where
  "finish_call (Sem_take s time) t k = (let (r, k) = sem_take_resumed t k in Some (Ret r, k))"
| "finish_call (Mutex_take m time) t k = mutex_take_resumed m t time k"
| "finish_call (Sleep tick) t k = (let (r, k) = sleep_resumed t k in Some (Ret r, k))"
| "finish_call c t k = None"

definition note_outcome :: "u32 \<Rightarrow> kcall \<Rightarrow> int outcome \<times> kernel \<Rightarrow> system \<Rightarrow> system" where
  "note_outcome t c rk s =
     (case rk of (Ret r, k) \<Rightarrow> s\<lparr>kernel_of := k, pending := (pending s)(t := None), returned := (t, c, r) # returned s\<rparr>
               | (Block, k) \<Rightarrow> s\<lparr>kernel_of := k, pending := (pending s)(t := Some c)\<rparr>)"

text \<open>One event: the thread that runs finishes its call or makes a new one, or the tick interrupts it.\<close>

fun system_step :: "(nat \<Rightarrow> u32 \<Rightarrow> kernel \<Rightarrow> kernel option) \<Rightarrow> (u32 \<Rightarrow> u32 \<Rightarrow> kernel \<Rightarrow> kernel option) \<Rightarrow> u32 \<Rightarrow> kevent \<Rightarrow> system \<Rightarrow> system option" where
  "system_step user clean idle Tick s = do { k \<leftarrow> SysTick_Handler user (kernel_of s); Some (s\<lparr>kernel_of := k\<rparr>) }"
| "system_step user clean idle (Run c) s =
     (let k = kernel_of s; t = rt_current_thread k
      in if t = idle then do { k \<leftarrow> rt_thread_idle_excute clean k; Some (s\<lparr>kernel_of := k\<rparr>) }
         else case pending s t of
           Some c' \<Rightarrow> do { rk \<leftarrow> finish_call c' t k; Some (note_outcome t c' rk s) }
         | None \<Rightarrow> do { rk \<leftarrow> start_call c k; Some (note_outcome t c rk s) })"

fun system_run :: "(nat \<Rightarrow> u32 \<Rightarrow> kernel \<Rightarrow> kernel option) \<Rightarrow> (u32 \<Rightarrow> u32 \<Rightarrow> kernel \<Rightarrow> kernel option) \<Rightarrow> u32 \<Rightarrow> kevent list \<Rightarrow> system \<Rightarrow> system option" where
  "system_run user clean idle [] s = Some s"
| "system_run user clean idle (e # es) s = do { s \<leftarrow> system_step user clean idle e s; system_run user clean idle es s }"

subsection \<open>Valid calls\<close>

fun call_ok :: "ipc_ptr set \<Rightarrow> kcall \<Rightarrow> bool" where
  "call_ok I (Sem_take s time) = (Sem_at s \<in> I \<and> time_ok time)"
| "call_ok I (Sem_release s) = (Sem_at s \<in> I)"
| "call_ok I (Mutex_take m time) = (Mutex_at m \<in> I \<and> time_ok time)"
| "call_ok I (Mutex_release m) = (Mutex_at m \<in> I)"
| "call_ok I (Sleep tick) = (tick < HALF_TICKS)"
| "call_ok I Yield = True"

fun event_ok :: "ipc_ptr set \<Rightarrow> kevent \<Rightarrow> bool" where
  "event_ok I (Run c) = call_ok I c"
| "event_ok I Tick = True"

fun may_block :: "kcall \<Rightarrow> bool" where
  "may_block (Sem_take _ _) = True"
| "may_block (Mutex_take _ _) = True"
| "may_block (Sleep _) = True"
| "may_block _ = False"

text \<open>The status codes of the calls.\<close>

definition status_ok :: "int \<Rightarrow> bool" where
  "status_ok r \<longleftrightarrow> r \<in> {RT_EOK, - RT_ERROR, - RT_ETIMEOUT}"

definition system_ok :: "u32 set \<Rightarrow> ipc_ptr set \<Rightarrow> u32 \<Rightarrow> system \<Rightarrow> lists \<Rightarrow> bool" where
  "system_ok T I idle s L \<longleftrightarrow> kinv T I idle (kernel_of s) L \<and> (\<forall>t c. pending s t = Some c \<longrightarrow> may_block c) \<and>
     (\<forall>(t, c, r) \<in> set (returned s). status_ok r)"

lemma kinv_cong:
  assumes "kinv T I idle k L" and "klinks k' = klinks k" "rt_thread_ready_priority_group k' = rt_thread_ready_priority_group k"
    "threads k' = threads k" "timers k' = timers k" "objects k' = objects k" "sem_value k' = sem_value k" "mutexes k' = mutexes k"
    "rt_tick k' = rt_tick k" "rt_interrupt_nest k' = rt_interrupt_nest k" "rt_scheduler_lock_nest k' = rt_scheduler_lock_nest k"
    "rt_current_thread k' = rt_current_thread k"
  shows "kinv T I idle k' L"
  using assms kwf_cong [OF core_parts(1) [OF kinv_parts(1) [OF assms(1)]]] timers_frame [OF core_parts(2) [OF kinv_parts(1) [OF assms(1)]]]
  by (simp add: kinv_def kcore_def runs_def thread_stat_def)

subsection \<open>The contract of a call\<close>

text \<open>
  A call of the kernel by a thread other than the idle thread, under a condition on the objects in use: it never meets a
  failed assertion or a null pointer, keeps the invariant, and returns a status code or suspends its caller, the
  latter only if it may. What follows for a system that makes the call is proved here once.
\<close>

locale kernel_call =
  fixes call :: "kernel \<Rightarrow> (int outcome \<times> kernel) option" and valid :: "ipc_ptr set \<Rightarrow> bool" and blocks :: bool
  assumes call_safe: "kinv T I idle k L \<Longrightarrow> rt_current_thread k \<noteq> idle \<Longrightarrow> valid I \<Longrightarrow>
    \<exists>r k' L'. call k = Some (r, k') \<and> kinv T I idle k' L' \<and> (r = Block \<longrightarrow> blocks) \<and> (\<forall>x. r = Ret x \<longrightarrow> status_ok x)"
begin

lemma call_noted:
  assumes s: "system_ok T I idle s L" and t: "rt_current_thread (kernel_of s) = t" "t \<noteq> idle" and v: "valid I" and c: "blocks \<Longrightarrow> may_block c"
  shows "\<exists>rk L'. call (kernel_of s) = Some rk \<and> system_ok T I idle (note_outcome t c rk s) L'"
proof -
  obtain r k' L' where "call (kernel_of s) = Some (r, k')" "kinv T I idle k' L'" "r = Block \<longrightarrow> blocks" "\<forall>x. r = Ret x \<longrightarrow> status_ok x"
    using call_safe [OF s [unfolded system_ok_def, THEN conjunct1] _ v] t by blast
  then show ?thesis using s c
    by (intro exI [of _ "(r, k')"] exI [of _ L']) (auto simp: system_ok_def note_outcome_def split: outcome.splits if_splits)
qed

end

interpretation sem_take_call: kernel_call "rt_sem_take s time" "\<lambda>I. Sem_at s \<in> I \<and> time_ok time" True for s time
proof
  fix T I idle k L assume v: "kinv T I idle k L" and t: "rt_current_thread k \<noteq> idle" and o: "Sem_at s \<in> I \<and> time_ok time"
  note st = sem_take_ok [OF v refl t, of s time]
  show "\<exists>r k' L'. rt_sem_take s time k = Some (r, k') \<and> kinv T I idle k' L' \<and> (r = Block \<longrightarrow> True) \<and> (\<forall>x. r = Ret x \<longrightarrow> status_ok x)"
    using st o v by (cases "0 < sem_value k s"; cases "time = 0") (auto simp: status_ok_def word_gt_0)
qed

interpretation sem_release_call: kernel_call "start_call (Sem_release s)" "\<lambda>I. Sem_at s \<in> I" False for s
proof
  fix T I idle k L assume v: "kinv T I idle k L" and s: "Sem_at s \<in> I"
  note sr = sem_release_ok [OF v s]
  show "\<exists>r k' L'. start_call (Sem_release s) k = Some (r, k') \<and> kinv T I idle k' L' \<and> (r = Block \<longrightarrow> False) \<and> (\<forall>x. r = Ret x \<longrightarrow> status_ok x)"
  proof (cases "L (Suspend (Sem_at s))")
    case Nil
    then show ?thesis using sr(1) by (auto simp: status_ok_def)
  next
    case (Cons n ws)
    then obtain u where "n = Tlist u" using first_waiting [OF kinv_parts(1) [OF v], of "Sem_at s"] by (metis list.distinct(1) list.inject)
    then show ?thesis using sr(2) Cons by (fastforce simp: status_ok_def)
  qed
qed

interpretation mutex_take_call: kernel_call "rt_mutex_take m time" "\<lambda>I. Mutex_at m \<in> I \<and> time_ok time" True for m time
proof
  fix T I idle k L assume v: "kinv T I idle k L" and t: "rt_current_thread k \<noteq> idle" and o: "Mutex_at m \<in> I \<and> time_ok time"
  note mt = mutex_take_ok [OF v refl t, of m time, OF o [THEN conjunct1] o [THEN conjunct2]]
  consider "mutex_owner (mutexes k m) = rt_current_thread k" | "mutex_owner (mutexes k m) = 0"
    | "mutex_owner (mutexes k m) \<noteq> 0" "mutex_owner (mutexes k m) \<noteq> rt_current_thread k" "time = 0"
    | "mutex_owner (mutexes k m) \<noteq> 0" "mutex_owner (mutexes k m) \<noteq> rt_current_thread k" "time \<noteq> 0" by blast
  then show "\<exists>r k' L'. rt_mutex_take m time k = Some (r, k') \<and> kinv T I idle k' L' \<and> (r = Block \<longrightarrow> True) \<and> (\<forall>x. r = Ret x \<longrightarrow> status_ok x)"
  proof cases
    case 4
    then obtain k1 k' where "rt_mutex_take m time k = Some (Block, k')"
      "kinv T I idle k' (wait_lists (Mutex_at m) (rt_current_thread k) time k1 (inherited (rt_current_thread k) (mutex_owner (mutexes k m)) k L))"
      using mt(4) by blast
    then show ?thesis by auto
  qed (use mt(1-3) in \<open>auto simp: status_ok_def\<close>)
qed

interpretation mutex_release_call: kernel_call "start_call (Mutex_release m)" "\<lambda>I. Mutex_at m \<in> I" False for m
proof
  fix T I idle k L assume v: "kinv T I idle k L" and m: "Mutex_at m \<in> I"
  note mr = mutex_release_ok [OF v refl m]
  let ?r = "mutexes k m"
  show "\<exists>r k' L'. start_call (Mutex_release m) k = Some (r, k') \<and> kinv T I idle k' L' \<and> (r = Block \<longrightarrow> False) \<and> (\<forall>x. r = Ret x \<longrightarrow> status_ok x)"
  proof (cases "mutex_owner ?r = rt_current_thread k \<and> mutex_hold ?r = 1")
    case False
    then show ?thesis using mr(1,2) by (cases "mutex_owner ?r = rt_current_thread k") (auto simp: status_ok_def)
  next
    case True
    show ?thesis
    proof (cases "L (Suspend (Mutex_at m))")
      case Nil
      then show ?thesis using mr(3) True by (fastforce simp: status_ok_def)
    next
      case (Cons n ws)
      then obtain u where "n = Tlist u" using first_waiting [OF kinv_parts(1) [OF v], of "Mutex_at m"] by (metis list.distinct(1) list.inject)
      then show ?thesis using mr(4) True Cons by (fastforce simp: status_ok_def)
    qed
  qed
qed

interpretation sleep_call: kernel_call "rt_thread_sleep tick" "\<lambda>I. tick < HALF_TICKS" True for tick
proof
  fix T I idle k L assume "kinv T I idle k L" and "rt_current_thread k \<noteq> idle" and "tick < HALF_TICKS"
  then show "\<exists>r k' L'. rt_thread_sleep tick k = Some (r, k') \<and> kinv T I idle k' L' \<and> (r = Block \<longrightarrow> True) \<and> (\<forall>x. r = Ret x \<longrightarrow> status_ok x)"
    using sleep_ok [of T I idle k L "rt_current_thread k" tick] by auto
qed

interpretation yield_call: kernel_call "start_call Yield" "\<lambda>I. True" False
proof
  fix T I idle k L assume v: "kinv T I idle k L"
  note cp = core_parts [OF kinv_parts(1) [OF v]]
  let ?L = "rotated (rt_current_thread k) (prio (rt_current_thread k) k) L"
  obtain k' where k': "rt_thread_yield k = Some (RT_EOK, k')" "kwf T I k' ?L" "runs T k'" "only_moved k k'"
    using thread_yield [OF cp(1) kinv_parts(2) [OF v] cp(4)] by blast
  have "timers_ok k' ?L" using k'(4) by (intro timers_frame [OF cp(2)]) (simp_all add: only_moved_def)
  then have "kinv T I idle k' ?L" using k' cp by (simp add: kinv_def kcore_def only_moved_def thread_stat_def)
  then show "\<exists>r k' L'. start_call Yield k = Some (r, k') \<and> kinv T I idle k' L' \<and> (r = Block \<longrightarrow> False) \<and> (\<forall>x. r = Ret x \<longrightarrow> status_ok x)"
    using k'(1) by (auto simp: status_ok_def)
qed

text \<open>Every valid call of the interface has the contract.\<close>

lemma start_call_noted:
  assumes "system_ok T I idle s L" and "rt_current_thread (kernel_of s) = t" and "t \<noteq> idle" and "call_ok I c"
  shows "\<exists>rk L'. start_call c (kernel_of s) = Some rk \<and> system_ok T I idle (note_outcome t c rk s) L'"
proof (cases c)
  case (Sem_take x time)
  then show ?thesis using sem_take_call.call_noted [OF assms(1-3), of x time c] assms(4) by simp
next
  case (Sem_release x)
  then show ?thesis using sem_release_call.call_noted [OF assms(1-3), of x c] assms(4) by simp
next
  case (Mutex_take x time)
  then show ?thesis using mutex_take_call.call_noted [OF assms(1-3), of x time c] assms(4) by simp
next
  case (Mutex_release x)
  then show ?thesis using mutex_release_call.call_noted [OF assms(1-3), of x c] assms(4) by simp
next
  case (Sleep tick)
  then show ?thesis using sleep_call.call_noted [OF assms(1-3), of tick c] assms(4) by simp
next
  case Yield
  then show ?thesis using yield_call.call_noted [OF assms(1-3), of c] assms(4) by simp
qed

lemma finish_call_ok:
  assumes v: "kinv T I idle k L" and t: "rt_current_thread k = t" and b: "may_block c"
  shows "\<exists>r k'. finish_call c t k = Some (Ret r, k') \<and> kinv T I idle k' L \<and> status_ok r"
proof -
  note p = kinv_parts [OF v, unfolded t]
  have e: "thread_error (threads k t) \<in> {RT_EOK, - RT_ERROR, - RT_ETIMEOUT}"
    using kwf_parts(3) [OF core_parts(1) [OF p(1)] p(3)] by (simp add: thread_ok_def)
  then have ne: "thread_error (threads k t) \<noteq> - RT_EINTR" by (auto simp: RT_EINTR_def RT_EOK_def RT_ERROR_def RT_ETIMEOUT_def)
  show ?thesis
  proof (cases c)
    case (Sem_take s time)
    then show ?thesis using v e by (auto simp: sem_take_resumed_def status_ok_def)
  next
    case (Mutex_take m time)
    then show ?thesis using v e ne by (auto simp: mutex_take_resumed.simps status_ok_def)
  next
    case (Sleep tick)
    have "kcore T I idle (no_error t k) L" unfolding no_error_def by (rule core_error [OF p(1,3)]) simp
    then have "kinv T I idle (no_error t k) L" using p(3,4) t by (simp add: kinv_def runs_def thread_stat_def no_error_def)
    then show ?thesis using v Sleep by (auto simp: sleep_resumed_def status_ok_def no_error_def)
  qed (use b in simp_all)
qed

lemma idle_nothing:
  assumes "kinv T I idle k L"
  shows "rt_thread_idle_excute clean k = Some k"
proof -
  note l = kwf_parts(1) [OF core_parts(1) [OF kinv_parts(1) [OF assms]]]
  have "L Defunct_head = []" using lists_fits [OF l, of _ Defunct_head] by (metis fits.simps last_in_set fits_head)
  then have "nxt (klinks k) Defunct_head = Defunct_head" using lists_first [OF l, of Defunct_head] by simp
  then show ?thesis by (simp add: rt_thread_idle_excute.simps)
qed

lemma system_step_ok:
  assumes s: "system_ok T I idle s L" and e: "event_ok I e"
  shows "\<exists>s' L'. system_step user clean idle e s = Some s' \<and> system_ok T I idle s' L'"
proof (cases e)
  case Tick
  note v = s [unfolded system_ok_def, THEN conjunct1]
  note cp = core_parts [OF kinv_parts(1) [OF v]]
  let ?k = "kernel_of s"
  obtain k' where k': "SysTick_Handler user ?k = Some k'" "kwf T I k' (tick_lists ?k L)" "timers_ok k' (tick_lists ?k L)" "runs T k'"
    "rt_interrupt_nest k' = rt_interrupt_nest ?k" "rt_scheduler_lock_nest k' = 0"
    "\<forall>t. Row (Thread_timer t) \<in> set (tick_fired ?k L) \<longrightarrow> thread_stat t k' = RT_THREAD_READY"
    "\<forall>t. Row (Thread_timer t) \<notin> set (tick_fired ?k L) \<longrightarrow> thread_stat t k' = thread_stat t ?k"
    using sys_tick [OF cp(1) kinv_parts(2) [OF v] cp(4) cp(2), of user] by blast
  have "thread_stat idle k' = RT_THREAD_READY" using k'(7,8) cp(6) by metis
  then have "kinv T I idle k' (tick_lists ?k L)" using k' cp by (simp add: kinv_def kcore_def)
  then show ?thesis using k'(1) s Tick by (auto simp: system_ok_def)
next
  case (Run c)
  note v = s [unfolded system_ok_def, THEN conjunct1]
  have c: "call_ok I c" using e Run by simp
  let ?k = "kernel_of s" and ?t = "rt_current_thread (kernel_of s)"
  show ?thesis
  proof (cases "?t = idle")
    case True
    then show ?thesis using s Run idle_nothing [OF v] by (auto simp: system_ok_def)
  next
    case False
    show ?thesis
    proof (cases "pending s ?t")
      case None
      then show ?thesis using start_call_noted [OF s refl False c] False Run by (auto simp: Let_def)
    next
      case (Some c')
      then have "may_block c'" using s by (auto simp: system_ok_def)
      then obtain r k' where "finish_call c' ?t ?k = Some (Ret r, k')" "kinv T I idle k' L" "status_ok r"
        using finish_call_ok [OF v refl] by blast
      then show ?thesis using s False Some Run
        by (intro exI [of _ "note_outcome ?t c' (Ret r, k') s"] exI [of _ L]) (auto simp: system_ok_def note_outcome_def Let_def split: if_splits)
    qed
  qed
qed

lemma system_run_ok:
  assumes "system_ok T I idle s L" and "\<forall>e \<in> set es. event_ok I e"
  shows "\<exists>s' L'. system_run user clean idle es s = Some s' \<and> system_ok T I idle s' L'"
  using assms
proof (induction es arbitrary: s L)
  case (Cons e es)
  then obtain s' L' where "system_step user clean idle e s = Some s'" "system_ok T I idle s' L'" using system_step_ok by (metis list.set_intros(1))
  then show ?case using Cons.IH [of s' L'] Cons.prems by auto
qed auto

end
