(* ===== verification/Boot.thy ===== *)
theory Boot imports KernelRun MemProps begin

text \<open>
  The start of the system (components.c, idle.c): heap, lists, main thread, idle thread, scheduler; and the
  creation of threads, semaphores and mutexes. At reset every node points to itself: a node on no list is
  written before it is used, so what it holds does not matter.
\<close>

subsection \<open>Operations\<close>

definition kernel_at_reset :: kernel where
  "kernel_at_reset = \<lparr>klinks = \<lparr>nxt = (\<lambda>n. n), prv = (\<lambda>n. n)\<rparr>, objects = (\<lambda>_. \<lparr>obj_name = [], obj_type = 0, obj_flag = 0\<rparr>),
     threads = (\<lambda>_. zero_thread), timers = (\<lambda>_. \<lparr>timeout_func = User_timeout 0, timer_parameter = 0, timer_init_tick = 0, timeout_tick = 0\<rparr>),
     sem_value = (\<lambda>_. 0), mutexes = (\<lambda>_. zero_mutex), rt_tick = 0, rt_interrupt_nest = 0, rt_scheduler_lock_nest = 0, rt_current_thread = 0,
     rt_current_priority = 0, rt_thread_ready_priority_group = 0, random_nr = 0, switches = [], kheap = heap_at_reset\<rparr>"

definition RT_MAIN_THREAD_STACK_SIZE :: u32 where "RT_MAIN_THREAD_STACK_SIZE = 2048"
definition RT_MAIN_THREAD_PRIORITY :: u8 where "RT_MAIN_THREAD_PRIORITY = 10"
definition IDLE_THREAD_STACK_SIZE :: u32 where "IDLE_THREAD_STACK_SIZE = 256"

definition board_heap_init :: "kernel \<Rightarrow> kernel" where
  "board_heap_init k = k\<lparr>kheap := rt_system_heap_init N32G43X_SRAM_START N32G43X_SRAM_END (kheap k)\<rparr>"

definition rt_application_init :: "kernel \<Rightarrow> kernel option" where
  "rt_application_init k =
     do { (tid, k) \<leftarrow> rt_thread_create ''main'' RT_MAIN_THREAD_STACK_SIZE RT_MAIN_THREAD_PRIORITY 20 k;
          RT_ASSERT (tid \<noteq> 0);
          (_, k) \<leftarrow> rt_thread_startup tid k;
          Some k }"

text \<open>The idle thread and its stack are static: \<open>idle\<close> and \<open>stack\<close> are their addresses.\<close>

definition rt_thread_idle_init :: "u32 \<Rightarrow> u32 \<Rightarrow> kernel \<Rightarrow> kernel option" where
  "rt_thread_idle_init idle stack k =
     do { (_, k) \<leftarrow> rt_thread_init idle ''tidle'' stack IDLE_THREAD_STACK_SIZE (of_nat (RT_THREAD_PRIORITY_MAX - 1)) 32 k;
          (_, k) \<leftarrow> rt_thread_startup idle k;
          Some k }"

definition rtthread_startup :: "u32 \<Rightarrow> u32 \<Rightarrow> kernel \<Rightarrow> kernel option" where
  "rtthread_startup idle stack k =
     do { let k = board_heap_init k;
          let k = rt_system_timer_init k;
          let k = rt_system_scheduler_init k;
          k \<leftarrow> rt_application_init k;
          k \<leftarrow> rt_thread_idle_init idle stack k;
          rt_system_scheduler_start k }"

subsection \<open>Before the scheduler runs\<close>

definition kpre :: "u32 set \<Rightarrow> ipc_ptr set \<Rightarrow> kernel \<Rightarrow> lists \<Rightarrow> bool" where
  "kpre T I k L \<longleftrightarrow> kwf T I k L \<and> timers_ok k L \<and> rt_interrupt_nest k = 0 \<and> rt_scheduler_lock_nest k = 0"

lemma pre_parts:
  assumes "kpre T I k L"
  shows "kwf T I k L" and "lists_ok T k L" and "timers_ok k L" and "rt_interrupt_nest k = 0" and "rt_scheduler_lock_nest k = 0"
  using assms kwf_parts(1) by (auto simp: kpre_def)

lemma kinv_pre: "kinv T I idle k L \<Longrightarrow> kpre T I k L"
  by (simp add: kinv_def kcore_def kpre_def)

text \<open>The scheduler has not been started, or would select the thread that runs.\<close>

definition settled :: "kernel \<Rightarrow> lists \<Rightarrow> bool" where
  "settled k L \<longleftrightarrow> rt_current_thread k = 0 \<or> some_ready L \<and> rt_current_thread k = top_thread L"

lemma settled_schedule:
  assumes "kpre T I k L" and "settled k L" and "rt_current_thread k \<noteq> 0"
  shows "rt_schedule k = Some k"
  using schedule_top(1) [OF pre_parts(2) [OF assms(1)] kwf_parts(2) [OF pre_parts(1) [OF assms(1)]] _ pre_parts(5) [OF assms(1)]] assms(2,3)
  by (simp add: settled_def switch_to_def)

lemma settled_inv:
  assumes p: "kpre T I k L" and s: "settled k L" "rt_current_thread k \<noteq> 0" and i: "idle \<in> T" "thread_stat idle k = RT_THREAD_READY"
  shows "kinv T I idle k L"
proof -
  note q = pre_parts [OF p]
  have sr: "some_ready L" "rt_current_thread k = top_thread L" using s by (simp_all add: settled_def)
  have "Tlist (rt_current_thread k) \<in> set (L (Ready (top_priority L)))"
    using selected_thread(4) [OF q(2) kwf_parts(2) [OF q(1)] sr(1)] sr(2) by simp
  then show ?thesis using in_ready_list [OF q(1)] q i by (simp add: kinv_def kcore_def runs_def)
qed

lemma settled_cong: "\<forall>p. L' (Ready p) = L (Ready p) \<Longrightarrow> rt_current_thread k' = rt_current_thread k \<Longrightarrow> settled k' L' \<longleftrightarrow> settled k L"
  by (simp add: settled_def some_ready_def top_thread_def top_priority_def)

text \<open>An operation on objects that are not in \<open>T\<close> or \<open>I\<close>, and on the containers.\<close>

lemma pre_frame:
  assumes p: "kpre T I k L" and l: "lists_ok T k' L'" and L: "\<forall>h. (\<forall>c. h \<noteq> Container c) \<longrightarrow> L' h = L h"
    and k: "rt_thread_ready_priority_group k' = rt_thread_ready_priority_group k" "rt_tick k' = rt_tick k" "rt_interrupt_nest k' = 0"
      "rt_scheduler_lock_nest k' = 0"
    and T: "\<forall>u \<in> T. same_thread k k' u"
    and I: "\<forall>i \<in> I. objects k' (Obj_ipc i) = objects k (Obj_ipc i) \<and> sem_value k' (ipc_addr i) = sem_value k (ipc_addr i) \<and>
      mutexes k' (ipc_addr i) = mutexes k (ipc_addr i)"
  shows "kpre T I k' L'"
proof -
  note q = pre_parts [OF p]
  have tl: "L' Timer_head = L Timer_head" using L by simp
  have same: "same_lists L L' u" for u
  proof -
    have "Tlist u \<notin> set (M (Container c)) \<and> Row (Thread_timer u) \<notin> set (M (Container c))" if "lists_ok T kk M" for M kk c
      using lists_fits [OF that, of _ "Container c"] by fastforce
    then show ?thesis using L l q(2) unfolding same_lists_def by metis
  qed
  have "kwf T I k' L'"
    unfolding kwf_def
  proof (intro conjI ballI)
    show "lists_ok T k' L'" by (rule l)
    show "group_ok k' L'" using kwf_parts(2) [OF q(1)] L k by (simp add: group_ok_def)
    show "thread_ok k' L' t" if "t \<in> T" for t using thread_frame [OF kwf_parts(3) [OF q(1) that] _ same] T that by blast
    show "ipc_ok T k' L' i" if "i \<in> I" for i
      using kwf_parts(4) [OF q(1) that] I that L
      by (cases i) (force simp: ipc_ok_def rt_object_get_type_def ipc_addr_def)+
  qed
  moreover have "timers_ok k' L'"
  proof -
    have "due k' n = due k n" if "n \<in> set (L Timer_head)" for n
      using timer_rows [OF q(2) that] T k(2) by (auto simp: due_def same_thread_def)
    then show ?thesis using q(3) tl by (simp add: timers_ok_def cong: map_cong)
  qed
  ultimately show ?thesis using k by (simp add: kpre_def)
qed

subsection \<open>Objects\<close>

lemma container_nodes: "lists_ok T k L \<Longrightarrow> n \<in> set (L (Container c)) \<Longrightarrow> \<exists>ob. n = Obj_list ob"
  by (drule (1) lists_fits) (cases n; simp)

lemma not_in_container_ok:
  assumes "ring (klinks k) (Container ty) (us @ vs)" and "\<forall>n \<in> set vs. \<exists>ob'. n = Obj_list ob' \<and> ob' \<noteq> ob"
  shows "not_in_container ob ty k (hd (vs @ [Container ty])) = Some ()"
  using assms
proof (induction vs arbitrary: us)
  case (Cons v vs)
  then obtain ob' where v: "v = Obj_list ob'" "ob' \<noteq> ob" by auto
  have "nxt (klinks k) v = hd (vs @ [Container ty])" using ring_at(1) [OF Cons.prems(1)] .
  moreover have "not_in_container ob ty k (hd (vs @ [Container ty])) = Some ()" using Cons.IH [of "us @ [v]"] Cons.prems by simp
  ultimately show ?case using v by (simp add: not_in_container.simps)
qed (simp add: not_in_container.simps)

definition added :: "object_ptr \<Rightarrow> u8 \<Rightarrow> lists \<Rightarrow> lists" where
  "added ob ty L = L(Container ty := Obj_list ob # L (Container ty))"

lemma added_ok:
  assumes l: "lists_ok T k L" and ob: "\<forall>h. Obj_list ob \<notin> set (L h)"
  shows "lists_ok T (on_links (rt_list_insert_after (Container ty) (Obj_list ob)) k) (added ob ty L)"
  using lists_insert_after [OF l ob, of "Container ty" "[]" "L (Container ty)"] by (simp add: added_def)

lemma critical_section:
  assumes "rt_scheduler_lock_nest k = 0"
  shows "rt_exit_critical (rt_enter_critical k) = (if rt_current_thread k \<noteq> 0 then rt_schedule k else Some k)"
proof -
  have e: "k\<lparr>rt_scheduler_lock_nest := 0\<rparr> = k" using assms by (cases k) simp
  have "rt_exit_critical (rt_enter_critical k)
    = (if rt_current_thread k \<noteq> 0 then rt_schedule (k\<lparr>rt_scheduler_lock_nest := 0\<rparr>) else Some (k\<lparr>rt_scheduler_lock_nest := 0\<rparr>))"
    using assms by (simp add: rt_exit_critical_def rt_enter_critical_def Let_def)
  then show ?thesis unfolding e .
qed

text \<open>\<open>rt_object_init\<close>, whose critical section ends with a call of the scheduler if it runs.\<close>

lemma object_init:
  assumes p: "kpre T I k L" and s: "settled k L" and ob: "\<forall>h. Obj_list ob \<notin> set (L h)" and ty: "rt_object_get_information ty \<noteq> None"
  shows "rt_object_init ob ty name k =
     Some (on_links (rt_list_insert_after (Container ty) (Obj_list ob))
       (upd_object ob (\<lambda>r. r\<lparr>obj_type := ty OR RT_Object_Class_Static, obj_name := take RT_NAME_MAX name\<rparr>) k))"
proof -
  note l = pre_parts(2) [OF p]
  have r: "ring (klinks (rt_enter_critical k)) (Container ty) (L (Container ty))"
    using lists_ring [OF l, of "Container ty"] by (simp add: rt_enter_critical_def)
  have "\<forall>n \<in> set (L (Container ty)). \<exists>ob'. n = Obj_list ob' \<and> ob' \<noteq> ob" using container_nodes [OF l] ob by blast
  then have "not_in_container ob ty (rt_enter_critical k) (nxt (klinks (rt_enter_critical k)) (Container ty)) = Some ()"
    using not_in_container_ok [of "rt_enter_critical k" ty "[]" "L (Container ty)"] r ring_ends(1) [OF r] by simp
  then show ?thesis using ty settled_schedule [OF p s] critical_section [OF pre_parts(5) [OF p]] by (auto simp: rt_object_init_def split: if_splits)
qed

subsection \<open>Threads\<close>

text \<open>A thread that has been initialised and not started.\<close>

definition fresh_thread :: "kernel \<Rightarrow> lists \<Rightarrow> u32 \<Rightarrow> bool" where
  "fresh_thread k L t \<longleftrightarrow> statics_ok k t \<and> \<not> timer_on t k \<and> (\<forall>h. Tlist t \<notin> set (L h) \<and> Row (Thread_timer t) \<notin> set (L h)) \<and>
     thread_stat t k = RT_THREAD_INIT \<and> unat (init_priority (threads k t)) < 32 \<and> thread_error (threads k t) = RT_EOK"

text \<open>Initialising a node that is on no list changes nothing.\<close>

lemma init_node:
  assumes l: "lists_ok T k L" and n: "\<forall>h. n \<notin> set (L h)" "L n = []"
  shows "on_links (rt_list_init n) k = k"
proof -
  have r: "ring (klinks k) n []" using rings_ring [OF lists_rings [OF l] n(1)] n(2) by simp
  then have "nxt (klinks k) n = n" "prv (klinks k) n = n" using ring_ends [OF r] by simp_all
  then have "rt_list_init n (klinks k) = klinks k" by (cases "klinks k") (simp add: rt_list_init_def fun_upd_idem)
  then show ?thesis by (cases k) (simp add: on_links_def)
qed

text \<open>The state that \<open>init_thread\<close> leaves.\<close>

definition thread_made :: "u32 \<Rightarrow> u32 \<Rightarrow> u32 \<Rightarrow> u8 \<Rightarrow> u32 \<Rightarrow> kernel \<Rightarrow> kernel" where
  "thread_made t stack_start sz priority tick k =
     (let ob = Obj_timer (Thread_timer t);
          name = obj_name (objects k (Obj_thread t));
          k = upd_thread t (\<lambda>r. r\<lparr>stack_addr := stack_start, stack_size := sz\<rparr>) k;
          k = k\<lparr>kheap := (kheap k)\<lparr>memory := rt_memset stack_start 0x23 (unat sz) (memory (kheap k))\<rparr>\<rparr>;
          k = upd_thread t (\<lambda>r. r\<lparr>init_priority := priority, current_priority := priority, number_mask := 0,
                init_tick := tick, remaining_tick := tick, thread_error := RT_EOK, stat := RT_THREAD_INIT, cleanup := 0\<rparr>) k;
          k = upd_object ob (\<lambda>r. r\<lparr>obj_type := RT_Object_Class_Timer OR RT_Object_Class_Static, obj_name := take RT_NAME_MAX name\<rparr>) k;
          k = on_links (rt_list_insert_after (Container RT_Object_Class_Timer) (Obj_list ob)) k;
          k = set_timer_flag (Thread_timer t) (RT_TIMER_FLAG_ONE_SHOT AND NOT RT_TIMER_FLAG_ACTIVATED) k
      in upd_timer (Thread_timer t) (\<lambda>_. \<lparr>timeout_func = Rt_thread_timeout, timer_parameter = t, timer_init_tick = 0, timeout_tick = 0\<rparr>) k)"

lemma static_type: "(RT_Object_Class_Timer OR RT_Object_Class_Static) AND NOT RT_Object_Class_Static = RT_Object_Class_Timer"
  "(RT_Object_Class_Thread OR RT_Object_Class_Static) AND NOT RT_Object_Class_Static = RT_Object_Class_Thread"
  "(RT_Object_Class_Semaphore OR RT_Object_Class_Static) AND NOT RT_Object_Class_Static = RT_Object_Class_Semaphore"
  "(RT_Object_Class_Mutex OR RT_Object_Class_Static) AND NOT RT_Object_Class_Static = RT_Object_Class_Mutex"
  by (simp_all add: RT_Object_Class_Timer_def RT_Object_Class_Static_def RT_Object_Class_Thread_def RT_Object_Class_Semaphore_def RT_Object_Class_Mutex_def)

lemma classes: "rt_object_get_information RT_Object_Class_Timer = Some (RT_Object_Class_Timer, 44)"
  "rt_object_get_information RT_Object_Class_Thread = Some (RT_Object_Class_Thread, 120)"
  "rt_object_get_information RT_Object_Class_Semaphore = Some (RT_Object_Class_Semaphore, 32)"
  "rt_object_get_information RT_Object_Class_Mutex = Some (RT_Object_Class_Mutex, 36)"
  by (simp_all add: rt_object_get_information_def rt_object_container_def RT_Object_Class_Timer_def RT_Object_Class_Thread_def
      RT_Object_Class_Semaphore_def RT_Object_Class_Mutex_def)

definition untouched :: "u32 \<Rightarrow> kernel \<Rightarrow> kernel \<Rightarrow> bool" where
  "untouched t k k' \<longleftrightarrow> rt_current_thread k' = rt_current_thread k \<and> same_ipcs k k' \<and> (\<forall>u. u \<noteq> t \<longrightarrow> threads k' u = threads k u)"

lemma init_thread_ok:
  assumes p: "kpre T I k L" and c: "settled k L" and t: "t \<noteq> 0" "t \<notin> T"
    and free: "\<forall>h. Tlist t \<notin> set (L h) \<and> Row (Thread_timer t) \<notin> set (L h) \<and> Obj_list (Obj_timer (Thread_timer t)) \<notin> set (L h)"
    and ty: "rt_object_get_type (Obj_thread t) k = RT_Object_Class_Thread" and pr: "unat priority < 32"
  defines "L' \<equiv> added (Obj_timer (Thread_timer t)) RT_Object_Class_Timer L"
  shows "\<exists>k'. init_thread t name stack_start sz priority tick k = Some (RT_EOK, k') \<and> kpre T I k' L' \<and> fresh_thread k' L' t \<and>
     init_priority (threads k' t) = priority \<and> untouched t k k'"
proof -
  let ?ob = "Obj_timer (Thread_timer t)" and ?k' = "thread_made t stack_start sz priority tick k"
  let ?r = "\<lambda>r. r\<lparr>init_priority := priority, current_priority := priority, number_mask := 0,
                init_tick := tick, remaining_tick := tick, thread_error := RT_EOK, stat := RT_THREAD_INIT, cleanup := 0\<rparr>"
  define k1 where "k1 = upd_thread t (\<lambda>r. r\<lparr>stack_addr := stack_start, stack_size := sz\<rparr>) k"
  define k2 where "k2 = upd_thread t ?r (k1\<lparr>kheap := (kheap k1)\<lparr>memory := rt_memset stack_start 0x23 (unat sz) (memory (kheap k1))\<rparr>\<rparr>)"
  note l = pre_parts(2) [OF p]
  have node: "on_links (rt_list_init (Tlist t)) k = k" by (rule init_node [OF l]) (use free lists_empty [OF l] in simp_all)
  have l2: "lists_ok T k2 L" using l by (simp add: k2_def k1_def lists_ok_def)
  have sm: "same_thread k k2 u" if "u \<in> T" for u using that t(2) by (auto simp: same_thread_def k2_def k1_def)
  have p2: "kpre T I k2 L"
    by (rule pre_frame [OF p l2]) (use pre_parts(4,5) [OF p] sm in \<open>simp_all add: k2_def k1_def upd_thread_def\<close>)
  have c2: "settled k2 L" using c by (simp add: settled_def k2_def k1_def)
  let ?k3 = "on_links (rt_list_insert_after (Container RT_Object_Class_Timer) (Obj_list ?ob))
    (upd_object ?ob (\<lambda>r. r\<lparr>obj_type := RT_Object_Class_Timer OR RT_Object_Class_Static, obj_name := take RT_NAME_MAX (obj_name (objects k (Obj_thread t)))\<rparr>) k2)"
  have oi: "rt_object_init ?ob RT_Object_Class_Timer (obj_name (objects k (Obj_thread t))) k2 = Some ?k3"
    using object_init [OF p2 c2, of ?ob RT_Object_Class_Timer] free classes by simp
  have k': "?k' = upd_timer (Thread_timer t) (\<lambda>_. \<lparr>timeout_func = Rt_thread_timeout, timer_parameter = t, timer_init_tick = 0, timeout_tick = 0\<rparr>)
      (set_timer_flag (Thread_timer t) (RT_TIMER_FLAG_ONE_SHOT AND NOT RT_TIMER_FLAG_ACTIVATED) ?k3)"
    by (simp add: thread_made_def k2_def k1_def Let_def)
  have l3: "lists_ok T ?k3 L'"
    unfolding L'_def by (rule added_ok) (use l2 free in \<open>simp_all add: lists_ok_def upd_object_def\<close>)
  have l': "lists_ok T ?k' L'" using l3 by (simp add: k' lists_ok_def upd_timer_def set_timer_flag_def upd_object_def)
  have fr: "\<forall>h. Row (Thread_timer t) \<notin> set (L' h)" "\<forall>h. Tlist t \<notin> set (L' h)" using free by (simp_all add: L'_def added_def)
  have kk: "threads ?k' = (threads k)(t := ?r ((threads k t)\<lparr>stack_addr := stack_start, stack_size := sz\<rparr>))"
    "rt_current_thread ?k' = rt_current_thread k" "timer_flag (Thread_timer t) ?k' = 0" "obj_type (objects ?k' ?ob) = RT_Object_Class_Timer OR RT_Object_Class_Static"
    "obj_type (objects ?k' (Obj_thread t)) = obj_type (objects k (Obj_thread t))"
    "timers ?k' = (timers k)(Thread_timer t := \<lparr>timeout_func = Rt_thread_timeout, timer_parameter = t, timer_init_tick = 0, timeout_tick = 0\<rparr>)"
    "\<forall>ob. ob \<noteq> ?ob \<longrightarrow> objects ?k' ob = objects k ob" "sem_value ?k' = sem_value k" "mutexes ?k' = mutexes k" "rt_tick ?k' = rt_tick k"
    "rt_interrupt_nest ?k' = 0" "rt_scheduler_lock_nest ?k' = 0" "rt_thread_ready_priority_group ?k' = rt_thread_ready_priority_group k"
    using pre_parts(4,5) [OF p] by (simp_all add: k' k2_def k1_def kernel_updates timer_flag_def RT_TIMER_FLAG_ONE_SHOT_def)
  have "init_thread t name stack_start sz priority tick k = do { k \<leftarrow> rt_timer_init (Thread_timer t) (obj_name (objects k2 (Obj_thread t)))
      Rt_thread_timeout t 0 RT_TIMER_FLAG_ONE_SHOT k2; Some (RT_EOK, k) }"
    using pr by (simp add: init_thread_def node RT_ASSERT_def RT_THREAD_PRIORITY_MAX_def k2_def k1_def Let_def)
  moreover have "init_timer (Thread_timer t) Rt_thread_timeout t 0 RT_TIMER_FLAG_ONE_SHOT ?k3 = ?k'"
  proof -
    have "init_timer (Thread_timer t) Rt_thread_timeout t 0 RT_TIMER_FLAG_ONE_SHOT ?k3 = on_links (rt_list_init (Row (Thread_timer t))) ?k'"
      by (simp add: init_timer_def k' kernel_updates timer_flag_def Let_def)
    also have "\<dots> = ?k'" by (rule init_node [OF l']) (use fr lists_empty [OF l'] in simp_all)
    finally show ?thesis .
  qed
  ultimately have "init_thread t name stack_start sz priority tick k = Some (RT_EOK, ?k')"
    using oi by (simp add: rt_timer_init_def) (simp add: k2_def k1_def)
  moreover have "kpre T I ?k' L'"
  proof (rule pre_frame [OF p l'])
    show "\<forall>u \<in> T. same_thread k ?k' u" using t(2) kk by (auto simp: same_thread_def)
  qed (use kk in \<open>simp_all add: L'_def added_def\<close>)
  moreover have "fresh_thread ?k' L' t"
    using kk fr pr ty t(1)
    by (simp add: fresh_thread_def statics_ok_def timer_on_def thread_stat_def rt_object_get_type_def static_type RT_THREAD_INIT_def)
  ultimately show ?thesis using kk by (auto simp: untouched_def same_ipcs_def)
qed

lemma fits_mono: "fits T h n \<Longrightarrow> T \<subseteq> T' \<Longrightarrow> fits T' h n"
  by (induction T h n rule: fits.induct) auto

lemma ipc_mono: "ipc_ok T k L i \<Longrightarrow> T \<subseteq> T' \<Longrightarrow> ipc_ok T' k L i"
  by (auto simp: ipc_ok_def mutex_ok_def split: ipc_ptr.splits if_splits)

definition started :: "u32 \<Rightarrow> kernel \<Rightarrow> kernel" where
  "started t k = upd_thread t (\<lambda>r. r\<lparr>current_priority := init_priority r, number_mask := push_bit (unat (init_priority r)) 1, stat := RT_THREAD_SUSPEND\<rparr>) k"

lemma thread_startup:
  assumes p: "kpre T I k L" and f: "fresh_thread k L t" and t: "t \<notin> T"
  defines "L' \<equiv> made_ready t (unat (init_priority (threads k t))) L"
  shows "\<exists>k'. rt_thread_startup t k = Some (RT_EOK, k') \<and> kpre (insert t T) I k' L' \<and> settled k' L' \<and> same_ipcs k k' \<and>
     rt_current_thread k' = (if rt_current_thread k = 0 then 0 else top_thread L') \<and> thread_stat t k' = RT_THREAD_READY \<and> (\<forall>u. u \<noteq> t \<longrightarrow> threads k' u = threads k u) \<and> prio t k' = unat (init_priority (threads k t))"
proof -
  let ?k1 = "started t k"
  note q = pre_parts [OF p]
  have k1: "threads ?k1 t = (threads k t)\<lparr>current_priority := init_priority (threads k t),
      number_mask := push_bit (unat (init_priority (threads k t))) 1, stat := RT_THREAD_SUSPEND\<rparr>" by (simp add: started_def)
  have st: "thread_stat t ?k1 = RT_THREAD_SUSPEND" by (simp add: k1 thread_stat_def RT_THREAD_SUSPEND_def RT_THREAD_STAT_MASK_def)
  have l1: "lists_ok (insert t T) ?k1 L" using q(2) fits_mono [of T _ _ "insert t T"] by (auto simp: lists_ok_def started_def)
  have w: "kwf (insert t T) I ?k1 L"
    unfolding kwf_def
  proof (intro conjI ballI)
    show "lists_ok (insert t T) ?k1 L" by (rule l1)
    show "group_ok ?k1 L" using kwf_parts(2) [OF q(1)] by (simp add: group_ok_def started_def upd_thread_def)
    show "thread_ok ?k1 L u" if "u \<in> insert t T" for u
    proof (cases "u = t")
      case True
      then show ?thesis using f st k1
        by (simp add: thread_ok_def fresh_thread_def statics_ok_def own_mask_def) (simp add: started_def rt_object_get_type_def timer_flag_def timer_on_def)
    next
      case False
      then have "same_thread k ?k1 u" by (simp add: same_thread_def started_def)
      then show ?thesis using thread_frame [OF kwf_parts(3) [OF q(1)], of u ?k1 L] that False by (simp add: same_lists_def)
    qed
    show "ipc_ok (insert t T) ?k1 L i" if "i \<in> I" for i
      using ipc_frame [OF ipc_mono [OF kwf_parts(4) [OF q(1) that]], of "insert t T" ?k1 L] by (auto simp: started_def)
  qed
  have pri: "prio t ?k1 = unat (init_priority (threads k t))" by (simp add: k1)
  note r = thread_resume [OF w insertI1 st, unfolded pri]
  have "rt_thread_startup t k = do { (_, k) \<leftarrow> rt_thread_resume t ?k1; k \<leftarrow> (if rt_thread_self k \<noteq> 0 then rt_schedule k else Some k); Some (RT_EOK, k) }"
    using f by (simp add: rt_thread_startup_def RT_ASSERT_def fresh_thread_def statics_ok_def started_def upd_thread_def Let_def)
  then have step: "rt_thread_startup t k = do { k \<leftarrow> (if rt_current_thread k \<noteq> 0 then rt_schedule (woken t ?k1) else Some (woken t ?k1)); Some (RT_EOK, k) }"
    using r(1) by (simp add: rt_thread_self_def) (simp add: started_def)
  have p': "kpre (insert t T) I (woken t ?k1) L'"
  proof -
    have "timers_ok ?k1 L" by (rule timers_frame [OF q(3)]) (simp_all add: started_def)
    then have "timers_ok (woken t ?k1) L'"
      by (rule timers_subset [of _ _ _ _ "Row (Thread_timer t)"])
        (use tlist_not_timer [OF l1] in \<open>simp_all add: L'_def made_ready_def detached_def unlink_def\<close>)
    then show ?thesis using r(2) q(4,5) by (simp add: kpre_def L'_def) (simp add: started_def)
  qed
  have th: "\<forall>u. u \<noteq> t \<longrightarrow> threads (woken t ?k1) u = threads k u" "thread_stat t (woken t ?k1) = RT_THREAD_READY"
    "prio t (woken t ?k1) = unat (init_priority (threads k t))" "same_ipcs k (woken t ?k1)" "rt_current_thread (woken t ?k1) = rt_current_thread k"
    using pri by (simp_all add: thread_stat_def set_stat_stat same_ipcs_def, simp_all add: started_def)
  show ?thesis
  proof (cases "rt_current_thread k = 0")
    case True
    then show ?thesis using step p' th by (intro exI [of _ "woken t ?k1"]) (simp add: settled_def)
  next
    case False
    note w' = pre_parts(1) [OF p']
    have sr: "some_ready L'" by (rule ready_some [OF w' insertI1 th(2)])
    let ?k' = "switch_to (top_thread L') (of_nat (top_priority L')) (woken t ?k1)"
    have "rt_schedule (woken t ?k1) = Some ?k'"
      using schedule_top(1) [OF pre_parts(2) [OF p'] kwf_parts(2) [OF w'] sr pre_parts(5) [OF p']] .
    moreover have "kpre (insert t T) I ?k' L'"
      using kwf_cong [OF w', of ?k'] timers_frame [OF pre_parts(3) [OF p'], of ?k' L'] pre_parts(4,5) [OF p'] by (simp add: kpre_def)
    ultimately show ?thesis using step False th sr
      by (intro exI [of _ ?k']) (simp add: settled_def same_ipcs_def thread_stat_def)
  qed
qed

text \<open>The scheduler starts.\<close>

lemma scheduler_start:
  assumes p: "kpre T I k L" and i: "idle \<in> T" "thread_stat idle k = RT_THREAD_READY"
  shows "\<exists>k'. rt_system_scheduler_start k = Some k' \<and> kinv T I idle k' L \<and> rt_current_thread k' = top_thread L \<and> switches k' = Switch_to (top_thread L) # switches k"
proof -
  note q = pre_parts [OF p]
  let ?k' = "k\<lparr>rt_current_thread := top_thread L, switches := Switch_to (top_thread L) # switches k\<rparr>"
  have sr: "some_ready L" by (rule ready_some [OF q(1) i])
  note s = schedule_top [OF q(2) kwf_parts(2) [OF q(1)] sr q(5)]
  have "rt_system_scheduler_start k = Some ?k'"
    using selected_thread [OF q(2) kwf_parts(2) [OF q(1)] sr] by (simp add: rt_system_scheduler_start_def Let_def)
  moreover have "kwf T I ?k' L" by (rule kwf_cong [OF q(1)]) simp_all
  moreover have "timers_ok ?k' L" by (rule timers_frame [OF q(3)]) simp_all
  ultimately show ?thesis using in_ready_list [OF q(1) s(2)] q i by (simp add: kinv_def kcore_def runs_def thread_stat_def)
qed

subsection \<open>The heap of the board\<close>

lemma load_hdr_cong:
  assumes "\<And>k. k < 12 \<Longrightarrow> m (p + of_nat k) = m' (p + of_nat k)"
  shows "load_hdr m p = load_hdr m' p"
  using assms [of 0] assms [of 1] assms [of 2] assms [of 3] assms [of 4] assms [of 5] assms [of 6] assms [of 7] assms [of 8] assms [of 9]
    assms [of 10] assms [of 11]
  by (simp add: load_hdr_def load16_def load32_def add.assoc)

text \<open>Writing to data leaves the blocks as they are.\<close>

lemma inv_writes:
  assumes i: "heap_inv h bs" and m: "\<And>x. x \<in> header_area h bs \<Longrightarrow> m x = memory h x"
  shows "heap_inv (h\<lparr>memory := m\<rparr>) bs"
proof -
  have same: "blk (h\<lparr>memory := m\<rparr>) k = blk h k" if "k \<in> insert (room h) (set (starts 0 bs))" for k
  proof -
    have "load_hdr m (heap_ptr h + of_nat k) = load_hdr (memory h) (heap_ptr h + of_nat k)"
    proof (rule load_hdr_cong)
      fix j :: nat assume "j < 12"
      then have "heap_ptr h + of_nat k + of_nat j \<in> span12 h k" unfolding span12_shift by blast
      then show "m (heap_ptr h + of_nat k + of_nat j) = memory h (heap_ptr h + of_nat k + of_nat j)"
        using m that unfolding header_area_def by blast
    qed
    then show ?thesis by (simp add: blk_def hdr_def)
  qed
  have "chain (blk (h\<lparr>memory := m\<rparr>)) 0 0 bs = chain (blk h) 0 0 bs" by (rule chain_cong) (simp add: same)
  then show ?thesis using i same [of "room h"] by (simp add: heap_inv_def heap_chain_def) (simp add: heap_shape_def room_def)
qed

lemma boot_mallocs:
  "\<exists>h h'. rt_malloc 120 board_heap = Some (0x2000400C, h) \<and>
     rt_malloc 2048 (h\<lparr>memory := rt_memset 0x2000400C 0 120 (memory h)\<rparr>) = Some (0x20004090, h')"
proof -
  obtain h where h: "rt_malloc 120 board_heap = Some (0x2000400C, h)" "heap_inv h [(132, True), (16240, False)]"
    "touches [(132, True), (16240, False)] board_heap h"
    using malloc_refines [OF board_heap_inv, of 120]
    by (auto simp: room_board_heap board_heap_ptr RT_ALIGN_def alloc_blocks_def data_size_def split_block_def)
  have hp: "heap_ptr h = 0x20004000" "room h = 16372" using h(3) board_heap_ptr touches_room [OF h(3)] room_board_heap by (simp_all add: touches_def)
  let ?h = "h\<lparr>memory := rt_memset 0x2000400C 0 120 (memory h)\<rparr>"
  have c: "heap_chain h [(132, True), (16240, False)]" using h(2) by (simp add: heap_inv_def)
  have "x \<notin> cells_of 0x2000400C 120" if "x \<in> header_area h [(132, True), (16240, False)]" for x
  proof
    assume "x \<in> cells_of 0x2000400C 120"
    then obtain k where k: "x = 0x2000400C + of_nat k" "k < 120" by (auto simp: cells_of_def)
    have "heap_ptr h + of_nat (k + 12) \<notin> header_area h [(132, True), (16240, False)]"
      by (rule data_not_header [OF c, of 0 132]) (use k in simp_all)
    moreover have "heap_ptr h + of_nat (k + 12) = x" by (simp add: hp k(1))
    ultimately show False using that by simp
  qed
  then have inv: "heap_inv ?h [(132, True), (16240, False)]" by (intro inv_writes [OF h(2)]) (simp add: memset_sets)
  have "room ?h = 16372" "heap_ptr ?h = 0x20004000" using hp by (simp_all add: room_def)
  then have "\<exists>h'. rt_malloc 2048 ?h = Some (0x20004090, h')"
    using malloc_refines [OF inv, of 2048]
    by (auto simp: RT_ALIGN_def alloc_blocks_def data_size_def split_block_def)
  then show ?thesis using h(1) by blast
qed

subsection \<open>Creating threads\<close>

definition unused :: "u32 \<Rightarrow> lists \<Rightarrow> bool" where
  "unused t L \<longleftrightarrow> (\<forall>h. Tlist t \<notin> set (L h) \<and> Row (Thread_timer t) \<notin> set (L h) \<and> Obj_list (Obj_thread t) \<notin> set (L h) \<and>
     Obj_list (Obj_timer (Thread_timer t)) \<notin> set (L h))"

definition new_thread_lists :: "u32 \<Rightarrow> lists \<Rightarrow> lists" where
  "new_thread_lists t L = added (Obj_timer (Thread_timer t)) RT_Object_Class_Timer (added (Obj_thread t) RT_Object_Class_Thread L)"

text \<open>An object that is not a timer or a thread in \<open>T\<close>, with its memory, enters a container.\<close>

lemma pre_object:
  assumes p: "kpre T I k L" and ob: "\<forall>h. Obj_list ob \<notin> set (L h)"
    and o: "\<forall>u \<in> T. ob \<noteq> Obj_thread u \<and> ob \<noteq> Obj_timer (Thread_timer u)" "\<forall>i \<in> I. ob \<noteq> Obj_ipc i"
    and k0: "klinks k0 = klinks k" "rt_thread_ready_priority_group k0 = rt_thread_ready_priority_group k" "rt_tick k0 = rt_tick k"
      "rt_interrupt_nest k0 = 0" "rt_scheduler_lock_nest k0 = 0" "timers k0 = timers k" "objects k0 = objects k" "sem_value k0 = sem_value k"
      "mutexes k0 = mutexes k" "\<forall>u \<in> T. threads k0 u = threads k u"
  shows "kpre T I (on_links (rt_list_insert_after (Container ty) (Obj_list ob)) (upd_object ob f k0)) (added ob ty L)" (is "kpre T I ?k ?L")
proof (rule pre_frame [OF p])
  have "lists_ok T (upd_object ob f k0) L" using pre_parts(2) [OF p] k0 by (simp add: lists_ok_def upd_object_def)
  then show "lists_ok T ?k ?L" by (rule added_ok) (rule ob)
qed (use k0 o in \<open>auto simp: added_def kernel_updates same_thread_def\<close>)

lemma thread_init_ok:
  assumes p: "kpre T I k L" and c: "settled k L" and t: "t \<noteq> 0" "t \<notin> T" "unused t L" and s: "stack_start \<noteq> 0" and pr: "unat priority < 32"
  shows "\<exists>k'. rt_thread_init t name stack_start sz priority tick k = Some (RT_EOK, k') \<and> kpre T I k' (new_thread_lists t L) \<and>
     fresh_thread k' (new_thread_lists t L) t \<and> init_priority (threads k' t) = priority \<and> untouched t k k'"
proof -
  let ?L1 = "added (Obj_thread t) RT_Object_Class_Thread L"
  let ?k1 = "on_links (rt_list_insert_after (Container RT_Object_Class_Thread) (Obj_list (Obj_thread t)))
    (upd_object (Obj_thread t) (\<lambda>r. r\<lparr>obj_type := RT_Object_Class_Thread OR RT_Object_Class_Static, obj_name := take RT_NAME_MAX name\<rparr>) k)"
  have free: "\<forall>h. Obj_list (Obj_thread t) \<notin> set (L h)" using t(3) by (simp add: unused_def)
  have oi: "rt_object_init (Obj_thread t) RT_Object_Class_Thread name k = Some ?k1"
    using object_init [OF p c free, of RT_Object_Class_Thread name] classes by simp
  have p1: "kpre T I ?k1 ?L1" by (rule pre_object [OF p free]) (use t(2) pre_parts(4,5) [OF p] in auto)
  have c1: "settled ?k1 ?L1" using c by (subst settled_cong [of _ L _ k]) (simp_all add: added_def kernel_updates)
  have ty: "rt_object_get_type (Obj_thread t) ?k1 = RT_Object_Class_Thread"
    by (simp add: rt_object_get_type_def kernel_updates static_type)
  have free1: "\<forall>h. Tlist t \<notin> set (?L1 h) \<and> Row (Thread_timer t) \<notin> set (?L1 h) \<and> Obj_list (Obj_timer (Thread_timer t)) \<notin> set (?L1 h)"
    using t(3) by (simp add: unused_def added_def)
  obtain k' where "init_thread t name stack_start sz priority tick ?k1 = Some (RT_EOK, k')" "kpre T I k' (new_thread_lists t L)"
    "fresh_thread k' (new_thread_lists t L) t" "init_priority (threads k' t) = priority" "untouched t ?k1 k'"
    using init_thread_ok [OF p1 c1 t(1,2) free1 ty pr] unfolding new_thread_lists_def by blast
  moreover have "untouched t k ?k1" by (simp add: untouched_def same_ipcs_def kernel_updates)
  ultimately show ?thesis using oi t(1) s by (auto simp: rt_thread_init_def RT_ASSERT_def untouched_def same_ipcs_def)
qed

text \<open>\<open>rt_thread_create\<close>, when the heap has room for the object and for the stack.\<close>

lemma thread_create_ok:
  assumes p: "kpre T I k L" and c: "settled k L" and t: "t \<noteq> 0" "t \<notin> T" "unused t L" and pr: "unat priority < 32"
    and h: "rt_malloc 120 (kheap k) = Some (t, h1)" "rt_malloc sz (h1\<lparr>memory := rt_memset t 0 120 (memory h1)\<rparr>) = Some (stack_start, h2)"
      "stack_start \<noteq> 0"
  shows "\<exists>k'. rt_thread_create name sz priority tick k = Some (t, k') \<and> kpre T I k' (new_thread_lists t L) \<and>
     fresh_thread k' (new_thread_lists t L) t \<and> init_priority (threads k' t) = priority \<and> untouched t k k'"
proof -
  let ?L1 = "added (Obj_thread t) RT_Object_Class_Thread L"
  define k0 where "k0 = clear_fields (Obj_thread t) (k\<lparr>kheap := h1\<lparr>memory := rt_memset t 0 120 (memory h1)\<rparr>\<rparr>)"
  let ?k1 = "on_links (rt_list_insert_after (Container RT_Object_Class_Thread) (Obj_list (Obj_thread t)))
    (upd_object (Obj_thread t) (\<lambda>_. \<lparr>obj_name = take RT_NAME_MAX name, obj_type = RT_Object_Class_Thread, obj_flag = 0\<rparr>) k0)"
  have k0: "klinks k0 = klinks k" "rt_thread_ready_priority_group k0 = rt_thread_ready_priority_group k" "rt_tick k0 = rt_tick k"
    "rt_interrupt_nest k0 = 0" "rt_scheduler_lock_nest k0 = 0" "timers k0 = timers k" "objects k0 = objects k" "sem_value k0 = sem_value k"
    "mutexes k0 = mutexes k" "\<forall>u \<in> T. threads k0 u = threads k u" "rt_current_thread k0 = rt_current_thread k"
    "untouched t k k0"
    using pre_parts(4,5) [OF p] t(2) by (auto simp: k0_def upd_thread_def untouched_def same_ipcs_def)
  have free: "\<forall>h. Obj_list (Obj_thread t) \<notin> set (L h)" using t(3) by (simp add: unused_def)
  have alloc: "rt_object_allocate RT_Object_Class_Thread name k = Some (t, ?k1)"
    using h(1) t(1) pre_parts(4) [OF p]
    by (simp add: rt_object_allocate_def RT_DEBUG_NOT_IN_INTERRUPT_def RT_ASSERT_def classes k0_def object_at_def Let_def)
  have p1: "kpre T I ?k1 ?L1" by (rule pre_object [OF p free]) (use t(2) k0 in auto)
  let ?k2 = "?k1\<lparr>kheap := h2\<rparr>"
  have p2: "kpre T I ?k2 ?L1"
    by (rule pre_frame [OF p1]) (use pre_parts(2,4,5) [OF p1] in \<open>simp_all add: lists_ok_def same_thread_def\<close>)
  have m: "rt_malloc sz (kheap ?k1) = Some (stack_start, h2)" using h(2) by (simp add: k0_def kernel_updates)
  have c1: "settled ?k2 ?L1" using c k0(11) by (subst settled_cong [of _ L _ k]) (simp_all add: added_def kernel_updates)
  have ty: "rt_object_get_type (Obj_thread t) ?k2 = RT_Object_Class_Thread"
    by (simp add: rt_object_get_type_def kernel_updates RT_Object_Class_Thread_def RT_Object_Class_Static_def)
  have free1: "\<forall>h. Tlist t \<notin> set (?L1 h) \<and> Row (Thread_timer t) \<notin> set (?L1 h) \<and> Obj_list (Obj_timer (Thread_timer t)) \<notin> set (?L1 h)"
    using t(3) by (simp add: unused_def added_def)
  obtain k' where "init_thread t name stack_start sz priority tick ?k2 = Some (RT_EOK, k')" "kpre T I k' (new_thread_lists t L)"
    "fresh_thread k' (new_thread_lists t L) t" "init_priority (threads k' t) = priority" "untouched t ?k2 k'"
    using init_thread_ok [OF p2 c1 t(1,2) free1 ty pr] unfolding new_thread_lists_def by blast
  moreover have "untouched t k ?k2" using k0(12) by (simp add: untouched_def same_ipcs_def kernel_updates)
  ultimately show ?thesis using alloc m h(3) t(1) by (auto simp: rt_thread_create_def untouched_def same_ipcs_def)
qed

subsection \<open>The start\<close>

definition MAIN :: u32 where "MAIN = 0x2000400C"

lemma reset_lists: "lists_ok {} (kernel_at_reset\<lparr>kheap := h\<rparr>) (\<lambda>_. [])"
  by (simp add: lists_ok_def rings_def ring_def consecutive_def kernel_at_reset_def)

lemma init_reset: "rt_list_init n \<lparr>nxt = (\<lambda>n. n), prv = (\<lambda>n. n)\<rparr> = \<lparr>nxt = (\<lambda>n. n), prv = (\<lambda>n. n)\<rparr>"
  by (simp add: rt_list_init_def fun_upd_idem)

lemma fold_same: "(\<And>x. f x s = s) \<Longrightarrow> fold f xs s = s"
  by (induction xs) simp_all

text \<open>The kernel before the first thread.\<close>

definition kernel_empty :: kernel where
  "kernel_empty = kernel_at_reset\<lparr>kheap := board_heap, rt_current_priority := 31\<rparr>"

lemma kernel_empty: "rt_system_scheduler_init (rt_system_timer_init (board_heap_init kernel_at_reset)) = kernel_empty"
proof -
  have same: "on_links (rt_list_init n) k = k" if "klinks k = \<lparr>nxt = (\<lambda>n. n), prv = (\<lambda>n. n)\<rparr>" for n k
    using that by (cases k) (simp add: on_links_def init_reset)
  have "fold (\<lambda>p. on_links (rt_list_init (Ready p))) ps k = k" if "klinks k = \<lparr>nxt = (\<lambda>n. n), prv = (\<lambda>n. n)\<rparr>" for ps k
    using that by (intro fold_same) (simp add: same)
  then show ?thesis
    by (simp add: rt_system_scheduler_init_def rt_system_timer_init_def board_heap_init_def same kernel_at_reset_def Let_def kernel_empty_def
        board_heap_def RT_THREAD_PRIORITY_MAX_def del: upt_conv_Cons upt_rec_numeral)
qed

lemma kernel_empty_pre: "kpre {} {} kernel_empty (\<lambda>_. [])"
  using reset_lists
  by (simp add: kpre_def kwf_def timers_ok_def group_ok_def kernel_empty_def lists_ok_def) (simp add: kernel_at_reset_def)

definition boot_lists :: "u32 \<Rightarrow> lists" where
  "boot_lists idle = made_ready idle 31 (new_thread_lists idle (made_ready MAIN 10 (new_thread_lists MAIN (\<lambda>_. []))))"

lemma boot_ready:
  assumes "idle \<noteq> MAIN"
  shows "boot_lists idle (Ready p) = (if p = 10 then [Tlist MAIN] else if p = 31 then [Tlist idle] else [])"
  using assms by (simp add: boot_lists_def made_ready_def detached_def unlink_def new_thread_lists_def added_def)

lemma boot_top:
  assumes "idle \<noteq> MAIN"
  shows "top_thread (boot_lists idle) = MAIN"
proof -
  note b = boot_ready [OF assms]
  have "some_ready (boot_lists idle)" by (auto simp: some_ready_def b intro!: exI [of _ 10])
  note p = top_priority [OF this]
  have ne: "boot_lists idle (Ready (top_priority (boot_lists idle))) \<noteq> []" using p by blast
  then have "top_priority (boot_lists idle) \<in> {10, 31}" by (auto simp: b split: if_splits)
  moreover have "top_priority (boot_lists idle) \<noteq> 31" using p b [of 10] by auto
  ultimately show ?thesis by (simp add: top_thread_def b)
qed

lemma startup_ok:
  assumes idle: "idle \<noteq> 0" "idle \<noteq> MAIN" and stack: "stack \<noteq> 0"
  shows "\<exists>k. rtthread_startup idle stack kernel_at_reset = Some k \<and> kinv {idle, MAIN} {} idle k (boot_lists idle) \<and>
     rt_current_thread k = MAIN \<and> prio MAIN k = 10 \<and> prio idle k = 31"
proof -
  have cur: "rt_current_thread kernel_empty = 0" and heap: "kheap kernel_empty = board_heap"
    by (simp_all add: kernel_empty_def kernel_at_reset_def)
  have st0: "settled kernel_empty (\<lambda>_. [])" using cur by (simp add: settled_def)
  have main: "MAIN \<noteq> 0" by (simp add: MAIN_def)
  obtain h1 h2 where h: "rt_malloc 120 board_heap = Some (MAIN, h1)"
    "rt_malloc 2048 (h1\<lparr>memory := rt_memset MAIN 0 120 (memory h1)\<rparr>) = Some (0x20004090, h2)" using boot_mallocs unfolding MAIN_def by blast
  let ?L1 = "new_thread_lists MAIN (\<lambda>_. [])"
  have u: "unused MAIN (\<lambda>_. [])" by (simp add: unused_def)
  obtain k1 where k1: "rt_thread_create ''main'' 2048 10 20 kernel_empty = Some (MAIN, k1)" "kpre {} {} k1 ?L1" "fresh_thread k1 ?L1 MAIN"
    "init_priority (threads k1 MAIN) = 10" "untouched MAIN kernel_empty k1"
    using thread_create_ok [OF kernel_empty_pre st0 main _ u, of 10 h1 2048 "0x20004090" h2 "''main''" 20] h by (auto simp: heap)
  let ?L2 = "made_ready MAIN 10 ?L1"
  obtain k2 where k2: "rt_thread_startup MAIN k1 = Some (RT_EOK, k2)" "kpre {MAIN} {} k2 ?L2" "rt_current_thread k2 = 0"
    "thread_stat MAIN k2 = RT_THREAD_READY" "prio MAIN k2 = 10"
    using thread_startup [OF k1(2,3)] k1(4,5) cur by (auto simp: untouched_def)
  have app: "rt_application_init kernel_empty = Some k2"
    using k1(1) k2(1) main by (simp add: rt_application_init_def RT_MAIN_THREAD_STACK_SIZE_def RT_MAIN_THREAD_PRIORITY_def RT_ASSERT_def)
  have u2: "unused idle ?L2" using idle(2) by (auto simp: unused_def made_ready_def detached_def new_thread_lists_def added_def)
  let ?L3 = "new_thread_lists idle ?L2"
  have ni: "idle \<notin> {MAIN}" using idle by simp
  have st2: "settled k2 ?L2" using k2(3) by (simp add: settled_def)
  obtain k3 where k3: "rt_thread_init idle ''tidle'' stack 256 31 32 k2 = Some (RT_EOK, k3)" "kpre {MAIN} {} k3 ?L3" "fresh_thread k3 ?L3 idle"
    "init_priority (threads k3 idle) = 31" "untouched idle k2 k3"
    using thread_init_ok [OF k2(2) st2 idle(1) ni u2 stack, of 31 "''tidle''" 256 32] by auto
  obtain k4 where k4: "rt_thread_startup idle k3 = Some (RT_EOK, k4)" "kpre {idle, MAIN} {} k4 (boot_lists idle)"
    "thread_stat idle k4 = RT_THREAD_READY" "prio idle k4 = 31" "rt_current_thread k4 = 0"
    using thread_startup [OF k3(2,3) ni] k3(4,5) k2(3) unfolding boot_lists_def by (auto simp: untouched_def)
  have idl: "rt_thread_idle_init idle stack k2 = Some k4"
    using k3(1) k4(1) by (simp add: rt_thread_idle_init_def IDLE_THREAD_STACK_SIZE_def RT_THREAD_PRIORITY_MAX_def)
  obtain k5 where k5: "rt_system_scheduler_start k4 = Some k5" "kinv {idle, MAIN} {} idle k5 (boot_lists idle)" "rt_current_thread k5 = MAIN"
    using scheduler_start [OF k4(2) _ k4(3)] boot_top [OF idle(2)] by auto
  have at: "Tlist MAIN \<in> set (boot_lists idle (Ready 10))" "Tlist idle \<in> set (boot_lists idle (Ready 31))"
    by (simp_all add: boot_ready [OF idle(2)])
  note w = core_parts(1) [OF kinv_parts(1) [OF k5(2)]]
  have pr: "prio MAIN k5 = 10" "prio idle k5 = 31" using in_ready_list(3) [OF w at(1)] in_ready_list(3) [OF w at(2)] by simp_all
  have "rtthread_startup idle stack kernel_at_reset = Some k5"
    using app idl k5(1) kernel_empty by (simp add: rtthread_startup_def)
  then show ?thesis using k5 pr by blast
qed

subsection \<open>Creating semaphores and mutexes\<close>

definition unused_ipc :: "ipc_ptr \<Rightarrow> lists \<Rightarrow> bool" where
  "unused_ipc i L \<longleftrightarrow> L (Suspend i) = [] \<and> (\<forall>h. Obj_list (Obj_ipc i) \<notin> set (L h))"

lemma ipc_type_static: "(ipc_type i OR RT_Object_Class_Static) AND NOT RT_Object_Class_Static = ipc_type i"
  "rt_object_get_information (ipc_type i) \<noteq> None"
  by (cases i; simp add: ipc_type_def static_type classes)+

text \<open>The object of a semaphore or mutex.\<close>

definition ipc_added :: "ipc_ptr \<Rightarrow> string \<Rightarrow> kernel \<Rightarrow> kernel" where
  "ipc_added i name k = on_links (rt_list_insert_after (Container (ipc_type i)) (Obj_list (Obj_ipc i)))
     (upd_object (Obj_ipc i) (\<lambda>r. r\<lparr>obj_type := ipc_type i OR RT_Object_Class_Static, obj_name := take RT_NAME_MAX name\<rparr>) k)"

lemma ipc_object_init:
  assumes v: "kinv T I idle k L" and top: "rt_current_thread k = top_thread L" and i: "i \<notin> I" "unused_ipc i L"
  shows "rt_object_init (Obj_ipc i) (ipc_type i) name k = Some (ipc_added i name k)"
    and "kpre T I (ipc_added i name k) (added (Obj_ipc i) (ipc_type i) L)"
    and "rt_ipc_object_init i (ipc_added i name k) = ipc_added i name k"
proof -
  note c = kinv_parts(1) [OF v] and p = kinv_pre [OF v]
  have free: "\<forall>h. Obj_list (Obj_ipc i) \<notin> set (L h)" using i(2) by (simp add: unused_ipc_def)
  have s: "settled k L" using top core_parts(7) [OF c] by (simp add: settled_def)
  show "rt_object_init (Obj_ipc i) (ipc_type i) name k = Some (ipc_added i name k)"
    using object_init [OF p s free ipc_type_static(2) [of i], of name] by (simp add: ipc_added_def)
  show p1: "kpre T I (ipc_added i name k) (added (Obj_ipc i) (ipc_type i) L)"
    unfolding ipc_added_def by (rule pre_object [OF p free]) (use i(1) pre_parts(4,5) [OF p] in auto)
  have "L (Suspend i) = []" using i(2) by (simp add: unused_ipc_def)
  then have e: "added (Obj_ipc i) (ipc_type i) L (Suspend i) = []" by (simp add: added_def)
  have "\<forall>h. Suspend i \<notin> set (added (Obj_ipc i) (ipc_type i) L h)" by (rule lists_free [OF pre_parts(2) [OF p1]]) simp
  then show "rt_ipc_object_init i (ipc_added i name k) = ipc_added i name k"
    unfolding rt_ipc_object_init_def using init_node [OF pre_parts(2) [OF p1] _ e] by blast
qed

text \<open>Then the value and the flag are set: the new state \<open>k'\<close> differs from the one before in nothing else.\<close>

lemma ipc_made:
  assumes v: "kinv T I idle k L" and p: "kpre T I k1 L'" and k1: "threads k1 = threads k" "rt_current_thread k1 = rt_current_thread k"
      "obj_type (objects k1 (Obj_ipc i)) = ipc_type i OR RT_Object_Class_Static" "L' (Suspend i) = []"
    and i: "i \<notin> I" "ipc_addr i \<noteq> 0" and flag: "flag \<in> {RT_IPC_FLAG_FIFO, RT_IPC_FLAG_PRIO}"
    and f: "klinks k2 = klinks k1" "rt_thread_ready_priority_group k2 = rt_thread_ready_priority_group k1" "threads k2 = threads k1"
      "timers k2 = timers k1" "objects k2 = objects k1" "rt_tick k2 = rt_tick k1" "rt_interrupt_nest k2 = rt_interrupt_nest k1"
      "rt_scheduler_lock_nest k2 = rt_scheduler_lock_nest k1" "rt_current_thread k2 = rt_current_thread k1"
      "\<forall>j \<in> I. sem_value k2 (ipc_addr j) = sem_value k1 (ipc_addr j) \<and> mutexes k2 (ipc_addr j) = mutexes k1 (ipc_addr j)"
    and new: "case i of Sem_at s \<Rightarrow> True | Mutex_at m \<Rightarrow> mutex_ok T (mutexes k2 m) False"
  shows "kinv T (insert i I) idle (set_ipc_flag i flag k2) L'"
proof -
  let ?k' = "set_ipc_flag i flag k2"
  have fields: "klinks ?k' = klinks k1" "rt_thread_ready_priority_group ?k' = rt_thread_ready_priority_group k1" "threads ?k' = threads k1"
    "timers ?k' = timers k1" "\<forall>ob. ob \<noteq> Obj_ipc i \<longrightarrow> objects ?k' ob = objects k1 ob" "rt_tick ?k' = rt_tick k1"
    "rt_interrupt_nest ?k' = rt_interrupt_nest k1" "rt_scheduler_lock_nest ?k' = rt_scheduler_lock_nest k1"
    "rt_current_thread ?k' = rt_current_thread k1" "sem_value ?k' = sem_value k2" "mutexes ?k' = mutexes k2"
    "obj_type (objects ?k' (Obj_ipc i)) = ipc_type i OR RT_Object_Class_Static" "obj_flag (objects ?k' (Obj_ipc i)) = flag"
    using f k1 by (simp_all add: set_ipc_flag_def upd_object_def)
  have lk: "lists_ok T ?k' L'" using pre_parts(2) [OF p] fields(1) by (simp add: lists_ok_def)
  have p2: "kpre T I ?k' L'"
    by (rule pre_frame [OF p lk]) (use fields pre_parts(4,5) [OF p] i(1) f(10) in \<open>auto simp: same_thread_def\<close>)
  have "ipc_ok T ?k' L' i"
    using fields i(2) flag k1(4) new by (cases i) (auto simp: ipc_ok_def rt_object_get_type_def ipc_type_static)
  then have "kwf T (insert i I) ?k' L'" using pre_parts(1) [OF p2] by (auto simp: kwf_def)
  then show ?thesis using p2 v k1 fields by (simp add: kinv_def kcore_def kpre_def runs_def thread_stat_def)
qed

lemma sem_init_ok:
  assumes v: "kinv T I idle k L" and top: "rt_current_thread k = top_thread L"
    and s: "s \<noteq> 0" "Sem_at s \<notin> I" "Mutex_at s \<notin> I" "unused_ipc (Sem_at s) L"
    and flag: "flag \<in> {RT_IPC_FLAG_FIFO, RT_IPC_FLAG_PRIO}" and val: "val < 0x10000"
  shows "\<exists>k'. rt_sem_init s name val flag k = Some (RT_EOK, k') \<and>
     kinv T (insert (Sem_at s) I) idle k' (added (Obj_ipc (Sem_at s)) RT_Object_Class_Semaphore L) \<and>
     sem_value k' s = ucast val \<and> rt_current_thread k' = rt_current_thread k \<and> threads k' = threads k \<and>
     obj_flag (objects k' (Obj_ipc (Sem_at s))) = flag"
proof -
  let ?i = "Sem_at s" and ?k1 = "ipc_added (Sem_at s) name k"
  note o = ipc_object_init [OF v top s(2,4), of name]
  have ty: "ipc_type ?i = RT_Object_Class_Semaphore" by (simp add: ipc_type_def)
  have "ipc_addr j \<noteq> s" if "j \<in> I" for j using that s(2,3) by (cases j) (auto simp: ipc_addr_def)
  moreover have "added (Obj_ipc ?i) (ipc_type ?i) L (Suspend ?i) = []" using s(4) by (simp add: unused_ipc_def added_def)
  ultimately have "kinv T (insert ?i I) idle (set_ipc_flag ?i flag (set_sem s (ucast val) ?k1)) (added (Obj_ipc ?i) (ipc_type ?i) L)"
    using s by (intro ipc_made [OF v o(2) _ _ _ _ _ _ flag]) (auto simp: ipc_added_def kernel_updates set_sem_def ipc_addr_def)
  moreover have "rt_sem_init s name val flag k = Some (RT_EOK, set_ipc_flag ?i flag (set_sem s (ucast val) ?k1))"
    using o(1,3) s(1) val by (simp add: rt_sem_init_def RT_ASSERT_def ty)
  ultimately show ?thesis unfolding ty by (auto simp: set_ipc_flag_def set_sem_def ipc_added_def kernel_updates)
qed

lemma mutex_init_ok:
  assumes v: "kinv T I idle k L" and top: "rt_current_thread k = top_thread L"
    and m: "m \<noteq> 0" "Mutex_at m \<notin> I" "Sem_at m \<notin> I" "unused_ipc (Mutex_at m) L"
    and flag: "flag \<in> {RT_IPC_FLAG_FIFO, RT_IPC_FLAG_PRIO}"
  shows "\<exists>k'. rt_mutex_init m name flag k = Some (RT_EOK, k') \<and>
     kinv T (insert (Mutex_at m) I) idle k' (added (Obj_ipc (Mutex_at m)) RT_Object_Class_Mutex L) \<and>
     mutexes k' m = free_mutex \<and> rt_current_thread k' = rt_current_thread k \<and> threads k' = threads k \<and> sem_value k' = sem_value k \<and>
     (\<forall>j. j \<noteq> Mutex_at m \<longrightarrow> objects k' (Obj_ipc j) = objects k (Obj_ipc j)) \<and> (\<forall>n. n \<noteq> m \<longrightarrow> mutexes k' n = mutexes k n)"
proof -
  let ?i = "Mutex_at m" and ?k1 = "ipc_added (Mutex_at m) name k"
  note o = ipc_object_init [OF v top m(2,4), of name]
  have ty: "ipc_type ?i = RT_Object_Class_Mutex" by (simp add: ipc_type_def)
  have "ipc_addr j \<noteq> m" if "j \<in> I" for j using that m(2,3) by (cases j) (auto simp: ipc_addr_def)
  moreover have "added (Obj_ipc ?i) (ipc_type ?i) L (Suspend ?i) = []" using m(4) by (simp add: unused_ipc_def added_def)
  ultimately have "kinv T (insert ?i I) idle (set_ipc_flag ?i flag (upd_mutex m (\<lambda>_. free_mutex) ?k1)) (added (Obj_ipc ?i) (ipc_type ?i) L)"
    using m by (intro ipc_made [OF v o(2) _ _ _ _ _ _ flag]) (auto simp: ipc_added_def kernel_updates ipc_addr_def mutex_ok_def free_mutex_def)
  moreover have "rt_mutex_init m name flag k = Some (RT_EOK, set_ipc_flag ?i flag (upd_mutex m (\<lambda>_. free_mutex) ?k1))"
    using o(1,3) m(1) by (simp add: rt_mutex_init_def RT_ASSERT_def ty)
  ultimately show ?thesis unfolding ty by (auto simp: set_ipc_flag_def ipc_added_def kernel_updates)
qed

end
