(* ===== verification/KernelProps.thy ===== *)
theory KernelProps imports Boot begin

text \<open>
  The properties of the kernel, with a running system as their witness: the state after the start of the
  system in which the main thread has initialised a semaphore and a mutex.
\<close>

subsection \<open>A running system\<close>

definition IDLE :: u32 where "IDLE = 0x20000100"
definition STACK :: u32 where "STACK = 0x20000200"
definition SEM :: u32 where "SEM = 0x20000300"
definition MTX :: u32 where "MTX = 0x20000340"
definition MTX2 :: u32 where "MTX2 = 0x20000380"

definition demo_threads :: "u32 set" where "demo_threads = {IDLE, MAIN}"
definition demo_ipcs :: "ipc_ptr set" where "demo_ipcs = {Mutex_at MTX2, Mutex_at MTX, Sem_at SEM}"

definition demo_lists :: lists where
  "demo_lists = added (Obj_ipc (Mutex_at MTX2)) RT_Object_Class_Mutex (added (Obj_ipc (Mutex_at MTX)) RT_Object_Class_Mutex (added (Obj_ipc (Sem_at SEM)) RT_Object_Class_Semaphore (boot_lists IDLE)))"

definition demo_boot :: "u32 \<Rightarrow> kernel option" where
  "demo_boot v =
     do { k \<leftarrow> rtthread_startup IDLE STACK kernel_at_reset;
          (_, k) \<leftarrow> rt_sem_init SEM ''sem'' v RT_IPC_FLAG_FIFO k;
          (_, k) \<leftarrow> rt_mutex_init MTX ''mtx'' RT_IPC_FLAG_PRIO k;
          (_, k) \<leftarrow> rt_mutex_init MTX2 ''mtx2'' RT_IPC_FLAG_PRIO k;
          Some k }"

lemma demo_numbers: "IDLE \<noteq> 0" "IDLE \<noteq> MAIN" "MAIN \<noteq> IDLE" "STACK \<noteq> 0" "SEM \<noteq> 0" "MTX \<noteq> 0" "MTX \<noteq> SEM" "SEM \<noteq> MTX"
  "MTX2 \<noteq> 0" "MTX2 \<noteq> SEM" "SEM \<noteq> MTX2" "MTX2 \<noteq> MTX" "MTX \<noteq> MTX2"
  by (simp_all add: IDLE_def STACK_def SEM_def MTX_def MTX2_def MAIN_def)

lemma added_top: "top_thread (added ob ty L) = top_thread L"
  by (simp add: top_thread_def top_priority_def added_def)

lemma boot_unused: "unused_ipc i (boot_lists idle)" "i \<noteq> j \<Longrightarrow> unused_ipc i L \<Longrightarrow> unused_ipc i (added (Obj_ipc j) ty L)"
  by (auto simp: unused_ipc_def boot_lists_def made_ready_def detached_def new_thread_lists_def added_def unlink_def)

lemma demo_ok:
  assumes "v < 0x10000"
  shows "\<exists>k. demo_boot v = Some k \<and> kinv demo_threads demo_ipcs IDLE k demo_lists \<and> rt_current_thread k = MAIN \<and>
     sem_value k SEM = ucast v \<and> mutexes k MTX = free_mutex \<and> mutexes k MTX2 = free_mutex \<and> prio MAIN k = 10 \<and> obj_flag (objects k (Obj_ipc (Sem_at SEM))) = RT_IPC_FLAG_FIFO"
proof -
  obtain k1 where k1: "rtthread_startup IDLE STACK kernel_at_reset = Some k1" "kinv {IDLE, MAIN} {} IDLE k1 (boot_lists IDLE)"
    "rt_current_thread k1 = MAIN" "prio MAIN k1 = 10"
    using startup_ok [of IDLE STACK] demo_numbers by auto
  have top: "rt_current_thread k1 = top_thread (boot_lists IDLE)" using k1(3) boot_top demo_numbers by simp
  obtain k2 where k2: "rt_sem_init SEM ''sem'' v RT_IPC_FLAG_FIFO k1 = Some (RT_EOK, k2)"
    "kinv {IDLE, MAIN} {Sem_at SEM} IDLE k2 (added (Obj_ipc (Sem_at SEM)) RT_Object_Class_Semaphore (boot_lists IDLE))"
    "sem_value k2 SEM = ucast v" "rt_current_thread k2 = MAIN" "threads k2 = threads k1"
    "obj_flag (objects k2 (Obj_ipc (Sem_at SEM))) = RT_IPC_FLAG_FIFO"
    using sem_init_ok [OF k1(2) top, of SEM RT_IPC_FLAG_FIFO v "''sem''"] assms boot_unused demo_numbers k1(3) by auto
  let ?L2 = "added (Obj_ipc (Sem_at SEM)) RT_Object_Class_Semaphore (boot_lists IDLE)"
  have top2: "rt_current_thread k2 = top_thread ?L2" using top k1(3) k2(4) by (simp add: added_top)
  have u: "unused_ipc (Mutex_at MTX) ?L2" by (intro boot_unused) simp
  let ?L3 = "added (Obj_ipc (Mutex_at MTX)) RT_Object_Class_Mutex ?L2"
  obtain k3 where k3: "rt_mutex_init MTX ''mtx'' RT_IPC_FLAG_PRIO k2 = Some (RT_EOK, k3)" "kinv {IDLE, MAIN} {Mutex_at MTX, Sem_at SEM} IDLE k3 ?L3"
    "mutexes k3 MTX = free_mutex" "rt_current_thread k3 = MAIN" "threads k3 = threads k2" "sem_value k3 = sem_value k2"
    "\<forall>j. j \<noteq> Mutex_at MTX \<longrightarrow> objects k3 (Obj_ipc j) = objects k2 (Obj_ipc j)"
    using mutex_init_ok [OF k2(2) top2 demo_numbers(6) _ _ u, of RT_IPC_FLAG_PRIO "''mtx''"] demo_numbers k2(4) by auto
  have top3: "rt_current_thread k3 = top_thread ?L3" using top k1(3) k3(4) by (simp add: added_top)
  have u2: "unused_ipc (Mutex_at MTX2) ?L3" using demo_numbers by (intro boot_unused) simp_all
  obtain k4 where "rt_mutex_init MTX2 ''mtx2'' RT_IPC_FLAG_PRIO k3 = Some (RT_EOK, k4)" "kinv {IDLE, MAIN} demo_ipcs IDLE k4 demo_lists"
    "mutexes k4 MTX2 = free_mutex" "mutexes k4 MTX = mutexes k3 MTX" "rt_current_thread k4 = MAIN" "threads k4 = threads k3" "sem_value k4 = sem_value k3"
    "\<forall>j. j \<noteq> Mutex_at MTX2 \<longrightarrow> objects k4 (Obj_ipc j) = objects k3 (Obj_ipc j)"
    using mutex_init_ok [OF k3(2) top3 _ _ _ u2, of RT_IPC_FLAG_PRIO "''mtx2''"] demo_numbers k3(4) unfolding demo_lists_def demo_ipcs_def by auto
  then show ?thesis using k1 k2 k3 by (simp add: demo_boot_def demo_threads_def)
qed

lemma top_thread_eq:
  assumes "p < 32" and "L (Ready p) = Tlist t # ws" and "\<forall>q < p. L (Ready q) = []"
  shows "top_thread L = t"
proof -
  have "some_ready L" using assms(1,2) by (auto simp: some_ready_def)
  then have "top_priority L = p" using top_priority [of L] assms by (metis list.distinct(1) linorder_neqE_nat)
  then show ?thesis using assms(2) by (simp add: top_thread_def)
qed

lemma demo_ready: "demo_lists (Ready p) = (if p = 10 then [Tlist MAIN] else if p = 31 then [Tlist IDLE] else [])"
  using boot_ready [OF demo_numbers(2), of p] by (simp add: demo_lists_def added_def)

subsection \<open>The scheduler\<close>

text \<open>
  \<open>__rt_ffs\<close>, with its table of 256 entries and its cascade over the four bytes, equals one more than the
  first bit that a search from below finds, and 0 if there is none.
\<close>

theorem ffs_equals_search: "rt_ffs w = (case filter (bit w) [0..<32] of [] \<Rightarrow> 0 | p # _ \<Rightarrow> of_nat (p + 1))"
proof (cases "w = 0")
  case True
  then show ?thesis by (simp add: rt_ffs_def)
next
  case False
  define p where "p = unat (rt_ffs w - 1)"
  have l: "bit w p" "\<forall>q < p. \<not> bit w q" using rt_ffs_lowest [OF False] by (simp_all add: lowest_bit_def p_def)
  have "p < 32" using bit_imp_le_length [OF l(1)] by simp
  then have "[0..<32] = [0..<p] @ p # [Suc p..<32]"
    by (metis (no_types) le_add1 less_imp_le upt_add_eq_append upt_conv_Cons le_add_diff_inverse add_0)
  moreover have "filter (bit w) [0..<p] = []" using l(2) by (simp add: filter_empty_conv)
  ultimately have "filter (bit w) [0..<32] = p # filter (bit w) [Suc p..<32]" using l(1) by (simp only: filter_append filter.simps append_Nil if_True)
  moreover have "of_nat (p + 1) = rt_ffs w" by (simp add: p_def)
  ultimately show ?thesis by (simp only: list.case)
qed

text \<open>
  C27: When the scheduler is not locked, \<open>rt_schedule\<close> switches to the thread at the head of the ready list of the
  highest priority: no ready thread has a higher one (a smaller number), and every list above is empty. The
  threads and the lists are left as they are.
\<close>

theorem schedule_selects_highest:
  assumes "kcore T I idle k L"
  shows "\<exists>k' p. rt_schedule k = Some k' \<and> kinv T I idle k' L \<and> p < 32 \<and> L (Ready p) \<noteq> [] \<and> hd (L (Ready p)) = Tlist (rt_current_thread k') \<and>
    (\<forall>q < p. L (Ready q) = []) \<and> (\<forall>u \<in> T. thread_stat u k = RT_THREAD_READY \<longrightarrow> p \<le> prio u k) \<and> threads k' = threads k \<and> klinks k' = klinks k"
proof -
  note c = core_parts [OF assms]
  note s = core_schedule [OF assms]
  note top = selected_thread [OF kwf_parts(1,2) [OF c(1)] c(7)]
  let ?k' = "switch_to (top_thread L) (of_nat (top_priority L)) k" and ?p = "top_priority L"
  have p: "?p < 32" "L (Ready ?p) \<noteq> []" "\<forall>q < ?p. L (Ready q) = []" using top_priority [OF c(7)] by blast+
  have "?p \<le> prio u k" if "u \<in> T" "thread_stat u k = RT_THREAD_READY" for u
  proof (rule ccontr)
    assume "\<not> ?p \<le> prio u k"
    then have "L (Ready (prio u k)) = []" using p(3) by simp
    moreover have "Tlist u \<in> set (L (Ready (prio u k)))" using thread_parts(7) [OF kwf_parts(3) [OF c(1) that(1)] that(2)] by blast
    ultimately show False by simp
  qed
  moreover have "hd (L (Ready ?p)) = Tlist (rt_current_thread ?k')"
    using top(3) lists_first [OF kwf_parts(1) [OF c(1)], of "Ready ?p"] p(2) by (cases "hd (L (Ready ?p))") (simp_all add: first_thread_def)
  ultimately show ?thesis using s p by (intro exI [of _ ?k'] exI [of _ ?p]) simp
qed

theorem schedule_selects_highest_witness:
  "\<exists>k k'. demo_boot 1 = Some k \<and> rt_schedule k = Some k' \<and> rt_current_thread k' \<in> {IDLE, MAIN} \<and> threads k' = threads k"
proof -
  obtain k where k: "demo_boot 1 = Some k" "kinv demo_threads demo_ipcs IDLE k demo_lists" using demo_ok [of 1] by auto
  from schedule_selects_highest [OF kinv_parts(1) [OF k(2)]] k(1) kinv_parts(3) show ?thesis
    by (fastforce simp: demo_threads_def)
qed

text \<open>Yielding \<open>i\<close> times, by whichever thread runs.\<close>

fun yields :: "nat \<Rightarrow> kernel \<Rightarrow> kernel option" where
  "yields 0 k = Some k"
| "yields (Suc i) k = do { (_, k) \<leftarrow> rt_thread_yield k; yields i k }"

lemma yield_rotates:
  assumes v: "kinv T I idle k L" and top: "L (Ready p) = Tlist t # xs" "rt_current_thread k = t" "\<forall>q < p. L (Ready q) = []"
  shows "\<exists>k' L'. rt_thread_yield k = Some (RT_EOK, k') \<and> kinv T I idle k' L' \<and> threads k' = threads k \<and> L' (Ready p) = xs @ [Tlist t] \<and>
     Tlist (rt_current_thread k') = hd (xs @ [Tlist t]) \<and> (\<forall>q < p. L' (Ready q) = [])"
proof -
  note cp = core_parts [OF kinv_parts(1) [OF v]]
  note l = kwf_parts(1) [OF cp(1)]
  have p: "prio t k = p" "p < 32" using in_ready_list [OF cp(1), of t p] top(1) lists_fits [OF l, of "Tlist t" "Ready p"] by simp_all
  let ?L = "rotated t p L"
  obtain k' where k': "rt_thread_yield k = Some (RT_EOK, k')" "kwf T I k' ?L" "runs T k'" "only_moved k k'"
    "rt_current_thread k' = (if L (Ready p) = [Tlist t] then t else top_thread ?L)"
    using thread_yield [OF cp(1) kinv_parts(2) [OF v] cp(4)] unfolding top(2) p(1) by blast
  have "timers_ok k' ?L" using k'(4) by (intro timers_frame [OF cp(2)]) (simp_all add: only_moved_def rotated_def)
  then have v': "kinv T I idle k' ?L" using k' cp by (simp add: kinv_def kcore_def only_moved_def thread_stat_def)
  have "Tlist t \<notin> set xs" using rings_distinct [OF lists_rings [OF l], of "Ready p"] top(1) by simp
  then have r: "?L (Ready p) = xs @ [Tlist t]" using top(1) by (simp add: rotated_def)
  have e: "\<forall>q < p. ?L (Ready q) = []" using top(3) by (simp add: rotated_def)
  have "Tlist (rt_current_thread k') = hd (xs @ [Tlist t])"
  proof (cases xs)
    case Nil
    then show ?thesis using k'(5) top(1) by simp
  next
    case (Cons n ys)
    obtain u where "n = Tlist u" using lists_fits [OF l, of n "Ready p"] top(1) Cons by (cases n) auto
    then have "top_thread ?L = u" using top_thread_eq [OF p(2), of ?L u] r e Cons by simp
    then show ?thesis using k'(5) top(1) Cons \<open>n = Tlist u\<close> by simp
  qed
  then show ?thesis using k' v' r e by (intro exI [of _ k'] exI [of _ ?L]) (simp add: only_moved_def)
qed

text \<open>
  C34: \<open>rt_thread_yield\<close> serves the threads of the highest priority round robin: after \<open>i\<close> calls, by whichever thread runs, the
  thread that runs is the one at place \<open>i\<close>, modulo their number, of the ready list at the start, so that each of them has its turn before
  any has a second one; no thread changes.
\<close>

theorem yield_round_robin:
  assumes "kinv T I idle k L" and "rt_current_thread k = t" and "L (Ready p) = Tlist t # xs" and "\<forall>q < p. L (Ready q) = []"
  shows "\<exists>k' L'. yields i k = Some k' \<and> kinv T I idle k' L' \<and> threads k' = threads k \<and> L' (Ready p) = rotate i (L (Ready p)) \<and>
    Tlist (rt_current_thread k') = L (Ready p) ! (i mod length (L (Ready p)))"
proof -
  have "\<exists>k' L'. yields i k = Some k' \<and> kinv T I idle k' L' \<and> threads k' = threads k \<and> L' (Ready p) = rotate i (L (Ready p)) \<and>
    Tlist (rt_current_thread k') = hd (rotate i (L (Ready p)))" using assms
  proof (induction i arbitrary: k L t xs)
    case 0
    then show ?case by auto
  next
    case (Suc i)
    obtain k1 L1 where k1: "rt_thread_yield k = Some (RT_EOK, k1)" "kinv T I idle k1 L1" "threads k1 = threads k" "L1 (Ready p) = xs @ [Tlist t]"
      "Tlist (rt_current_thread k1) = hd (xs @ [Tlist t])" "\<forall>q < p. L1 (Ready q) = []"
      using yield_rotates [OF Suc.prems(1,3,2,4)] by blast
    have "L1 (Ready p) = Tlist (rt_current_thread k1) # tl (xs @ [Tlist t])" using k1(4,5) by (cases xs) auto
    from Suc.IH [OF k1(2) refl this k1(6)] k1(1,3,4) Suc.prems(3) show ?case by (auto simp: rotate1_rotate_swap)
  qed
  moreover have "L (Ready p) \<noteq> []" using assms(3) by simp
  ultimately show ?thesis by (simp add: hd_rotate_conv_nth)
qed

theorem yield_round_robin_witness: "\<exists>k k'. demo_boot 1 = Some k \<and> yields 7 k = Some k' \<and> rt_current_thread k' = MAIN"
proof -
  obtain k where k: "demo_boot 1 = Some k" "kinv demo_threads demo_ipcs IDLE k demo_lists" "rt_current_thread k = MAIN" using demo_ok [of 1] by auto
  have "demo_lists (Ready 10) = Tlist MAIN # []" "\<forall>q < 10. demo_lists (Ready q) = []" by (simp_all add: demo_ready)
  from yield_round_robin [OF k(2,3) this, of 7] k(1) show ?thesis by (auto simp: demo_ready)
qed

subsection \<open>Timers\<close>

text \<open>
  C7: \<open>rt_timer_start\<close> implements stable insertion into the list of timers ordered by the ticks that are left: the timer of a suspended
  thread, set to less than half the range of the tick, is put behind all timers that are due no later and
  before all others, wrap-around of the tick included. The list stays ordered and nothing else changes place.
\<close>

theorem timer_start_inserts_in_order:
  assumes c: "kcore T I idle k L" and t: "t \<in> T" "thread_stat t k = RT_THREAD_SUSPEND"
    and i: "timer_init_tick (timers k (Thread_timer t)) < HALF_TICKS"
  defines "n \<equiv> Row (Thread_timer t)" and "d \<equiv> unat (timer_init_tick (timers k (Thread_timer t)))" and "xs \<equiv> removeAll (Row (Thread_timer t)) (L Timer_head)"
  shows "\<exists>k' L'. rt_timer_start (Thread_timer t) k = Some (RT_EOK, k') \<and> kcore T I idle k' L' \<and>
    L' Timer_head = takeWhile (\<lambda>m. due k m \<le> d) xs @ n # dropWhile (\<lambda>m. due k m \<le> d) xs \<and> due k' n = d \<and>
    sorted (map (due k') (L' Timer_head)) \<and> (\<forall>m \<in> set xs. due k' m = due k m) \<and> (\<forall>h. h \<noteq> Timer_head \<longrightarrow> L' h = L h)"
proof -
  note p = core_parts [OF c]
  let ?L = "with_timer t k L"
  obtain a where a: "rt_timer_start (Thread_timer t) k = Some (RT_EOK, timer_started t a k)" "kwf T I (timer_started t a k) ?L"
    "timers_ok (timer_started t a k) ?L" using timer_start [OF p(1) t p(2) i] by blast
  let ?k = "timer_started t a k"
  have "kcore T I idle ?k ?L" using a p by (simp add: kcore_def thread_stat_def)
  moreover have "?L Timer_head = takeWhile (\<lambda>m. due k m \<le> d) xs @ n # dropWhile (\<lambda>m. due k m \<le> d) xs"
    by (simp add: with_timer_def insert_due_def Let_def unlink_def n_def d_def xs_def)
  moreover have "due ?k n = d" by (simp add: due_def n_def d_def)
  moreover have "due ?k m = due k m" if m: "m \<in> set xs" for m
  proof -
    obtain u where u: "m = Row (Thread_timer u)" using timer_rows [OF kwf_parts(1) [OF p(1)], of m] m by (auto simp: xs_def)
    then have "u \<noteq> t" using m by (auto simp: xs_def)
    then show ?thesis using u by (simp add: due_def)
  qed
  moreover have "?L h = L h" if "h \<noteq> Timer_head" for h
    using row_home [OF kwf_parts(1) [OF p(1)], of "Thread_timer t" h] that by (auto simp: with_timer_def Let_def unlink_def intro!: removeAll_id)
  ultimately show ?thesis using a by (intro exI [of _ ?k] exI [of _ ?L]) (simp add: timers_ok_def)
qed

text \<open>The timer of the sleeping main thread is started again.\<close>

theorem timer_start_inserts_in_order_witness:
  "\<exists>k k0 k'. demo_boot 1 = Some k \<and> rt_thread_sleep 3 k = Some (Block, k0) \<and> rt_timer_start (Thread_timer MAIN) k0 = Some (RT_EOK, k') \<and>
     due k' (Row (Thread_timer MAIN)) = 3"
proof -
  obtain k where k: "demo_boot 1 = Some k" "kinv demo_threads demo_ipcs IDLE k demo_lists" "rt_current_thread k = MAIN" using demo_ok [of 1] by auto
  have lt: "(3 :: u32) < HALF_TICKS" by (simp add: HALF_TICKS_def)
  obtain k0 L0 where k0: "rt_thread_sleep 3 k = Some (Block, k0)" "kinv demo_threads demo_ipcs IDLE k0 L0"
    "threads k0 = (threads k)(MAIN := set_stat RT_THREAD_SUSPEND (threads k MAIN))" "timer_init_tick (timers k0 (Thread_timer MAIN)) = 3"
    using sleep_ok [OF k(2,3) demo_numbers(3) lt] by blast
  have st: "thread_stat MAIN k0 = RT_THREAD_SUSPEND" by (simp add: k0(3) thread_stat_def set_stat_stat)
  have t: "MAIN \<in> demo_threads" by (simp add: demo_threads_def)
  have "timer_init_tick (timers k0 (Thread_timer MAIN)) < HALF_TICKS" using k0(4) lt by simp
  from timer_start_inserts_in_order [OF kinv_parts(1) [OF k0(2)] t st this] k(1) k0(1,4) show ?thesis by auto
qed

text \<open>A suspended thread whose timer has \<open>d\<close> ticks left.\<close>

definition asleep :: "u32 \<Rightarrow> nat \<Rightarrow> kernel \<Rightarrow> lists \<Rightarrow> bool" where
  "asleep t d k L \<longleftrightarrow> thread_stat t k = RT_THREAD_SUSPEND \<and> Row (Thread_timer t) \<in> set (L Timer_head) \<and> due k (Row (Thread_timer t)) = d"

lemma fired_due:
  assumes "timers_ok k L" and "n \<in> set (L Timer_head)"
  shows "n \<in> set (tick_fired k L) \<longleftrightarrow> due k n \<le> 1"
proof
  show "n \<in> set (tick_fired k L) \<Longrightarrow> due k n \<le> 1" unfolding tick_fired_def by (drule set_takeWhileD) simp
  assume d: "due k n \<le> 1"
  obtain us vs where xs: "L Timer_head = us @ n # vs" using assms(2) by (meson split_list)
  then have "\<forall>m \<in> set us. due k m \<le> due k n" using assms(1) by (auto simp: timers_ok_def sorted_append)
  then have "takeWhile (\<lambda>m. due k m \<le> 1) (us @ n # vs) = us @ n # takeWhile (\<lambda>m. due k m \<le> 1) vs"
    using d by (subst takeWhile_append2) fastforce+
  then show "n \<in> set (tick_fired k L)" by (simp add: tick_fired_def xs)
qed

lemma tick_step:
  assumes v: "kinv T I idle k L"
  shows "\<exists>k' L'. SysTick_Handler user k = Some k' \<and> kinv T I idle k' L' \<and>
     (\<forall>t d. asleep t d k L \<longrightarrow> (if d \<le> 1 then thread_stat t k' = RT_THREAD_READY \<and> thread_error (threads k' t) = - RT_ETIMEOUT else asleep t (d - 1) k' L'))"
proof -
  note cp = core_parts [OF kinv_parts(1) [OF v]]
  obtain k' where k': "SysTick_Handler user k = Some k'" "kwf T I k' (tick_lists k L)" "timers_ok k' (tick_lists k L)" "runs T k'"
    "rt_tick k' = rt_tick k + 1" "timers k' = timers k" "rt_interrupt_nest k' = rt_interrupt_nest k" "rt_scheduler_lock_nest k' = 0"
    "\<forall>t. Row (Thread_timer t) \<in> set (tick_fired k L) \<longrightarrow> thread_error (threads k' t) = - RT_ETIMEOUT \<and> thread_stat t k' = RT_THREAD_READY"
    "\<forall>t. Row (Thread_timer t) \<notin> set (tick_fired k L) \<longrightarrow> thread_error (threads k' t) = thread_error (threads k t) \<and> thread_stat t k' = thread_stat t k"
    using sys_tick [OF cp(1) kinv_parts(2) [OF v] cp(4,2), of user] by blast
  note rows = timer_rows [OF kwf_parts(1) [OF cp(1)]]
  have "thread_stat idle k' = RT_THREAD_READY" using k'(9,10) cp(6) by metis
  then have v': "kinv T I idle k' (tick_lists k L)" using k' cp by (simp add: kinv_def kcore_def)
  have "if d \<le> 1 then thread_stat t k' = RT_THREAD_READY \<and> thread_error (threads k' t) = - RT_ETIMEOUT else asleep t (d - 1) k' (tick_lists k L)"
    if a: "asleep t d k L" for t d
  proof -
    let ?n = "Row (Thread_timer t)"
    have n: "?n \<in> set (L Timer_head)" "due k ?n = d" "thread_stat t k = RT_THREAD_SUSPEND" using a by (simp_all add: asleep_def)
    have f: "?n \<in> set (tick_fired k L) \<longleftrightarrow> d \<le> 1" using fired_due [OF cp(2) n(1)] n(2) by simp
    show ?thesis
    proof (cases "d \<le> 1")
      case True
      then show ?thesis using f k'(9) by simp
    next
      case False
      have b: "due k ?n < unat HALF_TICKS" using cp(2) n(1) by (simp add: timers_ok_def)
      have "due k' ?n = d - 1" using tick_due(2) [OF b _ k'(5,6)] False n(2) by simp
      moreover have "tick_lists k L Timer_head = dropWhile (\<lambda>m. due k m \<le> 1) (L Timer_head)"
        using rows rings_distinct [OF lists_rings [OF kwf_parts(1) [OF cp(1)]]] by (intro tick_timers(1) [OF cp(2) _ _ k'(5,6)]) blast+
      moreover have "L Timer_head = tick_fired k L @ dropWhile (\<lambda>m. due k m \<le> 1) (L Timer_head)" by (simp add: tick_fired_def)
      then have "?n \<in> set (dropWhile (\<lambda>m. due k m \<le> 1) (L Timer_head))" using n(1) f False by (metis UnE set_append)
      ultimately show ?thesis using f False n(3) k'(10) by (simp add: asleep_def)
    qed
  qed
  then show ?thesis using k'(1) v' by blast
qed

text \<open>\<open>n\<close> ticks.\<close>

fun ticks :: "(nat \<Rightarrow> u32 \<Rightarrow> kernel \<Rightarrow> kernel option) \<Rightarrow> nat \<Rightarrow> kernel \<Rightarrow> kernel option" where
  "ticks user 0 k = Some k"
| "ticks user (Suc n) k = do { k \<leftarrow> SysTick_Handler user k; ticks user n k }"

lemma ticks_asleep:
  assumes "kinv T I idle k L" and "asleep t d k L" and "1 \<le> d"
  shows "(\<forall>i < d. \<exists>k'. ticks user i k = Some k' \<and> thread_stat t k' = RT_THREAD_SUSPEND) \<and>
     (\<exists>k'. ticks user d k = Some k' \<and> thread_stat t k' = RT_THREAD_READY \<and> thread_error (threads k' t) = - RT_ETIMEOUT)"
  using assms
proof (induction d arbitrary: k L)
  case (Suc d)
  obtain k' L' where k': "SysTick_Handler user k = Some k'" "kinv T I idle k' L'"
    "\<forall>t d. asleep t d k L \<longrightarrow> (if d \<le> 1 then thread_stat t k' = RT_THREAD_READY \<and> thread_error (threads k' t) = - RT_ETIMEOUT else asleep t (d - 1) k' L')"
    using tick_step [OF Suc.prems(1), of user] by blast
  have st: "if Suc d \<le> 1 then thread_stat t k' = RT_THREAD_READY \<and> thread_error (threads k' t) = - RT_ETIMEOUT else asleep t d k' L'"
    using k'(3) Suc.prems(2) by (metis diff_Suc_1)
  have now: "thread_stat t k = RT_THREAD_SUSPEND" using Suc.prems(2) by (simp add: asleep_def)
  show ?case
  proof (cases "d = 0")
    case True
    then show ?thesis using k'(1) st now by simp
  next
    case False
    then have IH: "(\<forall>i < d. \<exists>k''. ticks user i k' = Some k'' \<and> thread_stat t k'' = RT_THREAD_SUSPEND) \<and>
      (\<exists>k''. ticks user d k' = Some k'' \<and> thread_stat t k'' = RT_THREAD_READY \<and> thread_error (threads k'' t) = - RT_ETIMEOUT)"
      using Suc.IH [OF k'(2)] st by simp
    have "\<exists>k''. ticks user i k = Some k'' \<and> thread_stat t k'' = RT_THREAD_SUSPEND" if "i < Suc d" for i
      using that now IH k'(1) by (cases i) auto
    then show ?thesis using IH k'(1) by simp
  qed
qed simp

text \<open>
  C29: A thread that sleeps for \<open>n\<close> ticks, below half the range of the tick, is suspended for exactly \<open>n\<close> ticks:
  it is still suspended after fewer, and ready with the error of a timeout after \<open>n\<close>,
  whatever the value of the tick counter and however many timers run.
\<close>

theorem sleep_wakes_on_time:
  assumes "kinv T I idle k L" and "rt_current_thread k = t" and "t \<noteq> idle" and "1 \<le> n" and "n < unat HALF_TICKS"
  shows "\<exists>k0. rt_thread_sleep (of_nat n) k = Some (Block, k0) \<and>
    (\<forall>i < n. \<exists>k'. ticks user i k0 = Some k' \<and> thread_stat t k' = RT_THREAD_SUSPEND) \<and>
    (\<exists>k'. ticks user n k0 = Some k' \<and> thread_stat t k' = RT_THREAD_READY \<and> thread_error (threads k' t) = - RT_ETIMEOUT)"
proof -
  have u: "unat (of_nat n :: u32) = n" using assms(5) by (simp add: unat_of_nat HALF_TICKS_def)
  then have lt: "(of_nat n :: u32) < HALF_TICKS" using assms(5) by (simp add: word_less_nat_alt)
  obtain k0 where k0: "rt_thread_sleep (of_nat n) k = Some (Block, k0)" "kinv T I idle k0 (sleep_lists t (of_nat n) k L)"
    "threads k0 = (threads k)(t := set_stat RT_THREAD_SUSPEND (threads k t))" "due k0 (Row (Thread_timer t)) = n"
    using sleep_ok [OF assms(1-3) lt] u by auto
  have "asleep t n k0 (sleep_lists t (of_nat n) k L)"
    using k0(3,4) by (simp add: asleep_def thread_stat_def set_stat_stat sleep_lists_def with_timer_def Let_def)
  from ticks_asleep [OF k0(2) this assms(4), of user] k0(1) show ?thesis by blast
qed

theorem sleep_wakes_on_time_witness:
  "\<exists>k k0 k'. demo_boot 1 = Some k \<and> rt_thread_sleep 3 k = Some (Block, k0) \<and> ticks (\<lambda>_ _. Some) 3 k0 = Some k' \<and> thread_stat MAIN k' = RT_THREAD_READY"
proof -
  obtain k where k: "demo_boot 1 = Some k" "kinv demo_threads demo_ipcs IDLE k demo_lists" "rt_current_thread k = MAIN" using demo_ok [of 1] by auto
  have "3 < unat HALF_TICKS" by (simp add: HALF_TICKS_def)
  from sleep_wakes_on_time [OF k(2,3) demo_numbers(3) _ this, of "\<lambda>_ _. Some"] k(1) show ?thesis by auto
qed

text \<open>
  \<open>rt_thread_delay_until\<close> suspends its caller like \<open>rt_thread_sleep\<close>, for the increment and the ticks that have passed
  since the given tick, instead of the increment less these ticks.
\<close>

lemma delay_until_sleeps:
  assumes v: "kinv T I idle k L" "rt_current_thread k = t" "t \<noteq> idle" and "rt_tick k - tick < inc" and n: "rt_tick k - tick + inc < HALF_TICKS"
  shows "\<exists>k'. rt_thread_delay_until tick inc k = Some (Block, k') \<and> rt_thread_sleep (rt_tick k - tick + inc) k = Some (Block, k')"
proof -
  obtain k' where "rt_thread_sleep (rt_tick k - tick + inc) k = Some (Block, k')" using sleep_ok [OF v n] by blast
  then show ?thesis using assms(4)
    unfolding rt_thread_delay_until_def rt_thread_sleep_def rt_thread_self_def rt_tick_get_def after_schedule_def Let_def
    by (fastforce simp: bind_eq_Some_conv split: if_splits prod.splits)
qed

subsection \<open>The start and the calls\<close>

text \<open>
  C30: From the state after reset, \<open>rtthread_startup\<close> runs through every assertion and ends with the main thread, made by
  \<open>rt_application_init\<close> from the heap, running at priority 10, and the idle thread, which is distinct from it, ready at priority
  31: all other ready lists are empty, and the state satisfies the invariant of the kernel.
\<close>

theorem startup_runs_main:
  assumes "idle \<noteq> 0" and "idle \<noteq> MAIN" and "stack \<noteq> 0"
  shows "\<exists>k. rtthread_startup idle stack kernel_at_reset = Some k \<and> kinv {idle, MAIN} {} idle k (boot_lists idle) \<and> rt_current_thread k = MAIN \<and>
    prio MAIN k = 10 \<and> prio idle k = 31 \<and>
    (\<forall>p. boot_lists idle (Ready p) = (if p = 10 then [Tlist MAIN] else if p = 31 then [Tlist idle] else []))"
  using startup_ok [OF assms] boot_ready [OF assms(2)] by blast

theorem startup_runs_main_witness: "\<exists>k. rtthread_startup IDLE STACK kernel_at_reset = Some k \<and> rt_current_thread k = MAIN"
  using startup_runs_main [OF demo_numbers(1,2,4)] by blast

text \<open>
  C3: The interface of the kernel is type safe: from a state that satisfies the invariant, every sequence of valid calls by the threads that
  run, and of ticks in between, in any order, runs without a failed assertion, a null pointer, a list entry of a wrong kind or an
  endless search. The invariant holds afterwards, and every call that has returned has returned one
  of the three status codes.
\<close>

theorem kernel_runs:
  assumes "kinv T I idle (kernel_of s) L" and "pending s = (\<lambda>_. None)" and "returned s = []" and "\<forall>e \<in> set es. event_ok I e"
  shows "\<exists>s' L'. system_run user clean idle es s = Some s' \<and> kinv T I idle (kernel_of s') L' \<and>
    (\<forall>t c r. (t, c, r) \<in> set (returned s') \<longrightarrow> r \<in> {RT_EOK, - RT_ERROR, - RT_ETIMEOUT})"
proof -
  have "system_ok T I idle s L" using assms(1-3) by (simp add: system_ok_def)
  from system_run_ok [OF this assms(4), of user clean] show ?thesis unfolding system_ok_def status_ok_def by fast
qed

definition demo_events :: "kevent list" where
  "demo_events = [Run (Mutex_take MTX 0xFFFFFFFF), Run (Sem_take SEM 5), Run Yield, Tick, Run (Sem_take SEM 2), Tick, Run Yield, Tick, Run Yield,
     Run (Mutex_release MTX), Run (Sem_release SEM), Run (Sleep 3)]"

theorem kernel_runs_witness:
  "\<exists>k s'. demo_boot 1 = Some k \<and>
     system_run (\<lambda>_ _. Some) (\<lambda>_ _. Some) IDLE demo_events \<lparr>kernel_of = k, pending = (\<lambda>_. None), returned = []\<rparr> = Some s'"
proof -
  obtain k where k: "demo_boot 1 = Some k" "kinv demo_threads demo_ipcs IDLE k demo_lists" using demo_ok [of 1] by auto
  have "\<forall>e \<in> set demo_events. event_ok demo_ipcs e"
    by (simp add: demo_events_def demo_ipcs_def time_ok_def HALF_TICKS_def)
  then show ?thesis
    using kernel_runs [of demo_threads demo_ipcs IDLE "\<lparr>kernel_of = k, pending = (\<lambda>_. None), returned = []\<rparr>" demo_lists demo_events
      "\<lambda>_ _. Some" "\<lambda>_ _. Some"] k by auto
qed

end
