(* ===== verification/IpcProps.thy ===== *)
theory IpcProps imports KernelProps begin

text \<open>
  Semaphores and mutexes between threads: waiting, priority inheritance and handing over, with a system in which a
  thread of a higher priority preempts the owner of a mutex and waits for it; and waiting in a critical section.
\<close>

subsection \<open>A system with contention\<close>

definition WORK :: u32 where "WORK = 0x20000400"
definition WORK_STACK :: u32 where "WORK_STACK = 0x20000500"

definition work_threads :: "u32 set" where "work_threads = insert WORK demo_threads"

definition work_lists :: lists where "work_lists = made_ready WORK 5 (new_thread_lists WORK demo_lists)"

text \<open>The main thread takes the mutexes and starts a thread of priority 5, which preempts it.\<close>

definition demo_contention :: "kernel option" where
  "demo_contention =
     do { k \<leftarrow> demo_boot 0;
          (_, k) \<leftarrow> rt_mutex_take MTX 0xFFFFFFFF k;
          (_, k) \<leftarrow> rt_mutex_take MTX2 0xFFFFFFFF k;
          (_, k) \<leftarrow> rt_thread_init WORK ''work'' WORK_STACK 256 5 20 k;
          (_, k) \<leftarrow> rt_thread_startup WORK k;
          Some k }"

lemma work_numbers: "WORK \<noteq> 0" "WORK \<noteq> MAIN" "WORK \<noteq> IDLE" "WORK_STACK \<noteq> 0" "MAIN \<noteq> WORK" "MAIN \<noteq> 0"
  by (simp_all add: WORK_def WORK_STACK_def MAIN_def IDLE_def)

lemma work_ready: "work_lists (Ready p) = (if p = 5 then [Tlist WORK] else if p = 10 then [Tlist MAIN] else if p = 31 then [Tlist IDLE] else [])"
  using work_numbers by (simp add: work_lists_def made_ready_def detached_def unlink_def new_thread_lists_def added_def demo_ready)

lemma work_unused: "unused WORK demo_lists"
  using work_numbers
  by (auto simp: unused_def demo_lists_def boot_lists_def made_ready_def detached_def unlink_def new_thread_lists_def added_def)

lemma work_waiters: "work_lists (Suspend i) = []"
  by (simp add: work_lists_def demo_lists_def boot_lists_def made_ready_def detached_def unlink_def new_thread_lists_def added_def)

lemma contention_ok:
  "\<exists>k. demo_contention = Some k \<and> kinv work_threads demo_ipcs IDLE k work_lists \<and> rt_current_thread k = WORK \<and>
     mutexes k MTX = locked MAIN 10 free_mutex \<and> mutexes k MTX2 = locked MAIN 10 free_mutex \<and> prio WORK k = 5 \<and> prio MAIN k = 10 \<and> thread_stat MAIN k = RT_THREAD_READY"
proof -
  obtain k0 where k0: "demo_boot 0 = Some k0" "kinv demo_threads demo_ipcs IDLE k0 demo_lists" "rt_current_thread k0 = MAIN"
    "mutexes k0 MTX = free_mutex" "mutexes k0 MTX2 = free_mutex" "prio MAIN k0 = 10" using demo_ok [of 0] by auto
  have p10: "current_priority (threads k0 MAIN) = 10" using k0(6) by (intro unsigned_word_eqI [where ?'a = nat]) simp
  have i: "Mutex_at MTX \<in> demo_ipcs" "Mutex_at MTX2 \<in> demo_ipcs" by (simp_all add: demo_ipcs_def)
  have fv: "time_ok 0xFFFFFFFF" by (simp add: time_ok_def)
  have ow: "mutex_owner (mutexes k0 MTX) = 0" by (simp add: k0(4) free_mutex_def)
  define ka where "ka = upd_mutex MTX (locked MAIN 10) (no_error MAIN k0)"
  have ka: "rt_mutex_take MTX 0xFFFFFFFF k0 = Some (Ret RT_EOK, ka)" "kinv demo_threads demo_ipcs IDLE ka demo_lists"
    using mutex_take_ok(2) [OF k0(2,3) demo_numbers(3) i(1) fv ow] unfolding p10 ka_def by blast+
  have pa: "rt_current_thread ka = MAIN" "mutexes ka MTX = locked MAIN 10 free_mutex" "mutexes ka MTX2 = free_mutex"
    "current_priority (threads ka MAIN) = 10"
    using k0(3-5) p10 demo_numbers by (simp_all add: ka_def no_error_def)
  have ow2: "mutex_owner (mutexes ka MTX2) = 0" by (simp add: pa(3) free_mutex_def)
  define k1 where "k1 = upd_mutex MTX2 (locked MAIN 10) (no_error MAIN ka)"
  have k1: "rt_mutex_take MTX2 0xFFFFFFFF ka = Some (Ret RT_EOK, k1)" "kinv demo_threads demo_ipcs IDLE k1 demo_lists"
    using mutex_take_ok(2) [OF ka(2) pa(1) demo_numbers(3) i(2) fv ow2] unfolding pa(4) k1_def by blast+
  have p1: "rt_current_thread k1 = MAIN" "mutexes k1 MTX = locked MAIN 10 free_mutex" "mutexes k1 MTX2 = locked MAIN 10 free_mutex"
    "current_priority (threads k1 MAIN) = 10"
    using pa demo_numbers by (simp_all add: k1_def no_error_def)
  note cur = p1(1)
  have "some_ready demo_lists" by (auto simp: some_ready_def demo_ready intro!: exI [of _ 10])
  moreover have "top_thread demo_lists = MAIN" by (rule top_thread_eq [of 10]) (simp_all add: demo_ready)
  ultimately have st: "settled k1 demo_lists" using cur by (simp add: settled_def)
  have nt: "WORK \<notin> demo_threads" using work_numbers by (simp add: demo_threads_def)
  obtain k2 where k2: "rt_thread_init WORK ''work'' WORK_STACK 256 5 20 k1 = Some (RT_EOK, k2)"
    "kpre demo_threads demo_ipcs k2 (new_thread_lists WORK demo_lists)" "fresh_thread k2 (new_thread_lists WORK demo_lists) WORK"
    "init_priority (threads k2 WORK) = 5" "untouched WORK k1 k2"
    using thread_init_ok [OF kinv_pre [OF k1(2)] st work_numbers(1) nt work_unused work_numbers(4), of 5 "''work''" 256 20] by auto
  obtain k3 where k3: "rt_thread_startup WORK k2 = Some (RT_EOK, k3)" "kpre work_threads demo_ipcs k3 work_lists" "settled k3 work_lists"
    "same_ipcs k2 k3" "rt_current_thread k3 = (if rt_current_thread k2 = 0 then 0 else top_thread work_lists)"
    "\<forall>u. u \<noteq> WORK \<longrightarrow> threads k3 u = threads k2 u" "prio WORK k3 = 5"
    using thread_startup [OF k2(2,3) nt] k2(4) unfolding work_threads_def work_lists_def by auto
  have same: "threads k3 u = threads k1 u" if "u \<noteq> WORK" for u using that k3(6) k2(5) by (simp add: untouched_def)
  have m: "mutexes k3 MTX = locked MAIN 10 free_mutex" "mutexes k3 MTX2 = locked MAIN 10 free_mutex"
    using k3(4) k2(5) p1 by (simp_all add: untouched_def same_ipcs_def)
  have top: "rt_current_thread k3 = WORK"
    using k3(5) k2(5) cur top_thread_eq [of 5 work_lists WORK "[]"] work_numbers by (simp add: work_ready untouched_def)
  have mine: "current_priority (threads k3 MAIN) = 10" using same [OF work_numbers(5)] p1(4) by simp
  note cp = core_parts [OF kinv_parts(1) [OF k1(2)]]
  have r: "thread_stat IDLE k3 = RT_THREAD_READY" using cp(6) same [of IDLE] work_numbers(3) by (simp add: thread_stat_def)
  have rm: "thread_stat MAIN k3 = RT_THREAD_READY" using kinv_parts(4) [OF k1(2)] cur same [OF work_numbers(5)] by (simp add: thread_stat_def)
  have "IDLE \<in> work_threads" by (simp add: work_threads_def demo_threads_def)
  then have "kinv work_threads demo_ipcs IDLE k3 work_lists"
    using settled_inv [OF k3(2,3) _ _ r] top work_numbers(1) by simp
  then show ?thesis using k0(1) ka(1) k1(1) k2(1) k3(1,7) top m mine rm by (simp add: demo_contention_def)
qed

subsection \<open>Waiting for a mutex\<close>

text \<open>
  C6: A thread that takes a mutex owned by another thread, with a waiting time, is suspended on the list of the
  mutex, and the owner inherits the priority of the caller if it is higher (a smaller number): the owner's priority becomes the
  minimum of the two. The scheduler switches away from the caller; no other thread, mutex or semaphore changes.
\<close>

theorem mutex_wait_inherits:
  assumes "kinv T I idle k L" and "rt_current_thread k = t" and "t \<noteq> idle" and "Mutex_at m \<in> I" and "time_ok time" and "time \<noteq> 0"
    and "mutex_owner (mutexes k m) = ow" and "ow \<noteq> 0" and "ow \<noteq> t"
  shows "\<exists>k' L'. rt_mutex_take m time k = Some (Block, k') \<and> kinv T I idle k' L' \<and> thread_stat t k' = RT_THREAD_SUSPEND \<and>
    Tlist t \<in> set (L' (Suspend (Mutex_at m))) \<and> prio ow k' = min (prio ow k) (prio t k) \<and> prio t k' = prio t k \<and>
    rt_current_thread k' \<noteq> t \<and> (\<forall>u. u \<noteq> t \<longrightarrow> u \<noteq> ow \<longrightarrow> threads k' u = threads k u) \<and> mutexes k' = mutexes k \<and> sem_value k' = sem_value k"
proof -
  obtain k1 k' where k': "rt_mutex_take m time k = Some (Block, k')"
    "kinv T I idle k' (wait_lists (Mutex_at m) t time k1 (inherited t ow k L))" "same_ipcs k k'"
    "prio ow k' = min (prio ow k) (prio t k)" "prio t k' = prio t k" "thread_stat t k' = RT_THREAD_SUSPEND"
    "\<forall>u. u \<noteq> t \<longrightarrow> u \<noteq> ow \<longrightarrow> threads k' u = threads k u"
    using mutex_take_ok(4) [OF assms(1-5)] assms(6-9) by blast
  have "Tlist t \<in> set (wait_lists (Mutex_at m) t time k1 (inherited t ow k L) (Suspend (Mutex_at m)))"
    by (simp add: wait_lists_def waiting_def with_timer_def unlink_def Let_def)
  moreover have "rt_current_thread k' \<noteq> t" using kinv_parts(4) [OF k'(2)] k'(6) by auto
  ultimately show ?thesis using k' by (auto simp: same_ipcs_def)
qed

lemma demo_mutex: "Mutex_at MTX \<in> demo_ipcs" "time_ok 0xFFFFFFFF" "(0xFFFFFFFF :: u32) \<noteq> 0"
  by (simp_all add: demo_ipcs_def time_ok_def)

theorem mutex_wait_inherits_witness:
  "\<exists>k k'. demo_contention = Some k \<and> rt_mutex_take MTX 0xFFFFFFFF k = Some (Block, k') \<and> prio MAIN k = 10 \<and> prio MAIN k' = 5 \<and>
     thread_stat WORK k' = RT_THREAD_SUSPEND"
proof -
  obtain k where k: "demo_contention = Some k" "kinv work_threads demo_ipcs IDLE k work_lists" "rt_current_thread k = WORK"
    "mutexes k MTX = locked MAIN 10 free_mutex" "prio WORK k = 5" "prio MAIN k = 10" using contention_ok by blast
  have ow: "mutex_owner (mutexes k MTX) = MAIN" by (simp add: k(4) locked_def)
  from mutex_wait_inherits [OF k(2,3) work_numbers(3) demo_mutex ow work_numbers(6,5)] k show ?thesis by auto
qed

subsection \<open>Handing over\<close>

text \<open>
  C28: When the owner of a mutex gives up its last hold while threads wait, the mutex goes to the first of them, which becomes
  its owner with one hold and is ready with its priority noted; the mutex is never free in between. The previous owner gets back the priority
  it had when it took the mutex, and the thread that runs next has no lower priority than the new owner.
\<close>

theorem mutex_release_hands_over:
  assumes "kinv T I idle k L" and "rt_current_thread k = t" and "Mutex_at m \<in> I" and "mutex_owner (mutexes k m) = t" and "mutex_hold (mutexes k m) = 1"
    and "L (Suspend (Mutex_at m)) = Tlist u # ws"
  shows "\<exists>k' L'. rt_mutex_release m k = Some (RT_EOK, k') \<and> kinv T I idle k' L' \<and>
    mutexes k' m = \<lparr>mutex_value = 0, original_priority = current_priority (threads k u), mutex_hold = 1, mutex_owner = u\<rparr> \<and>
    (\<forall>n. n \<noteq> m \<longrightarrow> mutexes k' n = mutexes k n) \<and> thread_stat u k' = RT_THREAD_READY \<and>
    current_priority (threads k' t) = original_priority (mutexes k m) \<and> L' (Suspend (Mutex_at m)) = ws \<and> prio (rt_current_thread k') k' \<le> prio u k'"
proof -
  let ?L1 = "restored m t k L"
  let ?L' = "made_ready u (prio u k) ?L1"
  note p = kinv_parts [OF assms(1)]
  obtain k' where u: "u \<in> T" "u \<noteq> t" and k': "rt_mutex_release m k = Some (RT_EOK, k')" "kinv T I idle k' ?L'"
    "mutexes k' = (mutexes k)(m := handed u (current_priority (threads k u)) ((mutexes k m)\<lparr>mutex_hold := 0\<rparr>))"
    "current_priority (threads k' t) = original_priority (mutexes k m)" "thread_stat u k' = RT_THREAD_READY"
    "rt_current_thread k' = top_thread ?L'"
    using mutex_release_ok(4) [OF assms(1-6)] by blast
  note q = kinv_parts [OF k'(2)]
  note w = core_parts [OF q(1)]
  have t: "t \<in> T" using p(3) assms(2) by simp
  have v: "mutex_value (mutexes k m) = 0" using mutex_valid(2) [OF p(1) assms(3)] assms(4) p(5) assms(2) by (simp add: mutex_ok_def)
  have m: "mutexes k' m = \<lparr>mutex_value = 0, original_priority = current_priority (threads k u), mutex_hold = 1, mutex_owner = u\<rparr>"
    using v by (simp add: k'(3) handed_def)
  have "?L1 (Suspend (Mutex_at m)) = Tlist u # ws" using reprioritized_waiters [OF p(1) t] assms(6) by (simp add: restored_def)
  moreover have "Tlist u \<notin> set ws" and "Row (Thread_timer u) \<notin> set (Tlist u # ws)"
  proof -
    note l = kwf_parts(1) [OF core_parts(1) [OF p(1)]]
    show "Tlist u \<notin> set ws" using rings_distinct [OF lists_rings [OF l], of "Suspend (Mutex_at m)"] assms(6) by simp
    show "Row (Thread_timer u) \<notin> set (Tlist u # ws)" using thread_nodes [OF l, of "Row (Thread_timer u)" "Mutex_at m"] assms(6) by auto
  qed
  ultimately have rest: "?L' (Suspend (Mutex_at m)) = ws" by (simp add: made_ready_def detached_def unlink_def)
  have sel: "Tlist (rt_current_thread k') \<in> set (?L' (Ready (top_priority ?L')))"
    using selected_thread(4) [OF kwf_parts(1,2) [OF w(1)] w(7)] k'(6) by simp
  have "Tlist u \<in> set (?L' (Ready (prio u k')))" using thread_parts(7) [OF kwf_parts(3) [OF w(1) u(1)] k'(5)] by blast
  then have "top_priority ?L' \<le> prio u k'" using top_priority [OF w(7)] by (metis empty_iff list.set(1) not_le)
  then have "prio (rt_current_thread k') k' \<le> prio u k'" using in_ready_list(3) [OF w(1) sel] by simp
  then show ?thesis using k' m rest by (intro exI [of _ k'] exI [of _ ?L']) simp
qed

text \<open>The state in which the other thread waits for the first mutex, and the main thread runs at its priority.\<close>

lemma contention_blocked:
  "\<exists>k k1 L1. demo_contention = Some k \<and> rt_mutex_take MTX 0xFFFFFFFF k = Some (Block, k1) \<and> kinv work_threads demo_ipcs IDLE k1 L1 \<and>
     rt_current_thread k1 = MAIN \<and> L1 (Suspend (Mutex_at MTX)) = [Tlist WORK] \<and> L1 (Suspend (Mutex_at MTX2)) = [] \<and>
     mutexes k1 MTX = locked MAIN 10 free_mutex \<and> mutexes k1 MTX2 = locked MAIN 10 free_mutex \<and> prio MAIN k1 = 5 \<and> prio WORK k1 = 5"
proof -
  obtain k where k: "demo_contention = Some k" "kinv work_threads demo_ipcs IDLE k work_lists" "rt_current_thread k = WORK"
    "mutexes k MTX = locked MAIN 10 free_mutex" "mutexes k MTX2 = locked MAIN 10 free_mutex"
    "prio WORK k = 5" "prio MAIN k = 10" "thread_stat MAIN k = RT_THREAD_READY" using contention_ok by blast
  have ow: "mutex_owner (mutexes k MTX) = MAIN" by (simp add: k(4) locked_def)
  let ?L = "\<lambda>k2. wait_lists (Mutex_at MTX) WORK 0xFFFFFFFF k2 (inherited WORK MAIN k work_lists)"
  obtain k2 k1 where k1: "rt_mutex_take MTX 0xFFFFFFFF k = Some (Block, k1)" "kinv work_threads demo_ipcs IDLE k1 (?L k2)" "same_ipcs k k1"
    "prio MAIN k1 = min (prio MAIN k) (prio WORK k)" "prio WORK k1 = prio WORK k" "rt_current_thread k1 = top_thread (?L k2)"
    using mutex_take_ok(4) [OF k(2,3) work_numbers(3) demo_mutex(1,2)] demo_mutex(3) work_numbers(5,6) ow by metis
  have forever: "?L k2 = waiting (Mutex_at MTX) WORK k2 (inherited WORK MAIN k work_lists)" by (simp add: wait_lists_def Let_def)
  have inh: "inherited WORK MAIN k work_lists = reprioritized MAIN 5 k work_lists" using k(6,7) by (simp add: inherited_def)
  have ready: "?L k2 (Ready q) = (if q = 5 then [Tlist MAIN] else if q = 31 then [Tlist IDLE] else [])" for q
    unfolding forever unfolding inh using work_numbers k(8) demo_numbers
    by (simp add: waiting_def unlink_def reprioritized_def Let_def work_ready)
  have "rt_current_thread k1 = MAIN" unfolding k1(6) by (rule top_thread_eq [of 5]) (simp_all add: ready)
  moreover have "?L k2 (Suspend (Mutex_at MTX)) = [Tlist WORK]" "?L k2 (Suspend (Mutex_at MTX2)) = []"
    unfolding forever unfolding inh using work_waiters k(8) demo_numbers
    by (simp_all add: waiting_def unlink_def reprioritized_def Let_def insert_waiting_def)
  ultimately show ?thesis using k k1 by (intro exI [of _ k] exI [of _ k1] exI [of _ "?L k2"]) (simp add: same_ipcs_def)
qed

text \<open>The mutex that the main thread took is handed over to the thread that waits for it.\<close>

theorem mutex_release_hands_over_witness:
  "\<exists>k k1 k'. demo_contention = Some k \<and> rt_mutex_take MTX 0xFFFFFFFF k = Some (Block, k1) \<and> rt_current_thread k1 = MAIN \<and>
     rt_mutex_release MTX k1 = Some (RT_EOK, k') \<and> mutex_owner (mutexes k' MTX) = WORK \<and> current_priority (threads k' MAIN) = 10"
proof -
  obtain k k1 L1 where k: "demo_contention = Some k" "rt_mutex_take MTX 0xFFFFFFFF k = Some (Block, k1)" "kinv work_threads demo_ipcs IDLE k1 L1"
    "rt_current_thread k1 = MAIN" "L1 (Suspend (Mutex_at MTX)) = [Tlist WORK]" "mutexes k1 MTX = locked MAIN 10 free_mutex"
    using contention_blocked by blast
  have "mutex_owner (mutexes k1 MTX) = MAIN" "mutex_hold (mutexes k1 MTX) = 1" "original_priority (mutexes k1 MTX) = 10"
    using k(6) by (simp_all add: locked_def free_mutex_def)
  then show ?thesis using mutex_release_hands_over [OF k(3,4) demo_mutex(1), of WORK "[]"] k by auto
qed

subsection \<open>Nested mutexes\<close>

text \<open>
  Releasing one of two nested mutexes gives up an inherited priority that is still needed: if the owner of \<open>n\<close> also holds \<open>m\<close>, which nobody
  waits for, the release of \<open>m\<close> sets its priority to the one noted when it took \<open>m\<close>, although a thread of
  a higher priority goes on waiting for \<open>n\<close>, and the owner of \<open>n\<close> then has a lower priority than that thread.
\<close>

theorem nested_release_loses_priority:
  assumes "kinv T I idle k L" and "rt_current_thread k = t" and "Mutex_at m \<in> I" and "mutex_owner (mutexes k m) = t" and "mutex_hold (mutexes k m) = 1"
    and "L (Suspend (Mutex_at m)) = []" and "n \<noteq> m" and "mutex_owner (mutexes k n) = t" and "Tlist u \<in> set (L (Suspend (Mutex_at n)))"
    and "prio u k < unat (original_priority (mutexes k m))"
  shows "\<exists>k' L'. rt_mutex_release m k = Some (RT_EOK, k') \<and> kinv T I idle k' L' \<and> rt_current_thread k' = t \<and> mutex_owner (mutexes k' n) = t \<and>
    Tlist u \<in> set (L' (Suspend (Mutex_at n))) \<and> prio u k' = prio u k \<and> prio t k' = unat (original_priority (mutexes k m)) \<and> prio u k' < prio t k'"
proof -
  note p = kinv_parts [OF assms(1)]
  obtain k' where k': "rt_mutex_release m k = Some (RT_EOK, k')" "kinv T I idle k' (restored m t k L)"
    "mutexes k' = (mutexes k)(m := unlocked ((mutexes k m)\<lparr>mutex_hold := 0\<rparr>))" "rt_current_thread k' = t"
    "current_priority (threads k' t) = original_priority (mutexes k m)" "\<forall>u. u \<noteq> t \<longrightarrow> threads k' u = threads k u"
    using mutex_release_ok(3) [OF assms(1-6)] by blast
  have t: "t \<in> T" using p(3) assms(2) by simp
  have "restored m t k L (Suspend (Mutex_at n)) = L (Suspend (Mutex_at n))" using reprioritized_waiters [OF p(1) t] by (simp add: restored_def)
  moreover have "u \<noteq> t"
    using thread_parts(7) [OF kwf_parts(3) [OF core_parts(1) [OF p(1)] t]] p(4) assms(2,9) by auto
  ultimately show ?thesis using k' assms(7-10) by (intro exI [of _ k'] exI [of _ "restored m t k L"]) simp
qed

text \<open>The main thread has taken both mutexes; the other thread waits for the first one.\<close>

theorem nested_release_loses_priority_witness:
  "\<exists>k k1 k'. demo_contention = Some k \<and> rt_mutex_take MTX 0xFFFFFFFF k = Some (Block, k1) \<and> prio MAIN k1 = 5 \<and>
     rt_mutex_release MTX2 k1 = Some (RT_EOK, k') \<and> mutex_owner (mutexes k' MTX) = MAIN \<and> prio WORK k' = 5 \<and> prio MAIN k' = 10"
proof -
  obtain k k1 L1 where k: "demo_contention = Some k" "rt_mutex_take MTX 0xFFFFFFFF k = Some (Block, k1)" "kinv work_threads demo_ipcs IDLE k1 L1"
    "rt_current_thread k1 = MAIN" "L1 (Suspend (Mutex_at MTX)) = [Tlist WORK]" "L1 (Suspend (Mutex_at MTX2)) = []"
    "mutexes k1 MTX = locked MAIN 10 free_mutex" "mutexes k1 MTX2 = locked MAIN 10 free_mutex" "prio MAIN k1 = 5" "prio WORK k1 = 5"
    using contention_blocked by blast
  have m: "mutex_owner (mutexes k1 MTX2) = MAIN" "mutex_hold (mutexes k1 MTX2) = 1" "mutex_owner (mutexes k1 MTX) = MAIN" "original_priority (mutexes k1 MTX2) = 10"
    using k(7,8) by (simp_all add: locked_def free_mutex_def)
  have i: "Mutex_at MTX2 \<in> demo_ipcs" by (simp add: demo_ipcs_def)
  show ?thesis
    using nested_release_loses_priority [OF k(3,4) i m(1,2) k(6) demo_numbers(13) m(3), of WORK] k m(4) by auto
qed

subsection \<open>Waiting with the scheduler locked\<close>

text \<open>
  C31: In a critical section a wait cannot switch to another thread: \<open>rt_sem_take\<close> on a semaphore of value 0 that queues in the order of arrival,
  waiting for ever, suspends its caller and then returns \<open>RT_EOK\<close> to it at once, although the value is still 0 and the
  caller, which goes on running, is on no ready list.
\<close>

theorem sem_take_locked_returns_ok:
  assumes "kinv T I idle k L" and "rt_current_thread k = t" and "Sem_at s \<in> I" and "sem_value k s = 0" and "sint time < 0"
    and "obj_flag (objects k (Obj_ipc (Sem_at s))) = RT_IPC_FLAG_FIFO"
  shows "\<exists>k'. rt_sem_take s time (rt_enter_critical k) = Some (Ret RT_EOK, k') \<and> sem_value k' s = 0 \<and> rt_current_thread k' = t \<and>
    thread_stat t k' = RT_THREAD_SUSPEND"
proof -
  note p = kinv_parts [OF assms(1), unfolded assms(2)]
  note c = core_parts [OF p(1)]
  let ?k = "upd_thread t (\<lambda>r. r\<lparr>thread_error := RT_EOK\<rparr>) (rt_enter_critical k)"
  have nz: "time \<noteq> 0" using assms(5) by auto
  have lock: "rt_scheduler_lock_nest k + 1 \<noteq> 0" using c(4) by simp
  have "kcore T I idle (upd_thread t (\<lambda>r. r\<lparr>thread_error := RT_EOK\<rparr>) k) L" by (rule core_error [OF p(1,3)]) simp
  then have w: "kwf T I ?k L" by (rule kwf_cong [OF core_parts(1)]) (simp_all add: rt_enter_critical_def upd_thread_def)
  have "thread_stat t ?k = RT_THREAD_READY" using p(4) by (simp add: thread_stat_def rt_enter_critical_def)
  note s = thread_suspend(1) [OF w p(3) this]
  let ?k1 = "on_links (rt_list_insert_before (Suspend (Sem_at s)) (Tlist t)) (suspended t ?k)"
  have "suspend_for (Sem_at s) t time ?k = Some ?k1"
    using s assms(5,6) by (simp add: suspend_for_def rt_ipc_list_suspend_def rt_enter_critical_def)
  moreover have "rt_schedule ?k1 = Some ?k1" using lock by (simp add: rt_schedule_def on_links_def rt_enter_critical_def)
  moreover have "is_sem s (rt_enter_critical k) = Some ()"
    using sem_valid(1) [OF p(1) assms(3)] by (simp add: is_sem_def rt_object_get_type_def rt_enter_critical_def)
  moreover have "RT_DEBUG_IN_THREAD_CONTEXT (rt_enter_critical k) = Some ()"
    using thread_context [OF assms(1)] by (simp add: RT_DEBUG_IN_THREAD_CONTEXT_def RT_DEBUG_NOT_IN_INTERRUPT_def rt_enter_critical_def)
  ultimately have "rt_sem_take s time (rt_enter_critical k) = Some (after_schedule t (sem_take_resumed t) ?k1)"
    using assms(2,4) nz by (simp add: rt_sem_take_def rt_thread_self_def) (simp add: rt_enter_critical_def)
  moreover have "after_schedule t (sem_take_resumed t) ?k1 = (Ret RT_EOK, ?k1)"
    using assms(2) by (simp add: after_schedule_def sem_take_resumed_def on_links_def rt_enter_critical_def set_stat_def)
  moreover have "thread_stat t ?k1 = RT_THREAD_SUSPEND" by (simp add: thread_stat_def on_links_def set_stat_stat)
  ultimately show ?thesis using assms(2,4) by (intro exI [of _ ?k1]) (simp add: on_links_def rt_enter_critical_def)
qed

theorem sem_take_locked_returns_ok_witness:
  "\<exists>k k'. demo_boot 0 = Some k \<and> rt_sem_take SEM 0xFFFFFFFF (rt_enter_critical k) = Some (Ret RT_EOK, k') \<and> sem_value k' SEM = 0"
proof -
  obtain k where k: "demo_boot 0 = Some k" "kinv demo_threads demo_ipcs IDLE k demo_lists" "rt_current_thread k = MAIN" "sem_value k SEM = 0"
    "obj_flag (objects k (Obj_ipc (Sem_at SEM))) = RT_IPC_FLAG_FIFO" using demo_ok [of 0] by auto
  have "Sem_at SEM \<in> demo_ipcs" "sint (0xFFFFFFFF :: u32) < 0" by (simp_all add: demo_ipcs_def)
  from sem_take_locked_returns_ok [OF k(2,3) this(1) k(4) this(2) k(5)] k(1) show ?thesis by blast
qed

end
