(* ===== verification/PinDriver.thy ===== *)
theory PinDriver imports Prelude begin

text \<open>
  The pin driver of the board (DeviceDrivers/gpio/src/drv_gpio.c) and the pin device in front of it (pin.c): pin
  numbers, pin modes, and the interrupts of pins, where the sixteen external interrupt lines are shared by
  the pins of the same number on all ports, and lines 5 to 9 and 10 to 15 share an interrupt. The calls into the
  vendor's library are events, newest first; what it reads is a parameter, a function of these events.
\<close>

subsection \<open>Data\<close>

datatype gpio_port = GPIOA | GPIOB | GPIOC | GPIOD

datatype exti_irqn = EXTI0_IRQn | EXTI1_IRQn | EXTI2_IRQn | EXTI3_IRQn | EXTI4_IRQn | EXTI9_5_IRQn | EXTI15_10_IRQn

datatype port_mode = Mode_Input | Mode_Out_PP | Mode_Out_OD | Mode_Other u32

datatype port_pull = No_Pull | Pull_Up | Pull_Down

datatype exti_trigger = EXTI_Trigger_Rising | EXTI_Trigger_Falling | EXTI_Trigger_Rising_Falling

text \<open>\<open>GPIO_InitType\<close>, without the slew rate and the current, which are never changed.\<close>

record gpio_init =
  init_pin :: u32
  init_mode :: port_mode
  init_pull :: port_pull
  init_alternate :: "u32 option"

datatype pin_call =
    Gpio_WriteBit gpio_port u32 u32
  | Gpio_InitPeripheral gpio_port gpio_init
  | Rcc_EnableGpio gpio_port
  | Rcc_EnableAfio
  | Gpio_ConfigEXTILine u8 nat
  | Exti_InitInterrupt u32 exti_trigger
  | Exti_ClrITPendBit u32
  | Nvic_SetPriority exti_irqn nat
  | Nvic_EnableIRQ exti_irqn
  | Nvic_DisableIRQ exti_irqn
  | Interrupt_enter
  | Interrupt_leave

record rt_pin_irq_hdr =
  hdr_pin :: u16
  hdr_mode :: u16
  hdr_fn :: u32
  hdr_args :: u32

record pin_state =
  pin_irq_hdr_tab :: "rt_pin_irq_hdr list"
  pin_irq_enable_mask :: u32
  hw_pin_ops :: bool
  pin_calls :: "pin_call list"

definition pin_call :: "pin_call \<Rightarrow> pin_state \<Rightarrow> pin_state" where
  "pin_call c s = s\<lparr>pin_calls := c # pin_calls s\<rparr>"

definition RT_ENOSYS :: int where "RT_ENOSYS = 6"
definition RT_EBUSY :: int where "RT_EBUSY = 7"

definition GPIO_PIN :: "nat \<Rightarrow> u32" where "GPIO_PIN i = push_bit i 1"

text \<open>The table of pins: the pins of port A, then of B, C and D.\<close>

definition pins :: "(int \<times> gpio_port \<times> u32) list" where
  "pins = concat (map (\<lambda>(base, port). map (\<lambda>i. (int (base + i), port, GPIO_PIN i)) [0..<16])
     [(0, GPIOA), (16, GPIOB), (32, GPIOC), (48, GPIOD)])"

definition pin_irq_map :: "(u32 \<times> exti_irqn) list" where
  "pin_irq_map =
     [(GPIO_PIN 0, EXTI0_IRQn), (GPIO_PIN 1, EXTI1_IRQn), (GPIO_PIN 2, EXTI2_IRQn), (GPIO_PIN 3, EXTI3_IRQn), (GPIO_PIN 4, EXTI4_IRQn),
      (GPIO_PIN 5, EXTI9_5_IRQn), (GPIO_PIN 6, EXTI9_5_IRQn), (GPIO_PIN 7, EXTI9_5_IRQn), (GPIO_PIN 8, EXTI9_5_IRQn), (GPIO_PIN 9, EXTI9_5_IRQn),
      (GPIO_PIN 10, EXTI15_10_IRQn), (GPIO_PIN 11, EXTI15_10_IRQn), (GPIO_PIN 12, EXTI15_10_IRQn), (GPIO_PIN 13, EXTI15_10_IRQn),
      (GPIO_PIN 14, EXTI15_10_IRQn), (GPIO_PIN 15, EXTI15_10_IRQn)]"

definition no_hdr :: rt_pin_irq_hdr where
  "no_hdr = \<lparr>hdr_pin = - 1, hdr_mode = 0, hdr_fn = 0, hdr_args = 0\<rparr>"

definition pins_at_reset :: pin_state where
  "pins_at_reset = \<lparr>pin_irq_hdr_tab = replicate 16 no_hdr, pin_irq_enable_mask = 0, hw_pin_ops = False, pin_calls = []\<rparr>"

subsection \<open>Pins\<close>

text \<open>The argument is a byte: a larger pin number is truncated.\<close>

definition get_pin :: "u8 \<Rightarrow> (gpio_port \<times> u32) option" where
  "get_pin pin =
     (if unat pin < length pins then (let (index, port, msk) = pins ! unat pin in if index = - 1 then None else Some (port, msk)) else None)"

definition GPIO_InitStruct :: gpio_init where
  "GPIO_InitStruct = \<lparr>init_pin = 0xFFFF, init_mode = Mode_Input, init_pull = No_Pull, init_alternate = None\<rparr>"

definition pin_write :: "u32 \<Rightarrow> u32 \<Rightarrow> pin_state \<Rightarrow> pin_state" where
  "pin_write pin value s = (case get_pin (ucast pin) of None \<Rightarrow> s | Some (port, msk) \<Rightarrow> pin_call (Gpio_WriteBit port msk value) s)"

definition pin_read :: "(pin_call list \<Rightarrow> gpio_port \<Rightarrow> u32 \<Rightarrow> u8) \<Rightarrow> u32 \<Rightarrow> pin_state \<Rightarrow> u32" where
  "pin_read input pin s = (case get_pin (ucast pin) of None \<Rightarrow> 0 | Some (port, msk) \<Rightarrow> ucast (input (pin_calls s) port msk))"

definition pin_mode :: "u32 \<Rightarrow> u32 \<Rightarrow> pin_state \<Rightarrow> pin_state" where
  "pin_mode pin mode s =
     (case get_pin (ucast pin) of None \<Rightarrow> s
      | Some (port, msk) \<Rightarrow>
          let i = GPIO_InitStruct\<lparr>init_pin := msk\<rparr>;
              i = (if mode = 0 then i\<lparr>init_mode := Mode_Out_PP\<rparr>
                   else if mode = 1 then i\<lparr>init_pull := No_Pull, init_mode := Mode_Input\<rparr>
                   else if mode = 2 then i\<lparr>init_pull := Pull_Up, init_mode := Mode_Input\<rparr>
                   else if mode = 3 then i\<lparr>init_pull := Pull_Down, init_mode := Mode_Input\<rparr>
                   else if mode = 4 then i\<lparr>init_mode := Mode_Out_OD\<rparr>
                   else i)
          in pin_call (Gpio_InitPeripheral port i) s)"

subsection \<open>Interrupts of pins\<close>

definition bit2bitno :: "u32 \<Rightarrow> int" where
  "bit2bitno b = (case find (\<lambda>i. push_bit i 1 = b) [0..<32] of Some i \<Rightarrow> int i | None \<Rightarrow> - 1)"

fun port2portsource :: "gpio_port \<Rightarrow> u8" where
  "port2portsource GPIOA = 0"
| "port2portsource GPIOB = 1"
| "port2portsource GPIOC = 2"
| "port2portsource GPIOD = 3"

definition get_pin_irq_map :: "u32 \<Rightarrow> (u32 \<times> exti_irqn) option" where
  "get_pin_irq_map pinbit =
     (let mapindex = bit2bitno pinbit
      in if mapindex < 0 \<or> mapindex \<ge> int (length pin_irq_map) then None else Some (pin_irq_map ! nat mapindex))"

text \<open>The line of a pin, if the pin and the line exist.\<close>

definition irq_index :: "u32 \<Rightarrow> nat option" where
  "irq_index pin =
     (case get_pin (ucast pin) of None \<Rightarrow> None
      | Some (port, msk) \<Rightarrow>
          let irqindex = bit2bitno msk in if irqindex < 0 \<or> irqindex \<ge> int (length pin_irq_map) then None else Some (nat irqindex))"

definition pin_attach_irq :: "u32 \<Rightarrow> u32 \<Rightarrow> u32 \<Rightarrow> u32 \<Rightarrow> pin_state \<Rightarrow> int \<times> pin_state" where
  "pin_attach_irq pin mode hdr args s =
     (case irq_index pin of None \<Rightarrow> (RT_ENOSYS, s)
      | Some i \<Rightarrow>
          let h = pin_irq_hdr_tab s ! i
          in if sint (hdr_pin h) = sint pin \<and> hdr_fn h = hdr \<and> ucast (hdr_mode h) = mode \<and> hdr_args h = args then (0, s)
             else if sint (hdr_pin h) \<noteq> - 1 then (RT_EBUSY, s)
             else (0, s\<lparr>pin_irq_hdr_tab := (pin_irq_hdr_tab s)[i := \<lparr>hdr_pin = ucast pin, hdr_mode = ucast mode, hdr_fn = hdr, hdr_args = args\<rparr>]\<rparr>))"

definition pin_detach_irq :: "u32 \<Rightarrow> pin_state \<Rightarrow> int \<times> pin_state" where
  "pin_detach_irq pin s =
     (case irq_index pin of None \<Rightarrow> (RT_ENOSYS, s)
      | Some i \<Rightarrow> if sint (hdr_pin (pin_irq_hdr_tab s ! i)) = - 1 then (0, s) else (0, s\<lparr>pin_irq_hdr_tab := (pin_irq_hdr_tab s)[i := no_hdr]\<rparr>))"

text \<open>The trigger; a mode that is not an edge leaves the default of \<open>EXTI_InitStruct\<close>.\<close>

definition trigger_of :: "u16 \<Rightarrow> exti_trigger" where
  "trigger_of mode =
     (if mode = 0 then EXTI_Trigger_Rising else if mode = 1 then EXTI_Trigger_Falling
      else if mode = 2 then EXTI_Trigger_Rising_Falling else EXTI_Trigger_Falling)"

definition irq_on :: "gpio_port \<Rightarrow> u32 \<Rightarrow> nat \<Rightarrow> pin_state \<Rightarrow> pin_state" where
  "irq_on port msk i s =
     (let (pinbit, irqno) = pin_irq_map ! i;
          s = pin_call Rcc_EnableAfio s;
          s = pin_call (Gpio_ConfigEXTILine (port2portsource port) i) s;
          s = pin_call (Exti_InitInterrupt msk (trigger_of (hdr_mode (pin_irq_hdr_tab s ! i)))) s;
          s = pin_call (Exti_ClrITPendBit msk) s;
          s = pin_call (Nvic_SetPriority irqno 5) s;
          s = pin_call (Nvic_EnableIRQ irqno) s
      in s\<lparr>pin_irq_enable_mask := pin_irq_enable_mask s OR pinbit\<rparr>)"

definition LINES_9_5 :: u32 where "LINES_9_5 = GPIO_PIN 5 OR GPIO_PIN 6 OR GPIO_PIN 7 OR GPIO_PIN 8 OR GPIO_PIN 9"

definition LINES_15_10 :: u32 where
  "LINES_15_10 = GPIO_PIN 10 OR GPIO_PIN 11 OR GPIO_PIN 12 OR GPIO_PIN 13 OR GPIO_PIN 14 OR GPIO_PIN 15"

definition irq_off :: "u32 \<Rightarrow> exti_irqn \<Rightarrow> pin_state \<Rightarrow> pin_state" where
  "irq_off pinbit irqno s =
     (let s = s\<lparr>pin_irq_enable_mask := pin_irq_enable_mask s AND NOT pinbit\<rparr>
      in if pinbit \<ge> GPIO_PIN 5 \<and> pinbit \<le> GPIO_PIN 9
         then (if pin_irq_enable_mask s AND LINES_9_5 = 0 then pin_call (Nvic_DisableIRQ irqno) s else s)
         else if pinbit \<ge> GPIO_PIN 10 \<and> pinbit \<le> GPIO_PIN 15
         then (if pin_irq_enable_mask s AND LINES_15_10 = 0 then pin_call (Nvic_DisableIRQ irqno) s else s)
         else pin_call (Nvic_DisableIRQ irqno) s)"

definition pin_irq_enable :: "u32 \<Rightarrow> u32 \<Rightarrow> pin_state \<Rightarrow> int \<times> pin_state" where
  "pin_irq_enable pin enabled s =
     (case get_pin (ucast pin) of None \<Rightarrow> (RT_ENOSYS, s)
      | Some (port, msk) \<Rightarrow>
          if enabled = 1
          then (case irq_index pin of None \<Rightarrow> (RT_ENOSYS, s)
                | Some i \<Rightarrow> if sint (hdr_pin (pin_irq_hdr_tab s ! i)) = - 1 then (RT_ENOSYS, s) else (0, irq_on port msk i s))
          else if enabled = 0
          then (case get_pin_irq_map msk of None \<Rightarrow> (RT_ENOSYS, s) | Some (pinbit, irqno) \<Rightarrow> (0, irq_off pinbit irqno s))
          else (- RT_ENOSYS, s))"

text \<open>
  The interrupt handlers. Whether a line is pending is a parameter, and so are the handlers of the application,
  which get their address and argument.
\<close>

definition call_pin_irq_hdr :: "(u32 \<Rightarrow> u32 \<Rightarrow> pin_state \<Rightarrow> pin_state) \<Rightarrow> nat \<Rightarrow> pin_state \<Rightarrow> pin_state" where
  "call_pin_irq_hdr run irqno s =
     (let h = pin_irq_hdr_tab s ! irqno in if hdr_fn h \<noteq> 0 then run (hdr_fn h) (hdr_args h) s else s)"

definition N32G43X_GPIO_EXTI_IRQHandler ::
  "(pin_call list \<Rightarrow> u32 \<Rightarrow> bool) \<Rightarrow> (u32 \<Rightarrow> u32 \<Rightarrow> pin_state \<Rightarrow> pin_state) \<Rightarrow> nat \<Rightarrow> pin_state \<Rightarrow> pin_state" where
  "N32G43X_GPIO_EXTI_IRQHandler pending run exti_line s =
     (if pending (pin_calls s) (GPIO_PIN exti_line)
      then pin_call (Exti_ClrITPendBit (GPIO_PIN exti_line)) (call_pin_irq_hdr run exti_line s) else s)"

definition lines_of :: "exti_irqn \<Rightarrow> nat list" where
  "lines_of irqno =
     (case irqno of EXTI0_IRQn \<Rightarrow> [0] | EXTI1_IRQn \<Rightarrow> [1] | EXTI2_IRQn \<Rightarrow> [2] | EXTI3_IRQn \<Rightarrow> [3] | EXTI4_IRQn \<Rightarrow> [4]
      | EXTI9_5_IRQn \<Rightarrow> [5, 6, 7, 8, 9] | EXTI15_10_IRQn \<Rightarrow> [10, 11, 12, 13, 14, 15])"

definition EXTI_IRQHandler ::
  "(pin_call list \<Rightarrow> u32 \<Rightarrow> bool) \<Rightarrow> (u32 \<Rightarrow> u32 \<Rightarrow> pin_state \<Rightarrow> pin_state) \<Rightarrow> exti_irqn \<Rightarrow> pin_state \<Rightarrow> pin_state" where
  "EXTI_IRQHandler pending run irqno s =
     pin_call Interrupt_leave (fold (N32G43X_GPIO_EXTI_IRQHandler pending run) (lines_of irqno) (pin_call Interrupt_enter s))"

subsection \<open>Initialisation and the pin device\<close>

definition rt_hw_pin_init :: "pin_state \<Rightarrow> pin_state" where
  "rt_hw_pin_init s =
     (let s = pin_call (Rcc_EnableGpio GPIOA) s;
          s = pin_call (Rcc_EnableGpio GPIOB) s;
          s = pin_call (Rcc_EnableGpio GPIOC) s
      in s\<lparr>hw_pin_ops := True\<rparr>)"

definition GPIOInit :: "gpio_port \<Rightarrow> port_mode \<Rightarrow> port_pull \<Rightarrow> u16 \<Rightarrow> u32 \<Rightarrow> pin_state \<Rightarrow> pin_state" where
  "GPIOInit port mode pupd pin remap s =
     (let s = pin_call (Rcc_EnableGpio port) s
      in if pin \<le> 0xFFFF
         then pin_call (Gpio_InitPeripheral port (GPIO_InitStruct\<lparr>init_pin := ucast pin, init_pull := pupd, init_mode := mode, init_alternate := Some remap\<rparr>)) s
         else s)"

text \<open>The functions of pin.c assert that the driver has been registered.\<close>

definition registered :: "pin_state \<Rightarrow> unit option" where
  "registered s = (if hw_pin_ops s then Some () else None)"

definition rt_pin_attach_irq :: "u32 \<Rightarrow> u32 \<Rightarrow> u32 \<Rightarrow> u32 \<Rightarrow> pin_state \<Rightarrow> (int \<times> pin_state) option" where
  "rt_pin_attach_irq pin mode hdr args s = do { registered s; Some (pin_attach_irq pin mode hdr args s) }"

definition rt_pin_detach_irq :: "u32 \<Rightarrow> pin_state \<Rightarrow> (int \<times> pin_state) option" where
  "rt_pin_detach_irq pin s = do { registered s; Some (pin_detach_irq pin s) }"

definition rt_pin_irq_enable :: "u32 \<Rightarrow> u32 \<Rightarrow> pin_state \<Rightarrow> (int \<times> pin_state) option" where
  "rt_pin_irq_enable pin enabled s = do { registered s; Some (pin_irq_enable pin enabled s) }"

definition rt_pin_mode :: "u32 \<Rightarrow> u32 \<Rightarrow> pin_state \<Rightarrow> pin_state option" where
  "rt_pin_mode pin mode s = do { registered s; Some (pin_mode pin mode s) }"

definition rt_pin_write :: "u32 \<Rightarrow> u32 \<Rightarrow> pin_state \<Rightarrow> pin_state option" where
  "rt_pin_write pin value s = do { registered s; Some (pin_write pin value s) }"

definition rt_pin_read :: "(pin_call list \<Rightarrow> gpio_port \<Rightarrow> u32 \<Rightarrow> u8) \<Rightarrow> u32 \<Rightarrow> pin_state \<Rightarrow> u32 option" where
  "rt_pin_read input pin s = do { registered s; Some (pin_read input pin s) }"

text \<open>
  The device interface passes a pin and a value of 16 bits each; the size is that of the structure, four bytes. A null
  buffer is \<open>None\<close>.
\<close>

definition pin_device_read :: "(pin_call list \<Rightarrow> gpio_port \<Rightarrow> u32 \<Rightarrow> u8) \<Rightarrow> (u16 \<times> u16) option \<Rightarrow> u32 \<Rightarrow> pin_state \<Rightarrow> u32 \<times> (u16 \<times> u16) option" where
  "pin_device_read input buffer sz s =
     (case buffer of None \<Rightarrow> (0, None)
      | Some (pin, status) \<Rightarrow> if sz \<noteq> 4 then (0, Some (pin, status)) else (sz, Some (pin, ucast (pin_read input (ucast pin) s))))"

definition pin_device_write :: "(u16 \<times> u16) option \<Rightarrow> u32 \<Rightarrow> pin_state \<Rightarrow> u32 \<times> pin_state" where
  "pin_device_write buffer sz s =
     (case buffer of None \<Rightarrow> (0, s)
      | Some (pin, status) \<Rightarrow> if sz \<noteq> 4 then (0, s) else (sz, pin_write (ucast pin) (ucast status) s))"

definition pin_device_control :: "(u16 \<times> u16) option \<Rightarrow> pin_state \<Rightarrow> int \<times> pin_state" where
  "pin_device_control args s = (case args of None \<Rightarrow> (- 1, s) | Some (pin, mode) \<Rightarrow> (0, pin_mode (ucast pin) (ucast mode) s))"

end
