(* ===== verification/PinProps.thy ===== *)
theory PinProps imports PinDriver begin

text \<open>
  The interrupts of pins: the invariant that ties the mask of enabled lines to the interrupt controller, kept by every operation
  and interrupt in any order, and who owns a shared line.
\<close>

subsection \<open>Pins and lines\<close>

definition port_of :: "nat \<Rightarrow> gpio_port" where "port_of n = [GPIOA, GPIOB, GPIOC, GPIOD] ! (n div 16)"

lemma pins_map: "pins = map (\<lambda>n. (int n, port_of n, GPIO_PIN (n mod 16))) [0..<64]"
  by code_simp

lemma get_pin_eq: "get_pin p = (if unat p < 64 then Some (port_of (unat p), GPIO_PIN (unat p mod 16)) else None)"
proof -
  define n where "n = unat p"
  have "int n \<noteq> - 1" by linarith
  then show ?thesis unfolding get_pin_def n_def [symmetric] pins_map by simp
qed

lemma bit_GPIO_PIN: "bit (GPIO_PIN i) j \<longleftrightarrow> j = i \<and> i < 32"
  unfolding GPIO_PIN_def by (auto simp: bit_exp_iff)

lemma GPIO_PIN_inj: "i < 32 \<Longrightarrow> GPIO_PIN i = GPIO_PIN j \<longleftrightarrow> i = j"
  using bit_GPIO_PIN by metis

lemma GPIO_PIN_inj': "i < 32 \<Longrightarrow> GPIO_PIN j = GPIO_PIN i \<longleftrightarrow> j = i"
  using GPIO_PIN_inj [of i j] by auto

lemma bit2bitno_GPIO_PIN: "i < 32 \<Longrightarrow> bit2bitno (GPIO_PIN i) = int i"
proof -
  assume i: "i < 32"
  define js where "js = [0..<(32 :: nat)]"
  have "GPIO_PIN j \<noteq> GPIO_PIN i" if "j < i" for j using that i by (simp add: GPIO_PIN_inj')
  then have "find (\<lambda>j. GPIO_PIN j = GPIO_PIN i) js = Some i"
    unfolding find_Some_iff using i by (intro exI [of _ i]) (auto simp: js_def)
  then show ?thesis by (simp only: bit2bitno_def GPIO_PIN_def flip: js_def) simp
qed

lemma map_length: "length pin_irq_map = 16" by (simp add: pin_irq_map_def)

lemma irq_index_eq: "irq_index p = (if unat (ucast p :: u8) < 64 then Some (unat (ucast p :: u8) mod 16) else None)"
proof -
  define n where "n = unat (ucast p :: u8) mod 16"
  have l: "n < 16" by (simp add: n_def)
  then have "bit2bitno (GPIO_PIN n) = int n" by (intro bit2bitno_GPIO_PIN) linarith
  with l show ?thesis unfolding irq_index_def get_pin_eq n_def [symmetric] by (simp add: map_length Let_def)
qed

lemma get_pin_irq_map_eq: "i < 16 \<Longrightarrow> get_pin_irq_map (GPIO_PIN i) = Some (pin_irq_map ! i)"
  by (simp add: get_pin_irq_map_def bit2bitno_GPIO_PIN map_length)

text \<open>The interrupt of a line.\<close>

definition irq_of :: "nat \<Rightarrow> exti_irqn" where "irq_of i = snd (pin_irq_map ! i)"

lemma lines_table:
  "list_all (\<lambda>i. pin_irq_map ! i = (GPIO_PIN i, irq_of i)
     \<and> (GPIO_PIN 5 \<le> GPIO_PIN i \<and> GPIO_PIN i \<le> GPIO_PIN 9 \<longleftrightarrow> 5 \<le> i \<and> i \<le> 9)
     \<and> (GPIO_PIN 10 \<le> GPIO_PIN i \<and> GPIO_PIN i \<le> GPIO_PIN 15 \<longleftrightarrow> 10 \<le> i \<and> i \<le> 15)
     \<and> (\<forall>q \<in> set [EXTI0_IRQn, EXTI1_IRQn, EXTI2_IRQn, EXTI3_IRQn, EXTI4_IRQn, EXTI9_5_IRQn, EXTI15_10_IRQn].
          i \<in> set (lines_of q) \<longleftrightarrow> q = irq_of i)) [0..<16]"
  by code_simp

lemma all_irqs: "q \<in> set [EXTI0_IRQn, EXTI1_IRQn, EXTI2_IRQn, EXTI3_IRQn, EXTI4_IRQn, EXTI9_5_IRQn, EXTI15_10_IRQn]"
  by (cases q) auto

lemma line_facts:
  assumes "i < 16"
  shows "pin_irq_map ! i = (GPIO_PIN i, irq_of i)"
    and "GPIO_PIN 5 \<le> GPIO_PIN i \<and> GPIO_PIN i \<le> GPIO_PIN 9 \<longleftrightarrow> 5 \<le> i \<and> i \<le> 9"
    and "GPIO_PIN 10 \<le> GPIO_PIN i \<and> GPIO_PIN i \<le> GPIO_PIN 15 \<longleftrightarrow> 10 \<le> i \<and> i \<le> 15"
    and "i \<in> set (lines_of q) \<longleftrightarrow> q = irq_of i"
proof -
  have "i \<in> set [0..<16]" using assms by simp
  note f = lines_table [unfolded list_all_iff, rule_format, OF this]
  show "pin_irq_map ! i = (GPIO_PIN i, irq_of i)" using f by blast
  show "GPIO_PIN 5 \<le> GPIO_PIN i \<and> GPIO_PIN i \<le> GPIO_PIN 9 \<longleftrightarrow> 5 \<le> i \<and> i \<le> 9" using f by blast
  show "GPIO_PIN 10 \<le> GPIO_PIN i \<and> GPIO_PIN i \<le> GPIO_PIN 15 \<longleftrightarrow> 10 \<le> i \<and> i \<le> 15" using f by blast
  show "i \<in> set (lines_of q) \<longleftrightarrow> q = irq_of i" using f all_irqs [of q] by blast
qed

lemma lines_of_bound: "i \<in> set (lines_of q) \<Longrightarrow> i < 16" by (cases q) (auto simp: lines_of_def)

lemma lines_of_set: "set (lines_of q) = {i. i < 16 \<and> irq_of i = q}"
  using line_facts(4) [of _ q] lines_of_bound [of _ q] by blast

subsection \<open>The interrupt controller\<close>

text \<open>Whether the interrupt controller lets an interrupt through: the last call that concerns it decides.\<close>

fun nvic_on :: "exti_irqn \<Rightarrow> pin_call list \<Rightarrow> bool" where
  "nvic_on q [] = False"
| "nvic_on q (Nvic_EnableIRQ r # cs) = (r = q \<or> nvic_on q cs)"
| "nvic_on q (Nvic_DisableIRQ r # cs) = (r \<noteq> q \<and> nvic_on q cs)"
| "nvic_on q (_ # cs) = nvic_on q cs"

definition nvic_inv :: "pin_state \<Rightarrow> bool" where
  "nvic_inv s \<longleftrightarrow> length (pin_irq_hdr_tab s) = 16 \<and> (\<forall>q. nvic_on q (pin_calls s) \<longleftrightarrow> (\<exists>i \<in> set (lines_of q). bit (pin_irq_enable_mask s) i))"

lemma pin_call_fields [simp]:
  "pin_irq_hdr_tab (pin_call c s) = pin_irq_hdr_tab s" "pin_irq_enable_mask (pin_call c s) = pin_irq_enable_mask s"
  "pin_calls (pin_call c s) = c # pin_calls s" "hw_pin_ops (pin_call c s) = hw_pin_ops s"
  by (simp_all add: pin_call_def)

lemma irq_on_mask: "i < 16 \<Longrightarrow> pin_irq_enable_mask (irq_on port msk i s) = pin_irq_enable_mask s OR GPIO_PIN i"
  and irq_on_nvic: "i < 16 \<Longrightarrow> nvic_on q (pin_calls (irq_on port msk i s)) \<longleftrightarrow> q = irq_of i \<or> nvic_on q (pin_calls s)"
  and irq_on_tab: "pin_irq_hdr_tab (irq_on port msk i s) = pin_irq_hdr_tab s"
  by (auto simp: irq_on_def line_facts(1) Let_def split: prod.splits)

lemma bit_LINES:
  "bit LINES_9_5 j \<longleftrightarrow> j \<in> set (lines_of EXTI9_5_IRQn)" "bit LINES_15_10 j \<longleftrightarrow> j \<in> set (lines_of EXTI15_10_IRQn)"
  by (auto simp: LINES_9_5_def LINES_15_10_def bit_or_iff bit_GPIO_PIN lines_of_def)

lemma and_LINES:
  "m AND LINES_9_5 = 0 \<longleftrightarrow> \<not> (\<exists>j \<in> set (lines_of EXTI9_5_IRQn). bit m j)"
  "m AND LINES_15_10 = 0 \<longleftrightarrow> \<not> (\<exists>j \<in> set (lines_of EXTI15_10_IRQn). bit m j)"
proof -
  have "bit m n \<Longrightarrow> n < 32" for n using bit_imp_le_length [of m n] by simp
  then show "m AND LINES_9_5 = 0 \<longleftrightarrow> \<not> (\<exists>j \<in> set (lines_of EXTI9_5_IRQn). bit m j)"
    and "m AND LINES_15_10 = 0 \<longleftrightarrow> \<not> (\<exists>j \<in> set (lines_of EXTI15_10_IRQn). bit m j)"
    by (auto simp: bit_eq_iff bit_and_iff bit_LINES)
qed

text \<open>Switching a line off turns its interrupt off when no other line of it is left.\<close>

lemma single_line: "i < 16 \<Longrightarrow> \<not> (5 \<le> i \<and> i \<le> 9) \<Longrightarrow> \<not> (10 \<le> i \<and> i \<le> 15) \<Longrightarrow> set (lines_of (irq_of i)) = {i}"
  and shared_9_5: "5 \<le> i \<Longrightarrow> i \<le> 9 \<Longrightarrow> irq_of i = EXTI9_5_IRQn"
  and shared_15_10: "10 \<le> i \<Longrightarrow> i \<le> 15 \<Longrightarrow> irq_of i = EXTI15_10_IRQn"
proof -
  have "list_all (\<lambda>i. (i < 5 \<longrightarrow> lines_of (irq_of i) = [i]) \<and> (5 \<le> i \<and> i \<le> 9 \<longrightarrow> irq_of i = EXTI9_5_IRQn)
    \<and> (10 \<le> i \<longrightarrow> irq_of i = EXTI15_10_IRQn)) [0..<16]" by code_simp
  then have t: "i < 16 \<Longrightarrow> (i < 5 \<longrightarrow> lines_of (irq_of i) = [i]) \<and> (5 \<le> i \<and> i \<le> 9 \<longrightarrow> irq_of i = EXTI9_5_IRQn)
    \<and> (10 \<le> i \<longrightarrow> irq_of i = EXTI15_10_IRQn)" for i by (simp add: list_all_iff)
  show "i < 16 \<Longrightarrow> \<not> (5 \<le> i \<and> i \<le> 9) \<Longrightarrow> \<not> (10 \<le> i \<and> i \<le> 15) \<Longrightarrow> set (lines_of (irq_of i)) = {i}"
    using t [of i] by (cases "i < 5") auto
  show "5 \<le> i \<Longrightarrow> i \<le> 9 \<Longrightarrow> irq_of i = EXTI9_5_IRQn" using t [of i] by simp
  show "10 \<le> i \<Longrightarrow> i \<le> 15 \<Longrightarrow> irq_of i = EXTI15_10_IRQn" using t [of i] by simp
qed

lemma irq_off_mask: "pin_irq_enable_mask (irq_off b q s) = pin_irq_enable_mask s AND NOT b"
  and irq_off_tab: "pin_irq_hdr_tab (irq_off b q s) = pin_irq_hdr_tab s"
  by (simp_all add: irq_off_def Let_def)

lemma bit_off: "bit (m AND NOT (GPIO_PIN i)) j \<longleftrightarrow> bit (m :: u32) j \<and> j \<noteq> i"
  using bit_imp_le_length [of m j] by (auto simp: bit_and_iff bit_not_iff bit_GPIO_PIN)

lemma irq_off_calls:
  assumes "i < 16"
  shows "pin_calls (irq_off (GPIO_PIN i) (irq_of i) s)
    = (if \<exists>j \<in> set (lines_of (irq_of i)). bit (pin_irq_enable_mask s) j \<and> j \<noteq> i then pin_calls s
       else Nvic_DisableIRQ (irq_of i) # pin_calls s)"
proof -
  consider "5 \<le> i" "i \<le> 9" | "10 \<le> i" "i \<le> 15" | "\<not> (5 \<le> i \<and> i \<le> 9)" "\<not> (10 \<le> i \<and> i \<le> 15)" by blast
  then show ?thesis
  proof cases
    case 1
    then show ?thesis by (simp add: irq_off_def Let_def line_facts(2) and_LINES bit_off shared_9_5)
  next
    case 2
    then show ?thesis by (simp add: irq_off_def Let_def line_facts(2,3) and_LINES bit_off shared_15_10)
  next
    case 3
    with assms single_line [OF assms 3] show ?thesis by (simp add: irq_off_def Let_def line_facts(2,3))
  qed
qed

lemma irq_off_nvic:
  assumes "i < 16"
    and "\<And>q. nvic_on q (pin_calls s) \<longleftrightarrow> (\<exists>j \<in> set (lines_of q). bit (pin_irq_enable_mask s) j)"
  shows "nvic_on q (pin_calls (irq_off (GPIO_PIN i) (irq_of i) s))
    \<longleftrightarrow> (\<exists>j \<in> set (lines_of q). bit (pin_irq_enable_mask (irq_off (GPIO_PIN i) (irq_of i) s)) j)"
  using assms line_facts(4) [OF assms(1), of q] by (auto simp: irq_off_calls irq_off_mask bit_off)

subsection \<open>Every operation keeps the invariant\<close>

text \<open>What does not touch the interrupt controller or the mask keeps the invariant.\<close>

definition quiet_call :: "pin_call \<Rightarrow> bool" where
  "quiet_call c = (case c of Nvic_EnableIRQ _ \<Rightarrow> False | Nvic_DisableIRQ _ \<Rightarrow> False | _ \<Rightarrow> True)"

lemma nvic_on_quiet [simp]: "quiet_call c \<Longrightarrow> nvic_on q (c # cs) = nvic_on q cs"
  by (cases c) (simp_all add: quiet_call_def)

lemma nvic_inv_quiet: "quiet_call c \<Longrightarrow> nvic_inv (pin_call c s) = nvic_inv s"
  by (simp add: nvic_inv_def)

lemma nvic_inv_tab: "nvic_inv s \<Longrightarrow> nvic_inv (s\<lparr>pin_irq_hdr_tab := (pin_irq_hdr_tab s)[i := h]\<rparr>)"
  by (simp add: nvic_inv_def)

lemma nvic_inv_irq_on: "nvic_inv s \<Longrightarrow> i < 16 \<Longrightarrow> nvic_inv (irq_on port msk i s)"
  using line_facts(4) [of i]
  by (auto simp: nvic_inv_def irq_on_nvic irq_on_mask irq_on_tab bit_or_iff bit_GPIO_PIN)

lemma nvic_inv_irq_off: "nvic_inv s \<Longrightarrow> i < 16 \<Longrightarrow> nvic_inv (irq_off (GPIO_PIN i) (irq_of i) s)"
  unfolding nvic_inv_def irq_off_tab using irq_off_nvic [of i s] by blast

inductive pin_op :: "pin_state \<Rightarrow> pin_state \<Rightarrow> bool" where
  op_write: "pin_op s (pin_write pin value s)"
| op_mode: "pin_op s (pin_mode pin mode s)"
| op_attach: "pin_op s (snd (pin_attach_irq pin mode hdr args s))"
| op_detach: "pin_op s (snd (pin_detach_irq pin s))"
| op_enable: "pin_op s (snd (pin_irq_enable pin enabled s))"
| op_init: "pin_op s (GPIOInit port mode pupd msk remap s)"

inductive pin_steps :: "(pin_call list \<Rightarrow> u32 \<Rightarrow> bool) \<Rightarrow> (u32 \<Rightarrow> u32 \<Rightarrow> pin_state \<Rightarrow> pin_state) \<Rightarrow> pin_state \<Rightarrow> bool"
  for pending :: "pin_call list \<Rightarrow> u32 \<Rightarrow> bool" and run :: "u32 \<Rightarrow> u32 \<Rightarrow> pin_state \<Rightarrow> pin_state" where
  at_reset: "pin_steps pending run (rt_hw_pin_init pins_at_reset)"
| after_op: "pin_steps pending run s \<Longrightarrow> pin_op s t \<Longrightarrow> pin_steps pending run t"
| after_irq: "pin_steps pending run s \<Longrightarrow> nvic_on q (pin_calls s) \<Longrightarrow> pin_steps pending run (EXTI_IRQHandler pending run q s)"

lemma nvic_inv_enable: "nvic_inv s \<Longrightarrow> nvic_inv (snd (pin_irq_enable pin enabled s))"
proof -
  assume inv: "nvic_inv s"
  define n where "n = unat (ucast pin :: u8)"
  have l: "n mod 16 < 16" by simp
  note f = line_facts(1) [OF l] get_pin_irq_map_eq [OF l] nvic_inv_irq_on [OF inv l] nvic_inv_irq_off [OF inv l]
  show ?thesis
    unfolding pin_irq_enable_def irq_index_eq get_pin_eq n_def [symmetric] using inv f by simp
qed

lemma nvic_inv_op: "pin_op s t \<Longrightarrow> nvic_inv s \<Longrightarrow> nvic_inv t"
proof (induction rule: pin_op.induct)
  case (op_write s pin "value")
  then show ?case by (simp add: pin_write_def nvic_inv_quiet quiet_call_def split: option.split)
next
  case (op_mode s pin mode)
  then show ?case by (simp add: pin_mode_def nvic_inv_quiet quiet_call_def Let_def split: option.split)
next
  case (op_attach s pin mode hdr args)
  then show ?case by (auto simp: pin_attach_irq_def Let_def intro: nvic_inv_tab split: option.split)
next
  case (op_detach s pin)
  then show ?case by (auto simp: pin_detach_irq_def intro: nvic_inv_tab split: option.split)
next
  case (op_enable s pin enabled)
  then show ?case by (rule nvic_inv_enable)
next
  case (op_init s port mode pupd msk remap)
  then show ?case by (simp add: GPIOInit_def nvic_inv_quiet quiet_call_def Let_def)
qed

lemma nvic_inv_ops: "pin_op\<^sup>*\<^sup>* s t \<Longrightarrow> nvic_inv s \<Longrightarrow> nvic_inv t"
  by (induction rule: rtranclp_induct) (blast intro: nvic_inv_op)+

lemma nvic_inv_line:
  "(\<And>f a t. pin_op\<^sup>*\<^sup>* t (run f a t)) \<Longrightarrow> nvic_inv s \<Longrightarrow> nvic_inv (N32G43X_GPIO_EXTI_IRQHandler pending run i s)"
  by (auto simp: N32G43X_GPIO_EXTI_IRQHandler_def call_pin_irq_hdr_def nvic_inv_quiet quiet_call_def Let_def intro: nvic_inv_ops)

lemma nvic_inv_irq:
  assumes "\<And>f a t. pin_op\<^sup>*\<^sup>* t (run f a t)" and "nvic_inv s"
  shows "nvic_inv (EXTI_IRQHandler pending run q s)"
proof -
  have "nvic_inv (fold (N32G43X_GPIO_EXTI_IRQHandler pending run) ls s)" if "nvic_inv s" for ls s
    using that by (induction ls arbitrary: s) (auto intro: nvic_inv_line assms(1))
  with assms(2) show ?thesis by (simp add: EXTI_IRQHandler_def nvic_inv_quiet quiet_call_def)
qed

lemma nvic_inv_steps: "pin_steps pending run s \<Longrightarrow> (\<And>f a t. pin_op\<^sup>*\<^sup>* t (run f a t)) \<Longrightarrow> nvic_inv s"
proof (induction rule: pin_steps.induct)
  case at_reset
  show ?case by (simp add: rt_hw_pin_init_def pins_at_reset_def nvic_inv_def Let_def)
next
  case (after_op s t)
  then show ?case by (blast intro: nvic_inv_op)
next
  case (after_irq s q)
  then show ?case by (blast intro: nvic_inv_irq)
qed

text \<open>Attaching to a free line, and enabling the interrupt of an owned one.\<close>

lemma attach_fresh:
  "irq_index p = Some i \<Longrightarrow> sint (hdr_pin (pin_irq_hdr_tab s ! i)) = - 1 \<Longrightarrow> sint p \<noteq> - 1 \<Longrightarrow>
    pin_attach_irq p mode hdr args s
    = (0, s\<lparr>pin_irq_hdr_tab := (pin_irq_hdr_tab s)[i := \<lparr>hdr_pin = ucast p, hdr_mode = ucast mode, hdr_fn = hdr, hdr_args = args\<rparr>]\<rparr>)"
  by (simp add: pin_attach_irq_def Let_def)

lemma irq_index_less: "irq_index p = Some i \<Longrightarrow> i < 16"
  by (auto simp: irq_index_eq split: if_splits)

lemma irq_index_get_pin: "irq_index p = Some i \<Longrightarrow> \<exists>port. get_pin (ucast p) = Some (port, GPIO_PIN i)"
  by (auto simp: irq_index_eq get_pin_eq split: if_splits)

lemma enable_owned:
  assumes "irq_index p = Some i" and "sint (hdr_pin (pin_irq_hdr_tab s ! i)) \<noteq> - 1"
  shows "pin_irq_hdr_tab (snd (pin_irq_enable p 1 s)) = pin_irq_hdr_tab s"
    and "pin_irq_enable_mask (snd (pin_irq_enable p 1 s)) = pin_irq_enable_mask s OR GPIO_PIN i"
  using irq_index_get_pin [OF assms(1)] irq_index_less [OF assms(1)] assms
  by (auto simp: pin_irq_enable_def irq_on_tab irq_on_mask)

lemma ready_fields:
  "pin_irq_hdr_tab (rt_hw_pin_init pins_at_reset) = replicate 16 no_hdr" "pin_irq_enable_mask (rt_hw_pin_init pins_at_reset) = 0"
  by (simp_all add: rt_hw_pin_init_def pins_at_reset_def Let_def)

text \<open>
  C32: The interrupts of the pins that the interrupt controller lets through are exactly those with a line in the driver's mask: from the
  initialisation on, after any sequence of operations on pins and of interrupts, whose handlers may themselves use the
  driver in any way, an interrupt is enabled if and only if one of the lines that it serves has been enabled and not disabled since.
  So no enabled pin loses its interrupt when another pin of the same group is disabled.
\<close>

theorem pin_irq_nvic_invariant:
  assumes "pin_steps pending run s"
    and "\<And>f a t. pin_op\<^sup>*\<^sup>* t (run f a t)"
  shows "nvic_on q (pin_calls s) \<longleftrightarrow> (\<exists>i \<in> set (lines_of q). bit (pin_irq_enable_mask s) i)"
  using nvic_inv_steps [OF assms] by (simp add: nvic_inv_def)

theorem pin_irq_nvic_invariant_witness:
  "let s = snd (pin_irq_enable 5 1 (snd (pin_attach_irq 5 0 100 0 (rt_hw_pin_init pins_at_reset))))
   in nvic_on EXTI9_5_IRQn (pin_calls s) \<and> bit (pin_irq_enable_mask s) 5"
proof -
  define s where "s = snd (pin_irq_enable 5 1 (snd (pin_attach_irq 5 0 100 0 (rt_hw_pin_init pins_at_reset))))"
  have steps: "pin_steps (\<lambda>_ _. False) (\<lambda>_ _ t. snd (pin_detach_irq 5 t)) s"
    unfolding s_def by (rule after_op [OF after_op [OF at_reset op_attach] op_enable])
  have ops: "pin_op\<^sup>*\<^sup>* t (snd (pin_detach_irq 5 t))" for t by (rule r_into_rtranclp, rule op_detach)
  have "bit (pin_irq_enable_mask s) 5"
    unfolding s_def by (simp add: attach_fresh enable_owned irq_index_eq ready_fields no_hdr_def bit_or_iff bit_GPIO_PIN)
  moreover have "nvic_on EXTI9_5_IRQn (pin_calls s) \<longleftrightarrow> (\<exists>i \<in> set (lines_of EXTI9_5_IRQn). bit (pin_irq_enable_mask s) i)"
    by (rule pin_irq_nvic_invariant [OF steps ops])
  ultimately show ?thesis unfolding s_def [symmetric] Let_def by (simp add: lines_of_def)
qed

subsection \<open>Lines and their owners\<close>

lemma sint_small: "x < 64 \<Longrightarrow> sint (ucast x :: u16) = sint x \<and> sint x \<noteq> - 1" for x :: u32
proof -
  assume "x < 64"
  then have u: "uint x < 64" by (simp add: word_less_def)
  then have "uint (ucast x :: u16) = uint x" by (simp add: unsigned_ucast_eq take_bit_int_eq_self)
  moreover have "signed_take_bit 15 (uint x) = uint x" "signed_take_bit 31 (uint x) = uint x"
    using u by (auto intro!: signed_take_bit_int_eq_self intro: order_trans [OF _ uint_ge_0])
  moreover have "uint x \<noteq> - 1" using uint_ge_0 [of x] by linarith
  ultimately show ?thesis by (simp add: sint_uint)
qed

lemma detach_eq:
  "irq_index p = Some i \<Longrightarrow> sint (hdr_pin (pin_irq_hdr_tab s ! i)) \<noteq> - 1 \<Longrightarrow>
    pin_detach_irq p s = (0, s\<lparr>pin_irq_hdr_tab := (pin_irq_hdr_tab s)[i := no_hdr]\<rparr>)"
  by (simp add: pin_detach_irq_def)

text \<open>One pending line: the handler of the interrupt runs the handler of this line only.\<close>

lemma line_step:
  "i < 32 \<Longrightarrow> N32G43X_GPIO_EXTI_IRQHandler (\<lambda>_ b. b = GPIO_PIN i) run j s
    = (if j = i then pin_call (Exti_ClrITPendBit (GPIO_PIN i)) (call_pin_irq_hdr run i s) else s)"
  by (simp add: N32G43X_GPIO_EXTI_IRQHandler_def GPIO_PIN_inj')

lemma fold_lines_none:
  "i \<notin> set ls \<Longrightarrow> i < 32 \<Longrightarrow> fold (N32G43X_GPIO_EXTI_IRQHandler (\<lambda>_ b. b = GPIO_PIN i) run) ls s = s"
proof (induction ls)
  case (Cons j ls)
  then show ?case using line_step [of i run j s] by simp
qed simp

lemma fold_lines_one:
  "i \<in> set ls \<Longrightarrow> distinct ls \<Longrightarrow> i < 32 \<Longrightarrow>
    fold (N32G43X_GPIO_EXTI_IRQHandler (\<lambda>_ b. b = GPIO_PIN i) run) ls s
    = pin_call (Exti_ClrITPendBit (GPIO_PIN i)) (call_pin_irq_hdr run i s)"
proof (induction ls arbitrary: s)
  case (Cons j ls)
  then show ?case using line_step [of i run j s] fold_lines_none [of i ls run] by (cases "j = i") simp_all
qed simp

lemma distinct_lines: "distinct (lines_of q)"
  by (cases q) (simp_all add: lines_of_def)

lemma irq_of_one_line:
  "i < 16 \<Longrightarrow> EXTI_IRQHandler (\<lambda>_ b. b = GPIO_PIN i) run (irq_of i) s
    = pin_call Interrupt_leave (pin_call (Exti_ClrITPendBit (GPIO_PIN i)) (call_pin_irq_hdr run i (pin_call Interrupt_enter s)))"
  by (simp add: EXTI_IRQHandler_def fold_lines_one distinct_lines lines_of_set)

text \<open>
  Lines 5 to 9 and 10 to 15 share an interrupt, and disabling the interrupt of a pin does not mask its line: while another
  line of the group is enabled, \<open>rt_pin_irq_enable\<close> with \<open>PIN_IRQ_DISABLE\<close> succeeds without touching the hardware, and
  the next edge on the disabled pin still runs its handler.
\<close>

theorem disabled_pin_still_interrupts:
  assumes "irq_index p = Some i" and "j < 16" and "j \<noteq> i" and "irq_of j = irq_of i"
    and "bit (pin_irq_enable_mask s) j"
    and "hdr_fn (pin_irq_hdr_tab s ! i) \<noteq> 0"
    and "(err, t) = pin_irq_enable p 0 s"
  shows "err = 0 \<and> \<not> bit (pin_irq_enable_mask t) i \<and> pin_calls t = pin_calls s
    \<and> EXTI_IRQHandler (\<lambda>_ b. b = GPIO_PIN i) run (irq_of i) t
      = pin_call Interrupt_leave (pin_call (Exti_ClrITPendBit (GPIO_PIN i))
          (run (hdr_fn (pin_irq_hdr_tab s ! i)) (hdr_args (pin_irq_hdr_tab s ! i)) (pin_call Interrupt_enter t)))"
proof -
  note l = irq_index_less [OF assms(1)]
  obtain port where port: "get_pin (ucast p) = Some (port, GPIO_PIN i)" using irq_index_get_pin [OF assms(1)] by blast
  have e: "err = 0" "t = irq_off (GPIO_PIN i) (irq_of i) s"
    using assms(7) by (simp_all add: pin_irq_enable_def port get_pin_irq_map_eq l line_facts(1))
  have j: "j \<in> set (lines_of (irq_of i))" using assms(2,4) by (simp add: lines_of_set)
  have "pin_calls t = pin_calls s" using assms(3,5) j by (auto simp: e irq_off_calls l)
  moreover have "call_pin_irq_hdr run i (pin_call Interrupt_enter t)
    = run (hdr_fn (pin_irq_hdr_tab s ! i)) (hdr_args (pin_irq_hdr_tab s ! i)) (pin_call Interrupt_enter t)"
    using assms(6) by (simp add: call_pin_irq_hdr_def e irq_off_tab Let_def)
  ultimately show ?thesis by (simp add: e irq_off_mask bit_off irq_of_one_line l)
qed

text \<open>Pins 5 and 6 of port A are enabled, then pin 5 is disabled.\<close>

definition two_pins :: pin_state where
  "two_pins = snd (pin_irq_enable 6 1 (snd (pin_attach_irq 6 0 200 0
     (snd (pin_irq_enable 5 1 (snd (pin_attach_irq 5 0 100 7 (rt_hw_pin_init pins_at_reset))))))))"

theorem disabled_pin_still_interrupts_witness:
  "let t = snd (pin_irq_enable 5 0 two_pins)
   in \<not> bit (pin_irq_enable_mask t) 5
    \<and> EXTI_IRQHandler (\<lambda>_ b. b = GPIO_PIN 5) (\<lambda>f a s. s\<lparr>pin_irq_enable_mask := f + a\<rparr>) EXTI9_5_IRQn t
      = pin_call Interrupt_leave (pin_call (Exti_ClrITPendBit (GPIO_PIN 5)) ((pin_call Interrupt_enter t)\<lparr>pin_irq_enable_mask := 107\<rparr>))"
proof -
  define t where "t = snd (pin_irq_enable 5 0 two_pins)"
  define err where "err = fst (pin_irq_enable 5 0 two_pins)"
  have r: "(err, t) = pin_irq_enable 5 0 two_pins" by (simp add: err_def t_def)
  have f: "irq_index 5 = Some 5" "irq_of 6 = irq_of 5" "irq_of 5 = EXTI9_5_IRQn" "bit (pin_irq_enable_mask two_pins) 6"
    "hdr_fn (pin_irq_hdr_tab two_pins ! 5) = 100" "hdr_args (pin_irq_hdr_tab two_pins ! 5) = 7"
    by (simp_all add: irq_index_eq irq_of_def pin_irq_map_def two_pins_def attach_fresh enable_owned ready_fields no_hdr_def bit_or_iff bit_GPIO_PIN)
  show ?thesis
    using disabled_pin_still_interrupts [OF f(1) _ _ f(2,4) _ r, where run = "\<lambda>f a s. s\<lparr>pin_irq_enable_mask := f + a\<rparr>"]
    unfolding f(3,5,6) t_def [symmetric] Let_def by simp
qed

text \<open>
  C33: The pins of the same number on all ports share one external interrupt line, which belongs to the pin that
  was attached first: attaching another pin is refused with the line busy and changes nothing. But the owner is not
  checked on the way out: detaching the other pin succeeds and removes the handler of the owner, after which the edges of the owner
  call no handler and its interrupt cannot be enabled again.
\<close>

theorem line_owner:
  assumes "irq_index p = Some i" and "irq_index q = Some i" and "p < 64" and "p \<noteq> q"
    and "length (pin_irq_hdr_tab s) = 16" and "hdr_pin (pin_irq_hdr_tab s ! i) = ucast p"
    and "(err, t) = pin_detach_irq q s"
  shows "pin_attach_irq q mode hdr args s = (RT_EBUSY, s) \<and> err = 0
    \<and> EXTI_IRQHandler (\<lambda>_ b. b = GPIO_PIN i) run (irq_of i) t
      = pin_call Interrupt_leave (pin_call (Exti_ClrITPendBit (GPIO_PIN i)) (pin_call Interrupt_enter t))
    \<and> pin_irq_enable p 1 t = (RT_ENOSYS, t)"
proof -
  note l = irq_index_less [OF assms(1)]
  note sp = sint_small [OF assms(3)]
  have "sint p \<noteq> sint q" using assms(4) by (metis signed_word_eqI)
  then have busy: "pin_attach_irq q mode hdr args s = (RT_EBUSY, s)"
    using sp by (simp add: pin_attach_irq_def assms(2,6) Let_def)
  have t: "err = 0" "t = s\<lparr>pin_irq_hdr_tab := (pin_irq_hdr_tab s)[i := no_hdr]\<rparr>"
    using detach_eq [OF assms(2), of s] sp assms(6,7) by simp_all
  obtain port where port: "get_pin (ucast p) = Some (port, GPIO_PIN i)" using irq_index_get_pin [OF assms(1)] by blast
  have "pin_irq_enable p 1 t = (RT_ENOSYS, t)"
    by (simp add: pin_irq_enable_def port assms(1,5) t no_hdr_def l)
  with busy show ?thesis by (simp add: t irq_of_one_line l call_pin_irq_hdr_def assms(5) no_hdr_def Let_def)
qed

theorem line_owner_witness:
  "let s = snd (pin_attach_irq 5 0 100 7 (rt_hw_pin_init pins_at_reset)); t = snd (pin_detach_irq 21 s)
   in pin_attach_irq 21 1 200 0 s = (RT_EBUSY, s) \<and> pin_irq_enable 5 1 t = (RT_ENOSYS, t)"
proof -
  define s where "s = snd (pin_attach_irq 5 0 100 7 (rt_hw_pin_init pins_at_reset))"
  define t where "t = snd (pin_detach_irq 21 s)"
  define err where "err = fst (pin_detach_irq 21 s)"
  have r: "(err, t) = pin_detach_irq 21 s" by (simp add: err_def t_def)
  have f: "irq_index 5 = Some 5" "irq_index 21 = Some 5" "length (pin_irq_hdr_tab s) = 16" "hdr_pin (pin_irq_hdr_tab s ! 5) = ucast (5 :: u32)"
    unfolding s_def by (simp_all add: irq_index_eq attach_fresh ready_fields no_hdr_def)
  from line_owner [OF f(1,2) _ _ f(3,4) r, where mode = 1 and hdr = 200 and args = 0]
  show ?thesis unfolding s_def [symmetric] t_def [symmetric] Let_def by simp
qed

end
