(* ===== verification/Device.thy ===== *)
theory Device imports Kernel PinDriver begin

text \<open>
  The devices of the kernel (device.c): registering, finding, opening and closing with a count of references, and the calls through
  the function pointers of a device. A driver extends the record of the device as its structure extends \<open>struct rt_device\<close>, and its
  functions act on the extended record; a null function pointer is \<open>None\<close>, and so is the result of a call in which an
  assertion fails. The container of devices is the sequence of names and addresses, newest first.
\<close>

subsection \<open>Data\<close>

datatype device_class = Class_Char | Class_Miscellaneous

record rt_device =
  dev_name :: string
  dev_object_type :: u8
  dev_class :: device_class
  dev_flag :: u16
  open_flag :: u16
  ref_count :: u8
  rx_indicate :: u32
  tx_complete :: u32

definition RT_Object_Class_Device :: u8 where "RT_Object_Class_Device = 9"

definition RT_DEVICE_FLAG_RDWR :: u16 where "RT_DEVICE_FLAG_RDWR = 0x003"
definition RT_DEVICE_FLAG_STANDALONE :: u16 where "RT_DEVICE_FLAG_STANDALONE = 0x008"
definition RT_DEVICE_FLAG_ACTIVATED :: u16 where "RT_DEVICE_FLAG_ACTIVATED = 0x010"
definition RT_DEVICE_FLAG_SUSPENDED :: u16 where "RT_DEVICE_FLAG_SUSPENDED = 0x020"
definition RT_DEVICE_FLAG_STREAM :: u16 where "RT_DEVICE_FLAG_STREAM = 0x040"
definition RT_DEVICE_FLAG_INT_RX :: u16 where "RT_DEVICE_FLAG_INT_RX = 0x100"
definition RT_DEVICE_FLAG_DMA_RX :: u16 where "RT_DEVICE_FLAG_DMA_RX = 0x200"
definition RT_DEVICE_FLAG_INT_TX :: u16 where "RT_DEVICE_FLAG_INT_TX = 0x400"
definition RT_DEVICE_FLAG_DMA_TX :: u16 where "RT_DEVICE_FLAG_DMA_TX = 0x800"
definition RT_DEVICE_OFLAG_RDWR :: u16 where "RT_DEVICE_OFLAG_RDWR = 0x003"
definition RT_DEVICE_OFLAG_OPEN :: u16 where "RT_DEVICE_OFLAG_OPEN = 0x008"
definition RT_DEVICE_OFLAG_MASK :: u16 where "RT_DEVICE_OFLAG_MASK = 0xf0f"

text \<open>
  The functions of a driver. A read gets the contents of the buffer and returns the new contents; a control command has a
  number and an argument whose type the driver chooses.
\<close>

record ('d, 'c) device_ops =
  op_init :: "('d \<Rightarrow> (int \<times> 'd) option) option"
  op_open :: "(u16 \<Rightarrow> 'd \<Rightarrow> (int \<times> 'd) option) option"
  op_close :: "('d \<Rightarrow> (int \<times> 'd) option) option"
  op_read :: "(u8 list \<Rightarrow> u32 \<Rightarrow> 'd \<Rightarrow> (u32 \<times> u8 list \<times> 'd) option) option"
  op_write :: "(u8 list \<Rightarrow> u32 \<Rightarrow> 'd \<Rightarrow> (u32 \<times> 'd) option) option"
  op_control :: "('c \<Rightarrow> 'd \<Rightarrow> (int \<times> 'd) option) option"

subsection \<open>The container\<close>

type_synonym container = "(string \<times> u32) list"

fun rt_device_find :: "string \<Rightarrow> container \<Rightarrow> u32" where
  "rt_device_find name [] = 0"
| "rt_device_find name ((n, p) # c) = (if take RT_NAME_MAX n = take RT_NAME_MAX name then p else rt_device_find name c)"

definition rt_device_register ::
  "u32 \<Rightarrow> string \<Rightarrow> u16 \<Rightarrow> 'a rt_device_scheme \<times> container \<Rightarrow> (int \<times> 'a rt_device_scheme \<times> container) option" where
  "rt_device_register p name flags = (\<lambda>(d, c).
     if p = 0 then Some (- RT_ERROR, d, c)
     else if rt_device_find name c \<noteq> 0 then Some (- RT_ERROR, d, c)
     else do {
       RT_ASSERT (p \<notin> snd ` set c);
       Some (RT_EOK, d\<lparr>dev_object_type := RT_Object_Class_Device OR RT_Object_Class_Static, dev_name := take RT_NAME_MAX name,
                       dev_flag := flags, ref_count := 0, open_flag := 0\<rparr>, (take RT_NAME_MAX name, p) # c) })"

definition device_type_ok :: "'a rt_device_scheme \<Rightarrow> bool" where
  "device_type_ok d \<longleftrightarrow> dev_object_type d AND NOT RT_Object_Class_Static = RT_Object_Class_Device"

definition device_detach :: "u32 \<Rightarrow> 'a rt_device_scheme \<times> container \<Rightarrow> 'a rt_device_scheme \<times> container" where
  "device_detach p = (\<lambda>(d, c). (d\<lparr>dev_object_type := 0\<rparr>, filter (\<lambda>(n, q). q \<noteq> p) c))"

definition rt_device_unregister ::
  "u32 \<Rightarrow> 'a rt_device_scheme \<times> container \<Rightarrow> (int \<times> 'a rt_device_scheme \<times> container) option" where
  "rt_device_unregister p = (\<lambda>(d, c). do {
     RT_ASSERT (p \<noteq> 0);
     RT_ASSERT (device_type_ok d);
     RT_ASSERT (dev_object_type d AND RT_Object_Class_Static \<noteq> 0);
     Some (RT_EOK, device_detach p (d, c)) })"

text \<open>A device from the heap. An enumeration takes four bytes. What \<open>memset\<close> clears is the record; the part of the driver is not initialised.\<close>

definition SIZEOF_DEVICE :: u32 where "SIZEOF_DEVICE = 68"

definition rt_device_create :: "device_class \<Rightarrow> u32 \<Rightarrow> 'a rt_device_scheme \<times> heap \<Rightarrow> (u32 \<times> 'a rt_device_scheme \<times> heap) option" where
  "rt_device_create ty attach_size = (\<lambda>(d, h). do {
     (p, h) \<leftarrow> rt_malloc (RT_ALIGN SIZEOF_DEVICE 4 + RT_ALIGN attach_size 4) h;
     Some (p, if p = 0 then d
       else d\<lparr>dev_name := '''', dev_object_type := 0, dev_class := ty, dev_flag := 0, open_flag := 0, ref_count := 0, rx_indicate := 0, tx_complete := 0\<rparr>, h) })"

definition rt_device_destroy ::
  "u32 \<Rightarrow> 'a rt_device_scheme \<times> container \<times> heap \<Rightarrow> ('a rt_device_scheme \<times> container \<times> heap) option" where
  "rt_device_destroy p = (\<lambda>(d, c, h). do {
     RT_ASSERT (p \<noteq> 0);
     RT_ASSERT (device_type_ok d);
     RT_ASSERT (dev_object_type d AND RT_Object_Class_Static = 0);
     let (d, c) = device_detach p (d, c);
     h \<leftarrow> rt_free p h;
     Some (d, c, h) })"

subsection \<open>Calls to a device\<close>

definition rt_device_init :: "('a rt_device_scheme, 'c) device_ops \<Rightarrow> 'a rt_device_scheme \<Rightarrow> (int \<times> 'a rt_device_scheme) option" where
  "rt_device_init ops d =
     (case op_init ops of None \<Rightarrow> Some (RT_EOK, d)
      | Some init \<Rightarrow>
          if dev_flag d AND RT_DEVICE_FLAG_ACTIVATED \<noteq> 0 then Some (RT_EOK, d)
          else do { (result, d) \<leftarrow> init d;
                    Some (result, if result \<noteq> RT_EOK then d else d\<lparr>dev_flag := dev_flag d OR RT_DEVICE_FLAG_ACTIVATED\<rparr>) })"

text \<open>The first open initialises the device. A result other than 0 ends the call.\<close>

definition open_init :: "('a rt_device_scheme, 'c) device_ops \<Rightarrow> 'a rt_device_scheme \<Rightarrow> (int \<times> 'a rt_device_scheme) option" where
  "open_init ops d =
     (if dev_flag d AND RT_DEVICE_FLAG_ACTIVATED \<noteq> 0 then Some (RT_EOK, d)
      else do {
        (result, d) \<leftarrow> (case op_init ops of None \<Rightarrow> Some (RT_EOK, d) | Some init \<Rightarrow> init d);
        Some (result, if result \<noteq> RT_EOK then d else d\<lparr>dev_flag := dev_flag d OR RT_DEVICE_FLAG_ACTIVATED\<rparr>) })"

definition rt_device_open :: "('a rt_device_scheme, 'c) device_ops \<Rightarrow> u16 \<Rightarrow> 'a rt_device_scheme \<Rightarrow> (int \<times> 'a rt_device_scheme) option" where
  "rt_device_open ops oflag d =
     do { RT_ASSERT (device_type_ok d);
          (result, d) \<leftarrow> open_init ops d;
          if result \<noteq> RT_EOK then Some (result, d)
          else if dev_flag d AND RT_DEVICE_FLAG_STANDALONE \<noteq> 0 \<and> open_flag d AND RT_DEVICE_OFLAG_OPEN \<noteq> 0 then Some (- RT_EBUSY, d)
          else do {
            (result, d) \<leftarrow> (case op_open ops of None \<Rightarrow> Some (RT_EOK, d\<lparr>open_flag := oflag AND RT_DEVICE_OFLAG_MASK\<rparr>) | Some open \<Rightarrow> open oflag d);
            if result = RT_EOK \<or> result = - RT_ENOSYS
            then do { let d = d\<lparr>open_flag := open_flag d OR RT_DEVICE_OFLAG_OPEN, ref_count := ref_count d + 1\<rparr>;
                      RT_ASSERT (ref_count d \<noteq> 0);
                      Some (result, d) }
            else Some (result, d) } }"

definition rt_device_close :: "('a rt_device_scheme, 'c) device_ops \<Rightarrow> 'a rt_device_scheme \<Rightarrow> (int \<times> 'a rt_device_scheme) option" where
  "rt_device_close ops d =
     do { RT_ASSERT (device_type_ok d);
          if ref_count d = 0 then Some (- RT_ERROR, d)
          else
            let d = d\<lparr>ref_count := ref_count d - 1\<rparr>
            in if ref_count d \<noteq> 0 then Some (RT_EOK, d)
               else do {
                 (result, d) \<leftarrow> (case op_close ops of None \<Rightarrow> Some (RT_EOK, d) | Some close \<Rightarrow> close d);
                 Some (result, if result = RT_EOK \<or> result = - RT_ENOSYS then d\<lparr>open_flag := 0\<rparr> else d) } }"

text \<open>Reading and writing: the number of bytes. The error number of the thread is left out.\<close>

definition rt_device_read ::
  "('a rt_device_scheme, 'c) device_ops \<Rightarrow> u8 list \<Rightarrow> u32 \<Rightarrow> 'a rt_device_scheme \<Rightarrow> (u32 \<times> u8 list \<times> 'a rt_device_scheme) option" where
  "rt_device_read ops buffer sz d =
     do { RT_ASSERT (device_type_ok d);
          if ref_count d = 0 then Some (0, buffer, d)
          else case op_read ops of Some read \<Rightarrow> read buffer sz d | None \<Rightarrow> Some (0, buffer, d) }"

definition rt_device_write ::
  "('a rt_device_scheme, 'c) device_ops \<Rightarrow> u8 list \<Rightarrow> u32 \<Rightarrow> 'a rt_device_scheme \<Rightarrow> (u32 \<times> 'a rt_device_scheme) option" where
  "rt_device_write ops buffer sz d =
     do { RT_ASSERT (device_type_ok d);
          if ref_count d = 0 then Some (0, d)
          else case op_write ops of Some write \<Rightarrow> write buffer sz d | None \<Rightarrow> Some (0, d) }"

definition rt_device_control :: "('a rt_device_scheme, 'c) device_ops \<Rightarrow> 'c \<Rightarrow> 'a rt_device_scheme \<Rightarrow> (int \<times> 'a rt_device_scheme) option" where
  "rt_device_control ops c d =
     do { RT_ASSERT (device_type_ok d);
          case op_control ops of Some control \<Rightarrow> control c d | None \<Rightarrow> Some (- RT_ENOSYS, d) }"

definition rt_device_set_rx_indicate :: "u32 \<Rightarrow> 'a rt_device_scheme \<Rightarrow> (int \<times> 'a rt_device_scheme) option" where
  "rt_device_set_rx_indicate f d = do { RT_ASSERT (device_type_ok d); Some (RT_EOK, d\<lparr>rx_indicate := f\<rparr>) }"

definition rt_device_set_tx_complete :: "u32 \<Rightarrow> 'a rt_device_scheme \<Rightarrow> (int \<times> 'a rt_device_scheme) option" where
  "rt_device_set_tx_complete f d = do { RT_ASSERT (device_type_ok d); Some (RT_EOK, d\<lparr>tx_complete := f\<rparr>) }"

subsection \<open>The pin device\<close>

record pin_device = rt_device +
  pin_part :: pin_state

text \<open>The buffer of a read or write is the structure of a pin and its level, 16 bits each.\<close>

definition pin_status :: "u8 list \<Rightarrow> (u16 \<times> u16) option" where
  "pin_status b = (if length b < 4 then None else Some (ucast (le16 (b ! 0) (b ! 1)), ucast (le16 (b ! 2) (b ! 3))))"

definition pin_ops :: "(pin_call list \<Rightarrow> gpio_port \<Rightarrow> u32 \<Rightarrow> u8) \<Rightarrow> (pin_device, (u16 \<times> u16) option) device_ops" where
  "pin_ops input = \<lparr>
     op_init = None, op_open = None, op_close = None,
     op_read = Some (\<lambda>b sz d.
       if sz \<noteq> 4 then Some (0, b, d)
       else do { (pin, status) \<leftarrow> pin_status b;
                 let (n, r) = pin_device_read input (Some (pin, status)) sz (pin_part d);
                 (_, v) \<leftarrow> r;
                 Some (n, b[2 := ucast v, 3 := ucast (drop_bit 8 v)], d) }),
     op_write = Some (\<lambda>b sz d.
       if sz \<noteq> 4 then Some (0, d)
       else do { ps \<leftarrow> pin_status b;
                 let (n, s) = pin_device_write (Some ps) sz (pin_part d);
                 Some (n, d\<lparr>pin_part := s\<rparr>) }),
     op_control = Some (\<lambda>args d. let (r, s) = pin_device_control args (pin_part d) in Some (r, d\<lparr>pin_part := s\<rparr>))\<rparr>"

definition rt_device_pin_register :: "u32 \<Rightarrow> string \<Rightarrow> pin_device \<times> container \<Rightarrow> (int \<times> pin_device \<times> container) option" where
  "rt_device_pin_register hw_pin name = (\<lambda>(d, c).
     let d = d\<lparr>dev_class := Class_Miscellaneous, rx_indicate := 0, tx_complete := 0, pin_part := (pin_part d)\<lparr>hw_pin_ops := True\<rparr>\<rparr>
     in do { (_, d, c) \<leftarrow> rt_device_register hw_pin name RT_DEVICE_FLAG_RDWR (d, c); Some (0, d, c) })"

end
