(* ===== verification/Serial.thy ===== *)
theory Serial imports Device begin

text \<open>
  The serial device (serial.c, in the configuration without DMA and without POSIX) and the driver of the USART below it
  (drv_usart.c). The words that the receiver will deliver before it is found empty are part of the state, calls of the peripheral library
  and of the callback of the application are events, newest first. The receive buffer is allocated on the heap and read and
  written through its structure; an access outside it is \<open>None\<close>.
\<close>

subsection \<open>Data\<close>

record serial_configure =
  baud_rate :: u32
  data_bits :: "4 word"
  stop_bits :: "2 word"
  parity :: "2 word"
  hardwareflow_control :: "2 word"
  uart_mode :: "2 word"
  bufsz :: u16
  reserved :: "6 word"

definition RT_SERIAL_CONFIG_DEFAULT :: serial_configure where
  "RT_SERIAL_CONFIG_DEFAULT = \<lparr>baud_rate = 115200, data_bits = 8, stop_bits = 0, parity = 0, hardwareflow_control = 0,
     uart_mode = 2, bufsz = 64, reserved = 0\<rparr>"

record rt_serial_rx_fifo =
  fifo_buffer :: "u8 list"
  put_index :: u16
  get_index :: u16
  is_full :: bool

record usart_init =
  init_baud :: u32
  init_word_length :: u16
  init_stop_bits :: u16
  init_parity :: u16
  init_uart_mode :: u16
  init_flow_control :: u16

definition USART_StructInit :: usart_init where
  "USART_StructInit = \<lparr>init_baud = 9600, init_word_length = 0, init_stop_bits = 0, init_parity = 0, init_uart_mode = 0x0C, init_flow_control = 0\<rparr>"

datatype uart_call =
    Enable_clocks
  | Init_tx_pin
  | Init_rx_pin
  | Set_priority nat
  | Enable_irq
  | Usart_Init usart_init
  | Usart_Enable
  | Priority_group nat
  | Nvic_Init bool
  | Config_rx_int bool
  | Usart_SendData u8
  | Rx_indicate u32 u32
  | Buffer_warning
  | Interrupt_entered
  | Interrupt_left

record serial_device = rt_device +
  config :: serial_configure
  serial_rx :: u32
  rx_fifo :: rt_serial_rx_fifo
  serial_tx :: u32
  tx_completed :: bool
  already_output :: bool
  serial_heap :: heap
  receiver :: "u16 list"
  uart_calls :: "uart_call list"

definition uart_call :: "uart_call \<Rightarrow> serial_device \<Rightarrow> serial_device" where
  "uart_call c s = s\<lparr>uart_calls := c # uart_calls s\<rparr>"

definition RT_EIO :: int where "RT_EIO = 8"

subsection \<open>The driver of the USART\<close>

definition n32g43x_uart_gpio_init :: "serial_configure \<Rightarrow> serial_device \<Rightarrow> serial_device" where
  "n32g43x_uart_gpio_init cfg s =
     (let s = uart_call Init_tx_pin (uart_call Enable_clocks s);
          s = (if uart_mode cfg = 1 \<or> uart_mode cfg = 2 then uart_call Init_rx_pin s else s)
      in uart_call Enable_irq (uart_call (Set_priority 0) s))"

text \<open>The encodings of the fields: all four values of the two-bit fields of stop bits and flow control have one.\<close>

definition usart_setting :: "serial_configure \<Rightarrow> usart_init" where
  "usart_setting cfg =
     (let i = USART_StructInit\<lparr>init_baud := baud_rate cfg\<rparr>;
          i = i\<lparr>init_word_length := if data_bits cfg = 9 then 0x1000 else 0\<rparr>;
          i = i\<lparr>init_stop_bits := if stop_bits cfg = 0 then 0 else if stop_bits cfg = 1 then 0x1000 else if stop_bits cfg = 2 then 0x2000 else 0x3000\<rparr>;
          i = (if parity cfg = 1 then i\<lparr>init_parity := 0x0600\<rparr> else if parity cfg = 2 then i\<lparr>init_parity := 0x0400\<rparr>
               else if parity cfg = 0 then i\<lparr>init_parity := 0\<rparr> else i);
          i = i\<lparr>init_flow_control := if hardwareflow_control cfg = 0 then 0 else if hardwareflow_control cfg = 1 then 0x0100
                                    else if hardwareflow_control cfg = 2 then 0x0200 else 0x0300\<rparr>
      in if uart_mode cfg = 0 then i\<lparr>init_uart_mode := 8\<rparr> else if uart_mode cfg = 1 then i\<lparr>init_uart_mode := 4\<rparr>
         else if uart_mode cfg = 2 then i\<lparr>init_uart_mode := 0x0C\<rparr> else i)"

definition n32g43x_configure :: "serial_configure \<Rightarrow> serial_device \<Rightarrow> int \<times> serial_device" where
  "n32g43x_configure cfg s =
     (RT_EOK, uart_call Usart_Enable (uart_call (Usart_Init (usart_setting cfg)) (n32g43x_uart_gpio_init cfg s)))"

definition RT_DEVICE_CTRL_SET_INT :: u32 where "RT_DEVICE_CTRL_SET_INT = 0x10"
definition RT_DEVICE_CTRL_CLR_INT :: u32 where "RT_DEVICE_CTRL_CLR_INT = 0x11"

text \<open>The argument of the command is not looked at.\<close>

definition n32g43x_control :: "u32 \<Rightarrow> serial_device \<Rightarrow> int \<times> serial_device" where
  "n32g43x_control cmd s =
     (let s = uart_call (Priority_group 0) s
      in if cmd = RT_DEVICE_CTRL_CLR_INT then (RT_EOK, uart_call (Config_rx_int False) (uart_call (Nvic_Init False) s))
         else if cmd = RT_DEVICE_CTRL_SET_INT then (RT_EOK, uart_call (Config_rx_int True) (uart_call (Nvic_Init True) s))
         else (RT_EOK, s))"

text \<open>\<open>putc\<close> waits until the transmit register is empty again, which the peripheral brings about.\<close>

definition n32g43x_putc :: "u8 \<Rightarrow> serial_device \<Rightarrow> int \<times> serial_device" where
  "n32g43x_putc ch s = (1, uart_call (Usart_SendData ch) s)"

definition n32g43x_getc :: "serial_device \<Rightarrow> int \<times> serial_device" where
  "n32g43x_getc s = (case receiver s of [] \<Rightarrow> (- 1, s) | w # ws \<Rightarrow> (uint w, s\<lparr>receiver := ws\<rparr>))"

subsection \<open>Reading and writing\<close>

text \<open>Polling: the bytes that are read; a line feed ends the loop.\<close>

fun serial_poll_rx :: "nat \<Rightarrow> serial_device \<Rightarrow> u8 list \<times> serial_device" where
  "serial_poll_rx 0 s = ([], s)"
| "serial_poll_rx (Suc n) s =
     (case n32g43x_getc s of (ch, s) \<Rightarrow>
        if ch = - 1 then ([], s)
        else if ch = 10 then ([of_int ch], s)
        else case serial_poll_rx n s of (bs, s) \<Rightarrow> (of_int ch # bs, s))"

fun serial_poll_tx :: "u8 list \<Rightarrow> serial_device \<Rightarrow> serial_device" where
  "serial_poll_tx [] s = s"
| "serial_poll_tx (b # bs) s =
     (let s = (if b = 10 \<and> open_flag s AND RT_DEVICE_FLAG_STREAM \<noteq> 0 then snd (n32g43x_putc 13 s) else s)
      in serial_poll_tx bs (snd (n32g43x_putc b s)))"

definition fifo_empty :: "rt_serial_rx_fifo \<Rightarrow> bool" where
  "fifo_empty f \<longleftrightarrow> get_index f = put_index f \<and> \<not> is_full f"

definition next_index :: "u16 \<Rightarrow> u16 \<Rightarrow> u16" where
  "next_index sz i = (if i + 1 \<ge> sz then 0 else i + 1)"

text \<open>One byte out of the buffer, with interrupts disabled.\<close>

definition fifo_get :: "u16 \<Rightarrow> rt_serial_rx_fifo \<Rightarrow> (u8 \<times> rt_serial_rx_fifo) option" where
  "fifo_get sz f =
     do { ch \<leftarrow> rd (fifo_buffer f) (unat (get_index f));
          Some (ch, f\<lparr>get_index := next_index sz (get_index f), is_full := False\<rparr>) }"

fun serial_int_rx :: "nat \<Rightarrow> serial_device \<Rightarrow> (u8 list \<times> serial_device) option" where
  "serial_int_rx 0 s = Some ([], s)"
| "serial_int_rx (Suc n) s =
     (if fifo_empty (rx_fifo s) then Some ([], s)
      else do { (ch, f) \<leftarrow> fifo_get (bufsz (config s)) (rx_fifo s);
                (bs, s) \<leftarrow> serial_int_rx n (s\<lparr>rx_fifo := f\<rparr>);
                Some (ch # bs, s) })"

text \<open>The driver's \<open>putc\<close> never asks to wait; waiting for the completion is not modelled.\<close>

fun serial_int_tx :: "u8 list \<Rightarrow> serial_device \<Rightarrow> serial_device option" where
  "serial_int_tx [] s = Some s"
| "serial_int_tx (b # bs) s = (case n32g43x_putc b s of (r, s) \<Rightarrow> if r = - 1 then None else serial_int_tx bs s)"

subsection \<open>The functions of the device\<close>

definition rt_serial_init :: "serial_device \<Rightarrow> (int \<times> serial_device) option" where
  "rt_serial_init s = Some (n32g43x_configure (config s) (s\<lparr>serial_rx := 0, serial_tx := 0\<rparr>))"

definition lacks :: "u16 \<Rightarrow> u16 \<Rightarrow> serial_device \<Rightarrow> bool" where
  "lacks f oflag s \<longleftrightarrow> oflag AND f \<noteq> 0 \<and> dev_flag s AND f = 0"

definition SIZEOF_RX_FIFO :: u32 where "SIZEOF_RX_FIFO = 12"
definition SIZEOF_TX_FIFO :: u32 where "SIZEOF_TX_FIFO = 12"

definition new_fifo :: "u16 \<Rightarrow> rt_serial_rx_fifo" where
  "new_fifo sz = \<lparr>fifo_buffer = replicate (unat sz) 0, put_index = 0, get_index = 0, is_full = False\<rparr>"

definition open_rx :: "u16 \<Rightarrow> serial_device \<Rightarrow> serial_device option" where
  "open_rx oflag s =
     (if serial_rx s = 0
      then (if oflag AND RT_DEVICE_FLAG_INT_RX \<noteq> 0
            then do { (p, h) \<leftarrow> rt_malloc (SIZEOF_RX_FIFO + ucast (bufsz (config s))) (serial_heap s);
                      RT_ASSERT (p \<noteq> 0);
                      let s = s\<lparr>serial_heap := h, rx_fifo := new_fifo (bufsz (config s)), serial_rx := p,
                                open_flag := open_flag s OR RT_DEVICE_FLAG_INT_RX\<rparr>;
                      Some (snd (n32g43x_control RT_DEVICE_CTRL_SET_INT s)) }
            else Some (s\<lparr>serial_rx := 0\<rparr>))
      else Some (if oflag AND RT_DEVICE_FLAG_INT_RX \<noteq> 0 then s\<lparr>open_flag := open_flag s OR RT_DEVICE_FLAG_INT_RX\<rparr> else s))"

definition open_tx :: "u16 \<Rightarrow> serial_device \<Rightarrow> serial_device option" where
  "open_tx oflag s =
     (if serial_tx s = 0
      then (if oflag AND RT_DEVICE_FLAG_INT_TX \<noteq> 0
            then do { (p, h) \<leftarrow> rt_malloc SIZEOF_TX_FIFO (serial_heap s);
                      RT_ASSERT (p \<noteq> 0);
                      let s = s\<lparr>serial_heap := h, tx_completed := False, serial_tx := p, open_flag := open_flag s OR RT_DEVICE_FLAG_INT_TX\<rparr>;
                      Some (snd (n32g43x_control RT_DEVICE_CTRL_SET_INT s)) }
            else Some (s\<lparr>serial_tx := 0\<rparr>))
      else Some (if oflag AND RT_DEVICE_FLAG_INT_TX \<noteq> 0 then s\<lparr>open_flag := open_flag s OR RT_DEVICE_FLAG_INT_TX\<rparr> else s))"

definition rt_serial_open :: "u16 \<Rightarrow> serial_device \<Rightarrow> (int \<times> serial_device) option" where
  "rt_serial_open oflag s =
     (if lacks RT_DEVICE_FLAG_DMA_RX oflag s \<or> lacks RT_DEVICE_FLAG_DMA_TX oflag s \<or> lacks RT_DEVICE_FLAG_INT_RX oflag s
         \<or> lacks RT_DEVICE_FLAG_INT_TX oflag s
      then Some (- RT_EIO, s)
      else
        let stream_flag = (if oflag AND RT_DEVICE_FLAG_STREAM \<noteq> 0 \<or> open_flag s AND RT_DEVICE_FLAG_STREAM \<noteq> 0 then RT_DEVICE_FLAG_STREAM else 0);
            s = s\<lparr>open_flag := oflag AND 0xff\<rparr>
        in do { s \<leftarrow> open_rx oflag s;
                s \<leftarrow> open_tx oflag s;
                Some (RT_EOK, s\<lparr>open_flag := open_flag s OR stream_flag\<rparr>) })"

definition close_rx :: "serial_device \<Rightarrow> serial_device option" where
  "close_rx s =
     (if open_flag s AND RT_DEVICE_FLAG_INT_RX \<noteq> 0
      then do { RT_ASSERT (serial_rx s \<noteq> 0);
                h \<leftarrow> rt_free (serial_rx s) (serial_heap s);
                Some (snd (n32g43x_control RT_DEVICE_CTRL_CLR_INT
                  (s\<lparr>serial_heap := h, serial_rx := 0, open_flag := open_flag s AND NOT RT_DEVICE_FLAG_INT_RX\<rparr>))) }
      else Some s)"

definition close_tx :: "serial_device \<Rightarrow> serial_device option" where
  "close_tx s =
     (if open_flag s AND RT_DEVICE_FLAG_INT_TX \<noteq> 0
      then do { RT_ASSERT (serial_tx s \<noteq> 0);
                h \<leftarrow> rt_free (serial_tx s) (serial_heap s);
                Some (snd (n32g43x_control RT_DEVICE_CTRL_CLR_INT
                  (s\<lparr>serial_heap := h, serial_tx := 0, open_flag := open_flag s AND NOT RT_DEVICE_FLAG_INT_TX\<rparr>))) }
      else Some s)"

definition rt_serial_close :: "serial_device \<Rightarrow> (int \<times> serial_device) option" where
  "rt_serial_close s =
     (if ref_count s > 1 then Some (RT_EOK, s)
      else do { s \<leftarrow> close_rx s; s \<leftarrow> close_tx s; Some (RT_EOK, s) })"

definition rt_serial_read :: "u8 list \<Rightarrow> u32 \<Rightarrow> serial_device \<Rightarrow> (u32 \<times> u8 list \<times> serial_device) option" where
  "rt_serial_read buffer sz s =
     (if sz = 0 then Some (0, buffer, s)
      else do {
        (bs, s) \<leftarrow> (if open_flag s AND RT_DEVICE_FLAG_INT_RX \<noteq> 0
                    then do { RT_ASSERT (serial_rx s \<noteq> 0); serial_int_rx (unat sz) s }
                    else Some (serial_poll_rx (unat sz) s));
        buffer \<leftarrow> memcpy_at buffer 0 bs;
        Some (of_nat (length bs), buffer, s) })"

definition rt_serial_write :: "u8 list \<Rightarrow> u32 \<Rightarrow> serial_device \<Rightarrow> (u32 \<times> serial_device) option" where
  "rt_serial_write buffer sz s =
     (if sz = 0 then Some (0, s)
      else if length buffer < unat sz then None
      else do {
        s \<leftarrow> (if open_flag s AND RT_DEVICE_FLAG_INT_TX \<noteq> 0
              then do { RT_ASSERT (serial_tx s \<noteq> 0); serial_int_tx (take (unat sz) buffer) s }
              else Some (serial_poll_tx (take (unat sz) buffer) s));
        Some (sz, s) })"

datatype serial_cmd = Ctrl_suspend | Ctrl_resume | Ctrl_config "serial_configure option" | Ctrl_other u32

definition rt_serial_control :: "serial_cmd \<Rightarrow> serial_device \<Rightarrow> (int \<times> serial_device) option" where
  "rt_serial_control cmd s =
     (case cmd of
        Ctrl_suspend \<Rightarrow> Some (RT_EOK, s\<lparr>dev_flag := dev_flag s OR RT_DEVICE_FLAG_SUSPENDED\<rparr>)
      | Ctrl_resume \<Rightarrow> Some (RT_EOK, s\<lparr>dev_flag := dev_flag s AND NOT RT_DEVICE_FLAG_SUSPENDED\<rparr>)
      | Ctrl_config None \<Rightarrow> Some (RT_EOK, s)
      | Ctrl_config (Some cfg) \<Rightarrow>
          if bufsz cfg \<noteq> bufsz (config s) \<and> ref_count s \<noteq> 0 then Some (RT_EBUSY, s)
          else
            let s = s\<lparr>config := cfg\<rparr>
            in Some (RT_EOK, if ref_count s \<noteq> 0 then snd (n32g43x_configure cfg s) else s)
      | Ctrl_other c \<Rightarrow> Some (n32g43x_control c s))"

definition serial_ops :: "(serial_device, serial_cmd) device_ops" where
  "serial_ops = \<lparr>op_init = Some rt_serial_init, op_open = Some rt_serial_open, op_close = Some rt_serial_close,
     op_read = Some rt_serial_read, op_write = Some rt_serial_write, op_control = Some rt_serial_control\<rparr>"

definition rt_hw_serial_register ::
  "u32 \<Rightarrow> string \<Rightarrow> u16 \<Rightarrow> serial_device \<times> container \<Rightarrow> (int \<times> serial_device \<times> container) option" where
  "rt_hw_serial_register p name flag = (\<lambda>(s, c).
     rt_device_register p name flag (s\<lparr>dev_class := Class_Char, rx_indicate := 0, tx_complete := 0\<rparr>, c))"

definition rt_hw_usart_init :: "u32 \<Rightarrow> serial_device \<times> container \<Rightarrow> (int \<times> serial_device \<times> container) option" where
  "rt_hw_usart_init serial1 = (\<lambda>(s, c). do {
     (_, s, c) \<leftarrow> rt_hw_serial_register serial1 ''usart1'' (RT_DEVICE_FLAG_RDWR OR RT_DEVICE_FLAG_INT_RX) (s\<lparr>config := RT_SERIAL_CONFIG_DEFAULT\<rparr>, c);
     Some (0, s, c) })"

subsection \<open>Interrupts\<close>

text \<open>
  One byte into the buffer, with interrupts disabled. When the buffer has filled up the oldest byte is given up, and the
  first time a warning is printed, which is one event.
\<close>

definition serial_check_buffer_size :: "serial_device \<Rightarrow> serial_device" where
  "serial_check_buffer_size s = (if already_output s then s else uart_call Buffer_warning (s\<lparr>already_output := True\<rparr>))"

definition fifo_put :: "u16 \<Rightarrow> u8 \<Rightarrow> rt_serial_rx_fifo \<Rightarrow> (bool \<times> rt_serial_rx_fifo) option" where
  "fifo_put sz ch f =
     do { b \<leftarrow> wr (fifo_buffer f) (unat (put_index f)) ch;
          let f = f\<lparr>fifo_buffer := b, put_index := next_index sz (put_index f)\<rparr>;
          Some (if put_index f = get_index f then (True, f\<lparr>get_index := next_index sz (get_index f), is_full := True\<rparr>) else (False, f)) }"

function rx_loop :: "serial_device \<Rightarrow> serial_device option" where
  "rx_loop s =
     (case n32g43x_getc s of (ch, s') \<Rightarrow>
        if ch = - 1 then Some s'
        else do { (lost, f) \<leftarrow> fifo_put (bufsz (config s')) (of_int ch) (rx_fifo s');
                  rx_loop (let s = s'\<lparr>rx_fifo := f\<rparr> in if lost then serial_check_buffer_size s else s) })"
  by pat_completeness auto

termination
  by (relation "measure (\<lambda>s. length (receiver s))")
    (auto simp: n32g43x_getc_def serial_check_buffer_size_def uart_call_def Let_def split: list.splits if_splits)

declare rx_loop.simps [simp del]

definition rx_length :: "serial_device \<Rightarrow> u32" where
  "rx_length s =
     (let f = rx_fifo s
      in if put_index f \<ge> get_index f then ucast (put_index f) - ucast (get_index f)
         else ucast (bufsz (config s)) - (ucast (get_index f) - ucast (put_index f)))"

definition rt_hw_serial_isr :: "u32 \<Rightarrow> serial_device \<Rightarrow> serial_device option" where
  "rt_hw_serial_isr event s =
     (if event AND 0xff = 1
      then do { RT_ASSERT (serial_rx s \<noteq> 0);
                s \<leftarrow> rx_loop s;
                Some (if rx_indicate s \<noteq> 0 \<and> rx_length s \<noteq> 0 then uart_call (Rx_indicate (rx_indicate s) (rx_length s)) s else s) }
      else if event AND 0xff = 2
      then (if serial_tx s = 0 then None else Some (s\<lparr>tx_completed := True\<rparr>))
      else Some s)"

text \<open>The interrupt of the USART, with the flags of the receiver and of the transmitter that are enabled and set.\<close>

definition USART1_IRQHandler :: "bool \<Rightarrow> bool \<Rightarrow> serial_device \<Rightarrow> serial_device option" where
  "USART1_IRQHandler rxdne txde s =
     do { let s = uart_call Interrupt_entered s;
          s \<leftarrow> (if rxdne then rt_hw_serial_isr 1 s else Some s);
          s \<leftarrow> (if txde then rt_hw_serial_isr 2 s else Some s);
          Some (uart_call Interrupt_left s) }"

subsection \<open>The console\<close>

text \<open>
  The console of the board is the serial device or none; \<open>rt_kputs\<close> and the end of \<open>rt_kprintf\<close>, which sends the
  formatted text, at most the size of its buffer less one.
\<close>

definition RT_CONSOLEBUF_SIZE :: nat where "RT_CONSOLEBUF_SIZE = 128"

definition rt_console_set_device :: "string \<Rightarrow> u32 \<Rightarrow> container \<Rightarrow> u32 \<times> serial_device \<Rightarrow> (u32 \<times> u32 \<times> serial_device) option" where
  "rt_console_set_device name serial1 c = (\<lambda>(console, s).
     let new_device = rt_device_find name c
     in if new_device = 0 then Some (console, console, s)
        else if new_device \<noteq> serial1 \<or> console \<noteq> 0 \<and> console \<noteq> serial1 then None
        else do {
          (_, s) \<leftarrow> (if console \<noteq> 0 then rt_device_close serial_ops s else Some (0, s));
          (_, s) \<leftarrow> rt_device_open serial_ops (RT_DEVICE_OFLAG_RDWR OR RT_DEVICE_FLAG_STREAM) s;
          Some (console, new_device, s) })"

definition console_write :: "u8 list \<Rightarrow> u32 \<Rightarrow> u32 \<Rightarrow> serial_device \<Rightarrow> serial_device option" where
  "console_write text sz console s =
     (if console = 0 then Some s
      else
        let old_flag = open_flag s
        in do { (_, s) \<leftarrow> rt_device_write serial_ops text sz (s\<lparr>open_flag := open_flag s OR RT_DEVICE_FLAG_STREAM\<rparr>);
                Some (s\<lparr>open_flag := old_flag\<rparr>) })"

definition rt_kputs :: "u8 list \<Rightarrow> u32 \<Rightarrow> serial_device \<Rightarrow> serial_device option" where
  "rt_kputs str console s = (let text = takeWhile (\<lambda>b. b \<noteq> 0) str in console_write text (of_nat (length text)) console s)"

end
