(* ===== verification/SerialFifo.thy ===== *)
theory SerialFifo imports Serial "HOL-Library.Sublist" begin

text \<open>
  The receive buffer of the serial device as a queue that gives up its oldest bytes: the contract \<open>lossy_queue\<close> of
  such a queue with its clients, and its interpretation on the buffer.
\<close>

subsection \<open>The last elements of a list\<close>

definition lastn :: "nat \<Rightarrow> 'a list \<Rightarrow> 'a list" where "lastn m xs = drop (length xs - m) xs"

lemma lastn_all [simp]: "length xs \<le> m \<Longrightarrow> lastn m xs = xs"
  by (simp add: lastn_def)

lemma length_lastn [simp]: "length (lastn m xs) = min m (length xs)"
  by (simp add: lastn_def min_def)

lemma lastn_append: "lastn m (lastn m xs @ ys) = lastn m (xs @ ys)"
  by (cases "m \<le> length xs") (simp_all add: lastn_def add.commute)

lemma subseq_lastn: "subseq (lastn m xs) xs"
  unfolding lastn_def by (rule suffix_imp_subseq) (rule suffix_drop)

subsection \<open>Queues that lose their oldest elements\<close>

fun take_upto :: "('q \<Rightarrow> bool) \<Rightarrow> ('q \<Rightarrow> ('a \<times> 'q) option) \<Rightarrow> nat \<Rightarrow> 'q \<Rightarrow> ('a list \<times> 'q) option" where
  "take_upto is_empty get 0 q = Some ([], q)"
| "take_upto is_empty get (Suc n) q =
     (if is_empty q then Some ([], q) else do { (x, q) \<leftarrow> get q; (xs, q) \<leftarrow> take_upto is_empty get n q; Some (x # xs, q) })"

datatype 'a queue_event = Feed "'a list" | Take nat

fun run_queue :: "('a \<Rightarrow> 'q \<Rightarrow> 'q option) \<Rightarrow> (nat \<Rightarrow> 'q \<Rightarrow> ('a list \<times> 'q) option) \<Rightarrow> 'a queue_event list \<Rightarrow> 'q \<Rightarrow> ('a list \<times> 'q) option" where
  "run_queue put takes [] q = Some ([], q)"
| "run_queue put takes (Feed ws # es) q = do { q \<leftarrow> for_each put ws q; run_queue put takes es q }"
| "run_queue put takes (Take n # es) q = do { (xs, q) \<leftarrow> takes n q; (ys, q) \<leftarrow> run_queue put takes es q; Some (xs @ ys, q) }"

fun fed :: "'a queue_event list \<Rightarrow> 'a list" where
  "fed [] = []"
| "fed (Feed ws # es) = ws @ fed es"
| "fed (Take n # es) = fed es"

text \<open>Whether the queue never has to give up an element, from a number of elements on.\<close>

fun keeps_all :: "nat \<Rightarrow> nat \<Rightarrow> 'a queue_event list \<Rightarrow> bool" where
  "keeps_all cap n [] = True"
| "keeps_all cap n (Feed ws # es) = (n + length ws \<le> cap \<and> keeps_all cap (n + length ws) es)"
| "keeps_all cap n (Take k # es) = keeps_all cap (n - k) es"

locale lossy_queue =
  fixes put :: "'a \<Rightarrow> 'q \<Rightarrow> 'q option" and get :: "'q \<Rightarrow> ('a \<times> 'q) option" and is_empty :: "'q \<Rightarrow> bool"
    and holds :: "'q \<Rightarrow> 'a list \<Rightarrow> bool" and cap :: nat
  assumes put_law: "holds q xs \<Longrightarrow> \<exists>q'. put x q = Some q' \<and> holds q' (lastn cap (xs @ [x]))"
    and get_law: "holds q (x # xs) \<Longrightarrow> \<exists>q'. get q = Some (x, q') \<and> holds q' xs"
    and empty_law: "holds q xs \<Longrightarrow> is_empty q \<longleftrightarrow> xs = []"
    and cap_law: "holds q xs \<Longrightarrow> length xs \<le> cap"
begin

lemma feed: "holds q xs \<Longrightarrow> \<exists>q'. for_each put ws q = Some q' \<and> holds q' (lastn cap (xs @ ws))"
proof (induction ws arbitrary: q xs)
  case Nil
  then show ?case using cap_law [of q xs] by simp
next
  case (Cons w ws)
  from put_law [OF Cons.prems, of w] obtain q1 where q1: "put w q = Some q1" "holds q1 (lastn cap (xs @ [w]))" by blast
  from Cons.IH [OF q1(2)] q1(1) show ?case by (auto simp: lastn_append)
qed

lemma takes: "holds q xs \<Longrightarrow> \<exists>q'. take_upto is_empty get n q = Some (take n xs, q') \<and> holds q' (drop n xs)"
proof (induction n arbitrary: q xs)
  case (Suc n)
  show ?case
  proof (cases xs)
    case Nil
    with Suc.prems empty_law [of q xs] show ?thesis by auto
  next
    case (Cons y ys)
    with Suc.prems get_law [of q y ys] obtain q1 where q1: "get q = Some (y, q1)" "holds q1 ys" by blast
    from Suc.IH [OF q1(2)] q1(1) empty_law [OF Suc.prems] Cons show ?thesis by auto
  qed
qed simp

text \<open>What is taken is a subsequence of what was fed, and all of it when the queue never fills up.\<close>

lemma stream:
  "holds q xs \<Longrightarrow> \<exists>out q' ys. run_queue put (take_upto is_empty get) es q = Some (out, q') \<and> holds q' ys
    \<and> subseq (out @ ys) (xs @ fed es) \<and> (keeps_all cap (length xs) es \<longrightarrow> out @ ys = xs @ fed es)"
proof (induction es arbitrary: q xs)
  case (Cons e es)
  show ?case
  proof (cases e)
    case (Feed ws)
    from feed [OF Cons.prems, of ws] obtain q1 where q1: "for_each put ws q = Some q1" "holds q1 (lastn cap (xs @ ws))" by blast
    from Cons.IH [OF q1(2)] obtain out q' ys where r: "run_queue put (take_upto is_empty get) es q1 = Some (out, q')" "holds q' ys"
      "subseq (out @ ys) (lastn cap (xs @ ws) @ fed es)"
      "keeps_all cap (length (lastn cap (xs @ ws))) es \<longrightarrow> out @ ys = lastn cap (xs @ ws) @ fed es" by blast
    have "subseq (lastn cap (xs @ ws) @ fed es) (xs @ ws @ fed es)"
      using list_emb_append_mono [OF subseq_lastn [of cap "xs @ ws"], of "fed es" "fed es"] by simp
    with r(3) have "subseq (out @ ys) (xs @ fed (e # es))" using subseq_order.trans by (auto simp: Feed)
    with r q1(1) show ?thesis by (auto simp: Feed)
  next
    case (Take n)
    from takes [OF Cons.prems, of n] obtain q1 where q1: "take_upto is_empty get n q = Some (take n xs, q1)" "holds q1 (drop n xs)" by blast
    from Cons.IH [OF q1(2)] obtain out q' ys where r: "run_queue put (take_upto is_empty get) es q1 = Some (out, q')" "holds q' ys"
      "subseq (out @ ys) (drop n xs @ fed es)" "keeps_all cap (length xs - n) es \<longrightarrow> out @ ys = drop n xs @ fed es" by auto
    have x: "take n xs @ drop n xs @ fed es = xs @ fed (e # es)" by (simp add: Take)
    have "subseq (take n xs @ out @ ys) (take n xs @ drop n xs @ fed es)" using r(3) by (simp only: subseq_append')
    then have "subseq ((take n xs @ out) @ ys) (xs @ fed (e # es))" by (simp only: x append_assoc)
    moreover have "keeps_all cap (length xs) (e # es) \<longrightarrow> (take n xs @ out) @ ys = xs @ fed (e # es)"
      using r(4) by (simp add: Take flip: x)
    ultimately
    show ?thesis using r(1,2) q1(1) by (auto simp: Take)
  qed
qed simp

end

subsection \<open>The receive buffer\<close>

text \<open>The buffer holds a sequence of bytes, shorter than its size, from the index of the reader on.\<close>

definition fifo_holds :: "u16 \<Rightarrow> rt_serial_rx_fifo \<Rightarrow> u8 list \<Rightarrow> bool" where
  "fifo_holds sz f xs \<longleftrightarrow> 2 \<le> unat sz \<and> length (fifo_buffer f) = unat sz \<and> unat (get_index f) < unat sz \<and> length xs < unat sz
     \<and> unat (put_index f) = (unat (get_index f) + length xs) mod unat sz
     \<and> (\<forall>k < length xs. fifo_buffer f ! ((unat (get_index f) + k) mod unat sz) = xs ! k) \<and> (is_full f \<longrightarrow> xs \<noteq> [])"

lemma unat_next_index: "unat i < unat sz \<Longrightarrow> unat (next_index sz i) = (unat i + 1) mod unat sz"
proof -
  assume i: "unat i < unat sz"
  have "unat sz < 2 ^ 16" using unsigned_less [of sz] by simp
  with i have u: "unat (i + 1) = unat i + 1" by (simp add: unat_word_ariths(1))
  show ?thesis
  proof (cases "unat i + 1 = unat sz")
    case False
    with i u have "unat i + 1 < unat sz" by simp
    with u show ?thesis by (simp add: next_index_def word_le_nat_alt)
  qed (use u in \<open>simp add: next_index_def word_le_nat_alt\<close>)
qed

lemma mod_inj: "g < (n :: nat) \<Longrightarrow> j < n \<Longrightarrow> k < n \<Longrightarrow> (g + j) mod n = (g + k) mod n \<longleftrightarrow> j = k"
  by (cases "g + j < n"; cases "g + k < n") (auto simp: mod_if)

lemma empty_holds: "fifo_holds sz f xs \<Longrightarrow> fifo_empty f \<longleftrightarrow> xs = []"
  using mod_inj [of "unat (get_index f)" "unat sz" 0 "length xs"]
  by (auto simp: fifo_holds_def fifo_empty_def word_unat_eq_iff)

lemma get_holds: "fifo_holds sz f (x # xs) \<Longrightarrow> \<exists>f'. fifo_get sz f = Some (x, f') \<and> fifo_holds sz f' xs"
proof -
  assume h: "fifo_holds sz f (x # xs)"
  define g n where "g = unat (get_index f)" and "n = unat sz"
  from h have f: "2 \<le> n" "length (fifo_buffer f) = n" "g < n" "Suc (length xs) < n" "unat (put_index f) = (g + Suc (length xs)) mod n"
    "\<forall>k < Suc (length xs). fifo_buffer f ! ((g + k) mod n) = (x # xs) ! k" by (simp_all add: fifo_holds_def g_def n_def)
  have x: "fifo_buffer f ! g = x" using f(3) f(6) [rule_format, of 0] by simp
  have g': "unat (next_index sz (get_index f)) = (g + 1) mod n" using unat_next_index [of "get_index f" sz] f(3) by (simp add: g_def n_def)
  have s: "(Suc g mod n + k) mod n = Suc (g + k) mod n" for k using mod_add_left_eq [of "Suc g" n k] by simp
  have "fifo_buffer f ! ((g + Suc k) mod n) = xs ! k" if "k < length xs" for k using f(6) that by auto
  then have "fifo_holds sz (f\<lparr>get_index := next_index sz (get_index f), is_full := False\<rparr>) xs"
    using f(1-5) by (simp add: fifo_holds_def g' s flip: n_def)
  with x f(2,3) show ?thesis by (simp add: fifo_get_def rd_Some g_def)
qed

lemma put_holds:
  assumes "fifo_holds sz f xs"
  shows "\<exists>lost f'. fifo_put sz ch f = Some (lost, f') \<and> fifo_holds sz f' (lastn (unat sz - 1) (xs @ [ch]))"
proof -
  define g n p where "g = unat (get_index f)" and "n = unat sz" and "p = unat (put_index f)"
  define b where "b = (fifo_buffer f)[p := ch]"
  from assms have f: "2 \<le> n" "length (fifo_buffer f) = n" "g < n" "length xs < n" "p = (g + length xs) mod n"
    "\<forall>k < length xs. fifo_buffer f ! ((g + k) mod n) = xs ! k" by (simp_all add: fifo_holds_def g_def n_def p_def)
  have p: "p < n" using f(1,5) by simp
  have b: "b ! ((g + k) mod n) = (xs @ [ch]) ! k" if "k \<le> length xs" for k
  proof (cases "k = length xs")
    case False
    with that f have "(g + k) mod n \<noteq> p" by (simp add: mod_inj)
    with that False f(6) show ?thesis by (simp add: b_def nth_append)
  qed (use f p in \<open>simp add: b_def\<close>)
  have p': "unat (next_index sz (put_index f)) = (g + Suc (length xs)) mod n"
    using unat_next_index [of "put_index f" sz] p mod_add_left_eq [of "g + length xs" n 1] by (simp add: f(5) flip: n_def p_def)
  have g': "unat (next_index sz (get_index f)) = Suc g mod n"
    using unat_next_index [of "get_index f" sz] f(3) by (simp flip: n_def g_def)
  have put: "fifo_put sz ch f = Some (let f = f\<lparr>fifo_buffer := b, put_index := next_index sz (put_index f)\<rparr>
      in if put_index f = get_index f then (True, f\<lparr>get_index := next_index sz (get_index f), is_full := True\<rparr>) else (False, f))"
    using p f(2) by (simp add: fifo_put_def wr_Some b_def p_def Let_def)
  have lb: "length b = n" by (simp add: b_def f(2))
  show ?thesis
  proof (cases "Suc (length xs) = n")
    case True
    then have eq: "next_index sz (put_index f) = get_index f" using p' f(3) by (simp add: word_unat_eq_iff g_def)
    define ys where "ys = drop 1 (xs @ [ch])"
    have ys: "lastn (n - 1) (xs @ [ch]) = ys" "length ys = length xs" "ys \<noteq> []" using True f(1) by (auto simp: lastn_def ys_def simp flip: True)
    have "b ! ((Suc g mod n + k) mod n) = ys ! k" if "k < length xs" for k
      using b [of "Suc k"] that mod_add_left_eq [of "Suc g" n k] by (simp add: nth_drop ys_def del: drop_append)
    moreover have e: "Suc g + length xs = g + n" using True by simp
    have "g = (Suc g mod n + length xs) mod n"
      unfolding mod_add_left_eq e using f(3) by simp
    ultimately have "fifo_holds sz (f\<lparr>fifo_buffer := b, put_index := get_index f, get_index := next_index sz (get_index f), is_full := True\<rparr>) ys"
      using f(1,3,4) lb ys(2,3) by (simp add: fifo_holds_def g' flip: n_def g_def)
    then show ?thesis unfolding n_def [symmetric] put ys(1) by (simp add: eq ex_bool_eq)
  next
    case False
    with f(4) have l: "Suc (length xs) < n" by simp
    then have "(g + Suc (length xs)) mod n \<noteq> g" using mod_inj [of g n "Suc (length xs)" 0] f(3) by simp
    then have ne: "next_index sz (put_index f) \<noteq> get_index f" using p' by (auto simp: g_def)
    have "fifo_holds sz (f\<lparr>fifo_buffer := b, put_index := next_index sz (put_index f)\<rparr>) (xs @ [ch])"
      using f(1,3) l b lb p' by (simp add: fifo_holds_def flip: n_def g_def)
    then show ?thesis using l unfolding n_def [symmetric] put by (simp add: ne Let_def ex_bool_eq)
  qed
qed

definition byte_put :: "u16 \<Rightarrow> u8 \<Rightarrow> rt_serial_rx_fifo \<Rightarrow> rt_serial_rx_fifo option" where
  "byte_put sz ch f = map_option snd (fifo_put sz ch f)"

interpretation rx: lossy_queue "byte_put sz" "fifo_get sz" fifo_empty "fifo_holds sz" "unat sz - 1" for sz
proof unfold_locales
  fix q xs and x :: u8
  assume h: "fifo_holds sz q xs"
  from put_holds [OF h, of x] show "\<exists>q'. byte_put sz x q = Some q' \<and> fifo_holds sz q' (lastn (unat sz - 1) (xs @ [x]))"
    by (auto simp: byte_put_def)
  from h show "fifo_empty q \<longleftrightarrow> xs = []" by (rule empty_holds)
  from h show "length xs \<le> unat sz - 1" by (auto simp: fifo_holds_def)
next
  fix q xs and x :: u8
  assume "fifo_holds sz q (x # xs)"
  then show "\<exists>q'. fifo_get sz q = Some (x, q') \<and> fifo_holds sz q' xs" by (rule get_holds)
qed

lemma new_fifo_holds: "2 \<le> unat sz \<Longrightarrow> fifo_holds sz (new_fifo sz) []"
  by (simp add: fifo_holds_def new_fifo_def)

end
