(* ===== verification/SerialProps.thy ===== *)
theory SerialProps imports SerialFifo MemProps begin

text \<open>
  The serial device: what arrives and what is read, opening and closing, the mode that a second open changes, and
  the console.
\<close>

subsection \<open>Receiving and reading\<close>

text \<open>Words arrive on the line and raise the interrupt; a reader asks for a number of bytes.\<close>

datatype serial_event = Line "u16 list" | Read_bytes u32

fun run_serial :: "serial_event list \<Rightarrow> serial_device \<Rightarrow> (u8 list \<times> serial_device) option" where
  "run_serial [] s = Some ([], s)"
| "run_serial (Line ws # es) s =
     do { s \<leftarrow> USART1_IRQHandler True False (s\<lparr>receiver := ws\<rparr>); run_serial es s }"
| "run_serial (Read_bytes n # es) s =
     do { (k, buf, s) \<leftarrow> rt_device_read serial_ops (replicate (unat n) 0) n s;
          (out, s) \<leftarrow> run_serial es s;
          Some (take (unat k) buf @ out, s) }"

fun queue_event :: "serial_event \<Rightarrow> u8 queue_event" where
  "queue_event (Line ws) = Feed (map ucast ws)"
| "queue_event (Read_bytes n) = Take (unat n)"

definition received :: "serial_event list \<Rightarrow> u8 list" where
  "received es = fed (map queue_event es)"

text \<open>The device is open in interrupt mode.\<close>

definition receiving :: "serial_device \<Rightarrow> bool" where
  "receiving s \<longleftrightarrow> device_type_ok s \<and> ref_count s \<noteq> 0 \<and> open_flag s AND RT_DEVICE_FLAG_INT_RX \<noteq> 0 \<and> serial_rx s \<noteq> 0"

lemma receiving_upd [simp]:
  "receiving (s\<lparr>rx_fifo := f\<rparr>) = receiving s" "receiving (s\<lparr>receiver := ws\<rparr>) = receiving s" "receiving (s\<lparr>already_output := a\<rparr>) = receiving s"
  "receiving (s\<lparr>uart_calls := cs\<rparr>) = receiving s"
  by (simp_all add: receiving_def device_type_ok_def)

lemma of_int_uint: "(of_int (uint w) :: u8) = ucast w" for w :: u16
  by (rule bit_word_eqI) (simp add: bit_simps)

lemma uint_not_neg: "uint w \<noteq> - 1"
  using uint_ge_0 [of w] by linarith

lemma rx_loop_puts:
  "for_each (byte_put (bufsz (config s))) (map ucast (receiver s)) (rx_fifo s) = Some f \<Longrightarrow>
    \<exists>a cs. rx_loop s = Some (s\<lparr>rx_fifo := f, receiver := [], already_output := a, uart_calls := cs\<rparr>)"
proof (induction "receiver s" arbitrary: s)
  case Nil
  then show ?case
    by (intro exI [of _ "already_output s"] exI [of _ "uart_calls s"]) (simp add: rx_loop.simps [of s] n32g43x_getc_def flip: Nil(1))
next
  case (Cons w ws)
  let ?s = "s\<lparr>receiver := ws\<rparr>"
  from Cons.prems obtain g where g: "byte_put (bufsz (config s)) (ucast w) (rx_fifo s) = Some g"
    "for_each (byte_put (bufsz (config s))) (map ucast ws) g = Some f" by (auto simp flip: Cons.hyps(2) split: bind_splits)
  then obtain lost where l: "fifo_put (bufsz (config s)) (ucast w) (rx_fifo s) = Some (lost, g)" by (auto simp: byte_put_def)
  let ?t = "if lost then serial_check_buffer_size (?s\<lparr>rx_fifo := g\<rparr>) else ?s\<lparr>rx_fifo := g\<rparr>"
  have t: "receiver ?t = ws" "config ?t = config s" "rx_fifo ?t = g"
    by (simp_all add: serial_check_buffer_size_def uart_call_def)
  have "\<exists>a cs. rx_loop ?t = Some (?t\<lparr>rx_fifo := f, receiver := [], already_output := a, uart_calls := cs\<rparr>)"
    using Cons.hyps(1) [of ?t] g(2) t by simp
  then have "\<exists>a cs. rx_loop ?t = Some (s\<lparr>rx_fifo := f, receiver := [], already_output := a, uart_calls := cs\<rparr>)"
    by (auto simp: serial_check_buffer_size_def uart_call_def split: if_splits)
  moreover have "rx_loop s = rx_loop ?t"
    using l by (simp add: rx_loop.simps [of s] n32g43x_getc_def of_int_uint uint_not_neg Let_def flip: Cons.hyps(2))
  ultimately show ?case by simp
qed

lemma int_rx_takes:
  "take_upto fifo_empty (fifo_get (bufsz (config s))) n (rx_fifo s) = Some (bs, f) \<Longrightarrow>
    serial_int_rx n s = Some (bs, s\<lparr>rx_fifo := f\<rparr>) \<and> length bs \<le> n"
proof (induction n arbitrary: s bs)
  case (Suc n)
  show ?case
  proof (cases "fifo_empty (rx_fifo s)")
    case False
    with Suc.prems obtain b g cs where g: "fifo_get (bufsz (config s)) (rx_fifo s) = Some (b, g)"
      "take_upto fifo_empty (fifo_get (bufsz (config s))) n g = Some (cs, f)" "bs = b # cs"
      by (auto split: bind_splits)
    from Suc.IH [of "s\<lparr>rx_fifo := g\<rparr>" cs] g False show ?thesis by simp
  qed (use Suc.prems in simp)
qed simp

lemma irq_receives:
  assumes "receiving s" and "for_each (byte_put (bufsz (config s))) (map ucast ws) (rx_fifo s) = Some f"
  shows "\<exists>s'. USART1_IRQHandler True False (s\<lparr>receiver := ws\<rparr>) = Some s' \<and> receiving s' \<and> rx_fifo s' = f \<and> config s' = config s"
proof -
  let ?s = "uart_call Interrupt_entered (s\<lparr>receiver := ws\<rparr>)"
  obtain a cs where r: "rx_loop ?s = Some (?s\<lparr>rx_fifo := f, receiver := [], already_output := a, uart_calls := cs\<rparr>)"
    using rx_loop_puts [of ?s f] assms(2) by (auto simp: uart_call_def)
  have "serial_rx ?s \<noteq> 0" using assms(1) by (simp add: receiving_def uart_call_def)
  with r assms(1) show ?thesis by (simp add: USART1_IRQHandler_def rt_hw_serial_isr_def RT_ASSERT_def uart_call_def Let_def)
qed

lemma read_takes:
  assumes "receiving s" and "take_upto fifo_empty (fifo_get (bufsz (config s))) (unat n) (rx_fifo s) = Some (bs, f)"
  shows "\<exists>buf k. rt_device_read serial_ops (replicate (unat n) 0) n s = Some (k, buf, s\<lparr>rx_fifo := f\<rparr>) \<and> take (unat k) buf = bs"
proof (cases "n = 0")
  case True
  with assms show ?thesis
    by (auto simp: rt_device_read_def serial_ops_def rt_serial_read_def RT_ASSERT_def receiving_def)
next
  case False
  from int_rx_takes [OF assms(2)] have i: "serial_int_rx (unat n) s = Some (bs, s\<lparr>rx_fifo := f\<rparr>)" "length bs \<le> unat n" by simp_all
  have "unat n < 2 ^ 32" using unsigned_less [of n] by simp
  with i(2) have "length bs < 2 ^ 32" by linarith
  then have "unat (of_nat (length bs) :: u32) = length bs" by (simp add: unsigned_of_nat take_bit_nat_eq_self)
  with i assms(1) False show ?thesis
    by (simp add: rt_device_read_def serial_ops_def rt_serial_read_def RT_ASSERT_def receiving_def memcpy_at_Some)
qed

lemma run_serial_queue:
  "receiving s \<Longrightarrow>
    run_queue (byte_put (bufsz (config s))) (take_upto fifo_empty (fifo_get (bufsz (config s)))) (map queue_event es) (rx_fifo s) = Some (out, f) \<Longrightarrow>
    \<exists>s'. run_serial es s = Some (out, s') \<and> receiving s' \<and> rx_fifo s' = f \<and> config s' = config s"
proof (induction es arbitrary: s out)
  case (Cons e es)
  show ?case
  proof (cases e)
    case (Line ws)
    from Cons.prems(2) obtain g where g: "for_each (byte_put (bufsz (config s))) (map ucast ws) (rx_fifo s) = Some g"
      "run_queue (byte_put (bufsz (config s))) (take_upto fifo_empty (fifo_get (bufsz (config s)))) (map queue_event es) g = Some (out, f)"
      by (auto simp: Line split: bind_splits)
    from irq_receives [OF Cons.prems(1) g(1)] obtain t where t: "USART1_IRQHandler True False (s\<lparr>receiver := ws\<rparr>) = Some t" "receiving t"
      "rx_fifo t = g" "config t = config s" by blast
    from Cons.IH [OF t(2), of out] t g(2) show ?thesis by (auto simp: Line)
  next
    case (Read_bytes n)
    from Cons.prems(2) obtain bs g cs where g: "take_upto fifo_empty (fifo_get (bufsz (config s))) (unat n) (rx_fifo s) = Some (bs, g)"
      "run_queue (byte_put (bufsz (config s))) (take_upto fifo_empty (fifo_get (bufsz (config s)))) (map queue_event es) g = Some (cs, f)" "out = bs @ cs"
      by (auto simp: Read_bytes split: bind_splits)
    from read_takes [OF Cons.prems(1) g(1)] obtain buf k where
      r: "rt_device_read serial_ops (replicate (unat n) 0) n s = Some (k, buf, s\<lparr>rx_fifo := g\<rparr>)" "take (unat k) buf = bs" by blast
    from Cons.IH [of "s\<lparr>rx_fifo := g\<rparr>" cs] Cons.prems(1) r g(2,3) show ?thesis by (auto simp: Read_bytes)
  qed
qed simp

text \<open>
  C35: A device that is open in interrupt mode is a queue between the line and its readers that holds one byte less than
  the size of its buffer: for any sequence of interrupts, each with any words from the receiver, and of reads, no
  access is outside the buffer, what has been read followed by what is still in the buffer is a subsequence of what was received, in
  the order of reception, and it is all of it as long as there is room for every byte when it arrives.
\<close>

theorem serial_receive_stream:
  assumes "receiving s" and "fifo_holds (bufsz (config s)) (rx_fifo s) []"
  shows "\<exists>out s' rest. run_serial es s = Some (out, s') \<and> fifo_holds (bufsz (config s)) (rx_fifo s') rest
    \<and> subseq (out @ rest) (received es)
    \<and> (keeps_all (unat (bufsz (config s)) - 1) 0 (map queue_event es) \<longrightarrow> out @ rest = received es)"
proof -
  from rx.stream [OF assms(2), of "map queue_event es"] obtain out f rest where q:
    "run_queue (byte_put (bufsz (config s))) (take_upto fifo_empty (fifo_get (bufsz (config s)))) (map queue_event es) (rx_fifo s) = Some (out, f)"
    "fifo_holds (bufsz (config s)) f rest" "subseq (out @ rest) (received es)"
    "keeps_all (unat (bufsz (config s)) - 1) 0 (map queue_event es) \<longrightarrow> out @ rest = received es" by (auto simp: received_def)
  from run_serial_queue [OF assms(1) q(1)] q show ?thesis by blast
qed

subsection \<open>Flags\<close>

lemma flag_bits:
  "w AND RT_DEVICE_FLAG_INT_RX = 0 \<longleftrightarrow> \<not> bit w 8" "w AND RT_DEVICE_FLAG_DMA_RX = 0 \<longleftrightarrow> \<not> bit w 9"
  "w AND RT_DEVICE_FLAG_INT_TX = 0 \<longleftrightarrow> \<not> bit w 10" "w AND RT_DEVICE_FLAG_DMA_TX = 0 \<longleftrightarrow> \<not> bit w 11"
  "w AND RT_DEVICE_FLAG_STREAM = 0 \<longleftrightarrow> \<not> bit w 6" "w AND RT_DEVICE_FLAG_STANDALONE = 0 \<longleftrightarrow> \<not> bit w 3"
  "w AND RT_DEVICE_FLAG_ACTIVATED = 0 \<longleftrightarrow> \<not> bit w 4" "w AND RT_DEVICE_OFLAG_OPEN = 0 \<longleftrightarrow> \<not> bit w 3"
  using and_exp_eq_0_iff_not_bit [of w 8] and_exp_eq_0_iff_not_bit [of w 9] and_exp_eq_0_iff_not_bit [of w 10]
    and_exp_eq_0_iff_not_bit [of w 11] and_exp_eq_0_iff_not_bit [of w 6] and_exp_eq_0_iff_not_bit [of w 3] and_exp_eq_0_iff_not_bit [of w 4]
  by (simp_all add: RT_DEVICE_FLAG_INT_RX_def RT_DEVICE_FLAG_DMA_RX_def RT_DEVICE_FLAG_INT_TX_def RT_DEVICE_FLAG_DMA_TX_def
      RT_DEVICE_FLAG_STREAM_def RT_DEVICE_FLAG_STANDALONE_def RT_DEVICE_FLAG_ACTIVATED_def RT_DEVICE_OFLAG_OPEN_def)

lemma open_flag_masks:
  "bit RT_DEVICE_FLAG_INT_RX n \<longleftrightarrow> n = 8" "bit RT_DEVICE_FLAG_ACTIVATED n \<longleftrightarrow> n = 4" "bit RT_DEVICE_FLAG_STREAM n \<longleftrightarrow> n = 6"
  "bit RT_DEVICE_OFLAG_OPEN n \<longleftrightarrow> n = 3" "bit (0xff :: u16) n \<longleftrightarrow> n < 8"
proof -
  have "bit (2 ^ k :: u16) n \<longleftrightarrow> n = k" if "k < 16" for k using that by (auto simp: bit_exp_iff)
  from this [of 8] this [of 4] this [of 6] this [of 3]
  show "bit RT_DEVICE_FLAG_INT_RX n \<longleftrightarrow> n = 8" "bit RT_DEVICE_FLAG_ACTIVATED n \<longleftrightarrow> n = 4" "bit RT_DEVICE_FLAG_STREAM n \<longleftrightarrow> n = 6"
    "bit RT_DEVICE_OFLAG_OPEN n \<longleftrightarrow> n = 3"
    by (simp_all add: RT_DEVICE_FLAG_INT_RX_def RT_DEVICE_FLAG_ACTIVATED_def RT_DEVICE_FLAG_STREAM_def RT_DEVICE_OFLAG_OPEN_def)
  show "bit (0xff :: u16) n \<longleftrightarrow> n < 8"
    using bit_mask_iff [where 'a = u16, of 8 n] by (auto simp: mask_eq_exp_minus_1)
qed

lemmas flags = flag_bits open_flag_masks bit_or_iff bit_and_iff bit_not_iff bit_0_eq

text \<open>Flags that ask for the interrupt mode, and flags that ask for polling.\<close>

definition rx_mode :: "u16 \<Rightarrow> bool" where "rx_mode oflag \<longleftrightarrow> oflag AND 0xF00 = RT_DEVICE_FLAG_INT_RX"

definition poll_mode :: "u16 \<Rightarrow> bool" where "poll_mode oflag \<longleftrightarrow> oflag AND 0xF00 = 0"

lemma mode_bits:
  "rx_mode oflag \<Longrightarrow> bit oflag 8 \<and> \<not> bit oflag 9 \<and> \<not> bit oflag 10 \<and> \<not> bit oflag 11"
  "poll_mode oflag \<Longrightarrow> \<not> bit oflag 8 \<and> \<not> bit oflag 9 \<and> \<not> bit oflag 10 \<and> \<not> bit oflag 11"
proof -
  have m: "bit (0xF00 :: u16) 8" "bit (0xF00 :: u16) 9" "bit (0xF00 :: u16) 10" "bit (0xF00 :: u16) 11" by simp_all
  have "bit (oflag AND 0xF00) k \<longleftrightarrow> k = 8" if "rx_mode oflag" for k using that by (simp add: rx_mode_def open_flag_masks)
  from this [of 8] this [of 9] this [of 10] this [of 11] m
  show "rx_mode oflag \<Longrightarrow> bit oflag 8 \<and> \<not> bit oflag 9 \<and> \<not> bit oflag 10 \<and> \<not> bit oflag 11" by (simp add: bit_and_iff)
  have "\<not> bit (oflag AND 0xF00) k" if "poll_mode oflag" for k using that by (simp add: poll_mode_def)
  from this [of 8] this [of 9] this [of 10] this [of 11] m
  show "poll_mode oflag \<Longrightarrow> \<not> bit oflag 8 \<and> \<not> bit oflag 9 \<and> \<not> bit oflag 10 \<and> \<not> bit oflag 11" by (simp add: bit_and_iff)
qed

subsection \<open>Opening and closing\<close>

text \<open>A registered device with the flags of the driver, never open for interrupts on transmission.\<close>

definition usart_ready :: "serial_device \<Rightarrow> bool" where
  "usart_ready s \<longleftrightarrow> device_type_ok s \<and> bit (dev_flag s) 8 \<and> \<not> bit (dev_flag s) 3 \<and> serial_tx s = 0 \<and> \<not> bit (open_flag s) 10"

definition activated :: "serial_device \<Rightarrow> bool" where "activated s \<longleftrightarrow> bit (dev_flag s) 4"

lemmas device_defs = device_type_ok_def uart_call_def n32g43x_control_def n32g43x_configure_def n32g43x_uart_gpio_init_def serial_ops_def
  RT_EOK_def RT_ASSERT_def

text \<open>What the first open does to the peripheral.\<close>

definition init_calls :: "serial_configure \<Rightarrow> uart_call list" where
  "init_calls cfg = [Usart_Enable, Usart_Init (usart_setting cfg), Enable_irq, Set_priority 0]
     @ (if uart_mode cfg = 1 \<or> uart_mode cfg = 2 then [Init_rx_pin] else []) @ [Init_tx_pin, Enable_clocks]"

lemma open_init_eq:
  "open_init serial_ops s = Some (RT_EOK, if activated s then s
     else s\<lparr>serial_rx := 0, serial_tx := 0, dev_flag := dev_flag s OR RT_DEVICE_FLAG_ACTIVATED, uart_calls := init_calls (config s) @ uart_calls s\<rparr>)"
  by (simp add: open_init_def rt_serial_init_def flag_bits activated_def device_defs init_calls_def Let_def)

lemma open_first:
  assumes "usart_ready s" and "serial_rx s = 0" and "ref_count s = 0" and "rx_mode oflag"
    and "rt_malloc (12 + ucast (bufsz (config s))) (serial_heap s) = Some (p, h)" and "p \<noteq> 0"
  shows "\<exists>s'. rt_device_open serial_ops oflag s = Some (0, s') \<and> usart_ready s' \<and> activated s' \<and> ref_count s' = 1 \<and> bit (open_flag s') 8
    \<and> serial_rx s' = p \<and> serial_heap s' = h \<and> rx_fifo s' = new_fifo (bufsz (config s)) \<and> config s' = config s"
proof -
  note m = mode_bits(1) [OF assms(4)]
  show ?thesis
    using assms m unfolding rt_device_open_def open_init_eq
    by (simp add: rt_serial_open_def open_rx_def open_tx_def lacks_def flags usart_ready_def activated_def SIZEOF_RX_FIFO_def device_defs Let_def)
qed

lemma open_first_polling:
  assumes "usart_ready s" and "\<not> activated s" and "ref_count s = 0" and "poll_mode oflag"
  shows "\<exists>s'. rt_device_open serial_ops oflag s = Some (0, s') \<and> usart_ready s' \<and> ref_count s' = 1 \<and> \<not> bit (open_flag s') 8
    \<and> serial_rx s' = 0 \<and> serial_heap s' = serial_heap s \<and> uart_calls s' = init_calls (config s) @ uart_calls s"
proof -
  note m = mode_bits(2) [OF assms(4)]
  show ?thesis
    using assms m unfolding rt_device_open_def open_init_eq
    by (simp add: rt_serial_open_def open_rx_def open_tx_def lacks_def flags usart_ready_def activated_def device_defs Let_def)
qed

lemma open_again:
  assumes "usart_ready s" and "activated s" and "serial_rx s \<noteq> 0" and "ref_count s + 1 \<noteq> 0" and "rx_mode oflag \<or> poll_mode oflag"
  shows "\<exists>s'. rt_device_open serial_ops oflag s = Some (0, s') \<and> usart_ready s' \<and> activated s' \<and> ref_count s' = ref_count s + 1
    \<and> (bit (open_flag s') 8 \<longleftrightarrow> rx_mode oflag) \<and> serial_rx s' = serial_rx s \<and> serial_heap s' = serial_heap s \<and> rx_fifo s' = rx_fifo s
    \<and> config s' = config s \<and> uart_calls s' = uart_calls s"
proof -
  have m: "rx_mode oflag \<longleftrightarrow> bit oflag 8" "\<not> bit oflag 9" "\<not> bit oflag 10" "\<not> bit oflag 11"
    using mode_bits [of oflag] assms(5) by blast+
  have i: "open_init serial_ops s = Some (RT_EOK, s)" using assms(2) by (simp add: open_init_def flag_bits activated_def)
  show ?thesis
    using assms(1-4) m unfolding rt_device_open_def i
    by (simp add: rt_serial_open_def open_rx_def open_tx_def lacks_def flags usart_ready_def activated_def device_defs Let_def)
qed

lemma close_more:
  "usart_ready s \<Longrightarrow> 1 < ref_count s \<Longrightarrow> rt_device_close serial_ops s = Some (0, s\<lparr>ref_count := ref_count s - 1\<rparr>)"
  by (auto simp: rt_device_close_def usart_ready_def device_defs Let_def)

lemma close_last:
  assumes "usart_ready s" and "ref_count s = 1" and "bit (open_flag s) 8" and "serial_rx s \<noteq> 0" and "rt_free (serial_rx s) (serial_heap s) = Some h"
  shows "\<exists>s'. rt_device_close serial_ops s = Some (0, s') \<and> usart_ready s' \<and> (activated s' \<longleftrightarrow> activated s) \<and> ref_count s' = 0
    \<and> open_flag s' = 0 \<and> serial_rx s' = 0 \<and> serial_heap s' = h \<and> config s' = config s"
  using assms
  by (simp add: rt_device_close_def rt_serial_close_def close_rx_def close_tx_def flags usart_ready_def activated_def device_defs Let_def)

text \<open>The last close of a device that polls frees nothing.\<close>

lemma close_polling:
  "usart_ready s \<Longrightarrow> ref_count s = 1 \<Longrightarrow> \<not> bit (open_flag s) 8 \<Longrightarrow>
    rt_device_close serial_ops s = Some (0, s\<lparr>ref_count := 0, open_flag := 0\<rparr>)"
  by (simp add: rt_device_close_def rt_serial_close_def close_rx_def close_tx_def flags usart_ready_def device_defs Let_def)

lemma close_closed: "usart_ready s \<Longrightarrow> ref_count s = 0 \<Longrightarrow> rt_device_close serial_ops s = Some (- RT_ERROR, s)"
  by (simp add: rt_device_close_def usart_ready_def device_defs)

text \<open>Users of the device open and close it, with their flags.\<close>

datatype user_call = Open u16 | Close

fun run_users :: "user_call list \<Rightarrow> serial_device \<Rightarrow> serial_device option" where
  "run_users [] s = Some s"
| "run_users (Open oflag # cs) s = do { (_, s) \<leftarrow> rt_device_open serial_ops oflag s; run_users cs s }"
| "run_users (Close # cs) s = do { (_, s) \<leftarrow> rt_device_close serial_ops s; run_users cs s }"

text \<open>The number of users after a sequence of calls, and whether it stays below 256, with all of them in interrupt mode.\<close>

fun users :: "nat \<Rightarrow> user_call list \<Rightarrow> nat" where
  "users n [] = n"
| "users n (Open oflag # cs) = users (n + 1) cs"
| "users n (Close # cs) = users (n - 1) cs"

fun users_ok :: "nat \<Rightarrow> user_call list \<Rightarrow> bool" where
  "users_ok n [] = True"
| "users_ok n (Open oflag # cs) = (n < 255 \<and> rx_mode oflag \<and> users_ok (n + 1) cs)"
| "users_ok n (Close # cs) = users_ok (n - 1) cs"

definition same_blocks :: "heap \<Rightarrow> blocks \<Rightarrow> heap \<Rightarrow> bool" where
  "same_blocks h bs g \<longleftrightarrow> heap_inv g bs \<and> heap_ptr g = heap_ptr h \<and> room g = room h"

definition in_use :: "heap \<Rightarrow> blocks \<Rightarrow> u32 \<Rightarrow> nat \<Rightarrow> serial_device \<Rightarrow> bool" where
  "in_use h bs p n s \<longleftrightarrow> usart_ready s \<and> unat (ref_count s) = n \<and>
     (if n = 0 then serial_rx s = 0 \<and> same_blocks h bs (serial_heap s)
      else activated s \<and> bit (open_flag s) 8 \<and> serial_rx s = p
        \<and> (\<exists>g. same_blocks h bs g \<and> rt_malloc (12 + ucast (bufsz (config s))) g = Some (p, serial_heap s)))"

lemma in_use_open:
  assumes "in_use h bs p n s" and "n < 255" and "rx_mode oflag" and "24 \<le> room h" and "heap_inv h bs" and "p \<noteq> 0"
    and "rt_malloc (12 + ucast (bufsz (config s))) h = Some (p, h')"
  shows "\<exists>s'. rt_device_open serial_ops oflag s = Some (0, s') \<and> in_use h bs p (n + 1) s' \<and> config s' = config s"
proof (cases "n = 0")
  case True
  with assms(1) have s: "usart_ready s" "serial_rx s = 0" "ref_count s = 0" and b: "same_blocks h bs (serial_heap s)"
    by (simp_all add: in_use_def unat_eq_zero)
  obtain g' where g: "rt_malloc (12 + ucast (bufsz (config s))) (serial_heap s) = Some (p, g')"
    using malloc_again [OF assms(5,4,7,6)] b by (auto simp: same_blocks_def)
  from open_first [OF s assms(3) g assms(6)] g b True show ?thesis by (auto simp: in_use_def)
next
  case False
  with assms(1) have s: "usart_ready s" "activated s" "unat (ref_count s) = n" "serial_rx s \<noteq> 0"
    using assms(6) by (simp_all add: in_use_def)
  then have "unat (ref_count s + 1) = n + 1" using assms(2) by (simp add: unat_word_ariths(1))
  then have "ref_count s + 1 \<noteq> 0" "unat (ref_count s + 1) = n + 1" by (auto simp flip: unat_eq_zero)
  with open_again [OF s(1,2,4) _ disjI1 [OF assms(3)]] assms(1,3) False show ?thesis by (fastforce simp: in_use_def)
qed

lemma in_use_close:
  assumes "in_use h bs p n s" and "24 \<le> room h" and "p \<noteq> 0"
  shows "\<exists>r s'. rt_device_close serial_ops s = Some (r, s') \<and> in_use h bs p (n - 1) s' \<and> config s' = config s"
proof -
  have s: "usart_ready s" "unat (ref_count s) = n" using assms(1) by (simp_all add: in_use_def)
  consider "n = 0" | "n = 1" | "1 < n" by linarith
  then show ?thesis
  proof cases
    case 1
    with s have "ref_count s = 0" by (simp add: unat_eq_zero)
    with close_closed [OF s(1)] assms(1) 1 show ?thesis by auto
  next
    case 2
    with assms have u: "bit (open_flag s) 8" "serial_rx s \<noteq> 0" "serial_rx s = p" by (simp_all add: in_use_def)
    obtain g where g: "same_blocks h bs g" "rt_malloc (12 + ucast (bufsz (config s))) g = Some (p, serial_heap s)"
      using assms(1) 2 by (auto simp: in_use_def)
    then obtain g' where f: "rt_free p (serial_heap s) = Some g'" "same_blocks h bs g'"
      using malloc_then_free [of g bs, OF _ _ g(2) assms(3)] assms(2) by (auto simp: same_blocks_def)
    have "ref_count s = 1" using s(2) 2 by (simp add: word_unat_eq_iff)
    from close_last [OF s(1) this u(1,2)] f u(3) 2 show ?thesis by (auto simp: in_use_def)
  next
    case 3
    then have "1 < ref_count s" using s(2) by (simp add: word_less_nat_alt)
    moreover from this have "unat (ref_count s - 1) = n - 1" using s(2) by (simp add: unat_sub word_less_nat_alt word_le_nat_alt)
    ultimately show ?thesis using close_more [OF s(1)] assms(1) 3
      by (auto simp: in_use_def usart_ready_def activated_def device_type_ok_def)
  qed
qed

lemma in_use_run:
  assumes "24 \<le> room h" and "heap_inv h bs" and "p \<noteq> 0" and "rt_malloc (12 + ucast sz) h = Some (p, h')"
  shows "in_use h bs p n s \<Longrightarrow> bufsz (config s) = sz \<Longrightarrow> users_ok n cs \<Longrightarrow> \<exists>s'. run_users cs s = Some s' \<and> in_use h bs p (users n cs) s'"
proof (induction n cs arbitrary: s rule: users_ok.induct)
  case (2 n oflag cs)
  from in_use_open [OF 2(2) _ _ assms(1-3), of oflag h'] 2(3,4) assms(4) obtain t where
    "rt_device_open serial_ops oflag s = Some (0, t)" "in_use h bs p (n + 1) t" "config t = config s" by auto
  with 2(1) [of t] 2(3,4) show ?case by simp
next
  case (3 n cs)
  from in_use_close [OF 3(2) assms(1,3)] obtain r t where
    "rt_device_close serial_ops s = Some (r, t)" "in_use h bs p (n - 1) t" "config t = config s" by auto
  with 3(1) [of t] 3(3,4) show ?case by simp
qed simp

lemma in_use_shows:
  "in_use h bs p n s \<Longrightarrow> p \<noteq> 0 \<Longrightarrow>
    unat (ref_count s) = n \<and> (if n = 0 then serial_rx s = 0 \<and> heap_inv (serial_heap s) bs else receiving s \<and> serial_rx s = p)"
  by (cases "n = 0") (auto simp: in_use_def same_blocks_def receiving_def usart_ready_def flag_bits)

text \<open>
  C36: The users of the device share one receive buffer: from a registered, closed device and a heap with room for the
  buffer, any sequence of opens in interrupt mode and of closes, with at most 255 users at a time, runs without a failed assertion, and
  the count of references is the number of users. While there is one, the device receives into the buffer allocated for the
  first of them; when the last one has closed it, the buffer is free again and the blocks of the heap are what they were.
\<close>

theorem serial_users_share_buffer:
  assumes "usart_ready s" and "serial_rx s = 0" and "ref_count s = 0"
    and "heap_inv (serial_heap s) bs" and "24 \<le> room (serial_heap s)"
    and "rt_malloc (12 + ucast (bufsz (config s))) (serial_heap s) = Some (p, h')" and "p \<noteq> 0"
    and "users_ok 0 cs"
  shows "\<exists>s'. run_users cs s = Some s' \<and> unat (ref_count s') = users 0 cs
    \<and> (if users 0 cs = 0 then serial_rx s' = 0 \<and> heap_inv (serial_heap s') bs else receiving s' \<and> serial_rx s' = p)"
proof -
  have "in_use (serial_heap s) bs p 0 s" using assms(1-4) by (simp add: in_use_def same_blocks_def)
  from in_use_run [OF assms(5,4,7,6) this _ assms(8)] show ?thesis using in_use_shows [OF _ assms(7)] by blast
qed

text \<open>The device at reset and after the initialisation of the board.\<close>

definition serial_at_reset :: "heap \<Rightarrow> serial_device" where
  "serial_at_reset h = \<lparr>dev_name = '''', dev_object_type = 0, dev_class = Class_Char, dev_flag = 0, open_flag = 0, ref_count = 0,
     rx_indicate = 0, tx_complete = 0, config = RT_SERIAL_CONFIG_DEFAULT, serial_rx = 0, rx_fifo = new_fifo 0, serial_tx = 0,
     tx_completed = False, already_output = False, serial_heap = h, receiver = [], uart_calls = []\<rparr>"

definition SERIAL1 :: u32 where "SERIAL1 = 0x20000100"

definition board_serial :: serial_device where
  "board_serial = (case rt_hw_usart_init SERIAL1 (serial_at_reset board_heap, []) of Some (_, s, _) \<Rightarrow> s | None \<Rightarrow> serial_at_reset board_heap)"

lemma board_serial_init: "rt_hw_usart_init SERIAL1 (serial_at_reset board_heap, []) = Some (0, board_serial, [(''usart1'', SERIAL1)])"
  by (simp add: board_serial_def rt_hw_usart_init_def rt_hw_serial_register_def rt_device_register_def SERIAL1_def RT_ASSERT_def RT_EOK_def RT_NAME_MAX_def)

lemma board_serial_ready:
  "usart_ready board_serial" "serial_rx board_serial = 0" "ref_count board_serial = 0" "serial_heap board_serial = board_heap"
  "bufsz (config board_serial) = 64" "\<not> activated board_serial" "config board_serial = RT_SERIAL_CONFIG_DEFAULT"
  by (simp_all add: board_serial_def rt_hw_usart_init_def rt_hw_serial_register_def rt_device_register_def SERIAL1_def RT_ASSERT_def RT_EOK_def
      serial_at_reset_def usart_ready_def activated_def device_type_ok_def RT_Object_Class_Device_def RT_Object_Class_Static_def
      RT_DEVICE_FLAG_RDWR_def RT_DEVICE_FLAG_INT_RX_def RT_SERIAL_CONFIG_DEFAULT_def)

lemma board_serial_malloc:
  "\<exists>h'. rt_malloc (12 + ucast (bufsz (config board_serial))) (serial_heap board_serial) = Some (0x2000400C, h')"
  unfolding board_serial_ready(4,5) using malloc_refines [OF board_heap_inv, of 76]
  by (auto simp: room_board_heap board_heap_ptr RT_ALIGN_def alloc_blocks_def data_size_def split_block_def)

lemma rx_modes: "rx_mode 0x103" "rx_mode 0x143" "poll_mode 0x3" "poll_mode 0x43"
  by (simp_all add: rx_mode_def poll_mode_def RT_DEVICE_FLAG_INT_RX_def)

theorem serial_users_share_buffer_witness:
  "\<exists>s s'. run_users [Open 0x103, Open 0x143, Close] board_serial = Some s \<and> receiving s \<and> serial_rx s = 0x2000400C
    \<and> run_users [Open 0x103, Close, Close, Open 0x103, Close] board_serial = Some s' \<and> serial_rx s' = 0 \<and> heap_inv (serial_heap s') [(16372, False)]"
proof -
  obtain h' where m: "rt_malloc (12 + ucast (bufsz (config board_serial))) (serial_heap board_serial) = Some (0x2000400C, h')"
    using board_serial_malloc by blast
  have i: "heap_inv (serial_heap board_serial) [(16372, False)]" "24 \<le> room (serial_heap board_serial)"
    by (simp_all add: board_serial_ready board_heap_inv room_board_heap)
  from serial_users_share_buffer [OF board_serial_ready(1-3) i m, of "[Open 0x103, Open 0x143, Close]"]
    serial_users_share_buffer [OF board_serial_ready(1-3) i m, of "[Open 0x103, Close, Close, Open 0x103, Close]"]
  show ?thesis by (auto simp: rx_modes)
qed

text \<open>The device open for the first user, with an empty buffer.\<close>

lemma board_opened:
  "\<exists>s. rt_device_open serial_ops 0x103 board_serial = Some (0, s) \<and> usart_ready s \<and> activated s \<and> ref_count s = 1 \<and> bit (open_flag s) 8
    \<and> serial_rx s = 0x2000400C \<and> rx_fifo s = new_fifo 64 \<and> bufsz (config s) = 64 \<and> receiving s"
proof -
  obtain h' where m: "rt_malloc (12 + ucast (bufsz (config board_serial))) (serial_heap board_serial) = Some (0x2000400C, h')"
    using board_serial_malloc by blast
  from open_first [OF board_serial_ready(1-3) rx_modes(1) m] show ?thesis
    by (auto simp: board_serial_ready(5) receiving_def usart_ready_def flag_bits)
qed

theorem serial_receive_stream_witness:
  "\<exists>s. rt_device_open serial_ops 0x103 board_serial = Some (0, s)
    \<and> (\<exists>out s' rest. run_serial [Line [0x41, 0x42], Read_bytes 1, Line [0x43], Read_bytes 10] s = Some (out, s') \<and> out @ rest = [0x41, 0x42, 0x43])"
proof -
  obtain s where s: "rt_device_open serial_ops 0x103 board_serial = Some (0, s)" "rx_fifo s = new_fifo 64" "bufsz (config s) = 64" "receiving s"
    using board_opened by (elim exE conjE) (rule that)
  have h: "fifo_holds (bufsz (config s)) (rx_fifo s) []" unfolding s(2,3) by (rule new_fifo_holds) simp
  define es where "es = [Line [0x41, 0x42], Read_bytes 1, Line [0x43], Read_bytes 10]"
  have "received es = [0x41, 0x42, 0x43]" "keeps_all (unat (bufsz (config s)) - 1) 0 (map queue_event es)"
    by (simp_all add: es_def received_def s(3))
  with serial_receive_stream [OF s(4) h, of es] s(1) show ?thesis unfolding es_def [symmetric] by metis
qed

subsection \<open>A second open changes the mode\<close>

text \<open>With a size that is larger than the buffer, enough words run over its end.\<close>

lemma fifo_put_in_bounds:
  "unat (put_index f) < length (fifo_buffer f) \<Longrightarrow>
    \<exists>lost g. fifo_put sz ch f = Some (lost, g) \<and> length (fifo_buffer g) = length (fifo_buffer f) \<and> put_index g = next_index sz (put_index f)"
  by (cases "next_index sz (put_index f) = get_index f") (simp_all add: fifo_put_def wr_Some Let_def ex_bool_eq)

lemma rx_loop_overruns:
  "length (fifo_buffer (rx_fifo s)) = n \<Longrightarrow> n < unat (bufsz (config s)) \<Longrightarrow> unat (put_index (rx_fifo s)) \<le> n \<Longrightarrow>
    n < unat (put_index (rx_fifo s)) + length (receiver s) \<Longrightarrow> rx_loop s = None"
proof (induction "receiver s" arbitrary: s)
  case (Cons w ws)
  let ?i = "put_index (rx_fifo s)" and ?s = "s\<lparr>receiver := ws\<rparr>"
  show ?case
  proof (cases "unat ?i = n")
    case True
    then have "fifo_put (bufsz (config s)) (ucast w) (rx_fifo s) = None" using Cons.prems(1) by (simp add: fifo_put_def wr_None)
    then show ?thesis by (simp add: rx_loop.simps [of s] n32g43x_getc_def of_int_uint uint_not_neg flip: Cons.hyps(2))
  next
    case False
    with Cons.prems(1,3) obtain lost g where g: "fifo_put (bufsz (config s)) (ucast w) (rx_fifo s) = Some (lost, g)"
      "length (fifo_buffer g) = n" "put_index g = next_index (bufsz (config s)) ?i"
      using fifo_put_in_bounds [of "rx_fifo s"] by (metis le_neq_implies_less)
    have i: "unat (put_index g) = unat ?i + 1"
      using False Cons.prems(2,3) unat_next_index [of ?i "bufsz (config s)"] by (simp add: g(3))
    let ?t = "if lost then serial_check_buffer_size (?s\<lparr>rx_fifo := g\<rparr>) else ?s\<lparr>rx_fifo := g\<rparr>"
    have t: "receiver ?t = ws" "config ?t = config s" "rx_fifo ?t = g"
      by (simp_all add: serial_check_buffer_size_def uart_call_def)
    have "rx_loop ?t = None"
      using Cons.hyps(1) [of ?t] t g(2) i Cons.prems(2,3,4) False by (simp flip: Cons.hyps(2))
    moreover have "rx_loop s = rx_loop ?t"
      using g(1) by (simp add: rx_loop.simps [of s] n32g43x_getc_def of_int_uint uint_not_neg Let_def flip: Cons.hyps(2))
    ultimately show ?thesis by simp
  qed
qed simp

lemma irq_overruns:
  assumes "rx_loop (uart_call Interrupt_entered s) = None"
  shows "USART1_IRQHandler True False s = None"
  using assms by (simp add: USART1_IRQHandler_def rt_hw_serial_isr_def Let_def RT_ASSERT_def)

text \<open>
  C37: A second open takes the mode of the first user away. When a device that receives by interrupt is opened
  again with flags for polling, as \<open>rt_console_set_device\<close> does, and closed twice, it is closed but its buffer is not freed and stays in
  place. A larger buffer size is then accepted, because the device is closed, the next open in interrupt mode keeps the
  old buffer, and an interrupt with more bytes than it has writes past its end.
\<close>

theorem second_open_overruns_buffer:
  assumes "usart_ready s" and "activated s" and "ref_count s = 1" and "receiving s"
    and "fifo_holds (bufsz (config s)) (rx_fifo s) xs"
    and "poll_mode polling" and "rx_mode oflag" and "bufsz (config s) < bufsz cfg"
  shows "\<exists>a b c d e. rt_device_open serial_ops polling s = Some (0, a) \<and> rt_device_close serial_ops a = Some (0, b)
    \<and> rt_device_close serial_ops b = Some (0, c) \<and> ref_count c = 0 \<and> serial_rx c = serial_rx s \<and> serial_heap c = serial_heap s
    \<and> rt_device_control serial_ops (Ctrl_config (Some cfg)) c = Some (0, d) \<and> rt_device_open serial_ops oflag d = Some (0, e)
    \<and> (\<forall>ws. unat (bufsz (config s)) < length ws \<longrightarrow> USART1_IRQHandler True False (e\<lparr>receiver := ws\<rparr>) = None)"
proof -
  have rx: "serial_rx s \<noteq> 0" using assms(4) by (simp add: receiving_def)
  have p: "poll_mode f \<Longrightarrow> \<not> rx_mode f" for f using mode_bits by blast
  from open_again [OF assms(1,2) rx, of polling] assms(3,6) p obtain a where
    a: "rt_device_open serial_ops polling s = Some (0, a)" "usart_ready a" "activated a" "ref_count a = 2" "\<not> bit (open_flag a) 8"
      "serial_rx a = serial_rx s" "serial_heap a = serial_heap s" "rx_fifo a = rx_fifo s" "config a = config s" by auto
  define b where "b = a\<lparr>ref_count := 1\<rparr>"
  have b: "rt_device_close serial_ops a = Some (0, b)" using close_more [OF a(2)] a(4) by (simp add: b_def)
  have ub: "usart_ready b" using a(2) by (simp add: b_def usart_ready_def device_type_ok_def)
  define c where "c = b\<lparr>ref_count := 0, open_flag := 0\<rparr>"
  have c: "rt_device_close serial_ops b = Some (0, c)" using close_polling [OF ub] a(5) by (simp add: b_def c_def)
  define d where "d = c\<lparr>config := cfg\<rparr>"
  have uc: "usart_ready c" using ub by (simp add: c_def usart_ready_def device_type_ok_def)
  have d: "rt_device_control serial_ops (Ctrl_config (Some cfg)) c = Some (0, d)"
    using uc by (simp add: rt_device_control_def serial_ops_def rt_serial_control_def usart_ready_def RT_ASSERT_def RT_EOK_def d_def)
      (simp add: c_def)
  have ud: "usart_ready d" "activated d" using uc a(3) by (simp_all add: d_def c_def b_def usart_ready_def activated_def device_type_ok_def)
  from open_again [OF ud, of oflag] rx a(6,8) assms(7) obtain e where
    e: "rt_device_open serial_ops oflag d = Some (0, e)" "rx_fifo e = rx_fifo s" "config e = cfg"
    by (auto simp: d_def c_def b_def)
  have "USART1_IRQHandler True False (e\<lparr>receiver := ws\<rparr>) = None" if "unat (bufsz (config s)) < length ws" for ws
    using assms(5,8) that e(2,3)
    by (intro irq_overruns rx_loop_overruns) (auto simp: fifo_holds_def uart_call_def word_less_nat_alt)
  with a b c d e show ?thesis by (auto simp: c_def b_def)
qed

theorem second_open_overruns_buffer_witness:
  "\<exists>s c d e. rt_device_open serial_ops 0x103 board_serial = Some (0, s) \<and> ref_count c = 0 \<and> serial_rx c = 0x2000400C
    \<and> rt_device_control serial_ops (Ctrl_config (Some (RT_SERIAL_CONFIG_DEFAULT\<lparr>bufsz := 128\<rparr>))) c = Some (0, d)
    \<and> rt_device_open serial_ops 0x103 d = Some (0, e) \<and> USART1_IRQHandler True False (e\<lparr>receiver := replicate 65 0x41\<rparr>) = None"
proof -
  obtain s where s: "rt_device_open serial_ops 0x103 board_serial = Some (0, s)" "usart_ready s" "activated s" "ref_count s = 1"
    "serial_rx s = 0x2000400C" "rx_fifo s = new_fifo 64" "bufsz (config s) = 64" "receiving s"
    using board_opened by (elim exE conjE) (rule that)
  have h: "fifo_holds (bufsz (config s)) (rx_fifo s) []" unfolding s(6,7) by (rule new_fifo_holds) simp
  have z: "bufsz (config s) < bufsz (RT_SERIAL_CONFIG_DEFAULT\<lparr>bufsz := 128\<rparr>)" by (simp add: s(7))
  have l: "unat (bufsz (config s)) < length (replicate 65 (0x41 :: u16))" by (simp add: s(7))
  from second_open_overruns_buffer [OF s(2-4,8) h rx_modes(4,1) z] obtain c d e where
    "ref_count c = 0" "serial_rx c = serial_rx s"
    "rt_device_control serial_ops (Ctrl_config (Some (RT_SERIAL_CONFIG_DEFAULT\<lparr>bufsz := 128\<rparr>))) c = Some (0, d)"
    "rt_device_open serial_ops 0x103 d = Some (0, e)"
    "\<forall>ws. unat (bufsz (config s)) < length ws \<longrightarrow> USART1_IRQHandler True False (e\<lparr>receiver := ws\<rparr>) = None"
    by (elim exE conjE) (rule that)
  with s(1,5) l show ?thesis by metis
qed

text \<open>
  \<open>rt_device_destroy\<close> never returns: a registered device is a static object, and a device that is not registered has no type.
\<close>

lemma destroy_fails:
  "dev_object_type d = RT_Object_Class_Device OR RT_Object_Class_Static \<or> dev_object_type d = 0 \<Longrightarrow> rt_device_destroy p (d, c, h) = None"
  by (auto simp: rt_device_destroy_def RT_ASSERT_def device_type_ok_def RT_Object_Class_Device_def RT_Object_Class_Static_def)

subsection \<open>The console\<close>

text \<open>Text with a carriage return before each line feed.\<close>

definition crlf :: "u8 list \<Rightarrow> u8 list" where
  "crlf text = concat (map (\<lambda>b. if b = 10 then [13, 10] else [b]) text)"

lemma poll_tx_sends:
  "bit (open_flag s) 6 \<Longrightarrow> serial_poll_tx bs s = s\<lparr>uart_calls := map Usart_SendData (rev (crlf bs)) @ uart_calls s\<rparr>"
  by (induction bs arbitrary: s) (simp_all add: n32g43x_putc_def uart_call_def flag_bits Let_def crlf_def)

lemma console_write_sends:
  assumes "usart_ready s" and "ref_count s \<noteq> 0" and "console \<noteq> 0" and "length text < 2 ^ 32"
  shows "console_write (text @ rest) (of_nat (length text)) console s = Some (s\<lparr>uart_calls := map Usart_SendData (rev (crlf text)) @ uart_calls s\<rparr>)"
proof -
  have l: "unat (of_nat (length text) :: u32) = length text" using assms(4) by (simp add: unsigned_of_nat take_bit_nat_eq_self)
  define t where "t = s\<lparr>open_flag := open_flag s OR RT_DEVICE_FLAG_STREAM\<rparr>"
  have t: "device_type_ok t" "ref_count t \<noteq> 0" "\<not> bit (open_flag t) 10" "bit (open_flag t) 6"
    using assms(1,2) by (simp_all add: t_def usart_ready_def device_type_ok_def flags)
  have "rt_device_write serial_ops (text @ rest) (of_nat (length text)) t
      = Some (of_nat (length text), t\<lparr>uart_calls := map Usart_SendData (rev (crlf text)) @ uart_calls t\<rparr>)"
  proof (cases "of_nat (length text) = (0 :: u32)")
    case True
    with l have "text = []" by simp
    then show ?thesis using t by (simp add: rt_device_write_def serial_ops_def rt_serial_write_def RT_ASSERT_def crlf_def)
  next
    case False
    then show ?thesis using t l poll_tx_sends [OF t(4)]
      by (simp add: rt_device_write_def serial_ops_def rt_serial_write_def RT_ASSERT_def flag_bits)
  qed
  then show ?thesis using assms(3) by (simp add: console_write_def t_def Let_def)
qed

text \<open>
  The console after the start of the board: \<open>rt_hw_usart_init\<close> registers the USART under its name whatever other devices there
  are, \<open>rt_console_set_device\<close> finds it, sets it to 115200 baud, 8 data bits, no parity and one stop bit and opens it for
  polling, without memory from the heap; from then on \<open>rt_kputs\<close> sends the bytes of a string up to its end, with
  a carriage return before every line feed, and nothing else.
\<close>

theorem console_prints:
  assumes "rt_device_find ''usart1'' c = 0" and "serial1 \<noteq> 0" and "serial1 \<notin> snd ` set c"
    and "length (takeWhile (\<lambda>b. b \<noteq> 0) str) < 2 ^ 32"
  shows "\<exists>s1 s2 s3. rt_hw_usart_init serial1 (serial_at_reset h, c) = Some (0, s1, (''usart1'', serial1) # c)
    \<and> rt_console_set_device ''usart1'' serial1 ((''usart1'', serial1) # c) (0, s1) = Some (0, serial1, s2)
    \<and> ref_count s2 = 1 \<and> serial_heap s2 = h
    \<and> Usart_Init \<lparr>init_baud = 115200, init_word_length = 0, init_stop_bits = 0, init_parity = 0, init_uart_mode = 0x0C, init_flow_control = 0\<rparr>
        \<in> set (uart_calls s2)
    \<and> rt_kputs str serial1 s2 = Some s3
    \<and> uart_calls s3 = map Usart_SendData (rev (crlf (takeWhile (\<lambda>b. b \<noteq> 0) str))) @ uart_calls s2"
proof -
  define s1 where "s1 = (serial_at_reset h)\<lparr>dev_object_type := RT_Object_Class_Device OR RT_Object_Class_Static, dev_name := ''usart1'',
    dev_flag := RT_DEVICE_FLAG_RDWR OR RT_DEVICE_FLAG_INT_RX\<rparr>"
  have i: "rt_hw_usart_init serial1 (serial_at_reset h, c) = Some (0, s1, (''usart1'', serial1) # c)"
    using assms(1-3) by (simp add: rt_hw_usart_init_def rt_hw_serial_register_def rt_device_register_def RT_ASSERT_def RT_EOK_def RT_NAME_MAX_def
        s1_def serial_at_reset_def)
  have r: "usart_ready s1" "\<not> activated s1" "ref_count s1 = 0" "serial_heap s1 = h" "config s1 = RT_SERIAL_CONFIG_DEFAULT"
    by (simp_all add: s1_def serial_at_reset_def usart_ready_def activated_def device_type_ok_def RT_Object_Class_Device_def RT_Object_Class_Static_def
        RT_DEVICE_FLAG_RDWR_def RT_DEVICE_FLAG_INT_RX_def)
  from open_first_polling [OF r(1-3) rx_modes(4)] obtain s2 where
    s2: "rt_device_open serial_ops 0x43 s1 = Some (0, s2)" "usart_ready s2" "ref_count s2 = 1" "serial_heap s2 = h"
      "uart_calls s2 = init_calls RT_SERIAL_CONFIG_DEFAULT @ uart_calls s1" by (auto simp: r(4,5))
  have set_dev: "rt_console_set_device ''usart1'' serial1 ((''usart1'', serial1) # c) (0, s1) = Some (0, serial1, s2)"
    using s2(1) assms(2) by (simp add: rt_console_set_device_def RT_DEVICE_OFLAG_RDWR_def RT_DEVICE_FLAG_STREAM_def)
  have cfg: "usart_setting RT_SERIAL_CONFIG_DEFAULT
      = \<lparr>init_baud = 115200, init_word_length = 0, init_stop_bits = 0, init_parity = 0, init_uart_mode = 0x0C, init_flow_control = 0\<rparr>"
    by (simp add: usart_setting_def RT_SERIAL_CONFIG_DEFAULT_def USART_StructInit_def Let_def)
  have "rt_kputs str serial1 s2 = Some (s2\<lparr>uart_calls := map Usart_SendData (rev (crlf (takeWhile (\<lambda>b. b \<noteq> 0) str))) @ uart_calls s2\<rparr>)"
    unfolding rt_kputs_def Let_def using console_write_sends [OF s2(2) _ assms(2,4), of "[]"] s2(3) by simp
  with i set_dev s2 show ?thesis by (auto simp: init_calls_def cfg)
qed

theorem console_prints_witness:
  "\<exists>s2 s3. rt_console_set_device ''usart1'' SERIAL1 [(''usart1'', SERIAL1), (''pin'', 4)] (0, fst (snd (the (rt_hw_usart_init SERIAL1 (serial_at_reset board_heap, [(''pin'', 4)])))))
      = Some (0, SERIAL1, s2)
    \<and> rt_kputs [0x6F, 0x6B, 10, 0, 0x21] SERIAL1 s2 = Some s3
    \<and> uart_calls s3 = [Usart_SendData 10, Usart_SendData 13, Usart_SendData 0x6B, Usart_SendData 0x6F] @ uart_calls s2"
proof -
  have c: "rt_device_find ''usart1'' [(''pin'', 4)] = 0" "SERIAL1 \<noteq> 0" "SERIAL1 \<notin> snd ` set [(''pin'', 4)]"
    "length (takeWhile (\<lambda>b. b \<noteq> 0) [0x6F, 0x6B, 10, 0, 0x21 :: u8]) < 2 ^ 32"
    by (simp_all add: RT_NAME_MAX_def SERIAL1_def)
  from console_prints [OF c, of board_heap] obtain s1 s2 s3 where
    "rt_hw_usart_init SERIAL1 (serial_at_reset board_heap, [(''pin'', 4)]) = Some (0, s1, [(''usart1'', SERIAL1), (''pin'', 4)])"
    "rt_console_set_device ''usart1'' SERIAL1 [(''usart1'', SERIAL1), (''pin'', 4)] (0, s1) = Some (0, SERIAL1, s2)"
    "rt_kputs [0x6F, 0x6B, 10, 0, 0x21] SERIAL1 s2 = Some s3"
    "uart_calls s3 = map Usart_SendData (rev (crlf (takeWhile (\<lambda>b. b \<noteq> 0) [0x6F, 0x6B, 10, 0, 0x21]))) @ uart_calls s2"
    by (elim exE conjE) (rule that)
  then show ?thesis by (simp add: crlf_def)
qed

end
