(* ===== verification/Format.thy ===== *)
theory Format imports Serial begin

text \<open>
  Formatted output of the kernel (kservice.c): \<open>rt_vsnprintf\<close> with \<open>RT_PRINTF_PRECISION\<close>, as the file defines it, its
  variants, and \<open>rt_kprintf\<close>. A format is the bytes before its end mark, the arguments are a list of values; reading an argument that
  is missing or of another kind and the overflow of a signed integer are undefined in C and \<open>None\<close>. Pointers into the buffer are
  32-bit addresses that wrap; a write outside the object that the buffer points to is a fault, \<open>None\<close>, too.
\<close>

subsection \<open>Output\<close>

text \<open>
  The object at the address \<open>buf\<close>, and the pointers \<open>end\<close> and \<open>str\<close>. Every function that prints gets \<open>str\<close> and \<open>end\<close>, and returns
  the new \<open>str\<close>.
\<close>

record out =
  out_mem :: "u8 list"
  out_buf :: u32
  out_end :: u32
  out_str :: u32

definition store :: "u32 \<Rightarrow> u8 \<Rightarrow> out \<Rightarrow> out option" where
  "store p c o1 = do { m \<leftarrow> wr (out_mem o1) (unat (p - out_buf o1)) c; Some (o1\<lparr>out_mem := m\<rparr>) }"

definition put_char :: "u8 \<Rightarrow> out \<Rightarrow> out option" where
  "put_char c o1 =
     do { o1 \<leftarrow> (if out_str o1 < out_end o1 then store (out_str o1) c o1 else Some o1);
          Some (o1\<lparr>out_str := out_str o1 + 1\<rparr>) }"

definition emit_all :: "u8 list \<Rightarrow> out \<Rightarrow> out option" where
  "emit_all = for_each put_char"

definition emits :: "nat \<Rightarrow> u8 \<Rightarrow> out \<Rightarrow> out option" where
  "emits k c = for_each (\<lambda>_. put_char c) [0..<k]"

abbreviation chr :: "char \<Rightarrow> u8" where "chr \<equiv> of_char"

definition ZEROPAD :: u8 where "ZEROPAD = 1"
definition SIGN :: u8 where "SIGN = 2"
definition PLUS :: u8 where "PLUS = 4"
definition SPACE :: u8 where "SPACE = 8"
definition LEFT :: u8 where "LEFT = 16"
definition SPECIAL :: u8 where "SPECIAL = 32"
definition LARGE :: u8 where "LARGE = 64"

subsection \<open>Numbers\<close>

text \<open>Every base but ten divides by sixteen. The digits are in the order of the temporary buffer, lowest first.\<close>

definition divisor :: "u8 \<Rightarrow> u32" where "divisor base = (if base = 10 then 10 else 16)"

definition digit :: "u8 \<Rightarrow> u32 \<Rightarrow> u8" where
  "digit type d = map chr (if type AND LARGE \<noteq> 0 then ''0123456789ABCDEF'' else ''0123456789abcdef'') ! unat d"

function number_digits :: "u8 \<Rightarrow> u8 \<Rightarrow> u32 \<Rightarrow> u8 list" where
  "number_digits base type num =
     (if num = 0 then [] else digit type (num mod divisor base) # number_digits base type (num div divisor base))"
  by pat_completeness auto

termination
  by (relation "measure (\<lambda>(_, _, num). unat num)") (auto simp: divisor_def unat_div_distrib unat_eq_zero intro!: div_less_dividend gr0I)

declare number_digits.simps [simp del]

text \<open>Decrementing an \<open>int\<close>, and \<open>while (size-- > 0)\<close> with its last decrement.\<close>

definition decr :: "int \<Rightarrow> int option" where
  "decr sz = (if sz \<le> - (2 ^ 31) then None else Some (sz - 1))"

definition pad :: "u8 \<Rightarrow> int \<Rightarrow> out \<Rightarrow> (int \<times> out) option" where
  "pad c sz o1 = do { o1 \<leftarrow> emits (nat sz) c o1; sz \<leftarrow> decr (min sz 0); Some (sz, o1) }"

text \<open>
  The width is at least -1 and the precision an \<open>int\<close>, so \<open>size -= precision\<close> cannot overflow, but the decrements after it can, and
  the negation of the smallest number does.
\<close>

definition print_number :: "u32 \<Rightarrow> u8 \<Rightarrow> int \<Rightarrow> int \<Rightarrow> u8 \<Rightarrow> out \<Rightarrow> out option" where
  "print_number num base s precision type o1 =
     (let type = (if type AND LEFT \<noteq> 0 then type AND NOT ZEROPAD else type);
          c = (if type AND ZEROPAD \<noteq> 0 then chr CHR ''0'' else chr CHR '' '')
      in do {
        (sign, num) \<leftarrow>
          (if type AND SIGN \<noteq> 0
           then (if sint num < 0 then (if sint num = - (2 ^ 31) then None else Some (chr CHR ''-'', - num))
                 else if type AND PLUS \<noteq> 0 then Some (chr CHR ''+'', num)
                 else if type AND SPACE \<noteq> 0 then Some (chr CHR '' '', num) else Some (0, num))
           else Some (0, num));
        let tmp = (if num = 0 then [chr CHR ''0''] else number_digits base type num);
        let i = int (length tmp);
        let precision_bak = precision;
        let precision = max i precision;
        let sz = s - precision;
        (sz, o1) \<leftarrow>
          (if type AND (ZEROPAD OR LEFT) = 0 then pad (chr CHR '' '') (if sign \<noteq> 0 \<and> sz > 0 then sz - 1 else sz) o1 else Some (sz, o1));
        (sz, o1) \<leftarrow> (if sign \<noteq> 0 then do { o1 \<leftarrow> put_char sign o1; sz \<leftarrow> decr sz; Some (sz, o1) } else Some (sz, o1));
        (sz, o1) \<leftarrow> (if type AND LEFT = 0 then pad c sz o1 else Some (sz, o1));
        o1 \<leftarrow> emits (nat (precision - i)) (chr CHR ''0'') o1;
        o1 \<leftarrow> (if precision_bak \<noteq> 0 then emit_all (rev tmp) o1 else Some o1);
        (sz, o1) \<leftarrow> pad (chr CHR '' '') sz o1;
        Some o1 })"

subsection \<open>Reading the format\<close>

definition peek :: "u8 list \<Rightarrow> u8" where "peek fmt = (case fmt of [] \<Rightarrow> 0 | c # _ \<Rightarrow> c)"

definition isdigit :: "u8 \<Rightarrow> bool" where "isdigit c \<longleftrightarrow> uint c - 48 \<in> {0..<10}"

definition INT_MAX :: int where "INT_MAX = 2 ^ 31 - 1"

fun skip_atoi :: "int \<Rightarrow> u8 list \<Rightarrow> (int \<times> u8 list) option" where
  "skip_atoi i [] = Some (i, [])"
| "skip_atoi i (c # fmt) =
     (if isdigit c then (let j = i * 10 + uint c in if j > INT_MAX then None else skip_atoi (j - 48) fmt) else Some (i, c # fmt))"

fun read_flags :: "u8 \<Rightarrow> u8 list \<Rightarrow> u8 \<times> u8 list" where
  "read_flags flags [] = (flags, [])"
| "read_flags flags (c # fmt) =
     (if c = chr CHR ''-'' then read_flags (flags OR LEFT) fmt
      else if c = chr CHR ''+'' then read_flags (flags OR PLUS) fmt
      else if c = chr CHR '' '' then read_flags (flags OR SPACE) fmt
      else if c = chr CHR ''#'' then read_flags (flags OR SPECIAL) fmt
      else if c = chr CHR ''0'' then read_flags (flags OR ZEROPAD) fmt
      else (flags, c # fmt))"

datatype va = Int_arg u32 | Str_arg "u8 list option"

definition va_int :: "va list \<Rightarrow> (u32 \<times> va list) option" where
  "va_int args = (case args of Int_arg x # as \<Rightarrow> Some (x, as) | _ \<Rightarrow> None)"

definition va_str :: "va list \<Rightarrow> (u8 list option \<times> va list) option" where
  "va_str args = (case args of Str_arg x # as \<Rightarrow> Some (x, as) | _ \<Rightarrow> None)"

definition read_width :: "u8 \<Rightarrow> u8 list \<Rightarrow> va list \<Rightarrow> (int \<times> u8 \<times> u8 list \<times> va list) option" where
  "read_width flags fmt args =
     (if isdigit (peek fmt) then do { (w, fmt) \<leftarrow> skip_atoi 0 fmt; Some (w, flags, fmt, args) }
      else if peek fmt = chr CHR ''*''
      then do { (x, args) \<leftarrow> va_int args;
                if sint x < 0 then (if sint x < - INT_MAX then None else Some (- sint x, flags OR LEFT, tl fmt, args)) else Some (sint x, flags, tl fmt, args) }
      else Some (- 1, flags, fmt, args))"

definition read_precision :: "u8 list \<Rightarrow> va list \<Rightarrow> (int \<times> u8 list \<times> va list) option" where
  "read_precision fmt args =
     (if peek fmt = chr CHR ''.''
      then do { let fmt = tl fmt;
                (p, fmt, args) \<leftarrow>
                  (if isdigit (peek fmt) then do { (p, fmt) \<leftarrow> skip_atoi 0 fmt; Some (p, fmt, args) }
                   else if peek fmt = chr CHR ''*'' then do { (x, args) \<leftarrow> va_int args; Some (sint x, tl fmt, args) }
                   else Some (- 1, fmt, args));
                Some (max p 0, fmt, args) }
      else Some (- 1, fmt, args))"

definition read_qualifier :: "u8 list \<Rightarrow> u8 \<times> u8 list" where
  "read_qualifier fmt = (if peek fmt = chr CHR ''h'' \<or> peek fmt = chr CHR ''l'' then (peek fmt, tl fmt) else (0, fmt))"

subsection \<open>Conversions\<close>

definition print_char :: "int \<Rightarrow> u8 \<Rightarrow> u8 \<Rightarrow> out \<Rightarrow> out option" where
  "print_char width flags c o1 =
     do { o1 \<leftarrow> (if flags AND LEFT = 0 then emits (nat (width - 1)) (chr CHR '' '') o1 else Some o1);
          o1 \<leftarrow> put_char c o1;
          if flags AND LEFT = 0 then Some o1 else emits (nat (width - 1)) (chr CHR '' '') o1 }"

text \<open>The length of a string is assigned to an \<open>int\<close>; a string of 2 GB or more is not modelled.\<close>

definition print_string :: "int \<Rightarrow> int \<Rightarrow> u8 \<Rightarrow> u8 list option \<Rightarrow> out \<Rightarrow> out option" where
  "print_string width precision flags str o1 =
     (let s = (case str of None \<Rightarrow> map chr ''(NULL)'' | Some s \<Rightarrow> s);
          len = int (length s)
      in if len > INT_MAX then None
         else do {
           let len = (if precision > 0 \<and> len > precision then precision else len);
           o1 \<leftarrow> (if flags AND LEFT = 0 then emits (nat (width - len)) (chr CHR '' '') o1 else Some o1);
           o1 \<leftarrow> emit_all (take (nat len) s) o1;
           if flags AND LEFT = 0 then Some o1 else emits (nat (width - len)) (chr CHR '' '') o1 })"

text \<open>The number of an argument, with its qualifier.\<close>

definition number_arg :: "u8 \<Rightarrow> u8 \<Rightarrow> u32 \<Rightarrow> u32" where
  "number_arg qualifier flags x =
     (if qualifier = chr CHR ''h'' then (if flags AND SIGN \<noteq> 0 then scast (ucast x :: u16) else ucast (ucast x :: u16)) else x)"

text \<open>The conversion after the flags, width, precision and qualifier. At the end of the format it prints the percent sign.\<close>

definition convert :: "u8 \<Rightarrow> int \<Rightarrow> int \<Rightarrow> u8 \<Rightarrow> u8 \<Rightarrow> va list \<Rightarrow> out \<Rightarrow> (va list \<times> out) option" where
  "convert flags width precision qualifier c args o1 =
     (if c = chr CHR ''c''
      then do { (x, args) \<leftarrow> va_int args; o1 \<leftarrow> print_char width flags (ucast x) o1; Some (args, o1) }
      else if c = chr CHR ''s''
      then do { (s, args) \<leftarrow> va_str args; o1 \<leftarrow> print_string width precision flags s o1; Some (args, o1) }
      else if c = chr CHR ''p''
      then do { (x, args) \<leftarrow> va_int args;
                let (width, flags) = (if width = - 1 then (8, flags OR ZEROPAD) else (width, flags));
                o1 \<leftarrow> print_number x 16 width precision flags o1; Some (args, o1) }
      else if c = chr CHR ''%'' then do { o1 \<leftarrow> put_char (chr CHR ''%'') o1; Some (args, o1) }
      else if c = chr CHR ''o''
      then do { (x, args) \<leftarrow> va_int args; o1 \<leftarrow> print_number (number_arg qualifier flags x) 8 width precision flags o1; Some (args, o1) }
      else if c = chr CHR ''X''
      then do { let flags = flags OR LARGE; (x, args) \<leftarrow> va_int args;
                o1 \<leftarrow> print_number (number_arg qualifier flags x) 16 width precision flags o1; Some (args, o1) }
      else if c = chr CHR ''x''
      then do { (x, args) \<leftarrow> va_int args; o1 \<leftarrow> print_number (number_arg qualifier flags x) 16 width precision flags o1; Some (args, o1) }
      else if c = chr CHR ''d'' \<or> c = chr CHR ''i''
      then do { let flags = flags OR SIGN; (x, args) \<leftarrow> va_int args;
                o1 \<leftarrow> print_number (number_arg qualifier flags x) 10 width precision flags o1; Some (args, o1) }
      else if c = chr CHR ''u''
      then do { (x, args) \<leftarrow> va_int args; o1 \<leftarrow> print_number (number_arg qualifier flags x) 10 width precision flags o1; Some (args, o1) }
      else do { o1 \<leftarrow> put_char (chr CHR ''%'') o1;
                o1 \<leftarrow> (if c \<noteq> 0 then put_char c o1 else Some o1);
                Some (args, o1) })"

text \<open>A conversion specification after its percent sign, the format after it and the arguments after those of its width and precision.\<close>

record spec =
  sp_flags :: u8
  sp_width :: int
  sp_precision :: int
  sp_qualifier :: u8
  sp_conv :: u8

definition read_spec :: "u8 list \<Rightarrow> va list \<Rightarrow> (spec \<times> u8 list \<times> va list) option" where
  "read_spec fmt args =
     do { let (flags, fmt) = read_flags 0 fmt;
          (width, flags, fmt, args) \<leftarrow> read_width flags fmt args;
          (precision, fmt, args) \<leftarrow> read_precision fmt args;
          let (qualifier, fmt) = read_qualifier fmt;
          Some (\<lparr>sp_flags = flags, sp_width = width, sp_precision = precision, sp_qualifier = qualifier, sp_conv = peek fmt\<rparr>,
            tl fmt, args) }"

definition directive :: "u8 list \<Rightarrow> va list \<Rightarrow> out \<Rightarrow> (u8 list \<times> va list \<times> out) option" where
  "directive fmt args o1 =
     do { (sp, fmt, args) \<leftarrow> read_spec fmt args;
          (args, o1) \<leftarrow> convert (sp_flags sp) (sp_width sp) (sp_precision sp) (sp_qualifier sp) (sp_conv sp) args o1;
          Some (fmt, args, o1) }"

lemma read_flags_shorter: "read_flags flags fmt = (f, rest) \<Longrightarrow> length rest \<le> length fmt"
  by (induction flags fmt arbitrary: f rest rule: read_flags.induct) (auto split: if_splits intro: le_SucI)

lemma skip_atoi_shorter: "skip_atoi i fmt = Some (w, rest) \<Longrightarrow> length rest \<le> length fmt"
  by (induction i fmt rule: skip_atoi.induct) (auto simp: Let_def split: if_splits intro: le_SucI)

lemma read_spec_shorter: "read_spec fmt args = Some (sp, rest, args') \<Longrightarrow> length rest \<le> length fmt"
  by (fastforce simp: read_spec_def read_width_def read_precision_def read_qualifier_def Let_def
      dest!: read_flags_shorter skip_atoi_shorter split: prod.splits if_splits bind_splits)

lemma directive_shorter: "directive fmt args o1 = Some (rest, args', o2) \<Longrightarrow> length rest \<le> length fmt"
  by (auto simp: directive_def dest: read_spec_shorter split: bind_splits)

function format_loop :: "u8 list \<Rightarrow> va list \<Rightarrow> out \<Rightarrow> out option" where
  "format_loop [] args o1 = Some o1"
| "format_loop (c # fmt) args o1 =
     (if c \<noteq> chr CHR ''%'' then do { o1 \<leftarrow> put_char c o1; format_loop fmt args o1 }
      else do { (fmt', args', o2) \<leftarrow> directive fmt args o1; format_loop fmt' args' o2 })"
  by pat_completeness auto

termination
  by (relation "measure (\<lambda>(fmt, _, _). length fmt)") (auto dest: directive_shorter simp: less_Suc_eq_le)

text \<open>
  \<open>rt_vsnprintf\<close> for the object \<open>mem\<close> at the address \<open>buf\<close>. The end of a buffer that would be beyond the address space is put at its
  last address. The result, an \<open>rt_int32_t\<close>, is given by its bits.
\<close>

definition rt_vsnprintf :: "u32 \<Rightarrow> u32 \<Rightarrow> u8 list \<Rightarrow> u8 list \<Rightarrow> va list \<Rightarrow> (u32 \<times> u8 list) option" where
  "rt_vsnprintf buf sz mem fmt args =
     (let end1 = buf + sz;
          (end1, sz) = (if end1 < buf then (- 1, - 1 - buf) else (end1, sz))
      in do {
        o1 \<leftarrow> format_loop fmt args \<lparr>out_mem = mem, out_buf = buf, out_end = end1, out_str = buf\<rparr>;
        o1 \<leftarrow> (if sz > 0
               then if out_str o1 < out_end o1 then store (out_str o1) 0 o1 else store (out_end o1 - 1) 0 o1
               else Some o1);
        Some (out_str o1 - buf, out_mem o1) })"

definition rt_snprintf :: "u32 \<Rightarrow> u32 \<Rightarrow> u8 list \<Rightarrow> u8 list \<Rightarrow> va list \<Rightarrow> (u32 \<times> u8 list) option" where
  "rt_snprintf buf sz mem fmt args = rt_vsnprintf buf sz mem fmt args"

definition rt_vsprintf :: "u32 \<Rightarrow> u8 list \<Rightarrow> u8 list \<Rightarrow> va list \<Rightarrow> (u32 \<times> u8 list) option" where
  "rt_vsprintf buf mem fmt args = rt_vsnprintf buf (- 1) mem fmt args"

definition rt_sprintf :: "u32 \<Rightarrow> u8 list \<Rightarrow> u8 list \<Rightarrow> va list \<Rightarrow> (u32 \<times> u8 list) option" where
  "rt_sprintf buf mem fmt args = rt_vsprintf buf mem fmt args"

text \<open>
  \<open>rt_kprintf\<close> formats into its static buffer of 128 bytes, which is at the address \<open>addr\<close>, all but the last of which may be written,
  and sends at most 127 bytes of it.
\<close>

definition rt_kprintf :: "u32 \<Rightarrow> u8 list \<Rightarrow> va list \<Rightarrow> u32 \<Rightarrow> u8 list \<times> serial_device \<Rightarrow> (u8 list \<times> serial_device) option" where
  "rt_kprintf addr fmt args console = (\<lambda>(rt_log_buf, s). do {
     (len, rt_log_buf) \<leftarrow> rt_vsnprintf addr (of_nat RT_CONSOLEBUF_SIZE - 1) rt_log_buf fmt args;
     let len = (if len > of_nat RT_CONSOLEBUF_SIZE - 1 then of_nat RT_CONSOLEBUF_SIZE - 1 else len);
     s \<leftarrow> console_write rt_log_buf len console s;
     Some (rt_log_buf, s) })"

end
