(* ===== verification/FormatProps.thy ===== *)
theory FormatProps imports Format SerialProps begin

text \<open>
  What formatted output writes: the layout of a number, the text of a format as a reference for the code, how much of it fits a
  buffer and when a pointer into the buffer wraps, decimal numbers read back by the parser of widths, and what \<open>rt_kprintf\<close> sends.
\<close>

subsection \<open>Output is the text that is emitted\<close>

lemma emit_all_simps [simp]: "emit_all [] o1 = Some o1" "emit_all (c # t) o1 = Option.bind (put_char c o1) (emit_all t)"
  by (simp_all add: emit_all_def)

lemma emit_all_Nil: "emit_all [] = Some"
  by (rule ext) simp

lemma emit_all_Cons: "emit_all (c # t) = (\<lambda>o1. Option.bind (put_char c o1) (emit_all t))"
  by (rule ext) simp

lemma emit_all_append: "emit_all (s @ t) = (\<lambda>o1. Option.bind (emit_all s o1) (emit_all t))"
  by (rule ext) (simp add: emit_all_def for_each_append)

lemma emits_text: "emits k c = emit_all (replicate k c)"
proof
  fix o1
  have s: "for_each f [x] = f x" for f :: "'i \<Rightarrow> out \<Rightarrow> out option" and x by (rule ext) (simp split: bind_split)
  show "emits k c o1 = emit_all (replicate k c) o1"
  proof (induction k)
    case (Suc k)
    have "for_each (\<lambda>_. put_char c) ([0..<k] @ [k]) o1 = for_each put_char (replicate k c @ [c]) o1"
      using Suc unfolding for_each_append s by (simp add: emits_def emit_all_def)
    then show ?case by (simp add: emits_def emit_all_def flip: replicate_append_same)
  qed (simp add: emits_def)
qed

lemma overwritten_Suc:
  "n < length m \<Longrightarrow> overwritten (Suc n) (m[n := c]) t = overwritten n m (c # t)"
  by (simp add: overwritten_def take_Suc_conv_app_nth)

text \<open>A text that does not run over the end of the address space, from position \<open>n\<close> of the object, with the end at position \<open>e\<close>.\<close>

lemma emit_all_result:
  assumes "out_str o1 = out_buf o1 + of_nat n" and "unat (out_end o1) = unat (out_buf o1) + e"
    and "unat (out_buf o1) + n + length t \<le> 2 ^ 32"
    and "e \<le> length (out_mem o1) \<or> n + length t \<le> length (out_mem o1)"
  shows "emit_all t o1 = Some (o1\<lparr>out_mem := overwritten n (out_mem o1) (take (e - n) t), out_str := out_buf o1 + of_nat (n + length t)\<rparr>)"
  using assms
proof (induction t arbitrary: o1 n)
  case (Cons c t)
  have p: "unat (out_str o1) = unat (out_buf o1) + n" "unat (out_str o1 - out_buf o1) = n"
    using Cons.prems(1,3) by (simp_all add: unat_word_ariths unat_of_nat)
  have lt: "out_str o1 < out_end o1 \<longleftrightarrow> n < e" by (simp add: word_less_nat_alt p(1) Cons.prems(2))
  show ?case
  proof (cases "n < e")
    case True
    then have n: "n < length (out_mem o1)" using Cons.prems(4) by auto
    let ?o = "o1\<lparr>out_mem := (out_mem o1)[n := c], out_str := out_str o1 + 1\<rparr>"
    have "put_char c o1 = Some ?o" using True n by (simp add: put_char_def store_def lt p(2) wr_Some)
    moreover have "emit_all t ?o = Some (?o\<lparr>out_mem := overwritten (Suc n) (out_mem ?o) (take (e - Suc n) t),
        out_str := out_buf ?o + of_nat (Suc n + length t)\<rparr>)"
      using Cons.prems by (intro Cons.IH) auto
    moreover have "take (e - n) (c # t) = c # take (e - Suc n) t" using True by (simp add: take_Cons' Suc_diff_Suc)
    ultimately show ?thesis using n by (simp add: overwritten_Suc)
  next
    case False
    let ?o = "o1\<lparr>out_str := out_str o1 + 1\<rparr>"
    have "put_char c o1 = Some ?o" using False by (simp add: put_char_def lt)
    moreover have "emit_all t ?o = Some (?o\<lparr>out_mem := overwritten (Suc n) (out_mem ?o) (take (e - Suc n) t),
        out_str := out_buf ?o + of_nat (Suc n + length t)\<rparr>)"
      using Cons.prems by (intro Cons.IH) auto
    ultimately show ?thesis using False by simp
  qed
qed simp

text \<open>When the pointer wraps, it is below the end again, and the write is far from the object.\<close>

lemma store_wrapped:
  assumes "unat (out_buf o1) + length (out_mem o1) \<le> 2 ^ 32" and "out_buf o1 \<noteq> 0"
  shows "store 0 c o1 = None"
proof -
  have "unat (0 - out_buf o1) = 2 ^ 32 - unat (out_buf o1)"
    using unat_sub_if' [of 0 "out_buf o1"] assms(2) by (simp add: unat_eq_zero)
  then show ?thesis using assms(1) by (simp add: store_def wr_None)
qed

subsection \<open>Numbers\<close>

definition spaces :: "int \<Rightarrow> u8 list" where "spaces k = replicate (nat k) (chr CHR '' '')"
definition zeros :: "int \<Rightarrow> u8 list" where "zeros k = replicate (nat k) (chr CHR ''0'')"

text \<open>The sign of a number, and the number without it.\<close>

definition sign_text :: "u8 \<Rightarrow> u32 \<Rightarrow> u8 list" where
  "sign_text type num =
     (if type AND SIGN = 0 then [] else if sint num < 0 then map chr ''-'' else if type AND PLUS \<noteq> 0 then map chr ''+''
      else if type AND SPACE \<noteq> 0 then map chr '' '' else [])"

definition magnitude :: "u8 \<Rightarrow> u32 \<Rightarrow> u32" where
  "magnitude type num = (if type AND SIGN \<noteq> 0 \<and> sint num < 0 then - num else num)"

text \<open>The digits, with zeros up to the precision; a precision of zero leaves them out.\<close>

definition digits_text :: "u8 \<Rightarrow> u8 \<Rightarrow> int \<Rightarrow> u32 \<Rightarrow> u8 list" where
  "digits_text base type precision num =
     (let ds = (if num = 0 then map chr ''0'' else rev (number_digits base type num))
      in zeros (precision - int (length ds)) @ (if precision = 0 then [] else ds))"

lemma digit_case: "digit (type AND NOT ZEROPAD) d = digit type d"
proof -
  have "NOT ZEROPAD AND LARGE = LARGE" by (simp add: ZEROPAD_def LARGE_def)
  then show ?thesis by (simp add: digit_def and.assoc)
qed

lemma number_digits_case: "number_digits base (type AND NOT ZEROPAD) num = number_digits base type num"
proof (induction base type num rule: number_digits.induct)
  case (1 base type num)
  show ?case
    unfolding number_digits.simps [of base "type AND NOT ZEROPAD" num] number_digits.simps [of base type num] digit_case using 1 by simp
qed

lemma flag_case: "f AND ZEROPAD = 0 \<Longrightarrow> (type AND NOT ZEROPAD) AND f = type AND f"
proof -
  assume "f AND ZEROPAD = 0"
  then have "NOT ZEROPAD AND f = f"
    by (auto simp: bit_eq_iff bit_and_iff bit_not_iff dest: bit_imp_le_length)
  then show ?thesis by (simp add: and.assoc)
qed

text \<open>
  The layout of a number: the spaces or zeros that fill the width go before the sign, after it or to the end. Undefined are the
  negation of the smallest number, and a precision so large that counting down from the width that is left overflows.
\<close>

definition number_text :: "u32 \<Rightarrow> u8 \<Rightarrow> int \<Rightarrow> int \<Rightarrow> u8 \<Rightarrow> u8 list option" where
  "number_text num base width precision type =
     (let sg = sign_text type num; n = magnitude type num;
          ds = digits_text base type precision n;
          len = max precision (int (length (digits_text base type (- 1) n)));
          pd = width - len - int (length sg)
      in if type AND SIGN \<noteq> 0 \<and> sint num = - (2 ^ 31) then None
         else if type AND LEFT \<noteq> 0 then (if pd < 1 - 2 ^ 31 then None else Some (sg @ ds @ spaces pd))
         else if type AND ZEROPAD \<noteq> 0 then (if pd < 2 - 2 ^ 31 then None else Some (sg @ zeros pd @ ds))
         else (if pd < 3 - 2 ^ 31 then None else Some (spaces pd @ sg @ ds)))"

lemma or_eq_0: "a OR b = 0 \<longleftrightarrow> a = 0 \<and> b = 0" for a b :: u8
  by (auto simp: bit_eq_iff bit_or_iff)

lemma pad_flags: "type AND (ZEROPAD OR LEFT) = 0 \<longleftrightarrow> type AND ZEROPAD = 0 \<and> type AND LEFT = 0"
  by (simp add: bit.conj_disj_distrib or_eq_0)

lemma cleared_flag: "(type AND NOT ZEROPAD) AND ZEROPAD = 0"
  by (simp add: and.assoc)

lemma other_flags:
  "(type AND NOT ZEROPAD) AND LEFT = type AND LEFT" "(type AND NOT ZEROPAD) AND SIGN = type AND SIGN"
  "(type AND NOT ZEROPAD) AND PLUS = type AND PLUS" "(type AND NOT ZEROPAD) AND SPACE = type AND SPACE"
  by (rule flag_case, simp add: LEFT_def SIGN_def PLUS_def SPACE_def ZEROPAD_def)+

text \<open>The loops of \<open>print_number\<close> that fill up the width, and what follows the sign.\<close>

lemma pad_text:
  "pad c sz o1 = (if sz \<le> - (2 ^ 31) then None
     else do { o1 \<leftarrow> emit_all (replicate (nat sz) c) o1; Some (min sz 0 - 1, o1) })"
  by (auto simp: pad_def emits_text decr_def split: bind_split)

definition print_tail :: "u8 list \<Rightarrow> int \<Rightarrow> int \<Rightarrow> out \<Rightarrow> out option" where
  "print_tail tmp precision sz o1 =
     do { o1 \<leftarrow> emits (nat (max (int (length tmp)) precision - int (length tmp))) (chr CHR ''0'') o1;
          o1 \<leftarrow> (if precision \<noteq> 0 then emit_all (rev tmp) o1 else Some o1);
          (sz, o1) \<leftarrow> pad (chr CHR '' '') sz o1;
          Some o1 }"

lemma print_tail_text:
  "print_tail tmp precision sz o1 = (if sz \<le> - (2 ^ 31) then None
     else emit_all (zeros (precision - int (length tmp)) @ (if precision = 0 then [] else rev tmp) @ spaces sz) o1)"
proof -
  have z: "nat (max i precision - i) = nat (precision - i)" for i by (simp add: max_def)
  show ?thesis
    by (simp add: print_tail_def pad_text emits_text emit_all_append emit_all_Nil zeros_def spaces_def z)
qed

text \<open>The part of \<open>print_number\<close> after the sign has been split off.\<close>

definition print_parts :: "u8 \<Rightarrow> u8 list \<Rightarrow> int \<Rightarrow> int \<Rightarrow> bool \<Rightarrow> bool \<Rightarrow> out \<Rightarrow> out option" where
  "print_parts sign tmp s precision left zero o1 =
     (let sz = s - max (int (length tmp)) precision in do {
        (sz, o1) \<leftarrow> (if \<not> zero \<and> \<not> left then pad (chr CHR '' '') (if sign \<noteq> 0 \<and> sz > 0 then sz - 1 else sz) o1 else Some (sz, o1));
        (sz, o1) \<leftarrow> (if sign \<noteq> 0 then do { o1 \<leftarrow> put_char sign o1; sz \<leftarrow> decr sz; Some (sz, o1) } else Some (sz, o1));
        (sz, o1) \<leftarrow> (if \<not> left then pad (if zero then chr CHR ''0'' else chr CHR '' '') sz o1 else Some (sz, o1));
        print_tail tmp precision sz o1 })"

lemma emit_one: "put_char c o1 = emit_all [c] o1"
  by (simp add: emit_all_Nil)

lemma print_parts_text:
  "print_parts sign tmp s precision left zero o1 =
     (let sg = (if sign \<noteq> 0 then [sign] else []); ds = zeros (precision - int (length tmp)) @ (if precision = 0 then [] else rev tmp);
          pd = s - max (int (length tmp)) precision - int (length sg)
      in if left then (if pd < 1 - 2 ^ 31 then None else emit_all (sg @ ds @ spaces pd) o1)
         else if zero then (if pd < 2 - 2 ^ 31 then None else emit_all (sg @ zeros pd @ ds) o1)
         else (if pd < 3 - 2 ^ 31 then None else emit_all (spaces pd @ sg @ ds) o1))"
proof -
  define ds where "ds = zeros (precision - int (length tmp)) @ (if precision = 0 then [] else rev tmp)"
  define sz where "sz = s - max (int (length tmp)) precision"
  have t: "print_tail tmp precision n o1 = (if n \<le> - (2 ^ 31) then None else emit_all (ds @ spaces n) o1)" for n o1
    by (simp add: print_tail_text ds_def)
  have neg: "n \<le> 0 \<Longrightarrow> spaces n = []" "n \<le> 0 \<Longrightarrow> zeros n = []" for n by (simp_all add: spaces_def zeros_def)
  have r: "replicate (nat n) 32 = spaces n" "replicate (nat n) 48 = zeros n" for n
    by (simp_all add: spaces_def zeros_def)
  show ?thesis
    unfolding print_parts_def Let_def ds_def [symmetric] sz_def [symmetric] t pad_text
    by (cases left; cases zero; cases "sign = 0"; cases "sz > 0";
        cases "2147483647 + sz \<le> 0"; cases "2147483646 + sz \<le> 0")
      (simp_all add: decr_def emit_all_append emit_all_Nil emit_all_Cons neg r min_def)
qed

lemma print_number_parts:
  "print_number num base s precision type o1 =
     (if type AND SIGN \<noteq> 0 \<and> sint num = - (2 ^ 31) then None
      else print_parts (if sign_text type num = [] then 0 else hd (sign_text type num))
       (if magnitude type num = 0 then [chr CHR ''0''] else number_digits base type (magnitude type num))
       s precision (type AND LEFT \<noteq> 0) (type AND LEFT = 0 \<and> type AND ZEROPAD \<noteq> 0) o1)"
proof -
  have a: "print_number num base s precision type o1 =
     (if type AND SIGN \<noteq> 0 \<and> sint num = - (2 ^ 31) then None
      else print_parts (if sign_text type num = [] then 0 else hd (sign_text type num))
       (if magnitude type num = 0 then [chr CHR ''0''] else number_digits base type (magnitude type num))
       s precision (type AND LEFT \<noteq> 0) (type AND ZEROPAD \<noteq> 0) o1)" if "type AND LEFT \<noteq> 0 \<longrightarrow> type AND ZEROPAD = 0" for type
  proof -
    have ty: "(if type AND LEFT \<noteq> 0 then type AND NOT ZEROPAD else type) = type"
    proof -
      have "type AND NOT ZEROPAD = type" if "type AND ZEROPAD = 0" for type
        using that by (auto simp: bit_eq_iff bit_and_iff bit_not_iff dest: bit_imp_le_length)
      with that show ?thesis by simp
    qed
    have sg: "(if type AND SIGN \<noteq> 0
         then (if sint num < 0 then (if sint num = - (2 ^ 31) then None else Some (chr CHR ''-'', - num))
               else if type AND PLUS \<noteq> 0 then Some (chr CHR ''+'', num)
               else if type AND SPACE \<noteq> 0 then Some (chr CHR '' '', num) else Some (0, num))
         else Some (0, num))
       = (if type AND SIGN \<noteq> 0 \<and> sint num = - (2 ^ 31) then None
          else Some (if sign_text type num = [] then 0 else hd (sign_text type num), magnitude type num))"
      by (simp add: sign_text_def magnitude_def)
    show ?thesis
      unfolding print_number_def ty Let_def sg print_parts_def print_tail_def pad_flags not_not
      by (cases "type AND SIGN \<noteq> 0 \<and> sint num = - (2 ^ 31)")
        (simp_all only: if_True if_False bind.bind_lzero bind.bind_lunit prod.case simp_thms)
  qed
  show ?thesis
  proof (cases "type AND LEFT = 0")
    case False
    have n: "(type AND NOT ZEROPAD) AND NOT ZEROPAD = type AND NOT ZEROPAD" by (simp add: and.assoc)
    have l: "(type AND NOT ZEROPAD) AND LEFT \<noteq> 0" using False by (simp add: other_flags)
    have "print_number num base s precision type o1 = print_number num base s precision (type AND NOT ZEROPAD) o1"
      unfolding print_number_def if_P [OF False] if_P [OF l] n ..
    with a [of "type AND NOT ZEROPAD"] False show ?thesis
      by (simp add: cleared_flag other_flags number_digits_case sign_text_def magnitude_def)
  qed (use a [of type] in simp)
qed

lemma bind_if: "Option.bind (if b then x else y) f = (if b then Option.bind x f else Option.bind y f)"
  by simp

lemma print_number_text:
  "print_number num base width precision type o1 = do { t \<leftarrow> number_text num base width precision type; emit_all t o1 }"
proof -
  have sg: "(if (if sign_text type num = [] then 0 else hd (sign_text type num)) \<noteq> 0 then [if sign_text type num = [] then 0 else hd (sign_text type num)]
      else []) = sign_text type num"
    by (simp add: sign_text_def)
  define tmp where "tmp = (if magnitude type num = 0 then [chr CHR ''0''] else number_digits base type (magnitude type num))"
  have ds: "(if magnitude type num = 0 then map chr ''0'' else rev (number_digits base type (magnitude type num))) = rev tmp"
    by (simp add: tmp_def)
  have d: "digits_text base type p (magnitude type num) = zeros (p - int (length tmp)) @ (if p = 0 then [] else rev tmp)" for p
    unfolding digits_text_def Let_def ds length_rev ..
  have z: "length (zeros (- 1 - int (length tmp)) @ (if - 1 = (0 :: int) then [] else rev tmp)) = length tmp"
    by (simp add: zeros_def)
  show ?thesis
    unfolding print_number_parts print_parts_text sg number_text_def tmp_def [symmetric] Let_def d z
    unfolding max.commute [of "int (length tmp)"]
    by (cases "type AND LEFT = 0"; cases "type AND ZEROPAD = 0"; cases "type AND SIGN \<noteq> 0 \<and> sint num = - (2 ^ 31)")
      (simp_all only: bind_if bind.bind_lzero bind.bind_lunit simp_thms if_True if_False)
qed

subsection \<open>The text of a format\<close>

definition char_text :: "int \<Rightarrow> u8 \<Rightarrow> u8 \<Rightarrow> u8 list" where
  "char_text width flags c = (if flags AND LEFT = 0 then spaces (width - 1) @ [c] else c # spaces (width - 1))"

lemma print_char_text: "print_char width flags c o1 = emit_all (char_text width flags c) o1"
  by (simp add: print_char_def char_text_def emits_text emit_all_append emit_all_Cons emit_all_Nil spaces_def)

definition string_text :: "int \<Rightarrow> int \<Rightarrow> u8 \<Rightarrow> u8 list option \<Rightarrow> u8 list option" where
  "string_text width precision flags str =
     (let s = (case str of None \<Rightarrow> map chr ''(NULL)'' | Some s \<Rightarrow> s);
          t = (if precision > 0 then take (nat precision) s else s); pd = spaces (width - int (length t))
      in if int (length s) > INT_MAX then None else Some (if flags AND LEFT = 0 then pd @ t else t @ pd))"

lemma print_string_text:
  "print_string width precision flags str o1 = do { t \<leftarrow> string_text width precision flags str; emit_all t o1 }"
proof -
  define s where "s = (case str of None \<Rightarrow> map chr ''(NULL)'' | Some s \<Rightarrow> s)"
  define t where "t = (if precision > 0 then take (nat precision) s else s)"
  have l: "(if precision > 0 \<and> int (length s) > precision then precision else int (length s)) = int (length t)" by (auto simp: t_def)
  have t: "take (length t) s = t" by (auto simp: t_def min_def)
  show ?thesis
    unfolding print_string_def string_text_def Let_def s_def [symmetric] l t_def [symmetric]
    by (simp add: emits_text emit_all_append emit_all_Nil spaces_def t)
qed

text \<open>The base and the flag of a conversion that prints an integer.\<close>

definition integer_conv :: "u8 \<Rightarrow> (u8 \<times> u8) option" where
  "integer_conv c =
     map_of [(chr CHR ''d'', (10, SIGN)), (chr CHR ''i'', (10, SIGN)), (chr CHR ''u'', (10, 0)), (chr CHR ''x'', (16, 0)),
       (chr CHR ''X'', (16, LARGE)), (chr CHR ''o'', (8, 0))] c"

text \<open>The text of a conversion, and the arguments after its own.\<close>

definition conversion_text :: "spec \<Rightarrow> va list \<Rightarrow> (va list \<times> u8 list) option" where
  "conversion_text sp args =
     (let flags = sp_flags sp; width = sp_width sp; precision = sp_precision sp; c = sp_conv sp
      in case integer_conv c of
           Some (base, fl) \<Rightarrow> do { (x, args) \<leftarrow> va_int args;
             t \<leftarrow> number_text (number_arg (sp_qualifier sp) (flags OR fl) x) base width precision (flags OR fl); Some (args, t) }
         | None \<Rightarrow>
             if c = chr CHR ''c'' then do { (x, args) \<leftarrow> va_int args; Some (args, char_text width flags (ucast x)) }
             else if c = chr CHR ''s'' then do { (s, args) \<leftarrow> va_str args; t \<leftarrow> string_text width precision flags s; Some (args, t) }
             else if c = chr CHR ''p''
             then do { (x, args) \<leftarrow> va_int args;
                       t \<leftarrow> (if width = - 1 then number_text x 16 8 precision (flags OR ZEROPAD) else number_text x 16 width precision flags);
                       Some (args, t) }
             else if c = chr CHR ''%'' \<or> c = 0 then Some (args, map chr ''%'')
             else Some (args, [chr CHR ''%'', c]))"

function format_text :: "u8 list \<Rightarrow> va list \<Rightarrow> u8 list option" where
  "format_text [] args = Some []"
| "format_text (c # fmt) args =
     (if c \<noteq> chr CHR ''%'' then map_option ((#) c) (format_text fmt args)
      else do { (sp, fmt, args) \<leftarrow> read_spec fmt args; (args, t) \<leftarrow> conversion_text sp args; map_option ((@) t) (format_text fmt args) })"
  by pat_completeness auto

termination
  by (relation "measure (\<lambda>(fmt, _). length fmt)") (auto dest: read_spec_shorter simp: less_Suc_eq_le)

lemma convert_text:
  "convert (sp_flags sp) (sp_width sp) (sp_precision sp) (sp_qualifier sp) (sp_conv sp) args o1 =
     do { (args, t) \<leftarrow> conversion_text sp args; o1 \<leftarrow> emit_all t o1; Some (args, o1) }"
  unfolding convert_def conversion_text_def integer_conv_def Let_def
  by (simp add: print_number_text print_string_text print_char_text emit_all_Cons emit_all_Nil split_def)

lemma map_option_bind: "map_option f x = Option.bind x (\<lambda>y. Some (f y))"
  by (cases x) simp_all

lemma loop_text: "format_loop fmt args o1 = do { t \<leftarrow> format_text fmt args; emit_all t o1 }"
proof (induction fmt args arbitrary: o1 rule: format_text.induct)
  case (2 c fmt args)
  show ?case
  proof (cases "c = chr CHR ''%''")
    case True
    show ?thesis
    proof (cases "read_spec fmt args")
      case (Some p)
      obtain sp f a where p: "p = (sp, f, a)" by (cases p)
      show ?thesis
      proof (cases "conversion_text sp a")
        case s2: (Some q)
        obtain a' t where q: "q = (a', t)" by (cases q)
        from "2.IH" (2) True Some [unfolded p] s2 [unfolded q]
        have ih: "format_loop f a' = (\<lambda>o1. do { t \<leftarrow> format_text f a'; emit_all t o1 })" by (intro ext) auto
        show ?thesis using True Some [unfolded p] s2 [unfolded q] ih
          by (cases "format_text f a'") (simp_all add: directive_def convert_text emit_all_append)
      qed (use True Some [unfolded p] in \<open>simp add: directive_def convert_text\<close>)
    qed (use True in \<open>simp add: directive_def\<close>)
  next
    case False
    then have ih: "format_loop fmt args = (\<lambda>o1. do { t \<leftarrow> format_text fmt args; emit_all t o1 })" using "2.IH"(1) by (intro ext) auto
    with False show ?thesis by (cases "format_text fmt args") (simp_all add: emit_all_Cons)
  qed
qed simp

subsection \<open>What fits the buffer\<close>

text \<open>
  What an object holds after a text has been formatted into its first \<open>size\<close> bytes: as much of the text as fits before the end
  mark, then the end mark, and the bytes that were there before.
\<close>

definition written :: "nat \<Rightarrow> u8 list \<Rightarrow> u8 list \<Rightarrow> u8 list" where
  "written sz t mem = (if sz = 0 then mem else overwritten 0 mem (take (sz - 1) t @ [0]))"

lemma length_written: "sz \<le> length mem \<Longrightarrow> length (written sz t mem) = length mem"
  by (cases sz) (auto simp: written_def overwritten_def min_def)

lemma write_last:
  "k < length t \<Longrightarrow> k < length mem \<Longrightarrow> (overwritten 0 mem (take (Suc k) t))[k := c] = overwritten 0 mem (take k t @ [c])"
  by (simp add: overwritten_def take_Suc_conv_app_nth list_update_append)

lemma write_end:
  "length t < length mem \<Longrightarrow> (overwritten 0 mem t)[length t := c] = overwritten 0 mem (t @ [c])"
proof -
  assume "length t < length mem"
  then have "drop (length t) mem = mem ! length t # drop (Suc (length t)) mem" by (simp add: Cons_nth_drop_Suc)
  then show ?thesis by (simp add: overwritten_def list_update_append)
qed

lemma unat_minus_1: "unat (- 1 :: u32) = 2 ^ 32 - 1"
  by (simp add: unsigned_minus_1_eq_mask mask_eq_exp_minus_1)

text \<open>The whole call, with the effective size \<open>e\<close>: the object need not be as large as the size says if the text is short.\<close>

lemma vsnprintf_writes:
  assumes "format_text fmt args = Some t" and "unat buf + length t < 2 ^ 32"
    and "e = (if buf + sz < buf then - 1 - buf else sz)" and "unat e \<le> length mem \<or> length t < length mem"
  shows "rt_vsnprintf buf sz mem fmt args = Some (of_nat (length t), written (unat e) t mem)"
proof -
  let ?o = "\<lparr>out_mem = mem, out_buf = buf, out_end = buf + e, out_str = buf\<rparr>"
  have unf: "rt_vsnprintf buf sz mem fmt args =
    do { o1 \<leftarrow> format_loop fmt args ?o;
         o1 \<leftarrow> (if e > 0 then if out_str o1 < out_end o1 then store (out_str o1) 0 o1 else store (out_end o1 - 1) 0 o1 else Some o1);
         Some (out_str o1 - buf, out_mem o1) }"
    by (simp add: rt_vsnprintf_def assms(3))
  have en: "unat (buf + e) = unat buf + unat e"
  proof (cases "buf + sz < buf")
    case True
    have "unat (- 1 - buf) = 2 ^ 32 - 1 - unat buf"
      using unat_sub_if' [of "- 1" buf] unsigned_less [of buf, where 'a = nat] by (simp add: unat_minus_1)
    with True show ?thesis using unsigned_less [of buf, where 'a = nat] by (simp add: assms(3) unat_minus_1)
  next
    case False
    then show ?thesis using unsigned_less [of sz, where 'a = nat]
      by (simp add: assms(3) unat_plus_if' word_less_nat_alt split: if_split_asm)
  qed
  let ?n = "length t" and ?m = "overwritten 0 mem (take (unat e) t)"
  let ?q = "?o\<lparr>out_mem := ?m, out_str := buf + of_nat ?n\<rparr>"
  have "emit_all t ?o = Some ?q"
    using emit_all_result [of ?o 0 "unat e" t] assms(2,4) en by auto
  then have l: "format_loop fmt args ?o = Some ?q" by (simp add: loop_text assms(1))
  have st: "unat (buf + of_nat ?n) = unat buf + ?n" using assms(2) by (simp add: unat_word_ariths unat_of_nat)
  have ix: "unat (of_nat ?n :: u32) = ?n" using assms(2) by (simp add: unat_of_nat)
  show ?thesis
  proof (cases "e = 0")
    case True
    with l show ?thesis by (simp add: unf written_def overwritten_def)
  next
    case e: False
    then obtain k where k: "unat e = Suc k" by (metis not0_implies_Suc unat_eq_zero)
    have pos: "e > 0" using e by (simp add: word_gt_0)
    have lm: "length ?m = length mem" using assms(4) by (auto simp: overwritten_def min_def)
    show ?thesis
    proof (cases "?n < unat e")
      case True
      then have "buf + of_nat ?n < buf + e" by (simp add: word_less_nat_alt st en)
      moreover have n: "?n < length mem" using True assms(4) by auto
      ultimately show ?thesis using True k pos
        by (simp add: unf l store_def ix wr_def length_overwritten write_end written_def)
    next
      case False
      then have "\<not> buf + of_nat ?n < buf + e" by (simp add: word_less_nat_alt st en)
      moreover have "unat (buf + e - 1 - buf) = k"
      proof -
        have "buf + e - 1 - buf = e - 1" by simp
        then show ?thesis using k e by (simp add: unat_minus_one)
      qed
      moreover have n: "k < length mem" "k < ?n" using False assms(4) k by auto
      ultimately show ?thesis using k pos
        using lm by (simp add: unf l store_def wr_def write_last written_def)
    qed
  qed
qed

text \<open>A text that reaches the end of the address space: the pointer wraps, and the byte or the end mark there is a fault.\<close>

lemma vsnprintf_wraps:
  assumes "format_text fmt args = Some t" and "2 ^ 32 \<le> unat buf + length t" and "buf \<noteq> 0" and "sz \<noteq> 0"
    and "unat sz \<le> length mem" and "unat buf + length mem < 2 ^ 32"
  shows "rt_vsnprintf buf sz mem fmt args = None"
proof -
  have en: "unat (buf + sz) = unat buf + unat sz" using assms(5,6) by (simp add: unat_word_ariths)
  then have e: "\<not> buf + sz < buf" "0 < buf + sz" using assms(4) by (simp_all add: word_less_nat_alt word_gt_0 unat_gt_0)
  let ?o = "\<lparr>out_mem = mem, out_buf = buf, out_end = buf + sz, out_str = buf\<rparr>"
  define n where "n = 2 ^ 32 - unat buf"
  have n: "unat buf + n = 2 ^ 32" "n \<le> length t" using assms(2) unsigned_less [of buf, where 'a = nat] by (simp_all add: n_def)
  have "buf + of_nat n = of_nat (unat buf + n)" by simp
  then have z: "buf + of_nat n = 0" unfolding n(1) by simp
  define m where "m = overwritten 0 mem (take (unat sz) (take n t))"
  have m: "length m = length mem" using assms(5) by (auto simp: m_def overwritten_def min_def)
  define q where "q = ?o\<lparr>out_mem := m, out_str := 0\<rparr>"
  have q: "emit_all (take n t) ?o = Some q"
    using emit_all_result [of ?o 0 "unat sz" "take n t"] n assms(5) en z by (simp add: q_def m_def min_def)
  have w: "store 0 c q = None" for c
    by (rule store_wrapped) (use assms(3,6) m in \<open>simp_all add: q_def\<close>)
  have "format_loop fmt args ?o = do { o1 \<leftarrow> emit_all (take n t) ?o; emit_all (drop n t) o1 }"
    using emit_all_append [of "take n t" "drop n t"] by (simp add: loop_text assms(1))
  then have l: "format_loop fmt args ?o = emit_all (drop n t) q" by (simp add: q)
  show ?thesis
  proof (cases "drop n t")
    case Nil
    then have "format_loop fmt args ?o = Some q" by (simp add: l)
    then show ?thesis using e w assms(4) by (simp add: rt_vsnprintf_def q_def word_gt_0)
  next
    case (Cons c u)
    have "put_char c q = None" using e(2) w [of c] by (simp add: put_char_def q_def)
    with Cons have "format_loop fmt args ?o = None" by (simp add: l)
    then show ?thesis using e by (simp add: rt_vsnprintf_def)
  qed
qed

text \<open>
  C38: \<open>rt_vsnprintf\<close> implements \<open>format_text\<close>, the text of a format, for every buffer inside an object. It fails where the text is
  undefined. If the text does not reach the end of the address space, no write is outside the buffer, the result is the length of the whole text,
  and the buffer holds as much of the text as fits before the end mark, then the end mark, the bytes after it as before; a buffer of size 0 is not
  written. If the text does reach the end of the address space, which a few large widths are enough for, the pointer wraps, the comparison with the end lets the next
  byte pass, and it is written outside the object.
\<close>

theorem vsnprintf_truncates:
  assumes "unat sz \<le> length mem" and "unat buf + length mem < 2 ^ 32" and "buf \<noteq> 0"
  shows "case format_text fmt args of
      None \<Rightarrow> rt_vsnprintf buf sz mem fmt args = None
    | Some t \<Rightarrow>
        if unat buf + length t < 2 ^ 32
        then rt_vsnprintf buf sz mem fmt args = Some (of_nat (length t),
          if sz = 0 then mem else take (unat sz - 1) t @ [0] @ drop (min (length t) (unat sz - 1) + 1) mem)
        else sz \<noteq> 0 \<longrightarrow> rt_vsnprintf buf sz mem fmt args = None"
proof (cases "format_text fmt args")
  case None
  then show ?thesis by (simp add: rt_vsnprintf_def loop_text Let_def)
next
  case (Some t)
  have "\<not> buf + sz < buf" using assms(1,2) by (simp add: word_less_nat_alt unat_word_ariths)
  moreover have "written (unat sz) t mem = (if sz = 0 then mem else take (unat sz - 1) t @ [0] @ drop (min (length t) (unat sz - 1) + 1) mem)"
    by (simp add: written_def overwritten_def unat_eq_zero)
  ultimately show ?thesis
    using vsnprintf_writes [OF Some, of buf sz sz mem] vsnprintf_wraps [OF Some _ assms(3) _ assms(1,2)] assms(1) Some by auto
qed

theorem vsnprintf_truncates_witness:
  "rt_vsnprintf 0x20000100 4 [0xFF, 0xFF, 0xFF, 0xFF, 0xFF, 0xFF] (map chr ''%5d%%'') [Int_arg 42] = Some (6, [0x20, 0x20, 0x20, 0, 0xFF, 0xFF]) \<and>
    rt_vsnprintf 0x20000100 0 [] (map chr ''%5d%%'') [Int_arg 42] = Some (6, [])"
proof -
  have t: "format_text (map chr ''%5d%%'') [Int_arg 42] = Some [0x20, 0x20, 0x20, 0x34, 0x32, 0x25]" by code_simp
  show ?thesis
    using vsnprintf_truncates [of 4 "[0xFF, 0xFF, 0xFF, 0xFF, 0xFF, 0xFF]" "0x20000100" "map chr ''%5d%%''" "[Int_arg 42]"]
      vsnprintf_truncates [of 0 "[]" "0x20000100" "map chr ''%5d%%''" "[Int_arg 42]"]
    unfolding t by simp
qed

text \<open>
  Two conversions with the largest width, and the pointer wraps.
\<close>

lemma two_widths_wrap:
  assumes "unat sz \<le> length mem" and "unat buf + length mem < 2 ^ 32" and "1 < buf" and "sz \<noteq> 0"
  shows "rt_vsnprintf buf sz mem (map chr ''%*c%*c'') [Int_arg 0x7FFFFFFF, Int_arg 0x41, Int_arg 0x7FFFFFFF, Int_arg 0x42] = None"
proof -
  define k where "k = nat (INT_MAX - 1)"
  let ?s = "replicate k (chr CHR '' '') :: u8 list"
  have t: "format_text (map chr ''%*c%*c'') [Int_arg 0x7FFFFFFF, Int_arg 0x41, Int_arg 0x7FFFFFFF, Int_arg 0x42]
      = Some (?s @ [0x41] @ ?s @ [0x42])"
    by (simp add: read_spec_def read_width_def read_precision_def read_qualifier_def peek_def isdigit_def va_int_def conversion_text_def
        integer_conv_def char_text_def spaces_def INT_MAX_def LEFT_def k_def)
  have "length (?s @ [0x41] @ ?s @ [0x42]) = 2 ^ 32 - 2"
    unfolding length_append length_replicate k_def INT_MAX_def by simp
  moreover have "2 \<le> unat buf" using assms(3) by (simp add: word_less_nat_alt)
  ultimately show ?thesis using assms(3) by (intro vsnprintf_wraps [OF t _ _ assms(4,1,2)]) auto
qed

text \<open>
  \<open>rt_sprintf\<close> and \<open>rt_vsprintf\<close> give the whole address space as the size: the text must be shorter than the object.
\<close>

lemma sprintf_writes:
  assumes "format_text fmt args = Some t" and "length t < length mem" and "unat buf + length mem < 2 ^ 32" and "buf \<noteq> 0"
  shows "rt_sprintf buf mem fmt args = Some (of_nat (length t), t @ [0] @ drop (length t + 1) mem)"
proof -
  have "buf + - 1 < buf"
    using assms(4) by (simp add: word_less_nat_alt unat_minus_one unat_gt_0)
  moreover have l: "length t < unat (- 1 - buf)"
    using assms(2,3) unat_sub_if' [of "- 1" buf] by (simp add: unat_minus_1)
  moreover have "take (unat (- 1 - buf) - 1) t = t" using l by simp
  ultimately show ?thesis
    using vsnprintf_writes [OF assms(1), of buf "- 1 - buf" "- 1" mem] assms(2,3)
    by (simp add: rt_sprintf_def rt_vsprintf_def written_def overwritten_def)
qed

subsection \<open>Decimal numbers\<close>

lemma sint_split: "sint x = (if sint x < 0 then uint x - 2 ^ 32 else uint x)" for x :: u32
proof -
  have "take_bit 32 (uint x) = uint x" by (rule take_bit_int_eq_self) (use uint_lt2p [of x] in simp_all)
  then have "sint x = uint x - 2 ^ 32 * of_bool (bit (uint x) 31)" by (simp add: sint_uint signed_take_bit_eq_take_bit_minus)
  then show ?thesis using uint_ge_0 [of x] uint_lt2p [of x] by (cases "bit (uint x) 31") simp_all
qed

lemma sint_sign: "sint x < 0 \<Longrightarrow> uint (- x) = - sint x" for x :: u32
proof -
  assume neg: "sint x < 0"
  then have u: "uint x = sint x + 2 ^ 32" using sint_split [of x] by simp
  have "uint (- x) = - uint x mod 2 ^ 32" by (simp add: uint_word_ariths(4))
  also have "\<dots> = - sint x mod 2 ^ 32" by (simp add: u minus_add_distrib mod_diff_right_eq [symmetric])
  also have "\<dots> = - sint x" using neg sint_ge [of x] by (intro mod_pos_pos_trivial) simp_all
  finally show ?thesis .
qed

lemma digit_value: "d < 10 \<Longrightarrow> uint (digit type d) = 48 + uint d" for d :: u32
proof -
  assume "d < 10"
  then have d: "unat d \<in> set [0..<10]" by (simp add: word_less_nat_alt)
  have "list_all (\<lambda>u. uint (map chr ''0123456789abcdef'' ! u :: u8) = 48 + int u \<and> uint (map chr ''0123456789ABCDEF'' ! u :: u8) = 48 + int u) [0..<10]"
    by code_simp
  note f = this [unfolded list_all_iff, rule_format, OF d]
  have "int (unat d) = uint d" by simp
  with f show ?thesis unfolding digit_def by (simp only: split: if_split) blast
qed

definition digits_value :: "int \<Rightarrow> u8 list \<Rightarrow> int" where
  "digits_value i ds = foldl (\<lambda>a c. a * 10 + uint c - 48) i ds"

lemma digits_value_mono: "0 \<le> i \<Longrightarrow> \<forall>c \<in> set ds. isdigit c \<Longrightarrow> i \<le> digits_value i ds"
proof (induction ds arbitrary: i)
  case (Cons c ds)
  then have c: "48 \<le> uint c" by (simp add: isdigit_def)
  have "i * 10 + uint c - 48 \<le> digits_value (i * 10 + uint c - 48) ds" using Cons.prems c by (intro Cons.IH) simp_all
  with Cons.prems(1) c show ?case by (simp add: digits_value_def)
qed (simp add: digits_value_def)

text \<open>The sum in \<open>skip_atoi\<close> still has the code of the digit in it, so it overflows for the last 48 values of an \<open>int\<close>.\<close>

lemma skip_atoi_digits:
  "0 \<le> i \<Longrightarrow> i \<le> INT_MAX - 48 \<Longrightarrow> \<forall>c \<in> set ds. isdigit c \<Longrightarrow>
    skip_atoi i ds = (if digits_value i ds \<le> INT_MAX - 48 then Some (digits_value i ds, []) else None)"
proof (induction ds arbitrary: i)
  case (Cons c ds)
  then have c: "48 \<le> uint c" by (simp add: isdigit_def)
  let ?j = "i * 10 + uint c - 48"
  have v: "digits_value i (c # ds) = digits_value ?j ds" by (simp add: digits_value_def)
  have j: "0 \<le> ?j" using Cons.prems(1) c by simp
  have m: "?j \<le> digits_value ?j ds" using digits_value_mono [of ?j ds] j Cons.prems(3) by simp
  show ?case
  proof (cases "?j \<le> INT_MAX - 48")
    case True
    then have "skip_atoi ?j ds = (if digits_value ?j ds \<le> INT_MAX - 48 then Some (digits_value ?j ds, []) else None)"
      using Cons.IH [OF j] Cons.prems(3) by simp
    with True Cons.prems(3) show ?thesis by (simp add: v Let_def)
  next
    case False
    with m have "\<not> digits_value ?j ds \<le> INT_MAX - 48" by simp
    with False Cons.prems(3) show ?thesis by (simp add: v Let_def)
  qed
qed (simp add: digits_value_def)

lemma number_digits_decimal:
  "(\<forall>c \<in> set (number_digits 10 type num). isdigit c) \<and> digits_value 0 (rev (number_digits 10 type num)) = uint num
    \<and> (num \<noteq> 0 \<longrightarrow> number_digits 10 type num \<noteq> [] \<and> last (number_digits 10 type num) \<noteq> chr CHR ''0'')"
proof (induction num rule: measure_induct_rule [of unat])
  case (less num)
  show ?case
  proof (cases "num = 0")
    case True
    then show ?thesis by (simp add: number_digits.simps digits_value_def)
  next
    case False
    let ?q = "num div 10" and ?d = "num mod 10"
    have d: "uint (digit type ?d) = 48 + uint ?d" by (rule digit_value) (simp add: word_less_def uint_mod)
    have "0 < unat num" using False by (simp add: unat_eq_zero flip: neq0_conv)
    then have "unat ?q < unat num" by (simp add: unat_div_distrib)
    note ih = less [OF this]
    have n: "number_digits 10 type num = digit type ?d # number_digits 10 type ?q"
      using False by (simp add: number_digits.simps [of 10 type num] divisor_def)
    have "isdigit (digit type ?d)" by (simp add: isdigit_def d uint_mod)
    moreover have "digits_value 0 (rev (number_digits 10 type num)) = uint num"
      using ih by (simp add: n digits_value_def d uint_div uint_mod)
    moreover have "?q = 0 \<longrightarrow> digit type ?d \<noteq> chr CHR ''0''"
    proof (intro impI notI)
      assume "?q = 0" and z: "digit type ?d = chr CHR ''0''"
      then have "uint (num div 10) = 0" by simp
      then have "uint num div 10 = 0" by (simp add: uint_div)
      then have "uint num < 10" using uint_ge_0 [of num] by (auto simp: zdiv_eq_0_iff)
      then have "uint ?d = uint num" using uint_ge_0 [of num] by (simp add: uint_mod)
      moreover have "uint (digit type ?d) = 48" unfolding z by simp
      ultimately show False using False d by (simp add: unsigned_eq_0_iff)
    qed
    ultimately show ?thesis using ih by (auto simp: n number_digits.simps [of 10 type 0])
  qed
qed

text \<open>The number without a sign, and the whole text of a conversion to a decimal number.\<close>

definition decimal :: "u32 \<Rightarrow> u8 list" where
  "decimal num = (if num = 0 then map chr ''0'' else rev (number_digits 10 SIGN num))"

lemma number_digits_length: "unat num < 10 ^ k \<Longrightarrow> length (number_digits 10 type num) \<le> k"
proof (induction k arbitrary: num)
  case 0
  then show ?case by (simp add: unat_eq_zero number_digits.simps)
next
  case (Suc k)
  then have "unat (num div 10) < 10 ^ k" by (simp add: unat_div_distrib less_mult_imp_div_less mult.commute)
  then show ?case using Suc.IH by (simp add: number_digits.simps [of 10 type num] divisor_def)
qed

lemma decimal_length: "length (decimal num) \<le> 10"
proof -
  have "unat num < 10 ^ 10" using unsigned_less [of num, where 'a = nat] by simp
  from number_digits_length [OF this, of SIGN] show ?thesis by (simp add: decimal_def)
qed

lemma decimal_read:
  "skip_atoi 0 (decimal num) = (if uint num \<le> INT_MAX - 48 then Some (uint num, []) else None)
    \<and> decimal num \<noteq> [] \<and> (hd (decimal num) = chr CHR ''0'' \<longrightarrow> num = 0)"
proof (cases "num = 0")
  case True
  then show ?thesis by (simp add: decimal_def isdigit_def INT_MAX_def)
next
  case False
  with number_digits_decimal [of SIGN num] show ?thesis
    by (simp add: decimal_def skip_atoi_digits hd_rev INT_MAX_def)
qed

lemma decimal_text:
  assumes "sint x \<noteq> - (2 ^ 31)"
  shows "format_text (map chr ''%d'') [Int_arg x] = Some ((if sint x < 0 then map chr ''-'' else []) @ decimal (magnitude SIGN x))"
proof -
  have "length (decimal (magnitude SIGN x)) \<le> 10" by (rule decimal_length)
  then have n: "number_text x 10 (- 1) (- 1) SIGN = Some ((if sint x < 0 then map chr ''-'' else []) @ decimal (magnitude SIGN x))"
    using assms
    by (auto simp: number_text_def sign_text_def digits_text_def decimal_def zeros_def spaces_def SIGN_def PLUS_def SPACE_def LEFT_def ZEROPAD_def Let_def)
  have "format_text (map chr ''%d'') [Int_arg x] = map_option (\<lambda>t. t @ []) (number_text x 10 (- 1) (- 1) SIGN)"
    by (cases "number_text x 10 (- 1) (- 1) SIGN")
      (simp_all add: read_spec_def read_width_def read_precision_def read_qualifier_def conversion_text_def integer_conv_def peek_def isdigit_def
        number_arg_def va_int_def Let_def)
  then show ?thesis by (simp add: n)
qed

text \<open>
  C39: Printing a number with \<open>%d\<close> and reading the digits with \<open>skip_atoi\<close>, the parser that \<open>rt_vsnprintf\<close> uses for
  widths, gives the number back, up to 2147483599; for the 48 larger absolute values the sum in \<open>skip_atoi\<close> overflows before the
  code of the digit 0 is subtracted. The text is a minus sign for a negative number and the digits of its absolute value, without a
  zero in front. The smallest number is left out, because its negation overflows.
\<close>

theorem decimal_roundtrip:
  assumes "sint x \<noteq> - (2 ^ 31)" and "unat sz \<le> length mem" and "unat buf + length mem < 2 ^ 32" and "unat buf + 11 < 2 ^ 32"
  shows "\<exists>ds. rt_vsnprintf buf sz mem (map chr ''%d'') [Int_arg x]
      = Some (of_nat (length ((if sint x < 0 then map chr ''-'' else []) @ ds)),
          written (unat sz) ((if sint x < 0 then map chr ''-'' else []) @ ds) mem)
    \<and> skip_atoi 0 ds = (if \<bar>sint x\<bar> \<le> 2147483599 then Some (\<bar>sint x\<bar>, []) else None)
    \<and> ds \<noteq> [] \<and> (hd ds = chr CHR ''0'' \<longrightarrow> x = 0)"
proof -
  let ?t = "(if sint x < 0 then map chr ''-'' else []) @ decimal (magnitude SIGN x)"
  have "length ?t \<le> 11" using decimal_length [of "magnitude SIGN x"] by simp
  moreover have "\<not> buf + sz < buf" using assms(2,3) by (simp add: word_less_nat_alt unat_word_ariths)
  ultimately have p: "rt_vsnprintf buf sz mem (map chr ''%d'') [Int_arg x] = Some (of_nat (length ?t), written (unat sz) ?t mem)"
    using vsnprintf_writes [OF decimal_text [OF assms(1)], of buf sz sz mem] assms(2,4) by simp
  have neg: "sint x < 0 \<Longrightarrow> magnitude SIGN x = - x" and pos: "\<not> sint x < 0 \<Longrightarrow> magnitude SIGN x = x"
    by (simp_all add: magnitude_def SIGN_def)
  have "uint (magnitude SIGN x) = \<bar>sint x\<bar>"
  proof (cases "sint x < 0")
    case True
    then show ?thesis by (simp add: neg sint_sign)
  next
    case False
    then show ?thesis using sint_split [of x] by (simp add: pos)
  qed
  moreover have "magnitude SIGN x = 0 \<longrightarrow> x = 0" by (simp add: magnitude_def)
  ultimately show ?thesis using decimal_read [of "magnitude SIGN x"] p
    by (intro exI [of _ "decimal (magnitude SIGN x)"]) (simp add: INT_MAX_def)
qed

theorem decimal_roundtrip_witness:
  "\<exists>ds. rt_vsnprintf 0x20000100 8 (replicate 8 0xFF) (map chr ''%d'') [Int_arg (- 427)]
      = Some (of_nat (length (chr CHR ''-'' # ds)), written 8 (chr CHR ''-'' # ds) (replicate 8 0xFF))
    \<and> skip_atoi 0 ds = Some (427, []) \<and> ds \<noteq> []"
proof -
  have x: "sint (- 427 :: u32) = - 427" by simp
  from decimal_roundtrip [of "- 427" 8 "replicate 8 0xFF" "0x20000100"] show ?thesis unfolding x by auto
qed

text \<open>Octal numbers are printed with the digits of the hexadecimal number.\<close>

lemma octal_prints_hex: "rt_vsnprintf buf sz mem (map chr ''%o'') args = rt_vsnprintf buf sz mem (map chr ''%x'') args"
proof -
  have d: "number_digits 8 type num = number_digits 16 type num" for type num
  proof (induction "8 :: u8" type num rule: number_digits.induct)
    case (1 type num)
    then show ?case by (simp add: number_digits.simps [of 8 type num] number_digits.simps [of 16 type num] divisor_def)
  qed
  have p: "print_number num 8 w p f o1 = print_number num 16 w p f o1" for num w p f o1
    unfolding print_number_def d ..
  have "convert f w p q (chr CHR ''o'') args o1 = convert f w p q (chr CHR ''x'') args o1" for f w p q args o1
    by (simp add: convert_def p)
  then have "directive (map chr ''o'') args o1 = directive (map chr ''x'') args o1" for args o1
    by (simp add: directive_def read_spec_def read_width_def read_precision_def read_qualifier_def peek_def isdigit_def)
  then show ?thesis by (simp add: rt_vsnprintf_def)
qed

lemma octal_of_eight: "format_text (map chr ''%o'') [Int_arg 8] = Some (map chr ''8'')"
  by code_simp

subsection \<open>The console\<close>

lemma written_front: "length t < sz \<Longrightarrow> sz \<le> length mem \<Longrightarrow> take (length t) (written sz t mem) = t"
  by (cases sz) (auto simp: written_def overwritten_def)

lemma written_full: "0 < sz \<Longrightarrow> sz \<le> length t \<Longrightarrow> take sz (written sz t mem) = take (sz - 1) t @ [0]"
  by (cases sz) (auto simp: written_def overwritten_def min_def)

text \<open>
  C40: \<open>rt_kprintf\<close> on an open console sends the text of the format, with a carriage return before every line feed, if it has less
  than 127 bytes. A longer text is cut off after 126 bytes, and the end mark that \<open>rt_vsnprintf\<close> wrote into the buffer is sent as the
  127th byte.
\<close>

theorem kprintf_sends:
  assumes "usart_ready s" and "ref_count s \<noteq> 0" and "console \<noteq> 0" and "length log = 128" and "unat addr + 128 < 2 ^ 32"
    and "format_text fmt args = Some t" and "unat addr + length t < 2 ^ 32"
  shows "\<exists>log'. length log' = 128
    \<and> rt_kprintf addr fmt args console (log, s)
      = Some (log', s\<lparr>uart_calls := map Usart_SendData (rev (crlf (if length t < 127 then t else take 126 t @ [0]))) @ uart_calls s\<rparr>)"
proof -
  define w where "w = written 127 t log"
  have w: "length w = 128" using length_written [of 127 log t] by (simp add: w_def assms(4))
  have "\<not> addr + 127 < addr" using assms(5) by (simp add: word_less_nat_alt unat_word_ariths)
  then have p: "rt_vsnprintf addr 127 log fmt args = Some (of_nat (length t), w)"
    using vsnprintf_writes [OF assms(6,7), of 127 127 log] assms(4) by (simp add: w_def)
  define sent where "sent = (if length t < 127 then t else take 126 t @ [0])"
  have l: "length sent = min (length t) 127" by (auto simp: sent_def)
  have f: "take (length sent) w = sent"
  proof (cases "length t < 127")
    case True
    then show ?thesis using written_front [of t 127 log] assms(4) by (simp add: sent_def w_def)
  next
    case False
    then show ?thesis using written_full [of 127 t log] by (simp add: sent_def w_def)
  qed
  have split: "w = sent @ drop (length sent) w" using f by (metis append_take_drop_id)
  have n: "unat (of_nat (length t) :: u32) = length t" using assms(7) by (simp add: unat_of_nat)
  have len: "(if (of_nat (length t) :: u32) > 127 then 127 else of_nat (length t)) = of_nat (length sent)"
    by (auto simp: word_less_nat_alt n l min_def not_less dest: le_antisym)
  have "length sent < 2 ^ 32" by (simp add: l min_def)
  from console_write_sends [OF assms(1-3) this, of "drop (length sent) w"]
  have "console_write w (of_nat (length sent)) console s = Some (s\<lparr>uart_calls := map Usart_SendData (rev (crlf sent)) @ uart_calls s\<rparr>)"
    unfolding split [symmetric] .
  moreover have "rt_kprintf addr fmt args console (log, s)
      = do { s \<leftarrow> console_write w (if (of_nat (length t) :: u32) > 127 then 127 else of_nat (length t)) console s; Some (w, s) }"
    by (simp add: rt_kprintf_def RT_CONSOLEBUF_SIZE_def p)
  ultimately have "rt_kprintf addr fmt args console (log, s) = Some (w, s\<lparr>uart_calls := map Usart_SendData (rev (crlf sent)) @ uart_calls s\<rparr>)"
    unfolding len by simp
  with w show ?thesis by (simp add: sent_def)
qed

theorem kprintf_sends_witness:
  "\<exists>s log'. rt_device_open serial_ops 0x43 board_serial = Some (0, s)
    \<and> rt_kprintf 0x20000100 [0x75, 0x70, 10] [] SERIAL1 (replicate 128 0, s)
      = Some (log', s\<lparr>uart_calls := [Usart_SendData 10, Usart_SendData 13, Usart_SendData 0x70, Usart_SendData 0x75] @ uart_calls s\<rparr>)"
proof -
  from open_first_polling [OF board_serial_ready(1,6,3) rx_modes(4)] obtain s where
    s: "rt_device_open serial_ops 0x43 board_serial = Some (0, s)" "usart_ready s" "ref_count s = 1" by blast
  have t: "format_text [0x75, 0x70, 10] [] = Some [0x75, 0x70, 10]" by code_simp
  have c: "ref_count s \<noteq> 0" "SERIAL1 \<noteq> 0" "length (replicate 128 (0 :: u8)) = 128" by (simp_all add: s(3) SERIAL1_def)
  from kprintf_sends [OF s(2) c _ t, of "0x20000100"] s(1) show ?thesis by (auto simp: crlf_def)
qed

end
