(* ===== verification/Spec2Isabelle.thy ===== *)
theory Spec2Isabelle imports Prelude Gpio Jtag Dap DapCommands DapTransfer Board UsbDc UsbDcFacts
  UsbPort UsbPortProps UsbState UsbHid UsbCore UsbIrq UsbStable UsbPending UsbIrqFacts Descriptors System
  Enumeration Startup Control Interrupt Mem MemFacts MemAlloc MemFree MemClient MemRealloc MemProps RtList Kernel Timer Thread Ipc Bitmap
  KernelInv ThreadInv TimerInv TickInv CallInv IpcInv MutexInv KernelRun Boot KernelProps IpcProps
  PinDriver PinProps Device Serial SerialFifo SerialProps Format FormatProps begin

text \<open>
  Verification of the CMSIS-DAP v2 JTAG probe firmware for the N32G43x (project/CMSIS_DAPv2 of the
  repository): a USB HID device that takes 64-byte CMSIS-DAP requests, executes them on a JTAG port
  that it bit-bangs on GPIO port B, and returns a 64-byte answer. The USB stack is the vendored
  CherryUSB (middlewares/rt-thread/components/drivers/cherryusb), the operating system the vendored
  RT-Thread kernel (middlewares/rt-thread/src), both in the configuration of this image.

  How the parts interact. The interrupt handler of the controller port looks for pending transfers and
  notifies the device core. The core runs control transfers on endpoint 0, among them the requests that
  enumerate and configure the device, and calls the endpoint callbacks of main.c; the callback of OUT
  endpoint 2 reads a report, runs the command processor on it and sends the answer on IN endpoint 1.
  The kernel starts the thread that runs main, shares the processor between threads by priority and time slice on
  the tick interrupt, and provides the heap, timers, semaphores and mutexes.

  Parts and theories.

  Prelude: machine integers, checked array access (an access outside an object is \<open>None\<close>), counted
  loops, little-endian words, bits packed least significant first, 16-bit words bit by bit.

  Gpio: accesses to the set, clear and input registers of port B as a trace, newest first; the pin
  levels, the rising TCK edges and the TDO samples are functions of that trace. The JTAG target
  outside the chip is a parameter (\<open>target\<close>), a function from the trace to the input register.

  Jtag (jtag_driver.c, jtag_driver.h): divider, TAP state, clocked TMS sequences, the walk to a state,
  the data shift. The TAP controller of the target is a parameter with the sixteen-state behaviour of
  IEEE 1149.1 as the laws of the locale \<open>tap_controller\<close>.

  Dap (dap_main.c, dap_main.h): the command processor; one definition per handler, the loops of the
  sequence and transfer handlers as recursions over their counters. DapCommands: the state invariant,
  the contract \<open>dap_command\<close> of a handler and its interpretation on each handler, the answers and the
  wire behaviour of the non-transfer commands, the dispatcher. DapTransfer: the same for DAP_TRANSFER
  and DAP_TRANSFER_BLOCK.

  Board (main.c): clocks, interrupts, pull-up. UsbDc (usb_dc_fsdev.c and the macros of
  usb_fsdev_reg.h): the endpoint registers with their toggle and write-zero bits, the packet memory and
  its buffer table, the driver functions. UsbDcFacts: the contract \<open>epr_op\<close> of an endpoint macro and its
  interpretation on each macro, packets in the packet memory. UsbPort, UsbPortProps: what the driver
  functions do on well-formed states, the allocation of packet memory.

  UsbState: the state of the core and of the HID class (usbd_core.c, usbd_hid.c) with pointers to the
  data of a control transfer as an object and an offset. UsbHid: usbd_hid.c and the registration
  functions. UsbCore: the rest of usbd_core.c. UsbIrq: \<open>USBD_IRQHandler\<close>. UsbStable: the contract
  \<open>port_relation\<close>, a relation on the controller port that every driver function keeps and hence every
  handler of the core. UsbPending, UsbIrqFacts: its interpretation on pending transfers, the laws
  \<open>ctr_arbiter\<close> of the peripheral's arbitration with its interpretation, and that a round of the interrupt loop clears a flag.

  Descriptors (usb_descriptor.c): the descriptor tables. System (main.c): the endpoint callbacks,
  \<open>cmsis_dap_usb_init\<close> and \<open>main\<close>. Enumeration: the descriptor search, SET_CONFIGURATION, the state after
  \<open>main\<close>. Startup: bus reset and configuration. Control: control transfers on endpoint 0 from the setup
  packet to the last packet that the host reads, SET_ADDRESS, OUT data of several packets. Interrupt: the states that the
  firmware reaches from \<open>main\<close> by interrupts have only the callbacks of main.c installed, these set no transfer flag, and so the
  interrupt loop ends; a round that faults is told from the end of the loop, and reports do not fault.

  Mem (mem.c, and rt_memcpy and rt_memset of kservice.c): the heap of the kernel, with the block headers in
  a byte-addressed memory. MemFacts: the list of blocks behind the chain of headers, the invariant
  \<open>heap_inv\<close>. MemAlloc, MemFree: \<open>rt_malloc\<close> and \<open>rt_free\<close> refine first fit and coalescing on that list.
  MemClient: the contract \<open>allocator\<close> of an allocator with its clients, interpreted on the model.
  MemRealloc, MemProps: \<open>rt_realloc\<close>, \<open>rt_calloc\<close>, the board's heap (board.c), the properties.

  RtList (rtservice.h): the linked lists of the kernel as rings, related to sequences. Kernel (scheduler.c,
  irq.c, object.c), Timer (timer.c), Thread (thread.c, clock.c, idle.c, the tick handler of board.c), Ipc (ipc.c): the state of the
  kernel, threads and objects by address, one definition per function. A function that suspends its caller stops at the switch with
  \<open>Block\<close>; the code after the switch is a definition named \<open>..._resumed\<close>. Context switches are events.

  Bitmap: \<open>__rt_ffs\<close> finds the lowest bit. KernelInv, ThreadInv, TimerInv, TickInv, CallInv: the invariant \<open>kinv\<close> with
  the sequences \<open>L\<close> of all lists. It says that the lists are rings with members of the right kind, that the bitmap tells which
  ready lists are occupied, that a thread is on the ready list of its priority exactly when it is ready, that the timers are in the order
  in which they are due and exactly the activated ones, and that owners and values of mutexes and semaphores fit their
  waiting threads. Each lemma gives the lists after an operation; IpcInv and MutexInv do so for whole calls, on every branch.
  KernelRun: threads that make calls, and ticks between them; the contract \<open>kernel_call\<close> of a call, interpreted on each
  call. Boot (components.c, idle.c): the start from reset, and creating threads, semaphores and mutexes. KernelProps, IpcProps: the properties,
  with running systems as witnesses.

  PinDriver (drv_gpio.c, pin.c): pin numbers and modes, the handlers of the sixteen external interrupt lines and the interrupts
  they share; calls of the peripheral library are events. PinProps: the interrupt controller and the driver's mask agree after any
  operations and interrupts; who owns a line.

  Device (device.c): the container of devices, opening and closing with a count of references, calls through the function
  pointers of a device, which are a record of functions on the record that the driver extends; the pin device (pin.c).
  Serial (serial.c, drv_usart.c, the console of kservice.c): the serial device on the USART, with its receive buffer, its
  interrupt, and the console on top. The words that the line will deliver are part of the state. SerialFifo: the contract
  \<open>lossy_queue\<close> of a queue that gives up its oldest elements, interpreted on the receive buffer. SerialProps: what is read
  is what was received, less what did not fit; who shares the buffer, and the second open that outlives it.

  Format (kservice.c): \<open>rt_vsnprintf\<close> with its number conversion, its variants and \<open>rt_kprintf\<close>; a format and its arguments are
  lists, pointers are 32-bit addresses that wrap, the buffer is an object at an address, and a write outside it is a fault. FormatProps: \<open>format_text\<close>,
  the text of a format without a buffer; the code writes that text cut to the buffer, unless it is so long that the pointer wraps;
  numbers are read back by \<open>skip_atoi\<close>, and what the console sends.

  Fuel. Only the interrupt loop has fuel, 16 rounds: eight endpoint registers hold at most sixteen
  transfer flags and each round clears one, which Interrupt proves without fuel as a bound on the number of rounds. Every other loop is bounded by a count or by a table; the
  descriptor walk terminates because every step advances by a non-zero length. The two loops of
  \<open>rt_malloc\<close> follow the chain of headers and are partial functions: not ending is \<open>None\<close>, and they are
  proved to end on a well-formed heap. So are the walks of the kernel along its lists, and the loops of the timer
  check and of the idle thread, with the invariant of the kernel; only a retry after a signal, which is not configured, is
  never taken. The loops of formatted output run over the format and over the digits of a number, and the loop of the serial
  interrupt runs until the receiver is found empty.

  Kernel calls are atomic with respect to the tick: a tick comes before a call, after it, or while its caller is suspended. Where the
  code enables interrupts inside a call, another order of effects is possible that this leaves out. Leaving a critical section inside the
  creation of an object reschedules, which the lemmas of Boot show to be without effect when the running thread is the one
  the scheduler would select. Memory blocks of the heap and the objects in them are kept apart: an object is read
  and written through its fields, its bytes are only cleared. At reset every list node points to itself. Waiting times are below half the
  range of the tick, as the timer asserts.

  Bounds. Interrupts do not nest and no transfer arrives while the interrupt handler runs. A write to an
  endpoint register above the eighth, to packet memory outside its 512 bytes, or through a null pointer
  is a fault (\<open>None\<close>).

  Not modelled: the vendor peripheral library and CMSIS (third-party register code; its calls are events), the logging macros, the
  host stack and the other USB classes of CherryUSB, and the parts of the kernel that this image does not
  configure (events, mailboxes, message queues, memory pools, signals, hooks, the timer thread, DMA and POSIX files of the serial
  device) or does not wait for (completions); the order of the initialisation functions that the linker collects; the switch of the processor context and the initial stack frame, which are assembly code of the port; the logger thread's
  endless loop and the interrupt vectors that only forward or loop. The callbacks of application timers and the
  clean-up functions of threads are parameters.
\<close>

end
